(* ===== verification/Prelude.thy ===== *)
theory Prelude
  imports Main "HOL-Library.Word" "HOL-Library.Monad_Syntax"
    "HOL-Library.List_Lexorder" "HOL-Library.Char_ord"
begin

text \<open>
  Shared vocabulary of the development: Rust characters and strings, byte and UTF-16
  lengths, slices of a string at a byte offset, the checked and saturating operations of
  Rust's unsigned integers, and the ordered maps (\<open>BTreeMap\<close>) the compiler keeps
  its symbol and effect tables in.

  A Rust \<open>char\<close> is a Unicode scalar value, kept as its number; a \<open>String\<close> is the list of
  its characters. Byte offsets are natural numbers: a \<open>usize\<close> that indexes a text in
  memory cannot overflow.
\<close>

named_theorems rust_simps \<open>unfoldings of the modelled standard-library operations\<close>

section \<open>Characters and strings\<close>

type_synonym rchar = nat
type_synonym rstring = "rchar list"

definition lit :: "string \<Rightarrow> rstring" where
  "lit s = map of_char s"

definition quoted :: "rstring \<Rightarrow> rstring" where
  "quoted s = [39] @ s @ [39]"

definition len_utf8 :: "rchar \<Rightarrow> nat" where
  "len_utf8 c = (if c < 0x80 then 1 else if c < 0x800 then 2 else if c < 0x10000 then 3 else 4)"

definition len_utf16 :: "rchar \<Rightarrow> nat" where
  "len_utf16 c = (if c < 0x10000 then 1 else 2)"

definition utf8_len :: "rstring \<Rightarrow> nat" where
  "utf8_len s = sum_list (map len_utf8 s)"

definition utf16_len :: "rstring \<Rightarrow> nat" where
  "utf16_len s = sum_list (map len_utf16 s)"

lemma len_utf8_pos [simp]: "0 < len_utf8 c"
  by (simp add: len_utf8_def)

lemma len_utf16_pos [simp]: "0 < len_utf16 c"
  by (simp add: len_utf16_def)

lemma utf8_len_simps [simp]:
  "utf8_len [] = 0" "utf8_len (c # s) = len_utf8 c + utf8_len s"
  "utf8_len (s @ t) = utf8_len s + utf8_len t"
  by (simp_all add: utf8_len_def)

lemma utf16_len_simps [simp]:
  "utf16_len [] = 0" "utf16_len (c # s) = len_utf16 c + utf16_len s"
  "utf16_len (s @ t) = utf16_len s + utf16_len t"
  by (simp_all add: utf16_len_def)

lemma utf8_len_eq_0 [simp]: "utf8_len s = 0 \<longleftrightarrow> s = []"
  by (cases s) auto

lemma utf16_len_eq_0 [simp]: "utf16_len s = 0 \<longleftrightarrow> s = []"
  by (cases s) auto

text \<open>
  \<open>slice_from s n\<close> is \<open>&s[n..]\<close> and \<open>slice_range s a b\<close> is \<open>&s[a..b]\<close>. Rust panics when an
  offset is not a character boundary; \<open>char_boundary\<close> says when it is one, and the
  components prove it of every offset they slice at.
\<close>

fun slice_from :: "rstring \<Rightarrow> nat \<Rightarrow> rstring" where
  "slice_from [] n = []"
| "slice_from (c # s) n = (if n = 0 then c # s else slice_from s (n - len_utf8 c))"

fun slice_to :: "rstring \<Rightarrow> nat \<Rightarrow> rstring" where
  "slice_to [] n = []"
| "slice_to (c # s) n = (if n = 0 then [] else c # slice_to s (n - len_utf8 c))"

definition slice_range :: "rstring \<Rightarrow> nat \<Rightarrow> nat \<Rightarrow> rstring" where
  "slice_range s a b = slice_to (slice_from s a) (b - a)"

fun char_boundary :: "rstring \<Rightarrow> nat \<Rightarrow> bool" where
  "char_boundary [] n = (n = 0)"
| "char_boundary (c # s) n = (n = 0 \<or> len_utf8 c \<le> n \<and> char_boundary s (n - len_utf8 c))"

lemma slice_from_append [simp]: "slice_from (p @ r) (utf8_len p) = r"
proof (induction p)
  case Nil
  then show ?case by (cases r) auto
next
  case (Cons c p)
  then show ?case by simp
qed

lemma slice_from_all [simp]: "slice_from p (utf8_len p) = []"
  using slice_from_append [of p "[]"] by simp

lemma slice_to_append [simp]: "slice_to (p @ r) (utf8_len p) = p"
proof (induction p)
  case Nil
  then show ?case by (cases r) auto
next
  case (Cons c p)
  then show ?case by simp
qed

lemma slice_range_append:
  "slice_range (p @ w @ r) (utf8_len p) (utf8_len (p @ w)) = w"
  by (simp add: slice_range_def)

lemma char_boundary_iff: "char_boundary s n \<longleftrightarrow> (\<exists>p r. s = p @ r \<and> n = utf8_len p)"
proof (induction s n rule: char_boundary.induct)
  case (1 n)
  then show ?case by auto
next
  case (2 c s n)
  show ?case
  proof (cases "n = 0")
    case True
    then show ?thesis by auto
  next
    case False
    then have "char_boundary (c # s) n \<longleftrightarrow>
        len_utf8 c \<le> n \<and> (\<exists>p r. s = p @ r \<and> n - len_utf8 c = utf8_len p)"
      using 2 by auto
    also have "\<dots> \<longleftrightarrow> (\<exists>p r. c # s = (c # p) @ r \<and> n = utf8_len (c # p))"
      by auto
    also have "\<dots> \<longleftrightarrow> (\<exists>p r. c # s = p @ r \<and> n = utf8_len p)"
      using False by (metis append_eq_Cons_conv utf8_len_eq_0)
    finally show ?thesis .
  qed
qed

section \<open>Unsigned machine integers\<close>

definition checked_add :: "'a::len word \<Rightarrow> 'a word \<Rightarrow> 'a word option" where
  "checked_add a b = (if unat a + unat b < 2 ^ LENGTH('a) then Some (a + b) else None)"

definition checked_mul :: "'a::len word \<Rightarrow> 'a word \<Rightarrow> 'a word option" where
  "checked_mul a b = (if unat a * unat b < 2 ^ LENGTH('a) then Some (a * b) else None)"

definition saturating_add :: "'a::len word \<Rightarrow> 'a word \<Rightarrow> 'a word" where
  "saturating_add a b = (if unat a + unat b < 2 ^ LENGTH('a) then a + b else - 1)"

lemma checked_add_Some [rust_simps]:
  "checked_add a b = Some c \<Longrightarrow> unat c = unat a + unat b"
  by (auto simp: checked_add_def unat_word_ariths split: if_splits)

lemma checked_mul_Some [rust_simps]:
  "checked_mul a b = Some c \<Longrightarrow> unat c = unat a * unat b"
  by (auto simp: checked_mul_def unat_word_ariths split: if_splits)

lemma checked_add_iff: "checked_add a b = Some c \<longleftrightarrow> unat c = unat a + unat b"
  by (auto simp: checked_add_def word_unat_eq_iff unat_word_ariths) (metis unsigned_less)

lemma checked_mul_iff: "checked_mul a b = Some c \<longleftrightarrow> unat c = unat a * unat b"
  by (auto simp: checked_mul_def word_unat_eq_iff unat_word_ariths) (metis unsigned_less)

lemma unat_saturating_add:
  "unat (saturating_add a b) = min (unat a + unat b) (2 ^ LENGTH('a) - 1)"
  for a b :: "'a::len word"
  by (auto simp: saturating_add_def unat_word_ariths unsigned_minus_1_eq_mask mask_eq_exp_minus_1 min_def)

section \<open>Options\<close>

lemma bind_Some_iff [simp]:
  "Option.bind m f = Some y \<longleftrightarrow> (\<exists>x. m = Some x \<and> f x = Some y)"
  by (cases m) auto

section \<open>Iterators\<close>

definition iter_position :: "('a \<Rightarrow> bool) \<Rightarrow> 'a list \<Rightarrow> nat option" where
  "iter_position P xs =
     (let n = length (takeWhile (\<lambda>x. \<not> P x) xs) in if n < length xs then Some n else None)"

lemma iter_position_Some:
  assumes "iter_position P xs = Some i"
  shows "i < length xs" "P (xs ! i)" "\<forall>j < i. \<not> P (xs ! j)"
proof -
  have i: "i = length (takeWhile (\<lambda>x. \<not> P x) xs)" "i < length xs"
    using assms by (auto simp: iter_position_def Let_def split: if_splits)
  show "i < length xs" by (fact i(2))
  show "P (xs ! i)" using nth_length_takeWhile [of "\<lambda>x. \<not> P x" xs] i by simp
  show "\<forall>j < i. \<not> P (xs ! j)"
    using i(1) by (metis nth_mem set_takeWhileD takeWhile_nth)
qed

lemma iter_position_None: "iter_position P xs = None \<longleftrightarrow> (\<forall>x \<in> set xs. \<not> P x)"
proof -
  have "length (takeWhile (\<lambda>x. \<not> P x) xs) < length xs \<longleftrightarrow> takeWhile (\<lambda>x. \<not> P x) xs \<noteq> xs"
    by (metis length_takeWhile_le nat_less_le takeWhile_eq_take take_all_iff)
  then show ?thesis by (auto simp: iter_position_def Let_def takeWhile_eq_all_conv)
qed

section \<open>Results\<close>

text \<open>The \<open>?\<close> operator on \<open>Result\<close>: an error ends the function with it.\<close>

fun result_bind :: "'e + 'a \<Rightarrow> ('a \<Rightarrow> 'e + 'b) \<Rightarrow> 'e + 'b" where
  "result_bind (Inl e) f = Inl e"
| "result_bind (Inr x) f = f x"

lemma result_bind_Inr_iff [simp]: "result_bind r f = Inr y \<longleftrightarrow> (\<exists>x. r = Inr x \<and> f x = Inr y)"
  by (cases r) auto

lemma result_bind_Inl_iff: "result_bind r f = Inl e \<longleftrightarrow> r = Inl e \<or> (\<exists>x. r = Inr x \<and> f x = Inl e)"
  by (cases r) auto

lemma result_bind_cong [fundef_cong]:
  "r = r' \<Longrightarrow> (\<And>x. r' = Inr x \<Longrightarrow> f x = f' x) \<Longrightarrow> result_bind r f = result_bind r' f'"
  by (cases r') auto

section \<open>Decimal numbers\<close>

fun nat_decimal :: "nat \<Rightarrow> rstring" where
  "nat_decimal n = (if n < 10 then [48 + n] else nat_decimal (n div 10) @ [48 + n mod 10])"

declare nat_decimal.simps [simp del]

definition int_decimal :: "int \<Rightarrow> rstring" where
  "int_decimal i = (if i < 0 then 45 # nat_decimal (nat (- i)) else nat_decimal (nat i))"

end
