(* ===== verification/Ordered_Map.thy ===== *)
theory Ordered_Map
  imports Prelude
begin

text \<open>
  The interface of Rust's \<open>BTreeMap\<close> the compiler relies on, as a locale, and its model: an
  association list with strictly increasing keys. Iteration is in key order, equality of maps
  is equality of the lists, and all programs of this development are executable on it.
\<close>

section \<open>The interface\<close>

locale ordered_map =
  fixes get :: "'m \<Rightarrow> 'k \<Rightarrow> 'v option"
    and insert :: "'k \<Rightarrow> 'v \<Rightarrow> 'm \<Rightarrow> 'm"
    and remove :: "'k \<Rightarrow> 'm \<Rightarrow> 'm"
    and empty :: 'm
    and entries :: "'m \<Rightarrow> ('k \<times> 'v) list"
    and ok :: "'m \<Rightarrow> bool"
  assumes get_empty: "get empty k = None"
    and get_insert: "ok m \<Longrightarrow> get (insert k v m) k' = (if k' = k then Some v else get m k')"
    and get_remove: "ok m \<Longrightarrow> get (remove k m) k' = (if k' = k then None else get m k')"
    and ok_empty: "ok empty"
    and ok_insert: "ok m \<Longrightarrow> ok (insert k v m)"
    and ok_remove: "ok m \<Longrightarrow> ok (remove k m)"
    and get_entries: "ok m \<Longrightarrow> map_of (entries m) = get m"
    and distinct_entries: "ok m \<Longrightarrow> distinct (map fst (entries m))"
    and get_ext: "ok m \<Longrightarrow> ok n \<Longrightarrow> get m = get n \<Longrightarrow> m = n"
begin

text \<open>
  A loop over the entries of one map that updates another at each key: every key sees its own
  entry only, whatever the order.
\<close>

lemma fold_update:
  assumes upd_get: "\<And>k v m k'. ok m \<Longrightarrow>
      get (upd k v m) k' = (if k' = k then f (get m k) v else get m k')"
    and upd_ok: "\<And>k v m. ok m \<Longrightarrow> ok (upd k v m)"
    and "ok m" "distinct (map fst es)"
  shows "ok (fold (\<lambda>(k, v). upd k v) es m) \<and>
    get (fold (\<lambda>(k, v). upd k v) es m) k =
      (case map_of es k of None \<Rightarrow> get m k | Some v \<Rightarrow> f (get m k) v)"
  using assms(3,4)
proof (induction es arbitrary: m)
  case Nil
  then show ?case by simp
next
  case (Cons e es)
  obtain k' v' where e: "e = (k', v')" by (cases e)
  with Cons.prems have "ok (upd k' v' m)" "distinct (map fst es)" by (auto intro: upd_ok)
  note IH = Cons.IH [OF this]
  have "map_of es k' = None" using Cons.prems(2) e by (simp add: map_of_eq_None_iff)
  with IH upd_get [OF Cons.prems(1)] show ?case
    by (cases "k = k'") (simp_all add: e split: option.split)
qed

lemma fold_update_entries:
  assumes upd_get: "\<And>k v m k'. ok m \<Longrightarrow>
      get (upd k v m) k' = (if k' = k then f (get m k) v else get m k')"
    and upd_ok: "\<And>k v m. ok m \<Longrightarrow> ok (upd k v m)"
    and "ok m" "ok n"
  shows "ok (fold (\<lambda>(k, v). upd k v) (entries n) m)"
    and "get (fold (\<lambda>(k, v). upd k v) (entries n) m) k =
      (case get n k of None \<Rightarrow> get m k | Some v \<Rightarrow> f (get m k) v)"
  using fold_update [where upd = upd and f = f, OF upd_get upd_ok assms(3) distinct_entries [OF assms(4)]]
    get_entries [OF assms(4)] by simp_all

lemma ok_fold_insert: "ok m \<Longrightarrow> ok (fold (\<lambda>(k, v). insert k v) es m)"
  by (induction es arbitrary: m) (auto intro: ok_insert)

text \<open>Collecting pairs into a map: the last pair of a key wins.\<close>

lemma get_fold_insert:
  "ok m \<Longrightarrow> get (fold (\<lambda>(k, v). insert k v) es m) k =
     (case map_of (rev es) k of None \<Rightarrow> get m k | Some v \<Rightarrow> Some v)"
  by (induction es arbitrary: m)
    (auto simp: get_insert ok_insert map_add_def split: option.splits)

lemma get_entries_mem: "ok m \<Longrightarrow> (k, v) \<in> set (entries m) \<longleftrightarrow> get m k = Some v"
  by (metis distinct_entries get_entries map_of_eq_Some_iff)

end

section \<open>The model\<close>

type_synonym ('k, 'v) btree = "('k \<times> 'v) list"

definition bt_get :: "('k, 'v) btree \<Rightarrow> 'k \<Rightarrow> 'v option" where
  "bt_get m k = map_of m k"

fun bt_insert :: "'k::linorder \<Rightarrow> 'v \<Rightarrow> ('k, 'v) btree \<Rightarrow> ('k, 'v) btree" where
  "bt_insert k v [] = [(k, v)]"
| "bt_insert k v ((k', v') # m) =
     (if k < k' then (k, v) # (k', v') # m
      else if k = k' then (k, v) # m
      else (k', v') # bt_insert k v m)"

definition bt_remove :: "'k \<Rightarrow> ('k, 'v) btree \<Rightarrow> ('k, 'v) btree" where
  "bt_remove k m = filter (\<lambda>e. fst e \<noteq> k) m"

definition bt_ok :: "('k::linorder, 'v) btree \<Rightarrow> bool" where
  "bt_ok m \<longleftrightarrow> sorted_wrt (<) (map fst m)"

definition bt_collect :: "('k::linorder \<times> 'v) list \<Rightarrow> ('k, 'v) btree" where
  "bt_collect es = fold (\<lambda>(k, v). bt_insert k v) es []"

lemma bt_ok_Cons: "bt_ok (e # m) \<longleftrightarrow> (\<forall>x \<in> set m. fst e < fst x) \<and> bt_ok m"
  by (simp add: bt_ok_def)

lemma bt_insert_keys: "set (map fst (bt_insert k v m)) = insert k (set (map fst m))"
  by (induction k v m rule: bt_insert.induct) auto

lemma bt_ok_insert: "bt_ok m \<Longrightarrow> bt_ok (bt_insert k v m)"
proof (induction k v m rule: bt_insert.induct)
  case (2 k v k' v' m)
  have "\<forall>x \<in> set (bt_insert k v m). k' < fst x" if "k' < k" "\<forall>x \<in> set m. k' < fst x"
  proof
    fix x
    assume "x \<in> set (bt_insert k v m)"
    then have "fst x \<in> set (map fst (bt_insert k v m))" by simp
    with that show "k' < fst x" unfolding bt_insert_keys by auto
  qed
  with 2 show ?case by (auto simp: bt_ok_Cons)
qed (simp add: bt_ok_def)

lemma bt_get_insert:
  "bt_ok m \<Longrightarrow> bt_get (bt_insert k v m) k' = (if k' = k then Some v else bt_get m k')"
  by (induction k v m rule: bt_insert.induct) (auto simp: bt_get_def bt_ok_Cons)

lemma bt_get_remove: "bt_get (bt_remove k m) k' = (if k' = k then None else bt_get m k')"
  by (induction m) (auto simp: bt_get_def bt_remove_def)

lemma bt_ok_remove: "bt_ok m \<Longrightarrow> bt_ok (bt_remove k m)"
  by (simp add: bt_ok_def bt_remove_def sorted_wrt_map sorted_wrt_filter)

lemma bt_ok_filter: "bt_ok m \<Longrightarrow> bt_ok (filter P m)"
  by (simp add: bt_ok_def sorted_wrt_map sorted_wrt_filter)

lemma bt_ok_distinct: "bt_ok m \<Longrightarrow> distinct (map fst m)"
  unfolding bt_ok_def by (simp add: strict_sorted_iff)

lemma bt_get_ext:
  assumes "bt_ok m" "bt_ok n" "bt_get m = bt_get n"
  shows "m = n"
proof -
  have "map_of m = map_of n" using assms(3) by (simp add: bt_get_def fun_eq_iff)
  then have set: "set m = set n"
    using map_of_inject_set [OF bt_ok_distinct [OF assms(1)] bt_ok_distinct [OF assms(2)]] by simp
  have "sorted_wrt (\<lambda>a b. fst a < fst b) m" "sorted_wrt (\<lambda>a b. fst a < fst b) n"
    using assms(1,2) by (simp_all add: bt_ok_def sorted_wrt_map)
  moreover have "distinct m" "distinct n"
    using assms(1,2) bt_ok_distinct distinct_map by blast+
  ultimately show ?thesis
    using set
  proof (induction m arbitrary: n)
    case Nil
    then show ?case by simp
  next
    case (Cons a m)
    then obtain b n' where n: "n = b # n'" by (cases n) auto
    have "a = b"
    proof (rule ccontr)
      assume "a \<noteq> b"
      with Cons.prems n have "b \<in> set m" "a \<in> set n'" by auto
      with Cons.prems n show False by (auto dest: less_asym)
    qed
    then have "set m = set n'" using Cons.prems n by (simp add: insert_ident)
    with Cons.IH [of n'] Cons.prems n \<open>a = b\<close> show ?case by simp
  qed
qed

lemma bt_get_map_of: "map_of m = bt_get m"
  by (simp add: bt_get_def fun_eq_iff)

interpretation bt: ordered_map bt_get bt_insert bt_remove "[]" "\<lambda>m. m" bt_ok
proof (unfold_locales, goal_cases)
  case (1 k)
  show ?case by (simp add: bt_get_def)
next
  case 4
  show ?case by (simp add: bt_ok_def)
next
  case (9 m n)
  then show ?case by (rule bt_get_ext)
qed (simp_all add: bt_get_insert bt_get_remove bt_ok_insert bt_ok_remove bt_ok_distinct bt_get_map_of)

lemma bt_ok_collect [simp]: "bt_ok (bt_collect es)"
  unfolding bt_collect_def by (rule bt.ok_fold_insert [OF bt.ok_empty])

lemma bt_get_collect: "bt_get (bt_collect es) k = map_of (rev es) k"
  unfolding bt_collect_def bt.get_fold_insert [OF bt.ok_empty]
  by (simp add: bt.get_empty split: option.split)

lemma bt_map_of_rev: "distinct (map fst es) \<Longrightarrow> map_of (rev es) = map_of es"
  by (intro map_of_inject_set [THEN iffD2]) (simp_all add: rev_map [symmetric])

lemma bt_collect_id:
  assumes "bt_ok m"
  shows "bt_collect m = m"
proof (rule bt_get_ext)
  have "map_of (rev m) = map_of m"
    by (rule bt_map_of_rev [OF bt_ok_distinct [OF assms]])
  then show "bt_get (bt_collect m) = bt_get m"
    by (simp add: fun_eq_iff bt_get_collect) (simp add: bt_get_def)
qed (simp_all add: assms)

end
