(* ===== verification/Effects.thy ===== *)
theory Effects
  imports Ordered_Map
begin

text \<open>
  The effect lattice and the bottom-up solver of \<^verbatim>\<open>src/src/ir/effects.rs\<close>: memory accesses
  per root, function summaries, the call graph, its strongly connected components and the
  iteration to a fixpoint under a step budget. Function names are strings; a parameter index
  (\<open>u32\<close>) and the step counters are natural numbers, which the budget keeps below \<open>u32::MAX\<close>.
\<close>

section \<open>Targets and accesses\<close>

datatype effect_target = Parameter nat | AllMemory

text \<open>The derived order: parameters by index, then \<open>All\<close>.\<close>

instantiation effect_target :: linorder
begin

fun less_eq_effect_target :: "effect_target \<Rightarrow> effect_target \<Rightarrow> bool" where
  "less_eq_effect_target (Parameter i) (Parameter j) = (i \<le> j)"
| "less_eq_effect_target (Parameter i) AllMemory = True"
| "less_eq_effect_target AllMemory (Parameter j) = False"
| "less_eq_effect_target AllMemory AllMemory = True"

definition less_effect_target :: "effect_target \<Rightarrow> effect_target \<Rightarrow> bool" where
  "less_effect_target a b \<longleftrightarrow> a \<le> b \<and> \<not> b \<le> a"

instance
proof
  fix x y z :: effect_target
  show "x < y \<longleftrightarrow> x \<le> y \<and> \<not> y \<le> x" by (rule less_effect_target_def)
  show "x \<le> x" by (cases x) auto
  show "x \<le> y \<Longrightarrow> y \<le> z \<Longrightarrow> x \<le> z" by (cases x; cases y; cases z) auto
  show "x \<le> y \<Longrightarrow> y \<le> x \<Longrightarrow> x = y" by (cases x; cases y) auto
  show "x \<le> y \<or> y \<le> x" by (cases x; cases y) auto
qed

end

datatype memory_effect = MeNone | MeRead | MeWrite | MeReadWrite

fun me_join :: "memory_effect \<Rightarrow> memory_effect \<Rightarrow> memory_effect" where
  "me_join MeNone effect = effect"
| "me_join effect MeNone = effect"
| "me_join MeRead MeRead = MeRead"
| "me_join MeWrite MeWrite = MeWrite"
| "me_join _ _ = MeReadWrite"

fun me_allows :: "memory_effect \<Rightarrow> memory_effect \<Rightarrow> bool" where
  "me_allows _ MeNone = True"
| "me_allows MeRead MeRead = True"
| "me_allows MeWrite MeWrite = True"
| "me_allows MeReadWrite _ = True"
| "me_allows _ _ = False"

text \<open>
  The lattice order: \<open>a \<le> b\<close> when \<open>b\<close> allows \<open>a\<close>. The join of the code is its least upper
  bound, so the library's facts on semilattices apply.
\<close>

instantiation memory_effect :: bounded_semilattice_sup_bot
begin

definition "a \<le> b \<longleftrightarrow> me_allows b a"
definition "a < b \<longleftrightarrow> me_allows b a \<and> \<not> me_allows a b"
definition "sup a b = me_join a b"
definition "bot = MeNone"

instance
proof
  fix x y z :: memory_effect
  show "x < y \<longleftrightarrow> x \<le> y \<and> \<not> y \<le> x"
    by (simp add: less_memory_effect_def less_eq_memory_effect_def)
  show "x \<le> x" by (cases x) (auto simp: less_eq_memory_effect_def)
  show "x \<le> y \<Longrightarrow> y \<le> z \<Longrightarrow> x \<le> z"
    by (cases x; cases y; cases z) (auto simp: less_eq_memory_effect_def)
  show "x \<le> y \<Longrightarrow> y \<le> x \<Longrightarrow> x = y" by (cases x; cases y) (auto simp: less_eq_memory_effect_def)
  show "x \<le> sup x y" "y \<le> sup x y"
    by (cases x; cases y; simp add: less_eq_memory_effect_def sup_memory_effect_def)+
  show "y \<le> x \<Longrightarrow> z \<le> x \<Longrightarrow> sup y z \<le> x"
    by (cases x; cases y; cases z) (auto simp: less_eq_memory_effect_def sup_memory_effect_def)
  show "bot \<le> x" by (cases x) (auto simp: less_eq_memory_effect_def bot_memory_effect_def)
qed

end

lemma MeNone_least [simp]: "sup MeNone e = e" "sup e MeNone = e" "MeNone \<le> e"
  by (cases e; simp add: sup_memory_effect_def less_eq_memory_effect_def)+

lemma me_join_sup [simp]: "me_join a b = sup a b"
  by (simp add: sup_memory_effect_def)

lemma MeReadWrite_top [simp]: "e \<le> MeReadWrite"
  by (cases e) (simp_all add: less_eq_memory_effect_def)

record effect_access =
  ea_target :: effect_target
  ea_effect :: memory_effect

section \<open>Summaries\<close>

record effect_summary =
  es_memory :: "(effect_target, memory_effect) btree"
  runtime_effect :: bool
  may_fail :: bool
  unsafe_calls :: bool
  conservative :: bool

definition summary_empty :: effect_summary where
  "summary_empty =
     \<lparr>es_memory = [], runtime_effect = False, may_fail = False, unsafe_calls = False,
      conservative = False\<rparr>"

definition memory_at :: "effect_summary \<Rightarrow> effect_target \<Rightarrow> memory_effect" where
  "memory_at s t = (case bt_get (es_memory s) t of Some e \<Rightarrow> e | None \<Rightarrow> MeNone)"

definition add_access :: "effect_access \<Rightarrow> effect_summary \<Rightarrow> effect_summary" where
  "add_access a s =
     (let joined = me_join (memory_at s (ea_target a)) (ea_effect a) in
      s\<lparr>es_memory := (if joined = MeNone then bt_remove (ea_target a) (es_memory s)
                      else bt_insert (ea_target a) joined (es_memory s))\<rparr>)"

definition from_access :: "effect_access \<Rightarrow> effect_summary" where
  "from_access a = add_access a summary_empty"

definition full_conservative :: effect_summary where
  "full_conservative =
     (from_access \<lparr>ea_target = AllMemory, ea_effect = MeReadWrite\<rparr>)
       \<lparr>runtime_effect := True, may_fail := True, unsafe_calls := True, conservative := True\<rparr>"

definition accesses :: "effect_summary \<Rightarrow> effect_access list" where
  "accesses s = map (\<lambda>(t, e). \<lparr>ea_target = t, ea_effect = e\<rparr>) (es_memory s)"

definition summary_join :: "effect_summary \<Rightarrow> effect_summary \<Rightarrow> effect_summary" where
  "summary_join s other =
     (let s = fold (\<lambda>(t, e). add_access \<lparr>ea_target = t, ea_effect = e\<rparr>) (es_memory other) s in
      s\<lparr>runtime_effect := runtime_effect s \<or> runtime_effect other,
        may_fail := may_fail s \<or> may_fail other,
        unsafe_calls := unsafe_calls s \<or> unsafe_calls other,
        conservative := conservative s \<or> conservative other\<rparr>)"

definition summary_effect :: "effect_summary \<Rightarrow> effect_target \<Rightarrow> memory_effect" where
  "summary_effect s t = me_join (memory_at s t) (memory_at s AllMemory)"

section \<open>Graphs\<close>

record effect_call =
  ec_callee :: rstring
  ec_arguments :: "effect_target option list"
  ec_is_unsafe :: bool

record effect_function =
  ef_name :: rstring
  ef_parameter_count :: nat
  ef_direct :: effect_summary
  ef_calls :: "effect_call list"

type_synonym effect_graph = "effect_function list"

record effect_solve_result =
  sr_summaries :: "(rstring, effect_summary) btree"
  sr_sccs :: "rstring list list"
  sr_steps :: nat
  sr_max_steps :: nat
  sr_exhausted :: bool

type_synonym function_map = "(rstring, effect_function) btree"

definition map_target :: "effect_call \<Rightarrow> effect_target \<Rightarrow> effect_target option" where
  "map_target call t =
     (case t of
        AllMemory \<Rightarrow> Some AllMemory
      | Parameter i \<Rightarrow> if i < length (ec_arguments call) then ec_arguments call ! i
                       else Some AllMemory)"

definition map_callee_summary :: "effect_summary \<Rightarrow> effect_call \<Rightarrow> effect_summary" where
  "map_callee_summary summary call =
     (let mapped = summary_empty
        \<lparr>runtime_effect := runtime_effect summary, may_fail := may_fail summary,
         unsafe_calls := unsafe_calls summary \<or> ec_is_unsafe call,
         conservative := conservative summary\<rparr> in
      fold (\<lambda>a mapped. case map_target call (ea_target a) of
              Some t \<Rightarrow> add_access \<lparr>ea_target = t, ea_effect = ea_effect a\<rparr> mapped
            | None \<Rightarrow> mapped)
        (accesses summary) mapped)"

section \<open>Strongly connected components\<close>

definition callees :: "function_map \<Rightarrow> rstring \<Rightarrow> rstring list" where
  "callees fns name =
     (case bt_get fns name of
        Some f \<Rightarrow> filter (\<lambda>c. bt_get fns c \<noteq> None) (map ec_callee (ef_calls f))
      | None \<Rightarrow> [])"

text \<open>
  The work stack of \<open>reachable_from\<close>, its top first: the callees are pushed in reverse, so the
  first one ends up on top.
\<close>

function reach_loop :: "function_map \<Rightarrow> rstring set \<Rightarrow> rstring list \<Rightarrow> rstring set" where
  "reach_loop fns reached [] = reached"
| "reach_loop fns reached (name # pending) =
     (if name \<in> reached then reach_loop fns reached pending
      else reach_loop fns (insert name reached) (callees fns name @ pending))"
  by pat_completeness auto
termination
proof (relation "measures [\<lambda>(fs, reached, pending). card (set (map fst fs) - reached),
    \<lambda>(fs, reached, pending). length pending]", goal_cases)
  case (3 fns reached name pending)
  show ?case
  proof (cases "name \<in> set (map fst fns)")
    case True
    with 3 have "card (set (map fst fns) - insert name reached) <
        card (set (map fst fns) - reached)"
      by (intro psubset_card_mono) auto
    then show ?thesis by simp
  next
    case False
    then have "map_of fns name = None" by (simp add: map_of_eq_None_iff)
    then have "callees fns name = []" by (simp add: callees_def bt_get_def)
    moreover from False have "set (map fst fns) - insert name reached =
        set (map fst fns) - reached" by auto
    ultimately show ?thesis by simp
  qed
qed auto

definition reachable_from :: "rstring \<Rightarrow> function_map \<Rightarrow> rstring set" where
  "reachable_from start fns = reach_loop fns {} [start]"

definition scc_step :: "function_map \<Rightarrow> rstring \<Rightarrow> rstring set \<times> rstring list list \<Rightarrow>
    rstring set \<times> rstring list list" where
  "scc_step fns name = (\<lambda>(assigned, components).
     if name \<in> assigned then (assigned, components)
     else let component = filter (\<lambda>candidate. candidate \<notin> assigned \<and>
                candidate \<in> reachable_from name fns \<and>
                name \<in> reachable_from candidate fns) (map fst fns)
          in (assigned \<union> set component, components @ [component]))"

definition strongly_connected_components :: "function_map \<Rightarrow> rstring list list" where
  "strongly_connected_components fns =
     snd (fold (scc_step fns) (map fst fns) ({}, []))"

section \<open>The solver\<close>

definition the_function :: "function_map \<Rightarrow> rstring \<Rightarrow> effect_function" where
  "the_function fns name = the (bt_get fns name)"

text \<open>The right-hand side of one function's equation over the summaries of its callees.\<close>

definition transfer :: "(rstring, effect_summary) btree \<Rightarrow> effect_function \<Rightarrow> effect_summary" where
  "transfer previous f =
     fold (\<lambda>call next.
        let next = next\<lparr>unsafe_calls := unsafe_calls next \<or> ec_is_unsafe call\<rparr>;
            callee = (case bt_get previous (ec_callee call) of
                        Some s \<Rightarrow> s | None \<Rightarrow> full_conservative)
        in summary_join next (map_callee_summary callee call))
       (ef_calls f) (ef_direct f)"

type_synonym round_state = "(rstring, effect_summary) btree \<times> nat \<times> bool"

fun solve_round :: "function_map \<Rightarrow> nat \<Rightarrow> (rstring, effect_summary) btree \<Rightarrow> rstring list \<Rightarrow>
    round_state \<Rightarrow> round_state \<times> bool" where
  "solve_round fns max_steps previous [] st = (st, False)"
| "solve_round fns max_steps previous (name # names) (summaries, steps, changed) =
     (if steps \<ge> max_steps then ((summaries, steps, changed), True)
      else let next = transfer previous (the_function fns name) in
        solve_round fns max_steps previous names
          (if bt_get summaries name \<noteq> Some next
           then (bt_insert name next summaries, steps + 1, True)
           else (summaries, steps + 1, changed)))"

lemma solve_round_steps:
  "solve_round fns max_steps previous names (summaries, steps, changed) =
     ((summaries', steps', changed'), exhausted) \<Longrightarrow>
   steps \<le> steps' \<and> (names \<noteq> [] \<and> \<not> exhausted \<longrightarrow> steps < steps') \<and>
   (steps \<le> max_steps \<longrightarrow> steps' \<le> max_steps) \<and> (names = [] \<longrightarrow> changed' = changed)"
proof (induction names arbitrary: summaries steps changed)
  case Nil
  then show ?case by simp
next
  case (Cons name names)
  then show ?case
    by (fastforce simp: Let_def split: if_splits)
qed

lemma solve_round_progress:
  assumes "((summaries', steps', True), False) =
    solve_round fns max_steps previous names (summaries, steps, False)"
  shows "max_steps - steps' < max_steps - steps"
proof -
  from solve_round_steps [OF assms [symmetric]] have "names \<noteq> []" by auto
  with assms have "steps < max_steps" by (cases names) (auto split: if_splits)
  with solve_round_steps [OF assms [symmetric]] \<open>names \<noteq> []\<close>
  have "steps < steps'" "steps' \<le> max_steps" by simp_all
  then show ?thesis by linarith
qed

function solve_component :: "function_map \<Rightarrow> nat \<Rightarrow> rstring list \<Rightarrow>
    (rstring, effect_summary) btree \<Rightarrow> nat \<Rightarrow> (rstring, effect_summary) btree \<times> nat \<times> bool" where
  "solve_component fns max_steps component summaries steps =
     (case solve_round fns max_steps summaries component (summaries, steps, False) of
        ((summaries', steps', changed), exhausted) \<Rightarrow>
          if exhausted \<or> \<not> changed then (summaries', steps', exhausted)
          else solve_component fns max_steps component summaries' steps')"
  by pat_completeness auto
termination
  by (relation "measure (\<lambda>(fs, m, c, s, steps). m - steps)") (auto intro: solve_round_progress)

declare solve_component.simps [simp del]

definition callee_solved :: "function_map \<Rightarrow> rstring list list \<Rightarrow> nat list \<Rightarrow> rstring list \<Rightarrow>
    effect_call \<Rightarrow> bool" where
  "callee_solved fns sccs solved component call \<longleftrightarrow>
     ec_callee call \<in> set component \<or> bt_get fns (ec_callee call) = None \<or>
     (case iter_position (\<lambda>candidate. ec_callee call \<in> set candidate) sccs of
        Some i \<Rightarrow> i \<in> set solved | None \<Rightarrow> False)"

definition component_ready :: "function_map \<Rightarrow> rstring list list \<Rightarrow> nat list \<Rightarrow> nat \<Rightarrow> bool" where
  "component_ready fns sccs solved i \<longleftrightarrow>
     i \<notin> set solved \<and>
     (\<forall>name \<in> set (sccs ! i). \<forall>call \<in> set (ef_calls (the_function fns name)).
        callee_solved fns sccs solved (sccs ! i) call)"

text \<open>\<open>solved\<close> is the \<open>BTreeSet\<close> of finished component indices, kept as a list without repetition.\<close>

function solve_loop :: "function_map \<Rightarrow> nat \<Rightarrow> rstring list list \<Rightarrow> nat list \<Rightarrow>
    (rstring, effect_summary) btree \<Rightarrow> nat \<Rightarrow> bool \<Rightarrow>
    (rstring, effect_summary) btree \<times> nat \<times> bool \<times> nat list" where
  "solve_loop fns max_steps sccs solved summaries steps exhausted =
     (if length solved < length sccs then
        case find (component_ready fns sccs solved) [0..<length sccs] of
          None \<Rightarrow> (summaries, steps, exhausted, solved)
        | Some i \<Rightarrow>
            (case solve_component fns max_steps (sccs ! i) summaries steps of
               (summaries', steps', component_exhausted) \<Rightarrow>
                 solve_loop fns max_steps sccs (i # solved)
                   (if component_exhausted
                    then fold (\<lambda>name. bt_insert name full_conservative) (sccs ! i) summaries'
                    else summaries')
                   steps' (exhausted \<or> component_exhausted))
      else (summaries, steps, exhausted, solved))"
  by pat_completeness auto
termination
  by (relation "measure (\<lambda>(fs, m, sccs, solved, s, steps, e). length sccs - length solved)") auto

declare solve_loop.simps [simp del]

definition u32_max :: nat where
  "u32_max = 2 ^ 32 - 1"

definition saturating_u32 :: "nat \<Rightarrow> nat" where
  "saturating_u32 n = min n u32_max"

definition graph_units :: "effect_graph \<Rightarrow> nat" where
  "graph_units graph =
     fold (\<lambda>f count. count + 1 + length (ef_calls f) + length (accesses (ef_direct f))) graph 0"

definition solve_effect_graph :: "effect_graph \<Rightarrow> nat option \<Rightarrow> effect_solve_result" where
  "solve_effect_graph graph max_steps_override =
     (let fns = bt_collect (map (\<lambda>f. (ef_name f, f)) graph);
          units = saturating_u32 (graph_units graph);
          max_steps = (case max_steps_override of
                         Some m \<Rightarrow> m
                       | None \<Rightarrow> saturating_u32 (saturating_u32 (units * 32) + 64));
          sccs = strongly_connected_components fns;
          summaries = bt_collect (map (\<lambda>(name, f). (name, ef_direct f)) fns)
      in case solve_loop fns max_steps sccs [] summaries 0 False of
        (summaries, steps, exhausted, solved) \<Rightarrow>
          \<lparr>sr_summaries = summaries, sr_sccs = sccs, sr_steps = steps,
           sr_max_steps = max_steps, sr_exhausted = exhausted\<rparr>)"

end
