(* ===== verification/Worklist.thy ===== *)
theory Worklist
  imports Prelude
begin

text \<open>
  The contract of a graph search over a work list, shared by the searches of the compiler: each
  item is taken from the list, skipped when it was seen, and otherwise marked and followed by
  its unseen successors, in any order. Every such search computes the nodes reachable from the
  work list.
\<close>

definition closure :: "('a \<Rightarrow> 'a list) \<Rightarrow> 'a set \<Rightarrow> 'a set" where
  "closure succs A = {(a, b). b \<in> set (succs a)}\<^sup>* `` A"

lemma closure_self: "A \<subseteq> closure succs A"
  by (auto simp: closure_def)

lemma closure_step: "a \<in> closure succs A \<Longrightarrow> b \<in> set (succs a) \<Longrightarrow> b \<in> closure succs A"
  by (auto simp: closure_def intro: rtrancl_into_rtrancl)

lemma closure_least:
  assumes "A \<subseteq> R" "\<And>a b. a \<in> R \<Longrightarrow> b \<in> set (succs a) \<Longrightarrow> b \<in> R"
  shows "closure succs A \<subseteq> R"
proof -
  have "b \<in> R" if "(a, b) \<in> {(a, b). b \<in> set (succs a)}\<^sup>*" "a \<in> A" for a b
    using that by (induction rule: rtrancl_induct) (use assms in auto)
  then show ?thesis by (auto simp: closure_def)
qed

lemma closure_subset: "A \<subseteq> closure succs B \<Longrightarrow> closure succs A \<subseteq> closure succs B"
  by (rule closure_least) (auto intro: closure_step)

locale worklist =
  fixes succs :: "'a \<Rightarrow> 'a list"
    and search :: "'a set \<Rightarrow> 'a list \<Rightarrow> 'a set"
    and nodes :: "'a set"
  assumes finite_nodes: "finite nodes"
    and no_succs: "a \<notin> nodes \<Longrightarrow> succs a = []"
    and search_nil: "search seen [] = seen"
    and search_seen: "a \<in> seen \<Longrightarrow> search seen (a # work) = search seen work"
    and search_new: "a \<notin> seen \<Longrightarrow> \<exists>work'. search seen (a # work) = search (insert a seen) work' \<and>
      set work' \<subseteq> set work \<union> set (succs a) \<and> set work \<union> set (succs a) \<subseteq> insert a seen \<union> set work' \<and>
      (succs a = [] \<longrightarrow> work' = work)"
begin

lemma search_induct [case_names Nil Seen New]:
  assumes nil: "\<And>seen. P seen []"
    and seen: "\<And>seen a work. a \<in> seen \<Longrightarrow> P seen work \<Longrightarrow> P seen (a # work)"
    and new: "\<And>seen a work work'. a \<notin> seen \<Longrightarrow> search seen (a # work) = search (insert a seen) work' \<Longrightarrow>
      set work' \<subseteq> set work \<union> set (succs a) \<Longrightarrow> set work \<union> set (succs a) \<subseteq> insert a seen \<union> set work' \<Longrightarrow>
      P (insert a seen) work' \<Longrightarrow> P seen (a # work)"
  shows "P seen work"
proof -
  have "wf (measures [\<lambda>(seen, work). card (nodes - seen), \<lambda>(seen :: 'a set, work). length work])"
    by simp
  then have "case_prod P (seen, work)"
  proof (induction "(seen, work)" arbitrary: seen work rule: wf_induct_rule)
    case less
    show ?case
    proof (cases work)
      case Nil
      with nil show ?thesis by simp
    next
      case (Cons a rest)
      show ?thesis
      proof (cases "a \<in> seen")
        case True
        then have "P seen rest" using less [of seen rest] Cons by simp
        with seen True Cons show ?thesis by simp
      next
        case False
        from search_new [OF this, of rest] obtain work' where
          work': "search seen (a # rest) = search (insert a seen) work'"
          "set work' \<subseteq> set rest \<union> set (succs a)"
          "set rest \<union> set (succs a) \<subseteq> insert a seen \<union> set work'"
          "succs a = [] \<longrightarrow> work' = rest" by blast
        have "P (insert a seen) work'"
        proof (cases "a \<in> nodes")
          case True
          then have "card (nodes - insert a seen) < card (nodes - seen)"
            using False finite_nodes by (intro psubset_card_mono) auto
          with less [of "insert a seen" work'] show ?thesis by simp
        next
          case outside: False
          then have "nodes - insert a seen = nodes - seen" "work' = rest"
            using no_succs work'(4) by auto
          with less [of "insert a seen" work'] Cons show ?thesis by simp
        qed
        with new [OF False work'(1-3)] Cons show ?thesis by simp
      qed
    qed
  qed
  then show ?thesis by simp
qed

lemma search_closed:
  assumes "\<And>a b. a \<in> seen \<Longrightarrow> b \<in> set (succs a) \<Longrightarrow> b \<in> seen \<union> set work"
  shows "search seen work = closure succs (seen \<union> set work)"
  using assms
proof (induction seen work rule: search_induct)
  case (Nil seen)
  then have "closure succs seen \<subseteq> seen" by (intro closure_least) auto
  with closure_self [of seen succs] show ?case by (auto simp: search_nil)
next
  case (Seen seen a work)
  then have "\<And>a b. a \<in> seen \<Longrightarrow> b \<in> set (succs a) \<Longrightarrow> b \<in> seen \<union> set work" by auto
  from Seen.IH [OF this] Seen.hyps show ?case by (simp add: search_seen insert_absorb)
next
  case (New seen a work work')
  have "b \<in> insert a seen \<union> set work'" if "c \<in> insert a seen" "b \<in> set (succs c)" for b c
    using New.prems [of c b] New.hyps(3,4) that by auto
  note IH = New.IH [OF this]
  have "closure succs (insert a seen \<union> set work') = closure succs (seen \<union> set (a # work))"
  proof (rule antisym)
    have "set (succs a) \<subseteq> closure succs (seen \<union> set (a # work))"
      using closure_self [of "seen \<union> set (a # work)" succs] by (auto intro: closure_step)
    then show "closure succs (insert a seen \<union> set work') \<subseteq> closure succs (seen \<union> set (a # work))"
      using New.hyps(3) closure_self [of "seen \<union> set (a # work)" succs]
      by (intro closure_subset) auto
    show "closure succs (seen \<union> set (a # work)) \<subseteq> closure succs (insert a seen \<union> set work')"
      using New.hyps(4) closure_self [of "insert a seen \<union> set work'" succs]
      by (intro closure_subset) auto
  qed
  with IH New.hyps(2) show ?case by simp
qed

lemma search_start: "search {} work = closure succs (set work)"
  using search_closed [of "{}" work] by simp

end

end
