(* ===== verification/Effects_Graph.thy ===== *)
theory Effects_Graph
  imports Effects Worklist
begin

text \<open>
  The call graph: \<open>reachable_from\<close> is the closure of the callee relation, the components are
  the classes of mutual reachability, and some unsolved component always has all its callees
  solved, so the solver's search never fails.
\<close>

section \<open>Reachability\<close>

definition call_edge :: "function_map \<Rightarrow> (rstring \<times> rstring) set" where
  "call_edge fns = {(a, b). b \<in> set (callees fns a)}"

definition reaches :: "function_map \<Rightarrow> rstring \<Rightarrow> rstring \<Rightarrow> bool" where
  "reaches fns a b \<longleftrightarrow> (a, b) \<in> (call_edge fns)\<^sup>*"

lemma reaches_refl [simp]: "reaches fns a a"
  by (simp add: reaches_def)

lemma reaches_trans [trans]: "reaches fns a b \<Longrightarrow> reaches fns b c \<Longrightarrow> reaches fns a c"
  by (auto simp: reaches_def)

lemma reaches_callee: "b \<in> set (callees fns a) \<Longrightarrow> reaches fns a b"
  by (auto simp: reaches_def call_edge_def)

lemma callees_keys: "set (callees fns a) \<subseteq> set (map fst fns)"
proof
  fix b
  assume "b \<in> set (callees fns a)"
  then obtain f where "bt_get fns b = Some f"
    by (auto simp: callees_def split: option.splits)
  then show "b \<in> set (map fst fns)"
    by (metis bt_get_def map_of_eq_None_iff option.distinct(1) set_map)
qed

lemma reaches_keys: "reaches fns a b \<Longrightarrow> a \<in> set (map fst fns) \<Longrightarrow> b \<in> set (map fst fns)"
  unfolding reaches_def
  by (induction rule: rtrancl_induct) (use callees_keys in \<open>auto simp: call_edge_def\<close>)

lemma callees_outside: "a \<notin> set (map fst fns) \<Longrightarrow> callees fns a = []"
  by (simp add: callees_def bt_get_def map_of_eq_None_iff [THEN iffD2])

interpretation reach: worklist "callees fns" "reach_loop fns" "set (map fst fns)" for fns
proof (unfold_locales, goal_cases)
  case (2 a)
  then show ?case by (rule callees_outside)
next
  case (5 a seen work)
  then show ?case by (intro exI [of _ "callees fns a @ work"]) auto
qed simp_all

theorem reachable_from_closure: "b \<in> reachable_from a fns \<longleftrightarrow> reaches fns a b"
  unfolding reachable_from_def reach.search_start
  by (simp add: closure_def reaches_def call_edge_def)

section \<open>Components\<close>

definition mutual :: "function_map \<Rightarrow> rstring \<Rightarrow> rstring \<Rightarrow> bool" where
  "mutual fns a b \<longleftrightarrow> reaches fns a b \<and> reaches fns b a"

lemma mutual_sym: "mutual fns a b \<Longrightarrow> mutual fns b a"
  by (simp add: mutual_def)

lemma mutual_trans: "mutual fns a b \<Longrightarrow> mutual fns b c \<Longrightarrow> mutual fns a c"
  by (auto simp: mutual_def intro: reaches_trans)

text \<open>A list of classes of mutual reachability, without repetition.\<close>

definition classes :: "function_map \<Rightarrow> rstring list list \<Rightarrow> bool" where
  "classes fns sccs \<longleftrightarrow> distinct (concat sccs) \<and>
     (\<forall>C \<in> set sccs. C \<noteq> [] \<and>
        (\<forall>a \<in> set C. set C = {b. b \<in> set (map fst fns) \<and> mutual fns a b}))"

lemma scc_step_classes:
  assumes "bt_ok fns" "classes fns sccs" "assigned = set (concat sccs)" "name \<in> set (map fst fns)"
    and step: "scc_step fns name (assigned, sccs) = (assigned', sccs')"
  shows "classes fns sccs' \<and> assigned' = set (concat sccs') \<and> name \<in> assigned' \<and> assigned \<subseteq> assigned'"
proof (cases "name \<in> assigned")
  case True
  with assms show ?thesis by (auto simp: scc_step_def)
next
  case False
  let ?C = "filter (\<lambda>candidate. candidate \<notin> assigned \<and> candidate \<in> reachable_from name fns \<and>
                name \<in> reachable_from candidate fns) (map fst fns)"
  have eqs: "assigned' = assigned \<union> set ?C" "sccs' = sccs @ [?C]"
    using step False by (simp_all add: scc_step_def Let_def)
  have fresh: "b \<notin> assigned" if "mutual fns name b" for b
  proof
    assume "b \<in> assigned"
    with assms(3) obtain C where "C \<in> set sccs" "b \<in> set C" by auto
    with assms(2,4) that have "name \<in> set C"
      using mutual_sym [OF that] unfolding classes_def by blast
    with \<open>C \<in> set sccs\<close> False assms(3) show False by auto
  qed
  have C: "set ?C = {b. b \<in> set (map fst fns) \<and> mutual fns name b}"
    using fresh by (auto simp: reachable_from_closure mutual_def)
  have name: "name \<in> set ?C"
    unfolding C using assms(4) by (simp add: mutual_def)
  have each: "set ?C = {b. b \<in> set (map fst fns) \<and> mutual fns a b}" if "a \<in> set ?C" for a
    using that unfolding C by (blast intro: mutual_trans mutual_sym)
  have "distinct ?C" using bt_ok_distinct [OF assms(1)] by simp
  moreover have "set (concat sccs) \<inter> set ?C = {}" unfolding assms(3) [symmetric] by auto
  ultimately have "distinct (concat (sccs @ [?C]))"
    using assms(2) unfolding classes_def by (simp add: Int_commute)
  moreover have "?C \<noteq> []" using name by (metis empty_iff empty_set)
  ultimately have "classes fns sccs'"
    using assms(2) each unfolding classes_def eqs(2) by auto
  with name show ?thesis unfolding eqs by (auto simp: assms(3))
qed

lemma scc_fold_classes:
  assumes "bt_ok fns" "classes fns sccs" "assigned = set (concat sccs)"
    "set names \<subseteq> set (map fst fns)"
    "fold (scc_step fns) names (assigned, sccs) = (assigned', sccs')"
  shows "classes fns sccs' \<and> assigned' = set (concat sccs') \<and> assigned \<union> set names \<subseteq> assigned'"
  using assms(2-5)
proof (induction names arbitrary: assigned sccs)
  case Nil
  from Nil.prems(4) have "assigned' = assigned" "sccs' = sccs" by simp_all
  then show ?case using Nil.prems(1,2) by simp
next
  case (Cons name names)
  obtain assigned1 sccs1 where step: "scc_step fns name (assigned, sccs) = (assigned1, sccs1)"
    by (cases "scc_step fns name (assigned, sccs)")
  have "name \<in> set (map fst fns)" using Cons.prems(3) by simp
  note one = scc_step_classes [OF assms(1) Cons.prems(1,2) this step]
  then have "classes fns sccs1" "assigned1 = set (concat sccs1)" "set names \<subseteq> set (map fst fns)"
    using Cons.prems(3) by simp_all
  from Cons.IH [OF this] Cons.prems(4) step one show ?case by auto
qed

lemma sccs_classes:
  assumes "bt_ok fns"
  shows "classes fns (strongly_connected_components fns)"
    "set (concat (strongly_connected_components fns)) = set (map fst fns)"
proof -
  obtain assigned sccs where run: "fold (scc_step fns) (map fst fns) ({}, []) = (assigned, sccs)"
    by (cases "fold (scc_step fns) (map fst fns) ({}, [])")
  then have sccs: "strongly_connected_components fns = sccs"
    by (simp add: strongly_connected_components_def)
  have "classes fns []" by (simp add: classes_def)
  note all = scc_fold_classes [OF assms this _ subset_refl run]
  then show "classes fns (strongly_connected_components fns)" by (simp add: sccs)
  then have "set (concat sccs) \<subseteq> set (map fst fns)"
    unfolding sccs classes_def by auto
  with all show "set (concat (strongly_connected_components fns)) = set (map fst fns)"
    by (auto simp: sccs)
qed

lemma concat_index_unique:
  "distinct (concat xss) \<Longrightarrow> i < length xss \<Longrightarrow> j < length xss \<Longrightarrow>
   a \<in> set (xss ! i) \<Longrightarrow> a \<in> set (xss ! j) \<Longrightarrow> i = j"
proof (induction xss arbitrary: i j)
  case Nil
  then show ?case by simp
next
  case (Cons xs xss)
  have "a \<in> set (concat xss)" if "k < length xss" "a \<in> set (xss ! k)" for k
    using that by (auto intro!: bexI [of _ "xss ! k"])
  with Cons show ?case by (cases i; cases j) auto
qed

lemma classes_index_unique:
  "classes fns sccs \<Longrightarrow> i < length sccs \<Longrightarrow> j < length sccs \<Longrightarrow>
   a \<in> set (sccs ! i) \<Longrightarrow> a \<in> set (sccs ! j) \<Longrightarrow> i = j"
  unfolding classes_def by (blast intro: concat_index_unique)

lemma classes_position:
  assumes "classes fns sccs" "j < length sccs" "a \<in> set (sccs ! j)"
  shows "iter_position (\<lambda>candidate. a \<in> set candidate) sccs = Some j"
proof (cases "iter_position (\<lambda>candidate. a \<in> set candidate) sccs")
  case None
  with assms show ?thesis by (auto simp: iter_position_None)
next
  case (Some i)
  with iter_position_Some [OF Some] assms show ?thesis
    by (metis classes_index_unique)
qed

section \<open>Progress\<close>

lemma reaches_finite: "finite {b. b \<in> set (map fst fns) \<and> reaches fns a b}"
  by simp

text \<open>The number of functions a component reaches decreases along calls that leave it.\<close>

definition reach_count :: "function_map \<Rightarrow> rstring \<Rightarrow> nat" where
  "reach_count fns a = card {b. b \<in> set (map fst fns) \<and> reaches fns a b}"

lemma reach_count_le: "reaches fns a b \<Longrightarrow> reach_count fns b \<le> reach_count fns a"
  unfolding reach_count_def by (intro card_mono) (auto intro: reaches_trans)

lemma reach_count_less:
  "reaches fns a b \<Longrightarrow> \<not> reaches fns b a \<Longrightarrow> a \<in> set (map fst fns) \<Longrightarrow>
   reach_count fns b < reach_count fns a"
  unfolding reach_count_def by (intro psubset_card_mono) (auto intro: reaches_trans)

lemma some_component_ready:
  assumes cl: "classes fns sccs" and cover: "set (concat sccs) = set (map fst fns)"
    and "i < length sccs" "i \<notin> set solved"
  shows "\<exists>j < length sccs. component_ready fns sccs solved j"
proof -
  let ?open = "\<lambda>k. k < length sccs \<and> k \<notin> set solved"
  let ?m = "\<lambda>k. reach_count fns (hd (sccs ! k))"
  obtain j where j: "?open j" and least: "\<And>k. ?open k \<Longrightarrow> ?m j \<le> ?m k"
    using ex_has_least_nat [of ?open i ?m] assms(3,4) by auto
  have hd: "hd (sccs ! k) \<in> set (sccs ! k)" if "k < length sccs" for k
    using cl that unfolding classes_def by (metis list.set_sel(1) nth_mem)
  have keys: "a \<in> set (map fst fns)" if "a \<in> set (sccs ! k)" "k < length sccs" for a k
    using that cover by (metis UN_I nth_mem set_concat)
  have same: "mutual fns a b" if "a \<in> set (sccs ! k)" "b \<in> set (sccs ! k)" "k < length sccs" for a b k
    using cl that unfolding classes_def by (metis (mono_tags, lifting) mem_Collect_eq nth_mem)
  have "callee_solved fns sccs solved (sccs ! j) call"
    if name: "name \<in> set (sccs ! j)" and call: "call \<in> set (ef_calls (the_function fns name))"
    for name call
  proof (rule ccontr)
    assume no: "\<not> callee_solved fns sccs solved (sccs ! j) call"
    let ?c = "ec_callee call"
    have out: "?c \<notin> set (sccs ! j)" and known: "bt_get fns ?c \<noteq> None"
      using no by (auto simp: callee_solved_def)
    have nk: "name \<in> set (map fst fns)" using keys name j by blast
    then obtain f where f: "bt_get fns name = Some f"
      by (metis bt_get_def map_of_eq_None_iff not_None_eq set_map)
    then have "?c \<in> set (callees fns name)"
      using call known by (auto simp: callees_def the_function_def)
    then have r: "reaches fns name ?c" "?c \<in> set (map fst fns)"
      using callees_keys by (auto intro: reaches_callee)
    then obtain k where k: "k < length sccs" "?c \<in> set (sccs ! k)"
      using cover by (metis UN_E in_set_conv_nth set_concat)
    have "k \<notin> set solved"
      using no classes_position [OF cl k] by (auto simp: callee_solved_def)
    have "\<not> reaches fns ?c name"
    proof
      assume "reaches fns ?c name"
      with r have "mutual fns name ?c" by (simp add: mutual_def)
      with cl name j r(2) have "?c \<in> set (sccs ! j)"
        unfolding classes_def by (metis (mono_tags, lifting) mem_Collect_eq nth_mem)
      with out show False by simp
    qed
    with r(1) nk have "reach_count fns ?c < reach_count fns name" by (intro reach_count_less)
    moreover have "?m k \<le> reach_count fns ?c"
      using same [OF k(2) hd [OF k(1)] k(1)] by (simp add: mutual_def reach_count_le)
    moreover have "reach_count fns name \<le> ?m j"
      using same [OF hd name] j by (simp add: mutual_def reach_count_le)
    ultimately show False using least [of k] k(1) \<open>k \<notin> set solved\<close> by simp
  qed
  with j show ?thesis by (auto simp: component_ready_def)
qed

lemma find_component:
  assumes "classes fns sccs" "set (concat sccs) = set (map fst fns)"
    "length solved < length sccs" "distinct solved" "set solved \<subseteq> {..<length sccs}"
  shows "\<exists>i. find (component_ready fns sccs solved) [0..<length sccs] = Some i \<and>
    i < length sccs \<and> component_ready fns sccs solved i"
proof -
  have "\<exists>i. i < length sccs \<and> i \<notin> set solved"
  proof (rule ccontr)
    assume "\<not> ?thesis"
    then have "{..<length sccs} \<subseteq> set solved" by auto
    then have "card {..<length sccs} \<le> card (set solved)" by (intro card_mono) auto
    with assms(3,4) show False by (simp add: distinct_card)
  qed
  with some_component_ready [OF assms(1,2)] obtain j where
    "j < length sccs" "component_ready fns sccs solved j" by blast
  then have "find (component_ready fns sccs solved) [0..<length sccs] \<noteq> None"
    by (auto simp: find_None_iff)
  then show ?thesis by (auto simp: find_Some_iff)
qed

end
