(* ===== verification/Effects_Lattice.thy ===== *)
theory Effects_Lattice
  imports Effects
begin

text \<open>
  The laws of the summary operations: accesses and joins are least upper bounds in the effect
  lattice, the mapping of a callee's summary to its caller keeps every access, and one
  function's equation is monotone and depends on its callees only.
\<close>

section \<open>Memory of a summary\<close>

definition access_update :: "effect_target \<Rightarrow> memory_effect \<Rightarrow>
    (effect_target, memory_effect) btree \<Rightarrow> (effect_target, memory_effect) btree" where
  "access_update t e m =
     (let joined = sup (case bt_get m t of Some e \<Rightarrow> e | None \<Rightarrow> MeNone) e in
      if joined = MeNone then bt_remove t m else bt_insert t joined m)"

definition access_join :: "memory_effect option \<Rightarrow> memory_effect \<Rightarrow> memory_effect option" where
  "access_join old e =
     (let joined = sup (case old of Some e \<Rightarrow> e | None \<Rightarrow> MeNone) e in
      if joined = MeNone then None else Some joined)"

definition summary_ok :: "effect_summary \<Rightarrow> bool" where
  "summary_ok s \<longleftrightarrow> bt_ok (es_memory s)"

lemma add_access_memory:
  "es_memory (add_access a s) = access_update (ea_target a) (ea_effect a) (es_memory s)"
  by (simp add: add_access_def access_update_def memory_at_def Let_def)

lemma add_access_flags [simp]:
  "runtime_effect (add_access a s) = runtime_effect s" "may_fail (add_access a s) = may_fail s"
  "unsafe_calls (add_access a s) = unsafe_calls s" "conservative (add_access a s) = conservative s"
  by (simp_all add: add_access_def Let_def)

lemma bt_get_access_update:
  "bt_ok m \<Longrightarrow> bt_get (access_update t e m) t' =
     (if t' = t then access_join (bt_get m t) e else bt_get m t')"
  by (auto simp: access_update_def access_join_def Let_def bt.get_insert bt.get_remove)

lemma bt_ok_access_update: "bt_ok m \<Longrightarrow> bt_ok (access_update t e m)"
  by (auto simp: access_update_def Let_def bt.ok_insert bt.ok_remove)

lemma memory_at_add_access:
  "summary_ok s \<Longrightarrow> memory_at (add_access a s) t =
     (if t = ea_target a then sup (memory_at s t) (ea_effect a) else memory_at s t)"
  by (auto simp: add_access_memory memory_at_def summary_ok_def bt_get_access_update access_join_def Let_def
      split: option.split)

lemma summary_ok_add_access [simp]: "summary_ok s \<Longrightarrow> summary_ok (add_access a s)"
  by (simp add: add_access_memory summary_ok_def bt_ok_access_update)

lemma summary_ok_empty [simp]: "summary_ok summary_empty"
  by (simp add: summary_ok_def summary_empty_def bt_ok_def)

lemma memory_at_empty [simp]: "memory_at summary_empty t = MeNone"
  by (simp add: memory_at_def summary_empty_def bt_get_def)

lemma es_memory_fold_add:
  "es_memory (fold (\<lambda>(t, e). add_access \<lparr>ea_target = t, ea_effect = e\<rparr>) es s) =
     fold (\<lambda>(t, e). access_update t e) es (es_memory s)"
  by (induction es arbitrary: s) (auto simp: add_access_memory)

lemma fold_add_flags [simp]:
  "runtime_effect (fold (\<lambda>(t, e). add_access \<lparr>ea_target = t, ea_effect = e\<rparr>) es s) = runtime_effect s"
  "may_fail (fold (\<lambda>(t, e). add_access \<lparr>ea_target = t, ea_effect = e\<rparr>) es s) = may_fail s"
  "unsafe_calls (fold (\<lambda>(t, e). add_access \<lparr>ea_target = t, ea_effect = e\<rparr>) es s) = unsafe_calls s"
  "conservative (fold (\<lambda>(t, e). add_access \<lparr>ea_target = t, ea_effect = e\<rparr>) es s) = conservative s"
  by (induction es arbitrary: s) auto

lemma summary_join_flags [simp]:
  "runtime_effect (summary_join s u) = (runtime_effect s \<or> runtime_effect u)"
  "may_fail (summary_join s u) = (may_fail s \<or> may_fail u)"
  "unsafe_calls (summary_join s u) = (unsafe_calls s \<or> unsafe_calls u)"
  "conservative (summary_join s u) = (conservative s \<or> conservative u)"
  by (simp_all add: summary_join_def Let_def)

lemma es_memory_summary_join:
  "es_memory (summary_join s u) = fold (\<lambda>(t, e). access_update t e) (es_memory u) (es_memory s)"
  by (simp add: summary_join_def Let_def es_memory_fold_add)

lemma summary_ok_join [simp]: "summary_ok s \<Longrightarrow> summary_ok u \<Longrightarrow> summary_ok (summary_join s u)"
  unfolding summary_ok_def es_memory_summary_join
  by (rule bt.fold_update_entries(1) [OF bt_get_access_update bt_ok_access_update])

lemma memory_at_join:
  assumes "summary_ok s" "summary_ok u"
  shows "memory_at (summary_join s u) t = sup (memory_at s t) (memory_at u t)"
proof -
  have "bt_get (es_memory (summary_join s u)) t =
      (case bt_get (es_memory u) t of None \<Rightarrow> bt_get (es_memory s) t
       | Some e \<Rightarrow> access_join (bt_get (es_memory s) t) e)"
    using assms unfolding summary_ok_def es_memory_summary_join
    by (intro bt.fold_update_entries(2) [OF bt_get_access_update bt_ok_access_update])
  then show ?thesis
    by (auto simp: memory_at_def access_join_def Let_def sup.commute [of _ MeNone]
        split: option.split)
qed

lemma summary_effect_join:
  "summary_ok s \<Longrightarrow> summary_ok u \<Longrightarrow>
   summary_effect (summary_join s u) t = sup (summary_effect s t) (summary_effect u t)"
  by (simp add: summary_effect_def memory_at_join ac_simps)

section \<open>The order of summaries\<close>

definition summary_le :: "effect_summary \<Rightarrow> effect_summary \<Rightarrow> bool" where
  "summary_le s u \<longleftrightarrow> (\<forall>t. summary_effect s t \<le> summary_effect u t) \<and>
     (runtime_effect s \<longrightarrow> runtime_effect u) \<and> (may_fail s \<longrightarrow> may_fail u) \<and>
     (unsafe_calls s \<longrightarrow> unsafe_calls u) \<and> (conservative s \<longrightarrow> conservative u)"

lemma summary_le_refl [simp]: "summary_le s s"
  by (simp add: summary_le_def)

lemma summary_le_trans [trans]: "summary_le s u \<Longrightarrow> summary_le u v \<Longrightarrow> summary_le s v"
  unfolding summary_le_def by (meson order_trans)

lemma summary_le_join:
  assumes "summary_ok s" "summary_ok u"
  shows "summary_le s (summary_join s u)" "summary_le u (summary_join s u)"
  using assms by (auto simp: summary_le_def summary_effect_join)

lemma summary_join_least:
  assumes "summary_ok s" "summary_ok u" "summary_le s v" "summary_le u v"
  shows "summary_le (summary_join s u) v"
  using assms by (auto simp: summary_le_def summary_effect_join)

lemma full_conservative_top: "summary_le s full_conservative"
  by (auto simp: summary_le_def full_conservative_def summary_effect_def from_access_def
      memory_at_def summary_empty_def add_access_def bt_get_def Let_def)

lemma summary_ok_full [simp]: "summary_ok full_conservative"
  by (simp add: full_conservative_def from_access_def summary_ok_def add_access_def Let_def
      memory_at_def summary_empty_def bt_get_def bt_ok_def)

section \<open>Mapping a callee's summary\<close>

abbreviation map_step :: "effect_call \<Rightarrow> effect_access \<Rightarrow> effect_summary \<Rightarrow> effect_summary" where
  "map_step call a mapped \<equiv>
     (case map_target call (ea_target a) of
        Some t \<Rightarrow> add_access \<lparr>ea_target = t, ea_effect = ea_effect a\<rparr> mapped
      | None \<Rightarrow> mapped)"

lemma map_step_flags:
  "runtime_effect (fold (map_step call) as s) = runtime_effect s"
  "may_fail (fold (map_step call) as s) = may_fail s"
  "unsafe_calls (fold (map_step call) as s) = unsafe_calls s"
  "conservative (fold (map_step call) as s) = conservative s"
  by (induction as arbitrary: s) (auto split: option.split)

lemma summary_ok_map_step: "summary_ok s \<Longrightarrow> summary_ok (fold (map_step call) as s)"
  by (induction as arbitrary: s) (auto split: option.split)

lemma map_step_grows:
  "summary_ok s \<Longrightarrow> memory_at s t \<le> memory_at (fold (map_step call) as s) t"
proof (induction as arbitrary: s)
  case Nil
  then show ?case by simp
next
  case (Cons a as)
  have "memory_at s t \<le> memory_at (map_step call a s) t"
    using Cons.prems by (auto simp: memory_at_add_access split: option.split)
  also have "\<dots> \<le> memory_at (fold (map_step call) as (map_step call a s)) t"
    using Cons.IH Cons.prems by (auto split: option.split)
  finally show ?case by simp
qed

lemma map_step_access:
  assumes "summary_ok s" "a \<in> set as" "map_target call (ea_target a) = Some t"
  shows "ea_effect a \<le> memory_at (fold (map_step call) as s) t"
  using assms
proof (induction as arbitrary: s)
  case Nil
  then show ?case by simp
next
  case (Cons b as)
  show ?case
  proof (cases "a = b")
    case True
    have "ea_effect a \<le> memory_at (map_step call a s) t"
      using Cons.prems by (simp add: memory_at_add_access)
    also have "\<dots> \<le> memory_at (fold (map_step call) as (map_step call a s)) t"
      using Cons.prems by (intro map_step_grows) (auto split: option.split)
    finally show ?thesis unfolding True [symmetric] by simp
  next
    case False
    with Cons show ?thesis by (auto split: option.split)
  qed
qed

lemma map_callee_flags [simp]:
  "runtime_effect (map_callee_summary s call) = runtime_effect s"
  "may_fail (map_callee_summary s call) = may_fail s"
  "unsafe_calls (map_callee_summary s call) = (unsafe_calls s \<or> ec_is_unsafe call)"
  "conservative (map_callee_summary s call) = conservative s"
  by (simp_all add: map_callee_summary_def Let_def map_step_flags)

lemma summary_ok_map_callee [simp]: "summary_ok (map_callee_summary s call)"
  unfolding map_callee_summary_def Let_def
  by (intro summary_ok_map_step) (simp add: summary_ok_def summary_empty_def bt_ok_def)

lemma map_callee_memory:
  assumes "summary_ok s" "map_target call t = Some t'"
  shows "memory_at s t \<le> memory_at (map_callee_summary s call) t'"
proof (cases "bt_get (es_memory s) t")
  case None
  then show ?thesis by (simp add: memory_at_def)
next
  case (Some e)
  with assms(1) have "(t, e) \<in> set (es_memory s)"
    by (simp add: summary_ok_def bt.get_entries_mem)
  then have "\<lparr>ea_target = t, ea_effect = e\<rparr> \<in> set (accesses s)"
    by (force simp: accesses_def)
  then have "e \<le> memory_at (map_callee_summary s call) t'"
    unfolding map_callee_summary_def Let_def
    using map_step_access [of _ "\<lparr>ea_target = t, ea_effect = e\<rparr>" "accesses s" call t'] assms(2)
    by (simp add: summary_ok_def summary_empty_def bt_ok_def)
  with Some show ?thesis by (simp add: memory_at_def)
qed

text \<open>Every effect of the callee reaches the caller, at the target the call maps it to.\<close>

lemma map_callee_effect:
  assumes "summary_ok s" "map_target call t = Some t'"
  shows "summary_effect s t \<le> summary_effect (map_callee_summary s call) t'"
proof -
  have "memory_at s AllMemory \<le> memory_at (map_callee_summary s call) AllMemory"
    using assms(1) by (intro map_callee_memory) (auto simp: map_target_def)
  with map_callee_memory [OF assms] show ?thesis
    by (simp add: summary_effect_def le_supI1 le_supI2)
qed

section \<open>One function's equation\<close>

abbreviation callee_summary :: "(rstring, effect_summary) btree \<Rightarrow> effect_call \<Rightarrow> effect_summary" where
  "callee_summary summaries call \<equiv>
     (case bt_get summaries (ec_callee call) of Some s \<Rightarrow> s | None \<Rightarrow> full_conservative)"

definition transfer_call :: "(rstring, effect_summary) btree \<Rightarrow> effect_call \<Rightarrow> effect_summary \<Rightarrow>
    effect_summary" where
  "transfer_call previous call next =
     summary_join (next\<lparr>unsafe_calls := unsafe_calls next \<or> ec_is_unsafe call\<rparr>)
       (map_callee_summary (callee_summary previous call) call)"

lemma transfer_fold: "transfer previous f = fold (transfer_call previous) (ef_calls f) (ef_direct f)"
  by (simp add: transfer_def transfer_call_def [abs_def] Let_def)

lemma summary_ok_update [simp]: "summary_ok (s\<lparr>unsafe_calls := b\<rparr>) = summary_ok s"
  by (simp add: summary_ok_def)

lemma summary_ok_transfer_call: "summary_ok s \<Longrightarrow> summary_ok (transfer_call previous call s)"
  by (simp add: transfer_call_def)

lemma summary_ok_fold_transfer:
  "summary_ok s \<Longrightarrow> summary_ok (fold (transfer_call previous) calls s)"
  by (induction calls arbitrary: s) (auto intro: summary_ok_transfer_call)

lemma transfer_call_grows:
  assumes "summary_ok s"
  shows "summary_le s (transfer_call previous call s)"
proof -
  have "summary_le s (s\<lparr>unsafe_calls := unsafe_calls s \<or> ec_is_unsafe call\<rparr>)"
    by (simp add: summary_le_def summary_effect_def memory_at_def)
  also have "summary_le \<dots> (transfer_call previous call s)"
    unfolding transfer_call_def using assms by (intro summary_le_join) simp_all
  finally show ?thesis .
qed

lemma fold_transfer_grows:
  "summary_ok s \<Longrightarrow> summary_le s (fold (transfer_call previous) calls s)"
  by (induction calls arbitrary: s)
    (auto intro: summary_le_trans transfer_call_grows summary_ok_transfer_call)

lemma transfer_direct: "summary_ok (ef_direct f) \<Longrightarrow> summary_le (ef_direct f) (transfer previous f)"
  by (simp add: transfer_fold fold_transfer_grows)

lemma fold_transfer_callee:
  assumes "summary_ok s" "call \<in> set calls"
  shows "summary_le (map_callee_summary (callee_summary previous call) call)
    (fold (transfer_call previous) calls s)"
  using assms
proof (induction calls arbitrary: s)
  case Nil
  then show ?case by simp
next
  case (Cons c calls)
  show ?case
  proof (cases "call = c")
    case True
    have "summary_le (map_callee_summary (callee_summary previous call) call)
        (transfer_call previous call s)"
      unfolding transfer_call_def using Cons.prems by (intro summary_le_join) simp_all
    also have "summary_le \<dots> (fold (transfer_call previous) calls (transfer_call previous call s))"
      using Cons.prems by (intro fold_transfer_grows summary_ok_transfer_call)
    finally show ?thesis using True by simp
  next
    case False
    with Cons show ?thesis by (auto intro: summary_ok_transfer_call)
  qed
qed

lemma transfer_callee:
  "summary_ok (ef_direct f) \<Longrightarrow> call \<in> set (ef_calls f) \<Longrightarrow>
   summary_le (map_callee_summary (callee_summary previous call) call) (transfer previous f)"
  by (simp add: transfer_fold fold_transfer_callee)

lemma summary_ok_transfer: "summary_ok (ef_direct f) \<Longrightarrow> summary_ok (transfer previous f)"
  by (simp add: transfer_fold summary_ok_fold_transfer)

lemma transfer_cong:
  assumes "\<And>call. call \<in> set (ef_calls f) \<Longrightarrow>
    bt_get a (ec_callee call) = bt_get b (ec_callee call)"
  shows "transfer a f = transfer b f"
  unfolding transfer_fold
  by (rule fold_cong) (auto simp: transfer_call_def assms intro!: ext)

section \<open>Monotonicity\<close>

lemma map_step_bound:
  assumes "summary_ok s" "\<And>t. memory_at s t \<le> B t"
    and "\<And>a t. a \<in> set as \<Longrightarrow> map_target call (ea_target a) = Some t \<Longrightarrow> ea_effect a \<le> B t"
  shows "memory_at (fold (map_step call) as s) t \<le> B t"
  using assms
proof (induction as arbitrary: s)
  case Nil
  then show ?case by simp
next
  case (Cons a as)
  have "memory_at (map_step call a s) t \<le> B t" for t
    using Cons.prems by (auto simp: memory_at_add_access split: option.split)
  moreover have "summary_ok (map_step call a s)"
    using Cons.prems(1) by (auto split: option.split)
  ultimately show ?case using Cons.IH [of "map_step call a s"] Cons.prems(3) by simp
qed

lemma summary_effect_all: "summary_effect s AllMemory \<le> summary_effect s t"
  by (simp add: summary_effect_def)

lemma memory_at_effect: "memory_at s t \<le> summary_effect s t"
  by (simp add: summary_effect_def)

lemma map_callee_mono:
  assumes "summary_ok s" "summary_ok u" "summary_le s u"
  shows "summary_le (map_callee_summary s call) (map_callee_summary u call)"
proof -
  have bound: "memory_at (map_callee_summary s call) t \<le> summary_effect (map_callee_summary u call) t" for t
    unfolding map_callee_summary_def [of s] Let_def
  proof (rule map_step_bound)
    fix a t'
    assume a: "a \<in> set (accesses s)" and t': "map_target call (ea_target a) = Some t'"
    from a assms(1) have "ea_effect a = memory_at s (ea_target a)"
      by (auto simp: accesses_def memory_at_def summary_ok_def bt.get_entries_mem)
    also have "\<dots> \<le> summary_effect u (ea_target a)"
      using assms(3) memory_at_effect order_trans unfolding summary_le_def by blast
    also have "\<dots> \<le> summary_effect (map_callee_summary u call) t'"
      by (rule map_callee_effect [OF assms(2) t'])
    finally show "ea_effect a \<le> summary_effect (map_callee_summary u call) t'" .
  qed (simp_all add: summary_ok_def summary_empty_def bt_ok_def memory_at_def bt_get_def)
  have "summary_effect (map_callee_summary s call) t \<le> summary_effect (map_callee_summary u call) t" for t
  proof -
    have "memory_at (map_callee_summary s call) AllMemory \<le> summary_effect (map_callee_summary u call) t"
      using bound [of AllMemory] summary_effect_all order_trans by blast
    with bound [of t] show ?thesis by (simp add: summary_effect_def [of "map_callee_summary s call"])
  qed
  with assms(3) show ?thesis by (auto simp: summary_le_def)
qed

lemma transfer_call_mono:
  assumes "summary_ok s" "summary_ok u" "summary_le s u"
    and "summary_ok (callee_summary a call)" "summary_ok (callee_summary b call)"
    and "summary_le (callee_summary a call) (callee_summary b call)"
  shows "summary_le (transfer_call a call s) (transfer_call b call u)"
  unfolding transfer_call_def
proof (rule summary_join_least)
  let ?s = "s\<lparr>unsafe_calls := unsafe_calls s \<or> ec_is_unsafe call\<rparr>"
  let ?u = "u\<lparr>unsafe_calls := unsafe_calls u \<or> ec_is_unsafe call\<rparr>"
  let ?m = "map_callee_summary (callee_summary b call) call"
  have "summary_le ?s ?u"
    using assms(3) by (auto simp: summary_le_def summary_effect_def memory_at_def)
  also have "summary_le ?u (summary_join ?u ?m)" using assms(2) by (intro summary_le_join) simp_all
  finally show "summary_le ?s (summary_join ?u ?m)" .
  have "summary_le (map_callee_summary (callee_summary a call) call) ?m"
    using assms(4-6) by (rule map_callee_mono)
  also have "summary_le ?m (summary_join ?u ?m)" using assms(2) by (intro summary_le_join) simp_all
  finally show "summary_le (map_callee_summary (callee_summary a call) call) (summary_join ?u ?m)" .
qed (use assms in simp_all)

lemma transfer_mono:
  assumes "summary_ok (ef_direct f)"
    and "\<And>call. call \<in> set (ef_calls f) \<Longrightarrow> summary_ok (callee_summary a call) \<and>
      summary_ok (callee_summary b call) \<and> summary_le (callee_summary a call) (callee_summary b call)"
  shows "summary_le (transfer a f) (transfer b f)"
proof -
  have "summary_le (fold (transfer_call a) calls s) (fold (transfer_call b) calls u)"
    if "summary_ok s" "summary_ok u" "summary_le s u" "set calls \<subseteq> set (ef_calls f)" for s u calls
    using that
  proof (induction calls arbitrary: s u)
    case Nil
    then show ?case by simp
  next
    case (Cons call calls)
    then have "summary_le (transfer_call a call s) (transfer_call b call u)"
      using assms(2) [of call] by (intro transfer_call_mono) auto
    with Cons show ?case by (auto intro: summary_ok_transfer_call)
  qed
  with assms(1) show ?thesis by (simp add: transfer_fold)
qed

end
