(* ===== verification/Effects_Sound.thy ===== *)
theory Effects_Sound
  imports Effects_Graph Effects_Lattice
begin

text \<open>
  Correctness of the effect solver: every round and component loop computes what the equations
  say, the solved components stay solved, and the final summaries bound every access and flag
  of an execution of the call graph; without exhaustion they are the least solution.
\<close>

section \<open>Rounds\<close>

definition summaries_ok :: "(rstring, effect_summary) btree \<Rightarrow> bool" where
  "summaries_ok m \<longleftrightarrow> bt_ok m \<and> (\<forall>n s. bt_get m n = Some s \<longrightarrow> summary_ok s)"

lemma summaries_ok_insert:
  "summaries_ok m \<Longrightarrow> summary_ok s \<Longrightarrow> summaries_ok (bt_insert n s m)"
  by (auto simp: summaries_ok_def bt.ok_insert bt.get_insert)

lemma solve_round_spec:
  assumes "solve_round fns max_steps previous names (S, steps, changed) = ((S', steps', changed'), ex)"
    and "summaries_ok S" "\<And>n. n \<in> set names \<Longrightarrow> summary_ok (ef_direct (the_function fns n))"
  shows "summaries_ok S' \<and>
    (\<forall>n. n \<notin> set names \<longrightarrow> bt_get S' n = bt_get S n) \<and>
    (\<forall>n. bt_get S n \<noteq> None \<longrightarrow> bt_get S' n \<noteq> None) \<and>
    (\<forall>n. bt_get S' n = bt_get S n \<or> bt_get S' n = Some (transfer previous (the_function fns n))) \<and>
    (\<not> ex \<longrightarrow> (\<forall>n \<in> set names. bt_get S' n = Some (transfer previous (the_function fns n)))) \<and>
    (\<not> changed' \<longrightarrow> \<not> changed \<and> S' = S)"
  using assms
proof (induction names arbitrary: S steps changed)
  case Nil
  then show ?case by simp
next
  case (Cons n names)
  show ?case
  proof (cases "max_steps \<le> steps")
    case True
    with Cons.prems show ?thesis by auto
  next
    case False
    let ?next = "transfer previous (the_function fns n)"
    let ?S = "if bt_get S n \<noteq> Some ?next then bt_insert n ?next S else S"
    let ?c = "if bt_get S n \<noteq> Some ?next then True else changed"
    have ok: "bt_ok S" using Cons.prems(2) by (simp add: summaries_ok_def)
    have run: "solve_round fns max_steps previous names (?S, steps + 1, ?c) = ((S', steps', changed'), ex)"
      using Cons.prems(1) False by (simp add: Let_def split: if_splits)
    have "summaries_ok ?S"
      using Cons.prems(2,3) by (auto intro: summaries_ok_insert summary_ok_transfer)
    note IH = Cons.IH [OF run this Cons.prems(3)]
    have get: "bt_get ?S m = (if m = n then Some ?next else bt_get S m)" for m
      using ok by (auto simp: bt.get_insert)
    from IH have IH': "summaries_ok S'"
      "\<And>m. m \<notin> set names \<Longrightarrow> bt_get S' m = bt_get ?S m"
      "\<And>m. bt_get ?S m \<noteq> None \<Longrightarrow> bt_get S' m \<noteq> None"
      "\<And>m. bt_get S' m = bt_get ?S m \<or> bt_get S' m = Some (transfer previous (the_function fns m))"
      "\<And>m. \<not> ex \<Longrightarrow> m \<in> set names \<Longrightarrow> bt_get S' m = Some (transfer previous (the_function fns m))"
      "\<not> changed' \<Longrightarrow> \<not> ?c \<and> S' = ?S"
      by (fastforce simp del: if_split)+
    show ?thesis
    proof (intro conjI allI impI ballI)
      show "summaries_ok S'" by (fact IH'(1))
    next
      fix m
      assume "m \<notin> set (n # names)"
      with IH'(2) [of m] get [of m] show "bt_get S' m = bt_get S m" by simp
    next
      fix m
      assume "bt_get S m \<noteq> None"
      with IH'(3) [of m] get [of m] show "bt_get S' m \<noteq> None" by (simp split: if_splits)
    next
      fix m
      show "bt_get S' m = bt_get S m \<or> bt_get S' m = Some (transfer previous (the_function fns m))"
        using IH'(4) [of m] get [of m] by (simp split: if_splits)
    next
      fix m
      assume "\<not> ex" "m \<in> set (n # names)"
      with IH'(5) [of m] IH'(4) [of m] get [of m]
      show "bt_get S' m = Some (transfer previous (the_function fns m))"
        by (cases "m \<in> set names") (simp_all split: if_splits)
    next
      assume "\<not> changed'"
      from IH'(6) [OF this] show "\<not> changed" "S' = S" by (simp_all split: if_splits)
    qed
  qed
qed

section \<open>One component\<close>

lemma solve_component_spec:
  assumes "solve_component fns max_steps component S steps = (S', steps', ex)"
    and "summaries_ok S" "\<And>n. n \<in> set component \<Longrightarrow> summary_ok (ef_direct (the_function fns n))"
  shows "summaries_ok S' \<and>
    (\<forall>n. n \<notin> set component \<longrightarrow> bt_get S' n = bt_get S n) \<and>
    (\<forall>n. bt_get S n \<noteq> None \<longrightarrow> bt_get S' n \<noteq> None) \<and>
    (\<not> ex \<longrightarrow> (\<forall>n \<in> set component. bt_get S' n = Some (transfer S' (the_function fns n))))"
  using assms
proof (induction fns max_steps component S steps rule: solve_component.induct)
  case (1 fns max_steps component S steps)
  obtain S1 steps1 changed ex1 where round:
    "solve_round fns max_steps S component (S, steps, False) = ((S1, steps1, changed), ex1)"
    by (metis prod.exhaust)
  note one = solve_round_spec [OF round "1.prems"(2,3)]
  show ?case
  proof (cases "ex1 \<or> \<not> changed")
    case True
    then have "(S', steps', ex) = (S1, steps1, ex1)"
      using "1.prems"(1) by (simp add: solve_component.simps [of fns max_steps component S steps] round)
    with one True show ?thesis by auto
  next
    case False
    then have run: "solve_component fns max_steps component S1 steps1 = (S', steps', ex)"
      using "1.prems"(1) by (simp add: solve_component.simps [of fns max_steps component S steps] round)
    have "summaries_ok S1" using one by simp
    note IH = "1.IH" [OF round [symmetric] refl refl False run this "1.prems"(3)]
    with one show ?thesis by simp
  qed
qed

text \<open>A bound on the solutions of all functions bounds every state of the iteration.\<close>

definition post_solution :: "function_map \<Rightarrow> (rstring, effect_summary) btree \<Rightarrow> bool" where
  "post_solution fns m \<longleftrightarrow>
     (\<forall>n f. bt_get fns n = Some f \<longrightarrow>
        (\<exists>s. bt_get m n = Some s \<and> summary_le (transfer m f) s)) \<and>
     (\<forall>n. bt_get fns n = None \<longrightarrow> bt_get m n = None)"

definition summaries_le :: "function_map \<Rightarrow> (rstring, effect_summary) btree \<Rightarrow>
    (rstring, effect_summary) btree \<Rightarrow> bool" where
  "summaries_le fns a b \<longleftrightarrow>
     (\<forall>n. bt_get fns n \<noteq> None \<longrightarrow>
        (\<exists>s u. bt_get a n = Some s \<and> bt_get b n = Some u \<and> summary_le s u)) \<and>
     (\<forall>n. bt_get fns n = None \<longrightarrow> bt_get a n = None \<and> bt_get b n = None)"

lemma summaries_le_transfer:
  assumes "summaries_ok a" "summaries_ok b" "summaries_le fns a b" "post_solution fns b"
    and "bt_get fns n = Some f" "summary_ok (ef_direct f)"
  shows "\<exists>u. bt_get b n = Some u \<and> summary_le (transfer a f) u"
proof -
  obtain u where u: "bt_get b n = Some u" "summary_le (transfer b f) u"
    using assms(4,5) unfolding post_solution_def by blast
  have "summary_le (transfer a f) (transfer b f)"
  proof (rule transfer_mono [OF assms(6)])
    fix call
    assume "call \<in> set (ef_calls f)"
    have "(\<exists>s t. bt_get a (ec_callee call) = Some s \<and> bt_get b (ec_callee call) = Some t \<and>
        summary_le s t) \<or> (bt_get a (ec_callee call) = None \<and> bt_get b (ec_callee call) = None)"
      using assms(3) unfolding summaries_le_def by blast
    then show "summary_ok (callee_summary a call) \<and> summary_ok (callee_summary b call) \<and>
        summary_le (callee_summary a call) (callee_summary b call)"
      using assms(1,2) by (auto simp: summaries_ok_def)
  qed
  with u show ?thesis using summary_le_trans by blast
qed

lemma solve_component_below:
  assumes "solve_component fns max_steps component S steps = (S', steps', ex)"
    and "summaries_ok S" "summaries_ok sol" "post_solution fns sol" "summaries_le fns S sol"
    and "\<And>n. n \<in> set component \<Longrightarrow> \<exists>f. bt_get fns n = Some f \<and> summary_ok (ef_direct f)"
  shows "summaries_le fns S' sol"
  using assms
proof (induction fns max_steps component S steps rule: solve_component.induct)
  case (1 fns max_steps component S steps)
  obtain S1 steps1 changed ex1 where round:
    "solve_round fns max_steps S component (S, steps, False) = ((S1, steps1, changed), ex1)"
    by (metis prod.exhaust)
  have oks: "summary_ok (ef_direct (the_function fns n))" if "n \<in> set component" for n
    using "1.prems"(6) [OF that] by (auto simp: the_function_def)
  note one = solve_round_spec [OF round "1.prems"(2) oks]
  have le: "summaries_le fns S1 sol"
    unfolding summaries_le_def
  proof (intro conjI allI impI)
    fix n
    assume "bt_get fns n \<noteq> None"
    then obtain s u where su: "bt_get S n = Some s" "bt_get sol n = Some u" "summary_le s u"
      using "1.prems"(5) unfolding summaries_le_def by blast
    show "\<exists>s u. bt_get S1 n = Some s \<and> bt_get sol n = Some u \<and> summary_le s u"
    proof (cases "bt_get S1 n = bt_get S n")
      case True
      with su show ?thesis by simp
    next
      case False
      with one have "n \<in> set component" "bt_get S1 n = Some (transfer S (the_function fns n))"
        by blast+
      moreover from this(1) "1.prems"(6) obtain f where
        "bt_get fns n = Some f" "summary_ok (ef_direct f)" by blast
      ultimately show ?thesis
        using summaries_le_transfer [OF "1.prems"(2,3,5,4)] by (fastforce simp: the_function_def)
    qed
  next
    fix n
    assume "bt_get fns n = None"
    with "1.prems"(5,6) one show "bt_get S1 n = None"
      unfolding summaries_le_def by (metis option.distinct(1))
  next
    fix n
    assume "bt_get fns n = None"
    with "1.prems"(5) show "bt_get sol n = None" unfolding summaries_le_def by blast
  qed
  show ?case
  proof (cases "ex1 \<or> \<not> changed")
    case True
    then have "S' = S1"
      using "1.prems"(1) by (simp add: solve_component.simps [of fns max_steps component S steps] round)
    with le show ?thesis by simp
  next
    case False
    then have "solve_component fns max_steps component S1 steps1 = (S', steps', ex)"
      using "1.prems"(1) by (simp add: solve_component.simps [of fns max_steps component S steps] round)
    from "1.IH" [OF round [symmetric] refl refl False this _ "1.prems"(3,4) le "1.prems"(6)] one
    show ?thesis by simp
  qed
qed

section \<open>The whole graph\<close>

definition solved_at :: "function_map \<Rightarrow> rstring list list \<Rightarrow> nat list \<Rightarrow>
    (rstring, effect_summary) btree \<Rightarrow> bool \<Rightarrow> rstring \<Rightarrow> bool" where
  "solved_at fns sccs solved S ex n \<longleftrightarrow>
     (\<exists>s. bt_get S n = Some s \<and> summary_le (transfer S (the_function fns n)) s \<and>
        (\<not> ex \<longrightarrow> s = transfer S (the_function fns n))) \<and>
     (\<forall>call \<in> set (ef_calls (the_function fns n)). bt_get fns (ec_callee call) \<noteq> None \<longrightarrow>
        (\<exists>j \<in> set solved. ec_callee call \<in> set (sccs ! j)))"

definition loop_inv :: "function_map \<Rightarrow> rstring list list \<Rightarrow> nat list \<Rightarrow>
    (rstring, effect_summary) btree \<Rightarrow> bool \<Rightarrow> bool" where
  "loop_inv fns sccs solved S ex \<longleftrightarrow>
     distinct solved \<and> set solved \<subseteq> {..<length sccs} \<and> summaries_ok S \<and>
     (\<forall>n. bt_get S n = None \<longleftrightarrow> bt_get fns n = None) \<and>
     (\<forall>i \<in> set solved. \<forall>n \<in> set (sccs ! i). solved_at fns sccs solved S ex n)"

definition graph_ok :: "function_map \<Rightarrow> bool" where
  "graph_ok fns \<longleftrightarrow> bt_ok fns \<and> (\<forall>n f. bt_get fns n = Some f \<longrightarrow> summary_ok (ef_direct f))"

abbreviation mark_conservative :: "rstring list \<Rightarrow> (rstring, effect_summary) btree \<Rightarrow>
    (rstring, effect_summary) btree" where
  "mark_conservative names S \<equiv> fold (\<lambda>name. bt_insert name full_conservative) names S"

lemma mark_conservative_spec:
  "summaries_ok S \<Longrightarrow> summaries_ok (mark_conservative names S) \<and>
   bt_get (mark_conservative names S) n =
     (if n \<in> set names then Some full_conservative else bt_get S n)"
proof (induction names arbitrary: S)
  case Nil
  then show ?case by simp
next
  case (Cons m names)
  have "bt_ok S" using Cons.prems by (simp add: summaries_ok_def)
  have "summaries_ok (bt_insert m full_conservative S)"
    using Cons.prems by (intro summaries_ok_insert) simp_all
  from Cons.IH [OF this] \<open>bt_ok S\<close> show ?case by (simp add: bt.get_insert)
qed

lemma keys_get: "n \<in> set (map fst fns) \<longleftrightarrow> bt_get fns n \<noteq> None"
  by (metis bt_get_def map_of_eq_None_iff set_map)

lemma component_functions:
  assumes "graph_ok fns" "set (concat sccs) = set (map fst fns)" "i < length sccs" "n \<in> set (sccs ! i)"
  shows "\<exists>f. bt_get fns n = Some f \<and> summary_ok (ef_direct f)"
proof -
  have "n \<in> set (concat sccs)" using assms(3,4) by (auto intro!: bexI [of _ "sccs ! i"])
  with assms(2) keys_get [of n fns] obtain f where "bt_get fns n = Some f" by auto
  with assms(1) show ?thesis by (auto simp: graph_ok_def)
qed

lemma solved_at_cong:
  assumes "solved_at fns sccs solved S ex n" "set solved \<subseteq> set solved'" "ex \<longrightarrow> ex'"
    and "bt_get S' n = bt_get S n"
    and "\<And>m. bt_get fns m = None \<or> (\<exists>j \<in> set solved. m \<in> set (sccs ! j)) \<Longrightarrow> bt_get S' m = bt_get S m"
  shows "solved_at fns sccs solved' S' ex' n"
proof -
  have "transfer S' (the_function fns n) = transfer S (the_function fns n)"
    using assms(1,5) unfolding solved_at_def by (intro transfer_cong) blast
  with assms(1-4) show ?thesis unfolding solved_at_def by (metis subsetD)
qed

lemma loop_inv_step:
  assumes g: "graph_ok fns" and cl: "classes fns sccs" and cover: "set (concat sccs) = set (map fst fns)"
    and inv: "loop_inv fns sccs solved S ex"
    and i: "i < length sccs" "component_ready fns sccs solved i"
    and run: "solve_component fns max_steps (sccs ! i) S steps = (S1, steps1, cex)"
  shows "loop_inv fns sccs (i # solved)
    (if cex then mark_conservative (sccs ! i) S1 else S1) (ex \<or> cex)"
proof -
  let ?S = "if cex then mark_conservative (sccs ! i) S1 else S1"
  have fs: "\<exists>f. bt_get fns n = Some f \<and> summary_ok (ef_direct f)" if "n \<in> set (sccs ! i)" for n
    using component_functions [OF g cover i(1) that] .
  have oks: "summary_ok (ef_direct (the_function fns n))" if "n \<in> set (sccs ! i)" for n
    using fs [OF that] by (auto simp: the_function_def)
  have okS: "summaries_ok S" and domS: "\<And>n. bt_get S n = None \<longleftrightarrow> bt_get fns n = None"
    using inv by (simp_all add: loop_inv_def)
  note one = solve_component_spec [OF run okS oks]
  have ok1: "summaries_ok S1" using one by simp
  note marked = mark_conservative_spec [OF ok1, of "sccs ! i"]
  have okS': "summaries_ok ?S" using marked ok1 by simp
  have frame: "bt_get ?S n = bt_get S n" if "n \<notin> set (sccs ! i)" for n
    using that marked one by auto
  have inside: "bt_get ?S n \<noteq> None" if "n \<in> set (sccs ! i)" for n
    using that marked [of n] one domS fs [OF that] by (metis option.distinct(1))
  have dom: "bt_get ?S n = None \<longleftrightarrow> bt_get fns n = None" for n
    using frame inside domS fs by (metis option.distinct(1))
  have new: "i \<notin> set solved" using i(2) by (simp add: component_ready_def)
  have other: "bt_get ?S m = bt_get S m" if "bt_get fns m = None \<or> (\<exists>j \<in> set solved. m \<in> set (sccs ! j))" for m
  proof (rule frame)
    show "m \<notin> set (sccs ! i)"
      using that fs [of m] classes_index_unique [OF cl] i(1) new inv
      unfolding loop_inv_def by (metis lessThan_iff option.distinct(1) subsetD)
  qed
  have at_i: "solved_at fns sccs (i # solved) ?S (ex \<or> cex) n" if n: "n \<in> set (sccs ! i)" for n
    unfolding solved_at_def
  proof (intro conjI ballI impI)
    have "\<exists>s. bt_get ?S n = Some s \<and> summary_le (transfer ?S (the_function fns n)) s \<and>
        (\<not> cex \<longrightarrow> s = transfer ?S (the_function fns n))"
      using marked [of n] one n by (auto simp: full_conservative_top)
    then show "\<exists>s. bt_get ?S n = Some s \<and> summary_le (transfer ?S (the_function fns n)) s \<and>
        (\<not> (ex \<or> cex) \<longrightarrow> s = transfer ?S (the_function fns n))" by blast
  next
    fix call
    assume "call \<in> set (ef_calls (the_function fns n))" "bt_get fns (ec_callee call) \<noteq> None"
    with i(2) n have "callee_solved fns sccs solved (sccs ! i) call" "bt_get fns (ec_callee call) \<noteq> None"
      by (auto simp: component_ready_def)
    then show "\<exists>j \<in> set (i # solved). ec_callee call \<in> set (sccs ! j)"
      by (auto simp: callee_solved_def dest: iter_position_Some split: option.splits)
  qed
  have at_j: "solved_at fns sccs (i # solved) ?S (ex \<or> cex) n" if "j \<in> set solved" "n \<in> set (sccs ! j)" for j n
  proof (rule solved_at_cong)
    show "solved_at fns sccs solved S ex n" using inv that by (auto simp: loop_inv_def)
    show "set solved \<subseteq> set (i # solved)" by auto
    show "bt_get ?S n = bt_get S n" using that by (intro other) blast
    show "bt_get ?S m = bt_get S m" if "bt_get fns m = None \<or> (\<exists>j \<in> set solved. m \<in> set (sccs ! j))" for m
      using that by (rule other)
  qed simp
  show ?thesis
    unfolding loop_inv_def
    using inv new i(1) okS' dom at_i at_j by (auto simp: loop_inv_def)
qed

lemma solve_loop_inv:
  assumes "graph_ok fns" "classes fns sccs" "set (concat sccs) = set (map fst fns)"
    and "loop_inv fns sccs solved S ex"
    and "solve_loop fns max_steps sccs solved S steps ex = (S', steps', ex', solved')"
  shows "loop_inv fns sccs solved' S' ex' \<and> length sccs \<le> length solved'"
  using assms
proof (induction fns max_steps sccs solved S steps ex rule: solve_loop.induct)
  case (1 fns max_steps sccs solved S steps ex)
  note unfold = solve_loop.simps [of fns max_steps sccs solved S steps ex]
  show ?case
  proof (cases "length solved < length sccs")
    case False
    with "1.prems" show ?thesis by (simp add: unfold)
  next
    case True
    obtain i where i: "find (component_ready fns sccs solved) [0..<length sccs] = Some i"
      "i < length sccs" "component_ready fns sccs solved i"
      using find_component [OF "1.prems"(2,3) True] "1.prems"(4) by (auto simp: loop_inv_def)
    obtain S1 steps1 cex where comp: "solve_component fns max_steps (sccs ! i) S steps = (S1, steps1, cex)"
      by (metis prod.exhaust)
    note step = loop_inv_step [OF "1.prems"(1-4) i(2,3) comp]
    have "solve_loop fns max_steps sccs (i # solved)
        (if cex then mark_conservative (sccs ! i) S1 else S1) steps1 (ex \<or> cex) = (S', steps', ex', solved')"
      using "1.prems"(5) True i(1) comp by (simp add: unfold)
    from "1.IH" [OF True i(1) comp [symmetric] refl "1.prems"(1-3) step this] show ?thesis .
  qed
qed

lemma solve_loop_ex:
  "solve_loop fns max_steps sccs solved S steps ex = (S', steps', ex', solved') \<Longrightarrow> ex \<longrightarrow> ex'"
proof (induction fns max_steps sccs solved S steps ex rule: solve_loop.induct)
  case (1 fns max_steps sccs solved S steps ex)
  note unfold = solve_loop.simps [of fns max_steps sccs solved S steps ex]
  from "1.prems" "1.IH" show ?case
    unfolding unfold by (fastforce split: if_splits option.splits prod.splits)
qed

text \<open>While nothing is exhausted, the summaries stay below every solution of the equations.\<close>

lemma solve_loop_below:
  assumes "graph_ok fns" "classes fns sccs" "set (concat sccs) = set (map fst fns)"
    and "loop_inv fns sccs solved S ex" "summaries_le fns S sol"
    and "summaries_ok sol" "post_solution fns sol"
    and "solve_loop fns max_steps sccs solved S steps ex = (S', steps', ex', solved')" "\<not> ex'"
  shows "summaries_le fns S' sol \<and> \<not> ex"
  using assms
proof (induction fns max_steps sccs solved S steps ex rule: solve_loop.induct)
  case (1 fns max_steps sccs solved S steps ex)
  note unfold = solve_loop.simps [of fns max_steps sccs solved S steps ex]
  show ?case
  proof (cases "length solved < length sccs")
    case False
    with "1.prems" show ?thesis by (simp add: unfold)
  next
    case True
    obtain i where i: "find (component_ready fns sccs solved) [0..<length sccs] = Some i"
      "i < length sccs" "component_ready fns sccs solved i"
      using find_component [OF "1.prems"(2,3) True] "1.prems"(4) by (auto simp: loop_inv_def)
    obtain S1 steps1 cex where comp: "solve_component fns max_steps (sccs ! i) S steps = (S1, steps1, cex)"
      by (metis prod.exhaust)
    note step = loop_inv_step [OF "1.prems"(1-4) i(2,3) comp]
    have run: "solve_loop fns max_steps sccs (i # solved)
        (if cex then mark_conservative (sccs ! i) S1 else S1) steps1 (ex \<or> cex) = (S', steps', ex', solved')"
      using "1.prems"(8) True i(1) comp by (simp add: unfold)
    have "summaries_ok S" using "1.prems"(4) by (simp add: loop_inv_def)
    note below = solve_component_below [OF comp this "1.prems"(6,7,5)
        component_functions [OF "1.prems"(1,3) i(2)]]
    have grow: "ex \<or> cex \<longrightarrow> ex'" using solve_loop_ex [OF run] .
    with "1.prems"(9) have "\<not> cex" by simp
    with below have le: "summaries_le fns (if cex then mark_conservative (sccs ! i) S1 else S1) sol"
      by simp
    from "1.IH" [OF True i(1) comp [symmetric] refl "1.prems"(1-3) step le "1.prems"(6,7) run "1.prems"(9)]
    show ?thesis by simp
  qed
qed

section \<open>Executions\<close>

text \<open>
  What a run of function \<open>n\<close> may do to the memory behind \<open>t\<close>: its own accesses, those of a
  callee through the argument mapping, and anything for a callee the graph does not know.
\<close>

inductive may_access :: "function_map \<Rightarrow> rstring \<Rightarrow> effect_target \<Rightarrow> memory_effect \<Rightarrow> bool"
  for fns where
  access_direct: "bt_get fns n = Some f \<Longrightarrow> may_access fns n t (summary_effect (ef_direct f) t)"
| access_call: "bt_get fns n = Some f \<Longrightarrow> call \<in> set (ef_calls f) \<Longrightarrow>
    may_access fns (ec_callee call) t e \<Longrightarrow> map_target call t = Some t' \<Longrightarrow> may_access fns n t' e"
| access_unknown: "bt_get fns n = Some f \<Longrightarrow> call \<in> set (ef_calls f) \<Longrightarrow>
    bt_get fns (ec_callee call) = None \<Longrightarrow> may_access fns n t MeReadWrite"

datatype effect_flag = RuntimeEffect | MayFail | UnsafeCalls | Conservative

fun has_flag :: "effect_flag \<Rightarrow> effect_summary \<Rightarrow> bool" where
  "has_flag RuntimeEffect s = runtime_effect s"
| "has_flag MayFail s = may_fail s"
| "has_flag UnsafeCalls s = unsafe_calls s"
| "has_flag Conservative s = conservative s"

inductive may_flag :: "function_map \<Rightarrow> rstring \<Rightarrow> effect_flag \<Rightarrow> bool" for fns where
  flag_direct: "bt_get fns n = Some f \<Longrightarrow> has_flag fl (ef_direct f) \<Longrightarrow> may_flag fns n fl"
| flag_call: "bt_get fns n = Some f \<Longrightarrow> call \<in> set (ef_calls f) \<Longrightarrow>
    may_flag fns (ec_callee call) fl \<Longrightarrow> may_flag fns n fl"
| flag_unsafe: "bt_get fns n = Some f \<Longrightarrow> call \<in> set (ef_calls f) \<Longrightarrow> ec_is_unsafe call \<Longrightarrow>
    may_flag fns n UnsafeCalls"
| flag_unknown: "bt_get fns n = Some f \<Longrightarrow> call \<in> set (ef_calls f) \<Longrightarrow>
    bt_get fns (ec_callee call) = None \<Longrightarrow> may_flag fns n fl"

inductive_cases may_access_cases: "may_access fns n t e"

lemma has_flag_mono: "summary_le s u \<Longrightarrow> has_flag fl s \<Longrightarrow> has_flag fl u"
  by (cases fl) (auto simp: summary_le_def)

lemma full_conservative_effect: "MeReadWrite \<le> summary_effect full_conservative t" "has_flag fl full_conservative"
  by (cases fl; auto simp: full_conservative_def summary_effect_def from_access_def
      memory_at_def summary_empty_def add_access_def bt_get_def Let_def)+

lemma post_solution_at:
  assumes "post_solution fns m" "bt_get fns n = Some f"
  obtains s where "bt_get m n = Some s" "summary_le (transfer m f) s"
  using assms unfolding post_solution_def by blast

lemma post_solution_unknown: "post_solution fns m \<Longrightarrow> bt_get fns n = None \<Longrightarrow> bt_get m n = None"
  unfolding post_solution_def by blast

lemma post_solution_access:
  assumes "may_access fns n t e" "graph_ok fns" "summaries_ok m" "post_solution fns m"
  shows "\<exists>s. bt_get m n = Some s \<and> e \<le> summary_effect s t"
  using assms(1)
proof induction
  case (access_direct n f t)
  obtain s where s: "bt_get m n = Some s" "summary_le (transfer m f) s"
    using post_solution_at [OF assms(4) access_direct] .
  have "summary_le (ef_direct f) (transfer m f)"
    using assms(2) access_direct by (intro transfer_direct) (auto simp: graph_ok_def)
  with s show ?case using summary_le_trans unfolding summary_le_def by (meson order_trans)
next
  case (access_call n f call t e t')
  obtain s where s: "bt_get m n = Some s" "summary_le (transfer m f) s"
    using post_solution_at [OF assms(4) access_call.hyps(1)] .
  obtain u where u: "bt_get m (ec_callee call) = Some u" "e \<le> summary_effect u t"
    using access_call.IH by blast
  have "summary_ok u" using assms(3) u(1) by (auto simp: summaries_ok_def)
  note u(2)
  also have "summary_effect u t \<le> summary_effect (map_callee_summary u call) t'"
    using \<open>summary_ok u\<close> access_call.hyps by (intro map_callee_effect)
  also have "\<dots> \<le> summary_effect (transfer m f) t'"
    using transfer_callee [of f call m] u(1) assms(2) access_call.hyps
    by (auto simp: graph_ok_def summary_le_def)
  also have "\<dots> \<le> summary_effect s t'" using s(2) by (simp add: summary_le_def)
  finally show ?case using s(1) by blast
next
  case (access_unknown n f call t)
  obtain s where s: "bt_get m n = Some s" "summary_le (transfer m f) s"
    using post_solution_at [OF assms(4) access_unknown(1)] .
  have "bt_get m (ec_callee call) = None"
    by (rule post_solution_unknown [OF assms(4) access_unknown(3)])
  then have le: "summary_le (map_callee_summary full_conservative call) (transfer m f)"
    using transfer_callee [of f call m] assms(2) access_unknown by (auto simp: graph_ok_def)
  have "MeReadWrite \<le> summary_effect full_conservative AllMemory" by (rule full_conservative_effect)
  also have "\<dots> \<le> summary_effect (map_callee_summary full_conservative call) AllMemory"
    by (intro map_callee_effect) (simp_all add: map_target_def)
  also have "\<dots> \<le> summary_effect (map_callee_summary full_conservative call) t"
    by (rule summary_effect_all)
  also have "\<dots> \<le> summary_effect (transfer m f) t" using le by (simp add: summary_le_def)
  also have "\<dots> \<le> summary_effect s t" using s(2) by (simp add: summary_le_def)
  finally show ?case using s(1) by blast
qed

lemma post_solution_flag:
  assumes "may_flag fns n fl" "graph_ok fns" "summaries_ok m" "post_solution fns m"
  shows "\<exists>s. bt_get m n = Some s \<and> has_flag fl s"
  using assms(1)
proof induction
  case (flag_direct n f fl)
  obtain s where s: "bt_get m n = Some s" "summary_le (transfer m f) s"
    using post_solution_at [OF assms(4) flag_direct(1)] .
  have "summary_le (ef_direct f) (transfer m f)"
    using assms(2) flag_direct by (intro transfer_direct) (auto simp: graph_ok_def)
  with s flag_direct(2) show ?case using has_flag_mono by blast
next
  case (flag_call n f call fl)
  obtain s where s: "bt_get m n = Some s" "summary_le (transfer m f) s"
    using post_solution_at [OF assms(4) flag_call.hyps(1)] .
  obtain u where u: "bt_get m (ec_callee call) = Some u" "has_flag fl u"
    using flag_call.IH by blast
  then have "has_flag fl (map_callee_summary u call)" by (cases fl) auto
  moreover have "summary_le (map_callee_summary u call) (transfer m f)"
    using transfer_callee [of f call m] u(1) assms(2) flag_call.hyps by (auto simp: graph_ok_def)
  ultimately show ?case using s has_flag_mono by blast
next
  case (flag_unsafe n f call)
  obtain s where s: "bt_get m n = Some s" "summary_le (transfer m f) s"
    using post_solution_at [OF assms(4) flag_unsafe(1)] .
  have "summary_le (map_callee_summary (callee_summary m call) call) (transfer m f)"
    using transfer_callee [of f call m] assms(2) flag_unsafe by (auto simp: graph_ok_def)
  moreover have "has_flag UnsafeCalls (map_callee_summary (callee_summary m call) call)"
    using flag_unsafe by simp
  ultimately show ?case using s has_flag_mono by blast
next
  case (flag_unknown n f call fl)
  obtain s where s: "bt_get m n = Some s" "summary_le (transfer m f) s"
    using post_solution_at [OF assms(4) flag_unknown(1)] .
  have "bt_get m (ec_callee call) = None"
    by (rule post_solution_unknown [OF assms(4) flag_unknown(3)])
  then have "summary_le (map_callee_summary full_conservative call) (transfer m f)"
    using transfer_callee [of f call m] assms(2) flag_unknown by (auto simp: graph_ok_def)
  moreover have "has_flag fl (map_callee_summary full_conservative call)"
    using full_conservative_effect(2) [of fl] by (cases fl) auto
  ultimately show ?case using s has_flag_mono by blast
qed

end
