(* ===== verification/Effects_Properties.thy ===== *)
theory Effects_Properties
  imports Effects_Sound
begin

text \<open>The properties of the effect solver, stated for a whole run of \<open>solve_effect_graph\<close>.\<close>

section \<open>A run\<close>

definition graph_functions :: "effect_graph \<Rightarrow> function_map" where
  "graph_functions graph = bt_collect (map (\<lambda>f. (ef_name f, f)) graph)"

definition wf_graph :: "effect_graph \<Rightarrow> bool" where
  "wf_graph graph \<longleftrightarrow> (\<forall>f \<in> set graph. summary_ok (ef_direct f))"

definition direct_summaries :: "function_map \<Rightarrow> (rstring, effect_summary) btree" where
  "direct_summaries fns = bt_collect (map (\<lambda>(name, f). (name, ef_direct f)) fns)"

lemma graph_functions_ok: "wf_graph graph \<Longrightarrow> graph_ok (graph_functions graph)"
  by (auto simp: graph_ok_def graph_functions_def bt_get_collect wf_graph_def dest!: map_of_SomeD)

lemma graph_functions_names: "set (map fst (graph_functions graph)) = ef_name ` set graph"
proof -
  have "n \<in> set (map fst (graph_functions graph)) \<longleftrightarrow> n \<in> ef_name ` set graph" for n
  proof -
    have "n \<in> set (map fst (graph_functions graph)) \<longleftrightarrow>
        map_of (rev (map (\<lambda>f. (ef_name f, f)) graph)) n \<noteq> None"
      unfolding keys_get graph_functions_def bt_get_collect ..
    also have "\<dots> \<longleftrightarrow> n \<in> ef_name ` set graph"
      by (subst map_of_eq_None_iff) force
    finally show ?thesis .
  qed
  then show ?thesis by blast
qed

lemma direct_summaries_get:
  assumes "bt_ok fns"
  shows "bt_get (direct_summaries fns) n = map_option ef_direct (bt_get fns n)"
proof -
  have "distinct (map fst (map (\<lambda>(name, f). (name, ef_direct f)) fns))"
    using bt_ok_distinct [OF assms] by (simp add: case_prod_unfold comp_def)
  then have "map_of (rev (map (\<lambda>(name, f). (name, ef_direct f)) fns)) =
      map_of (map (\<lambda>(name, f). (name, ef_direct f)) fns)"
    by (intro map_of_inject_set [THEN iffD2]) (simp_all add: rev_map [symmetric])
  then show ?thesis
    unfolding direct_summaries_def bt_get_collect by (simp add: map_of_map bt_get_def)
qed

lemma loop_inv_start:
  assumes "graph_ok fns"
  shows "loop_inv fns sccs [] (direct_summaries fns) False"
  using assms
  by (auto simp: loop_inv_def graph_ok_def summaries_ok_def direct_summaries_get)
    (simp add: direct_summaries_def)

lemma solve_run:
  assumes "r = solve_effect_graph graph budget" "fns = graph_functions graph"
  shows "\<exists>solved. solve_loop fns (sr_max_steps r) (sr_sccs r) [] (direct_summaries fns) 0 False =
      (sr_summaries r, sr_steps r, sr_exhausted r, solved)" "sr_sccs r = strongly_connected_components fns"
  unfolding assms solve_effect_graph_def
  by (simp_all add: Let_def graph_functions_def direct_summaries_def split: prod.split)

lemma solve_final:
  assumes "wf_graph graph" "r = solve_effect_graph graph budget" "fns = graph_functions graph"
  obtains solved where "loop_inv fns (sr_sccs r) solved (sr_summaries r) (sr_exhausted r)"
    "set solved = {..<length (sr_sccs r)}" "classes fns (sr_sccs r)"
    "set (concat (sr_sccs r)) = set (map fst fns)" "graph_ok fns"
proof -
  have g: "graph_ok fns" using graph_functions_ok [OF assms(1)] assms(3) by simp
  then have ok: "bt_ok fns" by (simp add: graph_ok_def)
  note run = solve_run [OF assms(2,3)]
  note cl = sccs_classes [OF ok, folded run(2)]
  obtain solved where "solve_loop fns (sr_max_steps r) (sr_sccs r) [] (direct_summaries fns) 0 False =
      (sr_summaries r, sr_steps r, sr_exhausted r, solved)" using run(1) by blast
  note inv = solve_loop_inv [OF g cl loop_inv_start [OF g] this]
  then have sub: "set solved \<subseteq> {..<length (sr_sccs r)}" and "distinct solved"
    "length (sr_sccs r) \<le> length solved" by (auto simp: loop_inv_def)
  then have "card (set solved) \<ge> card {..<length (sr_sccs r)}" by (simp add: distinct_card)
  with sub have "set solved = {..<length (sr_sccs r)}"
    by (intro card_seteq) auto
  with that inv cl g show thesis by blast
qed

lemma solve_solved:
  assumes "wf_graph graph" "r = solve_effect_graph graph budget" "fns = graph_functions graph"
    "bt_get fns n = Some f"
  shows "\<exists>s. bt_get (sr_summaries r) n = Some s \<and> summary_ok s \<and>
    summary_le (transfer (sr_summaries r) f) s \<and>
    (\<not> sr_exhausted r \<longrightarrow> s = transfer (sr_summaries r) f)"
proof -
  obtain solved where inv: "loop_inv fns (sr_sccs r) solved (sr_summaries r) (sr_exhausted r)"
    "set solved = {..<length (sr_sccs r)}" "set (concat (sr_sccs r)) = set (map fst fns)"
    using solve_final [OF assms(1-3)] by metis
  have "n \<in> set (concat (sr_sccs r))" using inv(3) keys_get [of n fns] assms(4) by simp
  then obtain j where "j < length (sr_sccs r)" "n \<in> set (sr_sccs r ! j)"
    by (metis UN_E in_set_conv_nth set_concat)
  with inv(1,2) have "solved_at fns (sr_sccs r) solved (sr_summaries r) (sr_exhausted r) n"
    "summaries_ok (sr_summaries r)" by (auto simp: loop_inv_def)
  with assms(4) show ?thesis by (auto simp: solved_at_def the_function_def summaries_ok_def)
qed

lemma solve_post_solution:
  assumes "wf_graph graph" "r = solve_effect_graph graph budget" "fns = graph_functions graph"
  shows "post_solution fns (sr_summaries r)" "summaries_ok (sr_summaries r)" "graph_ok fns"
proof -
  obtain solved where inv: "loop_inv fns (sr_sccs r) solved (sr_summaries r) (sr_exhausted r)"
    and "graph_ok fns"
    using solve_final [OF assms] by metis
  then show "summaries_ok (sr_summaries r)" "graph_ok fns" by (simp_all add: loop_inv_def)
  from inv show "post_solution fns (sr_summaries r)"
    using solve_solved [OF assms] unfolding post_solution_def loop_inv_def by blast
qed

section \<open>The budget\<close>

lemma solve_round_budget:
  assumes "solve_round fns max_steps previous names (S, steps, changed) = ((S', steps', changed'), ex)"
    "steps \<le> max_steps"
  shows "steps \<le> steps' \<and> steps' \<le> max_steps \<and> (ex \<longrightarrow> steps' = max_steps)"
  using assms by (induction names arbitrary: S steps changed) (fastforce simp: Let_def split: if_splits)+

lemma solve_component_budget:
  assumes "solve_component fns max_steps component S steps = (S', steps', ex)" "steps \<le> max_steps"
  shows "steps \<le> steps' \<and> steps' \<le> max_steps \<and> (ex \<longrightarrow> steps' = max_steps)"
  using assms
proof (induction fns max_steps component S steps rule: solve_component.induct)
  case (1 fns max_steps component S steps)
  obtain S1 steps1 changed ex1 where round:
    "solve_round fns max_steps S component (S, steps, False) = ((S1, steps1, changed), ex1)"
    by (metis prod.exhaust)
  note one = solve_round_budget [OF round "1.prems"(2)]
  show ?case
  proof (cases "ex1 \<or> \<not> changed")
    case True
    with "1.prems"(1) one show ?thesis
      by (simp add: solve_component.simps [of fns max_steps component S steps] round)
  next
    case False
    then have "solve_component fns max_steps component S1 steps1 = (S', steps', ex)"
      using "1.prems"(1) by (simp add: solve_component.simps [of fns max_steps component S steps] round)
    from "1.IH" [OF round [symmetric] refl refl False this] one show ?thesis by auto
  qed
qed

lemma solve_loop_budget:
  assumes "solve_loop fns max_steps sccs solved S steps ex = (S', steps', ex', solved')"
    "steps \<le> max_steps" "ex \<longrightarrow> steps = max_steps"
  shows "steps' \<le> max_steps \<and> (ex' \<longrightarrow> steps' = max_steps)"
  using assms
proof (induction fns max_steps sccs solved S steps ex rule: solve_loop.induct)
  case (1 fns max_steps sccs solved S steps ex)
  note unfold = solve_loop.simps [of fns max_steps sccs solved S steps ex]
  show ?case
  proof (cases "length solved < length sccs \<and>
      find (component_ready fns sccs solved) [0..<length sccs] \<noteq> None")
    case False
    with "1.prems" show ?thesis by (auto simp: unfold split: if_splits)
  next
    case True
    then obtain i where i: "length solved < length sccs"
      "find (component_ready fns sccs solved) [0..<length sccs] = Some i" by blast
    obtain S1 steps1 cex where comp: "solve_component fns max_steps (sccs ! i) S steps = (S1, steps1, cex)"
      by (metis prod.exhaust)
    note b = solve_component_budget [OF comp "1.prems"(2)]
    have "solve_loop fns max_steps sccs (i # solved)
        (if cex then mark_conservative (sccs ! i) S1 else S1) steps1 (ex \<or> cex) = (S', steps', ex', solved')"
      using "1.prems"(1) i comp by (simp add: unfold)
    from "1.IH" [OF i comp [symmetric] refl this] b "1.prems"(3) show ?thesis by auto
  qed
qed

section \<open>An example\<close>

definition call_to :: "string \<Rightarrow> effect_target option list \<Rightarrow> effect_call" where
  "call_to name arguments = \<lparr>ec_callee = lit name, ec_arguments = arguments, ec_is_unsafe = False\<rparr>"

definition writes :: "nat \<Rightarrow> effect_summary" where
  "writes i = from_access \<lparr>ea_target = Parameter i, ea_effect = MeWrite\<rparr>"

text \<open>\<open>a\<close> and \<open>b\<close> call each other with their parameters swapped; \<open>b\<close> writes its first one.\<close>

definition swap_graph :: effect_graph where
  "swap_graph =
     [\<lparr>ef_name = lit ''a'', ef_parameter_count = 2, ef_direct = summary_empty,
       ef_calls = [call_to ''b'' [Some (Parameter 1), Some (Parameter 0)]]\<rparr>,
      \<lparr>ef_name = lit ''b'', ef_parameter_count = 2, ef_direct = writes 0,
       ef_calls = [call_to ''a'' [Some (Parameter 0), Some (Parameter 1)]]\<rparr>]"

lemma wf_swap_graph: "wf_graph swap_graph"
  by (simp add: wf_graph_def swap_graph_def writes_def from_access_def)

lemma swap_graph_functions:
  "graph_functions swap_graph = map (\<lambda>f. (ef_name f, f)) swap_graph"
  by (simp add: graph_functions_def swap_graph_def bt_collect_def lit_def)

lemma swap_graph_get:
  "bt_get (graph_functions swap_graph) (lit ''a'') = Some (swap_graph ! 0)"
  "bt_get (graph_functions swap_graph) (lit ''b'') = Some (swap_graph ! 1)"
  unfolding swap_graph_functions by (simp_all add: swap_graph_def bt_get_def lit_def)

lemma swap_graph_access:
  "may_access (graph_functions swap_graph) (lit ''a'') (Parameter 1) MeWrite"
proof -
  have "may_access (graph_functions swap_graph) (lit ''b'') (Parameter 0)
      (summary_effect (ef_direct (swap_graph ! 1)) (Parameter 0))"
    by (intro access_direct swap_graph_get)
  then have "may_access (graph_functions swap_graph) (lit ''b'') (Parameter 0) MeWrite"
    by (simp add: swap_graph_def writes_def summary_effect_def from_access_def memory_at_add_access)
  then have "may_access (graph_functions swap_graph)
      (ec_callee (call_to ''b'' [Some (Parameter 1), Some (Parameter 0)])) (Parameter 0) MeWrite"
    by (simp add: call_to_def)
  then show ?thesis
    by (rule access_call [OF swap_graph_get(1), rotated]) (simp_all add: swap_graph_def map_target_def call_to_def)
qed

section \<open>The properties\<close>

text \<open>
  C6. The components a run reports list every function of the graph exactly once, and two
  functions share a component exactly when each can reach the other through calls.
\<close>

theorem solve_sccs_partition:
  assumes "wf_graph graph" "sr_sccs (solve_effect_graph graph budget) = sccs"
  shows "distinct (concat sccs) \<and> set (concat sccs) = ef_name ` set graph \<and>
    (\<forall>C \<in> set sccs. \<forall>a \<in> set C. \<forall>b. b \<in> set C \<longleftrightarrow>
       b \<in> ef_name ` set graph \<and> reaches (graph_functions graph) a b \<and>
       reaches (graph_functions graph) b a)"
proof -
  obtain solved where cl: "classes (graph_functions graph) sccs"
    and cover: "set (concat sccs) = set (map fst (graph_functions graph))"
    using solve_final [OF assms(1) refl refl] assms(2) by metis
  then show ?thesis
    unfolding classes_def mutual_def graph_functions_names by blast
qed

theorem solve_sccs_partition_witness:
  "set (concat (sr_sccs (solve_effect_graph swap_graph None))) = {lit ''a'', lit ''b''}"
  using solve_sccs_partition [OF wf_swap_graph refl, of None] by (auto simp: swap_graph_def)

text \<open>
  C7. Soundness: whatever the budget, the summary of a function allows every access and has
  every flag that a run of it may show, its own, those of its callees at the targets their
  calls map to, and anything behind a call to a function the graph does not know.
\<close>

theorem solve_effects_sound:
  assumes "wf_graph graph" "r = solve_effect_graph graph budget"
    "may_access (graph_functions graph) n t e"
  shows "\<exists>s. bt_get (sr_summaries r) n = Some s \<and> me_allows (summary_effect s t) e \<and>
    (\<forall>fl. may_flag (graph_functions graph) n fl \<longrightarrow> has_flag fl s)"
proof -
  note post = solve_post_solution [OF assms(1,2) refl]
  from post_solution_access [OF assms(3) post(3,2,1)] obtain s where
    s: "bt_get (sr_summaries r) n = Some s" "e \<le> summary_effect s t" by blast
  moreover have "has_flag fl s" if "may_flag (graph_functions graph) n fl" for fl
    using post_solution_flag [OF that post(3,2,1)] s(1) by auto
  ultimately show ?thesis by (auto simp: less_eq_memory_effect_def)
qed

theorem solve_effects_sound_witness:
  "\<exists>s. bt_get (sr_summaries (solve_effect_graph swap_graph (Some 1))) (lit ''a'') = Some s \<and>
     me_allows (summary_effect s (Parameter 1)) MeWrite"
  using solve_effects_sound [OF wf_swap_graph refl swap_graph_access, of "Some 1"] by blast

text \<open>
  C8. Every function's summary solves its equation up to the conservative widening, exactly so
  when the budget was not exhausted.
\<close>

theorem solve_effects_fixpoint:
  assumes "wf_graph graph" "r = solve_effect_graph graph budget"
    "bt_get (graph_functions graph) n = Some f"
  shows "\<exists>s. bt_get (sr_summaries r) n = Some s \<and> summary_le (transfer (sr_summaries r) f) s \<and>
    (\<not> sr_exhausted r \<longrightarrow> s = transfer (sr_summaries r) f)"
  using solve_solved [OF assms(1,2) refl assms(3)] by blast

theorem solve_effects_fixpoint_witness:
  "\<exists>s. bt_get (sr_summaries (solve_effect_graph swap_graph None)) (lit ''a'') = Some s \<and>
     summary_le (transfer (sr_summaries (solve_effect_graph swap_graph None)) (swap_graph ! 0)) s"
  using solve_effects_fixpoint [OF wf_swap_graph refl swap_graph_get(1), of None] by blast

text \<open>
  C9. Precision: when the budget was not exhausted, the summaries are the least solution of the
  equations, below any summaries \<open>sol\<close> that bound them.
\<close>

theorem solve_effects_least:
  assumes "wf_graph graph" "r = solve_effect_graph graph budget" "\<not> sr_exhausted r"
    "summaries_ok sol" "post_solution (graph_functions graph) sol"
  shows "summaries_le (graph_functions graph) (sr_summaries r) sol"
proof -
  let ?fns = "graph_functions graph"
  have g: "graph_ok ?fns" using graph_functions_ok [OF assms(1)] .
  then have ok: "bt_ok ?fns" by (simp add: graph_ok_def)
  note run = solve_run [OF assms(2) refl]
  note cl = sccs_classes [OF ok, folded run(2)]
  have "summaries_le ?fns (direct_summaries ?fns) sol"
    unfolding summaries_le_def
  proof (intro conjI allI impI)
    fix n
    assume "bt_get ?fns n \<noteq> None"
    then obtain f where f: "bt_get ?fns n = Some f" by blast
    obtain u where u: "bt_get sol n = Some u" "summary_le (transfer sol f) u"
      using post_solution_at [OF assms(5) f] .
    moreover have "summary_le (ef_direct f) (transfer sol f)"
      using g f by (intro transfer_direct) (auto simp: graph_ok_def)
    ultimately show "\<exists>s u. bt_get (direct_summaries ?fns) n = Some s \<and> bt_get sol n = Some u \<and> summary_le s u"
      using f summary_le_trans by (auto simp: direct_summaries_get [OF ok])
  qed (use post_solution_unknown [OF assms(5)] direct_summaries_get [OF ok] in simp_all)
  with solve_loop_below [OF g cl loop_inv_start [OF g] this assms(4,5)] run(1) assms(3)
  show ?thesis by blast
qed

definition leaf_graph :: effect_graph where
  "leaf_graph = [\<lparr>ef_name = [], ef_parameter_count = 1, ef_direct = writes 0, ef_calls = []\<rparr>]"

lemma leaf_graph_functions: "graph_functions leaf_graph = [([], leaf_graph ! 0)]"
  by (simp add: graph_functions_def leaf_graph_def bt_collect_def)

lemma leaf_graph_not_exhausted: "\<not> sr_exhausted (solve_effect_graph leaf_graph (Some 1))"
proof -
  have calls: "ef_calls (leaf_graph ! 0) = []" by (simp add: leaf_graph_def)
  have sccs: "strongly_connected_components [([], leaf_graph ! 0)] = [[[]]]"
    by (simp add: strongly_connected_components_def scc_step_def reachable_from_def
        callees_def bt_get_def calls)
  show ?thesis
    unfolding solve_effect_graph_def graph_functions_def [symmetric] leaf_graph_functions sccs Let_def
    by (simp add: solve_loop.simps solve_component.simps component_ready_def the_function_def
        bt_get_def bt_collect_def calls transfer_def)
qed

theorem solve_effects_least_witness:
  "summaries_le (graph_functions leaf_graph) (sr_summaries (solve_effect_graph leaf_graph (Some 1)))
     [([], full_conservative)]"
proof (rule solve_effects_least [OF _ refl leaf_graph_not_exhausted])
  show "wf_graph leaf_graph"
    by (simp add: wf_graph_def leaf_graph_def writes_def from_access_def)
  show "summaries_ok [([], full_conservative)]"
    by (auto simp: summaries_ok_def bt_ok_def bt_get_def split: if_splits)
  show "post_solution (graph_functions leaf_graph) [([], full_conservative)]"
    unfolding post_solution_def leaf_graph_functions
    by (auto simp: bt_get_def full_conservative_top split: if_splits)
qed

text \<open>
  C10. The budget: a run takes at most \<open>max_steps\<close> steps, and it is marked exhausted only after
  taking all of them; its default budget is saturated at \<open>u32::MAX\<close>.
\<close>

theorem solve_steps_bounded:
  "sr_steps (solve_effect_graph graph budget) \<le> sr_max_steps (solve_effect_graph graph budget) \<and>
   (sr_steps (solve_effect_graph graph budget) = sr_max_steps (solve_effect_graph graph budget) \<or>
    sr_exhausted (solve_effect_graph graph budget) = False) \<and>
   sr_max_steps (solve_effect_graph graph None) \<le> u32_max"
proof -
  let ?r = "solve_effect_graph graph budget"
  obtain solved where "solve_loop (graph_functions graph) (sr_max_steps ?r) (sr_sccs ?r) []
      (direct_summaries (graph_functions graph)) 0 False =
      (sr_summaries ?r, sr_steps ?r, sr_exhausted ?r, solved)"
    using solve_run(1) [OF refl refl] by blast
  from solve_loop_budget [OF this] have "sr_steps ?r \<le> sr_max_steps ?r"
    "sr_exhausted ?r \<longrightarrow> sr_steps ?r = sr_max_steps ?r" by simp_all
  moreover have "sr_max_steps (solve_effect_graph graph None) \<le> u32_max"
    by (simp add: solve_effect_graph_def Let_def saturating_u32_def split: prod.split)
  ultimately show ?thesis by auto
qed

end
