(* ===== verification/Mir_Model.thy ===== *)
theory Mir_Model
  imports Prelude
begin

text \<open>
  The middle-level representation of \<^verbatim>\<open>src/src/ir/model.rs\<close>: types, places, values,
  instructions, blocks and modules. Constructor arguments are the fields in source order.
\<close>

datatype mir_primitive_type_name = MirI32 | MirI64 | MirU32 | MirU64 | MirF64 | MirBool

datatype mir_type =
    MirPrimitive mir_primitive_type_name
  | MirPointer mir_type
  | MirSlice mir_type
  | MirStruct rstring
  | MirVoid

datatype mir_entry_result = MirEntryVoid | MirEntryI32

record mir_entry_point =
  entry_function_name :: rstring
  entry_result :: mir_entry_result

record mir_struct_field =
  mir_field_name :: rstring
  mir_field_type :: mir_type

record mir_struct =
  mir_struct_name :: rstring
  mir_struct_fields :: "mir_struct_field list"

record mir_param =
  mir_param_name :: rstring
  mir_param_type :: mir_type

record mir_local =
  mir_local_name :: rstring
  mir_local_type :: mir_type

datatype mir_value =
    MirParamValue rstring mir_type
  | MirLocalValue rstring mir_type
  | MirTemp rstring mir_type
  | MirConstInt rstring mir_type
  | MirConstFloat rstring mir_type
  | MirConstBool bool mir_type

datatype mir_place =
    MirPlaceParam rstring mir_type
  | MirPlaceLocal rstring mir_type
  | MirPlaceDeref mir_value mir_type
  | MirPlaceIndex mir_place mir_value mir_type
  | MirPlaceSliceIndex mir_value mir_value mir_type
  | MirPlaceField mir_place rstring mir_type

datatype mir_binary_op = MirAdd | MirSub | MirMul | MirDiv | MirMod

datatype mir_compare_op = MirEq | MirNe | MirLt | MirLe | MirGt | MirGe

datatype mir_unary_op = MirNeg | MirNot

datatype mir_cast_op = I32ToF64 | U32ToF64

datatype mir_runtime_intrinsic =
  PrintI32 | PrintI64 | PrintU32 | PrintU64 | PrintF64 | PrintBool | PrintNewline

datatype (plugins only: code size) mir_instruction =
    IConstInt mir_value rstring
  | IConstFloat mir_value rstring
  | IConstBool mir_value bool
  | IMove mir_value mir_value
  | IBinary mir_value mir_binary_op mir_value mir_value
  | IUnary mir_value mir_unary_op mir_value
  | ICompare mir_value mir_compare_op mir_value mir_value
  | ICast mir_value mir_cast_op mir_value
  | IAddress mir_value mir_place
  | ILoad mir_value mir_place
  | IStore mir_place mir_value
  | IMakeSlice mir_value mir_value mir_value
  | ISliceData mir_value mir_value
  | ISliceLen mir_value mir_value
  | ISubslice mir_value mir_value mir_value mir_value
  | ICall "mir_value option" rstring "mir_value list"
  | IRuntimeCall mir_runtime_intrinsic "mir_value list"

datatype mir_terminator =
    MirReturn "mir_value option"
  | MirJump rstring
  | MirBranch mir_value rstring rstring

record mir_block =
  mir_label :: rstring
  mir_instructions :: "mir_instruction list"
  mir_terminator :: mir_terminator

record mir_function =
  mir_name :: rstring
  mir_exported :: bool
  mir_params :: "mir_param list"
  mir_return_type :: mir_type
  mir_locals :: "mir_local list"
  mir_blocks :: "mir_block list"

record mir_module =
  mir_entry :: "mir_entry_point option"
  mir_structs :: "mir_struct list"
  mir_functions :: "mir_function list"

fun value_type :: "mir_value \<Rightarrow> mir_type" where
  "value_type (MirParamValue _ t) = t"
| "value_type (MirLocalValue _ t) = t"
| "value_type (MirTemp _ t) = t"
| "value_type (MirConstInt _ t) = t"
| "value_type (MirConstFloat _ t) = t"
| "value_type (MirConstBool _ t) = t"

fun place_type :: "mir_place \<Rightarrow> mir_type" where
  "place_type (MirPlaceParam _ t) = t"
| "place_type (MirPlaceLocal _ t) = t"
| "place_type (MirPlaceDeref _ t) = t"
| "place_type (MirPlaceIndex _ _ t) = t"
| "place_type (MirPlaceSliceIndex _ _ t) = t"
| "place_type (MirPlaceField _ _ t) = t"

end
