(* ===== verification/Reachability.thy ===== *)
theory Reachability
  imports Mir_Model Worklist
begin

text \<open>
  Artifact preparation (\<^verbatim>\<open>src/src/ir/reachability.rs\<close>): the breadth-first search over
  calls from the artifact's roots, its errors, and the module that remains. A \<open>VecDeque\<close> is a
  list with its front first, a \<open>HashSet\<close> a set; a \<open>HashMap\<close> collected from a list keeps the
  last function of a name.
\<close>

section \<open>Effects of single instructions\<close>

datatype mir_instruction_effect =
  EffPure | EffReadMemory | EffWriteMemory | EffUnknownCall | EffObservableOutput

fun invalidates_value_facts :: "mir_instruction_effect \<Rightarrow> bool" where
  "invalidates_value_facts EffWriteMemory = True"
| "invalidates_value_facts EffUnknownCall = True"
| "invalidates_value_facts EffObservableOutput = True"
| "invalidates_value_facts _ = False"

fun instruction_effect :: "mir_instruction \<Rightarrow> mir_instruction_effect" where
  "instruction_effect (ILoad _ _) = EffReadMemory"
| "instruction_effect (IStore _ _) = EffWriteMemory"
| "instruction_effect (ICall _ _ _) = EffUnknownCall"
| "instruction_effect (IRuntimeCall _ _) = EffObservableOutput"
| "instruction_effect _ = EffPure"

section \<open>Consumers and errors\<close>

datatype mir_artifact_consumer =
  ConsumerC | ConsumerWebAssembly | ConsumerNativeLibrary | ConsumerNativeExecutable | ConsumerInspection

fun consumer_text :: "mir_artifact_consumer \<Rightarrow> rstring" where
  "consumer_text ConsumerC = lit ''C''"
| "consumer_text ConsumerWebAssembly = lit ''WebAssembly''"
| "consumer_text ConsumerNativeLibrary = lit ''native library''"
| "consumer_text ConsumerNativeExecutable = lit ''native executable''"
| "consumer_text ConsumerInspection = lit ''optimizer inspection''"

fun print_runtime_intrinsic :: "mir_runtime_intrinsic \<Rightarrow> rstring" where
  "print_runtime_intrinsic PrintI32 = lit ''print_i32''"
| "print_runtime_intrinsic PrintI64 = lit ''print_i64''"
| "print_runtime_intrinsic PrintU32 = lit ''print_u32''"
| "print_runtime_intrinsic PrintU64 = lit ''print_u64''"
| "print_runtime_intrinsic PrintF64 = lit ''print_f64''"
| "print_runtime_intrinsic PrintBool = lit ''print_bool''"
| "print_runtime_intrinsic PrintNewline = lit ''print_newline''"

fun join_path :: "rstring list \<Rightarrow> rstring" where
  "join_path [] = []"
| "join_path [name] = name"
| "join_path (name # path) = name @ lit '' -> '' @ join_path path"

record mir_artifact_error =
  artifact_message :: rstring

definition missing_function_error :: "mir_artifact_consumer \<Rightarrow> rstring list \<Rightarrow> mir_artifact_error" where
  "missing_function_error consumer path =
     \<lparr>artifact_message = consumer_text consumer @ lit '' artifact root path '' @ quoted (join_path path) @
        lit '' names a missing function''\<rparr>"

definition runtime_call_error ::
    "mir_artifact_consumer \<Rightarrow> rstring list \<Rightarrow> mir_runtime_intrinsic \<Rightarrow> mir_artifact_error" where
  "runtime_call_error consumer path intrinsic =
     \<lparr>artifact_message = consumer_text consumer @ lit '' artifact root '' @ quoted (hd path) @
        lit '' reaches native-only runtime intrinsic '' @ quoted (print_runtime_intrinsic intrinsic) @
        lit '' through '' @ join_path path @ lit ''.''\<rparr>"

section \<open>Roots and reachable functions\<close>

definition exported_artifact_roots :: "mir_module \<Rightarrow> rstring list" where
  "exported_artifact_roots m = map mir_name (filter mir_exported (mir_functions m))"

definition optimizer_artifact_roots :: "mir_module \<Rightarrow> rstring list" where
  "optimizer_artifact_roots m =
     (let roots = exported_artifact_roots m in
      case mir_entry m of
        Some entry \<Rightarrow> if entry_function_name entry \<notin> set roots
                      then roots @ [entry_function_name entry] else roots
      | None \<Rightarrow> roots)"

definition functions_by_name :: "mir_module \<Rightarrow> rstring \<rightharpoonup> mir_function" where
  "functions_by_name m = map_of (rev (map (\<lambda>f. (mir_name f, f)) (mir_functions m)))"

definition body :: "mir_function \<Rightarrow> mir_instruction list" where
  "body f = concat (map mir_instructions (mir_blocks f))"

fun called_name :: "mir_instruction \<Rightarrow> rstring option" where
  "called_name (ICall _ name _) = Some name"
| "called_name _ = None"

definition called_names :: "mir_module \<Rightarrow> rstring \<Rightarrow> rstring list" where
  "called_names m name =
     (case functions_by_name m name of
        Some f \<Rightarrow> List.map_filter called_name (body f)
      | None \<Rightarrow> [])"

lemma functions_by_name_finite: "finite (dom (functions_by_name m))"
  by (simp add: functions_by_name_def finite_dom_map_of)

lemma called_names_outside: "name \<notin> dom (functions_by_name m) \<Longrightarrow> called_names m name = []"
  by (auto simp: called_names_def split: option.split)

function reach_queue :: "mir_module \<Rightarrow> rstring set \<Rightarrow> rstring list \<Rightarrow> rstring set" where
  "reach_queue m reachable [] = reachable"
| "reach_queue m reachable (name # queue) =
     (if name \<in> reachable then reach_queue m reachable queue
      else let reachable = insert name reachable in
        reach_queue m reachable (queue @ filter (\<lambda>c. c \<notin> reachable) (called_names m name)))"
  by pat_completeness auto
termination
proof (relation "measures [\<lambda>(m, reachable, queue). card (dom (functions_by_name m) - reachable),
    \<lambda>(m, reachable, queue). length queue]", goal_cases)
  case (3 m reachable name queue x)
  show ?case
  proof (cases "name \<in> dom (functions_by_name m)")
    case True
    with 3 have "card (dom (functions_by_name m) - insert name reachable) <
        card (dom (functions_by_name m) - reachable)"
      by (intro psubset_card_mono) (auto simp: functions_by_name_finite)
    with 3 show ?thesis by simp
  next
    case False
    then have "dom (functions_by_name m) - insert name reachable =
        dom (functions_by_name m) - reachable" by auto
    with 3 False show ?thesis by (simp add: called_names_outside)
  qed
qed auto

definition reachable_function_names :: "mir_module \<Rightarrow> rstring list \<Rightarrow> rstring list" where
  "reachable_function_names m roots =
     (let reachable = reach_queue m {} roots in
      map mir_name (filter (\<lambda>f. mir_name f \<in> reachable) (mir_functions m)))"

section \<open>Preparing an artifact\<close>

text \<open>
  One function's instructions: a runtime call that the consumer does not allow is an error, a
  call to an unvisited function is queued with the path to it.
\<close>

fun scan_body :: "mir_artifact_consumer \<Rightarrow> bool \<Rightarrow> rstring set \<Rightarrow> rstring list \<Rightarrow>
    mir_instruction list \<Rightarrow> (rstring \<times> rstring list) list \<Rightarrow>
    mir_artifact_error + (rstring \<times> rstring list) list" where
  "scan_body consumer allow_runtime visited path [] queue = Inr queue"
| "scan_body consumer allow_runtime visited path (IRuntimeCall intrinsic _ # rest) queue =
     (if \<not> allow_runtime then Inl (runtime_call_error consumer path intrinsic)
      else scan_body consumer allow_runtime visited path rest queue)"
| "scan_body consumer allow_runtime visited path (ICall _ name _ # rest) queue =
     scan_body consumer allow_runtime visited path rest
       (if name \<notin> visited then queue @ [(name, path @ [name])] else queue)"
| "scan_body consumer allow_runtime visited path (_ # rest) queue =
     scan_body consumer allow_runtime visited path rest queue"

function prepare_loop :: "mir_module \<Rightarrow> mir_artifact_consumer \<Rightarrow> bool \<Rightarrow> rstring set \<Rightarrow>
    (rstring \<times> rstring list) list \<Rightarrow> mir_artifact_error + rstring set" where
  "prepare_loop m consumer allow_runtime visited [] = Inr visited"
| "prepare_loop m consumer allow_runtime visited ((name, path) # queue) =
     (if name \<in> visited then prepare_loop m consumer allow_runtime visited queue
      else let visited = insert name visited in
        case functions_by_name m name of
          None \<Rightarrow> Inl (missing_function_error consumer path)
        | Some f \<Rightarrow>
            (case scan_body consumer allow_runtime visited path (body f) queue of
               Inl e \<Rightarrow> Inl e
             | Inr queue \<Rightarrow> prepare_loop m consumer allow_runtime visited queue))"
  by pat_completeness auto
termination
proof (relation "measures [\<lambda>(m, c, a, visited, queue). card (dom (functions_by_name m) - visited),
    \<lambda>(m, c, a, visited, queue). length queue]", goal_cases)
  case (3 m consumer allow_runtime visited name path queue visited' f queue')
  then have "card (dom (functions_by_name m) - insert name visited) <
      card (dom (functions_by_name m) - visited)"
    by (intro psubset_card_mono) (auto simp: functions_by_name_finite)
  with 3 show ?case by simp
qed auto

definition prepare_artifact :: "mir_module \<Rightarrow> rstring list \<Rightarrow> mir_artifact_consumer \<Rightarrow> bool \<Rightarrow>
    bool \<Rightarrow> mir_artifact_error + mir_module" where
  "prepare_artifact m roots consumer allow_runtime preserve_entry =
     (case prepare_loop m consumer allow_runtime {} (map (\<lambda>root. (root, [root])) roots) of
        Inl e \<Rightarrow> Inl e
      | Inr visited \<Rightarrow>
          let artifact = m\<lparr>mir_functions := filter (\<lambda>f. mir_name f \<in> visited) (mir_functions m)\<rparr> in
          Inr (if \<not> preserve_entry then artifact\<lparr>mir_entry := None\<rparr> else artifact))"

definition prepare_non_executable_artifact_from_roots :: "mir_module \<Rightarrow> mir_artifact_consumer \<Rightarrow>
    rstring list \<Rightarrow> mir_artifact_error + mir_module" where
  "prepare_non_executable_artifact_from_roots m consumer roots =
     prepare_artifact m roots consumer False False"

definition prepare_non_executable_artifact :: "mir_module \<Rightarrow> mir_artifact_consumer \<Rightarrow>
    mir_artifact_error + mir_module" where
  "prepare_non_executable_artifact m consumer =
     prepare_non_executable_artifact_from_roots m consumer (exported_artifact_roots m)"

definition prepare_executable_artifact :: "mir_module \<Rightarrow> mir_artifact_error + mir_module" where
  "prepare_executable_artifact m =
     (case mir_entry m of
        None \<Rightarrow> Inl \<lparr>artifact_message = lit ''native executable artifact requires MIR entry metadata''\<rparr>
      | Some entry \<Rightarrow>
          prepare_artifact m [entry_function_name entry] ConsumerNativeExecutable True True)"

fun prepare_artifact_for_consumer :: "mir_module \<Rightarrow> mir_artifact_consumer \<Rightarrow>
    mir_artifact_error + mir_module" where
  "prepare_artifact_for_consumer m ConsumerC = prepare_non_executable_artifact m ConsumerC"
| "prepare_artifact_for_consumer m ConsumerWebAssembly =
     prepare_non_executable_artifact m ConsumerWebAssembly"
| "prepare_artifact_for_consumer m ConsumerNativeLibrary =
     prepare_non_executable_artifact m ConsumerNativeLibrary"
| "prepare_artifact_for_consumer m ConsumerNativeExecutable = prepare_executable_artifact m"
| "prepare_artifact_for_consumer m ConsumerInspection =
     prepare_artifact m (optimizer_artifact_roots m) ConsumerInspection True True"

section \<open>What the searches compute\<close>

fun is_runtime_call :: "mir_instruction \<Rightarrow> bool" where
  "is_runtime_call (IRuntimeCall _ _) = True"
| "is_runtime_call _ = False"

lemma is_runtime_call_iff: "is_runtime_call i \<longleftrightarrow> (\<exists>intrinsic args. i = IRuntimeCall intrinsic args)"
  by (cases i) simp_all

definition calls_runtime :: "mir_function \<Rightarrow> bool" where
  "calls_runtime f \<longleftrightarrow> (\<exists>i \<in> set (body f). is_runtime_call i)"

lemma scan_body_Inr:
  "scan_body consumer allow_runtime visited path is queue = Inr queue' \<longleftrightarrow>
     (allow_runtime \<or> (\<forall>i \<in> set is. \<not> is_runtime_call i)) \<and>
     queue' = queue @ map (\<lambda>c. (c, path @ [c]))
       (filter (\<lambda>c. c \<notin> visited) (List.map_filter called_name is))"
proof (induction "is" arbitrary: queue)
  case Nil
  show ?case by (simp add: List.map_filter_simps eq_commute)
next
  case (Cons i "is")
  show ?case
    using Cons.IH by (cases i; cases allow_runtime) (simp_all add: List.map_filter_simps)
qed

lemma scan_body_Inl:
  "scan_body consumer allow_runtime visited path is queue = Inl e \<Longrightarrow>
     \<not> allow_runtime \<and> (\<exists>intrinsic args. IRuntimeCall intrinsic args \<in> set is \<and>
        e = runtime_call_error consumer path intrinsic)"
proof (induction "is" arbitrary: queue)
  case Nil
  then show ?case by simp
next
  case (Cons i "is")
  then show ?case by (cases i) (fastforce split: if_splits)+
qed

interpretation bfs: worklist "called_names m" "reach_queue m" "dom (functions_by_name m)" for m
proof (unfold_locales, goal_cases)
  case (2 a)
  then show ?case by (rule called_names_outside)
next
  case (5 a seen work)
  then show ?case
    by (intro exI [of _ "work @ filter (\<lambda>c. c \<notin> insert a seen) (called_names m a)"]) (auto simp: Let_def)
qed (simp_all add: functions_by_name_finite)

definition acceptable :: "mir_module \<Rightarrow> bool \<Rightarrow> rstring \<Rightarrow> bool" where
  "acceptable m allow_runtime name \<longleftrightarrow>
     (\<exists>f. functions_by_name m name = Some f \<and> (allow_runtime \<or> \<not> calls_runtime f))"

lemma reach_queue_grows: "seen \<subseteq> reach_queue m seen work"
  by (induction seen work rule: bfs.search_induct [where m = m]) auto

lemma prepare_loop_Inr:
  "prepare_loop m consumer allow_runtime visited queue = Inr V \<longleftrightarrow>
     V = reach_queue m visited (map fst queue) \<and> (\<forall>n \<in> V - visited. acceptable m allow_runtime n)"
proof (induction m consumer allow_runtime visited queue rule: prepare_loop.induct)
  case (1 m consumer allow_runtime visited)
  then show ?case by auto
next
  case (2 m consumer allow_runtime visited name path queue)
  show ?case
  proof (cases "name \<in> visited")
    case True
    with "2.IH"(1) show ?thesis by simp
  next
    case False
    let ?v = "insert name visited"
    let ?q = "queue @ map (\<lambda>c. (c, path @ [c])) (filter (\<lambda>c. c \<notin> ?v) (called_names m name))"
    have fst: "map fst ?q = map fst queue @ filter (\<lambda>c. c \<notin> ?v) (called_names m name)"
      by (simp add: comp_def)
    have reach: "reach_queue m visited (map fst ((name, path) # queue)) = reach_queue m ?v (map fst ?q)"
      using False unfolding fst by (simp add: Let_def)
    show ?thesis
    proof (cases "acceptable m allow_runtime name")
      case True
      then obtain f where f: "functions_by_name m name = Some f" "allow_runtime \<or> \<not> calls_runtime f"
        by (auto simp: acceptable_def)
      have scan: "scan_body consumer allow_runtime ?v path (body f) queue = Inr ?q"
        using f by (auto simp: scan_body_Inr called_names_def calls_runtime_def)
      have "prepare_loop m consumer allow_runtime visited ((name, path) # queue) =
          prepare_loop m consumer allow_runtime ?v ?q"
        using False f scan by (simp add: Let_def)
      with "2.IH"(2) [OF False refl f(1) scan] reach True False show ?thesis
        by (auto split: if_splits)
    next
      case bad: False
      have "prepare_loop m consumer allow_runtime visited ((name, path) # queue) \<noteq> Inr V"
        using False bad
        by (auto simp: Let_def acceptable_def calls_runtime_def scan_body_Inr split: option.splits sum.splits)
      moreover have "name \<in> reach_queue m visited (map fst ((name, path) # queue)) - visited"
        using False unfolding reach using reach_queue_grows [of ?v m] by auto
      ultimately show ?thesis using bad by auto
    qed
  qed
qed

text \<open>The path of a queued function is a chain of calls from a root to it.\<close>

definition call_path :: "mir_module \<Rightarrow> rstring list \<Rightarrow> rstring list \<Rightarrow> bool" where
  "call_path m roots path \<longleftrightarrow> path \<noteq> [] \<and> hd path \<in> set roots \<and>
     (\<forall>i. Suc i < length path \<longrightarrow> path ! Suc i \<in> set (called_names m (path ! i)))"

lemma call_path_snoc:
  assumes "call_path m roots path" "c \<in> set (called_names m (last path))"
  shows "call_path m roots (path @ [c])"
  unfolding call_path_def
proof (intro conjI allI impI)
  fix i
  assume i: "Suc i < length (path @ [c])"
  show "(path @ [c]) ! Suc i \<in> set (called_names m ((path @ [c]) ! i))"
  proof (cases "Suc i < length path")
    case True
    with assms(1) show ?thesis by (simp add: call_path_def nth_append)
  next
    case False
    with i have "i = length path - 1" "i < length path" by auto
    with assms show ?thesis by (simp add: call_path_def nth_append last_conv_nth)
  qed
qed (use assms(1) in \<open>auto simp: call_path_def\<close>)

definition artifact_error_at :: "mir_module \<Rightarrow> rstring list \<Rightarrow> mir_artifact_consumer \<Rightarrow> bool \<Rightarrow>
    mir_artifact_error \<Rightarrow> bool" where
  "artifact_error_at m roots consumer allow_runtime e \<longleftrightarrow>
     (\<exists>path. call_path m roots path \<and>
        (functions_by_name m (last path) = None \<and> e = missing_function_error consumer path \<or>
         (\<exists>f intrinsic args. functions_by_name m (last path) = Some f \<and> \<not> allow_runtime \<and>
            IRuntimeCall intrinsic args \<in> set (body f) \<and> e = runtime_call_error consumer path intrinsic)))"

lemma prepare_loop_Inl:
  assumes "prepare_loop m consumer allow_runtime visited queue = Inl e"
    and "\<And>n p. (n, p) \<in> set queue \<Longrightarrow> call_path m roots p \<and> last p = n"
  shows "artifact_error_at m roots consumer allow_runtime e"
  using assms
proof (induction m consumer allow_runtime visited queue rule: prepare_loop.induct)
  case (1 m consumer allow_runtime visited)
  then show ?case by simp
next
  case (2 m consumer allow_runtime visited name path queue)
  have path: "call_path m roots path" "last path = name" using "2.prems"(2) by auto
  show ?case
  proof (cases "name \<in> visited")
    case True
    have "call_path m roots p \<and> last p = n" if "(n, p) \<in> set queue" for n p
      using "2.prems"(2) [of n p] that by simp
    from "2.IH"(1) [OF True _ this] "2.prems"(1) True show ?thesis by simp
  next
    case False
    let ?v = "insert name visited"
    show ?thesis
    proof (cases "functions_by_name m name")
      case None
      with "2.prems"(1) False path show ?thesis
        by (auto simp: artifact_error_at_def Let_def intro!: exI [of _ path])
    next
      case (Some f)
      show ?thesis
      proof (cases "scan_body consumer allow_runtime ?v path (body f) queue")
        case (Inl e')
        with "2.prems"(1) False Some have "e' = e" by (simp add: Let_def)
        with scan_body_Inl [OF Inl] Some path show ?thesis
          unfolding artifact_error_at_def by blast
      next
        case (Inr queue')
        then have "queue' = queue @ map (\<lambda>c. (c, path @ [c]))
            (filter (\<lambda>c. c \<notin> ?v) (called_names m name))"
          using Some by (simp add: scan_body_Inr called_names_def)
        then have "call_path m roots p \<and> last p = n" if "(n, p) \<in> set queue'" for n p
          using that "2.prems"(2) path(2) call_path_snoc [OF path(1), unfolded path(2)] by auto
        from "2.IH"(2) [OF False refl Some Inr _ this] "2.prems"(1) False Some Inr show ?thesis
          by (simp add: Let_def)
      qed
    qed
  qed
qed

end
