(* ===== verification/Reachability_Properties.thy ===== *)
theory Reachability_Properties
  imports Reachability
begin

text \<open>The properties of artifact preparation.\<close>

definition calls_reach :: "mir_module \<Rightarrow> rstring \<Rightarrow> rstring \<Rightarrow> bool" where
  "calls_reach m a b \<longleftrightarrow> (a, b) \<in> {(a, b). b \<in> set (called_names m a)}\<^sup>*"

lemma closure_calls_reach: "b \<in> closure (called_names m) A \<longleftrightarrow> (\<exists>a \<in> A. calls_reach m a b)"
  by (auto simp: closure_def calls_reach_def)

lemma reach_queue_start: "b \<in> reach_queue m {} roots \<longleftrightarrow> (\<exists>a \<in> set roots. calls_reach m a b)"
  by (simp add: bfs.search_start closure_calls_reach)

lemma prepare_artifact_Inr:
  "prepare_artifact m roots consumer allow_runtime preserve_entry = Inr artifact \<longleftrightarrow>
     (\<forall>n \<in> reach_queue m {} roots. acceptable m allow_runtime n) \<and>
     artifact = m\<lparr>mir_entry := if preserve_entry then mir_entry m else None,
       mir_functions := filter (\<lambda>f. mir_name f \<in> reach_queue m {} roots) (mir_functions m)\<rparr>"
proof (cases "prepare_loop m consumer allow_runtime {} (map (\<lambda>root. (root, [root])) roots)")
  case (Inl e)
  with prepare_loop_Inr [of m consumer allow_runtime "{}" "map (\<lambda>root. (root, [root])) roots"
      "reach_queue m {} roots"]
  have "\<not> (\<forall>n \<in> reach_queue m {} roots. acceptable m allow_runtime n)"
    by (simp add: comp_def)
  with Inl show ?thesis by (simp add: prepare_artifact_def)
next
  case (Inr V)
  then have "V = reach_queue m {} roots" "\<forall>n \<in> V. acceptable m allow_runtime n"
    by (simp_all add: prepare_loop_Inr comp_def)
  with Inr show ?thesis by (auto simp: prepare_artifact_def Let_def)
qed

definition empty_function :: "string \<Rightarrow> mir_instruction list \<Rightarrow> mir_function" where
  "empty_function name is =
     \<lparr>mir_name = lit name, mir_exported = False, mir_params = [], mir_return_type = MirVoid,
      mir_locals = [], mir_blocks = [\<lparr>mir_label = [], mir_instructions = is,
        mir_terminator = MirReturn None\<rparr>]\<rparr>"

text \<open>\<open>main\<close> calls \<open>show\<close>, which prints; \<open>pure\<close> is not called.\<close>

definition printing_module :: mir_module where
  "printing_module = \<lparr>mir_entry = None, mir_structs = [], mir_functions =
     [empty_function ''main'' [ICall None (lit ''show'') []],
      empty_function ''show'' [IRuntimeCall PrintNewline []],
      empty_function ''pure'' []]\<rparr>"

lemmas printing_eval = printing_module_def empty_function_def functions_by_name_def called_names_def
  body_def List.map_filter_simps lit_def

text \<open>
  C11. \<open>reachable_function_names\<close> returns, in module order, the functions of the module that some
  root reaches through calls.
\<close>

theorem reachable_function_names_reach:
  "reachable_function_names m roots =
     filter (\<lambda>n. \<exists>a \<in> set roots. calls_reach m a n) (map mir_name (mir_functions m))"
  unfolding reachable_function_names_def Let_def reach_queue_start
  by (simp add: filter_map comp_def)

text \<open>
  C12. Preparing an artifact succeeds exactly when every function that a root reaches exists and,
  where the consumer has no runtime, calls no runtime intrinsic; the artifact then keeps exactly
  the reachable functions, and the entry only where it is preserved.
\<close>

theorem prepare_artifact_succeeds:
  "prepare_artifact m roots consumer allow_runtime preserve_entry = Inr artifact \<longleftrightarrow>
     {n. \<exists>a \<in> set roots. calls_reach m a n} \<subseteq>
       {n. \<exists>f. functions_by_name m n = Some f \<and> (allow_runtime \<or> calls_runtime f = False)} \<and>
     artifact = m\<lparr>mir_entry := if preserve_entry then mir_entry m else None,
       mir_functions := filter (\<lambda>f. \<exists>a \<in> set roots. calls_reach m a (mir_name f)) (mir_functions m)\<rparr>"
  unfolding prepare_artifact_Inr Ball_def reach_queue_start acceptable_def by auto

text \<open>
  C13. An error names a real path of calls from a root to a function that is missing, or to one
  that contains the runtime call the message prints.
\<close>

theorem prepare_artifact_error_path:
  assumes "prepare_artifact m roots consumer allow_runtime preserve_entry = Inl e"
  shows "artifact_error_at m roots consumer allow_runtime e"
proof (rule prepare_loop_Inl)
  show "prepare_loop m consumer allow_runtime {} (map (\<lambda>root. (root, [root])) roots) = Inl e"
    using assms by (auto simp: prepare_artifact_def Let_def split: sum.splits)
  show "call_path m roots p \<and> last p = n" if "(n, p) \<in> set (map (\<lambda>root. (root, [root])) roots)" for n p
    using that by (auto simp: call_path_def)
qed

theorem prepare_artifact_error_path_witness:
  "artifact_error_at printing_module [lit ''main''] ConsumerC False
     (runtime_call_error ConsumerC [lit ''main'', lit ''show''] PrintNewline)"
proof (rule prepare_artifact_error_path)
  show "prepare_artifact printing_module [lit ''main''] ConsumerC False False =
      Inl (runtime_call_error ConsumerC [lit ''main'', lit ''show''] PrintNewline)"
    by (simp add: prepare_artifact_def printing_eval)
qed



end
