(* ===== verification/Source.thy ===== *)
theory Source
  imports Prelude
begin

text \<open>
  Source text, positions, spans and diagnostics
  (\<^verbatim>\<open>src/src/frontend/source.rs\<close>, \<^verbatim>\<open>src/src/frontend/diagnostics.rs\<close>).
  Lines and columns start at 1; offsets and columns count UTF-16 units.
\<close>

record source_file =
  file_name :: rstring
  sf_text :: rstring

record source_position =
  pos_offset :: nat
  pos_line :: nat
  pos_column :: nat

record source_span =
  span_start :: source_position
  span_end :: source_position

datatype diagnostic_severity = Error

datatype diagnostic_code =
    Ck0001 | Ck1001
  | Ck2001 | Ck2002 | Ck2003 | Ck2004 | Ck2005 | Ck2006 | Ck2007 | Ck2008
  | Ck2009 | Ck2010 | Ck2011 | Ck2012 | Ck2013 | Ck2014 | Ck2015 | Ck2016

record diagnostic =
  diag_code :: diagnostic_code
  diag_severity :: diagnostic_severity
  diag_message :: rstring
  diag_file_name :: rstring
  diag_line :: nat
  diag_column :: nat
  diag_span :: source_span

definition diagnostic_error ::
    "diagnostic_code \<Rightarrow> rstring \<Rightarrow> rstring \<Rightarrow> source_span \<Rightarrow> diagnostic" where
  "diagnostic_error code message file span =
     \<lparr>diag_code = code, diag_severity = Error, diag_message = message,
      diag_file_name = file,
      diag_line = pos_line (span_start span), diag_column = pos_column (span_start span),
      diag_span = span\<rparr>"

end
