(* ===== verification/Ast.thy ===== *)
theory Ast
  imports Source
begin

text \<open>
  The syntax tree, \<^verbatim>\<open>src/src/frontend/ast.rs\<close>: an enum is a datatype with a constructor per
  variant, a struct a record; a struct that is part of a recursion is a datatype with one
  constructor and its fields as selectors.
\<close>

record identifier_node =
  id_name :: rstring
  id_span :: source_span

datatype (plugins only: code size) type_node =
    TypePrimitive rstring source_span
  | TypeVoid source_span
  | TypePointer type_node source_span
  | TypeSlice type_node source_span
  | TypeNamed identifier_node source_span
  | TypeError source_span

fun type_span :: "type_node \<Rightarrow> source_span" where
  "type_span (TypePrimitive _ span) = span"
| "type_span (TypeVoid span) = span"
| "type_span (TypePointer _ span) = span"
| "type_span (TypeSlice _ span) = span"
| "type_span (TypeNamed _ span) = span"
| "type_span (TypeError span) = span"

datatype (plugins only: code size) expression =
    EIdentifier rstring source_span
  | EIntegerLiteral rstring source_span
  | EFloatLiteral rstring source_span
  | EBoolLiteral bool source_span
  | EUnary rstring expression source_span
  | EBinary rstring expression expression source_span
  | ECall expression "expression list" source_span
  | ESliceConstructor expression expression source_span
  | EField expression identifier_node source_span
  | EIndex expression expression source_span
  | ESubslice expression expression expression source_span
  | EParenthesized expression source_span
  | EError source_span

fun expression_span :: "expression \<Rightarrow> source_span" where
  "expression_span (EIdentifier _ span) = span"
| "expression_span (EIntegerLiteral _ span) = span"
| "expression_span (EFloatLiteral _ span) = span"
| "expression_span (EBoolLiteral _ span) = span"
| "expression_span (EUnary _ _ span) = span"
| "expression_span (EBinary _ _ _ span) = span"
| "expression_span (ECall _ _ span) = span"
| "expression_span (ESliceConstructor _ _ span) = span"
| "expression_span (EField _ _ span) = span"
| "expression_span (EIndex _ _ span) = span"
| "expression_span (ESubslice _ _ _ span) = span"
| "expression_span (EParenthesized _ span) = span"
| "expression_span (EError span) = span"

fun is_call :: "expression \<Rightarrow> bool" where
  "is_call (ECall _ _ _) = True"
| "is_call _ = False"

datatype (plugins only: code size) statement =
    StBlock block_statement
  | StUnsafe block_statement source_span
  | StLet identifier_node type_node expression source_span
  | StAssignment expression expression source_span
  | StCall expression source_span
  | StReturn "expression option" source_span
  | StBreak source_span
  | StContinue source_span
  | StIf expression block_statement "block_statement option" source_span
  | StWhile expression block_statement source_span
  | StError source_span
and block_statement = BlockStatement (block_statements: "statement list") (block_span: source_span)

fun statement_span :: "statement \<Rightarrow> source_span" where
  "statement_span (StBlock b) = block_span b"
| "statement_span (StUnsafe _ span) = span"
| "statement_span (StLet _ _ _ span) = span"
| "statement_span (StAssignment _ _ span) = span"
| "statement_span (StCall _ span) = span"
| "statement_span (StReturn _ span) = span"
| "statement_span (StBreak span) = span"
| "statement_span (StContinue span) = span"
| "statement_span (StIf _ _ _ span) = span"
| "statement_span (StWhile _ _ span) = span"
| "statement_span (StError span) = span"

record contract_requirement =
  requirement_expression :: expression
  requirement_span :: source_span

datatype contract_effect_kind = EffectNone | EffectRead | EffectWrite | EffectReadWrite

record contract_effect_item =
  effect_kind :: contract_effect_kind
  effect_target :: identifier_node
  effect_span :: source_span

record contract_effect_clause =
  is_none :: bool
  effect_items :: "contract_effect_item list"
  effect_clause_span :: source_span

record contract_declaration =
  requirements :: "contract_requirement list"
  contract_effects :: "contract_effect_clause option"
  contract_span :: source_span

record function_param =
  param_name :: identifier_node
  param_type :: type_node
  param_span :: source_span

record function_declaration =
  exported :: bool
  is_unsafe :: bool
  fn_name :: identifier_node
  fn_params :: "function_param list"
  return_type :: type_node
  fn_contract :: "contract_declaration option"
  fn_body :: block_statement
  fn_span :: source_span

record struct_field =
  field_name :: identifier_node
  field_type :: type_node
  field_span :: source_span

record struct_declaration =
  struct_name :: identifier_node
  struct_fields :: "struct_field list"
  struct_span :: source_span

datatype (plugins only: code size) ast_declaration =
  DeclStruct struct_declaration | DeclFunction function_declaration

record program =
  declarations :: "ast_declaration list"
  program_span :: source_span

record parse_result =
  pr_ast :: program
  pr_diagnostics :: "diagnostic list"

end
