(* ===== verification/Scalar.thy ===== *)
theory Scalar
  imports Mir_Model Ast Ordered_Map "HOL-Library.Word" "HOL-Library.Signed_Division"
begin

unbundle bit_operations_syntax

text \<open>
  The integer domains of the optimizer (\<^verbatim>\<open>src/src/optimizer/analysis/scalar.rs\<close>,
  \<^verbatim>\<open>congruence.rs\<close>, \<^verbatim>\<open>known_bits.rs\<close>, \<^verbatim>\<open>affine.rs\<close>): intervals, congruences, known
  bits and affine forms, their product, and the transfer of operations and comparisons. A
  \<open>BigInt\<close> is an \<open>int\<close>; its \<open>/\<close> and \<open>%\<close> truncate towards zero and are \<open>sdiv\<close> and \<open>smod\<close>.
\<close>

section \<open>Types\<close>

datatype integer_type = I32 | I64 | U32 | U64

fun from_mir :: "mir_type \<Rightarrow> integer_type option" where
  "from_mir (MirPrimitive MirI32) = Some I32"
| "from_mir (MirPrimitive MirI64) = Some I64"
| "from_mir (MirPrimitive MirU32) = Some U32"
| "from_mir (MirPrimitive MirU64) = Some U64"
| "from_mir _ = None"

fun bits :: "integer_type \<Rightarrow> nat" where
  "bits I32 = 32"
| "bits U32 = 32"
| "bits I64 = 64"
| "bits U64 = 64"

fun is_signed :: "integer_type \<Rightarrow> bool" where
  "is_signed I32 = True"
| "is_signed I64 = True"
| "is_signed U32 = False"
| "is_signed U64 = False"

fun minimum :: "integer_type \<Rightarrow> int" where
  "minimum I32 = - (2 ^ 31)"
| "minimum I64 = - (2 ^ 63)"
| "minimum U32 = 0"
| "minimum U64 = 0"

fun maximum :: "integer_type \<Rightarrow> int" where
  "maximum I32 = 2 ^ 31 - 1"
| "maximum I64 = 2 ^ 63 - 1"
| "maximum U32 = 2 ^ 32 - 1"
| "maximum U64 = 2 ^ 64 - 1"

definition contains_i128 :: "integer_type \<Rightarrow> int \<Rightarrow> bool" where
  "contains_i128 ty value \<longleftrightarrow> value \<ge> minimum ty \<and> value \<le> maximum ty"

definition bit_mask :: "integer_type \<Rightarrow> 64 word" where
  "bit_mask ty = (if bits ty = 64 then - 1 else push_bit (bits ty) 1 - 1)"

definition modulus :: "integer_type \<Rightarrow> int" where
  "modulus ty = 2 ^ bits ty"

fun type_debug :: "integer_type \<Rightarrow> rstring" where
  "type_debug I32 = lit ''I32''"
| "type_debug I64 = lit ''I64''"
| "type_debug U32 = lit ''U32''"
| "type_debug U64 = lit ''U64''"

record scalar_domain_error =
  sde_message :: rstring

abbreviation domain_error :: "string \<Rightarrow> scalar_domain_error" where
  "domain_error message \<equiv> \<lparr>sde_message = lit message\<rparr>"

section \<open>Intervals\<close>

record scalar_interval =
  iv_lower :: int
  iv_upper :: int

definition interval_new :: "int \<Rightarrow> int \<Rightarrow> scalar_domain_error + scalar_interval" where
  "interval_new lower upper =
     (if lower > upper then Inl (domain_error ''interval lower bound exceeds upper bound'')
      else Inr \<lparr>iv_lower = lower, iv_upper = upper\<rparr>)"

definition interval_exact :: "int \<Rightarrow> scalar_interval" where
  "interval_exact value = \<lparr>iv_lower = value, iv_upper = value\<rparr>"

definition interval_for_type :: "integer_type \<Rightarrow> scalar_interval" where
  "interval_for_type ty = \<lparr>iv_lower = minimum ty, iv_upper = maximum ty\<rparr>"

definition intersection :: "scalar_interval \<Rightarrow> scalar_interval \<Rightarrow> scalar_interval option" where
  "intersection a b =
     (let lower = max (iv_lower a) (iv_lower b); upper = min (iv_upper a) (iv_upper b) in
      if lower \<le> upper then Some \<lparr>iv_lower = lower, iv_upper = upper\<rparr> else None)"

definition hull :: "scalar_interval \<Rightarrow> scalar_interval \<Rightarrow> scalar_interval" where
  "hull a b =
     \<lparr>iv_lower = min (iv_lower a) (iv_lower b), iv_upper = max (iv_upper a) (iv_upper b)\<rparr>"

definition is_exact :: "scalar_interval \<Rightarrow> bool" where
  "is_exact a \<longleftrightarrow> iv_lower a = iv_upper a"

section \<open>Congruences\<close>

record scalar_congruence =
  cg_modulus :: int
  cg_remainder :: int

definition mathematical_mod :: "int \<Rightarrow> int \<Rightarrow> int" where
  "mathematical_mod value m = (let remainder = value smod m in
     if remainder < 0 then remainder + m else remainder)"

definition congruence_new :: "int \<Rightarrow> int \<Rightarrow> scalar_domain_error + scalar_congruence" where
  "congruence_new m remainder =
     (if m \<le> 0 then Inl (domain_error ''congruence modulus must be a positive integer'')
      else Inr \<lparr>cg_modulus = m, cg_remainder = mathematical_mod remainder m\<rparr>)"

definition congruence_exact :: "int \<Rightarrow> scalar_congruence" where
  "congruence_exact value = \<lparr>cg_modulus = 0, cg_remainder = value\<rparr>"

definition congruence_top :: scalar_congruence where
  "congruence_top = \<lparr>cg_modulus = 1, cg_remainder = 0\<rparr>"

definition congruence_contains :: "scalar_congruence \<Rightarrow> int \<Rightarrow> bool" where
  "congruence_contains c value =
     (if cg_modulus c = 0 then value = cg_remainder c
      else mathematical_mod (value - cg_remainder c) (cg_modulus c) = 0)"

function gcd_loop :: "int \<Rightarrow> int \<Rightarrow> int" where
  "gcd_loop left right = (if right \<noteq> 0 then gcd_loop right (left smod right) else left)"
  by auto
termination
  by (relation "measure (\<lambda>(left, right). nat \<bar>right\<bar>)")
    (auto simp: signed_modulo_int_def abs_mult abs_sgn_eq)

declare gcd_loop.simps [simp del]

definition gcd_nonnegative :: "int \<Rightarrow> int \<Rightarrow> int" where
  "gcd_nonnegative left right =
     gcd_loop (if left < 0 then - left else left) (if right < 0 then - right else right)"

definition combine :: "scalar_congruence \<Rightarrow> scalar_congruence \<Rightarrow> bool \<Rightarrow> scalar_congruence" where
  "combine left right subtract =
     (let remainder = (if subtract then cg_remainder left - cg_remainder right
                       else cg_remainder left + cg_remainder right) in
      if cg_modulus left = 0 \<and> cg_modulus right = 0 then congruence_exact remainder
      else let m = gcd_nonnegative (cg_modulus left) (cg_modulus right) in
        if m = 0 then congruence_exact remainder
        else \<lparr>cg_modulus = m, cg_remainder = mathematical_mod remainder m\<rparr>)"

definition congruence_add :: "scalar_congruence \<Rightarrow> scalar_congruence \<Rightarrow> scalar_congruence" where
  "congruence_add a b = combine a b False"

definition congruence_sub :: "scalar_congruence \<Rightarrow> scalar_congruence \<Rightarrow> scalar_congruence" where
  "congruence_sub a b = combine a b True"

definition congruence_multiply :: "scalar_congruence \<Rightarrow> scalar_congruence \<Rightarrow> scalar_congruence" where
  "congruence_multiply a b =
     (if cg_modulus a = 0 \<and> cg_modulus b = 0
      then congruence_exact (cg_remainder a * cg_remainder b) else congruence_top)"

section \<open>Known bits\<close>

record scalar_known_bits =
  known_zero :: "64 word"
  known_one :: "64 word"

definition known_bits_unknown :: scalar_known_bits where
  "known_bits_unknown = \<lparr>known_zero = 0, known_one = 0\<rparr>"

text \<open>\<open>to_u64_digits\<close> yields the low 64 bits first.\<close>

definition known_bits_exact :: "int \<Rightarrow> integer_type \<Rightarrow> scalar_known_bits" where
  "known_bits_exact value ty =
     (let unsigned = mathematical_mod value (modulus ty);
          raw = word_of_int unsigned;
          mask = bit_mask ty
      in \<lparr>known_zero = NOT raw AND mask, known_one = raw AND mask\<rparr>)"

definition known_bits_matches :: "scalar_known_bits \<Rightarrow> int \<Rightarrow> integer_type \<Rightarrow> bool" where
  "known_bits_matches k value ty =
     (if value = 0 then known_one k = 0
      else let exact = known_bits_exact value ty in
        known_one exact AND known_zero k = 0 \<and> known_one exact AND known_one k = known_one k)"

section \<open>Affine forms\<close>

type_synonym value_id = nat

record affine_form =
  af_terms :: "(value_id, int) btree"
  af_constant :: int

definition affine_variable :: "value_id \<Rightarrow> affine_form" where
  "affine_variable v = \<lparr>af_terms = [(v, 1)], af_constant = 0\<rparr>"

definition affine_integer :: "int \<Rightarrow> affine_form" where
  "affine_integer value = \<lparr>af_terms = [], af_constant = value\<rparr>"

definition coefficient :: "affine_form \<Rightarrow> value_id \<Rightarrow> int" where
  "coefficient f v = (case bt_get (af_terms f) v of Some c \<Rightarrow> c | None \<Rightarrow> 0)"

definition add_term :: "value_id \<Rightarrow> int \<Rightarrow> (value_id, int) btree \<Rightarrow> (value_id, int) btree" where
  "add_term v c terms =
     bt_insert v ((case bt_get terms v of Some x \<Rightarrow> x | None \<Rightarrow> 0) + c) terms"

definition affine_add :: "affine_form \<Rightarrow> affine_form \<Rightarrow> affine_form" where
  "affine_add a b =
     (let terms = fold (\<lambda>(v, c). add_term v c) (af_terms b) (af_terms a) in
      \<lparr>af_terms = filter (\<lambda>(v, c). c \<noteq> 0) terms, af_constant = af_constant a + af_constant b\<rparr>)"

definition affine_scale :: "affine_form \<Rightarrow> int \<Rightarrow> affine_form" where
  "affine_scale f k =
     \<lparr>af_terms = bt_collect (filter (\<lambda>(v, c). c \<noteq> 0) (map (\<lambda>(v, c). (v, c * k)) (af_terms f))),
      af_constant = af_constant f * k\<rparr>"

definition affine_sub :: "affine_form \<Rightarrow> affine_form \<Rightarrow> affine_form" where
  "affine_sub a b = affine_add a (affine_scale b (- 1))"

definition affine_add_constant :: "affine_form \<Rightarrow> int \<Rightarrow> affine_form" where
  "affine_add_constant f k = f\<lparr>af_constant := af_constant f + k\<rparr>"

section \<open>The product domain\<close>

datatype scalar_failure = NoFailure | May | Always

text \<open>The derived order of the enum.\<close>

fun failure_rank :: "scalar_failure \<Rightarrow> nat" where
  "failure_rank NoFailure = 0"
| "failure_rank May = 1"
| "failure_rank Always = 2"

definition failure_max :: "scalar_failure \<Rightarrow> scalar_failure \<Rightarrow> scalar_failure" where
  "failure_max a b = (if failure_rank b \<ge> failure_rank a then b else a)"

record scalar_value =
  sv_type :: integer_type
  sv_interval :: scalar_interval
  sv_congruence :: scalar_congruence
  sv_known_bits :: scalar_known_bits
  sv_affine :: "affine_form option"
  sv_failure :: scalar_failure
  sv_unknown :: bool

definition sv_unknown_value :: "integer_type \<Rightarrow> scalar_value" where
  "sv_unknown_value ty =
     \<lparr>sv_type = ty, sv_interval = interval_for_type ty, sv_congruence = congruence_top,
      sv_known_bits = known_bits_unknown, sv_affine = None, sv_failure = NoFailure,
      sv_unknown = True\<rparr>"

definition ensure_in_type :: "integer_type \<Rightarrow> int \<Rightarrow> scalar_domain_error + unit" where
  "ensure_in_type ty value =
     (if value < minimum ty \<or> value > maximum ty
      then Inl \<lparr>sde_message = lit ''integer '' @ int_decimal value @ lit '' does not fit '' @ type_debug ty\<rparr>
      else Inr ())"

definition ensure_same_type :: "scalar_value \<Rightarrow> scalar_value \<Rightarrow> scalar_domain_error + unit" where
  "ensure_same_type left right =
     (if sv_type left = sv_type right then Inr ()
      else Inl (domain_error ''scalar values have different integer types''))"

definition scalar_constant :: "integer_type \<Rightarrow> int \<Rightarrow> scalar_domain_error + scalar_value" where
  "scalar_constant ty value = result_bind (ensure_in_type ty value) (\<lambda>_.
     Inr \<lparr>sv_type = ty, sv_interval = interval_exact value, sv_congruence = congruence_exact value,
          sv_known_bits = known_bits_exact value ty, sv_affine = Some (affine_integer value),
          sv_failure = NoFailure, sv_unknown = False\<rparr>)"

definition from_interval :: "integer_type \<Rightarrow> scalar_interval \<Rightarrow> scalar_domain_error + scalar_value" where
  "from_interval ty interval =
     result_bind (ensure_in_type ty (iv_lower interval)) (\<lambda>_.
     result_bind (ensure_in_type ty (iv_upper interval)) (\<lambda>_.
       let top = (interval = interval_for_type ty);
           exact = (if is_exact interval then Some (iv_lower interval) else None)
       in Inr \<lparr>sv_type = ty, sv_interval = interval,
            sv_congruence = (case exact of None \<Rightarrow> congruence_top | Some v \<Rightarrow> congruence_exact v),
            sv_known_bits = (case exact of None \<Rightarrow> known_bits_unknown | Some v \<Rightarrow> known_bits_exact v ty),
            sv_affine = map_option affine_integer exact,
            sv_failure = NoFailure, sv_unknown = top\<rparr>))"

definition exact_value :: "scalar_value \<Rightarrow> int option" where
  "exact_value v = (if is_exact (sv_interval v) then Some (iv_lower (sv_interval v)) else None)"

definition with_failure :: "scalar_value \<Rightarrow> scalar_failure \<Rightarrow> scalar_value" where
  "with_failure v failure = v\<lparr>sv_failure := failure\<rparr>"

section \<open>Operations\<close>

datatype kir_arithmetic_semantics = Modular | Checked | StrictFloat

definition exact_binary :: "mir_binary_op \<Rightarrow> int \<Rightarrow> int \<Rightarrow> scalar_domain_error + int" where
  "exact_binary op left right =
     (case op of
        MirAdd \<Rightarrow> Inr (left + right)
      | MirSub \<Rightarrow> Inr (left - right)
      | MirMul \<Rightarrow> Inr (left * right)
      | MirDiv \<Rightarrow> if right = 0 then Inl (domain_error ''integer division by zero'')
                  else Inr (left sdiv right)
      | MirMod \<Rightarrow> if right = 0 then Inl (domain_error ''integer remainder by zero'')
                  else Inr (left smod right))"

definition hull_of_four :: "int \<Rightarrow> int \<Rightarrow> int \<Rightarrow> int \<Rightarrow> scalar_domain_error + scalar_interval" where
  "hull_of_four a b c d = interval_new (min (min a b) (min c d)) (max (max a b) (max c d))"

definition mathematical_interval :: "mir_binary_op \<Rightarrow> scalar_interval \<Rightarrow> scalar_interval \<Rightarrow>
    scalar_domain_error + scalar_interval" where
  "mathematical_interval op left right =
     (case op of
        MirAdd \<Rightarrow> interval_new (iv_lower left + iv_lower right) (iv_upper left + iv_upper right)
      | MirSub \<Rightarrow> interval_new (iv_lower left - iv_upper right) (iv_upper left - iv_lower right)
      | MirMul \<Rightarrow> hull_of_four (iv_lower left * iv_lower right) (iv_lower left * iv_upper right)
                    (iv_upper left * iv_lower right) (iv_upper left * iv_upper right)
      | MirDiv \<Rightarrow>
          if iv_lower right \<le> 0 \<and> iv_upper right \<ge> 0
          then Inr \<lparr>iv_lower = min (iv_lower left) (iv_upper left),
                    iv_upper = max (iv_lower left) (iv_upper left)\<rparr>
          else hull_of_four (iv_lower left sdiv iv_lower right) (iv_lower left sdiv iv_upper right)
                 (iv_upper left sdiv iv_lower right) (iv_upper left sdiv iv_upper right)
      | MirMod \<Rightarrow>
          if is_exact left \<and> is_exact right
          then result_bind (exact_binary op (iv_lower left) (iv_lower right)) (\<lambda>v. Inr (interval_exact v))
          else let m = max (max (max (iv_lower right) (- iv_lower right)) (iv_upper right))
                         (- iv_upper right)
               in interval_new (- m + 1) (m - 1))"

definition transfer_affine :: "mir_binary_op \<Rightarrow> scalar_value \<Rightarrow> scalar_value \<Rightarrow> affine_form option" where
  "transfer_affine op left right =
     (case op of
        MirAdd \<Rightarrow> (case (sv_affine left, sv_affine right) of
                     (Some a, Some b) \<Rightarrow> Some (affine_add a b) | _ \<Rightarrow> None)
      | MirSub \<Rightarrow> (case (sv_affine left, sv_affine right) of
                     (Some a, Some b) \<Rightarrow> Some (affine_sub a b) | _ \<Rightarrow> None)
      | MirMul \<Rightarrow>
          (case exact_value left of
             Some k \<Rightarrow> map_option (\<lambda>f. affine_scale f k) (sv_affine right)
           | None \<Rightarrow>
               (case exact_value right of
                  Some k \<Rightarrow> map_option (\<lambda>f. affine_scale f k) (sv_affine left)
                | None \<Rightarrow> None))
      | MirDiv \<Rightarrow> None
      | MirMod \<Rightarrow> None)"

definition from_transfer_parts :: "mir_binary_op \<Rightarrow> scalar_value \<Rightarrow> scalar_value \<Rightarrow>
    scalar_interval \<Rightarrow> bool \<Rightarrow> scalar_domain_error + scalar_value" where
  "from_transfer_parts op left right interval force_unknown =
     result_bind (from_interval (sv_type left) interval) (\<lambda>result.
       Inr (result\<lparr>
         sv_congruence := (case op of
             MirAdd \<Rightarrow> congruence_add (sv_congruence left) (sv_congruence right)
           | MirSub \<Rightarrow> congruence_sub (sv_congruence left) (sv_congruence right)
           | MirMul \<Rightarrow> congruence_multiply (sv_congruence left) (sv_congruence right)
           | MirDiv \<Rightarrow> congruence_top
           | MirMod \<Rightarrow> congruence_top),
         sv_affine := transfer_affine op left right,
         sv_unknown := sv_unknown result \<or> force_unknown\<rparr>))"

definition division_failure :: "mir_binary_op \<Rightarrow> integer_type \<Rightarrow> scalar_value \<Rightarrow> scalar_value \<Rightarrow>
    scalar_failure" where
  "division_failure op ty left right =
     (if op \<noteq> MirDiv \<and> op \<noteq> MirMod then NoFailure
      else
        let l = sv_interval left; r = sv_interval right;
            can_zero = (iv_lower r \<le> 0 \<and> iv_upper r \<ge> 0);
            always_zero = (exact_value right = Some 0);
            signed_overflow = (is_signed ty \<and> iv_lower l \<le> minimum ty \<and> iv_upper l \<ge> minimum ty \<and>
              iv_lower r \<le> - 1 \<and> iv_upper r \<ge> - 1)
        in if always_zero \<or> exact_value left = Some (minimum ty) \<and> exact_value right = Some (- 1)
           then Always
           else if can_zero \<or> signed_overflow then May
           else NoFailure)"

definition range_failure :: "integer_type \<Rightarrow> scalar_interval \<Rightarrow> scalar_failure" where
  "range_failure ty interval =
     (if iv_upper interval < minimum ty \<or> iv_lower interval > maximum ty then Always
      else if iv_lower interval < minimum ty \<or> iv_upper interval > maximum ty then May
      else NoFailure)"

definition wrap_integer :: "integer_type \<Rightarrow> int \<Rightarrow> int" where
  "wrap_integer ty value =
     (let unsigned = mathematical_mod value (modulus ty) in
      if is_signed ty \<and> unsigned > maximum ty then unsigned - modulus ty else unsigned)"

definition checked_result :: "mir_binary_op \<Rightarrow> scalar_value \<Rightarrow> scalar_value \<Rightarrow> scalar_failure \<Rightarrow>
    scalar_interval \<Rightarrow> scalar_domain_error + scalar_value" where
  "checked_result op left right division mathematical =
     (let ty = sv_type left;
          failure = failure_max division (range_failure ty mathematical);
          interval = (case intersection mathematical (interval_for_type ty) of
                        Some i \<Rightarrow> i | None \<Rightarrow> interval_for_type ty)
      in result_bind (from_transfer_parts op left right interval False) (\<lambda>result.
           let result = result\<lparr>sv_failure := failure\<rparr> in
           Inr (if failure = Always then result\<lparr>sv_unknown := True, sv_affine := None\<rparr> else result)))"

definition modular_result :: "mir_binary_op \<Rightarrow> scalar_value \<Rightarrow> scalar_value \<Rightarrow> scalar_failure \<Rightarrow>
    scalar_interval \<Rightarrow> scalar_domain_error + scalar_value" where
  "modular_result op left right division mathematical =
     (let ty = sv_type left in
      if division \<noteq> NoFailure then Inr (with_failure (sv_unknown_value ty) division)
      else if range_failure ty mathematical = NoFailure
      then from_transfer_parts op left right mathematical False
      else case (exact_value left, exact_value right) of
             (Some l, Some r) \<Rightarrow>
               result_bind (exact_binary op l r) (\<lambda>raw.
               result_bind (scalar_constant ty (wrap_integer ty raw)) (\<lambda>result.
                 Inr (result\<lparr>sv_affine := None\<rparr>)))
           | _ \<Rightarrow> Inr (sv_unknown_value ty))"

definition scalar_binary :: "mir_binary_op \<Rightarrow> kir_arithmetic_semantics \<Rightarrow> scalar_value \<Rightarrow>
    scalar_value \<Rightarrow> scalar_domain_error + scalar_value" where
  "scalar_binary op semantics left right =
     (if sv_type left \<noteq> sv_type right
      then Inl (domain_error ''binary operands have different integer types'')
      else if semantics = StrictFloat
      then Inl (domain_error ''strict-float semantics cannot be applied to integer scalar values'')
      else
        let ty = sv_type left; division = division_failure op ty left right in
        if division = Always then Inr (with_failure (sv_unknown_value ty) division)
        else result_bind (mathematical_interval op (sv_interval left) (sv_interval right))
          (\<lambda>mathematical.
             if semantics = Checked then checked_result op left right division mathematical
             else modular_result op left right division mathematical))"

section \<open>Comparisons\<close>

datatype bool_lattice = AlwaysFalse | AlwaysTrue | BoolUnknown

definition compare_ordered :: "int \<Rightarrow> int \<Rightarrow> int \<Rightarrow> int \<Rightarrow> bool \<Rightarrow> bool_lattice" where
  "compare_ordered greatest_left least_right least_left greatest_right allow_equal =
     (let always = (if allow_equal then greatest_left \<le> least_right else greatest_left < least_right);
          impossible = (if allow_equal then least_left > greatest_right else least_left \<ge> greatest_right)
      in if always then AlwaysTrue else if impossible then AlwaysFalse else BoolUnknown)"

fun negate :: "bool_lattice \<Rightarrow> bool_lattice" where
  "negate AlwaysFalse = AlwaysTrue"
| "negate AlwaysTrue = AlwaysFalse"
| "negate BoolUnknown = BoolUnknown"

fun derived_comparison :: "mir_compare_op \<Rightarrow> bool" where
  "derived_comparison MirNe = True"
| "derived_comparison MirGt = True"
| "derived_comparison MirGe = True"
| "derived_comparison _ = False"

function scalar_compare :: "mir_compare_op \<Rightarrow> scalar_value \<Rightarrow> scalar_value \<Rightarrow>
    scalar_domain_error + bool_lattice" where
  "scalar_compare op left right =
     (if sv_type left \<noteq> sv_type right
      then Inl (domain_error ''comparison operands have different integer types'')
      else
        let l = sv_interval left; r = sv_interval right in
        case op of
          MirEq \<Rightarrow> Inr (
            if iv_upper l < iv_lower r \<or> iv_upper r < iv_lower l then AlwaysFalse
            else if exact_value left \<noteq> None \<and> exact_value left = exact_value right then AlwaysTrue
            else BoolUnknown)
        | MirNe \<Rightarrow> result_bind (scalar_compare MirEq left right) (\<lambda>b. Inr (negate b))
        | MirLt \<Rightarrow> Inr (compare_ordered (iv_upper l) (iv_lower r) (iv_lower l) (iv_upper r) False)
        | MirLe \<Rightarrow> Inr (compare_ordered (iv_upper l) (iv_lower r) (iv_lower l) (iv_upper r) True)
        | MirGt \<Rightarrow> scalar_compare MirLt right left
        | MirGe \<Rightarrow> scalar_compare MirLe right left)"
  by auto
termination
  by (relation "measure (\<lambda>(op, _, _). if derived_comparison op then 1 else 0)") auto

declare scalar_compare.simps [simp del]

definition refine_lower :: "scalar_value \<Rightarrow> int \<Rightarrow> scalar_domain_error + scalar_value" where
  "refine_lower value lower =
     (let lower = max lower (iv_lower (sv_interval value)) in
      if lower \<le> iv_upper (sv_interval value)
      then from_interval (sv_type value) \<lparr>iv_lower = lower, iv_upper = iv_upper (sv_interval value)\<rparr>
      else Inr value)"

definition refine_upper :: "scalar_value \<Rightarrow> int \<Rightarrow> scalar_domain_error + scalar_value" where
  "refine_upper value upper =
     (let upper = min upper (iv_upper (sv_interval value)) in
      if iv_lower (sv_interval value) \<le> upper
      then from_interval (sv_type value) \<lparr>iv_lower = iv_lower (sv_interval value), iv_upper = upper\<rparr>
      else Inr value)"

definition refine_exact :: "scalar_value \<Rightarrow> int option \<Rightarrow> scalar_domain_error + scalar_value" where
  "refine_exact value exact =
     (case exact of Some v \<Rightarrow> scalar_constant (sv_type value) v | None \<Rightarrow> Inr value)"

type_synonym refinement = "(scalar_value \<times> scalar_value) \<times> (scalar_value \<times> scalar_value)"

fun swap_refinement :: "refinement \<Rightarrow> refinement" where
  "swap_refinement ((taken_right, taken_left), (other_right, other_left)) =
     ((taken_left, taken_right), (other_left, other_right))"

definition refine_four :: "scalar_domain_error + scalar_value \<Rightarrow> scalar_domain_error + scalar_value \<Rightarrow>
    scalar_domain_error + scalar_value \<Rightarrow> scalar_domain_error + scalar_value \<Rightarrow>
    scalar_domain_error + refinement" where
  "refine_four taken_left taken_right other_left other_right =
     result_bind taken_left (\<lambda>tl. result_bind taken_right (\<lambda>tr.
     result_bind other_left (\<lambda>ol. result_bind other_right (\<lambda>or. Inr ((tl, tr), (ol, or))))))"

function refine_scalar_comparison :: "mir_compare_op \<Rightarrow> scalar_value \<Rightarrow> scalar_value \<Rightarrow>
    scalar_domain_error + refinement" where
  "refine_scalar_comparison op left right =
     (if sv_type left \<noteq> sv_type right
      then Inl (domain_error ''comparison operands have different integer types'')
      else
        let l = sv_interval left; r = sv_interval right in
        case op of
          MirLt \<Rightarrow> refine_four (refine_upper left (iv_upper r - 1)) (refine_lower right (iv_lower l + 1))
            (refine_lower left (iv_lower r)) (refine_upper right (iv_upper l))
        | MirLe \<Rightarrow> refine_four (refine_upper left (iv_upper r)) (refine_lower right (iv_lower l))
            (refine_lower left (iv_lower r + 1)) (refine_upper right (iv_upper l - 1))
        | MirGt \<Rightarrow> map_sum id swap_refinement (refine_scalar_comparison MirLt right left)
        | MirGe \<Rightarrow> map_sum id swap_refinement (refine_scalar_comparison MirLe right left)
        | MirEq \<Rightarrow> refine_four (refine_exact left (exact_value right))
            (refine_exact right (exact_value left)) (Inr left) (Inr right)
        | MirNe \<Rightarrow> result_bind (refine_scalar_comparison MirEq left right)
            (\<lambda>equality. Inr (snd equality, fst equality)))"
  by auto
termination
  by (relation "measure (\<lambda>(op, _, _). if derived_comparison op then 1 else 0)") auto

declare refine_scalar_comparison.simps [simp del]

section \<open>Joins\<close>

definition widen_scalar :: "scalar_value \<Rightarrow> scalar_value \<Rightarrow> scalar_domain_error + scalar_value" where
  "widen_scalar previous next =
     result_bind (ensure_same_type previous next) (\<lambda>_.
       let p = sv_interval previous; n = sv_interval next;
           lower = (if iv_lower n < iv_lower p then minimum (sv_type previous) else iv_lower p);
           upper = (if iv_upper n > iv_upper p then maximum (sv_type previous) else iv_upper p)
       in result_bind (from_interval (sv_type previous) \<lparr>iv_lower = lower, iv_upper = upper\<rparr>)
            (\<lambda>result. Inr (result\<lparr>sv_failure := failure_max (sv_failure previous) (sv_failure next)\<rparr>)))"

definition narrow_scalar :: "scalar_value \<Rightarrow> scalar_value \<Rightarrow> scalar_domain_error + scalar_value" where
  "narrow_scalar widened candidate =
     result_bind (ensure_same_type widened candidate) (\<lambda>_.
       case intersection (sv_interval widened) (sv_interval candidate) of
         None \<Rightarrow> Inl (domain_error ''narrowing produced an empty interval'')
       | Some interval \<Rightarrow>
           result_bind (from_interval (sv_type widened) interval)
             (\<lambda>result. Inr (result\<lparr>sv_failure := failure_max (sv_failure widened) (sv_failure candidate)\<rparr>)))"

definition join_scalar :: "scalar_value \<Rightarrow> scalar_value \<Rightarrow> scalar_value" where
  "join_scalar left right =
     (if sv_type left \<noteq> sv_type right then sv_unknown_value (sv_type left)
      else
        let joined = (case from_interval (sv_type left) (hull (sv_interval left) (sv_interval right)) of
                        Inr v \<Rightarrow> v | Inl _ \<Rightarrow> sv_unknown_value (sv_type left))
        in joined\<lparr>sv_failure := failure_max (sv_failure left) (sv_failure right)\<rparr>)"

section \<open>Contract ranges\<close>

datatype contract_fact_affine_term = FactValue value_id | FactSliceLength value_id

record contract_fact_affine_expression =
  fact_terms :: "(contract_fact_affine_term \<times> int) list"
  fact_constant :: int

datatype contract_fact_pointer = PointerValue value_id | PointerSliceData value_id

datatype (plugins only: code size) contract_fact_predicate =
    Comparison rstring contract_fact_affine_expression contract_fact_affine_expression
  | MultipleOf contract_fact_affine_expression int
  | NoAlias value_id value_id
  | Aligned contract_fact_pointer nat
  | EffectCeiling bool "(value_id \<times> contract_effect_kind) list"

definition value_offset :: "contract_fact_affine_expression \<Rightarrow> value_id \<Rightarrow> int option" where
  "value_offset e value =
     (case fact_terms e of
        [(t, c)] \<Rightarrow> if t = FactValue value \<and> c = 1 then Some (fact_constant e) else None
      | _ \<Rightarrow> None)"

definition fact_constant_of :: "contract_fact_affine_expression \<Rightarrow> int option" where
  "fact_constant_of e = (if fact_terms e = [] then Some (fact_constant e) else None)"

definition reverse_operator :: "rstring \<Rightarrow> rstring option" where
  "reverse_operator op =
     (if op = lit ''<'' then Some (lit ''>'')
      else if op = lit ''<='' then Some (lit ''>='')
      else if op = lit ''>'' then Some (lit ''<'')
      else if op = lit ''>='' then Some (lit ''<='')
      else if op = lit ''=='' then Some (lit ''=='')
      else None)"

definition predicate_bound :: "contract_fact_predicate \<Rightarrow> value_id \<Rightarrow> (rstring \<times> int) option" where
  "predicate_bound p value =
     (case p of
        Comparison op left right \<Rightarrow>
          (case (value_offset left value, fact_constant_of right) of
             (Some offset, Some constant) \<Rightarrow> Some (op, constant - offset)
           | _ \<Rightarrow>
               (case (fact_constant_of left, value_offset right value) of
                  (Some constant, Some offset) \<Rightarrow>
                    map_option (\<lambda>op. (op, constant - offset)) (reverse_operator op)
                | _ \<Rightarrow> None))
      | _ \<Rightarrow> None)"

definition apply_bound :: "contract_fact_predicate \<Rightarrow> value_id \<Rightarrow> int \<times> int \<times> bool \<Rightarrow> int \<times> int \<times> bool" where
  "apply_bound p value = (\<lambda>(lower, upper, constrained).
     case predicate_bound p value of
       None \<Rightarrow> (lower, upper, constrained)
     | Some (op, bound) \<Rightarrow>
         if op = lit ''<'' then (lower, min upper (bound - 1), True)
         else if op = lit ''<='' then (lower, min upper bound, True)
         else if op = lit ''>'' then (max lower (bound + 1), upper, True)
         else if op = lit ''>='' then (max lower bound, upper, True)
         else if op = lit ''=='' then (max lower bound, min upper bound, True)
         else (lower, upper, constrained))"

definition contract_scalar_interval :: "contract_fact_predicate list \<Rightarrow> value_id \<Rightarrow> integer_type \<Rightarrow>
    scalar_interval option" where
  "contract_scalar_interval predicates value ty =
     (case fold (\<lambda>p. apply_bound p value) predicates (minimum ty, maximum ty, False) of
        (lower, upper, constrained) \<Rightarrow>
          if constrained
          then (case interval_new lower upper of Inr i \<Rightarrow> Some i | Inl _ \<Rightarrow> None)
          else None)"

end
