(* ===== verification/Scalar_Sound.thy ===== *)
theory Scalar_Sound
  imports Scalar
begin

text \<open>
  What the abstract integers mean, and that every transfer keeps it: the values of an interval,
  congruence, bit mask and affine form, the machine operations, and soundness of each domain.
\<close>

section \<open>Meaning\<close>

definition interval_in :: "scalar_interval \<Rightarrow> int \<Rightarrow> bool" where
  "interval_in i x \<longleftrightarrow> iv_lower i \<le> x \<and> x \<le> iv_upper i"

definition interval_ok :: "integer_type \<Rightarrow> scalar_interval \<Rightarrow> bool" where
  "interval_ok ty i \<longleftrightarrow> iv_lower i \<le> iv_upper i \<and> minimum ty \<le> iv_lower i \<and> iv_upper i \<le> maximum ty"

definition affine_eval :: "(value_id \<Rightarrow> int) \<Rightarrow> affine_form \<Rightarrow> int" where
  "affine_eval env f = af_constant f + (\<Sum>(v, c)\<leftarrow>af_terms f. c * env v)"

definition affine_ok :: "affine_form \<Rightarrow> bool" where
  "affine_ok f \<longleftrightarrow> bt_ok (af_terms f) \<and> (\<forall>(v, c) \<in> set (af_terms f). c \<noteq> 0)"

text \<open>The values \<open>x\<close> of a scalar, where \<open>env\<close> gives the values of the variables of its affine form.\<close>

definition scalar_in :: "(value_id \<Rightarrow> int) \<Rightarrow> scalar_value \<Rightarrow> int \<Rightarrow> bool" where
  "scalar_in env v x \<longleftrightarrow>
     interval_in (sv_interval v) x \<and> congruence_contains (sv_congruence v) x \<and>
     known_bits_matches (sv_known_bits v) x (sv_type v) \<and>
     (case sv_affine v of None \<Rightarrow> True | Some f \<Rightarrow> affine_eval env f = x)"

definition scalar_ok :: "scalar_value \<Rightarrow> bool" where
  "scalar_ok v \<longleftrightarrow> interval_ok (sv_type v) (sv_interval v) \<and> 0 \<le> cg_modulus (sv_congruence v) \<and>
     (case sv_affine v of None \<Rightarrow> True | Some f \<Rightarrow> affine_ok f)"

fun raw_binary :: "mir_binary_op \<Rightarrow> int \<Rightarrow> int \<Rightarrow> int" where
  "raw_binary MirAdd x y = x + y"
| "raw_binary MirSub x y = x - y"
| "raw_binary MirMul x y = x * y"
| "raw_binary MirDiv x y = x sdiv y"
| "raw_binary MirMod x y = x smod y"

text \<open>
  The machine operation: division and remainder fail on a zero divisor and on the signed
  minimum by \<open>-1\<close>; a checked operation also fails when its result leaves the type, a modular
  one wraps.
\<close>

definition division_fails :: "mir_binary_op \<Rightarrow> integer_type \<Rightarrow> int \<Rightarrow> int \<Rightarrow> bool" where
  "division_fails op ty x y \<longleftrightarrow>
     (op = MirDiv \<or> op = MirMod) \<and> (y = 0 \<or> is_signed ty \<and> x = minimum ty \<and> y = - 1)"

definition eval_binary :: "mir_binary_op \<Rightarrow> kir_arithmetic_semantics \<Rightarrow> integer_type \<Rightarrow>
    int \<Rightarrow> int \<Rightarrow> int option" where
  "eval_binary op semantics ty x y =
     (if division_fails op ty x y then None
      else if semantics = Checked
      then if contains_i128 ty (raw_binary op x y) then Some (raw_binary op x y) else None
      else Some (wrap_integer ty (raw_binary op x y)))"

section \<open>Congruences\<close>

lemma mathematical_mod_mod: "0 < m \<Longrightarrow> mathematical_mod v m = v mod m"
proof -
  assume m: "0 < m"
  show ?thesis
  proof (cases "0 \<le> v")
    case True
    with m have "v smod m = v mod m"
      by (cases "v = 0") (simp_all add: signed_modulo_int_def)
    with pos_mod_sign [OF m, of v] show ?thesis by (simp add: mathematical_mod_def Let_def)
  next
    case False
    then have "v smod m = - ((- v) mod m)"
      using m by (simp add: signed_modulo_int_def)
    with m show ?thesis
      by (auto simp: mathematical_mod_def Let_def zmod_zminus1_eq_if zmod_zminus2_eq_if
          dest: pos_mod_bound [of m "- v"])
  qed
qed

lemma congruence_contains_dvd:
  "0 \<le> cg_modulus c \<Longrightarrow> congruence_contains c x \<longleftrightarrow> cg_modulus c dvd x - cg_remainder c"
  by (auto simp: congruence_contains_def mathematical_mod_mod mod_eq_0_iff_dvd)

lemma gcd_loop_gcd: "0 \<le> left \<Longrightarrow> 0 \<le> right \<Longrightarrow> gcd_loop left right = gcd left right"
proof (induction left right rule: gcd_loop.induct)
  case (1 left right)
  show ?case
  proof (cases "right = 0")
    case True
    with "1.prems" show ?thesis by (simp add: gcd_loop.simps [of left 0])
  next
    case False
    with "1.prems" have "left smod right = left mod right"
      by (cases "left = 0") (simp_all add: signed_modulo_int_def)
    moreover have "gcd_loop right (left smod right) = gcd right (left smod right)"
      using "1.prems" False calculation by (intro "1.IH") simp_all
    moreover have "gcd left right = gcd right (left mod right)" by (rule gcd_red_int)
    ultimately show ?thesis using False by (simp add: gcd_loop.simps [of left right])
  qed
qed

lemma gcd_nonnegative_gcd: "gcd_nonnegative left right = gcd left right"
  by (simp add: gcd_nonnegative_def gcd_loop_gcd)

lemma combine_modulus: "0 \<le> cg_modulus (combine a b s)"
  by (simp add: combine_def congruence_exact_def Let_def gcd_nonnegative_gcd)

lemma combine_contains:
  assumes "0 \<le> cg_modulus a" "0 \<le> cg_modulus b" "congruence_contains a x" "congruence_contains b y"
  shows "congruence_contains (combine a b s) (if s then x - y else x + y)"
proof -
  let ?g = "gcd (cg_modulus a) (cg_modulus b)"
  let ?r = "if s then cg_remainder a - cg_remainder b else cg_remainder a + cg_remainder b"
  let ?z = "if s then x - y else x + y"
  have "?g dvd x - cg_remainder a" "?g dvd y - cg_remainder b"
    using assms by (auto simp: congruence_contains_dvd intro: dvd_trans)
  then have d: "?g dvd ?z - ?r"
    using dvd_diff [of ?g "x - cg_remainder a" "y - cg_remainder b"]
      dvd_add [of ?g "x - cg_remainder a" "y - cg_remainder b"]
    by (auto simp: algebra_simps)
  have r: "cg_modulus (combine a b s) = ?g" "?g dvd cg_remainder (combine a b s) - ?r"
  proof -
    have "?g = 0 \<or> 0 < ?g" using gcd_ge_0_int [of "cg_modulus a" "cg_modulus b"] by linarith
    then show "cg_modulus (combine a b s) = ?g" "?g dvd cg_remainder (combine a b s) - ?r"
      by (auto simp: combine_def congruence_exact_def Let_def gcd_nonnegative_gcd
          mathematical_mod_mod mod_eq_dvd_iff [symmetric])
  qed
  have "?g dvd ?z - cg_remainder (combine a b s)"
    using dvd_diff [OF d r(2)] by (simp add: algebra_simps)
  with r(1) show ?thesis
    using combine_modulus [of a b s] by (simp only: congruence_contains_dvd)
qed

lemma congruence_simple [simp]:
  "congruence_contains congruence_top x" "congruence_contains (congruence_exact x) x"
  "0 \<le> cg_modulus congruence_top" "cg_modulus (congruence_exact x) = 0"
  by (simp_all add: congruence_top_def congruence_exact_def congruence_contains_def
      mathematical_mod_mod)

lemma multiply_contains:
  "congruence_contains a x \<Longrightarrow> congruence_contains b y \<Longrightarrow>
   congruence_contains (congruence_multiply a b) (x * y) \<and> 0 \<le> cg_modulus (congruence_multiply a b)"
  by (auto simp: congruence_multiply_def congruence_contains_def [of a] congruence_contains_def [of b])

section \<open>Known bits\<close>

lemma known_bits_simple [simp]:
  "known_bits_matches known_bits_unknown x ty" "known_bits_matches (known_bits_exact x ty) x ty"
proof -
  show "known_bits_matches known_bits_unknown x ty"
    by (simp add: known_bits_matches_def known_bits_unknown_def Let_def)
  have "raw AND mask AND (NOT raw AND mask) = 0" for raw mask :: "64 word"
    by (simp add: bit_eq_iff bit_simps)
  then show "known_bits_matches (known_bits_exact x ty) x ty"
    by (auto simp: known_bits_matches_def known_bits_exact_def Let_def mathematical_mod_def
        and.assoc)
qed

section \<open>Affine forms\<close>

lemma terms_insert:
  "bt_ok ts \<Longrightarrow> (\<Sum>(v, c)\<leftarrow>bt_insert k x ts. c * (env v :: int)) =
     (\<Sum>(v, c)\<leftarrow>ts. c * env v) + (x - (case bt_get ts k of Some y \<Rightarrow> y | None \<Rightarrow> 0)) * env k"
proof (induction k x ts rule: bt_insert.induct)
  case (1 k v)
  then show ?case by (simp add: bt_get_def)
next
  case (2 k v k' v' m)
  have "map_of m k = None" if "k \<le> k'"
    using that "2.prems" unfolding map_of_eq_None_iff by (fastforce simp: bt_ok_Cons)
  with 2 show ?case
    by (auto simp: bt_ok_Cons bt_get_def algebra_simps split: option.splits)
qed

lemma terms_add_term:
  "bt_ok ts \<Longrightarrow> (\<Sum>(v, c)\<leftarrow>add_term k x ts. c * env v) = (\<Sum>(v, c)\<leftarrow>ts. c * env v) + x * (env k :: int)"
  by (simp add: add_term_def terms_insert)

lemma bt_ok_add_term: "bt_ok ts \<Longrightarrow> bt_ok (add_term k x ts)"
  by (simp add: add_term_def bt.ok_insert)

lemma terms_fold_add:
  "bt_ok ts \<Longrightarrow> bt_ok (fold (\<lambda>(v, c). add_term v c) us ts) \<and>
     (\<Sum>(v, c)\<leftarrow>fold (\<lambda>(v, c). add_term v c) us ts. c * (env v :: int)) =
     (\<Sum>(v, c)\<leftarrow>ts. c * env v) + (\<Sum>(v, c)\<leftarrow>us. c * env v)"
  by (induction us arbitrary: ts) (auto simp: bt_ok_add_term terms_add_term)

lemma terms_filter: "(\<Sum>(v, c)\<leftarrow>filter (\<lambda>(v, c). c \<noteq> 0) ts. c * (env v :: int)) = (\<Sum>(v, c)\<leftarrow>ts. c * env v)"
  by (induction ts) auto

lemma affine_ok_add: "affine_ok a \<Longrightarrow> affine_ok (affine_add a b)"
  using terms_fold_add [of "af_terms a" "af_terms b" "\<lambda>_. 0"]
  by (auto simp: affine_ok_def affine_add_def Let_def bt_ok_filter)

lemma affine_eval_add:
  "affine_ok a \<Longrightarrow> affine_eval env (affine_add a b) = affine_eval env a + affine_eval env b"
  using terms_fold_add [of "af_terms a" "af_terms b" env]
  by (simp add: affine_ok_def affine_add_def affine_eval_def Let_def terms_filter)

lemma scale_terms:
  "bt_ok (af_terms f) \<Longrightarrow> af_terms (affine_scale f k) =
     filter (\<lambda>(v, c). c \<noteq> 0) (map (\<lambda>(v, c). (v, c * k)) (af_terms f))"
  unfolding affine_scale_def
  by (simp, rule bt_collect_id, rule bt_ok_filter) (simp add: bt_ok_def comp_def case_prod_unfold)

lemma affine_ok_scale: "affine_ok f \<Longrightarrow> affine_ok (affine_scale f k)"
  by (auto simp: affine_ok_def scale_terms intro!: bt_ok_filter)
    (simp add: bt_ok_def comp_def case_prod_unfold)

lemma affine_eval_scale:
  assumes "affine_ok f"
  shows "affine_eval env (affine_scale f k) = affine_eval env f * k"
proof -
  have "(\<Sum>(v, c)\<leftarrow>map (\<lambda>(v, c). (v, c * k)) ts. c * env v) = (\<Sum>(v, c)\<leftarrow>ts. c * env v) * k" for ts
    by (induction ts) (auto simp: algebra_simps)
  moreover have "af_constant (affine_scale f k) = af_constant f * k"
    by (simp add: affine_scale_def)
  ultimately show ?thesis
    using assms by (simp add: affine_eval_def affine_ok_def scale_terms terms_filter algebra_simps)
qed

lemma affine_sub_sound:
  assumes "affine_ok a" "affine_ok b"
  shows "affine_ok (affine_sub a b)" "affine_eval env (affine_sub a b) = affine_eval env a - affine_eval env b"
  using assms by (simp_all add: affine_sub_def affine_ok_add affine_eval_add affine_eval_scale)

lemma affine_integer_simple [simp]: "affine_ok (affine_integer x)" "affine_eval env (affine_integer x) = x"
  by (simp_all add: affine_ok_def affine_integer_def bt_ok_def affine_eval_def)

section \<open>Interval arithmetic\<close>

abbreviation between :: "int \<Rightarrow> int \<Rightarrow> int \<Rightarrow> bool" where
  "between a b z \<equiv> min a b \<le> z \<and> z \<le> max a b"

lemma interval_new_Inr: "interval_new a b = Inr i \<longleftrightarrow> a \<le> b \<and> i = \<lparr>iv_lower = a, iv_upper = b\<rparr>"
  by (auto simp: interval_new_def)

lemma hull_of_four_in:
  assumes "hull_of_four a b c d = Inr i" "between p q z" "between a b p" "between c d q"
  shows "interval_in i z"
  using assms unfolding hull_of_four_def interval_new_Inr interval_in_def
  by (elim conjE, simp only: scalar_interval.simps) linarith

lemma mult_between: "l \<le> x \<Longrightarrow> x \<le> u \<Longrightarrow> between (l * y) (u * y) (x * y)"
  by (cases "0 \<le> y") (auto simp: min_def max_def mult_right_mono mult_right_mono_neg)

lemma mult_between': "l \<le> y \<Longrightarrow> y \<le> u \<Longrightarrow> between (x * l) (x * u) (x * y)"
  using mult_between [of l y u x] by (simp add: mult.commute)

lemma sdiv_mono: "0 < d \<Longrightarrow> a \<le> b \<Longrightarrow> a sdiv d \<le> b sdiv (d :: int)"
proof -
  assume d: "0 < d" and ab: "a \<le> b"
  have val: "c sdiv d = (if 0 \<le> c then c div d else - ((- c) div d))" for c
    using d by (auto simp: signed_divide_int_def sgn_if)
  show ?thesis
  proof (cases "0 \<le> a \<or> b < 0")
    case True
    with ab d zdiv_mono1 [of a b d] zdiv_mono1 [of "- b" "- a" d] show ?thesis by (auto simp: val)
  next
    case False
    then have "0 \<le> (- a) div d" "0 \<le> b div d"
      using d by (simp_all add: pos_imp_zdiv_nonneg_iff)
    with False show ?thesis by (simp add: val)
  qed
qed

lemma sdiv_between:
  assumes "l \<le> x" "x \<le> u" "y \<noteq> 0"
  shows "between (l sdiv y) (u sdiv y) (x sdiv (y :: int))"
proof (cases "0 < y")
  case True
  with assms sdiv_mono show ?thesis by (metis min.coboundedI1 max.coboundedI2)
next
  case False
  with assms(3) have "0 < - y" by simp
  from sdiv_mono [OF this assms(1)] sdiv_mono [OF this assms(2)]
  have "x sdiv y \<le> l sdiv y" "u sdiv y \<le> x sdiv y" by simp_all
  then show ?thesis by (auto simp: min_def max_def)
qed

lemma sdiv_antimono:
  assumes "0 < c" "c \<le> d"
  shows "0 \<le> x \<Longrightarrow> x sdiv d \<le> x sdiv (c :: int)" "x \<le> 0 \<Longrightarrow> x sdiv c \<le> x sdiv (d :: int)"
proof -
  have pos: "y sdiv d \<le> y sdiv c" if "0 \<le> y" for y
    using that assms zdiv_mono2 [of y c d] by (cases "y = 0") (simp_all add: signed_divide_int_def)
  then show "0 \<le> x \<Longrightarrow> x sdiv d \<le> x sdiv c" .
  show "x sdiv c \<le> x sdiv d" if "x \<le> 0"
    using pos [of "- x"] that by simp
qed

lemma sdiv_between':
  assumes "l \<le> y" "y \<le> u" "\<not> (l \<le> 0 \<and> 0 \<le> u)"
  shows "between (x sdiv l) (x sdiv u) (x sdiv (y :: int))"
proof -
  have pos: "between (x sdiv a) (x sdiv b) (x sdiv c)" if "0 < a" "a \<le> c" "c \<le> b" for a b c
  proof (cases "0 \<le> x")
    case True
    then have "x sdiv c \<le> x sdiv a" "x sdiv b \<le> x sdiv c"
      using that sdiv_antimono(1) by auto
    then show ?thesis by (auto simp: min_def max_def)
  next
    case False
    then have "x sdiv a \<le> x sdiv c" "x sdiv c \<le> x sdiv b"
      using that sdiv_antimono(2) by auto
    then show ?thesis by (auto simp: min_def max_def)
  qed
  show ?thesis
  proof (cases "0 < l")
    case True
    with pos assms show ?thesis by blast
  next
    case False
    with assms have "u < 0" by linarith
    with assms pos [of "- u" "- y" "- l"] show ?thesis by (auto simp: min_def max_def split: if_splits)
  qed
qed

lemma smod_bound:
  assumes "l \<le> y" "y \<le> u" "y \<noteq> 0"
  shows "\<bar>x smod y\<bar> < max (max (max l (- l)) u) (- (u :: int))"
proof -
  have "0 \<le> z mod \<bar>y\<bar>" for z using assms(3) by simp
  then have "\<bar>x smod y\<bar> \<le> \<bar>x\<bar> mod \<bar>y\<bar>"
    by (simp add: signed_modulo_int_def abs_mult sgn_if)
  also have "\<dots> < \<bar>y\<bar>" using assms(3) by (intro pos_mod_bound) simp
  also have "\<dots> \<le> max (max (max l (- l)) u) (- u)" using assms(1,2) by (simp add: abs_if) linarith
  finally show ?thesis .
qed

text \<open>
  The interval of the mathematical result, except that of a division whose divisor interval has
  zero.
\<close>

lemma mathematical_interval_in:
  assumes "mathematical_interval op l r = Inr i" "interval_in l x" "interval_in r y"
    and "op = MirDiv \<Longrightarrow> \<not> interval_in r 0" "op = MirMod \<Longrightarrow> y \<noteq> 0"
  shows "interval_in i (raw_binary op x y)"
proof -
  have x: "iv_lower l \<le> x" "x \<le> iv_upper l" and y: "iv_lower r \<le> y" "y \<le> iv_upper r"
    using assms(2,3) by (simp_all add: interval_in_def)
  show ?thesis
  proof (cases op)
    case MirAdd
    with assms(1) x y show ?thesis
      by (auto simp: mathematical_interval_def interval_new_Inr interval_in_def)
  next
    case MirSub
    with assms(1) x y show ?thesis
      by (auto simp: mathematical_interval_def interval_new_Inr interval_in_def)
  next
    case MirMul
    with assms(1) have h: "hull_of_four (iv_lower l * iv_lower r) (iv_lower l * iv_upper r)
        (iv_upper l * iv_lower r) (iv_upper l * iv_upper r) = Inr i"
      by (simp add: mathematical_interval_def)
    from hull_of_four_in [OF h mult_between [OF x] mult_between' [OF y] mult_between' [OF y]] MirMul
    show ?thesis by simp
  next
    case MirDiv
    with assms(4) have nz: "\<not> (iv_lower r \<le> 0 \<and> 0 \<le> iv_upper r)" by (simp add: interval_in_def)
    with y have "y \<noteq> 0" by auto
    have h: "hull_of_four (iv_lower l sdiv iv_lower r) (iv_lower l sdiv iv_upper r)
        (iv_upper l sdiv iv_lower r) (iv_upper l sdiv iv_upper r) = Inr i"
      using assms(1) MirDiv nz by (simp add: mathematical_interval_def)
    from hull_of_four_in [OF h sdiv_between [OF x \<open>y \<noteq> 0\<close>] sdiv_between' [OF y nz] sdiv_between' [OF y nz]] MirDiv
    show ?thesis by simp
  next
    case MirMod
    show ?thesis
    proof (cases "is_exact l \<and> is_exact r")
      case True
      with x y have "x = iv_lower l" "y = iv_lower r" by (auto simp: is_exact_def)
      with True assms(1,5) MirMod show ?thesis
        by (auto simp: mathematical_interval_def exact_binary_def interval_exact_def interval_in_def)
    next
      case False
      let ?m = "max (max (max (iv_lower r) (- iv_lower r)) (iv_upper r)) (- iv_upper r)"
      have "i = \<lparr>iv_lower = - ?m + 1, iv_upper = ?m - 1\<rparr>"
        using assms(1) MirMod False
        by (simp only: mathematical_interval_def mir_binary_op.case if_False interval_new_Inr Let_def)
      moreover have "\<bar>x smod y\<bar> < ?m" using smod_bound [OF y] assms(5) MirMod by simp
      ultimately show ?thesis
        using MirMod unfolding interval_in_def by (simp only: scalar_interval.simps raw_binary.simps) linarith
    qed
  qed
qed

section \<open>Building scalars\<close>

lemma ensure_in_type_Inr [simp]: "ensure_in_type ty x = Inr u \<longleftrightarrow> minimum ty \<le> x \<and> x \<le> maximum ty"
  by (auto simp: ensure_in_type_def)

lemma from_interval_Inr:
  "from_interval ty i = Inr v \<longleftrightarrow>
     minimum ty \<le> iv_lower i \<and> iv_lower i \<le> maximum ty \<and>
     minimum ty \<le> iv_upper i \<and> iv_upper i \<le> maximum ty \<and>
     v = \<lparr>sv_type = ty, sv_interval = i,
       sv_congruence = if is_exact i then congruence_exact (iv_lower i) else congruence_top,
       sv_known_bits = if is_exact i then known_bits_exact (iv_lower i) ty else known_bits_unknown,
       sv_affine = if is_exact i then Some (affine_integer (iv_lower i)) else None,
       sv_failure = NoFailure, sv_unknown = (i = interval_for_type ty)\<rparr>"
  by (auto simp: from_interval_def Let_def)

lemma from_interval_sound:
  assumes "from_interval ty i = Inr v"
  shows "sv_type v = ty" "sv_interval v = i" "iv_lower i \<le> iv_upper i \<Longrightarrow> scalar_ok v"
    "interval_in i x \<Longrightarrow> scalar_in env v x" "sv_failure v = NoFailure"
proof -
  show "sv_type v = ty" "sv_interval v = i" "sv_failure v = NoFailure"
    using assms by (auto simp: from_interval_Inr)
  show "scalar_ok v" if "iv_lower i \<le> iv_upper i"
    using assms that by (auto simp: from_interval_Inr scalar_ok_def interval_ok_def)
  show "scalar_in env v x" if "interval_in i x"
  proof (cases "is_exact i")
    case True
    with that have "x = iv_lower i" by (auto simp: is_exact_def interval_in_def)
    with assms that True show ?thesis by (simp add: from_interval_Inr scalar_in_def)
  next
    case False
    with assms that show ?thesis by (simp add: from_interval_Inr scalar_in_def)
  qed
qed

lemma from_interval_total: "interval_ok ty i \<Longrightarrow> \<exists>v. from_interval ty i = Inr v"
  by (auto simp: from_interval_Inr interval_ok_def)

lemma scalar_constant_Inr:
  assumes "scalar_constant ty x = Inr v"
  shows "sv_type v = ty" "scalar_ok v" "scalar_in env v x" "minimum ty \<le> x" "x \<le> maximum ty"
    "sv_interval v = interval_exact x" "sv_failure v = NoFailure"
  using assms
  by (auto simp: scalar_constant_def scalar_ok_def scalar_in_def interval_exact_def interval_ok_def
      interval_in_def)

lemma minimum_maximum: "minimum ty \<le> maximum ty" "minimum ty \<le> 0" "0 \<le> maximum ty"
  by (cases ty; simp)+

lemma scalar_ok_unknown [simp]: "scalar_ok (sv_unknown_value ty)"
  by (simp add: scalar_ok_def sv_unknown_value_def interval_ok_def interval_for_type_def minimum_maximum)

lemma scalar_in_unknown [simp]: "scalar_in env (sv_unknown_value ty) x \<longleftrightarrow> contains_i128 ty x"
  by (auto simp: scalar_in_def sv_unknown_value_def interval_in_def interval_for_type_def contains_i128_def)

lemma scalar_failure_irrelevant [simp]:
  "scalar_in env (v\<lparr>sv_failure := f\<rparr>) x = scalar_in env v x" "scalar_ok (v\<lparr>sv_failure := f\<rparr>) = scalar_ok v"
  "scalar_in env (with_failure v f) x = scalar_in env v x" "scalar_ok (with_failure v f) = scalar_ok v"
  by (simp_all add: scalar_in_def scalar_ok_def with_failure_def)

lemma scalar_in_type: "scalar_ok v \<Longrightarrow> scalar_in env v x \<Longrightarrow> contains_i128 (sv_type v) x"
  by (auto simp: scalar_ok_def scalar_in_def interval_ok_def interval_in_def contains_i128_def)

lemma exact_value_in: "exact_value v = Some k \<Longrightarrow> scalar_in env v x \<Longrightarrow> x = k"
  by (auto simp: exact_value_def is_exact_def scalar_in_def interval_in_def split: if_splits)

lemma transfer_affine_sound:
  assumes "transfer_affine op left right = Some f" "scalar_ok left" "scalar_ok right"
    "scalar_in env left x" "scalar_in env right y"
  shows "affine_ok f \<and> affine_eval env f = raw_binary op x y"
  using assms
  by (cases op)
    (auto simp: transfer_affine_def scalar_ok_def scalar_in_def[of _ left] scalar_in_def[of _ right]
      affine_ok_add affine_eval_add affine_sub_sound affine_ok_scale affine_eval_scale mult.commute
      split: option.splits dest: exact_value_in [of left _ env x, unfolded scalar_in_def]
        exact_value_in [of right _ env y, unfolded scalar_in_def])

lemma transfer_affine_ok:
  assumes "transfer_affine op left right = Some f" "scalar_ok left" "scalar_ok right"
  shows "affine_ok f"
  using assms
  by (cases op)
    (auto simp: transfer_affine_def scalar_ok_def affine_ok_add affine_sub_sound affine_ok_scale
      split: option.splits)

lemma from_transfer_parts_sound:
  assumes "from_transfer_parts op left right i b = Inr v" "scalar_ok left" "scalar_ok right"
  shows "sv_type v = sv_type left" "iv_lower i \<le> iv_upper i \<Longrightarrow> scalar_ok v" "sv_failure v = NoFailure"
    "scalar_in env left x \<Longrightarrow> scalar_in env right y \<Longrightarrow> interval_in i (raw_binary op x y) \<Longrightarrow>
     scalar_in env v (raw_binary op x y)"
proof -
  obtain w where w: "from_interval (sv_type left) i = Inr w"
    using assms(1) by (auto simp: from_transfer_parts_def)
  note ws = from_interval_sound [OF w]
  let ?c = "case op of
             MirAdd \<Rightarrow> congruence_add (sv_congruence left) (sv_congruence right)
           | MirSub \<Rightarrow> congruence_sub (sv_congruence left) (sv_congruence right)
           | MirMul \<Rightarrow> congruence_multiply (sv_congruence left) (sv_congruence right)
           | MirDiv \<Rightarrow> congruence_top
           | MirMod \<Rightarrow> congruence_top"
  have v: "v = w\<lparr>sv_congruence := ?c, sv_affine := transfer_affine op left right,
      sv_unknown := sv_unknown w \<or> b\<rparr>"
    using assms(1) w by (simp add: from_transfer_parts_def)
  have okc: "0 \<le> cg_modulus ?c"
    by (cases op) (simp_all add: congruence_add_def congruence_sub_def combine_modulus
        congruence_multiply_def)
  show "sv_type v = sv_type left" "sv_failure v = NoFailure" using ws v by simp_all
  show "scalar_ok v" if "iv_lower i \<le> iv_upper i"
    using ws(3) [OF that] ws(1,2) okc transfer_affine_ok [OF _ assms(2,3)]
    by (auto simp: v scalar_ok_def split: option.split)
  show "scalar_in env v (raw_binary op x y)"
    if "scalar_in env left x" "scalar_in env right y" "interval_in i (raw_binary op x y)"
  proof -
    have c: "congruence_contains (sv_congruence left) x" "congruence_contains (sv_congruence right) y"
      "0 \<le> cg_modulus (sv_congruence left)" "0 \<le> cg_modulus (sv_congruence right)"
      using assms(2,3) that(1,2) by (simp_all add: scalar_in_def scalar_ok_def)
    have "congruence_contains ?c (raw_binary op x y)"
      using combine_contains [OF c(3,4,1,2), of True] combine_contains [OF c(3,4,1,2), of False]
        multiply_contains [OF c(1,2)]
      by (cases op) (simp_all add: congruence_add_def congruence_sub_def)
    with ws(4) [OF that(3), of env] transfer_affine_sound [OF _ assms(2,3) that(1,2)]
    show ?thesis by (auto simp: v scalar_in_def split: option.split)
  qed
qed

section \<open>Failures\<close>

lemma division_failure_Always:
  assumes "division_failure op ty left right = Always" "scalar_in env left x" "scalar_in env right y"
    "\<not> is_signed ty \<Longrightarrow> scalar_ok right \<and> sv_type right = ty"
  shows "division_fails op ty x y"
proof -
  have op: "op = MirDiv \<or> op = MirMod"
    using assms(1) by (auto simp: division_failure_def split: if_splits)
  have "exact_value right = Some 0 \<or>
      exact_value left = Some (minimum ty) \<and> exact_value right = Some (- 1)"
    using assms(1) op by (auto simp: division_failure_def Let_def split: if_splits)
  then show ?thesis
  proof (elim disjE conjE)
    assume "exact_value right = Some 0"
    with assms(3) op show ?thesis by (auto simp: division_fails_def dest: exact_value_in)
  next
    assume ex: "exact_value left = Some (minimum ty)" "exact_value right = Some (- 1)"
    then have xy: "x = minimum ty" "y = - 1" using assms(2,3) exact_value_in by blast+
    have "is_signed ty"
    proof (rule ccontr)
      assume "\<not> is_signed ty"
      then have "minimum ty = 0" by (cases ty) auto
      with scalar_in_type [OF _ assms(3)] assms(4) [OF \<open>\<not> is_signed ty\<close>] xy(2)
      show False by (auto simp: contains_i128_def)
    qed
    with op xy show ?thesis by (simp add: division_fails_def)
  qed
qed

lemma division_failure_None:
  assumes "division_failure op ty left right = NoFailure" "scalar_in env left x" "scalar_in env right y"
  shows "\<not> division_fails op ty x y" "op = MirDiv \<or> op = MirMod \<Longrightarrow> \<not> interval_in (sv_interval right) 0"
  using assms
  by (auto simp: division_failure_def division_fails_def Let_def scalar_in_def interval_in_def
      split: if_splits)

lemma range_failure_spec:
  "range_failure ty i = NoFailure \<Longrightarrow> interval_in i z \<Longrightarrow> contains_i128 ty z"
  "range_failure ty i = Always \<Longrightarrow> interval_in i z \<Longrightarrow> \<not> contains_i128 ty z"
  by (auto simp: range_failure_def interval_in_def contains_i128_def split: if_splits)

lemma failure_max_cases:
  "failure_max a b = NoFailure \<longleftrightarrow> a = NoFailure \<and> b = NoFailure"
  "failure_max a b = Always \<longleftrightarrow> a = Always \<or> b = Always"
  by (cases a; cases b; simp add: failure_max_def)+

section \<open>Wrapping\<close>

lemma type_bounds:
  "0 < modulus ty" "maximum ty < modulus ty" "is_signed ty \<Longrightarrow> minimum ty = maximum ty + 1 - modulus ty"
  "\<not> is_signed ty \<Longrightarrow> minimum ty = 0 \<and> maximum ty = modulus ty - 1"
  by (cases ty; simp add: modulus_def)+

lemma wrap_integer_mod:
  "wrap_integer ty x =
     (if is_signed ty \<and> x mod modulus ty > maximum ty then x mod modulus ty - modulus ty
      else x mod modulus ty)"
  by (simp add: wrap_integer_def mathematical_mod_mod type_bounds Let_def)

lemma wrap_integer_in_type: "contains_i128 ty (wrap_integer ty x)"
proof -
  have u: "0 \<le> x mod modulus ty" "x mod modulus ty < modulus ty"
    using type_bounds(1) [of ty] by simp_all
  show ?thesis
  proof (cases "is_signed ty")
    case True
    from u type_bounds(2) [of ty] type_bounds(3) [OF True] minimum_maximum(3) [of ty] show ?thesis
      unfolding wrap_integer_mod contains_i128_def by (cases "x mod modulus ty > maximum ty"; simp only: True if_True if_False simp_thms) linarith+
  next
    case False
    from u type_bounds(4) [OF False] show ?thesis
      by (simp add: wrap_integer_mod contains_i128_def False)
  qed
qed

lemma wrap_integer_id:
  assumes "contains_i128 ty x"
  shows "wrap_integer ty x = x"
proof (cases "0 \<le> x")
  case True
  with assms type_bounds(2) [of ty] have "x mod modulus ty = x" "x \<le> maximum ty"
    by (auto simp: contains_i128_def intro!: mod_pos_pos_trivial)
  then show ?thesis by (simp add: wrap_integer_mod)
next
  case False
  with assms type_bounds(4) [of ty] have s: "is_signed ty" by (auto simp: contains_i128_def)
  with assms False type_bounds(3) [of ty] have x: "maximum ty < x + modulus ty" "x + modulus ty < modulus ty"
    by (auto simp: contains_i128_def)
  with minimum_maximum(3) [of ty] have "(x + modulus ty) mod modulus ty = x + modulus ty"
    by (intro mod_pos_pos_trivial) auto
  then have "x mod modulus ty = x + modulus ty" by simp
  with x(1) s show ?thesis by (simp add: wrap_integer_mod)
qed

text \<open>Wrapping is the conversion to a machine word of the type's width and back.\<close>

lemma signed_wrap:
  assumes "0 < n"
  shows "signed_take_bit n x = (if x mod 2 ^ Suc n > 2 ^ n - 1 then x mod 2 ^ Suc n - 2 ^ Suc n
    else (x :: int) mod 2 ^ Suc n)"
proof -
  let ?M = "2 ^ Suc n :: int"
  let ?u = "x mod ?M"
  have u: "0 \<le> ?u" "?u < ?M" and M: "?M = 2 * 2 ^ n" by simp_all
  have "signed_take_bit n x = (x + 2 ^ n) mod ?M - 2 ^ n"
    by (simp add: signed_take_bit_eq_take_bit_shift take_bit_eq_mod)
  also have "(x + 2 ^ n) mod ?M = (?u + 2 ^ n) mod ?M" by (simp add: mod_simps)
  also have "\<dots> = (if ?u > 2 ^ n - 1 then ?u + 2 ^ n - ?M else ?u + 2 ^ n)"
  proof (cases "?u > 2 ^ n - 1")
    case True
    with u M have "0 \<le> ?u + 2 ^ n - ?M" "?u + 2 ^ n - ?M < ?M" by linarith+
    then have "(?u + 2 ^ n - ?M) mod ?M = ?u + 2 ^ n - ?M" by (rule mod_pos_pos_trivial)
    with True show ?thesis by (simp only: minus_mod_self2 if_True)
  next
    case False
    with M have "?u + 2 ^ n < ?M" by linarith
    moreover have "0 \<le> ?u + 2 ^ n" by simp
    ultimately have "(?u + 2 ^ n) mod ?M = ?u + 2 ^ n" by (intro mod_pos_pos_trivial)
    with False show ?thesis by (simp only: if_False)
  qed
  finally show ?thesis by (auto simp: algebra_simps)
qed

lemma wrap_integer_word:
  "wrap_integer U32 x = uint (word_of_int x :: 32 word)"
  "wrap_integer U64 x = uint (word_of_int x :: 64 word)"
  "wrap_integer I32 x = sint (word_of_int x :: 32 word)"
  "wrap_integer I64 x = sint (word_of_int x :: 64 word)"
  by (simp_all add: wrap_integer_mod modulus_def uint_word_of_int sint_sbintrunc' signed_wrap take_bit_eq_mod)

end
