(* ===== verification/Scalar_Properties.thy ===== *)
theory Scalar_Properties
  imports Scalar_Sound
begin

text \<open>The properties of the integer domains.\<close>

section \<open>Binary operations\<close>

lemma exact_binary_raw: "exact_binary op x y = Inr z \<Longrightarrow> z = raw_binary op x y"
  by (cases op) (auto simp: exact_binary_def split: if_splits)

lemma scalar_binary_cases:
  assumes "scalar_binary op semantics left right = Inr v"
  obtains (always) "sv_type left = sv_type right" "semantics \<noteq> StrictFloat"
      "division_failure op (sv_type left) left right = Always"
      "v = with_failure (sv_unknown_value (sv_type left)) Always"
  | (checked) i where "sv_type left = sv_type right" "semantics = Checked"
      "division_failure op (sv_type left) left right \<noteq> Always"
      "mathematical_interval op (sv_interval left) (sv_interval right) = Inr i"
      "checked_result op left right (division_failure op (sv_type left) left right) i = Inr v"
  | (modular) i where "sv_type left = sv_type right" "semantics = Modular"
      "division_failure op (sv_type left) left right \<noteq> Always"
      "mathematical_interval op (sv_interval left) (sv_interval right) = Inr i"
      "modular_result op left right (division_failure op (sv_type left) left right) i = Inr v"
  using assms by (cases semantics) (auto simp: scalar_binary_def Let_def split: if_splits)

lemma intersection_type:
  "intersection i (interval_for_type ty) = Some j \<Longrightarrow> interval_ok ty j \<and>
     (\<forall>z. interval_in j z \<longleftrightarrow> interval_in i z \<and> contains_i128 ty z)"
  "intersection i (interval_for_type ty) = None \<Longrightarrow> interval_in i z \<Longrightarrow> \<not> contains_i128 ty z"
  by (auto simp: intersection_def Let_def interval_for_type_def interval_ok_def interval_in_def
      contains_i128_def split: if_splits)

lemma interval_ok_for_type: "interval_ok ty (interval_for_type ty)"
  by (simp add: interval_ok_def interval_for_type_def minimum_maximum)

lemma checked_result_spec:
  assumes "checked_result op left right division i = Inr v" "scalar_ok left" "scalar_ok right"
  shows "sv_type v = sv_type left" "scalar_ok v"
    "sv_failure v = failure_max division (range_failure (sv_type left) i)"
    "scalar_in env left x \<Longrightarrow> scalar_in env right y \<Longrightarrow> interval_in i (raw_binary op x y) \<Longrightarrow>
     contains_i128 (sv_type left) (raw_binary op x y) \<Longrightarrow> scalar_in env v (raw_binary op x y)"
proof -
  let ?ty = "sv_type left"
  let ?j = "case intersection i (interval_for_type ?ty) of Some j \<Rightarrow> j | None \<Rightarrow> interval_for_type ?ty"
  let ?f = "failure_max division (range_failure ?ty i)"
  obtain w where w: "from_transfer_parts op left right ?j False = Inr w"
    and v: "v = (if ?f = Always then w\<lparr>sv_failure := ?f, sv_unknown := True, sv_affine := None\<rparr>
      else w\<lparr>sv_failure := ?f\<rparr>)"
    using assms(1) by (auto simp: checked_result_def Let_def)
  note ws = from_transfer_parts_sound [OF w assms(2,3)]
  have ok: "interval_ok ?ty ?j"
    using intersection_type(1) [of i ?ty] interval_ok_for_type by (auto split: option.split)
  then have "scalar_ok w" using ws(2) by (simp add: interval_ok_def)
  with ws(1) show "sv_type v = ?ty" "sv_failure v = ?f" "scalar_ok v"
    by (auto simp: v scalar_ok_def)
  assume in_: "scalar_in env left x" "scalar_in env right y" "interval_in i (raw_binary op x y)"
    "contains_i128 ?ty (raw_binary op x y)"
  then have "interval_in ?j (raw_binary op x y)"
    using intersection_type [of i ?ty] by (auto split: option.split)
  from ws(4) [OF in_(1,2) this] show "scalar_in env v (raw_binary op x y)"
    by (auto simp: v scalar_in_def)
qed

lemma modular_result_spec:
  assumes "modular_result op left right division i = Inr v" "scalar_ok left" "scalar_ok right"
    and i: "iv_lower i \<le> iv_upper i"
  shows "sv_type v = sv_type left" "scalar_ok v" "sv_failure v = division"
    "scalar_in env left x \<Longrightarrow> scalar_in env right y \<Longrightarrow>
     (division = NoFailure \<Longrightarrow> interval_in i (raw_binary op x y)) \<Longrightarrow>
     scalar_in env v (wrap_integer (sv_type left) (raw_binary op x y))"
proof -
  let ?ty = "sv_type left"
  consider (fails) "division \<noteq> NoFailure" "v = with_failure (sv_unknown_value ?ty) division"
    | (fits) "division = NoFailure" "range_failure ?ty i = NoFailure"
        "from_transfer_parts op left right i False = Inr v"
    | (exact) l r raw w where "division = NoFailure" "exact_value left = Some l" "exact_value right = Some r"
        "exact_binary op l r = Inr raw" "scalar_constant ?ty (wrap_integer ?ty raw) = Inr w"
        "v = w\<lparr>sv_affine := None\<rparr>"
    | (top) "division = NoFailure" "v = sv_unknown_value ?ty"
    using assms(1) by (auto simp: modular_result_def Let_def split: if_splits option.splits)
  then have "sv_type v = ?ty \<and> scalar_ok v \<and> sv_failure v = division \<and>
    (\<forall>x y. scalar_in env left x \<longrightarrow> scalar_in env right y \<longrightarrow>
       (division = NoFailure \<longrightarrow> interval_in i (raw_binary op x y)) \<longrightarrow>
       scalar_in env v (wrap_integer ?ty (raw_binary op x y)))" for env
  proof cases
    case fails
    then show ?thesis
      by (simp add: wrap_integer_in_type) (simp add: with_failure_def sv_unknown_value_def)
  next
    case fits
    note s = from_transfer_parts_sound [OF fits(3) assms(2,3)]
    have "wrap_integer ?ty z = z" if "interval_in i z" for z
      using range_failure_spec(1) [OF fits(2) that] by (rule wrap_integer_id)
    with s i fits(1) show ?thesis by auto
  next
    case exact
    note c = scalar_constant_Inr [OF exact(5)]
    have "scalar_in env v (wrap_integer ?ty (raw_binary op x y))"
      if "scalar_in env left x" "scalar_in env right y" for x y
      using exact_value_in [OF exact(2) that(1)] exact_value_in [OF exact(3) that(2)]
        exact_binary_raw [OF exact(4)] c(3) [of env]
      by (auto simp: exact(6) scalar_in_def)
    with c exact(1,6) show ?thesis by (auto simp: scalar_ok_def)
  next
    case top
    then show ?thesis
      by (simp add: wrap_integer_in_type) (simp add: sv_unknown_value_def)
  qed
  then show "sv_type v = ?ty" "scalar_ok v" "sv_failure v = division"
    "scalar_in env left x \<Longrightarrow> scalar_in env right y \<Longrightarrow>
     (division = NoFailure \<Longrightarrow> interval_in i (raw_binary op x y)) \<Longrightarrow>
     scalar_in env v (wrap_integer ?ty (raw_binary op x y))" by blast+
qed

lemma mathematical_interval_total:
  assumes "interval_ok ty l" "interval_ok ty r" "op = MirDiv \<or> op = MirMod \<Longrightarrow> r \<noteq> interval_exact 0"
  shows "\<exists>i. mathematical_interval op l r = Inr i \<and> iv_lower i \<le> iv_upper i"
proof -
  have o: "iv_lower l \<le> iv_upper l" "iv_lower r \<le> iv_upper r"
    using assms(1,2) by (simp_all add: interval_ok_def)
  have four: "\<exists>i. hull_of_four a b c d = Inr i \<and> iv_lower i \<le> iv_upper i" for a b c d
    by (auto simp: hull_of_four_def interval_new_def)
  show ?thesis
  proof (cases op)
    case MirDiv
    with o four show ?thesis by (auto simp: mathematical_interval_def)
  next
    case MirMod
    show ?thesis
    proof (cases "is_exact l \<and> is_exact r")
      case True
      with assms(3) MirMod have "iv_lower r \<noteq> 0"
        by (cases r) (auto simp: is_exact_def interval_exact_def)
      with True MirMod show ?thesis
        by (simp add: mathematical_interval_def exact_binary_def interval_exact_def)
    next
      case False
      let ?m = "max (max (max (iv_lower r) (- iv_lower r)) (iv_upper r)) (- iv_upper r)"
      have "iv_lower r \<noteq> 0 \<or> iv_upper r \<noteq> 0"
        using assms(3) MirMod by (cases r) (auto simp: interval_exact_def)
      then have "1 \<le> ?m" by linarith
      then have le: "- ?m + 1 \<le> ?m - 1" by linarith
      then have "interval_new (- ?m + 1) (?m - 1) = Inr \<lparr>iv_lower = - ?m + 1, iv_upper = ?m - 1\<rparr>"
        unfolding interval_new_Inr by (intro conjI refl)
      with le show ?thesis
        using MirMod False by (simp only: mathematical_interval_def mir_binary_op.case if_False Let_def) simp
    qed
  qed (use o four in \<open>auto simp: mathematical_interval_def interval_new_def\<close>)
qed

lemma mathematical_interval_ordered:
  assumes "mathematical_interval op l r = Inr i" "interval_ok ty l" "interval_ok ty r"
  shows "iv_lower i \<le> iv_upper i"
  using assms
  by (cases op) (auto simp: mathematical_interval_def hull_of_four_def interval_new_Inr interval_ok_def
      exact_binary_def interval_exact_def Let_def split: if_splits)

lemma division_failure_zero:
  "division_failure op ty left right \<noteq> Always \<Longrightarrow> op = MirDiv \<or> op = MirMod \<Longrightarrow>
   sv_interval right \<noteq> interval_exact 0"
  by (auto simp: division_failure_def Let_def exact_value_def interval_exact_def is_exact_def split: if_splits)

lemma raw_in_interval:
  assumes "mathematical_interval op (sv_interval left) (sv_interval right) = Inr i"
    "scalar_in env left x" "scalar_in env right y" "\<not> division_fails op ty x y"
    "op = MirDiv \<Longrightarrow> \<not> interval_in (sv_interval right) 0"
  shows "interval_in i (raw_binary op x y)"
  using assms by (intro mathematical_interval_in) (auto simp: scalar_in_def division_fails_def)

text \<open>Two small scalars for the examples: the constant 7 and the range from 1 to 3, of type i32.\<close>

definition seven :: scalar_value where
  "seven = \<lparr>sv_type = I32, sv_interval = interval_exact 7, sv_congruence = congruence_exact 7,
     sv_known_bits = known_bits_exact 7 I32, sv_affine = Some (affine_integer 7),
     sv_failure = NoFailure, sv_unknown = False\<rparr>"

definition one_to :: "int \<Rightarrow> scalar_value" where
  "one_to n = \<lparr>sv_type = I32, sv_interval = \<lparr>iv_lower = 1, iv_upper = n\<rparr>,
     sv_congruence = congruence_top, sv_known_bits = known_bits_unknown, sv_affine = None,
     sv_failure = NoFailure, sv_unknown = False\<rparr>"

lemma seven_ok: "scalar_ok seven" "scalar_in env seven 7"
  by (simp_all add: seven_def scalar_ok_def scalar_in_def interval_ok_def interval_in_def interval_exact_def)

lemma one_to_ok: "scalar_ok (one_to 3)" "x = 1 \<or> x = 2 \<or> x = 3 \<Longrightarrow> scalar_in env (one_to 3) x"
  by (auto simp: one_to_def scalar_ok_def scalar_in_def interval_ok_def interval_in_def)

definition seven_by_one_to_three :: scalar_value where
  "seven_by_one_to_three = \<lparr>sv_type = I32, sv_interval = \<lparr>iv_lower = 2, iv_upper = 7\<rparr>,
     sv_congruence = congruence_top, sv_known_bits = known_bits_unknown, sv_affine = None,
     sv_failure = NoFailure, sv_unknown = False\<rparr>"

lemmas scalar_eval = scalar_binary_def division_failure_def mathematical_interval_def hull_of_four_def
  interval_new_def checked_result_def range_failure_def failure_max_def intersection_def
  interval_for_type_def from_transfer_parts_def from_interval_def ensure_in_type_def is_exact_def
  exact_value_def transfer_affine_def interval_exact_def Let_def

lemma seven_by_one_to_three:
  "scalar_binary MirDiv Checked seven (one_to 3) = Inr seven_by_one_to_three"
  by (simp add: scalar_eval seven_def one_to_def seven_by_one_to_three_def)

lemma eval_seven_by_two: "eval_binary MirDiv Checked (sv_type seven) 7 2 = Some 3"
  by (simp add: eval_binary_def division_fails_def seven_def contains_i128_def)

section \<open>Properties of the operations\<close>

text \<open>
  C15. Soundness of the transfer: when the operands are in the abstract operands, the result of
  the machine operation, checked or modular, is in the abstract result: in its interval, its
  congruence, its known bits, and equal to its affine form. Excluded is a checked division whose
  divisor interval has zero (see C23).
\<close>

theorem scalar_binary_sound:
  assumes "scalar_binary op semantics left right = Inr v" "scalar_ok left" "scalar_ok right"
    "scalar_in env left x" "scalar_in env right y"
    "eval_binary op semantics (sv_type left) x y = Some z"
    "\<not> (op = MirDiv \<and> semantics = Checked \<and> interval_in (sv_interval right) 0)"
  shows "scalar_in env v z"
  using assms(1)
proof (cases rule: scalar_binary_cases)
  case always
  have "division_fails op (sv_type left) x y"
    using division_failure_Always [OF always(3) assms(4,5)] assms(3) always(1) by simp
  with assms(6) show ?thesis by (simp add: eval_binary_def)
next
  case (checked i)
  have nf: "\<not> division_fails op (sv_type left) x y" and z: "z = raw_binary op x y"
    "contains_i128 (sv_type left) (raw_binary op x y)"
    using assms(6) checked(2) by (simp_all add: eval_binary_def split: if_splits)
  have "interval_in i (raw_binary op x y)"
    using raw_in_interval [OF checked(4) assms(4,5) nf] assms(7) checked(2) by simp
  from checked_result_spec(4) [OF checked(5) assms(2,3,4,5) this z(2)] z(1) show ?thesis by simp
next
  case (modular i)
  have nf: "\<not> division_fails op (sv_type left) x y" and z: "z = wrap_integer (sv_type left) (raw_binary op x y)"
    using assms(6) modular(2) by (simp_all add: eval_binary_def split: if_splits)
  have ordered: "iv_lower i \<le> iv_upper i"
    using mathematical_interval_ordered [OF modular(4), of "sv_type left"] assms(2,3) modular(1)
    by (simp add: scalar_ok_def)
  have "interval_in i (raw_binary op x y)"
    if "division_failure op (sv_type left) left right = NoFailure"
    using raw_in_interval [OF modular(4) assms(4,5) nf] division_failure_None(2) [OF that assms(4,5)]
    by blast
  from modular_result_spec(4) [OF modular(5) assms(2,3) ordered assms(4,5) this] z show ?thesis by simp
qed

theorem scalar_binary_sound_witness: "scalar_in (\<lambda>_. 0) seven_by_one_to_three 3"
  using scalar_binary_sound [OF seven_by_one_to_three seven_ok(1) one_to_ok(1) seven_ok(2) one_to_ok(2)
      eval_seven_by_two]
  by (simp add: one_to_def interval_in_def)

text \<open>
  C16. The failure classification is exact at both ends: an operation classified as never
  failing has a result for all operands, one classified as always failing for none.
\<close>

theorem scalar_binary_failures:
  assumes "scalar_binary op semantics left right = Inr v" "scalar_ok left" "scalar_ok right"
    "scalar_in env left x" "scalar_in env right y"
  shows "(sv_failure v = NoFailure \<longrightarrow> eval_binary op semantics (sv_type left) x y \<noteq> None) \<and>
    (sv_failure v = Always \<longrightarrow> eval_binary op semantics (sv_type left) x y = None)"
  using assms(1)
proof (cases rule: scalar_binary_cases)
  case always
  have "division_fails op (sv_type left) x y"
    using division_failure_Always [OF always(3) assms(4,5)] assms(3) always(1) by simp
  with always(4) show ?thesis by (simp add: eval_binary_def with_failure_def)
next
  case (checked i)
  let ?ty = "sv_type left" and ?d = "division_failure op (sv_type left) left right"
  note f = checked_result_spec(3) [OF checked(5) assms(2,3)]
  have raw: "interval_in i (raw_binary op x y)"
    if "\<not> division_fails op ?ty x y" "op = MirDiv \<Longrightarrow> \<not> interval_in (sv_interval right) 0"
    using raw_in_interval [OF checked(4) assms(4,5) that] .
  have none: "eval_binary op semantics ?ty x y \<noteq> None" if "?d = NoFailure" "range_failure ?ty i = NoFailure"
    using raw division_failure_None [OF that(1) assms(4,5)] range_failure_spec(1) [OF that(2)]
    by (auto simp: eval_binary_def checked(2))
  have "eval_binary op semantics ?ty x y = None" if always: "range_failure ?ty i = Always"
  proof (cases "op = MirDiv \<and> interval_in (sv_interval right) 0")
    case True
    then have "i = \<lparr>iv_lower = min (iv_lower (sv_interval left)) (iv_upper (sv_interval left)),
        iv_upper = max (iv_lower (sv_interval left)) (iv_upper (sv_interval left))\<rparr>"
      using checked(4) by (simp add: mathematical_interval_def interval_in_def)
    with assms(2) always have False
      by (auto simp: range_failure_def scalar_ok_def interval_ok_def split: if_splits)
    then show ?thesis ..
  next
    case False
    with raw range_failure_spec(2) [OF always] show ?thesis
      by (auto simp: eval_binary_def checked(2))
  qed
  with f none checked(3) show ?thesis by (auto simp: failure_max_cases)
next
  case (modular i)
  have ordered: "iv_lower i \<le> iv_upper i"
    using mathematical_interval_ordered [OF modular(4), of "sv_type left"] assms(2,3) modular(1)
    by (simp add: scalar_ok_def)
  note f = modular_result_spec(3) [OF modular(5) assms(2,3) ordered]
  show ?thesis
    using f modular(2,3) division_failure_None(1) [OF _ assms(4,5)] by (auto simp: eval_binary_def)
qed

theorem scalar_binary_failures_witness: "eval_binary MirDiv Checked I32 7 2 \<noteq> None"
  using scalar_binary_failures [OF seven_by_one_to_three seven_ok(1) one_to_ok(1) seven_ok(2) one_to_ok(2), of 2]
  by (simp add: seven_by_one_to_three_def seven_def)

text \<open>
  C17. On well-formed operands of one type and integer semantics the transfer never reports an
  error, and its result is well-formed and of that type.
\<close>

theorem scalar_binary_total:
  assumes "scalar_ok left" "scalar_ok right" "sv_type left = sv_type right" "semantics \<noteq> StrictFloat"
  shows "\<exists>v. scalar_binary op semantics left right = Inr v \<and> scalar_ok v \<and> sv_type v = sv_type left"
proof (cases "division_failure op (sv_type left) left right = Always")
  case True
  with assms(3,4) show ?thesis
    by (simp add: scalar_binary_def Let_def) (simp add: with_failure_def sv_unknown_value_def)
next
  case False
  let ?ty = "sv_type left" and ?d = "division_failure op (sv_type left) left right"
  have l: "interval_ok ?ty (sv_interval left)" and r: "interval_ok ?ty (sv_interval right)"
    using assms(1-3) by (simp_all add: scalar_ok_def)
  obtain i where i: "mathematical_interval op (sv_interval left) (sv_interval right) = Inr i"
    "iv_lower i \<le> iv_upper i"
    using mathematical_interval_total [OF l r] division_failure_zero [OF False] by blast
  have parts: "\<exists>v. from_transfer_parts op left right j b = Inr v" if "interval_ok ?ty j" for j b
    using from_interval_total [OF that] by (auto simp: from_transfer_parts_def)
  have "\<exists>v. (if semantics = Checked then checked_result op left right ?d i
      else modular_result op left right ?d i) = Inr v"
  proof (cases "semantics = Checked")
    case True
    have "interval_ok ?ty (case intersection i (interval_for_type ?ty) of
        Some j \<Rightarrow> j | None \<Rightarrow> interval_for_type ?ty)"
      using intersection_type(1) [of i ?ty] interval_ok_for_type by (auto split: option.split)
    from parts [OF this] True show ?thesis by (auto simp: checked_result_def Let_def)
  next
    case modular: False
    have fits: "interval_ok ?ty i" if "range_failure ?ty i = NoFailure"
      using that i(2) by (auto simp: range_failure_def interval_ok_def split: if_splits)
    have "\<exists>raw. exact_binary op a b = Inr raw" if "?d = NoFailure" "exact_value right = Some b" for a b
      using that division_failure_zero [OF False]
      by (cases op) (auto simp: exact_binary_def exact_value_def is_exact_def interval_exact_def split: if_splits)
    moreover have "\<exists>w. scalar_constant ?ty (wrap_integer ?ty raw) = Inr w" for raw
      using wrap_integer_in_type [of ?ty raw] by (simp add: scalar_constant_def contains_i128_def)
    ultimately show ?thesis
      using modular parts [OF fits] by (fastforce simp: modular_result_def Let_def split: option.split)
  qed
  then obtain v where v: "(if semantics = Checked then checked_result op left right ?d i
      else modular_result op left right ?d i) = Inr v" by blast
  then have "scalar_binary op semantics left right = Inr v"
    using assms(3,4) False i(1) unfolding scalar_binary_def Let_def by (simp split del: if_split)
  moreover have "scalar_ok v \<and> sv_type v = ?ty"
    using v checked_result_spec(1,2) [OF _ assms(1,2)] modular_result_spec(1,2) [OF _ assms(1,2) i(2)]
    by (auto split: if_splits)
  ultimately show ?thesis by blast
qed

theorem scalar_binary_total_witness:
  "\<exists>v. scalar_binary MirMod Modular seven (one_to 3) = Inr v \<and> scalar_ok v \<and> sv_type v = I32"
  using scalar_binary_total [OF seven_ok(1) one_to_ok(1), of Modular MirMod]
  by (simp add: seven_def one_to_def)

section \<open>Comparisons and refinements\<close>

fun eval_compare :: "mir_compare_op \<Rightarrow> int \<Rightarrow> int \<Rightarrow> bool" where
  "eval_compare MirEq x y \<longleftrightarrow> x = y"
| "eval_compare MirNe x y \<longleftrightarrow> x \<noteq> y"
| "eval_compare MirLt x y \<longleftrightarrow> x < y"
| "eval_compare MirLe x y \<longleftrightarrow> x \<le> y"
| "eval_compare MirGt x y \<longleftrightarrow> x > y"
| "eval_compare MirGe x y \<longleftrightarrow> x \<ge> y"

definition decides :: "bool_lattice \<Rightarrow> bool \<Rightarrow> bool" where
  "decides b holds \<longleftrightarrow> (b = AlwaysTrue \<longrightarrow> holds) \<and> (b = AlwaysFalse \<longrightarrow> \<not> holds)"

lemma decides_negate: "decides b holds \<Longrightarrow> decides (negate b) (\<not> holds)"
  by (cases b) (simp_all add: decides_def)

lemma compare_ordered_decides:
  assumes "interval_in l x" "interval_in r y"
  shows "decides (compare_ordered (iv_upper l) (iv_lower r) (iv_lower l) (iv_upper r) eq)
    (if eq then x \<le> y else x < y)"
  using assms by (auto simp: decides_def compare_ordered_def interval_in_def Let_def split: if_splits)

lemma compare_eq_decides:
  assumes "scalar_compare MirEq left right = Inr b" "scalar_in env left x" "scalar_in env right y"
  shows "decides b (x = y)"
proof -
  have "x = y" if "Some k = exact_value right" "exact_value left = exact_value right" for k
    using exact_value_in [OF _ assms(2), of k] exact_value_in [OF _ assms(3), of k] that by simp
  with assms show ?thesis
    by (auto simp: scalar_compare.simps [of MirEq] decides_def scalar_in_def interval_in_def Let_def
        split: if_splits)
qed

lemma scalar_compare_type: "scalar_compare op left right = Inr b \<Longrightarrow> sv_type left = sv_type right"
  by (subst (asm) scalar_compare.simps) (simp split: if_splits)

text \<open>C18. A comparison decided from the abstract operands has that outcome for all their values.\<close>

theorem scalar_compare_sound:
  assumes "scalar_compare op left right = Inr b" "scalar_in env left x" "scalar_in env right y"
  shows "decides b (eval_compare op x y)"
proof -
  note type = scalar_compare_type [OF assms(1)]
  have x: "interval_in (sv_interval left) x" and y: "interval_in (sv_interval right) y"
    using assms(2,3) by (simp_all add: scalar_in_def)
  show ?thesis
  proof (cases op)
    case MirEq
    with compare_eq_decides [of left right b env x y] assms show ?thesis by simp
  next
    case MirNe
    with assms(1) type obtain c where "scalar_compare MirEq left right = Inr c" "b = negate c"
      by (auto simp: scalar_compare.simps [of MirNe])
    with compare_eq_decides [OF _ assms(2,3)] decides_negate MirNe show ?thesis by fastforce
  next
    case MirLt
    with compare_ordered_decides [OF x y, of False] assms(1) type show ?thesis
      by (simp add: scalar_compare.simps [of MirLt] Let_def)
  next
    case MirLe
    with compare_ordered_decides [OF x y, of True] assms(1) type show ?thesis
      by (simp add: scalar_compare.simps [of MirLe] Let_def)
  next
    case MirGt
    with compare_ordered_decides [OF y x, of False] assms(1) type show ?thesis
      by (simp add: scalar_compare.simps [of MirGt] scalar_compare.simps [of MirLt] Let_def)
  next
    case MirGe
    with compare_ordered_decides [OF y x, of True] assms(1) type show ?thesis
      by (simp add: scalar_compare.simps [of MirGe] scalar_compare.simps [of MirLe] Let_def)
  qed
qed

theorem scalar_compare_sound_witness: "decides AlwaysTrue (eval_compare MirGt 7 3)"
proof (rule scalar_compare_sound [OF _ seven_ok(2) one_to_ok(2)])
  show "scalar_compare MirGt seven (one_to 3) = Inr AlwaysTrue"
    by (simp add: scalar_compare.simps [of MirGt] scalar_compare.simps [of MirLt] compare_ordered_def
        seven_def one_to_def interval_exact_def)
qed simp

lemma refine_upper_sound:
  assumes "scalar_ok v"
  shows "\<exists>w. refine_upper v u = Inr w \<and> scalar_ok w \<and> sv_type w = sv_type v \<and>
    (\<forall>x. scalar_in env v x \<and> x \<le> u \<longrightarrow> scalar_in env w x)"
proof (cases "iv_lower (sv_interval v) \<le> min u (iv_upper (sv_interval v))")
  case True
  let ?i = "\<lparr>iv_lower = iv_lower (sv_interval v), iv_upper = min u (iv_upper (sv_interval v))\<rparr>"
  have "interval_ok (sv_type v) ?i"
    using True assms by (auto simp: interval_ok_def scalar_ok_def)
  then obtain w where w: "from_interval (sv_type v) ?i = Inr w" using from_interval_total by blast
  have "interval_in ?i x" if "scalar_in env v x" "x \<le> u" for x
    using that by (auto simp: scalar_in_def interval_in_def)
  with True w from_interval_sound [OF w] show ?thesis by (auto simp: refine_upper_def Let_def)
next
  case False
  with assms show ?thesis by (auto simp: refine_upper_def Let_def)
qed

lemma refine_lower_sound:
  assumes "scalar_ok v"
  shows "\<exists>w. refine_lower v l = Inr w \<and> scalar_ok w \<and> sv_type w = sv_type v \<and>
    (\<forall>x. scalar_in env v x \<and> l \<le> x \<longrightarrow> scalar_in env w x)"
proof (cases "max l (iv_lower (sv_interval v)) \<le> iv_upper (sv_interval v)")
  case True
  let ?i = "\<lparr>iv_lower = max l (iv_lower (sv_interval v)), iv_upper = iv_upper (sv_interval v)\<rparr>"
  have "interval_ok (sv_type v) ?i"
    using True assms by (auto simp: interval_ok_def scalar_ok_def)
  then obtain w where w: "from_interval (sv_type v) ?i = Inr w" using from_interval_total by blast
  have "interval_in ?i x" if "scalar_in env v x" "l \<le> x" for x
    using that by (auto simp: scalar_in_def interval_in_def)
  with True w from_interval_sound [OF w] show ?thesis by (auto simp: refine_lower_def Let_def)
next
  case False
  with assms show ?thesis by (auto simp: refine_lower_def Let_def)
qed

lemma refine_exact_sound:
  assumes "scalar_ok v" "scalar_ok u" "sv_type u = sv_type v"
  shows "\<exists>w. refine_exact v (exact_value u) = Inr w \<and> scalar_ok w \<and> sv_type w = sv_type v \<and>
    (\<forall>x. scalar_in env v x \<and> scalar_in env u x \<longrightarrow> scalar_in env w x)"
proof (cases "exact_value u")
  case None
  with assms(1) show ?thesis by (auto simp: refine_exact_def)
next
  case (Some k)
  then have "minimum (sv_type v) \<le> k" "k \<le> maximum (sv_type v)"
    using assms(2,3) by (auto simp: exact_value_def scalar_ok_def interval_ok_def split: if_splits)
  then obtain w where w: "scalar_constant (sv_type v) k = Inr w" by (simp add: scalar_constant_def)
  with scalar_constant_Inr [OF w] exact_value_in [OF Some] show ?thesis
    by (auto simp: refine_exact_def Some)
qed

definition refines :: "(value_id \<Rightarrow> int) \<Rightarrow> mir_compare_op \<Rightarrow> scalar_value \<Rightarrow> scalar_value \<Rightarrow>
    refinement \<Rightarrow> bool" where
  "refines env op left right = (\<lambda>((taken_left, taken_right), (other_left, other_right)).
     (\<forall>v \<in> {taken_left, taken_right, other_left, other_right}. scalar_ok v \<and> sv_type v = sv_type left) \<and>
     (\<forall>x y. scalar_in env left x \<and> scalar_in env right y \<longrightarrow>
        (if eval_compare op x y then scalar_in env taken_left x \<and> scalar_in env taken_right y
         else scalar_in env other_left x \<and> scalar_in env other_right y)))"

lemma refine_ordered:
  assumes "scalar_ok left" "scalar_ok right" "sv_type left = sv_type right" "op = MirLt \<or> op = MirLe"
  shows "\<exists>r. refine_scalar_comparison op left right = Inr r \<and> refines env op left right r"
proof -
  note u = refine_upper_sound [where env = env] and l = refine_lower_sound [where env = env]
  let ?d = "if op = MirLt then 1 else 0 :: int"
  obtain tl where tl: "refine_upper left (iv_upper (sv_interval right) - ?d) = Inr tl"
    "scalar_ok tl" "sv_type tl = sv_type left"
    "\<forall>x. scalar_in env left x \<and> x \<le> iv_upper (sv_interval right) - ?d \<longrightarrow> scalar_in env tl x"
    using u [OF assms(1)] by blast
  obtain tr where tr: "refine_lower right (iv_lower (sv_interval left) + ?d) = Inr tr"
    "scalar_ok tr" "sv_type tr = sv_type right"
    "\<forall>x. scalar_in env right x \<and> iv_lower (sv_interval left) + ?d \<le> x \<longrightarrow> scalar_in env tr x"
    using l [OF assms(2)] by blast
  obtain ol where ol: "refine_lower left (iv_lower (sv_interval right) + (1 - ?d)) = Inr ol"
    "scalar_ok ol" "sv_type ol = sv_type left"
    "\<forall>x. scalar_in env left x \<and> iv_lower (sv_interval right) + (1 - ?d) \<le> x \<longrightarrow> scalar_in env ol x"
    using l [OF assms(1)] by blast
  obtain orr where orr: "refine_upper right (iv_upper (sv_interval left) - (1 - ?d)) = Inr orr"
    "scalar_ok orr" "sv_type orr = sv_type right"
    "\<forall>x. scalar_in env right x \<and> x \<le> iv_upper (sv_interval left) - (1 - ?d) \<longrightarrow> scalar_in env orr x"
    using u [OF assms(2)] by blast
  have run: "refine_scalar_comparison op left right = Inr ((tl, tr), (ol, orr))"
    using assms(3,4) tl(1) tr(1) ol(1) orr(1)
    by (auto simp: refine_scalar_comparison.simps [of MirLt] refine_scalar_comparison.simps [of MirLe]
        refine_four_def Let_def)
  have "if eval_compare op x y then scalar_in env tl x \<and> scalar_in env tr y
      else scalar_in env ol x \<and> scalar_in env orr y"
    if xy: "scalar_in env left x" "scalar_in env right y" for x y
  proof -
    have "iv_lower (sv_interval left) \<le> x" "x \<le> iv_upper (sv_interval left)"
      "iv_lower (sv_interval right) \<le> y" "y \<le> iv_upper (sv_interval right)"
      using xy by (simp_all add: scalar_in_def interval_in_def)
    with xy tl(4) tr(4) ol(4) orr(4) assms(4) show ?thesis by auto
  qed
  with run tl(2,3) tr(2,3) ol(2,3) orr(2,3) assms(3) show ?thesis by (auto simp: refines_def)
qed

lemma refine_equal:
  assumes "scalar_ok left" "scalar_ok right" "sv_type left = sv_type right"
  shows "\<exists>r. refine_scalar_comparison MirEq left right = Inr r \<and> refines env MirEq left right r"
proof -
  obtain tl where tl: "refine_exact left (exact_value right) = Inr tl" "scalar_ok tl"
    "sv_type tl = sv_type left" "\<forall>x. scalar_in env left x \<and> scalar_in env right x \<longrightarrow> scalar_in env tl x"
    using refine_exact_sound [OF assms(1,2), where env = env] assms(3) by auto
  obtain tr where tr: "refine_exact right (exact_value left) = Inr tr" "scalar_ok tr"
    "sv_type tr = sv_type right" "\<forall>x. scalar_in env right x \<and> scalar_in env left x \<longrightarrow> scalar_in env tr x"
    using refine_exact_sound [OF assms(2,1), where env = env] assms(3) by auto
  have "refine_scalar_comparison MirEq left right = Inr ((tl, tr), (left, right))"
    using assms(3) tl(1) tr(1)
    by (simp add: refine_scalar_comparison.simps [of MirEq] refine_four_def Let_def)
  with tl tr assms show ?thesis by (auto simp: refines_def)
qed

lemma refines_swap:
  "sv_type left = sv_type right \<Longrightarrow> refines env op right left r \<Longrightarrow>
   (\<And>x y. eval_compare op' x y = eval_compare op y x) \<Longrightarrow> refines env op' left right (swap_refinement r)"
  by (cases r rule: swap_refinement.cases) (auto simp: refines_def)

text \<open>
  C19. Branch refinement: on well-formed operands of one type it never reports an error, its
  four scalars are well-formed, and whichever way a comparison of two values goes, both values
  are in the scalars of that branch.
\<close>

theorem refine_scalar_comparison_sound:
  assumes "scalar_ok left" "scalar_ok right" "sv_type left = sv_type right"
  shows "\<exists>r. refine_scalar_comparison op left right = Inr r \<and> refines env op left right r"
proof (cases op)
  case MirEq
  with refine_equal [OF assms] show ?thesis by simp
next
  case MirNe
  from refine_equal [OF assms, of env] obtain r where
    "refine_scalar_comparison MirEq left right = Inr r" "refines env MirEq left right r" by blast
  with MirNe assms(3) show ?thesis
    by (cases r rule: swap_refinement.cases)
      (auto simp: refine_scalar_comparison.simps [of MirNe] refines_def)
next
  case MirLt
  with refine_ordered [OF assms] show ?thesis by simp
next
  case MirLe
  with refine_ordered [OF assms] show ?thesis by simp
next
  case MirGt
  from refine_ordered [OF assms(2,1) assms(3) [symmetric], of MirLt env] obtain r where
    "refine_scalar_comparison MirLt right left = Inr r" "refines env MirLt right left r" by auto
  with MirGt assms(3) refines_swap [OF assms(3), of env MirLt r MirGt] show ?thesis
    by (simp add: refine_scalar_comparison.simps [of MirGt])
next
  case MirGe
  from refine_ordered [OF assms(2,1) assms(3) [symmetric], of MirLe env] obtain r where
    "refine_scalar_comparison MirLe right left = Inr r" "refines env MirLe right left r" by auto
  with MirGe assms(3) refines_swap [OF assms(3), of env MirLe r MirGe] show ?thesis
    by (simp add: refine_scalar_comparison.simps [of MirGe])
qed

theorem refine_scalar_comparison_sound_witness:
  "\<exists>r. refine_scalar_comparison MirGe seven (one_to 3) = Inr r \<and> refines (\<lambda>_. 0) MirGe seven (one_to 3) r"
  by (rule refine_scalar_comparison_sound [OF seven_ok(1) one_to_ok(1)]) (simp add: seven_def one_to_def)

section \<open>Joins, wrapping and contracts\<close>

lemma from_interval_sound':
  assumes "interval_ok ty i"
  shows "\<exists>v. from_interval ty i = Inr v \<and> scalar_ok v \<and> sv_type v = ty \<and> sv_interval v = i \<and>
    (\<forall>x. interval_in i x \<longrightarrow> scalar_in env v x)"
proof -
  obtain v where v: "from_interval ty i = Inr v" using from_interval_total [OF assms] by blast
  with from_interval_sound [OF v] assms show ?thesis by (auto simp: interval_ok_def)
qed

text \<open>
  C20. Joining and widening two scalars of one type keep the values of both, and each bound of a
  widened interval is the previous bound or the bound of the type, so a bound widens at most
  once.
\<close>

theorem widen_join_sound:
  assumes "scalar_ok p" "scalar_ok n" "sv_type p = sv_type n" "scalar_in env p x \<or> scalar_in env n x"
  shows "scalar_in env (join_scalar p n) x \<and>
    (\<exists>w. widen_scalar p n = Inr w \<and> scalar_ok w \<and> scalar_in env w x \<and>
      iv_lower (sv_interval w) \<in> {iv_lower (sv_interval p), minimum (sv_type p)} \<and>
      iv_upper (sv_interval w) \<in> {iv_upper (sv_interval p), maximum (sv_type p)})"
proof -
  let ?p = "sv_interval p" and ?n = "sv_interval n" and ?ty = "sv_type p"
  have ok: "interval_ok ?ty ?p" "interval_ok ?ty ?n" using assms(1-3) by (simp_all add: scalar_ok_def)
  have x: "interval_in ?p x \<or> interval_in ?n x" using assms(4) by (auto simp: scalar_in_def)
  have h: "interval_ok ?ty (hull ?p ?n)" "interval_in (hull ?p ?n) x"
    using ok x by (auto simp: interval_ok_def hull_def interval_in_def)
  obtain j where j: "from_interval ?ty (hull ?p ?n) = Inr j" "scalar_in env j x"
    using from_interval_sound' [OF h(1), where env = env] h(2) by blast
  let ?w = "\<lparr>iv_lower = if iv_lower ?n < iv_lower ?p then minimum ?ty else iv_lower ?p,
      iv_upper = if iv_upper ?n > iv_upper ?p then maximum ?ty else iv_upper ?p\<rparr>"
  have w: "interval_ok ?ty ?w" "interval_in ?w x"
    using ok x by (auto simp: interval_ok_def interval_in_def)
  obtain v where v: "from_interval ?ty ?w = Inr v" "scalar_ok v" "sv_interval v = ?w" "scalar_in env v x"
    using from_interval_sound' [OF w(1), where env = env] w(2) by blast
  have "widen_scalar p n = Inr (v\<lparr>sv_failure := failure_max (sv_failure p) (sv_failure n)\<rparr>)"
    using v(1) assms(3) by (simp add: widen_scalar_def ensure_same_type_def Let_def)
  moreover have "scalar_in env (join_scalar p n) x"
    using j assms(3) by (simp add: join_scalar_def Let_def)
  ultimately show ?thesis using v(2-4) by simp
qed

theorem widen_join_sound_witness:
  "scalar_in (\<lambda>_. 0) (join_scalar seven (one_to 3)) 2 \<and>
   (\<exists>w. widen_scalar seven (one_to 3) = Inr w \<and> scalar_in (\<lambda>_. 0) w 2)"
  using widen_join_sound [OF seven_ok(1) one_to_ok(1), of "\<lambda>_. 0" 2] one_to_ok(2) [of 2]
  by (auto simp: seven_def one_to_def)

text \<open>
  C21. Narrowing keeps the values that both scalars have; it reports an error exactly when their
  intervals are disjoint.
\<close>

theorem narrow_scalar_sound:
  assumes "scalar_ok a" "scalar_ok b" "sv_type a = sv_type b"
  shows "((\<exists>e. narrow_scalar a b = Inl e) \<longleftrightarrow>
      (\<forall>x. \<not> (interval_in (sv_interval a) x \<and> interval_in (sv_interval b) x))) \<and>
    (\<forall>x v. scalar_in env a x \<and> scalar_in env b x \<and> narrow_scalar a b = Inr v \<longrightarrow>
      scalar_ok v \<and> scalar_in env v x)"
proof (cases "intersection (sv_interval a) (sv_interval b)")
  case None
  then have "\<forall>x. \<not> (interval_in (sv_interval a) x \<and> interval_in (sv_interval b) x)"
    by (auto simp: intersection_def interval_in_def Let_def split: if_splits)
  with None assms(3) show ?thesis by (simp add: narrow_scalar_def ensure_same_type_def)
next
  case (Some i)
  then have i: "interval_in i x \<longleftrightarrow> interval_in (sv_interval a) x \<and> interval_in (sv_interval b) x" for x
    by (auto simp: intersection_def interval_in_def Let_def split: if_splits)
  have ok: "interval_ok (sv_type a) i"
    using Some assms by (auto simp: intersection_def interval_ok_def scalar_ok_def Let_def split: if_splits)
  then have "interval_in i (iv_lower i)" by (simp add: interval_in_def interval_ok_def)
  moreover obtain v where v: "from_interval (sv_type a) i = Inr v" "scalar_ok v"
    "\<forall>x. interval_in i x \<longrightarrow> scalar_in env v x"
    using from_interval_sound' [OF ok, where env = env] by blast
  moreover have "narrow_scalar a b = Inr (v\<lparr>sv_failure := failure_max (sv_failure a) (sv_failure b)\<rparr>)"
    using Some v(1) assms(3) by (simp add: narrow_scalar_def ensure_same_type_def)
  ultimately show ?thesis using i by (auto simp: scalar_in_def [of env a] scalar_in_def [of env b])
qed

theorem narrow_scalar_sound_witness:
  "\<exists>e. narrow_scalar seven (one_to 3) = Inl e"
  using narrow_scalar_sound [OF seven_ok(1) one_to_ok(1), of "\<lambda>_. 0"]
  by (simp add: seven_def one_to_def interval_in_def interval_exact_def)

text \<open>
  C22. Wrapping an integer to a type is the conversion to a two's complement word of its width
  and back, signed or unsigned.
\<close>

theorem wrap_integer_is_word:
  "wrap_integer U32 x = uint (word_of_int x :: 32 word) \<and>
   wrap_integer U64 x = uint (word_of_int x :: 64 word) \<and>
   wrap_integer I32 x = sint (word_of_int x :: 32 word) \<and>
   wrap_integer I64 x = sint (word_of_int x :: 64 word)"
  using wrap_integer_word by blast

text \<open>The meaning of a comparison fact; \<open>lens\<close> gives the lengths of slices.\<close>

definition fact_eval :: "(value_id \<Rightarrow> int) \<Rightarrow> (value_id \<Rightarrow> int) \<Rightarrow> contract_fact_affine_expression \<Rightarrow> int" where
  "fact_eval env lens e = fact_constant e +
     (\<Sum>(t, c)\<leftarrow>fact_terms e. c * (case t of FactValue v \<Rightarrow> env v | FactSliceLength v \<Rightarrow> lens v))"

definition operator_holds :: "rstring \<Rightarrow> int \<Rightarrow> int \<Rightarrow> bool" where
  "operator_holds op a b \<longleftrightarrow>
     (op = lit ''<'' \<longrightarrow> a < b) \<and> (op = lit ''<='' \<longrightarrow> a \<le> b) \<and> (op = lit ''>'' \<longrightarrow> a > b) \<and>
     (op = lit ''>='' \<longrightarrow> a \<ge> b) \<and> (op = lit ''=='' \<longrightarrow> a = b)"

fun fact_holds :: "(value_id \<Rightarrow> int) \<Rightarrow> (value_id \<Rightarrow> int) \<Rightarrow> contract_fact_predicate \<Rightarrow> bool" where
  "fact_holds env lens (Comparison op left right) =
     operator_holds op (fact_eval env lens left) (fact_eval env lens right)"
| "fact_holds env lens _ = True"

lemma value_offset_eval: "value_offset e v = Some k \<Longrightarrow> fact_eval env lens e = env v + k"
  by (auto simp: value_offset_def fact_eval_def split: list.splits if_splits)

lemma fact_constant_of_eval: "fact_constant_of e = Some k \<Longrightarrow> fact_eval env lens e = k"
  by (auto simp: fact_constant_of_def fact_eval_def split: if_splits)

lemma reverse_operator_holds:
  "reverse_operator op = Some op' \<Longrightarrow> operator_holds op a b \<Longrightarrow> operator_holds op' b a"
  by (auto simp: reverse_operator_def operator_holds_def lit_def split: if_splits)

lemma predicate_bound_holds:
  assumes "predicate_bound p v = Some (op, k)" "fact_holds env lens p"
  shows "operator_holds op (env v) k"
proof -
  obtain op0 left right where p: "p = Comparison op0 left right"
    using assms(1) by (cases p) (auto simp: predicate_bound_def)
  have shift: "operator_holds o' (x + d) c \<longleftrightarrow> operator_holds o' x (c - d)"
    "operator_holds o' c (x + d) \<longleftrightarrow> operator_holds o' (c - d) x" for o' x d c
    by (auto simp: operator_holds_def)
  have holds: "operator_holds op0 (fact_eval env lens left) (fact_eval env lens right)"
    using assms(2) p by simp
  consider (forward) d c where "value_offset left v = Some d" "fact_constant_of right = Some c"
      "op = op0" "k = c - d"
    | (backward) c d where "fact_constant_of left = Some c" "value_offset right v = Some d"
      "reverse_operator op0 = Some op" "k = c - d"
    using assms(1) by (auto simp: p predicate_bound_def split: option.splits)
  then show ?thesis
  proof cases
    case forward
    with holds show ?thesis by (simp add: value_offset_eval fact_constant_of_eval shift)
  next
    case backward
    with reverse_operator_holds [OF backward(3) holds] show ?thesis
      by (simp add: value_offset_eval fact_constant_of_eval shift)
  qed
qed

text \<open>
  C23. The interval derived from a contract's comparisons contains every value that satisfies
  them and the type, and it is a non-empty part of the type's range.
\<close>

theorem contract_scalar_interval_sound:
  assumes "contract_scalar_interval ps v ty = Some i" "\<forall>p \<in> set ps. fact_holds env lens p"
    "contains_i128 ty (env v)"
  shows "interval_in i (env v) \<and> interval_ok ty i"
proof -
  let ?step = "\<lambda>p. apply_bound p v"
  have inv: "lower' \<le> env v \<and> env v \<le> upper' \<and> minimum ty \<le> lower' \<and> upper' \<le> maximum ty"
    if "fold ?step ps (lower, upper, c) = (lower', upper', c')" "\<forall>p \<in> set ps. fact_holds env lens p"
      "lower \<le> env v \<and> env v \<le> upper \<and> minimum ty \<le> lower \<and> upper \<le> maximum ty"
    for ps lower upper c lower' upper' c'
    using that
  proof (induction ps arbitrary: lower upper c)
    case Nil
    then show ?case by simp
  next
    case (Cons p ps)
    obtain l1 u1 c1 where step: "?step p (lower, upper, c) = (l1, u1, c1)"
      by (cases "?step p (lower, upper, c)")
    have "l1 \<le> env v \<and> env v \<le> u1 \<and> minimum ty \<le> l1 \<and> u1 \<le> maximum ty"
    proof (cases "predicate_bound p v")
      case None
      with step Cons.prems(3) show ?thesis by (simp add: apply_bound_def)
    next
      case (Some b)
      obtain op k where b: "b = (op, k)" by (cases b)
      with Some Cons.prems(2) have "operator_holds op (env v) k"
        using predicate_bound_holds [of p v op k env lens] by simp
      with step Cons.prems(3) Some b show ?thesis
        by (auto simp: apply_bound_def operator_holds_def split: if_splits)
    qed
    with Cons.IH [of l1 u1 c1] Cons.prems(1,2) step show ?case by simp
  qed
  obtain l u c where f: "fold ?step ps (minimum ty, maximum ty, False) = (l, u, c)"
    by (cases "fold ?step ps (minimum ty, maximum ty, False)")
  then have "i = \<lparr>iv_lower = l, iv_upper = u\<rparr>" "l \<le> u"
    using assms(1) by (auto simp: contract_scalar_interval_def interval_new_def split: if_splits)
  with inv [OF f assms(2)] assms(3) show ?thesis
    by (simp add: interval_in_def interval_ok_def contains_i128_def)
qed

definition at_least_two :: contract_fact_predicate where
  "at_least_two = Comparison (lit ''<='') \<lparr>fact_terms = [], fact_constant = 3\<rparr>
     \<lparr>fact_terms = [(FactValue 0, 1)], fact_constant = 1\<rparr>"

theorem contract_scalar_interval_sound_witness:
  "interval_in \<lparr>iv_lower = 2, iv_upper = 2 ^ 32 - 1\<rparr> 5 \<and>
   interval_ok U32 \<lparr>iv_lower = 2, iv_upper = 2 ^ 32 - 1\<rparr>"
proof (rule contract_scalar_interval_sound [where env = "\<lambda>_. 5" and lens = "\<lambda>_. 0"])
  show "contract_scalar_interval [at_least_two] 0 U32 = Some \<lparr>iv_lower = 2, iv_upper = 2 ^ 32 - 1\<rparr>"
    by (simp add: contract_scalar_interval_def apply_bound_def predicate_bound_def at_least_two_def
        value_offset_def fact_constant_of_def reverse_operator_def interval_new_def lit_def)
qed (simp_all add: at_least_two_def fact_eval_def operator_holds_def lit_def contains_i128_def)


end
