(* ===== verification/Profile_Wire.thy ===== *)
theory Profile_Wire
  imports Prelude "HOL-Library.Word"
begin

text \<open>
  The byte level of profile files: the error type of \<^verbatim>\<open>src/src/profile/mod.rs\<close>, the
  cursors \<open>WireCursor\<close> (\<^verbatim>\<open>format.rs\<close>) and \<open>IdentityCursor\<close> (\<^verbatim>\<open>identity.rs\<close>), which are the
  same code, and the contract of a codec as a locale. A cursor is the slice it has not read
  yet; the offset it keeps cannot overflow, since a slice is shorter than \<open>isize::MAX\<close> and the
  lengths read are of type \<open>u32\<close>.
\<close>

type_synonym byte = "8 word"
type_synonym bytes = "byte list"

section \<open>Errors\<close>

datatype (plugins only: code size) ck_profile_error =
    UnexpectedMagic
  | UnsupportedSchema rstring "32 word" "32 word"
  | DigestMismatch
  | Truncated
  | ResourceLimit rstring
  | LengthOverflow
  | UnknownField rstring "16 word"
  | NonCanonicalOrder rstring
  | MissingField rstring "16 word"
  | InvalidValue rstring
  | InvalidUtf8
  | DuplicateRunIdentity
  | DuplicateShardContent
  | IdentityMismatch rstring rstring rstring
  | SiteTableMismatch
  | CounterTableMismatch
  | Application rstring
  | MappingTransfer rstring
  | ArithmeticOverflow rstring
  | SiteIdCollision
  | SymlinkInput rstring
  | UnsupportedMergeInput rstring
  | ProfileIo rstring rstring

type_synonym 'a profile_result = "ck_profile_error + 'a"
type_synonym 'a reader = "bytes \<Rightarrow> ('a \<times> bytes) profile_result"

section \<open>Byte strings\<close>

text \<open>\<open>byte_lit\<close> is a byte literal \<open>b"..."\<close>.\<close>

definition byte_lit :: "string \<Rightarrow> bytes" where
  "byte_lit s = map of_char s"

text \<open>A \<open>String\<close> of a profile is its UTF-8 bytes; \<open>utf8_valid\<close> is what
  \<open>std::str::from_utf8\<close> accepts: no overlong form, no surrogate, nothing above U+10FFFF.\<close>

definition continuation :: "byte \<Rightarrow> bool" where
  "continuation b = (0x80 \<le> b \<and> b \<le> 0xBF)"

fun utf8_valid :: "bytes \<Rightarrow> bool" where
  "utf8_valid [] = True"
| "utf8_valid (b # bs) =
     (if b < 0x80 then utf8_valid bs
      else if 0xC2 \<le> b \<and> b \<le> 0xDF then
        (case bs of c # bs \<Rightarrow> continuation c \<and> utf8_valid bs | _ \<Rightarrow> False)
      else if 0xE0 \<le> b \<and> b \<le> 0xEF then
        (case bs of c # d # bs \<Rightarrow>
             continuation c \<and> (b = 0xE0 \<longrightarrow> 0xA0 \<le> c) \<and> (b = 0xED \<longrightarrow> c \<le> 0x9F) \<and>
             continuation d \<and> utf8_valid bs
         | _ \<Rightarrow> False)
      else if 0xF0 \<le> b \<and> b \<le> 0xF4 then
        (case bs of c # d # e # bs \<Rightarrow>
             continuation c \<and> (b = 0xF0 \<longrightarrow> 0x90 \<le> c) \<and> (b = 0xF4 \<longrightarrow> c \<le> 0x8F) \<and>
             continuation d \<and> continuation e \<and> utf8_valid bs
         | _ \<Rightarrow> False)
      else False)"

section \<open>Big-endian numbers\<close>

primrec be_bytes :: "nat \<Rightarrow> nat \<Rightarrow> bytes" where
  "be_bytes 0 n = []"
| "be_bytes (Suc k) n = be_bytes k (n div 256) @ [word_of_nat n]"

definition be_value :: "bytes \<Rightarrow> nat" where
  "be_value bs = foldl (\<lambda>n b. n * 256 + unat b) 0 bs"

lemma length_be_bytes [simp]: "length (be_bytes k n) = k"
  by (induction k arbitrary: n) simp_all

lemma be_value_snoc [simp]: "be_value (bs @ [b]) = be_value bs * 256 + unat b"
  by (simp add: be_value_def)

lemma be_value_bytes: "be_value (be_bytes k n) = n mod 256 ^ k"
proof (induction k arbitrary: n)
  case 0
  then show ?case by (simp add: be_value_def)
next
  case (Suc k)
  have "n mod 256 ^ Suc k = 256 * (n div 256 mod 256 ^ k) + n mod 256"
    by (simp add: mod_mult2_eq)
  with Suc show ?case by (simp add: unsigned_of_nat mult.commute take_bit_eq_mod)
qed

lemma unat_byte_less: "unat (b :: byte) < 256"
  using unsigned_less [of b] by simp

lemma be_bytes_value: "length bs = k \<Longrightarrow> be_bytes k (be_value bs) = bs"
proof (induction k arbitrary: bs)
  case 0
  then show ?case by simp
next
  case (Suc k)
  then obtain cs b where bs: "bs = cs @ [b]" "length cs = k"
    by (metis length_Suc_conv_rev)
  have "(be_value cs * 256 + unat b) div 256 = be_value cs"
    using unat_byte_less [of b] by simp
  moreover have "word_of_nat (be_value cs * 256 + unat b) = b"
    proof -
    have "(word_of_nat (n * 256 + m) :: byte) = word_of_nat m" for n m
      by (simp only: word_of_nat_eq_iff) (simp add: take_bit_eq_mod)
    from this [of "be_value cs" "unat b"] show ?thesis by simp
  qed
  ultimately show ?case using Suc.IH [OF bs(2)] bs(1) by simp
qed

lemma be_value_less: "be_value bs < 256 ^ length bs"
proof (induction bs rule: rev_induct)
  case Nil
  then show ?case by (simp add: be_value_def)
next
  case (snoc b bs)
  have "be_value bs * 256 + unat b < (be_value bs + 1) * 256" using unat_byte_less [of b] by simp
  also have "\<dots> \<le> 256 ^ length bs * 256" using snoc by (intro mult_right_mono) auto
  finally show ?case by (simp add: mult.commute)
qed

definition word_bytes :: "'a::len word \<Rightarrow> bytes" where
  "word_bytes w = be_bytes (LENGTH('a) div 8) (unat w)"

definition word_value :: "bytes \<Rightarrow> 'a::len word" where
  "word_value bs = word_of_nat (be_value bs)"

lemma length_word_bytes [simp]: "length (word_bytes (w :: 'a::len word)) = LENGTH('a) div 8"
  by (simp add: word_bytes_def)

lemma word_value_bytes:
  assumes "LENGTH('a) = 8 * k"
  shows "word_value (word_bytes (w :: 'a::len word)) = w"
proof -
  have "(256 :: nat) ^ k = 2 ^ LENGTH('a)" using assms by (simp add: power_mult)
  moreover have "unat w < 2 ^ LENGTH('a)" by (rule unsigned_less)
  ultimately show ?thesis using assms by (simp add: word_value_def word_bytes_def be_value_bytes)
qed

lemma word_bytes_value:
  assumes "LENGTH('a) = 8 * k" "length bs = k"
  shows "word_bytes (word_value bs :: 'a::len word) = bs"
proof -
  have "(256 :: nat) ^ k = 2 ^ LENGTH('a)" using assms(1) by (simp add: power_mult)
  with be_value_less [of bs] assms(2) have "be_value bs < 2 ^ LENGTH('a)" by simp
  then have "unat (word_of_nat (be_value bs) :: 'a word) = be_value bs"
    by (simp add: unsigned_of_nat take_bit_nat_eq_self)
  with assms show ?thesis by (simp add: word_bytes_def word_value_def be_bytes_value)
qed

section \<open>The cursor\<close>

definition read_bind :: "'a reader \<Rightarrow> ('a \<Rightarrow> 'b reader) \<Rightarrow> 'b reader" where
  "read_bind r f cursor = result_bind (r cursor) (\<lambda>(x, cursor). f x cursor)"

definition read_return :: "'a \<Rightarrow> 'a reader" where
  "read_return x cursor = Inr (x, cursor)"

definition read_fail :: "ck_profile_error \<Rightarrow> 'a reader" where
  "read_fail e cursor = Inl e"

definition read_exact :: "nat \<Rightarrow> bytes reader" where
  "read_exact n cursor =
     (if n \<le> length cursor then Inr (take n cursor, drop n cursor) else Inl Truncated)"

definition read_u8 :: "byte reader" where
  "read_u8 = read_bind (read_exact 1) (\<lambda>bs. read_return (hd bs))"

definition decode_bool :: "rstring \<Rightarrow> byte \<Rightarrow> bool profile_result" where
  "decode_bool field value =
     (if value = 0 then Inr False else if value = 1 then Inr True else Inl (InvalidValue field))"

definition read_result :: "'a profile_result \<Rightarrow> 'a reader" where
  "read_result r = (case r of Inl e \<Rightarrow> read_fail e | Inr x \<Rightarrow> read_return x)"

definition read_tag :: "(byte \<Rightarrow> 'a profile_result) \<Rightarrow> 'a reader" where
  "read_tag decode = read_bind read_u8 (\<lambda>b. read_result (decode b))"

definition read_bool :: "rstring \<Rightarrow> bool reader" where
  "read_bool field = read_tag (decode_bool field)"

definition read_u16 :: "16 word reader" where
  "read_u16 = read_bind (read_exact 2) (\<lambda>bs. read_return (word_value bs))"

definition read_u32 :: "32 word reader" where
  "read_u32 = read_bind (read_exact 4) (\<lambda>bs. read_return (word_value bs))"

definition read_u64 :: "64 word reader" where
  "read_u64 = read_bind (read_exact 8) (\<lambda>bs. read_return (word_value bs))"

text \<open>\<open>i64\<close> values are read and written as their 64 bits.\<close>

definition read_i64 :: "64 word reader" where
  "read_i64 = read_bind (read_exact 8) (\<lambda>bs. read_return (word_value bs))"

fun read_times :: "nat \<Rightarrow> 'a reader \<Rightarrow> 'a list reader" where
  "read_times 0 r = read_return []"
| "read_times (Suc n) r = read_bind r (\<lambda>x. read_bind (read_times n r) (\<lambda>xs. read_return (x # xs)))"

definition bool_byte :: "bool \<Rightarrow> byte" where
  "bool_byte b = (if b then 1 else 0)"

lemma read_bind_Inr [simp]:
  "read_bind r f cursor = Inr z \<longleftrightarrow> (\<exists>x cursor'. r cursor = Inr (x, cursor') \<and> f x cursor' = Inr z)"
  by (auto simp: read_bind_def)

lemma read_simple [simp]:
  "read_return x cursor = Inr z \<longleftrightarrow> z = (x, cursor)" "read_fail e cursor \<noteq> Inr z"
  "read_result (Inl e) = read_fail e" "read_result (Inr x) = read_return x"
  by (auto simp: read_return_def read_fail_def read_result_def)

lemma read_guard [simp]:
  "(if c then read_fail e else r) cursor = Inr z \<longleftrightarrow> \<not> c \<and> r cursor = Inr z"
  by simp

lemma read_if:
  "(if c then r else r') cursor = Inr z \<longleftrightarrow> c \<and> r cursor = Inr z \<or> \<not> c \<and> r' cursor = Inr z"
  by simp

section \<open>Codecs\<close>

text \<open>
  The contract of a format: the decoder accepts exactly the encodings of valid values, and
  leaves the rest of the input. So decoding inverts encoding, encodings are unique, and nothing
  but an encoding is accepted.
\<close>

locale codec =
  fixes encode :: "'a \<Rightarrow> bytes"
    and decode :: "'a reader"
    and valid :: "'a \<Rightarrow> bool"
  assumes decode_iff: "decode cursor = Inr (x, rest) \<longleftrightarrow> valid x \<and> cursor = encode x @ rest"
begin

lemma decode_encode: "valid x \<Longrightarrow> decode (encode x @ rest) = Inr (x, rest)"
  by (simp add: decode_iff)

lemma encode_unique: "valid x \<Longrightarrow> valid y \<Longrightarrow> encode x @ r = encode y @ s \<Longrightarrow> x = y \<and> r = s"
  by (metis Inr_inject Pair_inject decode_encode)

text \<open>A counted list of items.\<close>

lemma read_times_iff:
  "read_times n decode cursor = Inr (xs, rest) \<longleftrightarrow>
     length xs = n \<and> (\<forall>x \<in> set xs. valid x) \<and> cursor = concat (map encode xs) @ rest"
proof (induction n arbitrary: cursor xs)
  case 0
  then show ?case by auto
next
  case (Suc n)
  show ?case
  proof (cases xs)
    case Nil
    then show ?thesis by simp
  next
    case (Cons y ys)
    have "read_times (Suc n) decode cursor = Inr (xs, rest) \<longleftrightarrow>
        (\<exists>c. valid y \<and> cursor = encode y @ c \<and> read_times n decode c = Inr (ys, rest))"
      using Cons by (auto simp: decode_iff)
    then show ?thesis using Suc.IH Cons by auto
  qed
qed

end

text \<open>Counted lists are codecs again, for a fixed count.\<close>

lemma codec_times:
  assumes "codec enc dec ok"
  shows "codec (\<lambda>xs. concat (map enc xs)) (read_times n dec)
    (\<lambda>xs. length xs = n \<and> (\<forall>x \<in> set xs. ok x))"
  by (rule codec.intro) (simp only: codec.read_times_iff [OF assms] conj_assoc)

lemma read_exact_iff:
  "read_exact n cursor = Inr (bs, rest) \<longleftrightarrow> length bs = n \<and> cursor = bs @ rest"
  by (auto simp: read_exact_def)

interpretation array: codec "\<lambda>bs. bs" "read_exact n" "\<lambda>bs. length bs = n" for n
  by unfold_locales (rule read_exact_iff)

interpretation u8: codec "\<lambda>b. [b]" read_u8 "\<lambda>_. True"
  by unfold_locales (auto simp: read_u8_def array.decode_iff length_Suc_conv)

lemma word_reader_iff:
  assumes "LENGTH('a) = 8 * k"
  shows "read_bind (read_exact k) (\<lambda>bs. read_return (word_value bs)) cursor = Inr (w :: 'a::len word, rest) \<longleftrightarrow>
    cursor = word_bytes w @ rest"
  using word_bytes_value [OF assms] word_value_bytes [OF assms, of w] assms
  by (auto simp: array.decode_iff)

interpretation u16: codec word_bytes read_u16 "\<lambda>_. True"
  by (rule codec.intro) (simp add: read_u16_def word_reader_iff [where k = 2] del: read_bind_Inr)

interpretation u32: codec word_bytes read_u32 "\<lambda>_. True"
  by (rule codec.intro) (simp add: read_u32_def word_reader_iff [where k = 4] del: read_bind_Inr)

interpretation u64: codec word_bytes read_u64 "\<lambda>_. True"
  by (rule codec.intro) (simp add: read_u64_def word_reader_iff [where k = 8] del: read_bind_Inr)

interpretation i64: codec word_bytes read_i64 "\<lambda>_. True"
  by (rule codec.intro) (simp add: read_i64_def word_reader_iff [where k = 8] del: read_bind_Inr)

lemma decode_bool_iff: "decode_bool field b = Inr x \<longleftrightarrow> b = bool_byte x"
  by (auto simp: decode_bool_def bool_byte_def)

lemma read_result_iff: "read_result r cursor = Inr (x, rest) \<longleftrightarrow> r = Inr x \<and> cursor = rest"
  by (cases r) (auto simp: read_result_def read_return_def read_fail_def)

lemma codec_tag:
  assumes "\<And>b x. decode b = Inr x \<longleftrightarrow> b = tag x"
  shows "codec (\<lambda>x. [tag x]) (read_tag decode) (\<lambda>_. True)"
  by (rule codec.intro) (auto simp: read_tag_def u8.decode_iff read_result_iff assms)

interpretation bool: codec "\<lambda>b. [bool_byte b]" "read_bool field" "\<lambda>_. True" for field
  unfolding read_bool_def by (rule codec_tag) (rule decode_bool_iff)

lemmas read_iffs = array.decode_iff u8.decode_iff u16.decode_iff u32.decode_iff u64.decode_iff
  i64.decode_iff bool.decode_iff read_result_iff

end
