(* ===== verification/Profile_Identity.thy ===== *)
theory Profile_Identity
  imports Profile_Wire
begin

text \<open>
  The identity of a workload profile (\<^verbatim>\<open>src/src/profile/identity.rs\<close>): what a profile must
  agree on with the build that uses it, its validation, its canonical bytes and their decoder,
  and the comparison that names the first field two identities differ in. Digests and other
  fixed arrays are byte lists; \<open>identity_typed\<close> states their lengths, and that strings are
  UTF-8, which the Rust types guarantee. SHA-256 is the parameter \<open>sha\<close>, and \<open>debug_str\<close> is the
  standard library's \<open>{:?}\<close> of a string.
\<close>

section \<open>Constants and data\<close>

definition ck_profile_format_schema :: "32 word" where "ck_profile_format_schema = 1"
definition ck_profile_contract_schema :: "32 word" where "ck_profile_contract_schema = 1"
definition ck_profile_inspection_schema :: "32 word" where "ck_profile_inspection_schema = 1"
definition ck_profile_max_sites :: "32 word" where "ck_profile_max_sites = 1048576"
definition ck_profile_max_shards :: "32 word" where "ck_profile_max_shards = 4096"
definition ck_profile_histogram_buckets :: byte where "ck_profile_histogram_buckets = 16"
definition ck_profile_max_candidates :: byte where "ck_profile_max_candidates = 8"
definition ck_profile_max_bytes :: "64 word" where "ck_profile_max_bytes = 512 * 1024 * 1024"

record ck_compiler_profile_identity =
  package_version :: bytes
  source_identity :: bytes
  profile_runtime_identity :: bytes

record ck_module_profile_identity =
  semantic_graph_digest :: bytes
  pre_profile_kir_digest :: bytes
  site_table_digest :: bytes

record ck_profile_schema_identity =
  schema_language :: "32 word"
  schema_native_abi :: "32 word"
  schema_runtime_abi :: "32 word"
  schema_kir :: "32 word"
  schema_proof :: "32 word"
  schema_cost_model :: "32 word"
  schema_target_profile :: "32 word"
  schema_llvm_bridge :: "32 word"
  schema_cache :: "32 word"

datatype (plugins only: code size) ck_profile_endianness = Little | Big

datatype (plugins only: code size) ck_profile_object_format = Elf | MachO | Coff

datatype (plugins only: code size) ck_profile_topology = NativeExecutable | NativeLibrary

datatype (plugins only: code size) ck_profile_optimization_family = O2 | O3

datatype (plugins only: code size) ck_profile_cpu_policy = CpuBaseline | CpuNative | CpuMultiversion

record ck_profile_target_identity =
  triple :: bytes
  pointer_width :: byte
  endianness :: ck_profile_endianness
  object_format :: ck_profile_object_format
  os_abi :: bytes
  target_set_digest :: bytes

record ck_profile_modes =
  overflow_checked :: bool
  bounds_checked :: bool
  strict_float :: bool
  sanitizer :: bool
  topology :: ck_profile_topology
  optimization_family :: ck_profile_optimization_family
  cpu_policy :: ck_profile_cpu_policy

record ck_profile_contract =
  format_schema :: "32 word"
  contract_schema :: "32 word"
  inspection_schema :: "32 word"
  minimum_decision_observations :: "64 word"
  branch_dominance_basis_points :: "16 word"
  histogram_dominance_basis_points :: "16 word"
  cold_basis_points :: "16 word"
  hot_work_coverage_basis_points :: "16 word"
  minimum_root_work_basis_points :: "16 word"
  minimum_variant_benefit_basis_points :: "16 word"
  minimum_absolute_cost_units :: "32 word"
  maximum_enhanced_variants :: byte
  maximum_additional_kir_basis_points :: "16 word"
  maximum_sites :: "32 word"
  maximum_shards :: "32 word"
  histogram_buckets :: byte
  maximum_candidate_constants :: byte
  maximum_profile_bytes :: "64 word"

definition schema1 :: ck_profile_contract where
  "schema1 = \<lparr>
     format_schema = ck_profile_format_schema,
     contract_schema = ck_profile_contract_schema,
     inspection_schema = ck_profile_inspection_schema,
     minimum_decision_observations = 128,
     branch_dominance_basis_points = 9000,
     histogram_dominance_basis_points = 8500,
     cold_basis_points = 100,
     hot_work_coverage_basis_points = 9000,
     minimum_root_work_basis_points = 100,
     minimum_variant_benefit_basis_points = 1000,
     minimum_absolute_cost_units = 2,
     maximum_enhanced_variants = 2,
     maximum_additional_kir_basis_points = 10000,
     maximum_sites = ck_profile_max_sites,
     maximum_shards = ck_profile_max_shards,
     histogram_buckets = ck_profile_histogram_buckets,
     maximum_candidate_constants = ck_profile_max_candidates,
     maximum_profile_bytes = ck_profile_max_bytes\<rparr>"

record ck_profile_identity =
  compiler :: ck_compiler_profile_identity
  module_identity :: ck_module_profile_identity
  schemas :: ck_profile_schema_identity
  target :: ck_profile_target_identity
  modes :: ck_profile_modes
  contract :: ck_profile_contract

section \<open>Tags\<close>

fun endianness_tag :: "ck_profile_endianness \<Rightarrow> byte" where
  "endianness_tag Little = 1"
| "endianness_tag Big = 2"

definition decode_endianness :: "byte \<Rightarrow> ck_profile_endianness profile_result" where
  "decode_endianness value =
     (if value = 1 then Inr Little else if value = 2 then Inr Big
      else Inl (InvalidValue (lit ''target.endianness'')))"

fun object_format_tag :: "ck_profile_object_format \<Rightarrow> byte" where
  "object_format_tag Elf = 1"
| "object_format_tag MachO = 2"
| "object_format_tag Coff = 3"

definition decode_object_format :: "byte \<Rightarrow> ck_profile_object_format profile_result" where
  "decode_object_format value =
     (if value = 1 then Inr Elf else if value = 2 then Inr MachO else if value = 3 then Inr Coff
      else Inl (InvalidValue (lit ''target.objectFormat'')))"

fun topology_tag :: "ck_profile_topology \<Rightarrow> byte" where
  "topology_tag NativeExecutable = 1"
| "topology_tag NativeLibrary = 2"

definition decode_topology :: "byte \<Rightarrow> ck_profile_topology profile_result" where
  "decode_topology value =
     (if value = 1 then Inr NativeExecutable else if value = 2 then Inr NativeLibrary
      else Inl (InvalidValue (lit ''modes.topology'')))"

fun optimization_tag :: "ck_profile_optimization_family \<Rightarrow> byte" where
  "optimization_tag O2 = 2"
| "optimization_tag O3 = 3"

definition decode_optimization :: "byte \<Rightarrow> ck_profile_optimization_family profile_result" where
  "decode_optimization value =
     (if value = 2 then Inr O2 else if value = 3 then Inr O3
      else Inl (InvalidValue (lit ''modes.optimizationFamily'')))"

fun cpu_policy_tag :: "ck_profile_cpu_policy \<Rightarrow> byte" where
  "cpu_policy_tag CpuBaseline = 1"
| "cpu_policy_tag CpuNative = 2"
| "cpu_policy_tag CpuMultiversion = 3"

definition decode_cpu_policy :: "byte \<Rightarrow> ck_profile_cpu_policy profile_result" where
  "decode_cpu_policy value =
     (if value = 1 then Inr CpuBaseline else if value = 2 then Inr CpuNative else if value = 3 then Inr CpuMultiversion
      else Inl (InvalidValue (lit ''modes.cpuPolicy'')))"

section \<open>Validation\<close>

definition validate_string :: "bytes \<Rightarrow> rstring \<Rightarrow> unit profile_result" where
  "validate_string value field =
     (if value = [] \<or> 4096 < length value \<or> 0 \<in> set value then Inl (InvalidValue field) else Inr ())"

definition validate :: "ck_profile_identity \<Rightarrow> unit profile_result" where
  "validate identity =
     result_bind (validate_string (package_version (compiler identity)) (lit ''compiler.packageVersion'')) (\<lambda>_.
     result_bind (validate_string (triple (target identity)) (lit ''target.triple'')) (\<lambda>_.
     result_bind (validate_string (os_abi (target identity)) (lit ''target.osAbi'')) (\<lambda>_.
     if pointer_width (target identity) \<noteq> 32 \<and> pointer_width (target identity) \<noteq> 64
     then Inl (InvalidValue (lit ''target.pointerWidth''))
     else if sanitizer (modes identity) then Inl (InvalidValue (lit ''modes.sanitizer''))
     else if contract identity \<noteq> schema1 then Inl (InvalidValue (lit ''contract''))
     else Inr ())))"

section \<open>Encoding\<close>

definition push_string :: "bytes \<Rightarrow> bytes \<Rightarrow> bytes profile_result" where
  "push_string output value =
     result_bind (validate_string value (lit ''identity.string'')) (\<lambda>_.
     if 2 ^ 32 \<le> length value then Inl LengthOverflow
     else Inr (output @ word_bytes (word_of_nat (length value) :: 32 word) @ value))"

definition encode_contract :: "ck_profile_contract \<Rightarrow> bytes" where
  "encode_contract c =
     word_bytes (format_schema c) @
     word_bytes (contract_schema c) @
     word_bytes (inspection_schema c) @
     word_bytes (minimum_decision_observations c) @
     word_bytes (branch_dominance_basis_points c) @
     word_bytes (histogram_dominance_basis_points c) @
     word_bytes (cold_basis_points c) @
     word_bytes (hot_work_coverage_basis_points c) @
     word_bytes (minimum_root_work_basis_points c) @
     word_bytes (minimum_variant_benefit_basis_points c) @
     word_bytes (minimum_absolute_cost_units c) @
     [maximum_enhanced_variants c] @
     word_bytes (maximum_additional_kir_basis_points c) @
     word_bytes (maximum_sites c) @
     word_bytes (maximum_shards c) @
     [histogram_buckets c] @
     [maximum_candidate_constants c] @
     word_bytes (maximum_profile_bytes c)"

definition encode_schemas :: "ck_profile_schema_identity \<Rightarrow> bytes" where
  "encode_schemas s = concat (map word_bytes
     [schema_language s,
      schema_native_abi s,
      schema_runtime_abi s,
      schema_kir s,
      schema_proof s,
      schema_cost_model s,
      schema_target_profile s,
      schema_llvm_bridge s,
      schema_cache s])"

definition encode_modes :: "ck_profile_modes \<Rightarrow> bytes" where
  "encode_modes m =
     [bool_byte (overflow_checked m), bool_byte (bounds_checked m), bool_byte (strict_float m),
      bool_byte (sanitizer m), topology_tag (topology m), optimization_tag (optimization_family m),
      cpu_policy_tag (cpu_policy m)]"

definition canonical_bytes :: "ck_profile_identity \<Rightarrow> bytes profile_result" where
  "canonical_bytes identity =
     result_bind (validate identity) (\<lambda>_.
     result_bind (push_string (byte_lit ''CKIDENT1'') (package_version (compiler identity))) (\<lambda>output.
     result_bind (push_string
        (output @ source_identity (compiler identity) @ profile_runtime_identity (compiler identity) @
         semantic_graph_digest (module_identity identity) @
         pre_profile_kir_digest (module_identity identity) @
         site_table_digest (module_identity identity) @
         encode_schemas (schemas identity))
        (triple (target identity))) (\<lambda>output.
     result_bind (push_string
        (output @ [pointer_width (target identity), endianness_tag (endianness (target identity)),
                   object_format_tag (object_format (target identity))])
        (os_abi (target identity))) (\<lambda>output.
     Inr (output @ target_set_digest (target identity) @ encode_modes (modes identity) @
          encode_contract (contract identity))))))"

definition identity_digest :: "(bytes \<Rightarrow> bytes) \<Rightarrow> ck_profile_identity \<Rightarrow> bytes profile_result" where
  "identity_digest sha identity =
     result_bind (canonical_bytes identity) (\<lambda>canonical.
     Inr (sha (byte_lit ''CK-PROFILE-IDENTITY'' @ [0] @ canonical)))"

text \<open>\<open>hex\<close> of \<^verbatim>\<open>mod.rs\<close>: two lower-case digits for each byte.\<close>

definition hex_digit :: "nat \<Rightarrow> rchar" where
  "hex_digit n = lit ''0123456789abcdef'' ! n"

fun hex :: "bytes \<Rightarrow> rstring" where
  "hex [] = []"
| "hex (b # bs) = hex_digit (unat (drop_bit 4 b)) # hex_digit (unat (and b 15)) # hex bs"

definition digest_hex :: "(bytes \<Rightarrow> bytes) \<Rightarrow> ck_profile_identity \<Rightarrow> rstring profile_result" where
  "digest_hex sha identity = result_bind (identity_digest sha identity) (\<lambda>d. Inr (hex d))"

section \<open>Decoding\<close>

definition read_string :: "bytes reader" where
  "read_string =
     read_bind read_u32 (\<lambda>size.
     if 4096 < unat size then read_fail (ResourceLimit (lit ''identity string''))
     else read_bind (read_exact (unat size)) (\<lambda>value.
     if \<not> utf8_valid value then read_fail InvalidUtf8
     else read_bind (read_result (validate_string value (lit ''identity.string''))) (\<lambda>_.
     read_return value)))"

definition read_compiler :: "ck_compiler_profile_identity reader" where
  "read_compiler =
     read_bind read_string (\<lambda>version. read_bind (read_exact 32) (\<lambda>source.
     read_bind (read_exact 32) (\<lambda>runtime.
     read_return \<lparr>package_version = version, source_identity = source,
                  profile_runtime_identity = runtime\<rparr>)))"

definition read_module :: "ck_module_profile_identity reader" where
  "read_module =
     read_bind (read_exact 32) (\<lambda>graph. read_bind (read_exact 32) (\<lambda>kir.
     read_bind (read_exact 32) (\<lambda>sites.
     read_return \<lparr>semantic_graph_digest = graph, pre_profile_kir_digest = kir,
                  site_table_digest = sites\<rparr>)))"

definition read_schemas :: "ck_profile_schema_identity reader" where
  "read_schemas =
     read_bind read_u32 (\<lambda>x1.
     read_bind read_u32 (\<lambda>x2.
     read_bind read_u32 (\<lambda>x3.
     read_bind read_u32 (\<lambda>x4.
     read_bind read_u32 (\<lambda>x5.
     read_bind read_u32 (\<lambda>x6.
     read_bind read_u32 (\<lambda>x7.
     read_bind read_u32 (\<lambda>x8.
     read_bind read_u32 (\<lambda>x9.
     read_return \<lparr>schema_language = x1,
       schema_native_abi = x2,
       schema_runtime_abi = x3,
       schema_kir = x4,
       schema_proof = x5,
       schema_cost_model = x6,
       schema_target_profile = x7,
       schema_llvm_bridge = x8,
       schema_cache = x9\<rparr>)))))))))"

definition read_target :: "ck_profile_target_identity reader" where
  "read_target =
     read_bind read_string (\<lambda>x1.
     read_bind read_u8 (\<lambda>x2.
     read_bind (read_tag decode_endianness) (\<lambda>x3.
     read_bind (read_tag decode_object_format) (\<lambda>x4.
     read_bind read_string (\<lambda>x5.
     read_bind (read_exact 32) (\<lambda>x6.
     read_return \<lparr>triple = x1,
       pointer_width = x2,
       endianness = x3,
       object_format = x4,
       os_abi = x5,
       target_set_digest = x6\<rparr>))))))"

definition read_modes :: "ck_profile_modes reader" where
  "read_modes =
     read_bind (read_bool (lit ''modes.overflowChecked'')) (\<lambda>x1.
     read_bind (read_bool (lit ''modes.boundsChecked'')) (\<lambda>x2.
     read_bind (read_bool (lit ''modes.strictFloat'')) (\<lambda>x3.
     read_bind (read_bool (lit ''modes.sanitizer'')) (\<lambda>x4.
     read_bind (read_tag decode_topology) (\<lambda>x5.
     read_bind (read_tag decode_optimization) (\<lambda>x6.
     read_bind (read_tag decode_cpu_policy) (\<lambda>x7.
     read_return \<lparr>overflow_checked = x1,
       bounds_checked = x2,
       strict_float = x3,
       sanitizer = x4,
       topology = x5,
       optimization_family = x6,
       cpu_policy = x7\<rparr>)))))))"

definition decode_contract :: "ck_profile_contract reader" where
  "decode_contract =
     read_bind read_u32 (\<lambda>x1.
     read_bind read_u32 (\<lambda>x2.
     read_bind read_u32 (\<lambda>x3.
     read_bind read_u64 (\<lambda>x4.
     read_bind read_u16 (\<lambda>x5.
     read_bind read_u16 (\<lambda>x6.
     read_bind read_u16 (\<lambda>x7.
     read_bind read_u16 (\<lambda>x8.
     read_bind read_u16 (\<lambda>x9.
     read_bind read_u16 (\<lambda>x10.
     read_bind read_u32 (\<lambda>x11.
     read_bind read_u8 (\<lambda>x12.
     read_bind read_u16 (\<lambda>x13.
     read_bind read_u32 (\<lambda>x14.
     read_bind read_u32 (\<lambda>x15.
     read_bind read_u8 (\<lambda>x16.
     read_bind read_u8 (\<lambda>x17.
     read_bind read_u64 (\<lambda>x18.
     read_return \<lparr>format_schema = x1,
       contract_schema = x2,
       inspection_schema = x3,
       minimum_decision_observations = x4,
       branch_dominance_basis_points = x5,
       histogram_dominance_basis_points = x6,
       cold_basis_points = x7,
       hot_work_coverage_basis_points = x8,
       minimum_root_work_basis_points = x9,
       minimum_variant_benefit_basis_points = x10,
       minimum_absolute_cost_units = x11,
       maximum_enhanced_variants = x12,
       maximum_additional_kir_basis_points = x13,
       maximum_sites = x14,
       maximum_shards = x15,
       histogram_buckets = x16,
       maximum_candidate_constants = x17,
       maximum_profile_bytes = x18\<rparr>))))))))))))))))))"

text \<open>A decoder that must consume its whole input.\<close>

definition read_all :: "'a reader \<Rightarrow> rstring \<Rightarrow> bytes \<Rightarrow> 'a profile_result" where
  "read_all r context_name bytes =
     result_bind (r bytes) (\<lambda>(x, cursor).
     if cursor \<noteq> [] then Inl (NonCanonicalOrder context_name) else Inr x)"

definition read_magic :: "bytes \<Rightarrow> unit reader" where
  "read_magic magic =
     read_bind (read_exact (length magic)) (\<lambda>m. if m \<noteq> magic then read_fail UnexpectedMagic else read_return ())"

definition read_identity :: "ck_profile_identity reader" where
  "read_identity =
     read_bind (read_magic (byte_lit ''CKIDENT1'')) (\<lambda>_.
     read_bind read_compiler (\<lambda>c. read_bind read_module (\<lambda>m. read_bind read_schemas (\<lambda>s.
     read_bind read_target (\<lambda>t. read_bind read_modes (\<lambda>o'. read_bind decode_contract (\<lambda>k.
     read_return \<lparr>compiler = c, module_identity = m, schemas = s, target = t, modes = o',
                  contract = k\<rparr>)))))))"

definition decode_identity :: "bytes \<Rightarrow> ck_profile_identity profile_result" where
  "decode_identity bytes =
     result_bind (read_all read_identity (lit ''identity.trailing'') bytes) (\<lambda>identity.
     result_bind (validate identity) (\<lambda>_. Inr identity))"

section \<open>The first mismatch\<close>

fun debug_endianness :: "ck_profile_endianness \<Rightarrow> rstring" where
  "debug_endianness Little = lit ''Little''"
| "debug_endianness Big = lit ''Big''"

fun debug_object_format :: "ck_profile_object_format \<Rightarrow> rstring" where
  "debug_object_format Elf = lit ''Elf''"
| "debug_object_format MachO = lit ''MachO''"
| "debug_object_format Coff = lit ''Coff''"

fun debug_topology :: "ck_profile_topology \<Rightarrow> rstring" where
  "debug_topology NativeExecutable = lit ''NativeExecutable''"
| "debug_topology NativeLibrary = lit ''NativeLibrary''"

fun debug_optimization :: "ck_profile_optimization_family \<Rightarrow> rstring" where
  "debug_optimization O2 = lit ''O2''"
| "debug_optimization O3 = lit ''O3''"

fun debug_cpu_policy :: "ck_profile_cpu_policy \<Rightarrow> rstring" where
  "debug_cpu_policy CpuBaseline = lit ''Baseline''"
| "debug_cpu_policy CpuNative = lit ''Native''"
| "debug_cpu_policy CpuMultiversion = lit ''Multiversion''"

definition debug_bool :: "bool \<Rightarrow> rstring" where
  "debug_bool b = (if b then lit ''true'' else lit ''false'')"

definition debug_word :: "'a::len word \<Rightarrow> rstring" where
  "debug_word w = nat_decimal (unat w)"

definition debug_contract :: "ck_profile_contract \<Rightarrow> rstring" where
  "debug_contract c =
     lit ''CkProfileContract { '' @
     lit ''format_schema: '' @ debug_word (format_schema c) @ lit '', '' @
     lit ''contract_schema: '' @ debug_word (contract_schema c) @ lit '', '' @
     lit ''inspection_schema: '' @ debug_word (inspection_schema c) @ lit '', '' @
     lit ''minimum_decision_observations: '' @ debug_word (minimum_decision_observations c) @ lit '', '' @
     lit ''branch_dominance_basis_points: '' @ debug_word (branch_dominance_basis_points c) @ lit '', '' @
     lit ''histogram_dominance_basis_points: '' @ debug_word (histogram_dominance_basis_points c) @ lit '', '' @
     lit ''cold_basis_points: '' @ debug_word (cold_basis_points c) @ lit '', '' @
     lit ''hot_work_coverage_basis_points: '' @ debug_word (hot_work_coverage_basis_points c) @ lit '', '' @
     lit ''minimum_root_work_basis_points: '' @ debug_word (minimum_root_work_basis_points c) @ lit '', '' @
     lit ''minimum_variant_benefit_basis_points: '' @ debug_word (minimum_variant_benefit_basis_points c) @ lit '', '' @
     lit ''minimum_absolute_cost_units: '' @ debug_word (minimum_absolute_cost_units c) @ lit '', '' @
     lit ''maximum_enhanced_variants: '' @ debug_word (maximum_enhanced_variants c) @ lit '', '' @
     lit ''maximum_additional_kir_basis_points: '' @ debug_word (maximum_additional_kir_basis_points c) @ lit '', '' @
     lit ''maximum_sites: '' @ debug_word (maximum_sites c) @ lit '', '' @
     lit ''maximum_shards: '' @ debug_word (maximum_shards c) @ lit '', '' @
     lit ''histogram_buckets: '' @ debug_word (histogram_buckets c) @ lit '', '' @
     lit ''maximum_candidate_constants: '' @ debug_word (maximum_candidate_constants c) @ lit '', '' @
     lit ''maximum_profile_bytes: '' @ debug_word (maximum_profile_bytes c) @ lit '' }''"

type_synonym mismatch = "(rstring \<times> rstring \<times> rstring) option"

definition check_field :: "string \<Rightarrow> ('a \<Rightarrow> rstring) \<Rightarrow> 'a \<Rightarrow> 'a \<Rightarrow> mismatch \<Rightarrow> mismatch" where
  "check_field path render expected actual rest =
     (if expected \<noteq> actual then Some (lit path, render expected, render actual) else rest)"

definition first_mismatch ::
  "(bytes \<Rightarrow> rstring) \<Rightarrow> ck_profile_identity \<Rightarrow> ck_profile_identity \<Rightarrow> mismatch" where
  "first_mismatch debug_str a b =
    check_field ''compiler.packageVersion'' debug_str (package_version (compiler a)) (package_version (compiler b)) (
    check_field ''compiler.sourceIdentity'' hex (source_identity (compiler a)) (source_identity (compiler b)) (
    check_field ''compiler.profileRuntimeIdentity'' hex (profile_runtime_identity (compiler a)) (profile_runtime_identity (compiler b)) (
    check_field ''module.semanticGraphDigest'' hex (semantic_graph_digest (module_identity a)) (semantic_graph_digest (module_identity b)) (
    check_field ''module.preProfileKirDigest'' hex (pre_profile_kir_digest (module_identity a)) (pre_profile_kir_digest (module_identity b)) (
    check_field ''module.siteTableDigest'' hex (site_table_digest (module_identity a)) (site_table_digest (module_identity b)) (
    check_field ''schemas.language'' debug_word (schema_language (schemas a)) (schema_language (schemas b)) (
    check_field ''schemas.nativeAbi'' debug_word (schema_native_abi (schemas a)) (schema_native_abi (schemas b)) (
    check_field ''schemas.runtimeAbi'' debug_word (schema_runtime_abi (schemas a)) (schema_runtime_abi (schemas b)) (
    check_field ''schemas.kir'' debug_word (schema_kir (schemas a)) (schema_kir (schemas b)) (
    check_field ''schemas.proof'' debug_word (schema_proof (schemas a)) (schema_proof (schemas b)) (
    check_field ''schemas.costModel'' debug_word (schema_cost_model (schemas a)) (schema_cost_model (schemas b)) (
    check_field ''schemas.targetProfile'' debug_word (schema_target_profile (schemas a)) (schema_target_profile (schemas b)) (
    check_field ''schemas.llvmBridge'' debug_word (schema_llvm_bridge (schemas a)) (schema_llvm_bridge (schemas b)) (
    check_field ''schemas.cache'' debug_word (schema_cache (schemas a)) (schema_cache (schemas b)) (
    check_field ''target.triple'' debug_str (triple (target a)) (triple (target b)) (
    check_field ''target.pointerWidth'' debug_word (pointer_width (target a)) (pointer_width (target b)) (
    check_field ''target.endianness'' debug_endianness (endianness (target a)) (endianness (target b)) (
    check_field ''target.objectFormat'' debug_object_format (object_format (target a)) (object_format (target b)) (
    check_field ''target.osAbi'' debug_str (os_abi (target a)) (os_abi (target b)) (
    check_field ''target.targetSetDigest'' hex (target_set_digest (target a)) (target_set_digest (target b)) (
    check_field ''modes.overflowChecked'' debug_bool (overflow_checked (modes a)) (overflow_checked (modes b)) (
    check_field ''modes.boundsChecked'' debug_bool (bounds_checked (modes a)) (bounds_checked (modes b)) (
    check_field ''modes.strictFloat'' debug_bool (strict_float (modes a)) (strict_float (modes b)) (
    check_field ''modes.sanitizer'' debug_bool (sanitizer (modes a)) (sanitizer (modes b)) (
    check_field ''modes.topology'' debug_topology (topology (modes a)) (topology (modes b)) (
    check_field ''modes.optimizationFamily'' debug_optimization (optimization_family (modes a)) (optimization_family (modes b)) (
    check_field ''modes.cpuPolicy'' debug_cpu_policy (cpu_policy (modes a)) (cpu_policy (modes b)) (
    check_field ''contract'' debug_contract (contract a) (contract b) None))))))))))))))))))))))))))))"

section \<open>Lemmas\<close>

text \<open>What the Rust types of an identity guarantee.\<close>

definition identity_typed :: "ck_profile_identity \<Rightarrow> bool" where
  "identity_typed identity \<longleftrightarrow>
     utf8_valid (package_version (compiler identity)) \<and>
     length (source_identity (compiler identity)) = 32 \<and>
     length (profile_runtime_identity (compiler identity)) = 32 \<and>
     length (semantic_graph_digest (module_identity identity)) = 32 \<and>
     length (pre_profile_kir_digest (module_identity identity)) = 32 \<and>
     length (site_table_digest (module_identity identity)) = 32 \<and>
     utf8_valid (triple (target identity)) \<and> utf8_valid (os_abi (target identity)) \<and>
     length (target_set_digest (target identity)) = 32"

lemma validate_string_iff:
  "validate_string s field = Inr u \<longleftrightarrow> s \<noteq> [] \<and> length s \<le> 4096 \<and> 0 \<notin> set s"
  by (auto simp: validate_string_def)

definition string_bytes :: "bytes \<Rightarrow> bytes" where
  "string_bytes s = word_bytes (word_of_nat (length s) :: 32 word) @ s"

definition string_ok :: "bytes \<Rightarrow> bool" where
  "string_ok s \<longleftrightarrow> s \<noteq> [] \<and> length s \<le> 4096 \<and> 0 \<notin> set s"

lemma push_string_iff: "push_string output s = Inr r \<longleftrightarrow> string_ok s \<and> r = output @ string_bytes s"
  by (auto simp: push_string_def validate_string_iff string_ok_def string_bytes_def)

lemma validate_iff:
  "validate i = Inr u \<longleftrightarrow>
     string_ok (package_version (compiler i)) \<and> string_ok (triple (target i)) \<and>
     string_ok (os_abi (target i)) \<and> pointer_width (target i) \<in> {32, 64} \<and>
     \<not> sanitizer (modes i) \<and> contract i = schema1"
  by (auto simp: validate_def validate_string_iff string_ok_def)

lemma string_length_word: "string_ok s \<Longrightarrow> unat (word_of_nat (length s) :: 32 word) = length s"
  by (simp add: string_ok_def unsigned_of_nat take_bit_nat_eq_self)

interpretation string: codec string_bytes read_string "\<lambda>s. string_ok s \<and> utf8_valid s"
proof (rule codec.intro)
  fix cursor s rest :: bytes
  have "read_string cursor = Inr (s, rest) \<longleftrightarrow>
      (\<exists>n :: 32 word. unat n \<le> 4096 \<and> utf8_valid s \<and> string_ok s \<and> length s = unat n \<and>
         cursor = word_bytes n @ s @ rest)"
    by (auto simp: read_string_def read_iffs validate_string_iff string_ok_def)
  also have "\<dots> \<longleftrightarrow> (string_ok s \<and> utf8_valid s) \<and> cursor = string_bytes s @ rest"
    using string_length_word [of s]
    by (auto simp: string_bytes_def string_ok_def intro!: exI [of _ "word_of_nat (length s)"])
  finally show "read_string cursor = Inr (s, rest) \<longleftrightarrow>
      (string_ok s \<and> utf8_valid s) \<and> cursor = string_bytes s @ rest" .
qed

interpretation endianness_codec: codec "\<lambda>x. [endianness_tag x]" "read_tag decode_endianness" "\<lambda>_. True"
  by (rule codec_tag, rename_tac b x, case_tac x) (auto simp: decode_endianness_def)

interpretation object_format_codec: codec "\<lambda>x. [object_format_tag x]" "read_tag decode_object_format" "\<lambda>_. True"
  by (rule codec_tag, rename_tac b x, case_tac x) (auto simp: decode_object_format_def)

interpretation topology_codec: codec "\<lambda>x. [topology_tag x]" "read_tag decode_topology" "\<lambda>_. True"
  by (rule codec_tag, rename_tac b x, case_tac x) (auto simp: decode_topology_def)

interpretation optimization_codec: codec "\<lambda>x. [optimization_tag x]" "read_tag decode_optimization" "\<lambda>_. True"
  by (rule codec_tag, rename_tac b x, case_tac x) (auto simp: decode_optimization_def)

interpretation cpu_policy_codec: codec "\<lambda>x. [cpu_policy_tag x]" "read_tag decode_cpu_policy" "\<lambda>_. True"
  by (rule codec_tag, rename_tac b x, case_tac x) (auto simp: decode_cpu_policy_def)

definition compiler_bytes :: "ck_compiler_profile_identity \<Rightarrow> bytes" where
  "compiler_bytes c =
     string_bytes (package_version c) @ source_identity c @ profile_runtime_identity c"

definition compiler_ok :: "ck_compiler_profile_identity \<Rightarrow> bool" where
  "compiler_ok c \<longleftrightarrow>
     string_ok (package_version c) \<and> utf8_valid (package_version c) \<and>
     length (source_identity c) = 32 \<and> length (profile_runtime_identity c) = 32"

lemmas identity_iffs = read_iffs string.decode_iff endianness_codec.decode_iff
  object_format_codec.decode_iff topology_codec.decode_iff optimization_codec.decode_iff
  cpu_policy_codec.decode_iff

interpretation compiler_codec: codec compiler_bytes read_compiler compiler_ok
proof (rule codec.intro)
  fix cursor rest c
  show "read_compiler cursor = Inr (c, rest) \<longleftrightarrow> compiler_ok c \<and> cursor = compiler_bytes c @ rest"
    by (cases c) (auto simp: read_compiler_def identity_iffs compiler_bytes_def compiler_ok_def)
qed

definition module_bytes :: "ck_module_profile_identity \<Rightarrow> bytes" where
  "module_bytes m = semantic_graph_digest m @ pre_profile_kir_digest m @ site_table_digest m"

definition module_ok :: "ck_module_profile_identity \<Rightarrow> bool" where
  "module_ok m \<longleftrightarrow>
     length (semantic_graph_digest m) = 32 \<and> length (pre_profile_kir_digest m) = 32 \<and>
     length (site_table_digest m) = 32"

interpretation module_codec: codec module_bytes read_module module_ok
proof (rule codec.intro)
  fix cursor rest m
  show "read_module cursor = Inr (m, rest) \<longleftrightarrow> module_ok m \<and> cursor = module_bytes m @ rest"
    by (cases m) (auto simp: read_module_def identity_iffs module_bytes_def module_ok_def)
qed

interpretation schemas_codec: codec encode_schemas read_schemas "\<lambda>_. True"
proof (rule codec.intro)
  fix cursor rest s
  show "read_schemas cursor = Inr (s, rest) \<longleftrightarrow> True \<and> cursor = encode_schemas s @ rest"
    by (cases s) (auto simp: read_schemas_def identity_iffs encode_schemas_def)
qed

definition target_bytes :: "ck_profile_target_identity \<Rightarrow> bytes" where
  "target_bytes t =
     string_bytes (triple t) @ [pointer_width t, endianness_tag (endianness t),
       object_format_tag (object_format t)] @ string_bytes (os_abi t) @ target_set_digest t"

definition target_ok :: "ck_profile_target_identity \<Rightarrow> bool" where
  "target_ok t \<longleftrightarrow>
     string_ok (triple t) \<and> utf8_valid (triple t) \<and> string_ok (os_abi t) \<and> utf8_valid (os_abi t) \<and>
     length (target_set_digest t) = 32"

interpretation target_codec: codec target_bytes read_target target_ok
proof (rule codec.intro)
  fix cursor rest t
  show "read_target cursor = Inr (t, rest) \<longleftrightarrow> target_ok t \<and> cursor = target_bytes t @ rest"
    by (cases t) (auto simp: read_target_def identity_iffs target_bytes_def target_ok_def)
qed

interpretation modes_codec: codec encode_modes read_modes "\<lambda>_. True"
proof (rule codec.intro)
  fix cursor rest m
  show "read_modes cursor = Inr (m, rest) \<longleftrightarrow> True \<and> cursor = encode_modes m @ rest"
    by (cases m) (auto simp: read_modes_def identity_iffs encode_modes_def)
qed

interpretation contract_codec: codec encode_contract decode_contract "\<lambda>_. True"
proof (rule codec.intro)
  fix cursor rest c
  show "decode_contract cursor = Inr (c, rest) \<longleftrightarrow> True \<and> cursor = encode_contract c @ rest"
    by (cases c) (auto simp: decode_contract_def identity_iffs encode_contract_def)
qed

lemma read_magic_iff:
  "read_magic magic cursor = Inr (u, rest) \<longleftrightarrow> cursor = magic @ rest"
  by (auto simp: read_magic_def read_iffs split: if_splits)

definition identity_bytes :: "ck_profile_identity \<Rightarrow> bytes" where
  "identity_bytes i =
     byte_lit ''CKIDENT1'' @ compiler_bytes (compiler i) @ module_bytes (module_identity i) @
     encode_schemas (schemas i) @ target_bytes (target i) @ encode_modes (modes i) @
     encode_contract (contract i)"

definition identity_ok :: "ck_profile_identity \<Rightarrow> bool" where
  "identity_ok i \<longleftrightarrow>
     compiler_ok (compiler i) \<and> module_ok (module_identity i) \<and> target_ok (target i)"

interpretation identity_codec: codec identity_bytes read_identity identity_ok
proof (rule codec.intro)
  fix cursor rest i
  show "read_identity cursor = Inr (i, rest) \<longleftrightarrow> identity_ok i \<and> cursor = identity_bytes i @ rest"
    by (cases i) (auto simp: read_identity_def read_magic_iff compiler_codec.decode_iff
      module_codec.decode_iff schemas_codec.decode_iff target_codec.decode_iff
      modes_codec.decode_iff contract_codec.decode_iff identity_bytes_def identity_ok_def)
qed

lemma read_all_codec:
  assumes "codec enc dec ok"
  shows "read_all dec name bs = Inr x \<longleftrightarrow> ok x \<and> bs = enc x"
  by (auto simp: read_all_def codec.decode_iff [OF assms] split: if_splits)

lemma canonical_bytes_iff:
  "canonical_bytes i = Inr bs \<longleftrightarrow> validate i = Inr () \<and> bs = identity_bytes i"
  by (auto simp: canonical_bytes_def push_string_iff validate_iff identity_bytes_def
    compiler_bytes_def module_bytes_def target_bytes_def)

lemma identity_ok_iff: "validate i = Inr () \<Longrightarrow> identity_ok i \<longleftrightarrow> identity_typed i"
  by (auto simp: identity_ok_def identity_typed_def validate_iff compiler_ok_def module_ok_def
    target_ok_def)

text \<open>The decoder accepts exactly the canonical bytes of a valid identity.\<close>

lemma decode_identity_iff:
  "decode_identity bs = Inr i \<longleftrightarrow> identity_typed i \<and> canonical_bytes i = Inr bs"
  by (auto simp: decode_identity_def read_all_codec [OF identity_codec.codec_axioms]
    canonical_bytes_iff identity_ok_iff)

lemma first_mismatch_None: "first_mismatch debug_str a b = None \<longleftrightarrow> a = b"
proof -
  have [simp]: "check_field p r x y m = None \<longleftrightarrow> x = y \<and> m = None" for p r x y m
    by (simp add: check_field_def)
  show ?thesis
    by (cases a; cases b) (auto simp: first_mismatch_def intro!:
      ck_compiler_profile_identity.equality ck_module_profile_identity.equality
      ck_profile_schema_identity.equality ck_profile_target_identity.equality
      ck_profile_modes.equality)
qed

end
