(* ===== verification/Profile_Format.thy ===== *)
theory Profile_Format
  imports Profile_Identity
begin

text \<open>
  The wire format of profile shards and profiles (\<^verbatim>\<open>src/src/profile/format.rs\<close>): the site and
  counter tables, their canonical order, the outer framing with its digest, and the two pairs
  of a serializer and a parser. A site identifier is a list of 16 bytes, ordered like the Rust
  array lexicographically.
\<close>

section \<open>Data\<close>

type_synonym site_id = bytes

datatype (plugins only: code size) ck_profile_site_kind =
    FunctionEntry
  | Edge (from_block: "32 word") (to_block: "32 word") (reconstructed: bool)
  | LoopTripHistogram (loop_identity: "32 word")
  | SliceLengthHistogram (decision_identity: "32 word")
  | CandidateConstantSite "32 word" "64 word list"

record ck_profile_site_descriptor =
  site_id :: site_id
  function_digest :: bytes
  location :: "32 word"
  site_kind :: ck_profile_site_kind

datatype (plugins only: code size) ck_profile_counter =
    Scalar "64 word"
  | Histogram "64 word list" bool
  | CandidateConstant "64 word list" "64 word" bool

record ck_profile_counter_record =
  counter_site_id :: site_id
  counter :: ck_profile_counter

record ck_profile_shard =
  shard_identity :: ck_profile_identity
  shard_sites :: "ck_profile_site_descriptor list"
  shard_counters :: "ck_profile_counter_record list"
  run_id :: bytes
  shard_overflowed :: bool
  shard_incomplete :: bool

record ck_profile =
  profile_identity :: ck_profile_identity
  profile_sites :: "ck_profile_site_descriptor list"
  profile_counters :: "ck_profile_counter_record list"
  completed_runs :: "64 word"
  merged_shards :: "32 word"
  profile_overflowed :: bool
  profile_incomplete :: bool

fun is_saturated :: "ck_profile_counter \<Rightarrow> bool" where
  "is_saturated (Scalar value) = (value = - 1)"
| "is_saturated (Histogram _ saturated) = saturated"
| "is_saturated (CandidateConstant _ _ saturated) = saturated"

fun is_observed :: "ck_profile_counter \<Rightarrow> bool" where
  "is_observed (Scalar value) = (value \<noteq> 0)"
| "is_observed (Histogram buckets _) = (\<exists>v \<in> set buckets. v \<noteq> 0)"
| "is_observed (CandidateConstant candidates other _) =
     (other \<noteq> 0 \<or> (\<exists>v \<in> set candidates. v \<noteq> 0))"

section \<open>Canonical tables\<close>

fun counter_matches_site :: "ck_profile_counter \<Rightarrow> ck_profile_site_kind \<Rightarrow> bool" where
  "counter_matches_site (Scalar _) FunctionEntry = True"
| "counter_matches_site (Scalar _) (Edge _ _ _) = True"
| "counter_matches_site (Histogram _ _) (LoopTripHistogram _) = True"
| "counter_matches_site (Histogram _ _) (SliceLengthHistogram _) = True"
| "counter_matches_site (CandidateConstant candidates _ _) (CandidateConstantSite _ expected) =
     (length candidates = length expected)"
| "counter_matches_site _ _ = False"

fun ensure_sites_canonical :: "ck_profile_site_descriptor list \<Rightarrow> unit profile_result" where
  "ensure_sites_canonical (a # b # rest) =
     (if site_id a < site_id b then ensure_sites_canonical (b # rest)
      else if site_id a = site_id b \<and> a \<noteq> b then Inl SiteIdCollision
      else Inl (NonCanonicalOrder (lit ''site table'')))"
| "ensure_sites_canonical _ = Inr ()"

fun counters_out_of_order :: "ck_profile_counter_record list \<Rightarrow> bool" where
  "counters_out_of_order (a # b # rest) =
     (counter_site_id b \<le> counter_site_id a \<or> counters_out_of_order (b # rest))"
| "counters_out_of_order _ = False"

definition ensure_counters_canonical :: "ck_profile_counter_record list \<Rightarrow> unit profile_result" where
  "ensure_counters_canonical counters =
     (if counters_out_of_order counters then Inl (NonCanonicalOrder (lit ''counter table'')) else Inr ())"

section \<open>Encoding the tables\<close>

definition encode_candidates :: "rstring \<Rightarrow> 64 word list \<Rightarrow> bytes profile_result" where
  "encode_candidates label candidates =
     (if candidates = [] \<or> unat ck_profile_max_candidates < length candidates
      then Inl (ResourceLimit label)
      else Inr (word_of_nat (length candidates) # concat (map word_bytes candidates)))"

fun encode_site_kind :: "ck_profile_site_kind \<Rightarrow> bytes profile_result" where
  "encode_site_kind FunctionEntry = Inr [1]"
| "encode_site_kind (Edge a b r) = Inr (2 # word_bytes a @ word_bytes b @ [bool_byte r])"
| "encode_site_kind (LoopTripHistogram l) = Inr (3 # word_bytes l)"
| "encode_site_kind (SliceLengthHistogram d) = Inr (4 # word_bytes d)"
| "encode_site_kind (CandidateConstantSite d candidates) =
     result_bind (encode_candidates (lit ''candidate constants'') candidates) (\<lambda>cs.
     Inr (5 # word_bytes d @ cs))"

definition encode_site :: "ck_profile_site_descriptor \<Rightarrow> bytes profile_result" where
  "encode_site site =
     result_bind (encode_site_kind (site_kind site)) (\<lambda>kind.
     Inr (site_id site @ function_digest site @ word_bytes (location site) @ kind))"

fun encode_each :: "('a \<Rightarrow> bytes profile_result) \<Rightarrow> 'a list \<Rightarrow> bytes profile_result" where
  "encode_each enc [] = Inr []"
| "encode_each enc (x # xs) =
     result_bind (enc x) (\<lambda>b. result_bind (encode_each enc xs) (\<lambda>bs. Inr (b @ bs)))"

text \<open>A table: the number of its records, bounded, and the records.\<close>

definition encode_counted ::
  "rstring \<Rightarrow> ('a \<Rightarrow> bytes profile_result) \<Rightarrow> 'a list \<Rightarrow> bytes profile_result" where
  "encode_counted label enc xs =
     (if 2 ^ 32 \<le> length xs then Inl LengthOverflow
      else if ck_profile_max_sites < word_of_nat (length xs) then Inl (ResourceLimit label)
      else result_bind (encode_each enc xs) (\<lambda>bs.
        Inr (word_bytes (word_of_nat (length xs) :: 32 word) @ bs)))"

definition encode_sites :: "ck_profile_site_descriptor list \<Rightarrow> bytes profile_result" where
  "encode_sites sites =
     result_bind (ensure_sites_canonical sites) (\<lambda>_.
     encode_counted (lit ''site count'') encode_site sites)"

fun encode_counter_value :: "ck_profile_counter \<Rightarrow> bytes profile_result" where
  "encode_counter_value (Scalar value) = Inr (1 # word_bytes value)"
| "encode_counter_value (Histogram buckets saturated) =
     Inr (2 # concat (map word_bytes buckets) @ [bool_byte saturated])"
| "encode_counter_value (CandidateConstant candidates other saturated) =
     result_bind (encode_candidates (lit ''candidate counters'') candidates) (\<lambda>cs.
     Inr (3 # cs @ word_bytes other @ [bool_byte saturated]))"

definition encode_counter :: "ck_profile_counter_record \<Rightarrow> bytes profile_result" where
  "encode_counter record =
     result_bind (encode_counter_value (counter record)) (\<lambda>c. Inr (counter_site_id record @ c))"

definition encode_counters :: "ck_profile_counter_record list \<Rightarrow> bytes profile_result" where
  "encode_counters counters =
     result_bind (ensure_counters_canonical counters) (\<lambda>_.
     encode_counted (lit ''counter count'') encode_counter counters)"

section \<open>Decoding the tables\<close>

definition read_candidates :: "rstring \<Rightarrow> 64 word reader \<Rightarrow> 64 word list reader" where
  "read_candidates label r =
     read_bind read_u8 (\<lambda>n.
     if n = 0 \<or> ck_profile_max_candidates < n then read_fail (ResourceLimit label)
     else read_times (unat n) r)"

definition read_site_kind :: "ck_profile_site_kind reader" where
  "read_site_kind =
     read_bind read_u8 (\<lambda>tag.
     if tag = 1 then read_return FunctionEntry
     else if tag = 2 then
       read_bind read_u32 (\<lambda>a. read_bind read_u32 (\<lambda>b.
       read_bind (read_bool (lit ''site.edge.reconstructed'')) (\<lambda>r. read_return (Edge a b r))))
     else if tag = 3 then read_bind read_u32 (\<lambda>l. read_return (LoopTripHistogram l))
     else if tag = 4 then read_bind read_u32 (\<lambda>d. read_return (SliceLengthHistogram d))
     else if tag = 5 then
       read_bind read_u32 (\<lambda>d.
       read_bind (read_candidates (lit ''candidate constants'') read_i64) (\<lambda>cs.
       read_return (CandidateConstantSite d cs)))
     else read_fail (InvalidValue (lit ''site.kind'')))"

definition read_site :: "ck_profile_site_descriptor reader" where
  "read_site =
     read_bind (read_exact 16) (\<lambda>i. read_bind (read_exact 32) (\<lambda>f. read_bind read_u32 (\<lambda>l.
     read_bind read_site_kind (\<lambda>k.
     read_return \<lparr>site_id = i, function_digest = f, location = l, site_kind = k\<rparr>))))"

definition read_counted :: "rstring \<Rightarrow> 'a reader \<Rightarrow> 'a list reader" where
  "read_counted label r =
     read_bind read_u32 (\<lambda>n.
     if ck_profile_max_sites < n then read_fail (ResourceLimit label) else read_times (unat n) r)"

definition decode_sites :: "bytes \<Rightarrow> ck_profile_site_descriptor list profile_result" where
  "decode_sites bytes =
     result_bind (read_all (read_counted (lit ''site count'') read_site)
        (lit ''site trailing bytes'') bytes) (\<lambda>sites.
     result_bind (ensure_sites_canonical sites) (\<lambda>_. Inr sites))"

definition read_counter_value :: "ck_profile_counter reader" where
  "read_counter_value =
     read_bind read_u8 (\<lambda>tag.
     if tag = 1 then read_bind read_u64 (\<lambda>v. read_return (Scalar v))
     else if tag = 2 then
       read_bind (read_times 16 read_u64) (\<lambda>buckets.
       read_bind (read_bool (lit ''counter.histogram.saturated'')) (\<lambda>s.
       read_return (Histogram buckets s)))
     else if tag = 3 then
       read_bind (read_candidates (lit ''candidate counters'') read_u64) (\<lambda>cs.
       read_bind read_u64 (\<lambda>other.
       read_bind (read_bool (lit ''counter.constant.saturated'')) (\<lambda>s.
       read_return (CandidateConstant cs other s))))
     else read_fail (InvalidValue (lit ''counter.kind'')))"

definition read_counter :: "ck_profile_counter_record reader" where
  "read_counter =
     read_bind (read_exact 16) (\<lambda>i. read_bind read_counter_value (\<lambda>c.
     read_return \<lparr>counter_site_id = i, counter = c\<rparr>))"

definition decode_counters :: "bytes \<Rightarrow> ck_profile_counter_record list profile_result" where
  "decode_counters bytes =
     result_bind (read_all (read_counted (lit ''counter count'') read_counter)
        (lit ''counter trailing bytes'') bytes) (\<lambda>counters.
     result_bind (ensure_counters_canonical counters) (\<lambda>_. Inr counters))"

definition encode_flags :: "bool \<Rightarrow> bool \<Rightarrow> bytes" where
  "encode_flags overflowed incomplete = [bool_byte overflowed, bool_byte incomplete]"

definition decode_flags :: "bytes \<Rightarrow> (bool \<times> bool) profile_result" where
  "decode_flags bytes =
     (if length bytes \<noteq> 2 then Inl (InvalidValue (lit ''profile.flags''))
      else result_bind (decode_bool (lit ''flags.overflowed'') (bytes ! 0)) (\<lambda>overflowed.
           result_bind (decode_bool (lit ''flags.incomplete'') (bytes ! 1)) (\<lambda>incomplete.
           Inr (overflowed, incomplete))))"

definition profile_site_table_digest ::
  "(bytes \<Rightarrow> bytes) \<Rightarrow> ck_profile_site_descriptor list \<Rightarrow> bytes profile_result" where
  "profile_site_table_digest sha sites =
     result_bind (encode_sites sites) (\<lambda>bs.
     Inr (sha (byte_lit ''CK-PROFILE-SITE-TABLE'' @ [0] @ bs)))"

definition validate_tables ::
  "(bytes \<Rightarrow> bytes) \<Rightarrow> ck_profile_identity \<Rightarrow> ck_profile_site_descriptor list \<Rightarrow>
   ck_profile_counter_record list \<Rightarrow> unit profile_result" where
  "validate_tables sha identity sites counters =
     result_bind (validate identity) (\<lambda>_.
     if unat ck_profile_max_sites < length sites then Inl (ResourceLimit (lit ''site count''))
     else if length sites \<noteq> length counters then Inl CounterTableMismatch
     else result_bind (ensure_sites_canonical sites) (\<lambda>_.
     result_bind (ensure_counters_canonical counters) (\<lambda>_.
     if list_ex (\<lambda>(site, c). site_id site \<noteq> counter_site_id c \<or>
          \<not> counter_matches_site (counter c) (site_kind site)) (zip sites counters)
     then Inl CounterTableMismatch
     else result_bind (profile_site_table_digest sha sites) (\<lambda>digest.
     if digest \<noteq> site_table_digest (module_identity identity) then Inl SiteTableMismatch
     else Inr ()))))"

section \<open>The outer framing\<close>

definition push_field :: "bytes \<Rightarrow> 16 word \<Rightarrow> bytes \<Rightarrow> bytes profile_result" where
  "push_field output tag payload =
     (if 2 ^ 32 \<le> length payload then Inl LengthOverflow
      else Inr (output @ word_bytes tag @ word_bytes (word_of_nat (length payload) :: 32 word) @ payload))"

fun push_fields :: "bytes \<Rightarrow> (16 word \<times> bytes) list \<Rightarrow> bytes profile_result" where
  "push_fields output [] = Inr output"
| "push_fields output ((tag, payload) # items) =
     result_bind (push_field output tag payload) (\<lambda>output. push_fields output items)"

definition encode_outer ::
  "(bytes \<Rightarrow> bytes) \<Rightarrow> bytes \<Rightarrow> bytes \<Rightarrow> (16 word \<times> bytes) list \<Rightarrow> bytes profile_result" where
  "encode_outer sha magic domain items =
     result_bind (push_fields (magic @ word_bytes ck_profile_format_schema) items) (\<lambda>output.
     let output = output @ sha (domain @ output) in
     if unat ck_profile_max_bytes < length output then Inl (ResourceLimit (lit ''profile bytes''))
     else Inr output)"

function parse_fields ::
  "16 word list \<Rightarrow> 16 word \<Rightarrow> (16 word \<times> bytes) list \<Rightarrow> bytes \<Rightarrow> (16 word \<times> bytes) list profile_result"
where
  "parse_fields required previous items cursor =
     (if cursor = [] then Inr items
      else result_bind (read_u16 cursor) (\<lambda>(tag, cursor1).
        if tag \<le> previous then Inl (NonCanonicalOrder (lit ''outer fields''))
        else result_bind (read_u32 cursor1) (\<lambda>(size, cursor2).
          if unat ck_profile_max_bytes < unat size
          then Inl (ResourceLimit (lit ''outer field bytes''))
          else result_bind (read_exact (unat size) cursor2) (\<lambda>(payload, cursor3).
            if tag \<notin> set required then Inl (UnknownField (lit ''outer'') tag)
            else parse_fields required tag (items @ [(tag, payload)]) cursor3))))"
  by pat_completeness auto
termination
  by (relation "measure (\<lambda>(_, _, _, cursor). length cursor)") (auto simp: read_iffs)

declare parse_fields.simps [simp del]

fun order_fields :: "16 word list \<Rightarrow> (16 word \<times> bytes) list \<Rightarrow> bytes list profile_result" where
  "order_fields [] items = Inr []"
| "order_fields (tag # tags) items =
     (case map_of items tag of
        None \<Rightarrow> Inl (MissingField (lit ''outer'') tag)
      | Some payload \<Rightarrow> result_bind (order_fields tags items) (\<lambda>ordered. Inr (payload # ordered)))"

definition parse_outer ::
  "(bytes \<Rightarrow> bytes) \<Rightarrow> bytes \<Rightarrow> bytes \<Rightarrow> bytes \<Rightarrow> 16 word list \<Rightarrow> bytes list profile_result" where
  "parse_outer sha bytes magic domain required =
     (if unat ck_profile_max_bytes < length bytes then Inl (ResourceLimit (lit ''profile bytes''))
      else if length bytes < 12 + 32 then Inl Truncated
      else if take 8 bytes \<noteq> magic then Inl UnexpectedMagic
      else let schema = word_value (take 4 (drop 8 bytes)) in
      if schema \<noteq> ck_profile_format_schema
      then Inl (UnsupportedSchema (lit ''profile format'') ck_profile_format_schema schema)
      else let body_end = length bytes - 32 in
      if sha (domain @ take body_end bytes) \<noteq> drop body_end bytes then Inl DigestMismatch
      else result_bind (parse_fields required 0 [] (drop 12 (take body_end bytes))) (\<lambda>items.
        order_fields required items))"

section \<open>Shards and profiles\<close>

definition shard_magic :: bytes where "shard_magic = byte_lit ''CKPART01''"
definition profile_magic :: bytes where "profile_magic = byte_lit ''CKPROF01''"
definition shard_domain :: bytes where "shard_domain = byte_lit ''CK-PROFILE-SHARD'' @ [0]"
definition profile_domain :: bytes where "profile_domain = byte_lit ''CK-PROFILE-FINAL'' @ [0]"

definition serialize_profile_shard :: "(bytes \<Rightarrow> bytes) \<Rightarrow> ck_profile_shard \<Rightarrow> bytes profile_result" where
  "serialize_profile_shard sha shard =
     result_bind (validate_tables sha (shard_identity shard) (shard_sites shard) (shard_counters shard)) (\<lambda>_.
     result_bind (canonical_bytes (shard_identity shard)) (\<lambda>identity.
     result_bind (encode_sites (shard_sites shard)) (\<lambda>sites.
     result_bind (encode_counters (shard_counters shard)) (\<lambda>counters.
     encode_outer sha shard_magic shard_domain
       [(1, identity), (2, sites), (3, counters), (4, run_id shard),
        (5, encode_flags (shard_overflowed shard) (shard_incomplete shard))]))))"

definition parse_profile_shard :: "(bytes \<Rightarrow> bytes) \<Rightarrow> bytes \<Rightarrow> ck_profile_shard profile_result" where
  "parse_profile_shard sha bytes =
     result_bind (parse_outer sha bytes shard_magic shard_domain [1, 2, 3, 4, 5]) (\<lambda>items.
     result_bind (decode_identity (items ! 0)) (\<lambda>identity.
     result_bind (decode_sites (items ! 1)) (\<lambda>sites.
     result_bind (decode_counters (items ! 2)) (\<lambda>counters.
     if length (items ! 3) \<noteq> 16 then Inl (InvalidValue (lit ''shard.runId''))
     else result_bind (decode_flags (items ! 4)) (\<lambda>(overflowed, incomplete).
     result_bind (validate_tables sha identity sites counters) (\<lambda>_.
     Inr \<lparr>shard_identity = identity, shard_sites = sites, shard_counters = counters,
          run_id = items ! 3, shard_overflowed = overflowed, shard_incomplete = incomplete\<rparr>))))))"

definition serialize_profile :: "(bytes \<Rightarrow> bytes) \<Rightarrow> ck_profile \<Rightarrow> bytes profile_result" where
  "serialize_profile sha profile =
     result_bind (validate_tables sha (profile_identity profile) (profile_sites profile) (profile_counters profile)) (\<lambda>_.
     if completed_runs profile = 0 \<or> merged_shards profile = 0
     then Inl (InvalidValue (lit ''profile.aggregateCounts''))
     else result_bind (canonical_bytes (profile_identity profile)) (\<lambda>identity.
     result_bind (encode_sites (profile_sites profile)) (\<lambda>sites.
     result_bind (encode_counters (profile_counters profile)) (\<lambda>counters.
     encode_outer sha profile_magic profile_domain
       [(1, identity), (2, sites), (3, counters), (4, word_bytes (completed_runs profile)),
        (5, word_bytes (merged_shards profile)),
        (6, encode_flags (profile_overflowed profile) (profile_incomplete profile))]))))"

definition parse_profile :: "(bytes \<Rightarrow> bytes) \<Rightarrow> bytes \<Rightarrow> ck_profile profile_result" where
  "parse_profile sha bytes =
     result_bind (parse_outer sha bytes profile_magic profile_domain [1, 2, 3, 4, 5, 6]) (\<lambda>items.
     result_bind (decode_identity (items ! 0)) (\<lambda>identity.
     result_bind (decode_sites (items ! 1)) (\<lambda>sites.
     result_bind (decode_counters (items ! 2)) (\<lambda>counters.
     if length (items ! 3) \<noteq> 8 then Inl (InvalidValue (lit ''profile.completedRuns''))
     else if length (items ! 4) \<noteq> 4 then Inl (InvalidValue (lit ''profile.mergedShards''))
     else result_bind (decode_flags (items ! 5)) (\<lambda>(overflowed, incomplete).
     let runs = word_value (items ! 3); shards = word_value (items ! 4) in
     if runs = 0 \<or> shards = 0 \<or> ck_profile_max_shards < shards
     then Inl (InvalidValue (lit ''profile.aggregateCounts''))
     else result_bind (validate_tables sha identity sites counters) (\<lambda>_.
     Inr \<lparr>profile_identity = identity, profile_sites = sites, profile_counters = counters,
          completed_runs = runs, merged_shards = shards,
          profile_overflowed = overflowed, profile_incomplete = incomplete\<rparr>))))))"

end
