(* ===== verification/Profile_Roundtrip.thy ===== *)
theory Profile_Roundtrip
  imports Profile_Format
begin

text \<open>
  The tables, the framing and the files of the wire format are codecs: each decoder accepts
  exactly the encodings of its valid values. \<open>site_typed\<close>, \<open>counter_typed\<close>, \<open>shard_typed\<close> and
  \<open>profile_typed\<close> state the array lengths that the Rust types guarantee.
\<close>

section \<open>Records\<close>

definition candidates_ok :: "64 word list \<Rightarrow> bool" where
  "candidates_ok cs \<longleftrightarrow> cs \<noteq> [] \<and> length cs \<le> 8"

definition candidate_bytes :: "64 word list \<Rightarrow> bytes" where
  "candidate_bytes cs = word_of_nat (length cs) # concat (map word_bytes cs)"

lemma encode_candidates_iff:
  "encode_candidates label cs = Inr bs \<longleftrightarrow> candidates_ok cs \<and> bs = candidate_bytes cs"
  by (auto simp: encode_candidates_def candidates_ok_def candidate_bytes_def
    ck_profile_max_candidates_def)

lemma candidates_codec:
  assumes "codec word_bytes r (\<lambda>_. True)"
  shows "codec candidate_bytes (read_candidates label r) candidates_ok"
proof (rule codec.intro)
  fix cursor rest :: bytes and cs :: "64 word list"
  have n: "unat (word_of_nat (length cs) :: byte) = length cs" if "length cs \<le> 8"
    using that by (simp add: unsigned_of_nat take_bit_nat_eq_self)
  have "read_candidates label r cursor = Inr (cs, rest) \<longleftrightarrow>
      (\<exists>n :: byte. n \<noteq> 0 \<and> unat n \<le> 8 \<and> length cs = unat n \<and>
         cursor = n # concat (map word_bytes cs) @ rest)"
    by (auto simp: read_candidates_def read_iffs codec.read_times_iff [OF assms]
      ck_profile_max_candidates_def word_less_nat_alt not_less)
  also have "\<dots> \<longleftrightarrow> candidates_ok cs \<and> cursor = candidate_bytes cs @ rest"
    using n by (auto simp: candidates_ok_def candidate_bytes_def unat_eq_0 [symmetric]
      intro!: exI [of _ "word_of_nat (length cs)"])
  finally show "read_candidates label r cursor = Inr (cs, rest) \<longleftrightarrow>
      candidates_ok cs \<and> cursor = candidate_bytes cs @ rest" .
qed

interpretation signed_candidates: codec candidate_bytes "read_candidates label read_i64" candidates_ok
  for label by (rule candidates_codec) (rule i64.codec_axioms)

interpretation unsigned_candidates: codec candidate_bytes "read_candidates label read_u64" candidates_ok
  for label by (rule candidates_codec) (rule u64.codec_axioms)

fun site_kind_bytes :: "ck_profile_site_kind \<Rightarrow> bytes" where
  "site_kind_bytes FunctionEntry = [1]"
| "site_kind_bytes (Edge a b r) = 2 # word_bytes a @ word_bytes b @ [bool_byte r]"
| "site_kind_bytes (LoopTripHistogram l) = 3 # word_bytes l"
| "site_kind_bytes (SliceLengthHistogram d) = 4 # word_bytes d"
| "site_kind_bytes (CandidateConstantSite d cs) = 5 # word_bytes d @ candidate_bytes cs"

fun site_kind_ok :: "ck_profile_site_kind \<Rightarrow> bool" where
  "site_kind_ok (CandidateConstantSite d cs) = candidates_ok cs"
| "site_kind_ok _ = True"

lemma encode_site_kind_iff: "encode_site_kind k = Inr bs \<longleftrightarrow> site_kind_ok k \<and> bs = site_kind_bytes k"
  by (cases k) (auto simp: encode_candidates_iff)

interpretation site_kind_codec: codec site_kind_bytes read_site_kind site_kind_ok
proof (rule codec.intro)
  fix cursor k rest
  show "read_site_kind cursor = Inr (k, rest) \<longleftrightarrow> site_kind_ok k \<and> cursor = site_kind_bytes k @ rest"
    by (cases k) (auto simp: read_site_kind_def read_iffs signed_candidates.decode_iff read_if)
qed

definition site_bytes :: "ck_profile_site_descriptor \<Rightarrow> bytes" where
  "site_bytes s =
     site_id s @ function_digest s @ word_bytes (location s) @ site_kind_bytes (site_kind s)"

definition site_typed :: "ck_profile_site_descriptor \<Rightarrow> bool" where
  "site_typed s \<longleftrightarrow> length (site_id s) = 16 \<and> length (function_digest s) = 32"

lemma encode_site_iff: "encode_site s = Inr bs \<longleftrightarrow> site_kind_ok (site_kind s) \<and> bs = site_bytes s"
  by (auto simp: encode_site_def encode_site_kind_iff site_bytes_def)

interpretation site_codec: codec site_bytes read_site "\<lambda>s. site_typed s \<and> site_kind_ok (site_kind s)"
proof (rule codec.intro)
  fix cursor s rest
  show "read_site cursor = Inr (s, rest) \<longleftrightarrow>
      (site_typed s \<and> site_kind_ok (site_kind s)) \<and> cursor = site_bytes s @ rest"
    by (cases s) (auto simp: read_site_def read_iffs site_kind_codec.decode_iff site_typed_def site_bytes_def)
qed

fun counter_value_bytes :: "ck_profile_counter \<Rightarrow> bytes" where
  "counter_value_bytes (Scalar v) = 1 # word_bytes v"
| "counter_value_bytes (Histogram buckets s) = 2 # concat (map word_bytes buckets) @ [bool_byte s]"
| "counter_value_bytes (CandidateConstant cs other s) =
     3 # candidate_bytes cs @ word_bytes other @ [bool_byte s]"

fun counter_value_typed :: "ck_profile_counter \<Rightarrow> bool" where
  "counter_value_typed (Histogram buckets _) = (length buckets = 16)"
| "counter_value_typed _ = True"

fun counter_value_ok :: "ck_profile_counter \<Rightarrow> bool" where
  "counter_value_ok (CandidateConstant cs _ _) = candidates_ok cs"
| "counter_value_ok _ = True"

lemma encode_counter_value_iff:
  "encode_counter_value c = Inr bs \<longleftrightarrow> counter_value_ok c \<and> bs = counter_value_bytes c"
  by (cases c) (auto simp: encode_candidates_iff)

interpretation counter_value_codec: codec counter_value_bytes read_counter_value
  "\<lambda>c. counter_value_typed c \<and> counter_value_ok c"
proof (rule codec.intro)
  fix cursor c rest
  show "read_counter_value cursor = Inr (c, rest) \<longleftrightarrow>
      (counter_value_typed c \<and> counter_value_ok c) \<and> cursor = counter_value_bytes c @ rest"
    by (cases c) (auto simp: read_counter_value_def read_iffs u64.read_times_iff
      unsigned_candidates.decode_iff read_if simp del: read_times.simps)
qed

definition counter_bytes :: "ck_profile_counter_record \<Rightarrow> bytes" where
  "counter_bytes r = counter_site_id r @ counter_value_bytes (counter r)"

definition counter_typed :: "ck_profile_counter_record \<Rightarrow> bool" where
  "counter_typed r \<longleftrightarrow> length (counter_site_id r) = 16 \<and> counter_value_typed (counter r)"

lemma encode_counter_iff:
  "encode_counter r = Inr bs \<longleftrightarrow> counter_value_ok (counter r) \<and> bs = counter_bytes r"
  by (auto simp: encode_counter_def encode_counter_value_iff counter_bytes_def)

interpretation counter_codec: codec counter_bytes read_counter
  "\<lambda>r. counter_typed r \<and> counter_value_ok (counter r)"
proof (rule codec.intro)
  fix cursor r rest
  show "read_counter cursor = Inr (r, rest) \<longleftrightarrow>
      (counter_typed r \<and> counter_value_ok (counter r)) \<and> cursor = counter_bytes r @ rest"
    by (cases r) (auto simp: read_counter_def read_iffs counter_value_codec.decode_iff
      counter_typed_def counter_bytes_def)
qed

section \<open>Tables\<close>

definition table_bytes :: "('a \<Rightarrow> bytes) \<Rightarrow> 'a list \<Rightarrow> bytes" where
  "table_bytes enc xs = word_bytes (word_of_nat (length xs) :: 32 word) @ concat (map enc xs)"

lemma encode_each_iff:
  assumes "\<And>x b. enc x = Inr b \<longleftrightarrow> ok x \<and> b = bytes_of x"
  shows "encode_each enc xs = Inr bs \<longleftrightarrow> (\<forall>x \<in> set xs. ok x) \<and> bs = concat (map bytes_of xs)"
  by (induction xs arbitrary: bs) (auto simp: assms)

lemma count_word: "n \<le> 1048576 \<Longrightarrow> unat (word_of_nat n :: 32 word) = n"
  by (simp add: unsigned_of_nat take_bit_nat_eq_self)

lemma encode_counted_iff:
  assumes "\<And>x b. enc x = Inr b \<longleftrightarrow> ok x \<and> b = bytes_of x"
  shows "encode_counted label enc xs = Inr bs \<longleftrightarrow>
    length xs \<le> 1048576 \<and> (\<forall>x \<in> set xs. ok x) \<and> bs = table_bytes bytes_of xs"
proof -
  have "\<not> ck_profile_max_sites < word_of_nat (length xs) \<longleftrightarrow> length xs \<le> 1048576"
    if "length xs < 2 ^ 32"
    using that by (simp add: ck_profile_max_sites_def word_less_nat_alt unsigned_of_nat
      take_bit_nat_eq_self not_less)
  then show ?thesis
    by (auto simp: encode_counted_def encode_each_iff [OF assms] table_bytes_def)
qed

lemma read_counted_codec:
  assumes "codec enc r ok"
  shows "codec (table_bytes enc) (read_counted label r)
    (\<lambda>xs. length xs \<le> 1048576 \<and> (\<forall>x \<in> set xs. ok x))"
proof (rule codec.intro)
  fix cursor xs and rest :: bytes
  have "read_counted label r cursor = Inr (xs, rest) \<longleftrightarrow>
      (\<exists>n :: 32 word. unat n \<le> 1048576 \<and> length xs = unat n \<and> (\<forall>x \<in> set xs. ok x) \<and>
         cursor = word_bytes n @ concat (map enc xs) @ rest)"
    by (auto simp: read_counted_def read_iffs codec.read_times_iff [OF assms]
      ck_profile_max_sites_def word_less_nat_alt not_less)
  also have "\<dots> \<longleftrightarrow> (length xs \<le> 1048576 \<and> (\<forall>x \<in> set xs. ok x)) \<and> cursor = table_bytes enc xs @ rest"
    using count_word [of "length xs"]
    by (auto simp: table_bytes_def intro!: exI [of _ "word_of_nat (length xs)"])
  finally show "read_counted label r cursor = Inr (xs, rest) \<longleftrightarrow>
      (length xs \<le> 1048576 \<and> (\<forall>x \<in> set xs. ok x)) \<and> cursor = table_bytes enc xs @ rest" .
qed

lemma encode_sites_iff:
  "encode_sites sites = Inr bs \<longleftrightarrow>
     ensure_sites_canonical sites = Inr () \<and> length sites \<le> 1048576 \<and>
     (\<forall>s \<in> set sites. site_kind_ok (site_kind s)) \<and> bs = table_bytes site_bytes sites"
  by (auto simp: encode_sites_def encode_counted_iff [OF encode_site_iff])

lemma encode_counters_iff:
  "encode_counters cs = Inr bs \<longleftrightarrow>
     ensure_counters_canonical cs = Inr () \<and> length cs \<le> 1048576 \<and>
     (\<forall>c \<in> set cs. counter_value_ok (counter c)) \<and> bs = table_bytes counter_bytes cs"
  by (auto simp: encode_counters_def encode_counted_iff [OF encode_counter_iff])

lemma decode_sites_iff:
  "decode_sites bs = Inr sites \<longleftrightarrow> list_all site_typed sites \<and> encode_sites sites = Inr bs"
  by (auto simp: decode_sites_def read_all_codec [OF read_counted_codec [OF site_codec.codec_axioms]]
    encode_sites_iff list_all_iff)

lemma decode_counters_iff:
  "decode_counters bs = Inr cs \<longleftrightarrow> list_all counter_typed cs \<and> encode_counters cs = Inr bs"
  by (auto simp: decode_counters_def
    read_all_codec [OF read_counted_codec [OF counter_codec.codec_axioms]] encode_counters_iff list_all_iff)

lemma decode_flags_iff: "decode_flags bs = Inr (a, b) \<longleftrightarrow> bs = encode_flags a b"
  by (auto simp: decode_flags_def encode_flags_def decode_bool_iff length_Suc_conv numeral_2_eq_2)

section \<open>The outer framing\<close>

definition field_bytes :: "16 word \<times> bytes \<Rightarrow> bytes" where
  "field_bytes p =
     word_bytes (fst p) @ word_bytes (word_of_nat (length (snd p)) :: 32 word) @ snd p"

lemma length_field_bytes [simp]: "length (field_bytes p) = 6 + length (snd p)"
  by (simp add: field_bytes_def)

lemma field_bytes_not_Nil [simp]: "field_bytes p \<noteq> []"
  by (metis add_is_0 length_field_bytes list.size(3) numeral_eq_iff zero_neq_numeral)

lemma concat_field_bytes_Nil [simp]:
  "concat (map field_bytes items) = [] \<longleftrightarrow> items = []" "[] = concat (map field_bytes items) \<longleftrightarrow> items = []"
  by (cases items; simp)+

lemma push_fields_iff:
  "push_fields out items = Inr bs \<longleftrightarrow>
     (\<forall>p \<in> set items. length (snd p) < 2 ^ 32) \<and> bs = out @ concat (map field_bytes items)"
proof (induction items arbitrary: out)
  case (Cons p items)
  then show ?case
    by (cases p) (auto simp: push_field_def field_bytes_def not_le)
qed auto

lemma read_field_iff:
  "(\<exists>c1 n c2. read_u16 cursor = Inr (tag, c1) \<and> read_u32 c1 = Inr (n, c2) \<and> unat n \<le> 536870912 \<and>
      read_exact (unat n) c2 = Inr (payload, rest)) \<longleftrightarrow>
   length payload \<le> 536870912 \<and> cursor = field_bytes (tag, payload) @ rest"
proof -
  have n: "unat (word_of_nat (length payload) :: 32 word) = length payload"
    if "length payload \<le> 536870912"
    using that by (simp add: unsigned_of_nat take_bit_nat_eq_self)
  then show ?thesis
    by (auto simp: read_iffs field_bytes_def intro!: exI [of _ "word_of_nat (length payload)"])
qed

lemma max_bytes [simp]: "unat ck_profile_max_bytes = 536870912"
  by (simp add: ck_profile_max_bytes_def)

lemma parse_fields_step:
  assumes "cursor \<noteq> []"
  shows "parse_fields required previous items cursor = Inr items' \<longleftrightarrow>
    (\<exists>tag payload rest. cursor = field_bytes (tag, payload) @ rest \<and> length payload \<le> 536870912 \<and>
       previous < tag \<and> tag \<in> set required \<and>
       parse_fields required tag (items @ [(tag, payload)]) rest = Inr items')"
proof -
  have "parse_fields required previous items cursor = Inr items' \<longleftrightarrow>
    (\<exists>tag payload rest. (\<exists>c1 n c2. read_u16 cursor = Inr (tag, c1) \<and> read_u32 c1 = Inr (n, c2) \<and>
         unat n \<le> 536870912 \<and> read_exact (unat n) c2 = Inr (payload, rest)) \<and>
       previous < tag \<and> tag \<in> set required \<and>
       parse_fields required tag (items @ [(tag, payload)]) rest = Inr items')"
    using assms
    by (subst parse_fields.simps) (auto simp: not_less not_le split: if_splits; blast)
  then show ?thesis unfolding read_field_iff by (simp add: conj_ac)
qed

lemma parse_fields_iff:
  "parse_fields required previous items cursor = Inr items' \<longleftrightarrow>
     (\<exists>new. items' = items @ new \<and> sorted_wrt (<) (previous # map fst new) \<and>
        fst ` set new \<subseteq> set required \<and> (\<forall>p \<in> set new. length (snd p) \<le> 536870912) \<and>
        cursor = concat (map field_bytes new))"
proof (induction "length cursor" arbitrary: previous items cursor rule: less_induct)
  case less
  show ?case
  proof (cases "cursor = []")
    case True
    then show ?thesis by (auto simp: parse_fields.simps [of _ _ _ "[]"] simp del: concat_eq_Nil_conv Nil_eq_concat_conv)
  next
    case False
    have IH: "parse_fields required tag (items @ [(tag, payload)]) rest = Inr items' \<longleftrightarrow>
        (\<exists>new. items' = (items @ [(tag, payload)]) @ new \<and> sorted_wrt (<) (tag # map fst new) \<and>
           fst ` set new \<subseteq> set required \<and> (\<forall>p \<in> set new. length (snd p) \<le> 536870912) \<and>
           rest = concat (map field_bytes new))"
      if "cursor = field_bytes (tag, payload) @ rest" for tag payload rest
      using that by (intro less.hyps) simp
    show ?thesis (is "?L \<longleftrightarrow> (\<exists>new. ?P new)")
    proof
      assume ?L
      then obtain tag payload rest new where *: "cursor = field_bytes (tag, payload) @ rest"
          "length payload \<le> 536870912" "previous < tag" "tag \<in> set required"
          "items' = (items @ [(tag, payload)]) @ new" "sorted_wrt (<) (tag # map fst new)"
          "fst ` set new \<subseteq> set required" "\<forall>p \<in> set new. length (snd p) \<le> 536870912"
          "rest = concat (map field_bytes new)"
        unfolding parse_fields_step [OF False] using IH by blast
      then have "?P ((tag, payload) # new)" by auto
      then show "\<exists>new. ?P new" ..
    next
      assume "\<exists>new. ?P new"
      then obtain new where new: "?P new" ..
      with False obtain tag payload new' where [simp]: "new = (tag, payload) # new'"
        by (cases new) auto
      have "parse_fields required tag (items @ [(tag, payload)]) (concat (map field_bytes new')) = Inr items'"
        using new by (subst IH) auto
      then show ?L unfolding parse_fields_step [OF False] using new by auto
    qed
  qed
qed

lemma order_fields_iff:
  "order_fields tags items = Inr ps \<longleftrightarrow> map (map_of items) tags = map Some ps"
  by (induction tags arbitrary: ps) (auto split: option.splits)

text \<open>When every required field is there and there is no other, the fields are the required
  ones in order.\<close>

lemma ordered_fields:
  fixes tags :: "16 word list"
  assumes tags: "sorted_wrt (<) tags" and new: "sorted_wrt (<) (map fst new)" "fst ` set new \<subseteq> set tags"
  shows "order_fields tags new = Inr ps \<longleftrightarrow> length ps = length tags \<and> new = zip tags ps"
proof
  assume "order_fields tags new = Inr ps"
  then have ps: "map (map_of new) tags = map Some ps" by (simp add: order_fields_iff)
  have "set tags \<subseteq> fst ` set new"
  proof
    fix t
    assume "t \<in> set tags"
    then have "map_of new t \<in> Some ` set ps" using ps by (metis image_eqI list.set_map)
    then show "t \<in> fst ` set new" by (metis imageE map_of_eq_None_iff option.distinct(1))
  qed
  with new have "set (map fst new) = set tags" by auto
  then have fst: "map fst new = tags"
    using tags new(1) by (simp add: strict_sorted_equal)
  then have "distinct (map fst new)" using tags by (simp add: strict_sorted_iff)
  then have "map (map_of new) (map fst new) = map Some (map snd new)"
    by (auto simp: comp_def)
  then have "ps = map snd new" using ps fst by (metis inj_Some list.inj_map_strong option.inject)
  then show "length ps = length tags \<and> new = zip tags ps"
    using fst by (metis length_map zip_map_fst_snd)
next
  assume *: "length ps = length tags \<and> new = zip tags ps"
  then have "distinct tags" using tags by (simp add: strict_sorted_iff)
  with * show "order_fields tags new = Inr ps"
    by (simp add: order_fields_iff) (rule nth_equalityI, auto simp: map_of_zip_nth)
qed

definition outer_bytes :: "(bytes \<Rightarrow> bytes) \<Rightarrow> bytes \<Rightarrow> bytes \<Rightarrow> (16 word \<times> bytes) list \<Rightarrow> bytes" where
  "outer_bytes sha magic domain items =
     (let output = magic @ word_bytes ck_profile_format_schema @ concat (map field_bytes items)
      in output @ sha (domain @ output))"

lemma encode_outer_iff:
  "encode_outer sha magic domain items = Inr bs \<longleftrightarrow>
     (\<forall>p \<in> set items. length (snd p) < 2 ^ 32) \<and> bs = outer_bytes sha magic domain items \<and>
     length bs \<le> 536870912"
  by (auto simp: encode_outer_def push_fields_iff outer_bytes_def Let_def)

lemma concat_length_le: "x \<in> set xs \<Longrightarrow> length x \<le> length (concat xs)"
  by (induction xs) auto

lemma parse_outer_iff:
  assumes sha: "\<And>x. length (sha x) = 32" and magic: "length magic = 8"
    and tags: "sorted_wrt (<) (0 # tags)"
  shows "parse_outer sha bs magic domain tags = Inr ps \<longleftrightarrow>
    length ps = length tags \<and> encode_outer sha magic domain (zip tags ps) = Inr bs" (is "?L \<longleftrightarrow> ?R")
proof
  assume ?L
  let ?n = "length bs - 32"
  from \<open>?L\<close> obtain new where len: "length bs \<le> 536870912" "44 \<le> length bs"
    and head: "take 8 bs = magic" "word_value (take 4 (drop 8 bs)) = ck_profile_format_schema"
    and digest: "sha (domain @ take ?n bs) = drop ?n bs"
    and new: "parse_fields tags 0 [] (drop 12 (take ?n bs)) = Inr new" "order_fields tags new = Inr ps"
    by (auto simp: parse_outer_def Let_def split: if_splits)
  have body: "drop 12 (take ?n bs) = concat (map field_bytes new)" "sorted_wrt (<) (map fst new)"
    "fst ` set new \<subseteq> set tags" "\<forall>p \<in> set new. length (snd p) \<le> 536870912"
    using new(1) by (auto simp: parse_fields_iff)
  have ps: "length ps = length tags" "new = zip tags ps"
    using ordered_fields [OF _ body(2,3)] tags new(2) by auto
  have schema: "take 4 (drop 8 bs) = word_bytes ck_profile_format_schema"
    using word_bytes_value [of 4 "take 4 (drop 8 bs)", where 'a = 32] head(2) len(2) by simp
  have "take ?n bs = take 12 (take ?n bs) @ drop 12 (take ?n bs)"
    by (metis append_take_drop_id)
  also have "take 12 (take ?n bs) = take 8 bs @ take 4 (drop 8 bs)"
    using le_diff_conv2 [of 32 "length bs" 12] len(2) take_add [of 8 4 bs] by (simp add: min_def)
  finally have "take ?n bs = magic @ word_bytes ck_profile_format_schema @ concat (map field_bytes new)"
    using head(1) schema body(1) by simp
  then have "bs = outer_bytes sha magic domain new"
    using digest by (metis append_take_drop_id outer_bytes_def)
  with ps len(1) body(4) show ?R by (force simp: encode_outer_iff)
next
  assume ?R
  let ?items = "zip tags ps" and ?schema = "word_bytes ck_profile_format_schema"
  let ?body = "concat (map field_bytes ?items)"
  have len: "length ps = length tags" "length bs \<le> 536870912"
    and bs: "bs = (magic @ ?schema @ ?body) @ sha (domain @ magic @ ?schema @ ?body)"
    using \<open>?R\<close> by (auto simp: encode_outer_iff outer_bytes_def Let_def)
  have n: "length bs - 32 = length (magic @ ?schema @ ?body)" "44 \<le> length bs"
    using sha magic by (simp_all add: bs)
  have take_n: "take (length bs - 32) bs = magic @ ?schema @ ?body"
    and drop_n: "drop (length bs - 32) bs = sha (domain @ magic @ ?schema @ ?body)"
    unfolding n(1) by (simp_all add: bs)
  have payloads: "length (snd p) \<le> 536870912" if "p \<in> set ?items" for p
  proof -
    have "length (field_bytes p) \<le> length ?body"
      by (rule concat_length_le) (use that in auto)
    also have "\<dots> \<le> length bs" by (simp add: bs)
    finally show ?thesis using len(2) by simp
  qed
  have sorted: "sorted_wrt (<) tags" and fst: "map fst ?items = tags" using tags len(1) by simp_all
  have "parse_fields tags 0 [] (drop 12 (take (length bs - 32) bs)) = Inr ?items"
    unfolding take_n using tags fst payloads magic
    by (auto simp: parse_fields_iff set_zip)
  moreover have "order_fields tags ?items = Inr ps"
    using ordered_fields [OF sorted, of ?items ps] sorted fst len(1) by (metis image_set order_refl)
  moreover have "take 8 bs = magic" "word_value (take 4 (drop 8 bs)) = ck_profile_format_schema"
    using magic by (simp_all add: bs word_value_bytes [of 4])
  ultimately show ?L
    using len(2) n(2) take_n drop_n by (simp add: parse_outer_def)
qed

section \<open>Shards and profiles\<close>

lemma result_guard: "(if c then Inl e else r) = Inr x \<longleftrightarrow> \<not> c \<and> r = Inr x"
  by simp

definition shard_typed :: "ck_profile_shard \<Rightarrow> bool" where
  "shard_typed s \<longleftrightarrow>
     identity_typed (shard_identity s) \<and> list_all site_typed (shard_sites s) \<and>
     list_all counter_typed (shard_counters s) \<and> length (run_id s) = 16"

definition profile_typed :: "ck_profile \<Rightarrow> bool" where
  "profile_typed p \<longleftrightarrow>
     identity_typed (profile_identity p) \<and> list_all site_typed (profile_sites p) \<and>
     list_all counter_typed (profile_counters p)"

lemma length_magic [simp]: "length shard_magic = 8" "length profile_magic = 8"
  by (simp_all add: shard_magic_def profile_magic_def byte_lit_def)

lemma sorted_tags:
  "sorted_wrt (<) (0 # [1, 2, 3, 4, 5 :: 16 word])" "sorted_wrt (<) (0 # [1, 2, 3, 4, 5, 6 :: 16 word])"
  by simp_all

lemma length_5: "length ps = length [1, 2, 3, 4, 5 :: 16 word] \<longleftrightarrow> (\<exists>a b c d e. ps = [a, b, c, d, e])"
  by (auto simp: length_Suc_conv numeral_eq_Suc)

lemma length_6: "length ps = length [1, 2, 3, 4, 5, 6 :: 16 word] \<longleftrightarrow>
    (\<exists>a b c d e f. ps = [a, b, c, d, e, f])"
  by (auto simp: length_Suc_conv numeral_eq_Suc)

lemma ex_fields:
  "(\<exists>xs. (\<exists>a b c d e. xs = [a, b, c, d, e] \<and> P a b c d e) \<and> Q xs) \<longleftrightarrow>
     (\<exists>a b c d e. P a b c d e \<and> Q [a, b, c, d, e])"
  "(\<exists>xs. (\<exists>a b c d e f. xs = [a, b, c, d, e, f] \<and> R a b c d e f) \<and> Q xs) \<longleftrightarrow>
     (\<exists>a b c d e f. R a b c d e f \<and> Q [a, b, c, d, e, f])"
  by blast+

lemma parse_shard_iff:
  assumes "\<And>x. length (sha x) = 32"
  shows "parse_profile_shard sha bs = Inr s \<longleftrightarrow>
    shard_typed s \<and> serialize_profile_shard sha s = Inr bs"
proof (cases s)
  case (fields identity sites counters run a b)
  have outer: "parse_outer sha bs shard_magic shard_domain [1, 2, 3, 4, 5] = Inr ps \<longleftrightarrow>
      (\<exists>f g h i j. ps = [f, g, h, i, j] \<and>
         encode_outer sha shard_magic shard_domain [(1, f), (2, g), (3, h), (4, i), (5, j)] = Inr bs)" for ps
    unfolding parse_outer_iff [OF assms length_magic(1) sorted_tags(1)] length_5 by auto
  show ?thesis
    by (auto simp: fields parse_profile_shard_def serialize_profile_shard_def shard_typed_def outer
      result_guard ex_fields decode_identity_iff decode_sites_iff decode_counters_iff decode_flags_iff)
qed

lemma parse_profile_iff:
  assumes "\<And>x. length (sha x) = 32"
  shows "parse_profile sha bs = Inr p \<longleftrightarrow>
    profile_typed p \<and> merged_shards p \<le> ck_profile_max_shards \<and> serialize_profile sha p = Inr bs"
proof (cases p)
  case (fields identity sites counters runs shards a b)
  have outer: "parse_outer sha bs profile_magic profile_domain [1, 2, 3, 4, 5, 6] = Inr ps \<longleftrightarrow>
      (\<exists>f g h i j k. ps = [f, g, h, i, j, k] \<and> encode_outer sha profile_magic profile_domain
         [(1, f), (2, g), (3, h), (4, i), (5, j), (6, k)] = Inr bs)" for ps
    unfolding parse_outer_iff [OF assms length_magic(2) sorted_tags(2)] length_6 by auto
  show ?thesis
    by (auto simp: fields parse_profile_def serialize_profile_def profile_typed_def outer Let_def
      result_guard ex_fields decode_identity_iff decode_sites_iff decode_counters_iff decode_flags_iff not_less
      word_value_bytes [of 8] word_value_bytes [of 4] word_bytes_value [of 8] word_bytes_value [of 4])
      (rule exI [of _ "word_bytes runs"], rule exI [of _ "word_bytes shards"],
       simp add: word_value_bytes [of 8] word_value_bytes [of 4])
qed

end
