(* ===== verification/Profile_Merge.thy ===== *)
theory Profile_Merge
  imports Profile_Roundtrip "HOL-Library.Multiset"
begin

text \<open>
  Merging shards into one profile (\<^verbatim>\<open>src/src/profile/merge.rs\<close>): the saturating addition of
  counters and the loop over the shards with its checks. The ordered sets of run identifiers
  and digests are lists of which only membership counts. Reading the files is not modelled:
  \<open>merge_profile_files\<close> starts from their bytes.
\<close>

section \<open>Adding counters\<close>

definition saturating_add_flag :: "64 word \<Rightarrow> 64 word \<Rightarrow> bool \<Rightarrow> 64 word \<times> bool" where
  "saturating_add_flag value input overflowed =
     (case checked_add value input of
        Some value' \<Rightarrow> (value', overflowed)
      | None \<Rightarrow> (- 1, True))"

fun add_values :: "64 word list \<Rightarrow> 64 word list \<Rightarrow> bool \<Rightarrow> 64 word list \<times> bool" where
  "add_values (t # ts) (i # is) overflowed =
     (let (t', overflowed) = saturating_add_flag t i overflowed;
          (ts', overflowed) = add_values ts is overflowed
      in (t' # ts', overflowed))"
| "add_values ts _ overflowed = (ts, overflowed)"

fun add_counter ::
  "ck_profile_counter \<Rightarrow> ck_profile_counter \<Rightarrow> bool \<Rightarrow> (ck_profile_counter \<times> bool) profile_result" where
  "add_counter (Scalar t) (Scalar i) overflowed =
     (let (t', overflowed) = saturating_add_flag t i overflowed in Inr (Scalar t', overflowed))"
| "add_counter (Histogram ts s) (Histogram is s') overflowed =
     (let (ts', counter_overflowed) = add_values ts is False
      in Inr (Histogram ts' (s \<or> s' \<or> counter_overflowed), overflowed \<or> counter_overflowed))"
| "add_counter (CandidateConstant ts t s) (CandidateConstant is i s') overflowed =
     (if length ts = length is then
        let (ts', counter_overflowed) = add_values ts is False;
            (t', counter_overflowed) = saturating_add_flag t i counter_overflowed
        in Inr (CandidateConstant ts' t' (s \<or> s' \<or> counter_overflowed), overflowed \<or> counter_overflowed)
      else Inl CounterTableMismatch)"
| "add_counter _ _ _ = Inl CounterTableMismatch"

fun add_counter_records ::
  "ck_profile_counter_record list \<Rightarrow> ck_profile_counter_record list \<Rightarrow> bool \<Rightarrow>
   (ck_profile_counter_record list \<times> bool) profile_result" where
  "add_counter_records (t # ts) (i # is) overflowed =
     (if counter_site_id t \<noteq> counter_site_id i then Inl CounterTableMismatch
      else result_bind (add_counter (counter t) (counter i) overflowed) (\<lambda>(c, overflowed).
      result_bind (add_counter_records ts is overflowed) (\<lambda>(ts, overflowed).
      Inr (t\<lparr>counter := c\<rparr> # ts, overflowed))))"
| "add_counter_records ts _ overflowed = Inr (ts, overflowed)"

definition add_counter_tables ::
  "ck_profile_counter_record list \<Rightarrow> ck_profile_counter_record list \<Rightarrow> bool \<Rightarrow>
   (ck_profile_counter_record list \<times> bool) profile_result" where
  "add_counter_tables aggregate observed overflowed =
     (if length aggregate \<noteq> length observed then Inl CounterTableMismatch
      else add_counter_records aggregate observed overflowed)"

section \<open>The merge\<close>

record merge_state =
  run_ids :: "bytes list"
  shard_digests :: "bytes list"
  merged_counters :: "ck_profile_counter_record list"
  merge_overflowed :: bool
  merge_incomplete :: bool

definition any_saturated :: "ck_profile_counter_record list \<Rightarrow> bool" where
  "any_saturated cs = list_ex (\<lambda>c. is_saturated (counter c)) cs"

definition merge_step ::
  "(bytes \<Rightarrow> bytes) \<Rightarrow> (bytes \<Rightarrow> rstring) \<Rightarrow> ck_profile_shard \<Rightarrow> bool \<Rightarrow> ck_profile_shard \<Rightarrow>
   merge_state \<Rightarrow> merge_state profile_result" where
  "merge_step sha debug_str first is_first shard st =
     (if run_id shard \<in> set (run_ids st) then Inl DuplicateRunIdentity
      else result_bind (serialize_profile_shard sha shard) (\<lambda>canonical.
      let digest = sha canonical in
      if digest \<in> set (shard_digests st) then Inl DuplicateShardContent
      else case first_mismatch debug_str (shard_identity first) (shard_identity shard) of
        Some (field, expected, observed) \<Rightarrow> Inl (IdentityMismatch field expected observed)
      | None \<Rightarrow>
      if shard_sites first \<noteq> shard_sites shard then Inl SiteTableMismatch
      else result_bind
        (if is_first then Inr (merged_counters st, merge_overflowed st)
         else add_counter_tables (merged_counters st) (shard_counters shard) (merge_overflowed st))
        (\<lambda>(counters, overflowed).
      Inr \<lparr>run_ids = run_id shard # run_ids st, shard_digests = digest # shard_digests st,
           merged_counters = counters,
           merge_overflowed = overflowed \<or> shard_overflowed shard \<or> any_saturated (shard_counters shard),
           merge_incomplete = merge_incomplete st \<or> shard_incomplete shard\<rparr>)))"

fun merge_loop ::
  "(bytes \<Rightarrow> bytes) \<Rightarrow> (bytes \<Rightarrow> rstring) \<Rightarrow> ck_profile_shard \<Rightarrow> bool \<Rightarrow> ck_profile_shard list \<Rightarrow>
   merge_state \<Rightarrow> merge_state profile_result" where
  "merge_loop sha debug_str first is_first [] st = Inr st"
| "merge_loop sha debug_str first is_first (shard # shards) st =
     result_bind (merge_step sha debug_str first is_first shard st) (\<lambda>st.
     merge_loop sha debug_str first False shards st)"

definition merge_profile_shards ::
  "(bytes \<Rightarrow> bytes) \<Rightarrow> (bytes \<Rightarrow> rstring) \<Rightarrow> ck_profile_shard list \<Rightarrow> ck_profile profile_result" where
  "merge_profile_shards sha debug_str shards =
     (case shards of
        [] \<Rightarrow> Inl (InvalidValue (lit ''merge.empty''))
      | first # _ \<Rightarrow>
      if unat ck_profile_max_shards < length shards then Inl (ResourceLimit (lit ''merge shard count''))
      else result_bind (merge_loop sha debug_str first True shards
          \<lparr>run_ids = [], shard_digests = [], merged_counters = shard_counters first,
           merge_overflowed = shard_overflowed first \<or> any_saturated (shard_counters first),
           merge_incomplete = shard_incomplete first\<rparr>) (\<lambda>st.
      let merged = word_of_nat (length shards) :: 32 word in
      Inr \<lparr>profile_identity = shard_identity first, profile_sites = shard_sites first,
           profile_counters = merged_counters st, completed_runs = ucast merged,
           merged_shards = merged, profile_overflowed = merge_overflowed st,
           profile_incomplete = merge_incomplete st\<rparr>))"

fun parse_inputs ::
  "(bytes \<Rightarrow> bytes) \<Rightarrow> bytes list \<Rightarrow> (bytes \<times> ck_profile_shard) list profile_result" where
  "parse_inputs sha [] = Inr []"
| "parse_inputs sha (bs # files) =
     result_bind (parse_profile_shard sha bs) (\<lambda>shard.
     result_bind (parse_inputs sha files) (\<lambda>inputs. Inr ((sha bs, shard) # inputs)))"

fun duplicate_neighbours :: "(bytes \<times> 'a) list \<Rightarrow> bool" where
  "duplicate_neighbours (x # y # rest) = (fst x = fst y \<or> duplicate_neighbours (y # rest))"
| "duplicate_neighbours _ = False"

definition merge_profile_files ::
  "(bytes \<Rightarrow> bytes) \<Rightarrow> (bytes \<Rightarrow> rstring) \<Rightarrow> bytes list \<Rightarrow> (ck_profile \<times> bytes) profile_result" where
  "merge_profile_files sha debug_str files =
     (if unat ck_profile_max_shards < length files
      then Inl (ResourceLimit (lit ''merge shard count''))
      else result_bind (parse_inputs sha files) (\<lambda>inputs.
      let inputs = sort_key fst inputs in
      if duplicate_neighbours inputs then Inl DuplicateShardContent
      else result_bind (merge_profile_shards sha debug_str (map snd inputs)) (\<lambda>profile.
      result_bind (serialize_profile sha profile) (\<lambda>bytes. Inr (profile, bytes)))))"

section \<open>What a merge computes\<close>

text \<open>The sum of counters cell by cell: a cell is its true total, or all ones when that does
  not fit, and then the counter or the profile is marked.\<close>

definition cap :: "nat \<Rightarrow> 64 word" where
  "cap n = (if n < 2 ^ 64 then word_of_nat n else - 1)"

lemma unat_cap: "unat (cap n) = min n (2 ^ 64 - 1)"
  by (auto simp: cap_def unsigned_of_nat take_bit_nat_eq_self unsigned_minus_1_eq_mask
    mask_eq_exp_minus_1 min_def)

lemma saturating_add_flag_eq:
  "saturating_add_flag t i overflowed =
     (cap (unat t + unat i), overflowed \<or> 2 ^ 64 \<le> unat t + unat i)"
  by (auto simp: saturating_add_flag_def checked_add_def cap_def)

lemma add_values_eq:
  "length ts = length is \<Longrightarrow> add_values ts is overflowed =
     (map2 (\<lambda>t i. cap (unat t + unat i)) ts is,
      overflowed \<or> (\<exists>(t, i) \<in> set (zip ts is). 2 ^ 64 \<le> unat t + unat i))"
  by (induction ts "is" overflowed rule: add_values.induct) (auto simp: saturating_add_flag_eq)

text \<open>The cells of a counter and their totals over a list of counters.\<close>

fun cells :: "ck_profile_counter \<Rightarrow> 64 word list" where
  "cells (Scalar v) = [v]"
| "cells (Histogram vs _) = vs"
| "cells (CandidateConstant vs v _) = vs @ [v]"

fun marked :: "ck_profile_counter \<Rightarrow> bool" where
  "marked (Scalar _) = False"
| "marked (Histogram _ s) = s"
| "marked (CandidateConstant _ _ s) = s"

fun same_shape :: "ck_profile_counter \<Rightarrow> ck_profile_counter \<Rightarrow> bool" where
  "same_shape (Scalar _) (Scalar _) = True"
| "same_shape (Histogram a _) (Histogram b _) = (length a = length b)"
| "same_shape (CandidateConstant a _ _) (CandidateConstant b _ _) = (length a = length b)"
| "same_shape _ _ = False"

definition cell_total :: "nat \<Rightarrow> ck_profile_counter list \<Rightarrow> nat" where
  "cell_total i cs = (\<Sum>c \<leftarrow> cs. unat (cells c ! i))"

definition too_large :: "ck_profile_counter list \<Rightarrow> bool" where
  "too_large cs \<longleftrightarrow> (\<exists>i < length (cells (hd cs)). 2 ^ 64 \<le> cell_total i cs)"

fun fill :: "ck_profile_counter \<Rightarrow> 64 word list \<Rightarrow> bool \<Rightarrow> ck_profile_counter" where
  "fill (Scalar _) vs s = Scalar (vs ! 0)"
| "fill (Histogram _ _) vs s = Histogram vs s"
| "fill (CandidateConstant _ _ _) vs s = CandidateConstant (butlast vs) (last vs) s"

text \<open>The specification of a merged counter.\<close>

definition counter_sum :: "ck_profile_counter list \<Rightarrow> ck_profile_counter" where
  "counter_sum cs =
     fill (hd cs) (map (\<lambda>i. cap (cell_total i cs)) [0..<length (cells (hd cs))])
       (list_ex marked cs \<or> too_large cs)"

section \<open>Sums of counters\<close>

definition overflows :: "ck_profile_counter \<Rightarrow> ck_profile_counter \<Rightarrow> bool" where
  "overflows t i \<longleftrightarrow> (\<exists>(a, b) \<in> set (zip (cells t) (cells i)). 2 ^ 64 \<le> unat a + unat b)"

definition plus_counter :: "ck_profile_counter \<Rightarrow> ck_profile_counter \<Rightarrow> ck_profile_counter" where
  "plus_counter t i =
     fill t (map2 (\<lambda>a b. cap (unat a + unat b)) (cells t) (cells i))
       (marked t \<or> marked i \<or> overflows t i)"

lemma same_shape_length: "same_shape t i \<Longrightarrow> length (cells t) = length (cells i)"
  by (cases t; cases i) auto

lemma same_shape_refl [simp]: "same_shape c c"
  by (cases c) auto

lemma same_shape_sym: "same_shape a b \<Longrightarrow> same_shape b a"
  by (cases a; cases b) auto

lemma same_shape_trans: "same_shape a b \<Longrightarrow> same_shape b c \<Longrightarrow> same_shape a c"
  by (cases a; cases b; cases c) auto

lemma cells_fill [simp]: "length vs = length (cells t) \<Longrightarrow> cells (fill t vs s) = vs"
  by (cases t) (auto simp: length_Suc_conv intro!: append_butlast_last_id)

lemma same_shape_fill [simp]: "length vs = length (cells t) \<Longrightarrow> same_shape (fill t vs s) t"
  by (cases t) auto

lemma fill_same_shape: "same_shape t i \<Longrightarrow> fill t vs s = fill i vs s"
  by (cases t; cases i) auto

lemma fill_fill: "length vs = length (cells t) \<Longrightarrow> fill (fill t vs s) ws u = fill t ws u"
  by (intro fill_same_shape) simp

lemma map2_nth: "length ts = length is \<Longrightarrow> map2 f ts is = map (\<lambda>j. f (ts ! j) (is ! j)) [0..<length ts]"
  by (auto intro: nth_equalityI)

lemma ex_zip: "length ts = length is \<Longrightarrow>
    (\<exists>(t, i) \<in> set (zip ts is). P t i) \<longleftrightarrow> (\<exists>j < length ts. P (ts ! j) (is ! j))"
  by (auto simp: set_zip)

lemma add_counter_eq:
  "same_shape t i \<Longrightarrow>
     add_counter t i overflowed = Inr (plus_counter t i, overflowed \<or> overflows t i)"
  by (cases t; cases i)
     (auto simp: saturating_add_flag_eq add_values_eq plus_counter_def overflows_def)

lemma cap_cap: "cap (unat (cap a) + b) = cap (a + b)"
  by (simp add: word_unat_eq_iff unat_cap min_def)

lemma cap_overflow: "2 ^ 64 \<le> a + b \<longleftrightarrow> 2 ^ 64 \<le> a \<or> 2 ^ 64 \<le> unat (cap a) + b"
  by (auto simp: unat_cap min_def)

lemma cap_unat [simp]: "cap (unat v) = v"
  using unsigned_less [of v, where ?'a = nat] by (simp add: cap_def)

lemma cell_total_snoc [simp]: "cell_total i (cs @ [c]) = cell_total i cs + unat (cells c ! i)"
  by (simp add: cell_total_def)

lemma cells_counter_sum:
  "cells (counter_sum cs) = map (\<lambda>i. cap (cell_total i cs)) [0..<length (cells (hd cs))]"
  by (simp add: counter_sum_def)

lemma same_shape_counter_sum: "same_shape (counter_sum cs) (hd cs)"
  by (simp add: counter_sum_def)

lemma counter_sum_single [simp]: "counter_sum [c] = c"
proof -
  have "\<not> too_large [c]"
    using unsigned_less [where ?'a = nat and ?'b = 64] by (auto simp: too_large_def cell_total_def not_le)
  moreover have "map (\<lambda>i. cap (cell_total i [c])) [0..<length (cells c)] = cells c"
    by (simp add: cell_total_def map_nth)
  moreover have "fill c (cells c) (marked c) = c" by (cases c) auto
  ultimately show ?thesis by (simp add: counter_sum_def)
qed

lemma fill_marked_fill: "fill t vs (marked (fill t ws s) \<or> r) = fill t vs (s \<or> r)"
  by (cases t) auto

lemma counter_sum_snoc:
  assumes "cs \<noteq> []" "same_shape (hd cs) c"
  shows "counter_sum (cs @ [c]) = plus_counter (counter_sum cs) c"
    and "too_large (cs @ [c]) \<longleftrightarrow> too_large cs \<or> overflows (counter_sum cs) c"
proof -
  have len: "length (cells c) = length (cells (hd cs))"
    using same_shape_length [OF assms(2)] by simp
  then have cells: "map2 (\<lambda>a b. cap (unat a + unat b)) (cells (counter_sum cs)) (cells c) =
      map (\<lambda>i. cap (cell_total i (cs @ [c]))) [0..<length (cells (hd cs))]"
    by (simp add: cells_counter_sum map2_nth cap_cap)
  have over: "overflows (counter_sum cs) c \<longleftrightarrow>
      (\<exists>i < length (cells (hd cs)). 2 ^ 64 \<le> unat (cap (cell_total i cs)) + unat (cells c ! i))"
    unfolding overflows_def using len by (subst ex_zip) (auto simp: cells_counter_sum)
  have step: "2 ^ 64 \<le> cell_total i (cs @ [c]) \<longleftrightarrow>
      2 ^ 64 \<le> cell_total i cs \<or> 2 ^ 64 \<le> unat (cap (cell_total i cs)) + unat (cells c ! i)" for i
    unfolding cell_total_snoc by (rule cap_overflow)
  show large: "too_large (cs @ [c]) \<longleftrightarrow> too_large cs \<or> overflows (counter_sum cs) c"
    unfolding over too_large_def step using assms(1) by auto
  have "plus_counter (counter_sum cs) c =
      fill (hd cs) (map (\<lambda>i. cap (cell_total i (cs @ [c]))) [0..<length (cells (hd cs))])
        (marked (counter_sum cs) \<or> marked c \<or> overflows (counter_sum cs) c)"
    unfolding plus_counter_def cells by (rule fill_same_shape) (rule same_shape_counter_sum)
  also have "\<dots> = counter_sum (cs @ [c])"
    using assms(1) unfolding counter_sum_def fill_marked_fill large by (simp add: disj_ac)
  finally show "counter_sum (cs @ [c]) = plus_counter (counter_sum cs) c" ..
qed

section \<open>Sums of tables\<close>

definition table_counters :: "ck_profile_counter_record list list \<Rightarrow> nat \<Rightarrow> ck_profile_counter list" where
  "table_counters tables k = map (\<lambda>t. counter (t ! k)) tables"

definition table_sum :: "ck_profile_counter_record list list \<Rightarrow> ck_profile_counter_record list" where
  "table_sum tables =
     map (\<lambda>k. (hd tables ! k)\<lparr>counter := counter_sum (table_counters tables k)\<rparr>)
       [0..<length (hd tables)]"

definition tables_too_large :: "ck_profile_counter_record list list \<Rightarrow> bool" where
  "tables_too_large tables \<longleftrightarrow> (\<exists>k < length (hd tables). too_large (table_counters tables k))"

definition tables_match :: "ck_profile_counter_record list \<Rightarrow> ck_profile_counter_record list \<Rightarrow> bool" where
  "tables_match t u \<longleftrightarrow> length t = length u \<and> (\<forall>k < length t.
     counter_site_id (t ! k) = counter_site_id (u ! k) \<and> same_shape (counter (t ! k)) (counter (u ! k)))"

lemma add_counter_records_eq:
  "tables_match ts is \<Longrightarrow> add_counter_records ts is overflowed =
     Inr (map2 (\<lambda>t i. t\<lparr>counter := plus_counter (counter t) (counter i)\<rparr>) ts is,
          overflowed \<or> (\<exists>(t, i) \<in> set (zip ts is). overflows (counter t) (counter i)))"
proof (induction ts "is" overflowed rule: add_counter_records.induct)
  case (1 t ts i "is" overflowed)
  then have "same_shape (counter t) (counter i)" "counter_site_id t = counter_site_id i" "tables_match ts is"
    by (force simp: tables_match_def)+
  with 1 show ?case by (auto simp: add_counter_eq)
qed (auto simp: tables_match_def)

lemma table_sum_snoc:
  assumes "ts \<noteq> []" "tables_match (hd ts) t"
  shows "add_counter_tables (table_sum ts) t (overflowed \<or> tables_too_large ts) =
      Inr (table_sum (ts @ [t]), overflowed \<or> tables_too_large (ts @ [t]))"
proof -
  let ?n = "length (hd ts)"
  have len: "length t = ?n" and shape: "\<And>k. k < ?n \<Longrightarrow> same_shape (hd (table_counters ts k)) (counter (t ! k))"
    using assms by (auto simp: tables_match_def table_counters_def hd_map)
  have snoc: "table_counters (ts @ [t]) k = table_counters ts k @ [counter (t ! k)]" for k
    by (simp add: table_counters_def)
  have nonempty: "table_counters ts k \<noteq> []" for k using assms(1) by (simp add: table_counters_def)
  have "tables_match (table_sum ts) t"
    using assms same_shape_trans [OF same_shape_counter_sum shape] len
    by (auto simp: tables_match_def table_sum_def)
  then have "add_counter_tables (table_sum ts) t (overflowed \<or> tables_too_large ts) =
      Inr (map2 (\<lambda>t i. t\<lparr>counter := plus_counter (counter t) (counter i)\<rparr>) (table_sum ts) t,
        (overflowed \<or> tables_too_large ts) \<or>
        (\<exists>(t, i) \<in> set (zip (table_sum ts) t). overflows (counter t) (counter i)))"
    using len by (simp add: add_counter_tables_def add_counter_records_eq table_sum_def [of ts])
  moreover have "map2 (\<lambda>t i. t\<lparr>counter := plus_counter (counter t) (counter i)\<rparr>) (table_sum ts) t =
      table_sum (ts @ [t])"
    using assms(1) len shape nonempty
    by (auto simp: map2_nth table_sum_def snoc counter_sum_snoc(1))
  moreover have "(\<exists>(t, i) \<in> set (zip (table_sum ts) t). overflows (counter t) (counter i)) \<longleftrightarrow>
      (\<exists>k < ?n. overflows (counter_sum (table_counters ts k)) (counter (t ! k)))"
    using len by (subst ex_zip) (auto simp: table_sum_def)
  moreover have "tables_too_large (ts @ [t]) \<longleftrightarrow> tables_too_large ts \<or>
      (\<exists>k < ?n. overflows (counter_sum (table_counters ts k)) (counter (t ! k)))"
    using assms(1) shape nonempty counter_sum_snoc(2) by (auto simp: tables_too_large_def snoc)
  ultimately show ?thesis by auto
qed

section \<open>The merge loop\<close>

definition shard_digest :: "(bytes \<Rightarrow> bytes) \<Rightarrow> ck_profile_shard \<Rightarrow> bytes" where
  "shard_digest sha s = (case serialize_profile_shard sha s of Inl _ \<Rightarrow> [] | Inr bs \<Rightarrow> sha bs)"

definition compatible :: "(bytes \<Rightarrow> bytes) \<Rightarrow> ck_profile_shard \<Rightarrow> ck_profile_shard \<Rightarrow> bool" where
  "compatible sha first s \<longleftrightarrow>
     (\<exists>bs. serialize_profile_shard sha s = Inr bs) \<and>
     shard_identity s = shard_identity first \<and> shard_sites s = shard_sites first"

definition mergeable :: "(bytes \<Rightarrow> bytes) \<Rightarrow> ck_profile_shard list \<Rightarrow> bool" where
  "mergeable sha shards \<longleftrightarrow>
     distinct (map run_id shards) \<and> distinct (map (shard_digest sha) shards) \<and>
     (\<forall>s \<in> set shards. compatible sha (hd shards) s)"

definition merged_state :: "(bytes \<Rightarrow> bytes) \<Rightarrow> ck_profile_shard list \<Rightarrow> merge_state" where
  "merged_state sha shards =
     \<lparr>run_ids = rev (map run_id shards), shard_digests = rev (map (shard_digest sha) shards),
      merged_counters = table_sum (map shard_counters shards),
      merge_overflowed = list_ex (\<lambda>s. shard_overflowed s \<or> any_saturated (shard_counters s)) shards \<or>
        tables_too_large (map shard_counters shards),
      merge_incomplete = list_ex shard_incomplete shards\<rparr>"

text \<open>The profile of mergeable shards.\<close>

definition merged_profile :: "ck_profile_shard list \<Rightarrow> ck_profile" where
  "merged_profile shards =
     \<lparr>profile_identity = shard_identity (hd shards), profile_sites = shard_sites (hd shards),
      profile_counters = table_sum (map shard_counters shards),
      completed_runs = word_of_nat (length shards), merged_shards = word_of_nat (length shards),
      profile_overflowed =
        list_ex (\<lambda>s. shard_overflowed s \<or> any_saturated (shard_counters s)) shards \<or>
        tables_too_large (map shard_counters shards),
      profile_incomplete = list_ex shard_incomplete shards\<rparr>"

lemma matching_shape:
  "counter_matches_site c k \<Longrightarrow> counter_matches_site d k \<Longrightarrow>
     counter_value_typed c \<Longrightarrow> counter_value_typed d \<Longrightarrow> same_shape c d"
  by (cases c; cases d; cases k) auto

lemma validate_tables_nth:
  assumes "validate_tables sha i sites cs = Inr u"
  shows "length sites = length cs"
    and "k < length cs \<Longrightarrow> site_id (sites ! k) = counter_site_id (cs ! k)"
    and "k < length cs \<Longrightarrow> counter_matches_site (counter (cs ! k)) (site_kind (sites ! k))"
proof -
  have *: "length sites = length cs" "\<not> list_ex (\<lambda>(site, c). site_id site \<noteq> counter_site_id c \<or>
      \<not> counter_matches_site (counter c) (site_kind site)) (zip sites cs)"
    using assms by (auto simp: validate_tables_def result_guard)
  then have "\<forall>k < length cs. site_id (sites ! k) = counter_site_id (cs ! k) \<and>
      counter_matches_site (counter (cs ! k)) (site_kind (sites ! k))"
    by (auto simp: list_ex_iff set_zip)
  with *(1) show "length sites = length cs"
    "k < length cs \<Longrightarrow> site_id (sites ! k) = counter_site_id (cs ! k)"
    "k < length cs \<Longrightarrow> counter_matches_site (counter (cs ! k)) (site_kind (sites ! k))" by auto
qed

lemma shards_match:
  assumes "serialize_profile_shard sha a = Inr bs" "serialize_profile_shard sha b = Inr bs'"
    "shard_typed a" "shard_typed b" "shard_sites a = shard_sites b"
  shows "tables_match (shard_counters a) (shard_counters b)"
proof -
  obtain u u' where v: "validate_tables sha (shard_identity a) (shard_sites a) (shard_counters a) = Inr u"
    "validate_tables sha (shard_identity b) (shard_sites b) (shard_counters b) = Inr u'"
    using assms(1,2) by (auto simp: serialize_profile_shard_def)
  show ?thesis
    using validate_tables_nth [OF v(1)] validate_tables_nth [OF v(2)] assms(3-5)
    by (auto simp: tables_match_def shard_typed_def list_all_length counter_typed_def
      intro!: matching_shape)
qed

lemma merge_step_iff:
  assumes P: "P \<noteq> []" "mergeable sha P" and typed: "list_all shard_typed (s # P)"
  shows "merge_step sha debug_str (hd P) False s (merged_state sha P) = Inr st \<longleftrightarrow>
    mergeable sha (P @ [s]) \<and> st = merged_state sha (P @ [s])"
proof -
  have match: "tables_match (shard_counters (hd P)) (shard_counters s)"
    if "serialize_profile_shard sha s = Inr bs" "shard_sites (hd P) = shard_sites s" for bs
  proof -
    have "hd P \<in> set P" using P(1) by simp
    with P(2) obtain bs' where "serialize_profile_shard sha (hd P) = Inr bs'"
      by (auto simp: mergeable_def compatible_def)
    from shards_match [OF this that(1)] \<open>hd P \<in> set P\<close> typed that(2)
    show ?thesis by (auto simp: list_all_iff)
  qed
  have add: "add_counter_tables (table_sum (map shard_counters P)) (shard_counters s)
      (list_ex (\<lambda>s. shard_overflowed s \<or> any_saturated (shard_counters s)) P \<or>
       tables_too_large (map shard_counters P)) =
      Inr (table_sum (map shard_counters (P @ [s])),
        list_ex (\<lambda>s. shard_overflowed s \<or> any_saturated (shard_counters s)) P \<or>
        tables_too_large (map shard_counters (P @ [s])))"
    if "serialize_profile_shard sha s = Inr bs" "shard_sites (hd P) = shard_sites s" for bs
    using table_sum_snoc [of "map shard_counters P" "shard_counters s"] match [OF that] P(1)
    by (simp add: hd_map)
  have "mergeable sha (P @ [s]) \<longleftrightarrow> compatible sha (hd P) s \<and>
      shard_digest sha s \<notin> shard_digest sha ` set P \<and> run_id s \<notin> run_id ` set P"
    using P by (auto simp: mergeable_def)
  then have merge: "mergeable sha (P @ [s]) \<longleftrightarrow>
      (\<exists>bs. serialize_profile_shard sha s = Inr bs \<and> sha bs \<notin> shard_digest sha ` set P) \<and>
      run_id s \<notin> run_id ` set P \<and> shard_identity (hd P) = shard_identity s \<and>
      shard_sites (hd P) = shard_sites s"
    by (auto simp: compatible_def shard_digest_def)
  show ?thesis
  proof (cases "serialize_profile_shard sha s")
    case (Inl e)
    then show ?thesis by (auto simp: merge merge_step_def)
  next
    case (Inr bs)
    then have digest: "shard_digest sha s = sha bs" by (simp add: shard_digest_def)
    show ?thesis
    proof (cases "shard_identity (hd P) = shard_identity s \<and> shard_sites (hd P) = shard_sites s")
      case True
      then have "first_mismatch debug_str (shard_identity (hd P)) (shard_identity s) = None"
        by (simp add: first_mismatch_None)
      with True add [OF Inr] show ?thesis
        unfolding merge merge_step_def Inr result_bind.simps Let_def result_guard option.case
        by (simp add: merged_state_def digest Inr disj_ac) blast
    next
      case False
      then have "merge_step sha debug_str (hd P) False s (merged_state sha P) \<noteq> Inr st"
        using first_mismatch_None [of debug_str "shard_identity (hd P)" "shard_identity s"]
        unfolding merge_step_def Inr result_bind.simps Let_def result_guard
        by (simp split: option.splits prod.splits)
      with False show ?thesis unfolding merge by blast
    qed
  qed
qed

lemma merge_loop_iff:
  assumes "P \<noteq> []" "mergeable sha P" "list_all shard_typed (P @ rest)"
  shows "merge_loop sha debug_str (hd P) False rest (merged_state sha P) = Inr st \<longleftrightarrow>
    mergeable sha (P @ rest) \<and> st = merged_state sha (P @ rest)"
  using assms
proof (induction rest arbitrary: P)
  case Nil
  then show ?case by auto
next
  case (Cons s rest)
  have prefix: "mergeable sha (P @ [s])" if "mergeable sha (P @ s # rest)"
    using that Cons.prems(1) by (auto simp: mergeable_def)
  have step: "merge_step sha debug_str (hd P) False s (merged_state sha P) = Inr st \<longleftrightarrow>
      mergeable sha (P @ [s]) \<and> st = merged_state sha (P @ [s])" for st
    by (rule merge_step_iff) (use Cons.prems in auto)
  have "merge_loop sha debug_str (hd P) False (s # rest) (merged_state sha P) = Inr st \<longleftrightarrow>
      mergeable sha (P @ [s]) \<and>
      merge_loop sha debug_str (hd (P @ [s])) False rest (merged_state sha (P @ [s])) = Inr st"
    using step by (simp add: Cons.prems(1))
  also have "\<dots> \<longleftrightarrow> mergeable sha (P @ [s]) \<and>
      mergeable sha ((P @ [s]) @ rest) \<and> st = merged_state sha ((P @ [s]) @ rest)"
    using Cons.IH [of "P @ [s]"] Cons.prems by auto
  finally show ?case using prefix by auto
qed

lemma table_sum_single: "table_sum [t] = t"
  by (auto simp: table_sum_def table_counters_def intro: nth_equalityI)

lemma not_too_large_single: "\<not> tables_too_large [t]"
proof -
  have "\<not> too_large [c]" for c
    using unsigned_less [where ?'a = nat and ?'b = 64] by (auto simp: too_large_def cell_total_def not_le)
  then show ?thesis by (simp add: tables_too_large_def table_counters_def)
qed

lemma merge_profile_shards_iff:
  assumes "list_all shard_typed shards"
  shows "merge_profile_shards sha debug_str shards = Inr p \<longleftrightarrow>
    shards \<noteq> [] \<and> length shards \<le> 4096 \<and> mergeable sha shards \<and> p = merged_profile shards"
proof (cases shards)
  case Nil
  then show ?thesis by (simp add: merge_profile_shards_def)
next
  case (Cons first rest)
  have init: "merge_step sha debug_str first True first
        \<lparr>run_ids = [], shard_digests = [], merged_counters = shard_counters first,
         merge_overflowed = shard_overflowed first \<or> any_saturated (shard_counters first),
         merge_incomplete = shard_incomplete first\<rparr> = Inr st \<longleftrightarrow>
      mergeable sha [first] \<and> st = merged_state sha [first]" for st
    using first_mismatch_None [of debug_str "shard_identity first" "shard_identity first"]
    by (cases "serialize_profile_shard sha first")
      (auto simp: merge_step_def mergeable_def compatible_def merged_state_def shard_digest_def Let_def
        table_sum_single not_too_large_single)
  have prefix: "mergeable sha [first]" if "mergeable sha (first # rest)"
    using that by (auto simp: mergeable_def)
  have runs: "ucast (word_of_nat (length shards) :: 32 word) = (word_of_nat (length shards) :: 64 word)"
    if "length shards \<le> 4096"
    using that by (simp add: word_unat_eq_iff unsigned_ucast_eq unsigned_of_nat take_bit_nat_eq_self)
  have max: "unat ck_profile_max_shards = 4096" by (simp add: ck_profile_max_shards_def)
  have rest: "merge_loop sha debug_str first False rest (merged_state sha [first]) = Inr st \<longleftrightarrow>
      mergeable sha shards \<and> st = merged_state sha shards" if "mergeable sha [first]" for st
    using merge_loop_iff [of "[first]" sha rest debug_str st] that assms by (simp add: Cons)
  have loop: "merge_loop sha debug_str first True shards
        \<lparr>run_ids = [], shard_digests = [], merged_counters = shard_counters first,
         merge_overflowed = shard_overflowed first \<or> any_saturated (shard_counters first),
         merge_incomplete = shard_incomplete first\<rparr> = Inr st \<longleftrightarrow>
      mergeable sha shards \<and> st = merged_state sha shards" for st
    using prefix rest unfolding Cons by (simp add: init) blast
  have "merge_profile_shards sha debug_str shards = Inr p \<longleftrightarrow> length shards \<le> 4096 \<and>
      mergeable sha shards \<and>
      p = \<lparr>profile_identity = shard_identity first, profile_sites = shard_sites first,
           profile_counters = merged_counters (merged_state sha shards),
           completed_runs = ucast (word_of_nat (length shards) :: 32 word),
           merged_shards = word_of_nat (length shards),
           profile_overflowed = merge_overflowed (merged_state sha shards),
           profile_incomplete = merge_incomplete (merged_state sha shards)\<rparr>"
    using loop unfolding merge_profile_shards_def Cons list.case max Let_def result_guard
    by (simp add: not_less) blast
  also have "\<dots> \<longleftrightarrow> length shards \<le> 4096 \<and> mergeable sha shards \<and> p = merged_profile shards"
    using runs by (auto simp: merged_profile_def merged_state_def Cons)
  finally show ?thesis by (simp add: Cons)
qed

section \<open>The order of the shards\<close>

lemma sum_list_perm: "mset xs = mset ys \<Longrightarrow> sum_list (map f xs) = (sum_list (map f ys) :: nat)"
  by (metis mset_map sum_mset_sum_list)

lemma list_ex_perm: "mset xs = mset ys \<Longrightarrow> list_ex P xs = list_ex P ys"
  by (metis list_ex_iff set_mset_mset)

lemma hd_in_perm: "mset xs = mset ys \<Longrightarrow> xs \<noteq> [] \<Longrightarrow> hd ys \<in> set xs"
  by (metis hd_in_set mset_zero_iff set_mset_mset)

lemma mergeable_perm:
  assumes "mset a = mset b" "mergeable sha a"
  shows "mergeable sha b"
proof (cases "a = []")
  case True
  then show ?thesis using assms by simp
next
  case False
  have "distinct (map f b)" if "distinct (map f a)" for f :: "ck_profile_shard \<Rightarrow> bytes"
    using that assms(1) by (metis mset_eq_imp_distinct_iff mset_map)
  moreover have "compatible sha (hd a) (hd b)"
    using assms(2) hd_in_perm [OF assms(1) False] by (simp add: mergeable_def)
  then have "compatible sha (hd b) s" if "s \<in> set b" for s
    using that assms by (auto simp: mergeable_def compatible_def dest: mset_eq_setD)
  ultimately show ?thesis using assms(2) by (simp add: mergeable_def)
qed

lemma counter_sum_perm:
  assumes "mset cs = mset ds" "same_shape (hd cs) (hd ds)"
  shows "counter_sum cs = counter_sum ds" "too_large cs = too_large ds"
proof -
  have totals: "cell_total i cs = cell_total i ds" for i
    unfolding cell_total_def by (rule sum_list_perm) (rule assms(1))
  note len = same_shape_length [OF assms(2)]
  show large: "too_large cs = too_large ds" by (simp add: too_large_def totals len)
  show "counter_sum cs = counter_sum ds"
    using list_ex_perm [OF assms(1), of marked]
    by (simp add: counter_sum_def totals len large fill_same_shape [OF assms(2)])
qed

lemma merged_profile_perm:
  assumes perm: "mset a = mset b" and "a \<noteq> []" "mergeable sha a" "list_all shard_typed a"
  shows "merged_profile a = merged_profile b"
proof -
  have b: "hd b \<in> set a" "hd a \<in> set a" "b \<noteq> []"
    using hd_in_perm [OF perm] assms(2) perm by auto
  then have "compatible sha (hd a) (hd b)" "compatible sha (hd a) (hd a)"
    using assms(3) by (auto simp: mergeable_def)
  then have same: "shard_identity (hd b) = shard_identity (hd a)" "shard_sites (hd b) = shard_sites (hd a)"
    and ser: "\<exists>x y. serialize_profile_shard sha (hd a) = Inr x \<and> serialize_profile_shard sha (hd b) = Inr y"
    by (auto simp: compatible_def)
  have match: "tables_match (shard_counters (hd a)) (shard_counters (hd b))"
    using ser shards_match b(1,2) assms(4) same(2) by (auto simp: list_all_iff)
  have k: "counter_sum (table_counters (map shard_counters a) k) = counter_sum (table_counters (map shard_counters b) k)"
      "too_large (table_counters (map shard_counters a) k) = too_large (table_counters (map shard_counters b) k)"
    if "k < length (shard_counters (hd a))" for k
    using that match assms(2) b(3) perm
    by (intro counter_sum_perm; simp add: table_counters_def mset_map hd_map tables_match_def)+
  have "table_sum (map shard_counters a) = table_sum (map shard_counters b)"
    using k(1) match assms(2) b(3)
    by (auto simp: table_sum_def hd_map tables_match_def)
  moreover have "tables_too_large (map shard_counters a) = tables_too_large (map shard_counters b)"
    using k(2) match assms(2) b(3) by (auto simp: tables_too_large_def hd_map tables_match_def)
  ultimately show ?thesis
    using same list_ex_perm [OF perm] mset_eq_length [OF perm] by (simp add: merged_profile_def)
qed

end
