(* ===== verification/Profile_Template.thy ===== *)
theory Profile_Template
  imports Profile_Merge
begin

text \<open>
  The shard template of the collector (\<^verbatim>\<open>src/src/profile/generation.rs\<close>): the bytes of a shard
  with zero counters, and the offsets at which the running program patches its counters, its
  run identifier and its flags. Anchoring the output directory is a matter of the file system
  and not modelled.
\<close>

section \<open>Definitions\<close>

definition ck_profile_no_wire_offset :: "32 word" where
  "ck_profile_no_wire_offset = - 1"

record ck_profile_shard_template =
  template_bytes :: bytes
  counter_offsets :: "32 word list"
  site_first_counters :: "32 word list"
  site_counter_counts :: "32 word list"
  site_saturation_offsets :: "32 word list"
  run_id_offset :: "32 word"
  overflow_flag_offset :: "32 word"
  digest_offset :: "32 word"

fun zero_counter :: "ck_profile_site_kind \<Rightarrow> ck_profile_counter" where
  "zero_counter FunctionEntry = Scalar 0"
| "zero_counter (Edge _ _ _) = Scalar 0"
| "zero_counter (LoopTripHistogram _) = Histogram (replicate 16 0) False"
| "zero_counter (SliceLengthHistogram _) = Histogram (replicate 16 0) False"
| "zero_counter (CandidateConstantSite _ candidates) =
     CandidateConstant (replicate (length candidates) 0) 0 False"

definition zero_counters :: "ck_profile_site_descriptor list \<Rightarrow> ck_profile_counter_record list" where
  "zero_counters sites =
     map (\<lambda>s. \<lparr>counter_site_id = site_id s, counter = zero_counter (site_kind s)\<rparr>) sites"

definition checked_u32 :: "nat \<Rightarrow> 32 word profile_result" where
  "checked_u32 n = (if n < 2 ^ 32 then Inr (word_of_nat n) else Inl LengthOverflow)"

definition advance_wire :: "32 word \<Rightarrow> 32 word \<Rightarrow> 32 word profile_result" where
  "advance_wire wire n =
     (case checked_add wire n of None \<Rightarrow> Inl LengthOverflow | Some w \<Rightarrow> Inr w)"

fun cell_offsets :: "nat \<Rightarrow> 32 word \<Rightarrow> (32 word list \<times> 32 word) profile_result" where
  "cell_offsets 0 wire = Inr ([], wire)"
| "cell_offsets (Suc n) wire =
     result_bind (advance_wire wire 8) (\<lambda>next_wire.
     result_bind (cell_offsets n next_wire) (\<lambda>(offsets, last_wire).
     Inr (wire # offsets, last_wire)))"

type_synonym layout = "32 word list \<times> 32 word list \<times> 32 word list \<times> 32 word list"

text \<open>The loop of \<open>counter_layout\<close>; \<open>n\<close> is the number of cell offsets pushed so far. It yields
  the cell offsets, and for each site the index of its first cell, the number of its cells and
  the offset of its saturation byte.\<close>

fun layout_loop :: "nat \<Rightarrow> 32 word \<Rightarrow> ck_profile_counter_record list \<Rightarrow> layout profile_result" where
  "layout_loop n wire [] = Inr ([], [], [], [])"
| "layout_loop n wire (r # rs) =
     result_bind (advance_wire wire 17) (\<lambda>wire.
     result_bind (checked_u32 n) (\<lambda>first.
     case counter r of
       Scalar _ \<Rightarrow>
         result_bind (advance_wire wire 8) (\<lambda>w.
         result_bind (layout_loop (n + 1) w rs) (\<lambda>(offs, firsts, counts, sats).
         Inr (wire # offs, first # firsts, 1 # counts, ck_profile_no_wire_offset # sats)))
     | Histogram _ _ \<Rightarrow>
         result_bind (cell_offsets 16 wire) (\<lambda>(cs, sat).
         result_bind (advance_wire sat 1) (\<lambda>w.
         result_bind (layout_loop (n + 16) w rs) (\<lambda>(offs, firsts, counts, sats).
         Inr (cs @ offs, first # firsts, 16 # counts, sat # sats))))
     | CandidateConstant candidates _ _ \<Rightarrow>
         result_bind (advance_wire wire 1) (\<lambda>wire.
         result_bind (cell_offsets (length candidates + 1) wire) (\<lambda>(cs, sat).
         result_bind (checked_u32 (length candidates + 1)) (\<lambda>count.
         result_bind (advance_wire sat 1) (\<lambda>w.
         result_bind (layout_loop (n + length candidates + 1) w rs) (\<lambda>(offs, firsts, counts, sats).
         Inr (cs @ offs, first # firsts, count # counts, sat # sats))))))))"

definition counter_layout :: "ck_profile_counter_record list \<Rightarrow> 32 word \<Rightarrow> layout profile_result" where
  "counter_layout counters payload_offset =
     result_bind (advance_wire payload_offset 4) (\<lambda>wire. layout_loop 0 wire counters)"

definition create_profile_shard_template ::
  "(bytes \<Rightarrow> bytes) \<Rightarrow> ck_profile_identity \<Rightarrow> ck_profile_site_descriptor list \<Rightarrow>
   ck_profile_shard_template profile_result" where
  "create_profile_shard_template sha identity sites =
     (let counters = zero_counters sites in
      result_bind (canonical_bytes identity) (\<lambda>identity_part.
      result_bind (encode_sites sites) (\<lambda>site_part.
      result_bind (encode_counters counters) (\<lambda>counter_part.
      result_bind (checked_u32 (12 + 6 + length identity_part + 6 + length site_part + 6)) (\<lambda>payload.
      result_bind (counter_layout counters payload) (\<lambda>(offs, firsts, counts, sats).
      result_bind (checked_u32 (unat payload + length counter_part + 6)) (\<lambda>run_offset.
      result_bind (advance_wire run_offset 16) (\<lambda>w.
      result_bind (advance_wire w 6) (\<lambda>flag_offset.
      result_bind (serialize_profile_shard sha
        \<lparr>shard_identity = identity, shard_sites = sites, shard_counters = counters,
         run_id = replicate 16 0, shard_overflowed = False, shard_incomplete = False\<rparr>) (\<lambda>bytes.
      if length bytes < 32 then Inl LengthOverflow
      else result_bind (checked_u32 (length bytes - 32)) (\<lambda>digest.
      if length bytes \<le> unat flag_offset \<or> length bytes < unat run_offset + 16
      then Inl LengthOverflow
      else Inr \<lparr>template_bytes = bytes, counter_offsets = offs, site_first_counters = firsts,
                site_counter_counts = counts, site_saturation_offsets = sats,
                run_id_offset = run_offset, overflow_flag_offset = flag_offset,
                digest_offset = digest\<rparr>)))))))))))"

section \<open>The offsets point at the counters\<close>

lemma advance_wire_iff: "advance_wire w n = Inr r \<longleftrightarrow> unat r = unat w + unat n"
  unfolding checked_add_iff [symmetric] by (auto simp: advance_wire_def split: option.splits)

lemma checked_u32_iff: "checked_u32 n = Inr r \<longleftrightarrow> unat r = n"
  using unsigned_less [of r, where ?'a = nat]
  by (auto simp: checked_u32_def word_unat_eq_iff unsigned_of_nat take_bit_nat_eq_self)

definition reads :: "bytes \<Rightarrow> 32 word \<Rightarrow> 64 word \<Rightarrow> bool" where
  "reads bs off v \<longleftrightarrow> take 8 (drop (unat off) bs) = word_bytes v"

lemma length_u64 [simp]: "length (word_bytes (v :: 64 word)) = 8"
  by simp

lemma drop_append_at: "drop n bs = a @ rest \<Longrightarrow> drop (n + length a) bs = rest"
  by (metis append_eq_conv_conj drop_drop add.commute)

lemma cell_offsets_reads:
  "cell_offsets (length vs) wire = Inr (offs, last_wire) \<Longrightarrow>
   drop (unat wire) bs = concat (map word_bytes vs) @ rest \<Longrightarrow>
     list_all2 (reads bs) offs vs \<and> unat last_wire = unat wire + 8 * length vs \<and>
     drop (unat last_wire) bs = rest"
proof (induction vs arbitrary: wire offs)
  case Nil
  then show ?case by simp
next
  case (Cons v vs)
  from Cons.prems(1) obtain w offs' where w: "unat w = unat wire + 8" "offs = wire # offs'"
      "cell_offsets (length vs) w = Inr (offs', last_wire)"
    by (auto simp: advance_wire_iff)
  have "drop (unat w) bs = concat (map word_bytes vs) @ rest"
    using drop_append_at [of "unat wire" bs "word_bytes v"] Cons.prems(2) w(1) by simp
  from Cons.IH [OF w(3) this] have "list_all2 (reads bs) offs' vs"
    "unat last_wire = unat w + 8 * length vs" "drop (unat last_wire) bs = rest" by blast+
  moreover have "reads bs wire v" using Cons.prems(2) by (simp add: reads_def)
  ultimately show ?case using w(1,2) by auto
qed

definition site_located :: "bytes \<Rightarrow> ck_profile_counter \<Rightarrow> 32 word list \<Rightarrow> 32 word \<Rightarrow> bool" where
  "site_located bs c offs sat \<longleftrightarrow> list_all2 (reads bs) offs (cells c) \<and>
     (case c of Scalar _ \<Rightarrow> sat = ck_profile_no_wire_offset
      | _ \<Rightarrow> unat sat < length bs \<and> bs ! unat sat = bool_byte (marked c))"

lemma nth_drop_Cons: "drop n bs = b # rest \<Longrightarrow> n < length bs \<and> bs ! n = b"
  by (metis drop_all leI list.distinct(1) list.inject Cons_nth_drop_Suc)

text \<open>One record: what the loop does for it, and where the bytes go on.\<close>

lemma layout_record:
  assumes "layout_loop n wire (r # rs) = Inr (offs, firsts, counts, sats)"
    and "same_shape (counter r) c" "counter_value_typed (counter r)" "length sid = 16"
    and "drop (unat wire) bs = sid @ counter_value_bytes c @ rest"
  obtains cs offs' firsts' counts' sats' w sat where
    "offs = cs @ offs'" "firsts = word_of_nat n # firsts'" "n < 2 ^ 32"
    "counts = word_of_nat (length cs) # counts'" "length cs < 2 ^ 32" "sats = sat # sats'"
    "site_located bs c cs sat" "drop (unat w) bs = rest"
    "layout_loop (n + length cs) w rs = Inr (offs', firsts', counts', sats')"
proof -
  obtain wire1 where wire1: "advance_wire wire 17 = Inr wire1"
    using assms(1) by (cases "advance_wire wire 17") auto
  have "checked_u32 n \<noteq> Inl LengthOverflow" using assms(1) by (auto simp: wire1)
  then have w1: "unat wire1 = unat wire + 17" "n < 2 ^ 32"
    using wire1 by (auto simp: advance_wire_iff checked_u32_def split: if_splits)
  have first: "checked_u32 n = Inr (word_of_nat n)" using w1(2) by (simp add: checked_u32_def)
  have tagged: "drop (unat wire + 16) bs = counter_value_bytes c @ rest"
    using drop_append_at [OF assms(5)] assms(4) by simp
  then have body: "drop (unat wire1) bs = tl (counter_value_bytes c @ rest)"
    unfolding w1(1) by (metis One_nat_def add.assoc drop_Suc drop_drop numeral_plus_one semiring_norm(5) semiring_norm(2) tl_drop add.commute drop0 plus_1_eq_Suc)
  show thesis
  proof (cases c)
    case (Scalar v)
    then obtain u where r: "counter r = Scalar u" using assms(2) by (cases "counter r") auto
    from assms(1) obtain w l where *: "unat w = unat wire1 + 8" "layout_loop (n + 1) w rs = Inr l"
      "(offs, firsts, counts, sats) = (case l of (a, b, c, d) \<Rightarrow>
         (wire1 # a, word_of_nat n # b, 1 # c, ck_profile_no_wire_offset # d))"
      by (auto simp: r wire1 first advance_wire_iff split: prod.splits)
    obtain a b c' d where l: "l = (a, b, c', d)" by (cases l)
    have at: "drop (unat wire1) bs = word_bytes v @ rest" using body by (simp add: Scalar)
    show thesis
      by (rule that [of "[wire1]" a b c' ck_profile_no_wire_offset d w])
        (use * l at w1(2) drop_append_at [OF at] in \<open>auto simp: site_located_def Scalar reads_def\<close>)
  next
    case (Histogram vs s)
    then obtain us s' where r: "counter r = Histogram us s'" "length us = 16" "length vs = 16"
      using assms(2,3) by (cases "counter r") auto
    from assms(1) obtain cs sat w l where *: "cell_offsets 16 wire1 = Inr (cs, sat)" "unat w = unat sat + 1"
      "layout_loop (n + 16) w rs = Inr l"
      "(offs, firsts, counts, sats) = (case l of (a, b, c, d) \<Rightarrow>
         (cs @ a, word_of_nat n # b, 16 # c, sat # d))"
      by (auto simp: r wire1 first advance_wire_iff simp del: cell_offsets.simps split: prod.splits)
    obtain a b c' d where l: "l = (a, b, c', d)" by (cases l)
    have at: "drop (unat wire1) bs = concat (map word_bytes vs) @ bool_byte s # rest"
      using body by (simp add: Histogram)
    have "cell_offsets (length vs) wire1 = Inr (cs, sat)" using *(1) r(3) by simp
    from cell_offsets_reads [OF this at]
    have located: "list_all2 (reads bs) cs vs" "drop (unat sat) bs = bool_byte s # rest" by blast+
    have "length cs = 16" using located(1) r(3) by (simp add: list_all2_lengthD)
    then show thesis
      by (intro that [of cs a b c' sat d w])
        (use * l w1(2) located nth_drop_Cons [OF located(2)] drop_append_at [of "unat sat" bs "[bool_byte s]" rest] in
          \<open>auto simp: site_located_def Histogram\<close>)
  next
    case (CandidateConstant vs v s)
    then obtain us u s' where r: "counter r = CandidateConstant us u s'" "length us = length vs"
      using assms(2) by (cases "counter r") auto
    from assms(1) obtain wire2 cs sat w l where *: "unat wire2 = unat wire1 + 1"
      "cell_offsets (Suc (length vs)) wire2 = Inr (cs, sat)" "length vs + 1 < 2 ^ 32" "unat w = unat sat + 1"
      "layout_loop (n + length vs + 1) w rs = Inr l"
      "(offs, firsts, counts, sats) = (case l of (a, b, c, d) \<Rightarrow>
         (cs @ a, word_of_nat n # b, word_of_nat (length vs + 1) # c, sat # d))"
      by (auto simp: r wire1 first advance_wire_iff checked_u32_def simp del: cell_offsets.simps
        split: prod.splits if_splits)
    obtain a b c' d where l: "l = (a, b, c', d)" by (cases l)
    have "drop (unat wire1) bs = [word_of_nat (length vs)] @ concat (map word_bytes (vs @ [v])) @ bool_byte s # rest"
      using body by (simp add: CandidateConstant candidate_bytes_def)
    from drop_append_at [OF this] have at:
      "drop (unat wire2) bs = concat (map word_bytes (vs @ [v])) @ bool_byte s # rest"
      unfolding *(1) by simp
    have "cell_offsets (length (vs @ [v])) wire2 = Inr (cs, sat)" using *(2) by simp
    from cell_offsets_reads [OF this at]
    have located: "list_all2 (reads bs) cs (vs @ [v])" "drop (unat sat) bs = bool_byte s # rest" by blast+
    have "length cs = length vs + 1" using list_all2_lengthD [OF located(1)] by simp
    then show thesis
      by (intro that [of cs a b c' sat d w])
        (use * l w1(2) located nth_drop_Cons [OF located(2)] drop_append_at [of "unat sat" bs "[bool_byte s]" rest] in
          \<open>auto simp: site_located_def CandidateConstant\<close>)
  qed
qed

definition fills :: "ck_profile_counter_record \<Rightarrow> ck_profile_counter_record \<Rightarrow> bool" where
  "fills r c \<longleftrightarrow> same_shape (counter r) (counter c) \<and> counter_value_typed (counter r) \<and>
     length (counter_site_id r) = 16 \<and> length (counter_site_id c) = 16"

lemma layout_loop_located:
  assumes "layout_loop n wire rs = Inr (offs, firsts, counts, sats)" "list_all2 fills rs cs"
    "drop (unat wire) bs = concat (map counter_bytes cs) @ rest" "k < length rs"
  shows "n \<le> unat (firsts ! k) \<and> site_located bs (counter (cs ! k))
    (take (unat (counts ! k)) (drop (unat (firsts ! k) - n) offs)) (sats ! k)"
  using assms
proof (induction rs arbitrary: n wire offs firsts counts sats cs k)
  case Nil
  then show ?case by simp
next
  case (Cons r rs)
  from Cons.prems(2) obtain c cs' where cs: "cs = c # cs'" "fills r c" "list_all2 fills rs cs'"
    by (auto simp: list_all2_Cons1)
  have at: "drop (unat wire) bs = counter_site_id c @ counter_value_bytes (counter c) @
      concat (map counter_bytes cs') @ rest"
    using Cons.prems(3) by (simp add: cs(1) counter_bytes_def [of c])
  obtain os offs' firsts' counts' sats' w sat where *:
    "offs = os @ offs'" "firsts = word_of_nat n # firsts'" "n < 2 ^ 32"
    "counts = word_of_nat (length os) # counts'" "length os < 2 ^ 32" "sats = sat # sats'"
    "site_located bs (counter c) os sat" "drop (unat w) bs = concat (map counter_bytes cs') @ rest"
    "layout_loop (n + length os) w rs = Inr (offs', firsts', counts', sats')"
    using cs(2) by (auto simp: fills_def intro: layout_record [OF Cons.prems(1) _ _ _ at])
  show ?case
  proof (cases k)
    case 0
    then show ?thesis using *(3,5,7)
      by (simp add: *(1,2,4,6) cs(1) unsigned_of_nat take_bit_nat_eq_self)
  next
    case (Suc j)
    with Cons.prems(4) have "j < length rs" by simp
    from Cons.IH [OF *(9) cs(3) *(8) this] have
      "n + length os \<le> unat (firsts' ! j)"
      "site_located bs (counter (cs' ! j))
        (take (unat (counts' ! j)) (drop (unat (firsts' ! j) - (n + length os)) offs')) (sats' ! j)"
      by blast+
    moreover from this(1) have "drop (unat (firsts' ! j) - n) (os @ offs') =
        drop (unat (firsts' ! j) - (n + length os)) offs'" by simp
    ultimately show ?thesis by (simp add: Suc *(1,2,4,6) cs(1))
  qed
qed

lemma same_shape_bytes:
  "same_shape r c \<Longrightarrow> length (counter_value_bytes r) = length (counter_value_bytes c)"
  by (cases r; cases c) (auto simp: candidate_bytes_def length_concat comp_def sum_list_triv)

lemma fills_table_length:
  "list_all2 fills rs cs \<Longrightarrow> length (table_bytes counter_bytes rs) = length (table_bytes counter_bytes cs)"
  unfolding table_bytes_def
  by (induction rule: list_all2_induct) (auto simp: fills_def counter_bytes_def same_shape_bytes)

lemma zero_counter_shape:
  "counter_matches_site c k \<Longrightarrow> counter_value_typed c \<Longrightarrow> same_shape (zero_counter k) c"
  "counter_value_typed (zero_counter k)"
  by (cases c; cases k; simp) (cases k; simp)

lemma shard_fills:
  assumes "serialize_profile_shard sha s = Inr bs" "shard_typed s"
  shows "list_all2 fills (zero_counters (shard_sites s)) (shard_counters s)"
proof -
  obtain u where v: "validate_tables sha (shard_identity s) (shard_sites s) (shard_counters s) = Inr u"
    using assms(1) by (auto simp: serialize_profile_shard_def)
  note v = validate_tables_nth [OF v]
  have ids: "length (site_id x) = 16" if "x \<in> set (shard_sites s)" for x
    using assms(2) that by (simp add: shard_typed_def list_all_iff site_typed_def)
  have cs: "length (counter_site_id x) = 16 \<and> counter_value_typed (counter x)" if "x \<in> set (shard_counters s)" for x
    using assms(2) that by (simp add: shard_typed_def list_all_iff counter_typed_def)
  show ?thesis
    using v ids cs zero_counter_shape by (auto simp: list_all2_conv_all_nth zero_counters_def fills_def)
qed

definition shard_fields :: "ck_profile_shard \<Rightarrow> (16 word \<times> bytes) list" where
  "shard_fields s =
     [(1, identity_bytes (shard_identity s)), (2, table_bytes site_bytes (shard_sites s)),
      (3, table_bytes counter_bytes (shard_counters s)), (4, run_id s),
      (5, encode_flags (shard_overflowed s) (shard_incomplete s))]"

lemma serialize_shard_bytes:
  assumes "serialize_profile_shard sha s = Inr bs"
  shows "bs = outer_bytes sha shard_magic shard_domain (shard_fields s)"
  using assms by (auto simp: serialize_profile_shard_def canonical_bytes_iff encode_sites_iff
    encode_counters_iff encode_outer_iff shard_fields_def)

definition payload_offset :: "ck_profile_identity \<Rightarrow> ck_profile_site_descriptor list \<Rightarrow> nat" where
  "payload_offset i sites =
     12 + 6 + length (identity_bytes i) + 6 + length (table_bytes site_bytes sites) + 6"

text \<open>Where the parts of a shard's bytes are.\<close>

lemma shard_positions:
  assumes "bs = outer_bytes sha shard_magic shard_domain (shard_fields s)" "length (run_id s) = 16"
    and "\<And>x. length (sha x) = 32"
  defines "p \<equiv> payload_offset (shard_identity s) (shard_sites s)"
    and "n \<equiv> length (table_bytes counter_bytes (shard_counters s))"
  shows "\<exists>rest. drop (p + 4) bs = concat (map counter_bytes (shard_counters s)) @ rest"
    and "take 16 (drop (p + n + 6) bs) = run_id s"
    and "take 2 (drop (p + n + 28) bs) = encode_flags (shard_overflowed s) (shard_incomplete s)"
    and "length bs = p + n + 62"
proof -
  let ?head = "shard_magic @ word_bytes ck_profile_format_schema @
    field_bytes (1, identity_bytes (shard_identity s)) @ field_bytes (2, table_bytes site_bytes (shard_sites s)) @
    word_bytes (3 :: 16 word) @ word_bytes (word_of_nat n :: 32 word)"
  let ?flags = "encode_flags (shard_overflowed s) (shard_incomplete s)"
  have flags: "length ?flags = 2" by (simp add: encode_flags_def)
  obtain d where bs: "bs = ?head @ table_bytes counter_bytes (shard_counters s) @
      (word_bytes (4 :: 16 word) @ word_bytes (16 :: 32 word)) @ run_id s @
      (word_bytes (5 :: 16 word) @ word_bytes (2 :: 32 word)) @ ?flags @ d" "length d = 32"
    using assms(1-3) flags by (simp add: outer_bytes_def shard_fields_def field_bytes_def Let_def n_def)
  have head: "length ?head = p" by (simp add: p_def payload_offset_def)
  have 0: "drop p bs = table_bytes counter_bytes (shard_counters s) @
      (word_bytes (4 :: 16 word) @ word_bytes (16 :: 32 word)) @ run_id s @
      (word_bytes (5 :: 16 word) @ word_bytes (2 :: 32 word)) @ ?flags @ d"
    using bs(1) unfolding head [symmetric] by simp
  then show "\<exists>rest. drop (p + 4) bs = concat (map counter_bytes (shard_counters s)) @ rest"
    using drop_append_at [of p bs "word_bytes (word_of_nat (length (shard_counters s)) :: 32 word)"]
    by (simp add: table_bytes_def)
  note 1 = drop_append_at [OF 0, folded n_def]
  note 2 = drop_append_at [OF 1]
  note 3 = drop_append_at [OF 2]
  note 4 = drop_append_at [OF 3]
  show "take 16 (drop (p + n + 6) bs) = run_id s" using 2 assms(2) by simp
  show "take 2 (drop (p + n + 28) bs) = ?flags" using 4 assms(2) flags by (simp add: add.commute add.left_commute)
  show "length bs = p + n + 62" using bs head assms(2) flags by (simp add: n_def)
qed

lemma create_template_facts:
  assumes create: "create_profile_shard_template sha i sites = Inr t"
    and sha: "\<And>x. length (sha x) = 32"
    and s: "shard_typed s" "shard_identity s = i" "shard_sites s = sites"
    and bs: "serialize_profile_shard sha s = Inr bs"
  shows "length bs = length (template_bytes t)" "unat (digest_offset t) = length bs - 32"
    and "take 16 (drop (unat (run_id_offset t)) bs) = run_id s"
    and "take 2 (drop (unat (overflow_flag_offset t)) bs) =
      encode_flags (shard_overflowed s) (shard_incomplete s)"
    and "k < length sites \<Longrightarrow> site_located bs (counter (shard_counters s ! k))
      (take (unat (site_counter_counts t ! k)) (drop (unat (site_first_counters t ! k)) (counter_offsets t)))
      (site_saturation_offsets t ! k)"
proof -
  let ?z = "\<lparr>shard_identity = i, shard_sites = sites, shard_counters = zero_counters sites,
    run_id = replicate 16 0, shard_overflowed = False, shard_incomplete = False\<rparr>"
  obtain identity_part site_part counter_part payload offs firsts counts sats run_offset w flag_offset
      zero_bytes digest where r:
    "canonical_bytes i = Inr identity_part" "encode_sites sites = Inr site_part"
    "encode_counters (zero_counters sites) = Inr counter_part"
    "checked_u32 (12 + 6 + length identity_part + 6 + length site_part + 6) = Inr payload"
    "counter_layout (zero_counters sites) payload = Inr (offs, firsts, counts, sats)"
    "checked_u32 (unat payload + length counter_part + 6) = Inr run_offset"
    "advance_wire run_offset 16 = Inr w" "advance_wire w 6 = Inr flag_offset"
    "serialize_profile_shard sha ?z = Inr zero_bytes"
    "checked_u32 (length zero_bytes - 32) = Inr digest"
    "t = \<lparr>template_bytes = zero_bytes, counter_offsets = offs, site_first_counters = firsts,
      site_counter_counts = counts, site_saturation_offsets = sats, run_id_offset = run_offset,
      overflow_flag_offset = flag_offset, digest_offset = digest\<rparr>"
    using create unfolding create_profile_shard_template_def Let_def
    by (clarsimp simp: result_guard)
  have t: "encode_counters (zero_counters sites) = Inr counter_part"
    "unat payload = payload_offset i sites"
    "counter_layout (zero_counters sites) payload = Inr (offs, firsts, counts, sats)"
    "unat run_offset = unat payload + length counter_part + 6"
    "unat w = unat run_offset + 16" "unat flag_offset = unat w + 6"
    "serialize_profile_shard sha ?z = Inr zero_bytes" "unat digest = length zero_bytes - 32"
    "t = \<lparr>template_bytes = zero_bytes, counter_offsets = offs, site_first_counters = firsts,
      site_counter_counts = counts, site_saturation_offsets = sats, run_id_offset = run_offset,
      overflow_flag_offset = flag_offset, digest_offset = digest\<rparr>"
    using r by (simp_all add: canonical_bytes_iff encode_sites_iff checked_u32_iff advance_wire_iff
      payload_offset_def)
  note fills = shard_fills [OF bs s(1), unfolded s(3)]
  have len: "length counter_part = length (table_bytes counter_bytes (shard_counters s))"
    using t(1) fills_table_length [OF fills] by (simp add: encode_counters_iff)
  have run: "length (run_id s) = 16" using s(1) by (simp add: shard_typed_def)
  note pos = shard_positions [OF serialize_shard_bytes [OF bs] run sha, unfolded s(2,3)]
  have "length zero_bytes = payload_offset i sites + length (table_bytes counter_bytes (zero_counters sites)) + 62"
    using shard_positions(4) [OF serialize_shard_bytes [OF t(7)] _ sha] by simp
  then show length: "length bs = length (template_bytes t)"
    using pos(4) fills_table_length [OF fills] by (simp add: t(9))
  then show "unat (digest_offset t) = length bs - 32" using t(8) by (simp add: t(9))
  show "take 16 (drop (unat (run_id_offset t)) bs) = run_id s"
    using pos(2) t(2,4) len by (simp add: t(9))
  show "take 2 (drop (unat (overflow_flag_offset t)) bs) =
      encode_flags (shard_overflowed s) (shard_incomplete s)"
    using pos(3) t(2,4-6) len by (simp add: t(9) add.commute add.left_commute)
  show "site_located bs (counter (shard_counters s ! k))
      (take (unat (site_counter_counts t ! k)) (drop (unat (site_first_counters t ! k)) (counter_offsets t)))
      (site_saturation_offsets t ! k)" if "k < length sites"
  proof -
    from t(3) obtain wire where wire: "unat wire = payload_offset i sites + 4"
      "layout_loop 0 wire (zero_counters sites) = Inr (offs, firsts, counts, sats)"
      using t(2) by (auto simp: counter_layout_def advance_wire_iff)
    from pos(1) obtain rest where "drop (unat wire) bs = concat (map counter_bytes (shard_counters s)) @ rest"
      unfolding wire(1) by blast
    from layout_loop_located [OF wire(2) fills this] that show ?thesis
      by (simp add: t(9) zero_counters_def)
  qed
qed

end
