(* ===== verification/Profile_Analysis.thy ===== *)
theory Profile_Analysis
  imports Profile_Merge Ordered_Map "HOL-Library.Product_Lexorder"
begin

text \<open>
  The analysis of a profile (\<^verbatim>\<open>src/src/profile/analysis.rs\<close>): the observation of each site, the
  dynamic work and rank of each function, the choice of hot roots and the dominant outcome of
  a site. \<open>u128\<close> sums are words of 128 bits with checked operations.
\<close>

section \<open>Observations\<close>

datatype (plugins only: code size) ck_profile_unknown_reason =
  Saturated | IncompleteTripObservation | AnalysisOverflow | MappingUnavailable

datatype (plugins only: code size) ck_profile_observation =
    ObservedScalar "64 word"
  | ObservedHistogram "64 word list"
  | ObservedConstant "64 word list" "64 word"
  | Unknown ck_profile_unknown_reason

fun try_sum :: "64 word \<Rightarrow> 64 word list \<Rightarrow> 64 word option" where
  "try_sum acc [] = Some acc"
| "try_sum acc (v # vs) = Option.bind (checked_add acc v) (\<lambda>acc. try_sum acc vs)"

definition checked_sum :: "64 word list \<Rightarrow> 64 word option" where
  "checked_sum values = try_sum 0 values"

fun observation_total :: "ck_profile_observation \<Rightarrow> 64 word option" where
  "observation_total (ObservedScalar value) = Some value"
| "observation_total (ObservedHistogram values) = checked_sum values"
| "observation_total (ObservedConstant candidates other) = try_sum other candidates"
| "observation_total (Unknown _) = None"

record ck_profile_analyzed_site =
  analyzed_descriptor :: ck_profile_site_descriptor
  analyzed_observation :: ck_profile_observation

record ck_profile_work_term =
  term_site_id :: site_id
  term_function :: bytes
  static_cost_units :: "64 word"

record ck_profile_function_work =
  work_function :: bytes
  dynamic_work :: "128 word option"
  work_rank :: "32 word option"
  hot_root :: bool

record ck_profile_analysis =
  analysis_identity_digest :: bytes
  analysis_sites :: "ck_profile_analyzed_site list"
  analysis_functions :: "ck_profile_function_work list"

definition observation ::
  "ck_profile \<Rightarrow> ck_profile_site_descriptor \<Rightarrow> ck_profile_counter \<Rightarrow> ck_profile_observation" where
  "observation profile descriptor c =
     (if is_saturated c then Unknown Saturated
      else if profile_incomplete profile \<and> (\<exists>l. site_kind descriptor = LoopTripHistogram l)
      then Unknown IncompleteTripObservation
      else case c of
        Scalar value \<Rightarrow> ObservedScalar value
      | Histogram buckets _ \<Rightarrow> ObservedHistogram buckets
      | CandidateConstant candidates other _ \<Rightarrow> ObservedConstant candidates other)"

lemma is_loop_trip [code_unfold]:
  "(\<exists>l. k = LoopTripHistogram l) = (case k of LoopTripHistogram _ \<Rightarrow> True | _ \<Rightarrow> False)"
  by (cases k) auto

section \<open>Ratios\<close>

definition ratio_u128_at_least :: "128 word \<Rightarrow> 128 word \<Rightarrow> 16 word \<Rightarrow> bool" where
  "ratio_u128_at_least numerator denominator basis_points =
     (if denominator = 0 then False
      else case (checked_mul numerator 10000, checked_mul denominator (ucast basis_points)) of
        (Some left, Some right) \<Rightarrow> right \<le> left
      | _ \<Rightarrow> False)"

definition profile_ratio_at_least :: "64 word \<Rightarrow> 64 word \<Rightarrow> 16 word \<Rightarrow> bool" where
  "profile_ratio_at_least numerator denominator basis_points \<longleftrightarrow>
     denominator \<noteq> 0 \<and>
     (ucast denominator * ucast basis_points :: 128 word) \<le> ucast numerator * 10000"

definition profile_site_dominant_outcome ::
  "64 word list \<Rightarrow> 64 word \<Rightarrow> 16 word \<Rightarrow> nat option" where
  "profile_site_dominant_outcome counts minimum_observations basis_points =
     Option.bind (checked_sum counts) (\<lambda>observed.
     if observed < minimum_observations then None
     else if counts = [] then None
     else let maximum = Max (set counts) in
       Option.bind (iter_position (\<lambda>v. v = maximum) counts) (\<lambda>winner.
       if length (filter (\<lambda>v. v = maximum) counts) = 1 \<and>
          profile_ratio_at_least maximum observed basis_points
       then Some winner else None))"

definition profile_is_cold :: "64 word \<Rightarrow> 64 word \<Rightarrow> bool" where
  "profile_is_cold block_count function_entries \<longleftrightarrow>
     128 \<le> function_entries \<and> profile_ratio_at_least block_count function_entries 0 \<and>
     (ucast block_count * 10000 :: 128 word) \<le> ucast function_entries * 100"

section \<open>Dynamic work\<close>

type_synonym work_map = "(bytes, 128 word option) btree"

definition term_amount ::
  "(site_id, ck_profile_observation) btree \<Rightarrow> ck_profile_work_term \<Rightarrow> 128 word option" where
  "term_amount observations t =
     Option.bind (Option.bind (bt_get observations (term_site_id t)) observation_total) (\<lambda>count.
     checked_mul (ucast count) (ucast (static_cost_units t)))"

definition add_work :: "(site_id, ck_profile_observation) btree \<Rightarrow> ck_profile_work_term \<Rightarrow> work_map \<Rightarrow> work_map" where
  "add_work observations t work =
     (let slot = (case bt_get work (term_function t) of None \<Rightarrow> Some 0 | Some slot \<Rightarrow> slot)
      in bt_insert (term_function t)
        (case (slot, term_amount observations t) of
           (Some acc, Some amount) \<Rightarrow> checked_add acc amount
         | _ \<Rightarrow> None) work)"

definition function_work ::
  "(site_id, ck_profile_observation) btree \<Rightarrow> ck_profile_work_term list \<Rightarrow> work_map" where
  "function_work observations terms = fold (add_work observations) terms []"

fun sum_work :: "rstring \<Rightarrow> 128 word \<Rightarrow> (bytes \<times> 128 word) list \<Rightarrow> 128 word profile_result" where
  "sum_work label acc [] = Inr acc"
| "sum_work label acc ((_, v) # rest) =
     (case checked_add acc v of
        None \<Rightarrow> Inl (ArithmeticOverflow label)
      | Some acc \<Rightarrow> sum_work label acc rest)"

fun select_roots ::
  "16 word \<Rightarrow> 128 word \<Rightarrow> 128 word \<Rightarrow> (bytes \<times> 128 word) list \<Rightarrow> bytes list profile_result" where
  "select_roots coverage module_work covered [] = Inr []"
| "select_roots coverage module_work covered ((digest, v) # rest) =
     (if ratio_u128_at_least covered module_work coverage then Inr []
      else case checked_add covered v of
        None \<Rightarrow> Inl (ArithmeticOverflow (lit ''hot work coverage''))
      | Some covered \<Rightarrow>
          result_bind (select_roots coverage module_work covered rest) (\<lambda>roots. Inr (digest # roots)))"

text \<open>The order of the ranks: more work first, then the smaller digest.\<close>

definition rank_key :: "bytes \<times> 128 word \<Rightarrow> int \<times> bytes" where
  "rank_key e = (- uint (snd e), fst e)"

definition known_work :: "work_map \<Rightarrow> (bytes \<times> 128 word) list" where
  "known_work work =
     sort_key rank_key (List.map_filter (\<lambda>(digest, v). map_option (Pair digest) v) work)"

fun rank_entries :: "nat \<Rightarrow> (bytes \<times> 128 word) list \<Rightarrow> (bytes \<times> 32 word) list profile_result" where
  "rank_entries index [] = Inr []"
| "rank_entries index ((digest, _) # rest) =
     (if 2 ^ 32 \<le> index + 1 then Inl LengthOverflow
      else result_bind (rank_entries (index + 1) rest) (\<lambda>ranks.
        Inr ((digest, word_of_nat (index + 1)) # ranks)))"

definition rank_function_work ::
  "work_map \<Rightarrow> ck_profile_contract \<Rightarrow> ck_profile_function_work list profile_result" where
  "rank_function_work work limits =
     (let known = known_work work in
      result_bind (sum_work (lit ''module dynamic work'') 0 known) (\<lambda>module_work.
      let eligible = filter (\<lambda>(_, v). length known = 1 \<or>
        ratio_u128_at_least v module_work (minimum_root_work_basis_points limits)) known in
      result_bind (select_roots (hot_work_coverage_basis_points limits) module_work 0 eligible) (\<lambda>selected.
      result_bind (rank_entries 0 known) (\<lambda>entries.
      let ranks = bt_collect entries in
      Inr (map (\<lambda>(digest, v).
        \<lparr>work_function = digest, dynamic_work = v, work_rank = bt_get ranks digest,
         hot_root = (digest \<in> set selected)\<rparr>) work)))))"

definition analyze_profile ::
  "(bytes \<Rightarrow> bytes) \<Rightarrow> ck_profile \<Rightarrow> ck_profile_work_term list \<Rightarrow> ck_profile_analysis profile_result" where
  "analyze_profile sha profile work_terms =
     (let sites = map (\<lambda>(descriptor, record).
            \<lparr>analyzed_descriptor = descriptor,
             analyzed_observation = observation profile descriptor (counter record)\<rparr>)
            (zip (profile_sites profile) (profile_counters profile));
          observations = bt_collect
            (map (\<lambda>s. (site_id (analyzed_descriptor s), analyzed_observation s)) sites)
      in result_bind (rank_function_work (function_work observations work_terms)
           (contract (profile_identity profile))) (\<lambda>functions_work.
         result_bind (identity_digest sha (profile_identity profile)) (\<lambda>digest.
         Inr \<lparr>analysis_identity_digest = digest, analysis_sites = sites,
              analysis_functions = functions_work\<rparr>)))"

section \<open>Sums\<close>

lemma try_sum_iff: "try_sum a vs = Some r \<longleftrightarrow> unat r = unat a + sum_list (map unat vs)"
proof (induction vs arbitrary: a)
  case Nil
  then show ?case by (auto simp: word_unat_eq_iff)
next
  case (Cons v vs)
  have "try_sum a (v # vs) = Some r \<longleftrightarrow>
      (\<exists>b :: 64 word. unat b = unat a + unat v \<and> unat r = unat b + sum_list (map unat vs))"
    by (simp add: checked_add_iff Cons.IH)
  also have "\<dots> \<longleftrightarrow> unat r = unat a + sum_list (map unat (v # vs))"
  proof
    assume *: "unat r = unat a + sum_list (map unat (v # vs))"
    then have "unat a + unat v < 2 ^ 64" using unsigned_less [of r, where ?'a = nat] by simp
    then have "unat (a + v) = unat a + unat v" by (simp add: unat_word_ariths)
    with * show "\<exists>b :: 64 word. unat b = unat a + unat v \<and> unat r = unat b + sum_list (map unat vs)"
      by (intro exI [of _ "a + v"]) simp
  qed auto
  finally show ?case .
qed

lemma checked_sum_iff: "checked_sum vs = Some r \<longleftrightarrow> unat r = sum_list (map unat vs)"
  by (simp add: checked_sum_def try_sum_iff)

lemma sum_work_iff:
  "sum_work label a ks = Inr r \<longleftrightarrow> unat r = unat a + sum_list (map (unat \<circ> snd) ks)"
proof (induction label a ks rule: sum_work.induct)
  case (1 label a)
  then show ?case by (auto simp: word_unat_eq_iff)
next
  case (2 label a d v rest)
  show ?case
  proof (cases "checked_add a v")
    case None
    then have "2 ^ 128 \<le> unat a + unat v" by (auto simp: checked_add_def split: if_splits)
    then show ?thesis using None unsigned_less [of r, where ?'a = nat] by auto
  next
    case (Some b)
    then show ?thesis using 2 checked_add_Some [OF Some] by (simp add: add.assoc)
  qed
qed

lemma ratio_u128_iff:
  assumes "unat n * 10000 < 2 ^ 128" "unat d * unat bp < 2 ^ 128"
  shows "ratio_u128_at_least n d bp \<longleftrightarrow> unat d \<noteq> 0 \<and> unat d * unat bp \<le> unat n * 10000"
proof -
  have bp: "unat (ucast bp :: 128 word) = unat bp"
    using unsigned_less [of bp, where ?'a = nat]
    by (simp add: unsigned_ucast_eq take_bit_nat_eq_self)
  have 1: "checked_mul n 10000 = Some (n * 10000)" and 2: "checked_mul d (ucast bp) = Some (d * ucast bp)"
    using assms by (simp_all add: checked_mul_def bp)
  have "unat (n * 10000) = unat n * 10000" "unat (d * ucast bp :: 128 word) = unat d * unat bp"
    using assms by (simp_all add: unat_word_ariths bp)
  then show ?thesis
    by (simp add: ratio_u128_at_least_def 1 2 word_le_nat_alt unat_eq_0)
qed

section \<open>Dominant outcomes\<close>

lemma ratio_at_least_iff:
  "profile_ratio_at_least n d bp \<longleftrightarrow> unat d \<noteq> 0 \<and> unat d * unat bp \<le> unat n * 10000"
proof -
  have *: "unat (ucast x :: 128 word) = unat x" if "LENGTH('a) \<le> 64" for x :: "'a::len word"
  proof -
    have "unat x < 2 ^ 64"
      by (rule less_le_trans [OF unsigned_less]) (rule power_increasing [OF that], simp)
    then show ?thesis by (simp add: unsigned_ucast_eq take_bit_nat_eq_self)
  qed
  have "unat d * unat bp < 2 ^ 64 * 2 ^ 16" "unat n * 10000 < 2 ^ 64 * 2 ^ 16"
    using unsigned_less [of d, where ?'a = nat] unsigned_less [of bp, where ?'a = nat]
      unsigned_less [of n, where ?'a = nat] by (intro mult_strict_mono; simp)+
  then have "unat (ucast d * ucast bp :: 128 word) = unat d * unat bp"
    "unat (ucast n * 10000 :: 128 word) = unat n * 10000"
    by (simp_all add: unat_word_ariths *)
  then show ?thesis
    by (simp add: profile_ratio_at_least_def word_le_nat_alt unat_eq_0)
qed

lemma unique_position:
  assumes "length (filter P xs) = 1" "i < length xs" "P (xs ! i)" "j < length xs" "P (xs ! j)"
  shows "i = j"
proof -
  have "card {i. i < length xs \<and> P (xs ! i)} = 1" using assms(1) by (simp add: length_filter_conv_card)
  then obtain k where "{i. i < length xs \<and> P (xs ! i)} = {k}" by (rule card_1_singletonE)
  moreover have "i \<in> {i. i < length xs \<and> P (xs ! i)}" "j \<in> {i. i < length xs \<and> P (xs ! i)}"
    using assms(2-5) by simp_all
  ultimately show ?thesis by simp
qed

lemma unique_filter:
  assumes "i < length xs" "P (xs ! i)" "\<And>j. j < length xs \<Longrightarrow> P (xs ! j) \<Longrightarrow> j = i"
  shows "length (filter P xs) = 1"
proof -
  have "k < length xs \<and> P (xs ! k) \<longleftrightarrow> k = i" for k
    using assms by blast
  then have "{k. k < length xs \<and> P (xs ! k)} = {i}" by simp
  then show ?thesis by (simp add: length_filter_conv_card)
qed

lemma dominant_outcome_iff:
  "profile_site_dominant_outcome counts minimum bp = Some i \<longleftrightarrow>
     (let sum = sum_list (map unat counts) in
      i < length counts \<and> sum < 2 ^ 64 \<and> unat minimum \<le> sum \<and> 0 < sum \<and>
      (\<forall>j < length counts. j \<noteq> i \<longrightarrow> counts ! j < counts ! i) \<and>
      sum * unat bp \<le> unat (counts ! i) * 10000)" (is "?L \<longleftrightarrow> ?R")
proof
  assume ?L
  then obtain obs where obs: "checked_sum counts = Some obs" and min: "\<not> obs < minimum"
    and ne: "counts \<noteq> []" and i: "iter_position (\<lambda>v. v = Max (set counts)) counts = Some i"
    and one: "length (filter (\<lambda>v. v = Max (set counts)) counts) = 1"
    and ratio: "profile_ratio_at_least (Max (set counts)) obs bp"
    by (auto simp: profile_site_dominant_outcome_def Let_def split: if_splits)
  note pos = iter_position_Some [OF i]
  have "counts ! j < counts ! i" if "j < length counts" "j \<noteq> i" for j
  proof -
    have "counts ! j \<le> Max (set counts)" using that by simp
    moreover have "counts ! j \<noteq> Max (set counts)"
      using unique_position [OF one pos(1,2), of j] that by auto
    ultimately show ?thesis using pos(2) by simp
  qed
  moreover have sum: "sum_list (map unat counts) = unat obs" using obs by (simp add: checked_sum_iff)
  moreover have "unat obs < 2 ^ 64" using unsigned_less [of obs, where ?'a = nat] by simp
  moreover have "0 < unat obs" using ratio by (simp add: ratio_at_least_iff)
  ultimately show ?R
    using pos min ratio unfolding Let_def sum by (simp add: ratio_at_least_iff word_less_nat_alt not_less)
next
  assume ?R
  let ?s = "sum_list (map unat counts)"
  have r: "i < length counts" "?s < 2 ^ 64" "unat minimum \<le> ?s" "0 < ?s"
    "\<And>j. j < length counts \<Longrightarrow> j \<noteq> i \<Longrightarrow> counts ! j < counts ! i"
    "?s * unat bp \<le> unat (counts ! i) * 10000"
    using \<open>?R\<close> by (auto simp: Let_def)
  define obs :: "64 word" where "obs = word_of_nat ?s"
  have obs: "unat obs = ?s" using r(2) by (simp add: obs_def unsigned_of_nat take_bit_nat_eq_self)
  then have sum: "checked_sum counts = Some obs" by (simp add: checked_sum_iff)
  have "counts ! j \<le> counts ! i" if "j < length counts" for j
    using r(5) [OF that] by (cases "j = i") auto
  then have max: "Max (set counts) = counts ! i"
    using r(1) by (intro Max_eqI) (auto simp: in_set_conv_nth)
  have uniq: "j = i" if "j < length counts" "counts ! j = counts ! i" for j
    using that r(5) by fastforce
  have "iter_position (\<lambda>v. v = counts ! i) counts \<noteq> None"
    using r(1) by (auto simp: iter_position_None)
  then obtain k where k: "iter_position (\<lambda>v. v = counts ! i) counts = Some k" by auto
  with iter_position_Some [OF k] uniq have "k = i" by blast
  with k have pos: "iter_position (\<lambda>v. v = counts ! i) counts = Some i" by simp
  have one: "length (filter (\<lambda>v. v = counts ! i) counts) = 1"
    by (rule unique_filter [OF r(1)]) (use uniq in auto)
  have ne: "counts \<noteq> []" using r(1) by auto
  have "profile_ratio_at_least (counts ! i) obs bp"
    unfolding ratio_at_least_iff obs using r(4,6) by (metis less_not_refl)
  moreover have "\<not> obs < minimum" unfolding word_less_nat_alt obs using r(3) by simp
  ultimately show ?L
    unfolding profile_site_dominant_outcome_def sum using ne one pos max by simp
qed

section \<open>Dynamic work\<close>

text \<open>The amounts of the terms of one function, in order, and their sum when it exists.\<close>

definition terms_of :: "ck_profile_work_term list \<Rightarrow> bytes \<Rightarrow> ck_profile_work_term list" where
  "terms_of terms d = filter (\<lambda>t. term_function t = d) terms"

definition slot_sum :: "128 word option \<Rightarrow> 128 word option \<Rightarrow> 128 word option" where
  "slot_sum slot amount =
     (case (slot, amount) of (Some a, Some b) \<Rightarrow> checked_add a b | _ \<Rightarrow> None)"

lemma slot_sum_iff: "slot_sum s a = Some w \<longleftrightarrow> (\<exists>x y. s = Some x \<and> a = Some y \<and> unat w = unat x + unat y)"
  by (auto simp: slot_sum_def checked_add_iff split: option.splits)

lemma function_work_get:
  "bt_ok m \<Longrightarrow> bt_ok (fold (add_work obs) terms m) \<and>
     bt_get (fold (add_work obs) terms m) d =
       (if terms_of terms d = [] then bt_get m d
        else Some (foldl slot_sum (case bt_get m d of None \<Rightarrow> Some 0 | Some s \<Rightarrow> s)
          (map (term_amount obs) (terms_of terms d))))"
proof (induction terms arbitrary: m)
  case Nil
  then show ?case by (simp add: terms_of_def)
next
  case (Cons t terms)
  have ok: "bt_ok (add_work obs t m)" using Cons.prems by (simp add: add_work_def bt_ok_insert)
  have "bt_get (add_work obs t m) d = (if d = term_function t then
      Some (slot_sum (case bt_get m d of None \<Rightarrow> Some 0 | Some s \<Rightarrow> s) (term_amount obs t)) else bt_get m d)"
    using Cons.prems by (simp add: add_work_def bt_get_insert slot_sum_def)
  with Cons.IH [OF ok] show ?case by (auto simp: terms_of_def)
qed

lemma foldl_slot_sum:
  "foldl slot_sum s as = Some w \<longleftrightarrow>
     (\<exists>x xs. s = Some x \<and> as = map Some xs \<and> unat w = unat x + sum_list (map unat xs))"
proof (induction as arbitrary: s)
  case Nil
  then show ?case by (auto simp: word_unat_eq_iff)
next
  case (Cons a as)
  have "foldl slot_sum s (a # as) = Some w \<longleftrightarrow>
      (\<exists>z xs. slot_sum s a = Some z \<and> as = map Some xs \<and> unat w = unat z + sum_list (map unat xs))"
    by (simp add: Cons.IH)
  also have "\<dots> \<longleftrightarrow> (\<exists>x y xs. s = Some x \<and> a = Some y \<and> as = map Some xs \<and>
      unat w = unat x + (unat y + sum_list (map unat xs)))"
  proof (intro iffI; elim exE conjE)
    fix x y xs
    assume *: "s = Some x" "a = Some y" "as = map Some xs"
      "unat w = unat x + (unat y + sum_list (map unat xs))"
    have "unat x + unat y < 2 ^ 128" using * unsigned_less [of w, where ?'a = nat] by simp
    then have "unat (x + y) = unat x + unat y" by (simp add: unat_word_ariths)
    with * have "slot_sum s a = Some (x + y)" "unat w = unat (x + y) + sum_list (map unat xs)"
      by (simp_all add: slot_sum_iff)
    with * show "\<exists>z xs. slot_sum s a = Some z \<and> as = map Some xs \<and> unat w = unat z + sum_list (map unat xs)"
      by blast
  qed (auto simp: slot_sum_iff)
  also have "\<dots> \<longleftrightarrow> (\<exists>x xs. s = Some x \<and> a # as = map Some xs \<and> unat w = unat x + sum_list (map unat xs))"
    by (auto simp: Cons_eq_map_conv) 
  finally show ?case .
qed

lemma term_amount_iff:
  "term_amount obs t = Some a \<longleftrightarrow> (\<exists>ob count. bt_get obs (term_site_id t) = Some ob \<and>
     observation_total ob = Some count \<and> unat a = unat count * unat (static_cost_units t))"
proof -
  have "unat (ucast x :: 128 word) = unat x" for x :: "64 word"
    using unsigned_less [of x, where ?'a = nat]
    by (simp add: unsigned_ucast_eq take_bit_nat_eq_self)
  then show ?thesis by (auto simp: term_amount_def checked_mul_iff)
qed

lemma function_work_iff:
  "bt_get (function_work obs terms) d = Some (Some w) \<longleftrightarrow>
     terms_of terms d \<noteq> [] \<and> (\<exists>xs. map (term_amount obs) (terms_of terms d) = map Some xs \<and>
       unat w = sum_list (map unat xs))"
  using function_work_get [OF bt.ok_empty, of obs terms d]
  by (auto simp: function_work_def bt.get_empty foldl_slot_sum)

lemma function_work_keys:
  "bt_ok (function_work obs terms)"
  "set (map fst (function_work obs terms)) = set (map term_function terms)"
proof -
  show "bt_ok (function_work obs terms)"
    using function_work_get [OF bt.ok_empty] by (simp add: function_work_def)
  have terms: "terms_of terms d \<noteq> [] \<longleftrightarrow> d \<in> term_function ` set terms" for d
    by (auto simp: terms_of_def filter_empty_conv)
  have "d \<in> fst ` set (function_work obs terms) \<longleftrightarrow> terms_of terms d \<noteq> []" for d
    using function_work_get [OF bt.ok_empty, of obs terms d] map_of_eq_None_iff [of "function_work obs terms" d]
    by (auto simp: function_work_def bt_get_map_of bt.get_empty split: if_splits)
  then show "set (map fst (function_work obs terms)) = set (map term_function terms)"
    using terms by (simp only: set_map set_eq_iff) simp
qed

section \<open>Ranks and hot roots\<close>

lemma filter_key_take:
  fixes key :: "'a \<Rightarrow> 'b::linorder"
  assumes "sorted_wrt (<) (map key xs)" "i < length xs"
  shows "filter (\<lambda>y. key y < key (xs ! i)) xs = take i xs"
proof -
  have less: "key (xs ! j) < key (xs ! k)" if "j < k" "k < length xs" for j k
    using assms(1) that by (simp add: sorted_wrt_iff_nth_less)
  have "filter (\<lambda>y. key y < key (xs ! i)) (take i xs) = take i xs"
    using assms(2) less by (auto simp: filter_id_conv in_set_conv_nth)
  moreover have "filter (\<lambda>y. key y < key (xs ! i)) (drop i xs) = []"
    using less assms(2) by (auto simp: filter_empty_conv in_set_conv_nth) (metis le_add1 le_eq_less_or_eq less_asym less_irrefl less_diff_conv add.commute)
  ultimately show ?thesis
    by (metis append_Nil2 append_take_drop_id filter_append)
qed

lemma rank_entries_eq:
  "rank_entries i ks = Inr es \<Longrightarrow>
     map fst es = map fst ks \<and> (ks \<noteq> [] \<longrightarrow> i + length ks < 2 ^ 32) \<and>
     (\<forall>j < length ks. snd (es ! j) = word_of_nat (i + j + 1))"
proof (induction i ks arbitrary: es rule: rank_entries.induct)
  case (2 i d v rest)
  then obtain es' where "es = (d, word_of_nat (i + 1)) # es'" "rank_entries (i + 1) rest = Inr es'" "i + 1 < 2 ^ 32"
    by (auto split: if_splits)
  with 2 show ?case by (cases rest) (auto simp: nth_Cons split: nat.splits)
qed simp

definition schema1_stop :: "nat \<Rightarrow> nat \<Rightarrow> bool" where
  "schema1_stop module_work covered \<longleftrightarrow> module_work \<noteq> 0 \<and> module_work * 9000 \<le> covered * 10000"

lemma select_roots_mem:
  assumes "select_roots 9000 module_work covered es = Inr roots"
    "unat covered + sum_list (map (unat \<circ> snd) es) \<le> unat module_work" "unat module_work * 10000 < 2 ^ 128"
  shows "d \<in> set roots \<longleftrightarrow> (\<exists>i < length es. fst (es ! i) = d \<and>
    \<not> schema1_stop (unat module_work) (unat covered + sum_list (map (unat \<circ> snd) (take i es))))"
  using assms
proof (induction es arbitrary: covered roots)
  case Nil
  then show ?case by simp
next
  case (Cons e es)
  obtain g v where e [simp]: "e = (g, v)" by (cases e)
  have stop: "ratio_u128_at_least covered module_work 9000 \<longleftrightarrow> schema1_stop (unat module_work) (unat covered)"
    using Cons.prems(2,3) by (subst ratio_u128_iff) (auto simp: schema1_stop_def)
  show ?case
  proof (cases "schema1_stop (unat module_work) (unat covered)")
    case True
    then have "schema1_stop (unat module_work) (unat covered + n)" for n
      by (auto simp: schema1_stop_def)
    then show ?thesis using Cons.prems(1) True stop by simp
  next
    case False
    then obtain c roots' where c: "checked_add covered v = Some c"
      "select_roots 9000 module_work c es = Inr roots'" "roots = g # roots'"
      using Cons.prems(1) stop by (auto split: option.splits)
    note uc = checked_add_Some [OF c(1)]
    have IH: "d \<in> set roots' \<longleftrightarrow> (\<exists>i < length es. fst (es ! i) = d \<and>
        \<not> schema1_stop (unat module_work) (unat c + sum_list (map (unat \<circ> snd) (take i es))))"
      using Cons.prems(2,3) uc by (intro Cons.IH [OF c(2)]) simp_all
    show ?thesis
      unfolding c(3) using False IH uc by (auto simp: Ex_less_Suc2 add.assoc comp_def)
  qed
qed

text \<open>The ranked list against the list of all functions: a count or a sum over the one is a
  count or a sum over the other.\<close>

lemma known_work_sum:
  fixes F :: "bytes \<times> 128 word \<Rightarrow> nat"
  assumes "\<And>d w. Q (mk (d, Some w)) = P (d, w)" "\<And>d. \<not> Q (mk (d, None))"
    "\<And>d w. G (mk (d, Some w)) = F (d, w)"
  shows "sum_list (map F (filter P (known_work work))) = sum_list (map G (filter Q (map mk work)))"
proof -
  have "mset (filter P (known_work work)) =
      mset (filter P (List.map_filter (\<lambda>(digest, v). map_option (Pair digest) v) work))"
    by (simp add: known_work_def)
  then have "sum_list (map F (filter P (known_work work))) =
      sum_list (map F (filter P (List.map_filter (\<lambda>(digest, v). map_option (Pair digest) v) work)))"
    by (rule sum_list_perm)
  also have "\<dots> = sum_list (map G (filter Q (map mk work)))"
  proof (induction work)
    case Nil
    then show ?case by (simp add: List.map_filter_def)
  next
    case (Cons e work)
    then show ?case
      by (cases e; cases "snd e") (auto simp: List.map_filter_def assms)
  qed
  finally show ?thesis .
qed

lemma known_work_set: "(d, w) \<in> set (known_work work) \<longleftrightarrow> (d, Some w) \<in> set work"
  by (force simp: known_work_def List.map_filter_def)

lemma known_work_strict:
  assumes "bt_ok work"
  shows "distinct (map fst (known_work work))" "sorted_wrt (<) (map rank_key (known_work work))"
proof -
  have "distinct (map fst (List.map_filter (\<lambda>(digest, v). map_option (Pair digest) v) work))"
    using bt_ok_distinct [OF assms]
    by (induction work) (force simp: List.map_filter_def split: option.splits)+
  then show dist: "distinct (map fst (known_work work))"
    by (metis (no_types, lifting) known_work_def mset_eq_imp_distinct_iff mset_map mset_sort)
  have "distinct (map rank_key (known_work work))"
  proof (rule distinct_map [THEN iffD2], intro conjI)
    show "distinct (known_work work)" using dist by (simp add: distinct_map)
    show "inj_on rank_key (set (known_work work))"
      using dist by (auto simp: distinct_map inj_on_def rank_key_def)
  qed
  moreover have "sorted (map rank_key (known_work work))" by (simp add: known_work_def)
  ultimately show "sorted_wrt (<) (map rank_key (known_work work))" by (simp add: strict_sorted_iff)
qed

lemma rank_key_less:
  "rank_key (g, v) < rank_key (d, w) \<longleftrightarrow> unat w < unat v \<or> unat v = unat w \<and> g < d"
proof -
  have "rank_key (g, v) < rank_key (d, w) \<longleftrightarrow> w < v \<or> v = w \<and> g < d"
    by (auto simp: rank_key_def order_le_less word_uint_eq_iff simp flip: word_less_def)
  then show ?thesis by (simp add: word_less_nat_alt word_unat_eq_iff)
qed

definition work_amount :: "ck_profile_function_work \<Rightarrow> nat" where
  "work_amount f = (case dynamic_work f of None \<Rightarrow> 0 | Some w \<Rightarrow> unat w)"

definition ranks_before :: "ck_profile_function_work \<Rightarrow> ck_profile_function_work \<Rightarrow> bool" where
  "ranks_before g f \<longleftrightarrow> dynamic_work g \<noteq> None \<and>
     (work_amount f < work_amount g \<or>
      work_amount g = work_amount f \<and> work_function g < work_function f)"

definition module_amount :: "ck_profile_function_work list \<Rightarrow> nat" where
  "module_amount fs = (\<Sum>f \<leftarrow> fs. work_amount f)"

definition hot_candidate :: "ck_profile_function_work list \<Rightarrow> ck_profile_function_work \<Rightarrow> bool" where
  "hot_candidate fs f \<longleftrightarrow> dynamic_work f \<noteq> None \<and>
     (length (filter (\<lambda>g. dynamic_work g \<noteq> None) fs) = 1 \<or>
      module_amount fs \<noteq> 0 \<and> module_amount fs * 100 \<le> work_amount f * 10000)"

lemma map_of_distinct_nth:
  "distinct (map fst es) \<Longrightarrow> i < length es \<Longrightarrow> map_of es (fst (es ! i)) = Some (snd (es ! i))"
  by (simp add: map_of_eq_Some_iff nth_mem)

lemma rank_function_work_facts:
  assumes "rank_function_work work limits = Inr fs" "bt_ok work"
  shows "map (\<lambda>f. (work_function f, dynamic_work f)) fs = work"
    and "f \<in> set fs \<Longrightarrow> work_rank f = (if dynamic_work f = None then None
      else Some (word_of_nat (1 + length (filter (\<lambda>g. ranks_before g f) fs))))"
proof -
  obtain module_work roots entries where
    entries: "rank_entries 0 (known_work work) = Inr entries"
    and fs: "fs = map (\<lambda>(digest, v). \<lparr>work_function = digest, dynamic_work = v,
      work_rank = bt_get (bt_collect entries) digest, hot_root = (digest \<in> set roots)\<rparr>) work"
    using assms(1) by (auto simp: rank_function_work_def Let_def)
  let ?mk = "\<lambda>(digest, v). \<lparr>work_function = digest, dynamic_work = v,
      work_rank = bt_get (bt_collect entries) digest, hot_root = (digest \<in> set roots)\<rparr>"
  show "map (\<lambda>f. (work_function f, dynamic_work f)) fs = work"
    by (simp add: fs case_prod_beta comp_def)
  note strict = known_work_strict [OF assms(2)]
  note es = rank_entries_eq [OF entries]
  have keys: "map fst entries = map fst (known_work work)" using es by simp
  have dist: "distinct (map fst entries)" using strict(1) keys by simp
  have get: "bt_get (bt_collect entries) d = map_of entries d" for d
    using dist by (simp add: bt_get_collect bt_map_of_rev)
  assume "f \<in> set fs"
  then obtain d v where dv: "(d, v) \<in> set work" "f = ?mk (d, v)" by (auto simp: fs)
  show "work_rank f = (if dynamic_work f = None then None
      else Some (word_of_nat (1 + length (filter (\<lambda>g. ranks_before g f) fs))))"
  proof (cases v)
    case None
    have "d \<notin> fst ` set (known_work work)"
    proof
      assume "d \<in> fst ` set (known_work work)"
      then obtain w where "(d, Some w) \<in> set work" using known_work_set by force
      with dv(1) None bt_ok_distinct [OF assms(2)] show False
        by (metis eq_key_imp_eq_value option.distinct(1))
    qed
    then have "map_of entries d = None"
      using keys by (metis list.set_map map_of_eq_None_iff)
    with None dv show ?thesis by (simp add: get)
  next
    case (Some w)
    then have "(d, w) \<in> set (known_work work)" using dv(1) known_work_set by simp
    then obtain i where i: "i < length (known_work work)" "known_work work ! i = (d, w)"
      by (auto simp: in_set_conv_nth)
    have len: "length entries = length (known_work work)" using keys by (metis length_map)
    have "fst (entries ! i) = d" using keys i len by (metis fst_conv nth_map)
    then have rank: "bt_get (bt_collect entries) d = Some (word_of_nat (i + 1))"
      using map_of_distinct_nth [OF dist, of i] es i(1) len by (simp add: get)
    have "i = length (filter (\<lambda>y. rank_key y < rank_key (d, w)) (known_work work))"
      using filter_key_take [OF strict(2) i(1)] i by simp
    also have "\<dots> = sum_list (map (\<lambda>_. 1) (filter (\<lambda>y. rank_key y < rank_key (d, w)) (known_work work)))"
      by (simp add: sum_list_triv)
    also have "\<dots> = sum_list (map (\<lambda>_. 1) (filter (\<lambda>g. ranks_before g f) fs))"
      unfolding fs by (rule known_work_sum)
        (auto simp: rank_key_less ranks_before_def work_amount_def dv(2) Some)
    also have "\<dots> = length (filter (\<lambda>g. ranks_before g f) fs)" by (simp add: sum_list_triv)
    finally show ?thesis using rank dv Some by simp
  qed
qed

lemma hot_root_facts:
  assumes rank: "rank_function_work work schema1 = Inr fs" and ok: "bt_ok work"
    and small: "module_amount fs * 10000 < 2 ^ 128" and f: "f \<in> set fs"
  shows "hot_root f \<longleftrightarrow> hot_candidate fs f \<and>
    \<not> schema1_stop (module_amount fs)
        (\<Sum>g \<leftarrow> filter (\<lambda>g. hot_candidate fs g \<and> ranks_before g f) fs. work_amount g)"
proof -
  obtain module_work roots entries where
    m: "sum_work (lit ''module dynamic work'') 0 (known_work work) = Inr module_work"
    and roots: "select_roots 9000 module_work 0 (filter (\<lambda>(_, v). length (known_work work) = 1 \<or>
        ratio_u128_at_least v module_work 100) (known_work work)) = Inr roots"
    and fs: "fs = map (\<lambda>(digest, v). \<lparr>work_function = digest, dynamic_work = v,
      work_rank = bt_get (bt_collect entries) digest, hot_root = (digest \<in> set roots)\<rparr>) work"
    using rank by (auto simp: rank_function_work_def Let_def schema1_def)
  let ?mk = "\<lambda>(digest, v). \<lparr>work_function = digest, dynamic_work = v,
      work_rank = bt_get (bt_collect entries) digest, hot_root = (digest \<in> set roots)\<rparr>"
  let ?ks = "known_work work"
  have "module_amount fs = sum_list (map work_amount (filter (\<lambda>g. dynamic_work g \<noteq> None) fs))"
    unfolding module_amount_def
    by (induction fs) (auto simp: work_amount_def)
  also have "\<dots> = sum_list (map (unat \<circ> snd) (filter (\<lambda>_. True) ?ks))"
    unfolding fs by (rule known_work_sum [symmetric]) (auto simp: work_amount_def)
  also have "\<dots> = unat module_work" using m by (simp add: sum_work_iff)
  finally have total: "unat module_work = module_amount fs" by simp
  have "length ?ks = sum_list (map (\<lambda>_. 1) (filter (\<lambda>_. True) ?ks))" by (simp add: sum_list_triv)
  also have "\<dots> = sum_list (map (\<lambda>_. 1) (filter (\<lambda>g. dynamic_work g \<noteq> None) fs))"
    unfolding fs by (rule known_work_sum) auto
  also have "\<dots> = length (filter (\<lambda>g. dynamic_work g \<noteq> None) fs)" by (simp add: sum_list_triv)
  finally have count: "length ?ks = length (filter (\<lambda>g. dynamic_work g \<noteq> None) fs)" .
  have bound: "unat v \<le> module_amount fs" if "(d, v) \<in> set ?ks" for d v
  proof -
    have "(unat \<circ> snd) (d, v) \<le> sum_list (map (unat \<circ> snd) ?ks)"
      using that by (intro member_le_sum_list) (force, simp)
    with m total show ?thesis by (simp add: sum_work_iff)
  qed
  define P where "P = (\<lambda>e :: bytes \<times> 128 word. length ?ks = 1 \<or>
      module_amount fs \<noteq> 0 \<and> module_amount fs * 100 \<le> unat (snd e) * 10000)"
  have P: "(case e of (_, v) \<Rightarrow> length ?ks = 1 \<or> ratio_u128_at_least v module_work 100) \<longleftrightarrow> P e"
    if "e \<in> set ?ks" for e
  proof (cases e)
    case (Pair d v)
    have "ratio_u128_at_least v module_work 100 \<longleftrightarrow>
        unat module_work \<noteq> 0 \<and> unat module_work * 100 \<le> unat v * 10000"
      using bound [of d v] that small total Pair by (subst ratio_u128_iff) auto
    then show ?thesis by (simp add: P_def Pair total)
  qed
  define es where "es = filter P ?ks"
  have es: "filter (\<lambda>(_, v). length ?ks = 1 \<or> ratio_u128_at_least v module_work 100) ?ks = es"
    unfolding es_def using P by (intro filter_cong) auto
  have candidate: "hot_candidate fs (?mk (d, Some w)) \<longleftrightarrow> P (d, w)" for d w
    by (simp add: hot_candidate_def P_def count work_amount_def)
  have "sum_list (map (unat \<circ> snd) es) \<le> sum_list (map (unat \<circ> snd) ?ks)"
    unfolding es_def by (rule sum_list_filter_le_nat)
  also have "\<dots> = unat module_work" using m by (simp add: sum_work_iff)
  finally have le: "sum_list (map (unat \<circ> snd) es) \<le> unat module_work" .
  have mem: "x \<in> set roots \<longleftrightarrow> (\<exists>i < length es. fst (es ! i) = x \<and>
      \<not> schema1_stop (module_amount fs) (sum_list (map (unat \<circ> snd) (take i es))))" for x
    using select_roots_mem [OF roots [unfolded es], of x] le small by (simp add: total)
  obtain d v where dv: "(d, v) \<in> set work" "f = ?mk (d, v)" using f by (auto simp: fs)
  have hot: "hot_root f \<longleftrightarrow> d \<in> set roots" by (simp add: dv(2))
  note strict = known_work_strict [OF ok]
  have "sorted_wrt (<) (map rank_key (filter P ?ks))"
    using strict(2) by (simp add: sorted_wrt_map sorted_wrt_filter)
  then have sorted: "sorted_wrt (<) (map rank_key es)" by (simp add: es_def)
  have dist: "distinct (map fst es)"
    unfolding es_def using strict(1) by (rule distinct_map_filter)
  show ?thesis
  proof (cases "\<exists>w. v = Some w \<and> P (d, w)")
    case False
    have "d \<notin> fst ` set es"
    proof
      assume "d \<in> fst ` set es"
      then obtain w where w: "(d, w) \<in> set ?ks" "P (d, w)" by (auto simp: es_def)
      then have "(d, Some w) \<in> set work" by (simp add: known_work_set)
      with dv(1) bt_ok_distinct [OF ok] have "v = Some w" by (metis eq_key_imp_eq_value)
      with False w(2) show False by simp
    qed
    then have "\<not> hot_root f" unfolding hot mem by (metis image_eqI nth_mem)
    moreover have "\<not> hot_candidate fs f"
      using False candidate [of d] by (cases v) (simp_all add: dv(2) hot_candidate_def)
    ultimately show ?thesis by simp
  next
    case True
    then obtain w where w: "v = Some w" "P (d, w)" by auto
    then have "(d, w) \<in> set es" using dv(1) by (simp add: es_def known_work_set)
    then obtain i where i: "i < length es" "es ! i = (d, w)" by (auto simp: in_set_conv_nth)
    have uniq: "j = i" if "j < length es" "fst (es ! j) = d" for j
      using nth_eq_iff_index_eq [OF dist, of j i] that i by simp
    have "hot_root f \<longleftrightarrow>
        \<not> schema1_stop (module_amount fs) (sum_list (map (unat \<circ> snd) (take i es)))"
    proof
      assume "hot_root f"
      then obtain j where "j < length es" "fst (es ! j) = d"
          "\<not> schema1_stop (module_amount fs) (sum_list (map (unat \<circ> snd) (take j es)))"
        unfolding hot mem by blast
      with uniq show "\<not> schema1_stop (module_amount fs) (sum_list (map (unat \<circ> snd) (take i es)))"
        by blast
    next
      assume "\<not> schema1_stop (module_amount fs) (sum_list (map (unat \<circ> snd) (take i es)))"
      with i show "hot_root f" unfolding hot mem by (metis fst_conv)
    qed
    moreover have "take i es = filter (\<lambda>e. P e \<and> rank_key e < rank_key (d, w)) ?ks"
      using filter_key_take [OF sorted i(1)] i(2) by (simp add: es_def conj_commute)
    moreover have "sum_list (map (unat \<circ> snd) (filter (\<lambda>e. P e \<and> rank_key e < rank_key (d, w)) ?ks)) =
        (\<Sum>g \<leftarrow> filter (\<lambda>g. hot_candidate fs g \<and> ranks_before g f) (map ?mk work). work_amount g)"
      using candidate
      by (intro known_work_sum) (auto simp: rank_key_less ranks_before_def work_amount_def dv(2) w(1))
    moreover have "hot_candidate fs f" using candidate [of d w] w by (simp add: dv(2))
    ultimately show ?thesis by (simp add: fs)
  qed
qed

end
