(* ===== verification/Profile_Transfer.thy ===== *)
theory Profile_Transfer
  imports Profile_Analysis
begin

text \<open>
  Using a profile in a build (\<^verbatim>\<open>src/src/profile/apply.rs\<close>): the check that it belongs to the
  build, and the transfer of its counts through a rewrite of the control-flow graph.
\<close>

section \<open>Applying a profile\<close>

definition apply_profile ::
  "(bytes \<Rightarrow> bytes) \<Rightarrow> (bytes \<Rightarrow> rstring) \<Rightarrow> ck_profile \<Rightarrow> ck_profile_identity \<Rightarrow>
   ck_profile_site_descriptor list \<Rightarrow> ck_profile_work_term list \<Rightarrow> ck_profile_analysis profile_result" where
  "apply_profile sha debug_str profile expected_identity expected_sites work_terms =
     (case first_mismatch debug_str expected_identity (profile_identity profile) of
        Some (field, expected, observed) \<Rightarrow> Inl (IdentityMismatch field expected observed)
      | None \<Rightarrow>
      if profile_sites profile \<noteq> expected_sites then Inl SiteTableMismatch
      else result_bind (profile_site_table_digest sha expected_sites) (\<lambda>digest.
      if site_table_digest (module_identity (profile_identity profile)) \<noteq> digest
      then Inl SiteTableMismatch
      else if length (profile_counters profile) \<noteq> length expected_sites \<or>
        list_ex (\<lambda>(c, site). counter_site_id c \<noteq> site_id site)
          (zip (profile_counters profile) expected_sites)
      then Inl CounterTableMismatch
      else analyze_profile sha profile work_terms))"

section \<open>Transferring counts\<close>

record ck_profile_transfer_entry =
  transfer_target :: site_id
  transfer_sources :: "site_id list"

record ck_profile_mapping_transfer =
  source_table_digest :: bytes
  target_table_digest :: bytes
  transfer_entries :: "ck_profile_transfer_entry list"

record ck_transferred_profile_counter =
  transferred_site_id :: site_id
  transferred_counter :: "ck_profile_counter option"

text \<open>This addition marks a counter that reaches the largest value, where the one of the merge
  marks a sum that does not fit.\<close>

fun transfer_add_values :: "64 word list \<Rightarrow> 64 word list \<Rightarrow> bool \<Rightarrow> 64 word list \<times> bool" where
  "transfer_add_values (t # ts) (i # is) saturated =
     (let t' = saturating_add t i;
          saturated = (saturated \<or> t' = - 1 \<and> t \<noteq> - 1);
          (ts', saturated) = transfer_add_values ts is saturated
      in (t' # ts', saturated))"
| "transfer_add_values ts _ saturated = (ts, saturated)"

fun transfer_add_counter :: "ck_profile_counter \<Rightarrow> ck_profile_counter \<Rightarrow> ck_profile_counter profile_result" where
  "transfer_add_counter (Scalar t) (Scalar i) = Inr (Scalar (saturating_add t i))"
| "transfer_add_counter (Histogram ts s) (Histogram is s') =
     (let (ts', saturated) = transfer_add_values ts is s in Inr (Histogram ts' (saturated \<or> s')))"
| "transfer_add_counter (CandidateConstant ts t s) (CandidateConstant is i s') =
     (if length ts = length is then
        let (ts', saturated) = transfer_add_values ts is s;
            t' = saturating_add t i;
            saturated = (saturated \<or> t' = - 1 \<and> t \<noteq> - 1)
        in Inr (CandidateConstant ts' t' (saturated \<or> s'))
      else Inl (MappingTransfer (lit ''counter shape changed'')))"
| "transfer_add_counter _ _ = Inl (MappingTransfer (lit ''counter shape changed''))"

fun sum_sources ::
  "(site_id, ck_profile_counter) btree \<Rightarrow> site_id list \<Rightarrow> ck_profile_counter option \<Rightarrow> site_id list \<Rightarrow>
   (ck_profile_counter option \<times> site_id list) profile_result" where
  "sum_sources source [] aggregate seen = Inr (aggregate, seen)"
| "sum_sources source (s # ss) aggregate seen =
     (if s \<in> set seen then Inl (MappingTransfer (lit ''source mapping is not one-use''))
      else case bt_get source s of
        None \<Rightarrow> Inl (MappingTransfer (lit ''mapping names an unknown source''))
      | Some c \<Rightarrow>
          result_bind (case aggregate of None \<Rightarrow> Inr c | Some a \<Rightarrow> transfer_add_counter a c) (\<lambda>a.
          sum_sources source ss (Some a) (s # seen)))"

fun transfer_loop ::
  "(site_id, ck_profile_counter) btree \<Rightarrow> site_id list \<Rightarrow> ck_profile_transfer_entry list \<Rightarrow>
   site_id list \<Rightarrow> site_id list \<Rightarrow>
   (ck_transferred_profile_counter list \<times> site_id list \<times> site_id list) profile_result" where
  "transfer_loop source targets [] seen_sources seen_targets = Inr ([], seen_sources, seen_targets)"
| "transfer_loop source targets (e # es) seen_sources seen_targets =
     (if transfer_sources e = [] \<or> transfer_target e \<notin> set targets \<or> transfer_target e \<in> set seen_targets
      then Inl (MappingTransfer (lit ''target mapping is not closed''))
      else result_bind (sum_sources source (transfer_sources e) None seen_sources) (\<lambda>(c, seen_sources).
      result_bind (transfer_loop source targets es seen_sources (transfer_target e # seen_targets))
        (\<lambda>(records, seen).
      Inr (\<lparr>transferred_site_id = transfer_target e, transferred_counter = c\<rparr> # records, seen))))"

definition transfer_profile_counts ::
  "(bytes \<Rightarrow> bytes) \<Rightarrow> ck_profile_site_descriptor list \<Rightarrow> ck_profile_counter_record list \<Rightarrow>
   ck_profile_site_descriptor list \<Rightarrow> ck_profile_mapping_transfer option \<Rightarrow>
   ck_transferred_profile_counter list profile_result" where
  "transfer_profile_counts sha source_sites source_counters target_sites transfer =
     (if length source_sites \<noteq> length source_counters \<or>
         list_ex (\<lambda>(site, c). site_id site \<noteq> counter_site_id c) (zip source_sites source_counters)
      then Inl CounterTableMismatch
      else result_bind (profile_site_table_digest sha source_sites) (\<lambda>source_digest.
      result_bind (profile_site_table_digest sha target_sites) (\<lambda>target_digest.
      if source_digest = target_digest \<and> source_sites = target_sites \<and> transfer = None
      then Inr (map (\<lambda>r. \<lparr>transferred_site_id = counter_site_id r,
                          transferred_counter = Some (counter r)\<rparr>) source_counters)
      else case transfer of
        None \<Rightarrow> Inr (map (\<lambda>s. \<lparr>transferred_site_id = site_id s, transferred_counter = None\<rparr>) target_sites)
      | Some t \<Rightarrow>
      if source_table_digest t \<noteq> source_digest \<or> target_table_digest t \<noteq> target_digest
      then Inl (MappingTransfer (lit ''site-table digest mismatch''))
      else let source = bt_collect (map (\<lambda>r. (counter_site_id r, counter r)) source_counters);
               targets = map site_id target_sites
        in result_bind (transfer_loop source targets (transfer_entries t) [] []) (\<lambda>(out, seen_sources, seen_targets).
        if length seen_sources \<noteq> length source \<or> set seen_targets \<noteq> set targets
        then Inl (MappingTransfer (lit ''mapping is incomplete''))
        else Inr (sort_key transferred_site_id out)))))"

section \<open>Canonical tables\<close>

lemma ensure_sites_canonical_sorted:
  "ensure_sites_canonical sites = Inr u \<Longrightarrow> sorted_wrt (<) (map site_id sites)"
proof (induction sites rule: ensure_sites_canonical.induct)
  case (1 a b rest)
  then show ?case by (force split: if_splits)
qed auto

lemma table_digest_sorted:
  "profile_site_table_digest sha sites = Inr d \<Longrightarrow> sorted_wrt (<) (map site_id sites)"
  by (auto simp: profile_site_table_digest_def encode_sites_def dest: ensure_sites_canonical_sorted)

section \<open>Sums of sources\<close>

lemma saturating_add_cap: "saturating_add a b = cap (unat a + unat b)"
  by (simp add: word_unat_eq_iff unat_cap unat_saturating_add)

definition reaches_limit :: "ck_profile_counter \<Rightarrow> ck_profile_counter \<Rightarrow> bool" where
  "reaches_limit t i \<longleftrightarrow>
     (\<exists>(a, b) \<in> set (zip (cells t) (cells i)). cap (unat a + unat b) = - 1 \<and> a \<noteq> - 1)"

lemma transfer_add_values_eq:
  "length ts = length is \<Longrightarrow> transfer_add_values ts is s =
     (map2 (\<lambda>a b. cap (unat a + unat b)) ts is,
      s \<or> (\<exists>(a, b) \<in> set (zip ts is). cap (unat a + unat b) = - 1 \<and> a \<noteq> - 1))"
  by (induction ts "is" s rule: transfer_add_values.induct) (auto simp: saturating_add_cap Let_def)

lemma transfer_add_counter_eq:
  "same_shape t i \<Longrightarrow> transfer_add_counter t i =
     Inr (fill t (map2 (\<lambda>a b. cap (unat a + unat b)) (cells t) (cells i))
       (marked t \<or> marked i \<or> reaches_limit t i))"
  by (cases t; cases i)
    (auto simp: transfer_add_values_eq saturating_add_cap reaches_limit_def Let_def)

lemma transfer_add_counter_shape:
  "transfer_add_counter t i = Inr c \<Longrightarrow> counter_value_typed t \<Longrightarrow> counter_value_typed i \<Longrightarrow> same_shape t i"
  by (cases t; cases i) (auto split: if_splits)

lemma fill_typed:
  "counter_value_typed t \<Longrightarrow> length vs = length (cells t) \<Longrightarrow> counter_value_typed (fill t vs s)"
  by (cases t) auto

lemma marked_fill: "marked t \<or> marked i \<Longrightarrow> same_shape t i \<Longrightarrow> s \<Longrightarrow> marked (fill t vs s)"
  by (cases t; cases i) auto

lemma transfer_add_counter_facts:
  assumes "transfer_add_counter t i = Inr c" "counter_value_typed t" "counter_value_typed i"
  shows "same_shape t i" "same_shape c t" "counter_value_typed c"
    "cells c = map2 (\<lambda>a b. cap (unat a + unat b)) (cells t) (cells i)"
    "marked t \<or> marked i \<Longrightarrow> marked c"
proof -
  show shape: "same_shape t i" by (rule transfer_add_counter_shape [OF assms])
  have c: "c = fill t (map2 (\<lambda>a b. cap (unat a + unat b)) (cells t) (cells i))
      (marked t \<or> marked i \<or> reaches_limit t i)"
    using assms(1) transfer_add_counter_eq [OF shape] by simp
  show "same_shape c t" "counter_value_typed c"
      "cells c = map2 (\<lambda>a b. cap (unat a + unat b)) (cells t) (cells i)"
    using same_shape_length [OF shape] assms(2) by (simp_all add: c fill_typed)
  show "marked c" if "marked t \<or> marked i"
    unfolding c by (rule marked_fill [OF that shape]) (use that in blast)
qed

definition summed :: "ck_profile_counter list \<Rightarrow> ck_profile_counter \<Rightarrow> bool" where
  "summed cs c \<longleftrightarrow> cs \<noteq> [] \<and> same_shape c (hd cs) \<and>
     cells c = map (\<lambda>j. cap (cell_total j cs)) [0..<length (cells (hd cs))] \<and>
     (list_ex marked cs \<longrightarrow> marked c)"

lemma summed_single: "summed [c] c"
  by (auto simp: summed_def cell_total_def intro: nth_equalityI)

lemma summed_snoc:
  assumes "summed cs a" "transfer_add_counter a c = Inr b" "counter_value_typed a" "counter_value_typed c"
  shows "summed (cs @ [c]) b"
proof -
  note b = transfer_add_counter_facts [OF assms(2-4)]
  have cs: "cs \<noteq> []" "same_shape a (hd cs)"
    "cells a = map (\<lambda>j. cap (cell_total j cs)) [0..<length (cells (hd cs))]" "list_ex marked cs \<longrightarrow> marked a"
    using assms(1) by (auto simp: summed_def)
  have len: "length (cells a) = length (cells c)" by (rule same_shape_length [OF b(1)])
  have "cells b = map (\<lambda>j. cap (cell_total j (cs @ [c]))) [0..<length (cells (hd cs))]"
    using len by (simp add: b(4) cs(3) map2_nth cap_cap)
  then show ?thesis
    using cs b(5) same_shape_trans [OF b(2) cs(2)] by (auto simp: summed_def)
qed

lemma sum_sources_facts:
  assumes "sum_sources source ss aggregate seen = Inr (r, seen')"
    and typed: "\<And>s c. bt_get source s = Some c \<Longrightarrow> counter_value_typed c"
    and "case aggregate of None \<Rightarrow> cs = [] | Some a \<Rightarrow> summed cs a \<and> counter_value_typed a"
  shows "seen' = rev ss @ seen \<and> distinct ss \<and> set ss \<inter> set seen = {} \<and>
    (\<exists>ds. map (bt_get source) ss = map Some ds \<and>
       (case r of None \<Rightarrow> cs @ ds = [] | Some c \<Rightarrow> summed (cs @ ds) c))"
  using assms(1,3)
proof (induction ss arbitrary: aggregate seen cs)
  case Nil
  then show ?case by (auto split: option.splits)
next
  case (Cons s ss)
  then obtain c a where c: "s \<notin> set seen" "bt_get source s = Some c"
      "(case aggregate of None \<Rightarrow> Inr c | Some a \<Rightarrow> transfer_add_counter a c) = Inr a"
      "sum_sources source ss (Some a) (s # seen) = Inr (r, seen')"
    by (auto split: if_splits option.splits)
  have a: "summed (cs @ [c]) a \<and> counter_value_typed a"
    using c(3) Cons.prems(2) summed_single [of c] summed_snoc typed [OF c(2)]
      transfer_add_counter_facts(3) by (cases aggregate) auto
  from Cons.IH [OF c(4), of "cs @ [c]"] a obtain ds where
    "seen' = rev ss @ s # seen" "distinct ss" "set ss \<inter> set (s # seen) = {}"
    "map (bt_get source) ss = map Some ds"
    "case r of None \<Rightarrow> (cs @ [c]) @ ds = [] | Some d \<Rightarrow> summed ((cs @ [c]) @ ds) d" by auto
  with c(1,2) show ?case by (intro conjI exI [of _ "c # ds"]) (auto split: option.splits)
qed

definition transferred :: "(site_id, ck_profile_counter) btree \<Rightarrow>
    ck_profile_transfer_entry \<Rightarrow> ck_transferred_profile_counter \<Rightarrow> bool" where
  "transferred source e r \<longleftrightarrow> transferred_site_id r = transfer_target e \<and>
     (\<exists>cs c. map (bt_get source) (transfer_sources e) = map Some cs \<and>
       transferred_counter r = Some c \<and> summed cs c)"

lemma transfer_loop_facts:
  assumes "transfer_loop source targets es seen_sources seen_targets = Inr (recs, ss, ts)"
    and typed: "\<And>s c. bt_get source s = Some c \<Longrightarrow> counter_value_typed c"
    and "distinct seen_sources" "distinct seen_targets"
  shows "list_all2 (transferred source) es recs \<and>
    ts = rev (map transfer_target es) @ seen_targets \<and> distinct ts \<and>
    ss = rev (concat (map transfer_sources es)) @ seen_sources \<and> distinct ss \<and>
    set ss \<subseteq> set seen_sources \<union> {s. bt_get source s \<noteq> None}"
  using assms(1,3,4)
proof (induction es arbitrary: seen_sources seen_targets recs)
  case Nil
  then show ?case by auto
next
  case (Cons e es)
  then obtain r seen recs' where e: "transfer_sources e \<noteq> []"
      "transfer_target e \<notin> set seen_targets"
      "sum_sources source (transfer_sources e) None seen_sources = Inr (r, seen)"
      "transfer_loop source targets es seen (transfer_target e # seen_targets) = Inr (recs', ss, ts)"
      "recs = \<lparr>transferred_site_id = transfer_target e, transferred_counter = r\<rparr> # recs'"
    by (auto split: if_splits)
  have "seen = rev (transfer_sources e) @ seen_sources \<and> distinct (transfer_sources e) \<and>
      set (transfer_sources e) \<inter> set seen_sources = {} \<and>
      (\<exists>ds. map (bt_get source) (transfer_sources e) = map Some ds \<and>
         (case r of None \<Rightarrow> [] @ ds = [] | Some c \<Rightarrow> summed ([] @ ds) c))"
    by (rule sum_sources_facts [OF e(3)]) (use typed in auto)
  note this [unfolded append_Nil]
  then obtain cs where s: "seen = rev (transfer_sources e) @ seen_sources" "distinct (transfer_sources e)"
      "set (transfer_sources e) \<inter> set seen_sources = {}"
      "map (bt_get source) (transfer_sources e) = map Some cs"
      "case r of None \<Rightarrow> cs = [] | Some c \<Rightarrow> summed cs c" by blast
  have "cs \<noteq> []" using s(4) e(1) by auto
  with s(5) obtain c where c: "r = Some c" "summed cs c" by (cases r) auto
  have this_entry: "transferred source e \<lparr>transferred_site_id = transfer_target e, transferred_counter = r\<rparr>"
    using s(4) c by (auto simp: transferred_def)
  have known: "bt_get source x \<noteq> None" if "x \<in> set (transfer_sources e)" for x
  proof -
    from that have "bt_get source x \<in> set (map (bt_get source) (transfer_sources e))" by simp
    then show ?thesis unfolding s(4) by auto
  qed
  have dist: "distinct seen" "distinct (transfer_target e # seen_targets)"
    using s(1-3) Cons.prems(2,3) e(2) by auto
  note IH = Cons.IH [OF e(4) dist]
  have known: "set ss \<subseteq> set seen_sources \<union> {s. bt_get source s \<noteq> None}"
  proof -
    have "set ss \<subseteq> set seen \<union> {s. bt_get source s \<noteq> None}" using IH by blast
    moreover have "set seen \<subseteq> set seen_sources \<union> {s. bt_get source s \<noteq> None}"
      using s(1) known by auto
    ultimately show ?thesis by blast
  qed
  have "list_all2 (transferred source) (e # es) recs" using IH this_entry by (simp add: e(5))
  moreover have "ts = rev (map transfer_target (e # es)) @ seen_targets"
    "ss = rev (concat (map transfer_sources (e # es))) @ seen_sources"
    using IH s(1) by (simp_all only: rev.simps map_append concat.simps rev_append list.map append_assoc append_Cons append_Nil)
  ultimately show ?case using IH known by blast
qed

lemma transfer_loop_targets:
  "transfer_loop source targets es seen_sources seen_targets = Inr (recs, ss, ts) \<Longrightarrow>
     transfer_target ` set es \<subseteq> set targets"
  by (induction es arbitrary: seen_sources seen_targets recs) (auto split: if_splits, blast+)

section \<open>The transfer\<close>

lemma sorted_key_unique:
  fixes key :: "'a \<Rightarrow> 'b::linorder"
  assumes "sorted_wrt (<) ys" "distinct (map key xs)" "key ` set xs = set ys"
  shows "map key (sort_key key xs) = ys"
proof -
  have "distinct (map key (sort_key key xs))"
    using assms(2) by (metis mset_eq_imp_distinct_iff mset_map mset_sort)
  then have "sorted_wrt (<) (map key (sort_key key xs))" by (simp add: strict_sorted_iff)
  moreover have "set (map key (sort_key key xs)) = set ys" using assms(3) by simp
  ultimately show ?thesis using assms(1) by (simp add: strict_sorted_equal)
qed

lemma transfer_profile_counts_facts:
  assumes "transfer_profile_counts sha sites counters targets (Some t) = Inr recs"
    and typed: "list_all counter_typed counters"
  shows "map transferred_site_id recs = map site_id targets"
    and "distinct (concat (map transfer_sources (transfer_entries t)))"
    and "set (concat (map transfer_sources (transfer_entries t))) = counter_site_id ` set counters"
    and "e \<in> set (transfer_entries t) \<Longrightarrow> \<exists>r \<in> set recs.
      transferred (bt_collect (map (\<lambda>r. (counter_site_id r, counter r)) counters)) e r"
proof -
  let ?pairs = "map (\<lambda>r. (counter_site_id r, counter r)) counters"
  let ?source = "bt_collect ?pairs"
  obtain sd td unsorted ss ts where v: "length sites = length counters"
      "\<not> list_ex (\<lambda>(site, c). site_id site \<noteq> counter_site_id c) (zip sites counters)"
      "profile_site_table_digest sha sites = Inr sd" "profile_site_table_digest sha targets = Inr td"
      "transfer_loop ?source (map site_id targets) (transfer_entries t) [] [] = Inr (unsorted, ss, ts)"
      "length ss = length ?source" "set ts = set (map site_id targets)"
      "recs = sort_key transferred_site_id unsorted"
    using assms(1)
    by (auto simp: transfer_profile_counts_def result_guard Let_def split: if_splits)
  have ids: "map counter_site_id counters = map site_id sites"
    using v(1,2) by (induction sites counters rule: list_induct2) auto
  have dist: "distinct (map fst ?pairs)"
    using table_digest_sorted [OF v(3)] ids by (simp add: comp_def strict_sorted_iff)
  have get: "bt_get ?source x = map_of ?pairs x" for x
    using dist by (simp add: bt_get_collect bt_map_of_rev)
  have typed': "counter_value_typed c" if "bt_get ?source x = Some c" for x c
    using that typed unfolding get by (auto simp: list_all_iff counter_typed_def dest!: map_of_SomeD)
  let ?es = "transfer_entries t"
  have loop: "list_all2 (transferred ?source) ?es unsorted \<and>
      ts = rev (map transfer_target ?es) @ [] \<and> distinct ts \<and>
      ss = rev (concat (map transfer_sources ?es)) @ [] \<and> distinct ss \<and>
      set ss \<subseteq> set [] \<union> {s. bt_get ?source s \<noteq> None}"
    by (rule transfer_loop_facts [OF v(5) typed']) simp_all
  then have entries: "list_all2 (transferred ?source) ?es unsorted" by blast
  from loop have ts: "set ts = set (map transfer_target ?es)" "distinct (map transfer_target ?es)"
    by (metis append_Nil2 set_rev, metis append_Nil2 distinct_rev)
  from loop have ss: "distinct ss" "set ss = set (concat (map transfer_sources ?es))"
    "distinct (concat (map transfer_sources ?es))"
    by (blast, metis append_Nil2 set_rev, metis append_Nil2 distinct_rev)
  have "set ss \<subseteq> set [] \<union> {s. bt_get ?source s \<noteq> None}" using loop by blast
  then have "set ss \<subseteq> fst ` set ?source"
    by (auto simp: bt_get_def map_of_eq_None_iff simp del: not_None_eq)
  moreover have "card (fst ` set ?source) = length ?source"
    using distinct_card [OF bt_ok_distinct [OF bt_ok_collect [of ?pairs]]] by simp
  moreover have "card (set ss) = length ?source" using distinct_card [OF ss(1)] v(6) by simp
  ultimately have all: "set ss = fst ` set ?source" by (intro card_subset_eq) auto
  have "x \<in> fst ` set ?source \<longleftrightarrow> x \<in> fst ` set ?pairs" for x
  proof -
    have "x \<in> fst ` set ?source \<longleftrightarrow> map_of ?source x \<noteq> None" by (simp only: map_of_eq_None_iff not_not)
    also have "map_of ?source x = map_of ?pairs x" using get [of x] by (simp only: bt_get_def)
    also have "map_of ?pairs x \<noteq> None \<longleftrightarrow> x \<in> fst ` set ?pairs" by (simp only: map_of_eq_None_iff not_not)
    finally show ?thesis .
  qed
  then have "fst ` set ?source = fst ` set ?pairs" by (rule set_eqI)
  then have keys: "fst ` set ?source = counter_site_id ` set counters" by (simp add: image_image)
  show "distinct (concat (map transfer_sources ?es))" by (rule ss(3))
  show "set (concat (map transfer_sources ?es)) = counter_site_id ` set counters"
    using all keys ss(2) by simp
  have targets: "map transferred_site_id unsorted = map transfer_target ?es"
    using entries by (induction rule: list_all2_induct) (auto simp: transferred_def)
  have "transferred_site_id ` set unsorted = set (map site_id targets)"
    using targets ts(1) v(7) by (metis list.set_map)
  then show "map transferred_site_id recs = map site_id targets"
    unfolding v(8) using table_digest_sorted [OF v(4)] ts(2) targets by (intro sorted_key_unique) simp_all
  show "\<exists>r \<in> set recs. transferred ?source e r" if "e \<in> set ?es"
  proof -
    from that obtain i where "i < length ?es" "?es ! i = e" by (auto simp: in_set_conv_nth)
    with entries have "transferred ?source e (unsorted ! i)" "unsorted ! i \<in> set unsorted"
      by (auto simp: list_all2_conv_all_nth)
    then show ?thesis by (auto simp: v(8))
  qed
qed

end
