(* ===== verification/Profile_Cost.thy ===== *)
theory Profile_Cost
  imports Profile_Wire
begin

text \<open>
  Profitability of a guarded decision (\<^verbatim>\<open>src/src/profile/cost.rs\<close>) and the histogram buckets
  its classes range over, with the bucket function of the collector
  (\<^verbatim>\<open>src/src/profile/generation.rs\<close>). All sums are checked \<open>u128\<close> arithmetic. The meaning of a
  proposal is the worst case, over all values the observed classes admit, of the exact net
  benefit in the integers.
\<close>

section \<open>Definitions\<close>

record ck_signed_magnitude =
  negative :: bool
  magnitude :: "128 word"

record ck_affine_cost_formula =
  fixed_cost :: "64 word"
  per_unit :: "64 word"

datatype (plugins only: code size) ck_profile_cost_domain = Exact "32 word" | HistogramBucket byte

record ck_profile_cost_class =
  class_count :: "64 word"
  class_domain :: ck_profile_cost_domain
  class_baseline :: ck_affine_cost_formula
  class_selected :: ck_affine_cost_formula

record ck_profile_cost_proposal =
  cost_classes :: "ck_profile_cost_class list"
  guard_cost :: "64 word"
  reported_net :: ck_signed_magnitude

datatype (plugins only: code size) ck_profile_cost_decision = SelectVariant "128 word" | KeepBaseline

definition bucket_ranges :: "(32 word \<times> 32 word) list" where
  "bucket_ranges =
     [(0, 0), (1, 1), (2, 2), (3, 4), (5, 8), (9, 16), (17, 32), (33, 64), (65, 128), (129, 256),
      (257, 512), (513, 1024), (1025, 2048), (2049, 4096), (4097, 65536), (65537, - 1)]"

definition profile_histogram_bucket_range :: "byte \<Rightarrow> (32 word \<times> 32 word) option" where
  "profile_histogram_bucket_range bucket =
     (if unat bucket < 16 then Some (bucket_ranges ! unat bucket) else None)"

definition profile_histogram_bucket :: "32 word \<Rightarrow> 32 word" where
  "profile_histogram_bucket value =
     (if value = 0 then 0 else if value = 1 then 1 else if value = 2 then 2
      else if value \<le> 4 then 3 else if value \<le> 8 then 4 else if value \<le> 16 then 5
      else if value \<le> 32 then 6 else if value \<le> 64 then 7 else if value \<le> 128 then 8
      else if value \<le> 256 then 9 else if value \<le> 512 then 10 else if value \<le> 1024 then 11
      else if value \<le> 2048 then 12 else if value \<le> 4096 then 13 else if value \<le> 65536 then 14
      else 15)"

definition overflow_or :: "rstring \<Rightarrow> 'a option \<Rightarrow> 'a profile_result" where
  "overflow_or label r = (case r of None \<Rightarrow> Inl (ArithmeticOverflow label) | Some x \<Rightarrow> Inr x)"

definition evaluate :: "ck_affine_cost_formula \<Rightarrow> 32 word \<Rightarrow> 128 word profile_result" where
  "evaluate formula value =
     overflow_or (lit ''affine target cost'')
       (Option.bind (checked_mul (ucast (per_unit formula)) (ucast value)) (\<lambda>variable.
        checked_add variable (ucast (fixed_cost formula))))"

text \<open>The difference of two magnitudes, as the code writes it in two places.\<close>

definition signed_difference :: "128 word \<Rightarrow> 128 word \<Rightarrow> ck_signed_magnitude" where
  "signed_difference a b =
     (if b \<le> a then \<lparr>negative = False, magnitude = a - b\<rparr>
      else \<lparr>negative = True, magnitude = b - a\<rparr>)"

definition difference ::
  "ck_affine_cost_formula \<Rightarrow> ck_affine_cost_formula \<Rightarrow> 32 word \<Rightarrow> ck_signed_magnitude profile_result" where
  "difference baseline selected value =
     result_bind (evaluate baseline value) (\<lambda>b.
     result_bind (evaluate selected value) (\<lambda>s. Inr (signed_difference b s)))"

definition minimum_signed :: "ck_signed_magnitude \<Rightarrow> ck_signed_magnitude \<Rightarrow> ck_signed_magnitude" where
  "minimum_signed left right =
     (if negative left \<and> negative right then
        (if magnitude right \<le> magnitude left then left else right)
      else if negative left then left
      else if negative right then right
      else if magnitude left \<le> magnitude right then left else right)"

fun domain_range :: "ck_profile_cost_domain \<Rightarrow> (32 word \<times> 32 word) profile_result" where
  "domain_range (Exact value) = Inr (value, value)"
| "domain_range (HistogramBucket bucket) =
     (case profile_histogram_bucket_range bucket of
        None \<Rightarrow> Inl (InvalidValue (lit ''profile.cost.bucket''))
      | Some bounds \<Rightarrow> Inr bounds)"

definition class_lower_bound :: "ck_profile_cost_class \<Rightarrow> ck_signed_magnitude profile_result" where
  "class_lower_bound c =
     result_bind (domain_range (class_domain c)) (\<lambda>(lower, upper).
     result_bind (difference (class_baseline c) (class_selected c) lower) (\<lambda>first.
     result_bind (difference (class_baseline c) (class_selected c) upper) (\<lambda>last.
     Inr (minimum_signed first last))))"

text \<open>The loop over the classes, with its sums of positive and negative contributions and of
  observations.\<close>

fun sum_classes ::
  "ck_profile_cost_class list \<Rightarrow> 128 word \<times> 128 word \<times> 128 word \<Rightarrow>
   (128 word \<times> 128 word \<times> 128 word) profile_result" where
  "sum_classes [] sums = Inr sums"
| "sum_classes (c # cs) (positive, negated, observations) =
     result_bind (overflow_or (lit ''profile class observations'')
       (checked_add observations (ucast (class_count c)))) (\<lambda>observations.
     result_bind (class_lower_bound c) (\<lambda>lower.
     result_bind (overflow_or (lit ''weighted profile class'')
       (checked_mul (magnitude lower) (ucast (class_count c)))) (\<lambda>weighted.
     if negative lower then
       result_bind (overflow_or (lit ''profile class sum'') (checked_add negated weighted)) (\<lambda>negated.
       sum_classes cs (positive, negated, observations))
     else
       result_bind (overflow_or (lit ''profile class sum'') (checked_add positive weighted)) (\<lambda>positive.
       sum_classes cs (positive, negated, observations)))))"

definition verify_profile_cost_proposal ::
  "ck_profile_cost_proposal \<Rightarrow> ck_profile_cost_decision profile_result" where
  "verify_profile_cost_proposal proposal =
     (if cost_classes proposal = [] then Inl (Application (lit ''profile cost classes are empty''))
      else result_bind (sum_classes (cost_classes proposal) (0, 0, 0)) (\<lambda>(positive, negated, observations).
      result_bind (overflow_or (lit ''profile guard cost'')
        (checked_mul observations (ucast (guard_cost proposal)))) (\<lambda>guards.
      result_bind (overflow_or (lit ''profile negative cost'') (checked_add negated guards)) (\<lambda>negated.
      let recomputed = signed_difference positive negated in
      if reported_net proposal \<noteq> recomputed then Inl (Application (lit ''profile cost total mismatch''))
      else Inr (if \<not> negative recomputed \<and> magnitude recomputed \<noteq> 0
                then SelectVariant (magnitude recomputed) else KeepBaseline)))))"

section \<open>Buckets\<close>

lemma unat_bucket:
  "unat (profile_histogram_bucket v) =
     (let n = unat v in
      if n = 0 then 0 else if n = 1 then 1 else if n = 2 then 2 else if n \<le> 4 then 3
      else if n \<le> 8 then 4 else if n \<le> 16 then 5 else if n \<le> 32 then 6 else if n \<le> 64 then 7
      else if n \<le> 128 then 8 else if n \<le> 256 then 9 else if n \<le> 512 then 10
      else if n \<le> 1024 then 11 else if n \<le> 2048 then 12 else if n \<le> 4096 then 13
      else if n \<le> 65536 then 14 else 15)"
  by (simp add: profile_histogram_bucket_def Let_def word_le_nat_alt word_unat_eq_iff [of v])

lemma bucket_range_partition:
  "(\<exists>lower upper. profile_histogram_bucket_range bucket = Some (lower, upper) \<and>
      lower \<le> v \<and> v \<le> upper) \<longleftrightarrow> unat (profile_histogram_bucket v) = unat bucket"
proof (cases "unat bucket < 16")
  case True
  then have "unat bucket \<in> {0, 1, 2, 3, 4, 5, 6, 7, 8, 9, 10, 11, 12, 13, 14, 15}"
    by (simp only: insert_iff empty_iff) presburger
  moreover have "unat v \<le> unat (- 1 :: 32 word)" by (simp flip: word_le_nat_alt)
  ultimately show ?thesis
    unfolding unat_bucket Let_def profile_histogram_bucket_range_def bucket_ranges_def word_le_nat_alt
    by (elim insertE emptyE) (simp_all split: if_split)
next
  case False
  then show ?thesis by (auto simp: profile_histogram_bucket_range_def unat_bucket Let_def)
qed

section \<open>The exact meaning\<close>

definition signed_value :: "ck_signed_magnitude \<Rightarrow> int" where
  "signed_value s = (if negative s then - uint (magnitude s) else uint (magnitude s))"

definition affine_value :: "ck_affine_cost_formula \<Rightarrow> nat \<Rightarrow> int" where
  "affine_value f v = uint (fixed_cost f) + uint (per_unit f) * int v"

definition benefit :: "ck_profile_cost_class \<Rightarrow> nat \<Rightarrow> int" where
  "benefit c v = affine_value (class_baseline c) v - affine_value (class_selected c) v"

definition admits :: "ck_profile_cost_class \<Rightarrow> nat \<Rightarrow> bool" where
  "admits c v \<longleftrightarrow> (case domain_range (class_domain c) of Inl _ \<Rightarrow> False
     | Inr (lower, upper) \<Rightarrow> unat lower \<le> v \<and> v \<le> unat upper)"

definition net_benefit :: "ck_profile_cost_proposal \<Rightarrow> nat list \<Rightarrow> int" where
  "net_benefit p vs =
     (\<Sum>(c, v) \<leftarrow> zip (cost_classes p) vs. uint (class_count c) * benefit c v) -
     (\<Sum>c \<leftarrow> cost_classes p. uint (class_count c)) * uint (guard_cost p)"

lemma overflow_or_Inr [simp]: "overflow_or label r = Inr x \<longleftrightarrow> r = Some x"
  by (auto simp: overflow_or_def split: option.splits)

lemma uint_checked_add: "checked_add a b = Some c \<Longrightarrow> uint c = uint a + uint b"
  by (metis checked_add_Some of_nat_add uint_nat)

lemma uint_checked_mul: "checked_mul a b = Some c \<Longrightarrow> uint c = uint a * uint b"
  by (metis checked_mul_Some of_nat_mult uint_nat)

lemma uint_widen:
  "LENGTH('a) \<le> LENGTH('b) \<Longrightarrow> uint (ucast (x :: 'a::len word) :: 'b::len word) = uint x"
  by (simp add: unsigned_ucast_eq take_bit_int_eq_self_iff order_less_le_trans [OF unsigned_less])

lemma evaluate_value: "evaluate f v = Inr r \<Longrightarrow> uint r = affine_value f (unat v)"
  by (auto simp: evaluate_def affine_value_def uint_widen dest!: uint_checked_add uint_checked_mul)

lemma signed_difference_value: "signed_value (signed_difference a b) = uint a - uint b"
  using uint_minus_simple_alt [of b a] uint_minus_simple_alt [of a b]
  by (auto simp: signed_difference_def signed_value_def)

lemma minimum_signed_value:
  "signed_value (minimum_signed a b) = min (signed_value a) (signed_value b)"
  by (auto simp: minimum_signed_def signed_value_def word_le_def min_def)
    (use unsigned_greater_eq [of "magnitude a", where ?'a = int]
       unsigned_greater_eq [of "magnitude b", where ?'a = int] in linarith)+

lemma affine_minimum:
  fixes a b :: int
  assumes "l \<le> v" "v \<le> u"
  shows "min (a + b * l) (a + b * u) \<le> a + b * v"
proof (cases "0 \<le> b")
  case True
  then have "b * l \<le> b * v" using assms(1) by (simp add: mult_left_mono)
  then show ?thesis by simp
next
  case False
  then have "b * u \<le> b * v" using assms(2) by (simp add: mult_left_mono_neg)
  then show ?thesis by simp
qed

text \<open>A class contributes at least its lower bound, which one of its end points attains.\<close>

lemma difference_value:
  "difference (class_baseline c) (class_selected c) v = Inr d \<Longrightarrow> signed_value d = benefit c (unat v)"
  by (auto simp: difference_def benefit_def signed_difference_value evaluate_value)

lemma benefit_affine:
  "benefit c v =
     (uint (fixed_cost (class_baseline c)) - uint (fixed_cost (class_selected c))) +
     (uint (per_unit (class_baseline c)) - uint (per_unit (class_selected c))) * int v"
  by (simp add: benefit_def affine_value_def algebra_simps)

lemma domain_range_le: "domain_range d = Inr (l, u) \<Longrightarrow> l \<le> u"
proof (cases d)
  case (HistogramBucket b)
  assume "domain_range d = Inr (l, u)"
  with HistogramBucket have *: "unat b < 16" "bucket_ranges ! unat b = (l, u)"
    by (auto simp: profile_histogram_bucket_range_def split: option.splits if_splits)
  have "list_all (\<lambda>(l, u). l \<le> u) bucket_ranges" by (simp add: bucket_ranges_def)
  moreover have "(l, u) \<in> set bucket_ranges"
    using * nth_mem [of "unat b" bucket_ranges] by (simp add: bucket_ranges_def)
  ultimately show ?thesis by (auto simp: list_all_iff)
qed auto

lemma class_lower_bound_value:
  assumes "class_lower_bound c = Inr b"
  shows "admits c v \<Longrightarrow> signed_value b \<le> benefit c v"
    and "\<exists>v. admits c v \<and> benefit c v = signed_value b"
proof -
  obtain l u first last where range: "domain_range (class_domain c) = Inr (l, u)"
    and d: "difference (class_baseline c) (class_selected c) l = Inr first"
      "difference (class_baseline c) (class_selected c) u = Inr last"
    and b: "b = minimum_signed first last"
    using assms by (auto simp: class_lower_bound_def)
  have least: "signed_value b = min (benefit c (unat l)) (benefit c (unat u))"
    by (simp add: b minimum_signed_value difference_value [OF d(1)] difference_value [OF d(2)])
  have lu: "unat l \<le> unat u" using domain_range_le [OF range] by (simp add: word_le_nat_alt)
  show "signed_value b \<le> benefit c v" if "admits c v"
  proof -
    have "unat l \<le> v" "v \<le> unat u" using that by (simp_all add: admits_def range)
    then show ?thesis
      unfolding least benefit_affine by (intro affine_minimum) (simp_all only: of_nat_le_iff)
  qed
  have "admits c (unat l)" "admits c (unat u)" using lu by (simp_all add: admits_def range)
  then show "\<exists>v. admits c v \<and> benefit c v = signed_value b"
    unfolding least by (metis min_def)
qed

lemma sum_classes_step:
  assumes "sum_classes (c # cs) (p, n, obs) = Inr r"
  obtains obs1 b p1 n1 where "class_lower_bound c = Inr b"
    "uint obs1 = uint obs + uint (class_count c)"
    "uint p1 - uint n1 = uint p - uint n + uint (class_count c) * signed_value b"
    "sum_classes cs (p1, n1, obs1) = Inr r"
proof -
  obtain obs1 b w where 1: "checked_add obs (ucast (class_count c)) = Some obs1"
      "class_lower_bound c = Inr b" "checked_mul (magnitude b) (ucast (class_count c)) = Some w"
    using assms by auto
  have obs: "uint obs1 = uint obs + uint (class_count c)"
    using uint_checked_add [OF 1(1)] by (simp add: uint_widen)
  have w: "uint w = uint (class_count c) * uint (magnitude b)"
    using uint_checked_mul [OF 1(3)] by (simp add: uint_widen)
  show thesis
  proof (cases "negative b")
    case True
    with assms 1 obtain n1 where "checked_add n w = Some n1" "sum_classes cs (p, n1, obs1) = Inr r"
      by auto
    with True w show thesis
      by (intro that [OF 1(2) obs, of p n1]) (auto simp: signed_value_def dest: uint_checked_add)
  next
    case False
    with assms 1 obtain p1 where "checked_add p w = Some p1" "sum_classes cs (p1, n, obs1) = Inr r"
      by auto
    with False w show thesis
      by (intro that [OF 1(2) obs, of p1 n]) (auto simp: signed_value_def dest: uint_checked_add)
  qed
qed

lemma sum_classes_value:
  assumes "sum_classes cs (p, n, obs) = Inr (p', n', obs')"
  shows "uint obs' = uint obs + (\<Sum>c \<leftarrow> cs. uint (class_count c))"
    and "list_all2 admits cs vs \<Longrightarrow>
      uint p' - uint n' \<le> uint p - uint n + (\<Sum>(c, v) \<leftarrow> zip cs vs. uint (class_count c) * benefit c v)"
    and "\<exists>vs. list_all2 admits cs vs \<and>
      uint p' - uint n' = uint p - uint n + (\<Sum>(c, v) \<leftarrow> zip cs vs. uint (class_count c) * benefit c v)"
  using assms
proof (induction cs arbitrary: p n obs vs)
  case Nil
  {
    case 1 then show ?case by simp
  next
    case 2 then show ?case by simp
  next
    case 3 then show ?case by simp
  }
next
  case (Cons c cs)
  note step = sum_classes_step
  {
    case 1
    obtain obs1 b p1 n1 where s: "class_lower_bound c = Inr b"
      "uint obs1 = uint obs + uint (class_count c)"
      "uint p1 - uint n1 = uint p - uint n + uint (class_count c) * signed_value b"
      "sum_classes cs (p1, n1, obs1) = Inr (p', n', obs')" by (rule step [OF 1])
    from Cons.IH(1) [OF s(4)] s(2) show ?case by simp
  next
    case 2
    obtain obs1 b p1 n1 where s: "class_lower_bound c = Inr b"
      "uint obs1 = uint obs + uint (class_count c)"
      "uint p1 - uint n1 = uint p - uint n + uint (class_count c) * signed_value b"
      "sum_classes cs (p1, n1, obs1) = Inr (p', n', obs')" by (rule step [OF 2(2)])
    from 2(1) obtain v vs' where vs: "vs = v # vs'" "admits c v" "list_all2 admits cs vs'"
      by (auto simp: list_all2_Cons1)
    have "uint (class_count c) * signed_value b \<le> uint (class_count c) * benefit c v"
      by (rule mult_left_mono [OF class_lower_bound_value(1) [OF s(1) vs(2)]]) simp
    with Cons.IH(2) [OF vs(3) s(4)] s(3) show ?case by (simp add: vs(1))
  next
    case 3
    obtain obs1 b p1 n1 where s: "class_lower_bound c = Inr b"
      "uint obs1 = uint obs + uint (class_count c)"
      "uint p1 - uint n1 = uint p - uint n + uint (class_count c) * signed_value b"
      "sum_classes cs (p1, n1, obs1) = Inr (p', n', obs')" by (rule step [OF 3])
    from Cons.IH(3) [OF s(4)] obtain vs where vs: "list_all2 admits cs vs"
      "uint p' - uint n' = uint p1 - uint n1 + (\<Sum>(c, v) \<leftarrow> zip cs vs. uint (class_count c) * benefit c v)"
      by blast
    from class_lower_bound_value(2) [OF s(1)] obtain v where "admits c v" "benefit c v = signed_value b"
      by blast
    with vs s(3) show ?case by (intro exI [of _ "v # vs"]) simp
  }
qed

lemma verify_cost_value:
  assumes "verify_profile_cost_proposal p = Inr d"
  shows "list_all2 admits (cost_classes p) vs \<Longrightarrow> signed_value (reported_net p) \<le> net_benefit p vs"
    and "\<exists>vs. list_all2 admits (cost_classes p) vs \<and> net_benefit p vs = signed_value (reported_net p)"
    and "d = (if 0 < signed_value (reported_net p) then SelectVariant (magnitude (reported_net p))
              else KeepBaseline)"
proof -
  obtain pos neg obs guards neg' where sums: "sum_classes (cost_classes p) (0, 0, 0) = Inr (pos, neg, obs)"
    and g: "checked_mul obs (ucast (guard_cost p)) = Some guards" "checked_add neg guards = Some neg'"
    and net: "reported_net p = signed_difference pos neg'"
    and d: "d = (if \<not> negative (reported_net p) \<and> magnitude (reported_net p) \<noteq> 0
      then SelectVariant (magnitude (reported_net p)) else KeepBaseline)"
    using assms by (auto simp: verify_profile_cost_proposal_def Let_def split: if_splits)
  have "signed_value (reported_net p) = uint pos - (uint neg + uint obs * uint (guard_cost p))"
    using uint_checked_mul [OF g(1)] uint_checked_add [OF g(2)]
    by (simp add: net signed_difference_value uint_widen)
  moreover have "uint obs = (\<Sum>c \<leftarrow> cost_classes p. uint (class_count c))"
    using sum_classes_value(1) [OF sums] by simp
  ultimately have net': "signed_value (reported_net p) =
      uint pos - uint neg - (\<Sum>c \<leftarrow> cost_classes p. uint (class_count c)) * uint (guard_cost p)"
    by simp
  show "signed_value (reported_net p) \<le> net_benefit p vs" if "list_all2 admits (cost_classes p) vs"
    using sum_classes_value(2) [OF sums that] by (simp add: net' net_benefit_def)
  show "\<exists>vs. list_all2 admits (cost_classes p) vs \<and> net_benefit p vs = signed_value (reported_net p)"
    using sum_classes_value(3) [OF sums] by (simp add: net' net_benefit_def) force
  have "0 \<le> uint (magnitude (reported_net p))" by simp
  then have "0 < signed_value (reported_net p) \<longleftrightarrow>
      \<not> negative (reported_net p) \<and> magnitude (reported_net p) \<noteq> 0"
    by (auto simp: signed_value_def order_less_le uint_0_iff)
  with d show "d = (if 0 < signed_value (reported_net p) then SelectVariant (magnitude (reported_net p))
      else KeepBaseline)" by simp
qed

end
