(* ===== verification/Profile_Properties.thy ===== *)
theory Profile_Properties
  imports Profile_Template Profile_Transfer Profile_Cost
begin

text \<open>
  The properties of the workload profiles. The witnesses use a toy digest, 32 copies of the last
  byte of the input, with which two shards differ when one of them has incomplete observations.
\<close>

definition toy_sha :: "bytes \<Rightarrow> bytes" where
  "toy_sha bs = replicate 32 (last bs)"

definition toy_site :: ck_profile_site_descriptor where
  "toy_site = \<lparr>site_id = replicate 16 7, function_digest = replicate 32 8, location = 3,
     site_kind = FunctionEntry\<rparr>"

definition toy_identity :: ck_profile_identity where
  "toy_identity =
     \<lparr>compiler = \<lparr>package_version = [48], source_identity = replicate 32 1,
        profile_runtime_identity = replicate 32 2\<rparr>,
      module_identity = \<lparr>semantic_graph_digest = replicate 32 3, pre_profile_kir_digest = replicate 32 4,
        site_table_digest = replicate 32 1\<rparr>,
      schemas = \<lparr>schema_language = 1, schema_native_abi = 1, schema_runtime_abi = 2, schema_kir = 3,
        schema_proof = 3, schema_cost_model = 3, schema_target_profile = 1, schema_llvm_bridge = 4,
        schema_cache = 4\<rparr>,
      target = \<lparr>triple = [120, 56], pointer_width = 64, endianness = Little, object_format = Elf,
        os_abi = [103], target_set_digest = replicate 32 6\<rparr>,
      modes = \<lparr>overflow_checked = False, bounds_checked = False, strict_float = True,
        sanitizer = False, topology = NativeExecutable, optimization_family = O3,
        cpu_policy = CpuBaseline\<rparr>,
      contract = schema1\<rparr>"

definition toy_shard :: "64 word \<Rightarrow> byte \<Rightarrow> bool \<Rightarrow> ck_profile_shard" where
  "toy_shard n run incomplete =
     \<lparr>shard_identity = toy_identity, shard_sites = [toy_site],
      shard_counters = [\<lparr>counter_site_id = replicate 16 7, counter = Scalar n\<rparr>],
      run_id = replicate 16 run, shard_overflowed = False, shard_incomplete = incomplete\<rparr>"

lemma toy_sha_length: "length (toy_sha x) = 32"
  by (simp add: toy_sha_def)

lemma toy_shard_typed: "shard_typed (toy_shard n run incomplete)"
  by (simp add: shard_typed_def toy_shard_def toy_identity_def identity_typed_def toy_site_def
    site_typed_def counter_typed_def)

lemma toy_tables:
  "validate_tables toy_sha toy_identity [toy_site]
     [\<lparr>counter_site_id = replicate 16 7, counter = Scalar n\<rparr>] = Inr ()"
  by (simp add: validate_tables_def validate_iff string_ok_def toy_identity_def toy_site_def
    ck_profile_max_sites_def ensure_counters_canonical_def profile_site_table_digest_def encode_sites_def
    encode_counted_def encode_site_def toy_sha_def)

lemma toy_identity_valid: "validate toy_identity = Inr ()"
  using toy_tables [of 0] by (auto simp: validate_tables_def)

lemma toy_lengths:
  "length (identity_bytes toy_identity) < 1000" "length (table_bytes site_bytes [toy_site]) < 1000"
  "length (table_bytes counter_bytes [\<lparr>counter_site_id = replicate 16 7, counter = Scalar n\<rparr>]) < 1000"
  "length (encode_flags a b) = 2"
  by (simp_all add: identity_bytes_def byte_lit_def compiler_bytes_def module_bytes_def target_bytes_def
    encode_schemas_def encode_modes_def encode_contract_def string_bytes_def toy_identity_def
    table_bytes_def site_bytes_def toy_site_def counter_bytes_def encode_flags_def)

lemma toy_outer:
  assumes "\<And>p. p \<in> set items \<Longrightarrow> length (snd p) < 1000" "length magic = 8" "length items \<le> 6"
  shows "encode_outer toy_sha magic domain items = Inr (outer_bytes toy_sha magic domain items)"
proof -
  have "length (concat (map field_bytes items)) \<le> 1006 * length items"
    using assms(1) by (induction items) force+
  with assms show ?thesis
    by (force simp: encode_outer_iff outer_bytes_def Let_def toy_sha_length)
qed

lemma toy_serializes:
  "serialize_profile_shard toy_sha (toy_shard n run incomplete) =
     Inr (outer_bytes toy_sha shard_magic shard_domain (shard_fields (toy_shard n run incomplete)))"
proof -
  have "encode_sites [toy_site] = Inr (table_bytes site_bytes [toy_site])"
    "encode_counters [\<lparr>counter_site_id = replicate 16 7, counter = Scalar n\<rparr>] =
       Inr (table_bytes counter_bytes [\<lparr>counter_site_id = replicate 16 7, counter = Scalar n\<rparr>])"
    "canonical_bytes toy_identity = Inr (identity_bytes toy_identity)"
    by (simp_all add: encode_sites_iff encode_counters_iff canonical_bytes_iff toy_identity_valid toy_site_def
      ensure_counters_canonical_def)
  moreover have "encode_outer toy_sha shard_magic shard_domain (shard_fields (toy_shard n run incomplete)) =
      Inr (outer_bytes toy_sha shard_magic shard_domain (shard_fields (toy_shard n run incomplete)))"
    by (rule toy_outer) (auto simp: shard_fields_def toy_shard_def toy_lengths)
  ultimately show ?thesis
    using toy_tables by (simp add: serialize_profile_shard_def toy_shard_def shard_fields_def)
qed

lemma toy_digest: "shard_digest toy_sha (toy_shard n run incomplete) = replicate 32 (bool_byte incomplete)"
  unfolding shard_digest_def toy_serializes sum.case
  by (simp add: outer_bytes_def Let_def toy_sha_def shard_fields_def field_bytes_def toy_shard_def
    encode_flags_def)

lemma toy_mergeable: "mergeable toy_sha [toy_shard 2 1 False, toy_shard 3 2 True]"
  by (simp add: mergeable_def compatible_def toy_digest toy_serializes bool_byte_def)
    (simp add: toy_shard_def replicate_eq_replicate)

text \<open>C25. For every digest function of 32 bytes, the parser of shards accepts a byte string
  exactly when it is the serialization of the shard it yields. So parsing inverts
  serialization, no two byte strings are the same shard, and no other input is accepted:
  tables out of order, trailing bytes, unknown or repeated fields, a wrong digest.\<close>

theorem parse_profile_shard_canonical:
  assumes "\<And>x. length (sha x) = 32"
  shows "parse_profile_shard sha bs = Inr s \<longleftrightarrow>
    shard_typed s \<and> serialize_profile_shard sha s = Inr bs"
  by (rule parse_shard_iff) (rule assms)

lemma parse_profile_shard_canonical_witness:
  "\<exists>bs. serialize_profile_shard toy_sha (toy_shard 5 1 True) = Inr bs \<and>
     parse_profile_shard toy_sha bs = Inr (toy_shard 5 1 True)"
  using parse_profile_shard_canonical [of toy_sha _ "toy_shard 5 1 True"]
  by (simp add: toy_sha_length toy_shard_typed toy_serializes)

definition toy_profile :: "64 word \<Rightarrow> 32 word \<Rightarrow> ck_profile" where
  "toy_profile n shards =
     \<lparr>profile_identity = toy_identity, profile_sites = [toy_site],
      profile_counters = [\<lparr>counter_site_id = replicate 16 7, counter = Scalar n\<rparr>],
      completed_runs = 2, merged_shards = shards, profile_overflowed = False, profile_incomplete = True\<rparr>"

definition profile_fields :: "ck_profile \<Rightarrow> (16 word \<times> bytes) list" where
  "profile_fields p =
     [(1, identity_bytes (profile_identity p)), (2, table_bytes site_bytes (profile_sites p)),
      (3, table_bytes counter_bytes (profile_counters p)), (4, word_bytes (completed_runs p)),
      (5, word_bytes (merged_shards p)), (6, encode_flags (profile_overflowed p) (profile_incomplete p))]"

lemma toy_profile_serializes:
  assumes "shards \<noteq> 0"
  shows "serialize_profile toy_sha (toy_profile n shards) =
    Inr (outer_bytes toy_sha profile_magic profile_domain (profile_fields (toy_profile n shards)))"
proof -
  have "encode_sites [toy_site] = Inr (table_bytes site_bytes [toy_site])"
    "encode_counters [\<lparr>counter_site_id = replicate 16 7, counter = Scalar n\<rparr>] =
       Inr (table_bytes counter_bytes [\<lparr>counter_site_id = replicate 16 7, counter = Scalar n\<rparr>])"
    "canonical_bytes toy_identity = Inr (identity_bytes toy_identity)"
    by (simp_all add: encode_sites_iff encode_counters_iff canonical_bytes_iff toy_identity_valid toy_site_def
      ensure_counters_canonical_def)
  moreover have "encode_outer toy_sha profile_magic profile_domain (profile_fields (toy_profile n shards)) =
      Inr (outer_bytes toy_sha profile_magic profile_domain (profile_fields (toy_profile n shards)))"
    by (rule toy_outer) (auto simp: profile_fields_def toy_profile_def toy_lengths)
  ultimately show ?thesis
    using toy_tables assms by (simp add: serialize_profile_def toy_profile_def profile_fields_def)
qed

lemma toy_profile_typed: "profile_typed (toy_profile n shards)"
  using toy_shard_typed [of n] by (simp add: profile_typed_def toy_profile_def shard_typed_def toy_shard_def)

text \<open>C26. The same for profiles, with one difference: the parser also rejects a count of merged
  shards above the limit, which the serializer writes without complaint.\<close>

theorem parse_profile_canonical:
  assumes "\<And>x. length (sha x) = 32"
  shows "parse_profile sha bs = Inr p \<longleftrightarrow>
    profile_typed p \<and> merged_shards p \<le> ck_profile_max_shards \<and> serialize_profile sha p = Inr bs"
  by (rule parse_profile_iff) (rule assms)

lemma parse_profile_canonical_witness:
  "(\<exists>bs. serialize_profile toy_sha (toy_profile 5 2) = Inr bs \<and>
      parse_profile toy_sha bs = Inr (toy_profile 5 2)) \<and>
   (\<exists>bs. serialize_profile toy_sha (toy_profile 5 4097) = Inr bs \<and>
      parse_profile toy_sha bs \<noteq> Inr (toy_profile 5 4097))"
  using parse_profile_canonical [of toy_sha _ "toy_profile 5 2"]
    parse_profile_canonical [of toy_sha _ "toy_profile 5 4097"]
  by (simp add: toy_sha_length toy_profile_typed toy_profile_serializes)
    (simp add: toy_profile_def ck_profile_max_shards_def)

text \<open>C27. Merging succeeds exactly on one to 4096 shards that all serialize, have one identity and
  one site table, and differ in their run identifiers and in their digests. Each cell of the
  merged counters is then the sum of that cell over the shards, or all ones when the sum does
  not fit 64 bits, and then the counter, or the profile, is marked; and no order of the shards
  gives another profile.\<close>

theorem merge_profile_shards_sums:
  assumes "list_all shard_typed shards"
  shows "(merge_profile_shards sha debug_str shards = Inr p \<longleftrightarrow>
      shards \<noteq> [] \<and> length shards \<le> 4096 \<and> mergeable sha shards \<and> p = merged_profile shards) \<and>
    (\<forall>others. mset others = mset shards \<longrightarrow>
      (merge_profile_shards sha debug_str others = Inr p \<longleftrightarrow>
       merge_profile_shards sha debug_str shards = Inr p))"
proof (intro conjI allI impI)
  note iff = merge_profile_shards_iff [of _ sha debug_str]
  show "merge_profile_shards sha debug_str shards = Inr p \<longleftrightarrow>
      shards \<noteq> [] \<and> length shards \<le> 4096 \<and> mergeable sha shards \<and> p = merged_profile shards"
    by (rule iff) (rule assms)
  fix others
  assume perm: "mset others = mset shards"
  then have typed: "list_all shard_typed others"
    using assms by (metis list_all_iff mset_eq_setD)
  have "others = [] \<longleftrightarrow> shards = []" "length others = length shards"
    using perm mset_eq_length by (auto dest: mset_eq_length)
  moreover have "mergeable sha others \<longleftrightarrow> mergeable sha shards"
    using perm mergeable_perm by metis
  moreover have "merged_profile others = merged_profile shards" if "mergeable sha shards" "shards \<noteq> []"
    using merged_profile_perm [OF perm [symmetric] that(2,1) assms] by simp
  ultimately show "merge_profile_shards sha debug_str others = Inr p \<longleftrightarrow>
      merge_profile_shards sha debug_str shards = Inr p"
    unfolding iff [OF assms] iff [OF typed] by auto
qed

lemma merge_profile_shards_sums_witness:
  "\<exists>p. merge_profile_shards toy_sha (\<lambda>_. []) [toy_shard 3 2 True, toy_shard 2 1 False] = Inr p \<and>
     profile_counters p = [\<lparr>counter_site_id = replicate 16 7, counter = Scalar 5\<rparr>]"
proof -
  let ?shards = "[toy_shard 2 1 False, toy_shard 3 2 True]"
  have "list_all shard_typed ?shards" by (simp add: toy_shard_typed)
  note sums = merge_profile_shards_sums [OF this, where sha = toy_sha and debug_str = "\<lambda>_. []"
    and p = "merged_profile ?shards"]
  have "merge_profile_shards toy_sha (\<lambda>_. []) ?shards = Inr (merged_profile ?shards)"
    using conjunct1 [OF sums] by (simp add: toy_mergeable)
  moreover have "mset [toy_shard 3 2 True, toy_shard 2 1 False] = mset ?shards" by simp
  ultimately have "merge_profile_shards toy_sha (\<lambda>_. []) [toy_shard 3 2 True, toy_shard 2 1 False] =
      Inr (merged_profile ?shards)"
    using conjunct2 [OF sums] by blast
  moreover have "profile_counters (merged_profile ?shards) =
      [\<lparr>counter_site_id = replicate 16 7, counter = Scalar 5\<rparr>]"
    by (simp add: merged_profile_def table_sum_def table_counters_def counter_sum_def cell_total_def
      cap_def toy_shard_def)
  ultimately show ?thesis by blast
qed

text \<open>C28. A cost proposal is verified only when its reported total is the exact worst case, over
  all values its classes admit, of the net benefit in the integers: no choice of values gives
  less, one gives exactly it, and the variant is selected when it is positive.\<close>

theorem verify_cost_worst_case:
  assumes "verify_profile_cost_proposal p = Inr d"
  shows "(\<forall>vs. list_all2 admits (cost_classes p) vs \<longrightarrow>
        signed_value (reported_net p) \<le> net_benefit p vs) \<and>
    (\<exists>vs. list_all2 admits (cost_classes p) vs \<and>
        net_benefit p vs = signed_value (reported_net p)) \<and>
    d = (if 0 < signed_value (reported_net p) then SelectVariant (magnitude (reported_net p))
         else KeepBaseline)"
  using verify_cost_value [OF assms] by blast

definition toy_proposal :: ck_profile_cost_proposal where
  "toy_proposal =
     \<lparr>cost_classes = [\<lparr>class_count = 10, class_domain = HistogramBucket 4,
        class_baseline = \<lparr>fixed_cost = 0, per_unit = 4\<rparr>, class_selected = \<lparr>fixed_cost = 6, per_unit = 1\<rparr>\<rparr>],
      guard_cost = 2, reported_net = \<lparr>negative = False, magnitude = 70\<rparr>\<rparr>"

lemma verify_cost_worst_case_witness:
  "verify_profile_cost_proposal toy_proposal = Inr (SelectVariant 70) \<and>
   (\<exists>vs. list_all2 admits (cost_classes toy_proposal) vs \<and> net_benefit toy_proposal vs = 70)"
proof -
  have v: "verify_profile_cost_proposal toy_proposal = Inr (SelectVariant 70)"
    by (simp add: verify_profile_cost_proposal_def toy_proposal_def class_lower_bound_def difference_def
      evaluate_def checked_add_def checked_mul_def signed_difference_def minimum_signed_def
      profile_histogram_bucket_range_def bucket_ranges_def overflow_or_def)
  from verify_cost_worst_case [OF this] v show ?thesis
    by (simp add: toy_proposal_def signed_value_def)
qed

text \<open>C29. The ranks number the functions of known work from one, more work first and then the
  smaller digest; functions of unknown work have none. When the module's work is below
  2^128 / 10000, a function is a hot root exactly when it is known, has at least one percent of
  the work (or is the only known one), and those such functions ranked before it cover less
  than ninety percent.\<close>

theorem rank_function_work_order:
  assumes "rank_function_work work schema1 = Inr fs" "bt_ok work" "f \<in> set fs"
    "module_amount fs * 10000 < 2 ^ 128"
  shows "map (\<lambda>f. (work_function f, dynamic_work f)) fs = work \<and>
    work_rank f = (if dynamic_work f = None then None
      else Some (word_of_nat (1 + length (filter (\<lambda>g. ranks_before g f) fs)))) \<and>
    (hot_root f \<longleftrightarrow> hot_candidate fs f \<and>
      \<not> schema1_stop (module_amount fs)
          (\<Sum>g \<leftarrow> filter (\<lambda>g. hot_candidate fs g \<and> ranks_before g f) fs. work_amount g))"
  using rank_function_work_facts [OF assms(1,2)] hot_root_facts [OF assms(1,2,4,3)] assms(3) by blast

lemma rank_function_work_order_witness:
  "\<exists>fs. rank_function_work [([1], Some 5), ([2], None), ([3], Some 95)] schema1 = Inr fs \<and>
     map work_rank fs = [Some 2, None, Some 1] \<and> map hot_root fs = [False, False, True]"
proof -
  let ?work = "[([1], Some 5), ([2], None), ([3], Some 95)]"
  let ?f = "\<lambda>d w r h. \<lparr>work_function = d, dynamic_work = w, work_rank = r, hot_root = h\<rparr>"
  let ?fs = "[?f [1] (Some 5) (Some 2) False, ?f [2] None None False, ?f [3] (Some 95) (Some 1) True]"
  have r: "rank_function_work ?work schema1 = Inr ?fs"
    by (simp add: rank_function_work_def known_work_def List.map_filter_def rank_key_def schema1_def
      ratio_u128_at_least_def checked_add_def checked_mul_def bt_collect_def bt_get_def Let_def)
  have ok: "bt_ok (?work :: (bytes \<times> 128 word option) list)" by (simp add: bt_ok_def)
  have small: "module_amount ?fs * 10000 < 2 ^ 128" by (simp add: module_amount_def work_amount_def)
  have "map (\<lambda>f. (work_function f, dynamic_work f)) ?fs = ?work"
    using rank_function_work_order [OF r ok _ small, of "?f [2] None None False"] by simp
  then show ?thesis using r by simp
qed

text \<open>C30. A transfer of counts that succeeds yields the target sites in their order, uses every
  source site exactly once, and gives each target a counter whose cells are the sums of the
  cells of its sources, or all ones where a sum does not fit; the mark of a source is kept.\<close>

theorem transfer_profile_counts_conserves:
  assumes "transfer_profile_counts sha sites counters targets (Some t) = Inr recs"
    "list_all counter_typed counters"
  shows "map transferred_site_id recs = map site_id targets \<and>
    distinct (concat (map transfer_sources (transfer_entries t))) \<and>
    set (concat (map transfer_sources (transfer_entries t))) = counter_site_id ` set counters \<and>
    (\<forall>e \<in> set (transfer_entries t). \<exists>r \<in> set recs.
       transferred (bt_collect (map (\<lambda>r. (counter_site_id r, counter r)) counters)) e r)"
  using transfer_profile_counts_facts [OF assms] by blast

definition toy_function_site :: "byte \<Rightarrow> ck_profile_site_descriptor" where
  "toy_function_site b = \<lparr>site_id = replicate 16 b, function_digest = replicate 32 b, location = 0,
     site_kind = FunctionEntry\<rparr>"

definition toy_record :: "byte \<Rightarrow> 64 word \<Rightarrow> ck_profile_counter_record" where
  "toy_record b n = \<lparr>counter_site_id = replicate 16 b, counter = Scalar n\<rparr>"

definition toy_transfer :: ck_profile_mapping_transfer where
  "toy_transfer = \<lparr>source_table_digest = replicate 32 1, target_table_digest = replicate 32 1,
     transfer_entries = [\<lparr>transfer_target = replicate 16 9,
       transfer_sources = [replicate 16 2, replicate 16 1]\<rparr>]\<rparr>"

lemma replicate_less: "replicate n (a :: byte) < replicate n b \<longleftrightarrow> 0 < n \<and> a < b"
  by (induction n) auto

lemma toy_site_ids:
  "site_id (toy_function_site b) = replicate 16 b" "counter_site_id (toy_record b n) = replicate 16 b"
  "counter (toy_record b n) = Scalar n"
  by (simp_all add: toy_function_site_def toy_record_def)

lemma toy_table_digests:
  "profile_site_table_digest toy_sha [toy_function_site 1, toy_function_site 2] = Inr (replicate 32 1)"
  "profile_site_table_digest toy_sha [toy_function_site 9] = Inr (replicate 32 1)"
  by (simp_all add: profile_site_table_digest_def encode_sites_def encode_counted_def encode_site_def
    toy_sha_def toy_function_site_def ck_profile_max_sites_def replicate_less)

lemma transfer_profile_counts_conserves_witness:
  "\<exists>recs. transfer_profile_counts toy_sha [toy_function_site 1, toy_function_site 2]
       [toy_record 1 4, toy_record 2 6] [toy_function_site 9] (Some toy_transfer) = Inr recs \<and>
     map transferred_site_id recs = [replicate 16 9]"
proof -
  let ?recs = "[\<lparr>transferred_site_id = replicate 16 9, transferred_counter = Some (Scalar 10)\<rparr>]"
  have t: "transfer_profile_counts toy_sha [toy_function_site 1, toy_function_site 2]
       [toy_record 1 4, toy_record 2 6] [toy_function_site 9] (Some toy_transfer) = Inr ?recs"
    by (simp add: transfer_profile_counts_def toy_table_digests toy_transfer_def toy_site_ids
      bt_collect_def bt_get_def Let_def saturating_add_def replicate_eq_replicate replicate_less)
  have "list_all counter_typed [toy_record 1 4, toy_record 2 6]"
    by (simp add: toy_record_def counter_typed_def)
  from transfer_profile_counts_conserves [OF t this] t show ?thesis
    by (simp add: toy_function_site_def)
qed

text \<open>C31. The offsets of a shard template are right for every shard of its identity and site
  table: the shard's bytes have the template's length, its run identifier and flags are at
  their offsets, the cells of the k-th counter are at the offsets of the k-th group, and its
  saturation byte, when it has one, is at its offset. So patching the template there, and the
  digest at the end, writes exactly the shard.\<close>

theorem shard_template_offsets:
  assumes "create_profile_shard_template sha i sites = Inr t" "\<And>x. length (sha x) = 32"
    "shard_typed s" "shard_identity s = i" "shard_sites s = sites"
    "serialize_profile_shard sha s = Inr bs"
  shows "length bs = length (template_bytes t) \<and> unat (digest_offset t) = length bs - 32 \<and>
    take 16 (drop (unat (run_id_offset t)) bs) = run_id s \<and>
    take 2 (drop (unat (overflow_flag_offset t)) bs) =
      encode_flags (shard_overflowed s) (shard_incomplete s) \<and>
    (\<forall>k < length sites. site_located bs (counter (shard_counters s ! k))
      (take (unat (site_counter_counts t ! k)) (drop (unat (site_first_counters t ! k)) (counter_offsets t)))
      (site_saturation_offsets t ! k))"
  using create_template_facts [OF assms] by blast

lemma toy_template: "\<exists>t. create_profile_shard_template toy_sha toy_identity [toy_site] = Inr t"
proof -
  let ?c = "\<lparr>counter_site_id = replicate 16 7, counter = Scalar 0\<rparr>"
  have zero: "zero_counters [toy_site] = [?c]" by (simp add: zero_counters_def toy_site_def)
  have parts: "canonical_bytes toy_identity = Inr (identity_bytes toy_identity)"
    "encode_sites [toy_site] = Inr (table_bytes site_bytes [toy_site])"
    "encode_counters [?c] = Inr (table_bytes counter_bytes [?c])"
    by (simp_all add: encode_sites_iff encode_counters_iff canonical_bytes_iff toy_identity_valid toy_site_def
      ensure_counters_canonical_def)
  have s: "\<lparr>shard_identity = toy_identity, shard_sites = [toy_site], shard_counters = [?c],
      run_id = replicate 16 0, shard_overflowed = False, shard_incomplete = False\<rparr> = toy_shard 0 0 False"
    by (simp add: toy_shard_def)
  have lengths: "length (identity_bytes toy_identity) = 319"
    "length (table_bytes site_bytes [toy_site]) = 57" "length (table_bytes counter_bytes [?c]) = 29"
    "length (outer_bytes toy_sha shard_magic shard_domain (shard_fields (toy_shard 0 0 False))) = 497"
    by (simp_all add: outer_bytes_def Let_def shard_fields_def field_bytes_def toy_sha_length toy_shard_def)
      (simp_all add: identity_bytes_def byte_lit_def compiler_bytes_def module_bytes_def target_bytes_def
      encode_schemas_def encode_modes_def encode_contract_def string_bytes_def toy_identity_def
      table_bytes_def site_bytes_def toy_site_def counter_bytes_def encode_flags_def)
  show ?thesis
    by (simp add: create_profile_shard_template_def Let_def zero parts s toy_serializes lengths
      counter_layout_def checked_u32_def advance_wire_def checked_add_def)
qed

lemma shard_template_offsets_witness:
  "\<exists>t bs. create_profile_shard_template toy_sha toy_identity [toy_site] = Inr t \<and>
     serialize_profile_shard toy_sha (toy_shard 5 1 True) = Inr bs \<and>
     length bs = length (template_bytes t)"
proof -
  obtain t where t: "create_profile_shard_template toy_sha toy_identity [toy_site] = Inr t"
    using toy_template by blast
  have "shard_identity (toy_shard 5 1 True) = toy_identity" "shard_sites (toy_shard 5 1 True) = [toy_site]"
    by (simp_all add: toy_shard_def)
  from shard_template_offsets [OF t toy_sha_length toy_shard_typed this toy_serializes] t toy_serializes
  show ?thesis by blast
qed

end
