(* ===== verification/Lexer.thy ===== *)
theory Lexer
  imports Source
begin

text \<open>
  The lexer, \<^verbatim>\<open>src/src/frontend/lexer.rs\<close>. The record \<open>lexer\<close> is the struct \<open>Lexer\<close> and
  each method is a function on it. The loops that depend on \<open>advance\<close> moving are partial:
  \<open>None\<close> is a run that does not return. \<open>advance\<close> does not move at U+0000, the character
  that \<open>peek\<close> also uses for "past the end", so the loops really can diverge.
\<close>

section \<open>Tokens\<close>

datatype (plugins only: code size) token_kind =
    TkEof | TkIdentifier | TkInteger | TkFloat
  | TkStruct | TkExport | TkUnsafe | TkFn | TkContract | TkRequires | TkEffects | TkNone
  | TkLet | TkReturn | TkBreak | TkContinue | TkIf | TkElse | TkWhile | TkTrue | TkFalse
  | TkI32 | TkI64 | TkU32 | TkU64 | TkF64 | TkBool | TkVoid | TkPtr | TkSlice
  | TkLeftParen | TkRightParen | TkLeftBrace | TkRightBrace | TkLeftBracket | TkRightBracket
  | TkComma | TkColon | TkSemicolon | TkDot | TkDotDot | TkArrow
  | TkPlus | TkMinus | TkStar | TkSlash | TkPercent | TkEqual | TkEqualEqual | TkBang
  | TkBangEqual | TkLess | TkLessEqual | TkGreater | TkGreaterEqual | TkAmpAmp | TkPipePipe

record token =
  tk_kind :: token_kind
  tk_text :: rstring
  tk_line :: nat
  tk_column :: nat
  tk_start :: nat
  tk_end :: nat

record lex_result =
  lr_tokens :: "token list"
  lr_diagnostics :: "diagnostic list"

section \<open>Character classes\<close>

abbreviation ch :: "char \<Rightarrow> rchar" where
  "ch c \<equiv> of_char c"

definition is_ascii_digit :: "rchar \<Rightarrow> bool" where
  "is_ascii_digit c \<longleftrightarrow> 48 \<le> c \<and> c \<le> 57"

definition is_ascii_alphabetic :: "rchar \<Rightarrow> bool" where
  "is_ascii_alphabetic c \<longleftrightarrow> 65 \<le> c \<and> c \<le> 90 \<or> 97 \<le> c \<and> c \<le> 122"

definition is_whitespace :: "rchar \<Rightarrow> bool" where
  "is_whitespace c \<longleftrightarrow> c = 32 \<or> c = 13 \<or> c = 9 \<or> c = 10"

definition is_exponent_start :: "rchar \<Rightarrow> bool" where
  "is_exponent_start c \<longleftrightarrow> c = ch CHR ''e'' \<or> c = ch CHR ''E''"

definition is_identifier_start :: "rchar \<Rightarrow> bool" where
  "is_identifier_start c \<longleftrightarrow> c = ch CHR ''_'' \<or> is_ascii_alphabetic c"

definition is_identifier_part :: "rchar \<Rightarrow> bool" where
  "is_identifier_part c \<longleftrightarrow> is_identifier_start c \<or> is_ascii_digit c"

definition keyword_table :: "(rstring \<times> token_kind) list" where
  "keyword_table =
     [(lit ''struct'', TkStruct), (lit ''export'', TkExport), (lit ''unsafe'', TkUnsafe),
      (lit ''fn'', TkFn), (lit ''contract'', TkContract), (lit ''requires'', TkRequires),
      (lit ''effects'', TkEffects), (lit ''none'', TkNone), (lit ''let'', TkLet),
      (lit ''return'', TkReturn), (lit ''break'', TkBreak), (lit ''continue'', TkContinue),
      (lit ''if'', TkIf), (lit ''else'', TkElse), (lit ''while'', TkWhile),
      (lit ''true'', TkTrue), (lit ''false'', TkFalse), (lit ''i32'', TkI32),
      (lit ''i64'', TkI64), (lit ''u32'', TkU32), (lit ''u64'', TkU64), (lit ''f64'', TkF64),
      (lit ''bool'', TkBool), (lit ''void'', TkVoid), (lit ''ptr'', TkPtr),
      (lit ''slice'', TkSlice)]"

definition keyword_kind :: "rstring \<Rightarrow> token_kind option" where
  "keyword_kind text = map_of keyword_table text"

section \<open>The lexer state\<close>

record lexer =
  lx_source :: source_file
  lx_tokens :: "token list"
  lx_diagnostics :: "diagnostic list"
  lx_byte_offset :: nat
  lx_utf16_offset :: nat
  lx_line :: nat
  lx_column :: nat

record lexer_position =
  lp_byte_offset :: nat
  lp_utf16_offset :: nat
  lp_line :: nat
  lp_column :: nat

definition lp_source_position :: "lexer_position \<Rightarrow> source_position" where
  "lp_source_position p =
     \<lparr>pos_offset = lp_utf16_offset p, pos_line = lp_line p, pos_column = lp_column p\<rparr>"

definition lexer_new :: "source_file \<Rightarrow> lexer" where
  "lexer_new src =
     \<lparr>lx_source = src, lx_tokens = [], lx_diagnostics = [],
      lx_byte_offset = 0, lx_utf16_offset = 0, lx_line = 1, lx_column = 1\<rparr>"

definition lexer_rest :: "lexer \<Rightarrow> rstring" where
  "lexer_rest s = slice_from (sf_text (lx_source s)) (lx_byte_offset s)"

definition peek :: "lexer \<Rightarrow> rchar" where
  "peek s = (case lexer_rest s of [] \<Rightarrow> 0 | c # _ \<Rightarrow> c)"

definition peek_next :: "lexer \<Rightarrow> rchar" where
  "peek_next s = (case lexer_rest s of _ # c # _ \<Rightarrow> c | _ \<Rightarrow> 0)"

definition is_at_end :: "lexer \<Rightarrow> bool" where
  "is_at_end s \<longleftrightarrow> utf8_len (sf_text (lx_source s)) \<le> lx_byte_offset s"

definition position :: "lexer \<Rightarrow> lexer_position" where
  "position s =
     \<lparr>lp_byte_offset = lx_byte_offset s, lp_utf16_offset = lx_utf16_offset s,
      lp_line = lx_line s, lp_column = lx_column s\<rparr>"

definition advance :: "lexer \<Rightarrow> lexer" where
  "advance s =
     (let c = peek s in
      if c = 0 then s
      else s\<lparr>lx_byte_offset := lx_byte_offset s + len_utf8 c,
             lx_utf16_offset := lx_utf16_offset s + len_utf16 c,
             lx_line := (if c = 10 then lx_line s + 1 else lx_line s),
             lx_column := (if c = 10 then 1 else lx_column s + len_utf16 c)\<rparr>)"

definition match_char :: "rchar \<Rightarrow> lexer \<Rightarrow> bool \<times> lexer" where
  "match_char expected s =
     (if is_at_end s \<or> peek s \<noteq> expected then (False, s) else (True, advance s))"

definition text_since :: "lexer_position \<Rightarrow> lexer \<Rightarrow> rstring" where
  "text_since start s =
     slice_range (sf_text (lx_source s)) (lp_byte_offset start) (lx_byte_offset s)"

definition add_token :: "token_kind \<Rightarrow> lexer_position \<Rightarrow> lexer \<Rightarrow> lexer" where
  "add_token kind start s =
     s\<lparr>lx_tokens := lx_tokens s @
         [\<lparr>tk_kind = kind, tk_text = text_since start s,
           tk_line = lp_line start, tk_column = lp_column start,
           tk_start = lp_utf16_offset start, tk_end = lx_utf16_offset s\<rparr>]\<rparr>"

definition push_lex_error :: "rstring \<Rightarrow> source_span \<Rightarrow> lexer \<Rightarrow> lexer" where
  "push_lex_error message span s =
     s\<lparr>lx_diagnostics := lx_diagnostics s @
         [diagnostic_error Ck0001 message (file_name (lx_source s)) span]\<rparr>"

definition report_unexpected :: "lexer_position \<Rightarrow> rchar \<Rightarrow> lexer \<Rightarrow> lexer" where
  "report_unexpected start c s =
     push_lex_error (lit ''Unexpected character '' @ quoted [c] @ lit ''.'')
       \<lparr>span_start = lp_source_position start,
        span_end = lp_source_position (position s)\<rparr> s"

definition report_malformed_float :: "lexer_position \<Rightarrow> lexer \<Rightarrow> lexer" where
  "report_malformed_float start s =
     push_lex_error (lit ''Malformed float literal '' @ quoted (text_since start s) @ lit ''.'')
       \<lparr>span_start = lp_source_position start,
        span_end = lp_source_position (position s)\<rparr> s"

section \<open>Scanning one token\<close>

text \<open>\<open>while !self.is_at_end() && p(self.peek()) { self.advance(); }\<close>\<close>

partial_function (option) advance_while :: "(rchar \<Rightarrow> bool) \<Rightarrow> lexer \<Rightarrow> lexer option" where
  "advance_while p s =
     (if \<not> is_at_end s \<and> p (peek s) then advance_while p (advance s) else Some s)"

declare advance_while.simps [code]

definition skip_line_comment :: "lexer \<Rightarrow> lexer option" where
  "skip_line_comment s = advance_while (\<lambda>c. c \<noteq> 10) s"

definition scan_identifier_or_keyword :: "lexer \<Rightarrow> lexer option" where
  "scan_identifier_or_keyword s =
     (let start = position s in
      do {
        s \<leftarrow> advance_while is_identifier_part (advance s);
        Some (add_token (case keyword_kind (text_since start s) of
                           Some k \<Rightarrow> k | None \<Rightarrow> TkIdentifier) start s)
      })"

text \<open>The exponent of a number, the second half of \<open>scan_number\<close>.\<close>

definition scan_exponent :: "lexer_position \<Rightarrow> bool \<Rightarrow> lexer \<Rightarrow> lexer option" where
  "scan_exponent start is_float s =
     (if is_exponent_start (peek s) then
        let s = advance s;
            s = (if peek s = ch CHR ''+'' \<or> peek s = ch CHR ''-'' then advance s else s)
        in if \<not> is_ascii_digit (peek s) then Some (report_malformed_float start s)
           else do { s \<leftarrow> advance_while is_ascii_digit s; Some (add_token TkFloat start s) }
      else Some (add_token (if is_float then TkFloat else TkInteger) start s))"

definition scan_number :: "lexer \<Rightarrow> lexer option" where
  "scan_number s =
     (let start = position s in
      do {
        s \<leftarrow> advance_while is_ascii_digit (advance s);
        if peek s = ch CHR ''.'' \<and> peek_next s \<noteq> ch CHR ''.'' then
          (let s = advance s in
           if \<not> is_ascii_digit (peek s) then Some (report_malformed_float start s)
           else do { s \<leftarrow> advance_while is_ascii_digit s; scan_exponent start True s })
        else scan_exponent start False s
      })"

definition scan_malformed_float_starting_with_dot :: "lexer \<Rightarrow> lexer option" where
  "scan_malformed_float_starting_with_dot s =
     (let start = position s in
      do {
        s \<leftarrow> advance_while is_ascii_digit (advance s);
        Some (report_malformed_float start s)
      })"

definition replacement_span :: "lexer_position \<Rightarrow> nat \<Rightarrow> source_span" where
  "replacement_span start index =
     \<lparr>span_start = \<lparr>pos_offset = lp_utf16_offset start + index, pos_line = lp_line start,
                    pos_column = lp_column start + index\<rparr>,
      span_end = \<lparr>pos_offset = lp_utf16_offset start + index + 1, pos_line = lp_line start,
                  pos_column = lp_column start + index + 1\<rparr>\<rparr>"

definition scan_unexpected_character :: "lexer_position \<Rightarrow> rchar \<Rightarrow> lexer \<Rightarrow> lexer" where
  "scan_unexpected_character start c s =
     (let s = advance s in
      if len_utf16 c = 1 then report_unexpected start c s
      else fold (\<lambda>index s. push_lex_error
                   (lit ''Unexpected character '' @ quoted [0xFFFD] @ lit ''.'')
                   (replacement_span start index) s)
             [0..<len_utf16 c] s)"

definition single_token :: "rchar \<Rightarrow> token_kind option" where
  "single_token c =
     map_of [(ch CHR ''('', TkLeftParen), (ch CHR '')'', TkRightParen),
             (ch CHR ''{'', TkLeftBrace), (ch CHR ''}'', TkRightBrace),
             (ch CHR ''['', TkLeftBracket), (ch CHR '']'', TkRightBracket),
             (ch CHR '','', TkComma), (ch CHR '':'', TkColon), (ch CHR '';'', TkSemicolon),
             (ch CHR ''+'', TkPlus), (ch CHR ''*'', TkStar), (ch CHR ''/'', TkSlash),
             (ch CHR ''%'', TkPercent)] c"

text \<open>
  A character that starts a two-character token: the second character, the token when it
  follows, and what happens otherwise (\<open>None\<close> is a diagnostic).
\<close>

definition pair_token :: "rchar \<Rightarrow> (rchar \<times> token_kind \<times> token_kind option) option" where
  "pair_token c =
     map_of [(ch CHR ''-'', (ch CHR ''>'', TkArrow, Some TkMinus)),
             (ch CHR ''='', (ch CHR ''='', TkEqualEqual, Some TkEqual)),
             (ch CHR ''!'', (ch CHR ''='', TkBangEqual, Some TkBang)),
             (ch CHR ''<'', (ch CHR ''='', TkLessEqual, Some TkLess)),
             (ch CHR ''>'', (ch CHR ''='', TkGreaterEqual, Some TkGreater)),
             (ch CHR ''&'', (ch CHR ''&'', TkAmpAmp, None)),
             (ch CHR ''|'', (ch CHR ''|'', TkPipePipe, None))] c"

definition scan_token :: "lexer \<Rightarrow> lexer option" where
  "scan_token s =
     (let c = peek s; start = position s in
      if is_whitespace c then Some (advance s)
      else if c = ch CHR ''/'' \<and> peek_next s = ch CHR ''/'' then skip_line_comment s
      else if is_identifier_start c then scan_identifier_or_keyword s
      else if is_ascii_digit c then scan_number s
      else case single_token c of
        Some k \<Rightarrow> Some (add_token k start (advance s))
      | None \<Rightarrow>
          if c = ch CHR ''.'' then
            (if peek_next s = ch CHR ''.''
               then Some (add_token TkDotDot start (advance (advance s)))
             else if is_ascii_digit (peek_next s)
               then scan_malformed_float_starting_with_dot s
             else Some (add_token TkDot start (advance s)))
          else case pair_token c of
            Some (second, k2, k1) \<Rightarrow>
              (case match_char second (advance s) of
                 (True, s) \<Rightarrow> Some (add_token k2 start s)
               | (False, s) \<Rightarrow>
                   Some (case k1 of Some k \<Rightarrow> add_token k start s
                                  | None \<Rightarrow> report_unexpected start c s))
          | None \<Rightarrow> Some (scan_unexpected_character start c s))"

section \<open>The whole text\<close>

partial_function (option) lex_loop :: "lexer \<Rightarrow> lexer option" where
  "lex_loop s = (if is_at_end s then Some s else Option.bind (scan_token s) lex_loop)"

declare lex_loop.simps [code]

definition eof_token :: "lexer_position \<Rightarrow> token" where
  "eof_token p =
     \<lparr>tk_kind = TkEof, tk_text = [], tk_line = lp_line p, tk_column = lp_column p,
      tk_start = lp_utf16_offset p, tk_end = lp_utf16_offset p\<rparr>"

definition lex :: "source_file \<Rightarrow> lex_result option" where
  "lex src =
     do {
       s \<leftarrow> lex_loop (lexer_new src);
       Some \<lparr>lr_tokens = lx_tokens s @ [eof_token (position s)],
             lr_diagnostics = lx_diagnostics s\<rparr>
     }"

end
