(* ===== verification/Parser.thy ===== *)
theory Parser
  imports Lexer Ast
begin

text \<open>
  The parser, \<^verbatim>\<open>src/src/frontend/parser.rs\<close>. The record \<open>parser\<close> is the struct \<open>Parser\<close>; a
  method that yields a value and moves the parser returns both. The loops and recursive
  methods take a fuel, \<open>None\<close> when it runs out; \<open>parse\<close> gives them a unit for each token and eight more,
  which \<open>Parser_Properties\<close> proves enough. A recursive method that a loop calls is an argument
  of the loop.
\<close>

section \<open>The parser state\<close>

record parser =
  ps_source :: source_file
  ps_tokens :: "token list"
  ps_diagnostics :: "diagnostic list"
  ps_index :: nat

definition parser_new :: "source_file \<Rightarrow> token list \<Rightarrow> diagnostic list \<Rightarrow> parser" where
  "parser_new src toks ds =
     \<lparr>ps_source = src, ps_tokens = toks, ps_diagnostics = ds, ps_index = 0\<rparr>"

definition current :: "parser \<Rightarrow> token" where
  "current st =
     (if ps_index st < length (ps_tokens st) then ps_tokens st ! ps_index st else last (ps_tokens st))"

definition check :: "token_kind \<Rightarrow> parser \<Rightarrow> bool" where
  "check kind st \<longleftrightarrow> tk_kind (current st) = kind"

definition next_is :: "token_kind \<Rightarrow> parser \<Rightarrow> bool" where
  "next_is kind st \<longleftrightarrow>
     ps_index st + 1 < length (ps_tokens st) \<and> tk_kind (ps_tokens st ! (ps_index st + 1)) = kind"

definition previous :: "parser \<Rightarrow> token" where
  "previous st =
     (if ps_index st - 1 < length (ps_tokens st) then ps_tokens st ! (ps_index st - 1) else current st)"

definition bump :: "parser \<Rightarrow> parser" where
  "bump st = (if check TkEof st then st else st\<lparr>ps_index := ps_index st + 1\<rparr>)"

definition match_token :: "token_kind \<Rightarrow> parser \<Rightarrow> bool \<times> parser" where
  "match_token kind st = (if check kind st then (True, bump st) else (False, st))"

definition position_from_token :: "token \<Rightarrow> source_position" where
  "position_from_token t =
     \<lparr>pos_offset = tk_start t, pos_line = tk_line t, pos_column = tk_column t\<rparr>"

definition end_position_from_token :: "token \<Rightarrow> source_position" where
  "end_position_from_token t =
     \<lparr>pos_offset = tk_end t, pos_line = tk_line t, pos_column = tk_column t + length (tk_text t)\<rparr>"

definition span_from_positions :: "source_position \<Rightarrow> source_position \<Rightarrow> source_span" where
  "span_from_positions a b = \<lparr>span_start = a, span_end = b\<rparr>"

definition span_between_tokens :: "token \<Rightarrow> token \<Rightarrow> source_span" where
  "span_between_tokens a b = span_from_positions (position_from_token a) (end_position_from_token b)"

definition span_from_token :: "token \<Rightarrow> source_span" where
  "span_from_token t = span_between_tokens t t"

definition error_with_code :: "token \<Rightarrow> diagnostic_code \<Rightarrow> rstring \<Rightarrow> parser \<Rightarrow> parser" where
  "error_with_code t code message st =
     st\<lparr>ps_diagnostics := ps_diagnostics st @
         [diagnostic_error code message (file_name (ps_source st)) (span_from_token t)]\<rparr>"

definition report :: "token \<Rightarrow> rstring \<Rightarrow> parser \<Rightarrow> parser" where
  "report t message st = error_with_code t Ck1001 message st"

definition placeholder :: "token_kind \<Rightarrow> token \<Rightarrow> token" where
  "placeholder kind t =
     \<lparr>tk_kind = kind, tk_text = [], tk_line = tk_line t, tk_column = tk_column t,
      tk_start = tk_start t, tk_end = tk_start t\<rparr>"

definition consume :: "token_kind \<Rightarrow> string \<Rightarrow> parser \<Rightarrow> token \<times> parser" where
  "consume kind message st =
     (if check kind st then (current st, bump st)
      else (placeholder kind (current st), report (current st) (lit message) st))"

definition parse_identifier :: "string \<Rightarrow> parser \<Rightarrow> identifier_node \<times> parser" where
  "parse_identifier message st =
     (let (t, st) = consume TkIdentifier message st
      in (\<lparr>id_name = tk_text t, id_span = span_from_token t\<rparr>, st))"

section \<open>Recovery\<close>

text \<open>The loops that skip tokens; they stop at the end of the file.\<close>

fun skip_until :: "token_kind \<Rightarrow> nat \<Rightarrow> parser \<Rightarrow> parser option" where
  "skip_until kind 0 st = None"
| "skip_until kind (Suc n) st =
     (if check kind st \<or> check TkEof st then Some st else skip_until kind n (bump st))"

definition recover_to_right_bracket :: "nat \<Rightarrow> parser \<Rightarrow> (token \<times> parser) option" where
  "recover_to_right_bracket n st =
     do {
       st \<leftarrow> skip_until TkRightBracket n st;
       Some (consume TkRightBracket ''Expected ']' after sub-slice expression.'' st)
     }"

fun skip_braces :: "nat \<Rightarrow> nat \<Rightarrow> parser \<Rightarrow> parser option" where
  "skip_braces 0 depth st = None"
| "skip_braces (Suc n) depth st =
     (if depth = 0 \<or> check TkEof st then Some st
      else skip_braces n
        (case tk_kind (current st) of
           TkLeftBrace \<Rightarrow> depth + 1
         | TkRightBrace \<Rightarrow> depth - 1
         | _ \<Rightarrow> depth) (bump st))"

definition skip_braced_declaration :: "nat \<Rightarrow> parser \<Rightarrow> parser option" where
  "skip_braced_declaration n st =
     (let (matched, st) = match_token TkLeftBrace st
      in if matched then skip_braces n 1 st else Some st)"

fun synchronize_statement :: "nat \<Rightarrow> parser \<Rightarrow> parser option" where
  "synchronize_statement 0 st = None"
| "synchronize_statement (Suc n) st =
     (if check TkEof st then Some st
      else let (matched, st) = match_token TkSemicolon st in
        if matched \<or> check TkRightBrace st then Some st
        else synchronize_statement n (bump st))"

fun synchronize_contract_clause :: "nat \<Rightarrow> parser \<Rightarrow> parser option" where
  "synchronize_contract_clause 0 st = None"
| "synchronize_contract_clause (Suc n) st =
     (if check TkEof st \<or> check TkRightBrace st then Some st
      else let (matched, st) = match_token TkSemicolon st in
        if matched then Some st else synchronize_contract_clause n (bump st))"

section \<open>Types\<close>

definition primitive_kinds :: "token_kind list" where
  "primitive_kinds = [TkI32, TkI64, TkU32, TkU64, TkF64, TkBool]"

fun parse_type :: "nat \<Rightarrow> parser \<Rightarrow> (type_node \<times> parser) option" where
  "parse_type 0 st = None"
| "parse_type (Suc n) st =
     (let t = current st in
      if tk_kind t \<in> set primitive_kinds then
        Some (TypePrimitive (tk_text t) (span_from_token t), bump st)
      else if tk_kind t = TkVoid then Some (TypeVoid (span_from_token t), bump st)
      else if tk_kind t = TkIdentifier then
        let (name, st) = parse_identifier ''Expected type name.'' st
        in Some (TypeNamed name (id_span name), st)
      else if tk_kind t = TkPtr then
        do {
          let (_, st) = consume TkLess ''Expected '<' after 'ptr'.'' (bump st);
          (element, st) \<leftarrow> parse_type n st;
          let (greater, st) = consume TkGreater ''Expected '>' after pointer type.'' st;
          Some (TypePointer element (span_between_tokens t greater), st)
        }
      else if tk_kind t = TkSlice then
        do {
          let (_, st) = consume TkLess ''Expected '<' after 'slice'.'' (bump st);
          (element, st) \<leftarrow> parse_type n st;
          let (greater, st) = consume TkGreater ''Expected '>' after slice type.'' st;
          Some (TypeSlice element (span_between_tokens t greater), st)
        }
      else Some (TypeError (span_from_token t), bump (report t (lit ''Expected type.'') st)))"

section \<open>Expressions\<close>

definition binary_precedence :: "token_kind \<Rightarrow> nat" where
  "binary_precedence kind = (case kind of
     TkPipePipe \<Rightarrow> 1 | TkAmpAmp \<Rightarrow> 2
   | TkEqualEqual \<Rightarrow> 3 | TkBangEqual \<Rightarrow> 3
   | TkLess \<Rightarrow> 4 | TkLessEqual \<Rightarrow> 4 | TkGreater \<Rightarrow> 4 | TkGreaterEqual \<Rightarrow> 4
   | TkPlus \<Rightarrow> 5 | TkMinus \<Rightarrow> 5
   | TkStar \<Rightarrow> 6 | TkSlash \<Rightarrow> 6 | TkPercent \<Rightarrow> 6
   | _ \<Rightarrow> 0)"

type_synonym expression_parser = "nat \<Rightarrow> parser \<Rightarrow> (expression \<times> parser) option"

definition span_to :: "expression \<Rightarrow> token \<Rightarrow> source_span" where
  "span_to e t = span_from_positions (span_start (expression_span e)) (end_position_from_token t)"

fun parse_arguments ::
  "expression_parser \<Rightarrow> nat \<Rightarrow> expression list \<Rightarrow> parser \<Rightarrow> (expression list \<times> parser) option" where
  "parse_arguments expr 0 args st = None"
| "parse_arguments expr (Suc n) args st =
     do {
       (e, st) \<leftarrow> expr 1 st;
       let (more, st) = match_token TkComma st;
       if more then parse_arguments expr n (args @ [e]) st else Some (args @ [e], st)
     }"

definition parse_call :: "expression_parser \<Rightarrow> nat \<Rightarrow> expression \<Rightarrow> parser \<Rightarrow> (expression \<times> parser) option" where
  "parse_call expr n callee st =
     do {
       (args, st) \<leftarrow> (if check TkRightParen st then Some ([], st) else parse_arguments expr n [] st);
       let (right_paren, st) = consume TkRightParen ''Expected ')' after arguments.'' st;
       Some (ECall callee args (span_to callee right_paren), st)
     }"

definition parse_field :: "expression \<Rightarrow> parser \<Rightarrow> expression \<times> parser" where
  "parse_field object st =
     (let (field, st) = parse_identifier ''Expected field name after '.'.'' st
      in (EField object field
            (span_from_positions (span_start (expression_span object)) (span_end (id_span field))), st))"

definition parse_index :: "expression_parser \<Rightarrow> nat \<Rightarrow> expression \<Rightarrow> parser \<Rightarrow> (expression \<times> parser) option" where
  "parse_index expr n object st =
     (if check TkDotDot st then
        do {
          let st = report (current st) (lit ''Sub-slice start expression is required.'') st;
          (right_bracket, st) \<leftarrow> recover_to_right_bracket n st;
          Some (EError (span_to object right_bracket), st)
        }
      else
        do {
          (index, st) \<leftarrow> expr 1 st;
          let (sub_slice, st) = match_token TkDotDot st;
          if \<not> sub_slice then
            let (right_bracket, st) = consume TkRightBracket ''Expected ']' after index expression.'' st
            in Some (EIndex object index (span_to object right_bracket), st)
          else if check TkRightBracket st then
            let t = current st
            in Some (EError (span_to object t), bump (report t (lit ''Sub-slice end expression is required.'') st))
          else
            do {
              (end_index, st) \<leftarrow> expr 1 st;
              if check TkDotDot st then
                do {
                  let st = report (current st) (lit ''Only one '..' is allowed in a sub-slice.'') st;
                  (right_bracket, st) \<leftarrow> recover_to_right_bracket n st;
                  Some (EError (span_to object right_bracket), st)
                }
              else
                let (right_bracket, st) = consume TkRightBracket ''Expected ']' after sub-slice expression.'' st
                in Some (ESubslice object index end_index (span_to object right_bracket), st)
            }
        })"

fun parse_postfix_expression ::
  "expression_parser \<Rightarrow> nat \<Rightarrow> expression \<Rightarrow> parser \<Rightarrow> (expression \<times> parser) option" where
  "parse_postfix_expression expr 0 e st = None"
| "parse_postfix_expression expr (Suc n) e st =
     (if check TkLeftParen st then
        do { (e, st) \<leftarrow> parse_call expr n e (bump st); parse_postfix_expression expr n e st }
      else if check TkDot st then
        let (e, st) = parse_field e (bump st) in parse_postfix_expression expr n e st
      else if check TkLeftBracket st then
        do { (e, st) \<leftarrow> parse_index expr n e (bump st); parse_postfix_expression expr n e st }
      else Some (e, st))"

definition parse_slice_constructor ::
  "expression_parser \<Rightarrow> token \<Rightarrow> parser \<Rightarrow> (expression \<times> parser) option" where
  "parse_slice_constructor expr t st =
     do {
       let (_, st) = consume TkLeftParen ''Expected '(' after 'slice'.'' st;
       (data, st) \<leftarrow> expr 1 st;
       let (_, st) = consume TkComma ''Expected ',' after slice data expression.'' st;
       (len, st) \<leftarrow> expr 1 st;
       let (right_paren, st) = consume TkRightParen ''Expected ')' after slice constructor.'' st;
       Some (ESliceConstructor data len (span_between_tokens t right_paren), st)
     }"

definition parse_parenthesized ::
  "expression_parser \<Rightarrow> token \<Rightarrow> parser \<Rightarrow> (expression \<times> parser) option" where
  "parse_parenthesized expr t st =
     do {
       (e, st) \<leftarrow> expr 1 st;
       let (right_paren, st) = consume TkRightParen ''Expected ')' after expression.'' st;
       Some (EParenthesized e (span_between_tokens t right_paren), st)
     }"

definition parse_primary_expression :: "expression_parser \<Rightarrow> parser \<Rightarrow> (expression \<times> parser) option" where
  "parse_primary_expression expr st =
     (let t = current st in
      if tk_kind t = TkInteger then Some (EIntegerLiteral (tk_text t) (span_from_token t), bump st)
      else if tk_kind t = TkFloat then Some (EFloatLiteral (tk_text t) (span_from_token t), bump st)
      else if tk_kind t = TkTrue \<or> tk_kind t = TkFalse then
        Some (EBoolLiteral (tk_kind t = TkTrue) (span_from_token t), bump st)
      else if tk_kind t = TkIdentifier then Some (EIdentifier (tk_text t) (span_from_token t), bump st)
      else if tk_kind t = TkSlice then parse_slice_constructor expr t (bump st)
      else if tk_kind t = TkLeftParen then parse_parenthesized expr t (bump st)
      else Some (EError (span_from_token t), bump (report t (lit ''Expected expression.'') st)))"

definition parse_unary_expression ::
  "expression_parser \<Rightarrow> nat \<Rightarrow> parser \<Rightarrow> (expression \<times> parser) option" where
  "parse_unary_expression expr n st =
     (if check TkBang st \<or> check TkMinus st then
        do {
          let operator = current st;
          (operand, st) \<leftarrow> expr 7 (bump st);
          Some (EUnary (tk_text operator) operand
            (span_from_positions (position_from_token operator) (span_end (expression_span operand))), st)
        }
      else
        do {
          (primary, st) \<leftarrow> parse_primary_expression expr st;
          parse_postfix_expression expr n primary st
        })"

fun parse_binary_loop ::
  "expression_parser \<Rightarrow> nat \<Rightarrow> nat \<Rightarrow> expression \<Rightarrow> parser \<Rightarrow> (expression \<times> parser) option" where
  "parse_binary_loop expr 0 min_precedence left st = None"
| "parse_binary_loop expr (Suc n) min_precedence left st =
     (let operator = current st; precedence = binary_precedence (tk_kind operator) in
      if precedence < min_precedence then Some (left, st)
      else do {
        (right, st) \<leftarrow> expr (precedence + 1) (bump st);
        parse_binary_loop expr n min_precedence
          (EBinary (tk_text operator) left right
            (span_from_positions (span_start (expression_span left)) (span_end (expression_span right)))) st
      })"

fun parse_expression :: "nat \<Rightarrow> nat \<Rightarrow> parser \<Rightarrow> (expression \<times> parser) option" where
  "parse_expression 0 min_precedence st = None"
| "parse_expression (Suc n) min_precedence st =
     do {
       (left, st) \<leftarrow> parse_unary_expression (parse_expression n) n st;
       parse_binary_loop (parse_expression n) n min_precedence left st
     }"

section \<open>Statements\<close>

type_synonym block_parser = "parser \<Rightarrow> (block_statement \<times> parser) option"

definition parse_let_statement :: "nat \<Rightarrow> parser \<Rightarrow> (statement \<times> parser) option" where
  "parse_let_statement n st =
     do {
       let (let_token, st) = consume TkLet ''Expected 'let'.'' st;
       let (name, st) = parse_identifier ''Expected local name.'' st;
       let (_, st) = consume TkColon ''Expected ':' after local name.'' st;
       (type, st) \<leftarrow> parse_type n st;
       let (_, st) = consume TkEqual ''Expected '=' after local type.'' st;
       (initializer, st) \<leftarrow> parse_expression n 1 st;
       let (semicolon, st) = consume TkSemicolon ''Expected ';' after let statement.'' st;
       Some (StLet name type initializer (span_between_tokens let_token semicolon), st)
     }"

definition parse_assignment_or_call_statement :: "nat \<Rightarrow> parser \<Rightarrow> (statement \<times> parser) option" where
  "parse_assignment_or_call_statement n st =
     do {
       let start = current st;
       (target, st) \<leftarrow> parse_expression n 1 st;
       let (assigned, st) = match_token TkEqual st;
       if assigned then
         do {
           (assigned_value, st) \<leftarrow> parse_expression n 1 st;
           let (semicolon, st) = consume TkSemicolon ''Expected ';' after assignment statement.'' st;
           Some (StAssignment target assigned_value (span_to target semicolon), st)
         }
       else if is_call target then
         let (semicolon, st) = consume TkSemicolon ''Expected ';' after function call statement.'' st
         in Some (StCall target (span_to target semicolon), st)
       else
         do {
           let st = report (current st) (lit ''Only a function call may be used as a standalone statement.'') st;
           st \<leftarrow> synchronize_statement n st;
           Some (StError (span_from_token start), st)
         }
     }"

definition lex_error_before_semicolon :: "token \<Rightarrow> parser \<Rightarrow> bool" where
  "lex_error_before_semicolon return_token st \<longleftrightarrow>
     check TkSemicolon st \<and>
     list_ex (\<lambda>d. diag_code d = Ck0001 \<and> tk_end return_token \<le> pos_offset (span_start (diag_span d)) \<and>
        pos_offset (span_start (diag_span d)) < tk_start (current st)) (ps_diagnostics st)"

definition parse_return_statement :: "nat \<Rightarrow> parser \<Rightarrow> (statement \<times> parser) option" where
  "parse_return_statement n st =
     do {
       let (return_token, st) = consume TkReturn ''Expected 'return'.'' st;
       (returned, st) \<leftarrow>
         (if check TkSemicolon st \<and> \<not> lex_error_before_semicolon return_token st then Some (None, st)
          else do { (e, st) \<leftarrow> parse_expression n 1 st; Some (Some e, st) });
       let (semicolon, st) = consume TkSemicolon ''Expected ';' after return statement.'' st;
       Some (StReturn returned (span_between_tokens return_token semicolon), st)
     }"

definition parse_break_statement :: "parser \<Rightarrow> statement \<times> parser" where
  "parse_break_statement st =
     (let (t, st) = consume TkBreak ''Expected 'break'.'' st;
          (semicolon, st) = consume TkSemicolon ''Expected ';' after 'break'.'' st
      in (StBreak (span_between_tokens t semicolon), st))"

definition parse_continue_statement :: "parser \<Rightarrow> statement \<times> parser" where
  "parse_continue_statement st =
     (let (t, st) = consume TkContinue ''Expected 'continue'.'' st;
          (semicolon, st) = consume TkSemicolon ''Expected ';' after 'continue'.'' st
      in (StContinue (span_between_tokens t semicolon), st))"

definition parse_if_statement :: "block_parser \<Rightarrow> nat \<Rightarrow> parser \<Rightarrow> (statement \<times> parser) option" where
  "parse_if_statement block n st =
     do {
       let (if_token, st) = consume TkIf ''Expected 'if'.'' st;
       (condition, st) \<leftarrow> parse_expression n 1 st;
       (then_block, st) \<leftarrow> block st;
       let (has_else, st) = match_token TkElse st;
       (else_block, st) \<leftarrow>
         (if has_else then do { (b, st) \<leftarrow> block st; Some (Some b, st) } else Some (None, st));
       let last_block = (case else_block of None \<Rightarrow> then_block | Some b \<Rightarrow> b);
       Some (StIf condition then_block else_block
         (span_from_positions (position_from_token if_token) (span_end (block_span last_block))), st)
     }"

definition parse_while_statement :: "block_parser \<Rightarrow> nat \<Rightarrow> parser \<Rightarrow> (statement \<times> parser) option" where
  "parse_while_statement block n st =
     do {
       let (while_token, st) = consume TkWhile ''Expected 'while'.'' st;
       (condition, st) \<leftarrow> parse_expression n 1 st;
       (body, st) \<leftarrow> block st;
       Some (StWhile condition body
         (span_from_positions (position_from_token while_token) (span_end (block_span body))), st)
     }"

definition parse_unsafe_statement :: "block_parser \<Rightarrow> parser \<Rightarrow> (statement \<times> parser) option" where
  "parse_unsafe_statement block st =
     do {
       let unsafe_token = current st;
       (b, st) \<leftarrow> block (bump st);
       Some (StUnsafe b
         (span_from_positions (position_from_token unsafe_token) (span_end (block_span b))), st)
     }"

definition parse_statement :: "block_parser \<Rightarrow> nat \<Rightarrow> parser \<Rightarrow> (statement \<times> parser) option" where
  "parse_statement block n st =
     (if check TkLeftBrace st then do { (b, st) \<leftarrow> block st; Some (StBlock b, st) }
      else if check TkUnsafe st then parse_unsafe_statement block st
      else if check TkLet st then parse_let_statement n st
      else if check TkReturn st then parse_return_statement n st
      else if check TkBreak st then Some (parse_break_statement st)
      else if check TkContinue st then Some (parse_continue_statement st)
      else if check TkIf st then parse_if_statement block n st
      else if check TkWhile st then parse_while_statement block n st
      else parse_assignment_or_call_statement n st)"

fun parse_statements ::
  "block_parser \<Rightarrow> nat \<Rightarrow> statement list \<Rightarrow> parser \<Rightarrow> (statement list \<times> parser) option" where
  "parse_statements block 0 ss st = None"
| "parse_statements block (Suc n) ss st =
     (if check TkRightBrace st \<or> check TkEof st then Some (ss, st)
      else do { (s, st) \<leftarrow> parse_statement block n st; parse_statements block n (ss @ [s]) st })"

fun parse_block_statement :: "nat \<Rightarrow> parser \<Rightarrow> (block_statement \<times> parser) option" where
  "parse_block_statement 0 st = None"
| "parse_block_statement (Suc n) st =
     do {
       let (left_brace, st) = consume TkLeftBrace ''Expected '{' before block.'' st;
       (ss, st) \<leftarrow> parse_statements (parse_block_statement n) n [] st;
       let (right_brace, st) = consume TkRightBrace ''Expected '}' after block.'' st;
       Some (BlockStatement ss (span_between_tokens left_brace right_brace), st)
     }"

section \<open>Declarations\<close>

fun parse_struct_fields ::
  "nat \<Rightarrow> struct_field list \<Rightarrow> parser \<Rightarrow> (struct_field list \<times> parser) option" where
  "parse_struct_fields 0 fs st = None"
| "parse_struct_fields (Suc n) fs st =
     (if check TkRightBrace st \<or> check TkEof st then Some (fs, st)
      else do {
        let start = current st;
        let (name, st) = parse_identifier ''Expected field name.'' st;
        let (_, st) = consume TkColon ''Expected ':' after field name.'' st;
        (type, st) \<leftarrow> parse_type n st;
        let (semicolon, st) = consume TkSemicolon ''Expected ';' after struct field.'' st;
        parse_struct_fields n
          (fs @ [\<lparr>field_name = name, field_type = type, field_span = span_between_tokens start semicolon\<rparr>]) st
      })"

definition parse_struct_declaration :: "nat \<Rightarrow> parser \<Rightarrow> (struct_declaration \<times> parser) option" where
  "parse_struct_declaration n st =
     do {
       let (struct_token, st) = consume TkStruct ''Expected 'struct'.'' st;
       let (name, st) = parse_identifier ''Expected struct name.'' st;
       let (_, st) = consume TkLeftBrace ''Expected '{' after struct name.'' st;
       (fs, st) \<leftarrow> parse_struct_fields n [] st;
       let (right_brace, st) = consume TkRightBrace ''Expected '}' after struct fields.'' st;
       Some (\<lparr>struct_name = name, struct_fields = fs,
              struct_span = span_between_tokens struct_token right_brace\<rparr>, st)
     }"

definition effect_kind_of :: "token \<Rightarrow> parser \<Rightarrow> contract_effect_kind \<times> parser" where
  "effect_kind_of t st =
     (if tk_text t = lit ''read'' then (EffectRead, st)
      else if tk_text t = lit ''write'' then (EffectWrite, st)
      else if tk_text t = lit ''readwrite'' then (EffectReadWrite, st)
      else (EffectReadWrite, report t (lit ''Expected read, write, or readwrite in effects clause.'') st))"

definition parse_effect_item :: "parser \<Rightarrow> contract_effect_item \<times> parser" where
  "parse_effect_item st =
     (let (kind_token, st) = consume TkIdentifier ''Expected read, write, or readwrite in effects clause.'' st;
          (kind, st) = effect_kind_of kind_token st;
          (_, st) = consume TkLeftParen ''Expected '(' after effect kind.'' st;
          (target, st) = parse_identifier ''Expected slice parameter in effect.'' st;
          (right_paren, st) = consume TkRightParen ''Expected ')' after effect target.'' st
      in (\<lparr>effect_kind = kind, effect_target = target,
           effect_span = span_between_tokens kind_token right_paren\<rparr>, st))"

fun parse_effect_items ::
  "nat \<Rightarrow> contract_effect_item list \<Rightarrow> parser \<Rightarrow> (contract_effect_item list \<times> parser) option" where
  "parse_effect_items 0 items st = None"
| "parse_effect_items (Suc n) items st =
     (let (item, st) = parse_effect_item st;
          (more, st) = match_token TkComma st
      in if more then parse_effect_items n (items @ [item]) st else Some (items @ [item], st))"

definition parse_contract_effect_clause ::
  "nat \<Rightarrow> token \<Rightarrow> parser \<Rightarrow> (contract_effect_clause \<times> parser) option" where
  "parse_contract_effect_clause n effects_token st =
     do {
       let (none, st) = match_token TkNone st;
       (items, st) \<leftarrow> (if none then Some ([], st) else parse_effect_items n [] st);
       let (semicolon, st) = consume TkSemicolon ''Expected ';' after effects clause.'' st;
       Some (\<lparr>is_none = none, effect_items = items,
              effect_clause_span = span_between_tokens effects_token semicolon\<rparr>, st)
     }"

definition parse_requirement :: "nat \<Rightarrow> parser \<Rightarrow> (contract_requirement \<times> parser) option" where
  "parse_requirement n st =
     do {
       let requires_token = previous st;
       (e, st) \<leftarrow> parse_expression n 1 st;
       let (semicolon, st) = consume TkSemicolon ''Expected ';' after contract requirement.'' st;
       Some (\<lparr>requirement_expression = e,
              requirement_span = span_between_tokens requires_token semicolon\<rparr>, st)
     }"

text \<open>The loop over the clauses of a contract.\<close>

fun parse_contract_clauses ::
  "nat \<Rightarrow> contract_requirement list \<Rightarrow> contract_effect_clause option \<Rightarrow> parser \<Rightarrow>
   ((contract_requirement list \<times> contract_effect_clause option) \<times> parser) option" where
  "parse_contract_clauses 0 reqs effects st = None"
| "parse_contract_clauses (Suc n) reqs effects st =
     (if check TkRightBrace st \<or> check TkEof st then Some ((reqs, effects), st)
      else if check TkRequires st then
        do { (req, st) \<leftarrow> parse_requirement n (bump st); parse_contract_clauses n (reqs @ [req]) effects st }
      else if check TkEffects st then
        do {
          let st = bump st;
          (clause, st) \<leftarrow> parse_contract_effect_clause n (previous st) st;
          let st = (if effects = None then st
                    else report (previous st) (lit ''A contract can contain only one effects clause.'') st);
          parse_contract_clauses n reqs (Some clause) st
        }
      else
        do {
          st \<leftarrow> synchronize_contract_clause n
            (report (current st) (lit ''Expected 'requires' or 'effects' in contract.'') st);
          parse_contract_clauses n reqs effects st
        })"

definition parse_contract_declaration :: "nat \<Rightarrow> parser \<Rightarrow> (contract_declaration \<times> parser) option" where
  "parse_contract_declaration n st =
     do {
       let contract_token = previous st;
       let (_, st) = consume TkLeftBrace ''Expected '{' after 'contract'.'' st;
       ((reqs, effects), st) \<leftarrow> parse_contract_clauses n [] None st;
       let (right_brace, st) = consume TkRightBrace ''Expected '}' after contract.'' st;
       Some (\<lparr>requirements = reqs, contract_effects = effects,
              contract_span = span_between_tokens contract_token right_brace\<rparr>, st)
     }"

definition parse_function_param :: "nat \<Rightarrow> parser \<Rightarrow> (function_param \<times> parser) option" where
  "parse_function_param n st =
     do {
       let start = current st;
       let (name, st) = parse_identifier ''Expected parameter name.'' st;
       let (_, st) = consume TkColon ''Expected ':' after parameter name.'' st;
       (type, st) \<leftarrow> parse_type n st;
       Some (\<lparr>param_name = name, param_type = type,
              param_span = span_from_positions (position_from_token start) (span_end (type_span type))\<rparr>, st)
     }"

fun parse_params :: "nat \<Rightarrow> function_param list \<Rightarrow> parser \<Rightarrow> (function_param list \<times> parser) option" where
  "parse_params 0 ps st = None"
| "parse_params (Suc n) ps st =
     do {
       (p, st) \<leftarrow> parse_function_param n st;
       let (more, st) = match_token TkComma st;
       if more then parse_params n (ps @ [p]) st else Some (ps @ [p], st)
     }"

text \<open>The modifiers of a function: whether it is exported, and whether it is unsafe.\<close>

definition parse_modifiers :: "parser \<Rightarrow> (bool \<times> bool) \<times> parser" where
  "parse_modifiers st =
     (let (exp, st) = match_token TkExport st;
          (unsafe, st) = match_token TkUnsafe st
      in if unsafe \<and> check TkExport st then
           let st = bump st
           in ((True, unsafe), error_with_code (previous st) Ck2014
                (lit ''Function modifiers must appear in '[export] [unsafe] fn' order.'') st)
         else ((exp, unsafe), st))"

definition parse_function_declaration :: "nat \<Rightarrow> parser \<Rightarrow> (function_declaration \<times> parser) option" where
  "parse_function_declaration n st =
     do {
       let start = current st;
       let ((exp, unsafe), st) = parse_modifiers st;
       let (_, st) = consume TkFn ''Expected 'fn' after function modifiers.'' st;
       let (name, st) = parse_identifier ''Expected function name.'' st;
       let (_, st) = consume TkLeftParen ''Expected '(' after function name.'' st;
       (ps, st) \<leftarrow> (if check TkRightParen st then Some ([], st) else parse_params n [] st);
       let (_, st) = consume TkRightParen ''Expected ')' after parameters.'' st;
       let (_, st) = consume TkArrow ''Expected '->' before return type.'' st;
       (type, st) \<leftarrow> parse_type n st;
       let (has_contract, st) = match_token TkContract st;
       (contr, st) \<leftarrow>
         (if has_contract then do { (c, st) \<leftarrow> parse_contract_declaration n st; Some (Some c, st) }
          else Some (None, st));
       (body, st) \<leftarrow> parse_block_statement n st;
       Some (\<lparr>exported = exp, is_unsafe = unsafe, fn_name = name, fn_params = ps, return_type = type,
              fn_contract = contr, fn_body = body,
              fn_span = span_from_positions (position_from_token start) (span_end (block_span body))\<rparr>, st)
     }"

definition parse_declaration :: "nat \<Rightarrow> parser \<Rightarrow> (ast_declaration option \<times> parser) option" where
  "parse_declaration n st =
     (if check TkStruct st then
        do { (d, st) \<leftarrow> parse_struct_declaration n st; Some (Some (DeclStruct d), st) }
      else if check TkContract st then
        do {
          st \<leftarrow> skip_braced_declaration n (error_with_code (current st) Ck2014
            (lit ''A contract may appear only after an unsafe function signature.'') (bump st));
          Some (None, st)
        }
      else if check TkUnsafe st \<and> next_is TkLeftBrace st then
        do {
          st \<leftarrow> skip_braced_declaration n (error_with_code (current st) Ck2014
            (lit ''An unsafe block may appear only inside a function body.'') (bump st));
          Some (None, st)
        }
      else if check TkExport st \<or> check TkUnsafe st \<or> check TkFn st then
        do { (d, st) \<leftarrow> parse_function_declaration n st; Some (Some (DeclFunction d), st) }
      else Some (None, bump (report (current st) (lit ''Expected declaration.'') st)))"

fun parse_declarations ::
  "nat \<Rightarrow> ast_declaration list \<Rightarrow> parser \<Rightarrow> (ast_declaration list \<times> parser) option" where
  "parse_declarations 0 ds st = None"
| "parse_declarations (Suc n) ds st =
     (if check TkEof st then Some (ds, st)
      else do {
        (d, st) \<leftarrow> parse_declaration n st;
        parse_declarations n (case d of None \<Rightarrow> ds | Some d \<Rightarrow> ds @ [d]) st
      })"

definition parser_parse :: "nat \<Rightarrow> parser \<Rightarrow> parse_result option" where
  "parser_parse n st =
     do {
       let start = position_from_token (current st);
       (ds, st) \<leftarrow> parse_declarations n [] st;
       let stop = position_from_token (current st);
       Some \<lparr>pr_ast = \<lparr>declarations = ds, program_span = span_from_positions start stop\<rparr>,
             pr_diagnostics = ps_diagnostics st\<rparr>
     }"

definition parse :: "source_file \<Rightarrow> parse_result option" where
  "parse src =
     do {
       lexed \<leftarrow> lex src;
       parser_parse (length (lr_tokens lexed) + 8)
         (parser_new src (lr_tokens lexed) (lr_diagnostics lexed))
     }"

end
