(* ===== verification/Parser_Grammar.thy ===== *)
theory Parser_Grammar
  imports Parser
begin

text \<open>
  The grammar of the language, independent of the parser: inductive relations between the
  tokens of a phrase and its syntax tree. Binary operators associate to the left; the operands
  of an operator of precedence \<open>q\<close> are phrases of level \<open>q\<close> and \<open>q + 1\<close>. The span of every
  node goes from the first to the last token of its phrase.
\<close>

definition span_of :: "token list \<Rightarrow> source_span" where
  "span_of ts = span_between_tokens (hd ts) (last ts)"

definition ident_of :: "token \<Rightarrow> identifier_node" where
  "ident_of t = \<lparr>id_name = tk_text t, id_span = span_from_token t\<rparr>"

section \<open>Types\<close>

inductive type_tokens :: "token list \<Rightarrow> type_node \<Rightarrow> bool" where
  type_primitive: "tk_kind t \<in> set primitive_kinds \<Longrightarrow>
    type_tokens [t] (TypePrimitive (tk_text t) (span_of [t]))"
| type_void: "tk_kind t = TkVoid \<Longrightarrow> type_tokens [t] (TypeVoid (span_of [t]))"
| type_named: "tk_kind t = TkIdentifier \<Longrightarrow> type_tokens [t] (TypeNamed (ident_of t) (span_of [t]))"
| type_pointer: "tk_kind p = TkPtr \<Longrightarrow> tk_kind l = TkLess \<Longrightarrow> type_tokens ts ty \<Longrightarrow> tk_kind g = TkGreater \<Longrightarrow>
    type_tokens (p # l # ts @ [g]) (TypePointer ty (span_of (p # l # ts @ [g])))"
| type_slice: "tk_kind p = TkSlice \<Longrightarrow> tk_kind l = TkLess \<Longrightarrow> type_tokens ts ty \<Longrightarrow> tk_kind g = TkGreater \<Longrightarrow>
    type_tokens (p # l # ts @ [g]) (TypeSlice ty (span_of (p # l # ts @ [g])))"

section \<open>Expressions\<close>

inductive expression_tokens :: "nat \<Rightarrow> token list \<Rightarrow> expression \<Rightarrow> bool"
  and unary_tokens :: "token list \<Rightarrow> expression \<Rightarrow> bool"
  and postfix_tokens :: "token list \<Rightarrow> expression \<Rightarrow> bool"
  and arguments_tokens :: "token list \<Rightarrow> expression list \<Rightarrow> bool" where
  expression_unary: "unary_tokens ts e \<Longrightarrow> expression_tokens p ts e"
| expression_binary:
    "expression_tokens q ls l \<Longrightarrow> binary_precedence (tk_kind op) = q \<Longrightarrow> 0 < q \<Longrightarrow> p \<le> q \<Longrightarrow>
     expression_tokens (q + 1) rs r \<Longrightarrow>
     expression_tokens p (ls @ op # rs) (EBinary (tk_text op) l r (span_of (ls @ op # rs)))"
| unary_prefix: "tk_kind op \<in> {TkBang, TkMinus} \<Longrightarrow> unary_tokens ts e \<Longrightarrow>
    unary_tokens (op # ts) (EUnary (tk_text op) e (span_of (op # ts)))"
| unary_postfix: "postfix_tokens ts e \<Longrightarrow> unary_tokens ts e"
| primary_integer: "tk_kind t = TkInteger \<Longrightarrow> postfix_tokens [t] (EIntegerLiteral (tk_text t) (span_of [t]))"
| primary_float: "tk_kind t = TkFloat \<Longrightarrow> postfix_tokens [t] (EFloatLiteral (tk_text t) (span_of [t]))"
| primary_bool: "tk_kind t \<in> {TkTrue, TkFalse} \<Longrightarrow>
    postfix_tokens [t] (EBoolLiteral (tk_kind t = TkTrue) (span_of [t]))"
| primary_identifier: "tk_kind t = TkIdentifier \<Longrightarrow> postfix_tokens [t] (EIdentifier (tk_text t) (span_of [t]))"
| primary_slice:
    "tk_kind s = TkSlice \<Longrightarrow> tk_kind lp = TkLeftParen \<Longrightarrow> expression_tokens 1 ds d \<Longrightarrow> tk_kind c = TkComma \<Longrightarrow>
     expression_tokens 1 ns n \<Longrightarrow> tk_kind rp = TkRightParen \<Longrightarrow> ts = s # lp # ds @ c # ns @ [rp] \<Longrightarrow>
     postfix_tokens ts (ESliceConstructor d n (span_of ts))"
| primary_parenthesized:
    "tk_kind lp = TkLeftParen \<Longrightarrow> expression_tokens 1 es e \<Longrightarrow> tk_kind rp = TkRightParen \<Longrightarrow>
     ts = lp # es @ [rp] \<Longrightarrow> postfix_tokens ts (EParenthesized e (span_of ts))"
| postfix_call:
    "postfix_tokens cs c \<Longrightarrow> tk_kind lp = TkLeftParen \<Longrightarrow> arguments_tokens as args \<Longrightarrow> tk_kind rp = TkRightParen \<Longrightarrow>
     ts = cs @ lp # as @ [rp] \<Longrightarrow> postfix_tokens ts (ECall c args (span_of ts))"
| postfix_call_empty:
    "postfix_tokens cs c \<Longrightarrow> tk_kind lp = TkLeftParen \<Longrightarrow> tk_kind rp = TkRightParen \<Longrightarrow>
     ts = cs @ [lp, rp] \<Longrightarrow> postfix_tokens ts (ECall c [] (span_of ts))"
| postfix_field:
    "postfix_tokens os ob \<Longrightarrow> tk_kind d = TkDot \<Longrightarrow> tk_kind f = TkIdentifier \<Longrightarrow>
     ts = os @ [d, f] \<Longrightarrow> postfix_tokens ts (EField ob (ident_of f) (span_of ts))"
| postfix_index:
    "postfix_tokens os ob \<Longrightarrow> tk_kind lb = TkLeftBracket \<Longrightarrow> expression_tokens 1 is i \<Longrightarrow>
     tk_kind rb = TkRightBracket \<Longrightarrow> ts = os @ lb # is @ [rb] \<Longrightarrow>
     postfix_tokens ts (EIndex ob i (span_of ts))"
| postfix_subslice:
    "postfix_tokens os ob \<Longrightarrow> tk_kind lb = TkLeftBracket \<Longrightarrow> expression_tokens 1 is i \<Longrightarrow>
     tk_kind dd = TkDotDot \<Longrightarrow> expression_tokens 1 js j \<Longrightarrow> tk_kind rb = TkRightBracket \<Longrightarrow>
     ts = os @ lb # is @ dd # js @ [rb] \<Longrightarrow> postfix_tokens ts (ESubslice ob i j (span_of ts))"
| arguments_last: "expression_tokens 1 ts e \<Longrightarrow> arguments_tokens ts [e]"
| arguments_more:
    "expression_tokens 1 ts e \<Longrightarrow> tk_kind c = TkComma \<Longrightarrow> arguments_tokens us es \<Longrightarrow>
     arguments_tokens (ts @ c # us) (e # es)"

section \<open>Statements\<close>

inductive statement_tokens :: "token list \<Rightarrow> statement \<Rightarrow> bool"
  and statements_tokens :: "token list \<Rightarrow> statement list \<Rightarrow> bool"
  and block_tokens :: "token list \<Rightarrow> block_statement \<Rightarrow> bool" where
  statement_block: "block_tokens ts b \<Longrightarrow> statement_tokens ts (StBlock b)"
| statement_unsafe: "tk_kind u = TkUnsafe \<Longrightarrow> block_tokens bs b \<Longrightarrow>
    statement_tokens (u # bs) (StUnsafe b (span_of (u # bs)))"
| statement_let:
    "tk_kind l = TkLet \<Longrightarrow> tk_kind i = TkIdentifier \<Longrightarrow> tk_kind c = TkColon \<Longrightarrow> type_tokens tys ty \<Longrightarrow>
     tk_kind eq = TkEqual \<Longrightarrow> expression_tokens 1 es e \<Longrightarrow> tk_kind s = TkSemicolon \<Longrightarrow>
     ts = l # i # c # tys @ eq # es @ [s] \<Longrightarrow> statement_tokens ts (StLet (ident_of i) ty e (span_of ts))"
| statement_assignment:
    "expression_tokens 1 xs x \<Longrightarrow> tk_kind eq = TkEqual \<Longrightarrow> expression_tokens 1 es e \<Longrightarrow> tk_kind s = TkSemicolon \<Longrightarrow>
     ts = xs @ eq # es @ [s] \<Longrightarrow> statement_tokens ts (StAssignment x e (span_of ts))"
| statement_call:
    "expression_tokens 1 es e \<Longrightarrow> is_call e \<Longrightarrow> tk_kind s = TkSemicolon \<Longrightarrow>
     statement_tokens (es @ [s]) (StCall e (span_of (es @ [s])))"
| statement_return: "tk_kind r = TkReturn \<Longrightarrow> tk_kind s = TkSemicolon \<Longrightarrow>
    statement_tokens [r, s] (StReturn None (span_of [r, s]))"
| statement_return_value:
    "tk_kind r = TkReturn \<Longrightarrow> expression_tokens 1 es e \<Longrightarrow> tk_kind s = TkSemicolon \<Longrightarrow>
     statement_tokens (r # es @ [s]) (StReturn (Some e) (span_of (r # es @ [s])))"
| statement_break: "tk_kind b = TkBreak \<Longrightarrow> tk_kind s = TkSemicolon \<Longrightarrow>
    statement_tokens [b, s] (StBreak (span_of [b, s]))"
| statement_continue: "tk_kind c = TkContinue \<Longrightarrow> tk_kind s = TkSemicolon \<Longrightarrow>
    statement_tokens [c, s] (StContinue (span_of [c, s]))"
| statement_if:
    "tk_kind i = TkIf \<Longrightarrow> expression_tokens 1 cs c \<Longrightarrow> block_tokens bs b \<Longrightarrow>
     ts = i # cs @ bs \<Longrightarrow> statement_tokens ts (StIf c b None (span_of ts))"
| statement_if_else:
    "tk_kind i = TkIf \<Longrightarrow> expression_tokens 1 cs c \<Longrightarrow> block_tokens bs b \<Longrightarrow> tk_kind el = TkElse \<Longrightarrow>
     block_tokens es e \<Longrightarrow> ts = i # cs @ bs @ el # es \<Longrightarrow>
     statement_tokens ts (StIf c b (Some e) (span_of ts))"
| statement_while:
    "tk_kind w = TkWhile \<Longrightarrow> expression_tokens 1 cs c \<Longrightarrow> block_tokens bs b \<Longrightarrow>
     ts = w # cs @ bs \<Longrightarrow> statement_tokens ts (StWhile c b (span_of ts))"
| statements_none: "statements_tokens [] []"
| statements_more: "statement_tokens ts s \<Longrightarrow> statements_tokens us ss \<Longrightarrow> statements_tokens (ts @ us) (s # ss)"
| block_braces:
    "tk_kind lb = TkLeftBrace \<Longrightarrow> statements_tokens ss sts \<Longrightarrow> tk_kind rb = TkRightBrace \<Longrightarrow>
     ts = lb # ss @ [rb] \<Longrightarrow> block_tokens ts (BlockStatement sts (span_of ts))"

section \<open>Declarations\<close>

inductive struct_fields_tokens :: "token list \<Rightarrow> struct_field list \<Rightarrow> bool" where
  fields_none: "struct_fields_tokens [] []"
| fields_more:
    "tk_kind i = TkIdentifier \<Longrightarrow> tk_kind c = TkColon \<Longrightarrow> type_tokens tys ty \<Longrightarrow> tk_kind s = TkSemicolon \<Longrightarrow>
     ts = i # c # tys @ [s] \<Longrightarrow> struct_fields_tokens us fs \<Longrightarrow>
     struct_fields_tokens (ts @ us)
       (\<lparr>field_name = ident_of i, field_type = ty, field_span = span_of ts\<rparr> # fs)"

inductive param_tokens :: "token list \<Rightarrow> function_param \<Rightarrow> bool" where
  param: "tk_kind i = TkIdentifier \<Longrightarrow> tk_kind c = TkColon \<Longrightarrow> type_tokens tys ty \<Longrightarrow> ts = i # c # tys \<Longrightarrow>
    param_tokens ts \<lparr>param_name = ident_of i, param_type = ty, param_span = span_of ts\<rparr>"

inductive params_tokens :: "token list \<Rightarrow> function_param list \<Rightarrow> bool" where
  params_last: "param_tokens ts p \<Longrightarrow> params_tokens ts [p]"
| params_more: "param_tokens ts p \<Longrightarrow> tk_kind c = TkComma \<Longrightarrow> params_tokens us ps \<Longrightarrow>
    params_tokens (ts @ c # us) (p # ps)"

definition effect_names :: "(rstring \<times> contract_effect_kind) list" where
  "effect_names = [(lit ''read'', EffectRead), (lit ''write'', EffectWrite), (lit ''readwrite'', EffectReadWrite)]"

inductive effect_item_tokens :: "token list \<Rightarrow> contract_effect_item \<Rightarrow> bool" where
  effect_item:
    "tk_kind k = TkIdentifier \<Longrightarrow> map_of effect_names (tk_text k) = Some kind \<Longrightarrow> tk_kind lp = TkLeftParen \<Longrightarrow>
     tk_kind i = TkIdentifier \<Longrightarrow> tk_kind rp = TkRightParen \<Longrightarrow> ts = [k, lp, i, rp] \<Longrightarrow>
     effect_item_tokens ts \<lparr>effect_kind = kind, effect_target = ident_of i, effect_span = span_of ts\<rparr>"

inductive effect_items_tokens :: "token list \<Rightarrow> contract_effect_item list \<Rightarrow> bool" where
  effects_last: "effect_item_tokens ts x \<Longrightarrow> effect_items_tokens ts [x]"
| effects_more: "effect_item_tokens ts x \<Longrightarrow> tk_kind c = TkComma \<Longrightarrow> effect_items_tokens us xs \<Longrightarrow>
    effect_items_tokens (ts @ c # us) (x # xs)"

inductive effect_clause_tokens :: "token list \<Rightarrow> contract_effect_clause \<Rightarrow> bool" where
  effects_none:
    "tk_kind e = TkEffects \<Longrightarrow> tk_kind n = TkNone \<Longrightarrow> tk_kind s = TkSemicolon \<Longrightarrow> ts = [e, n, s] \<Longrightarrow>
     effect_clause_tokens ts \<lparr>is_none = True, effect_items = [], effect_clause_span = span_of ts\<rparr>"
| effects_some:
    "tk_kind e = TkEffects \<Longrightarrow> effect_items_tokens is xs \<Longrightarrow> tk_kind s = TkSemicolon \<Longrightarrow> ts = e # is @ [s] \<Longrightarrow>
     effect_clause_tokens ts \<lparr>is_none = False, effect_items = xs, effect_clause_span = span_of ts\<rparr>"

text \<open>The clauses of a contract: requirements, and at most one effects clause among them.\<close>

inductive clauses_tokens ::
  "token list \<Rightarrow> contract_requirement list \<Rightarrow> contract_effect_clause option \<Rightarrow> bool" where
  clauses_none: "clauses_tokens [] [] None"
| clauses_requires:
    "tk_kind r = TkRequires \<Longrightarrow> expression_tokens 1 es e \<Longrightarrow> tk_kind s = TkSemicolon \<Longrightarrow> ts = r # es @ [s] \<Longrightarrow>
     clauses_tokens us rs eff \<Longrightarrow>
     clauses_tokens (ts @ us) (\<lparr>requirement_expression = e, requirement_span = span_of ts\<rparr> # rs) eff"
| clauses_effects: "effect_clause_tokens ts c \<Longrightarrow> clauses_tokens us rs None \<Longrightarrow> clauses_tokens (ts @ us) rs (Some c)"

inductive contract_tokens :: "token list \<Rightarrow> contract_declaration \<Rightarrow> bool" where
  contract_braces:
    "tk_kind c = TkContract \<Longrightarrow> tk_kind lb = TkLeftBrace \<Longrightarrow> clauses_tokens cs rs eff \<Longrightarrow> tk_kind rb = TkRightBrace \<Longrightarrow>
     ts = c # lb # cs @ [rb] \<Longrightarrow>
     contract_tokens ts \<lparr>requirements = rs, contract_effects = eff, contract_span = span_of ts\<rparr>"

text \<open>The optional parts of a function: a modifier, its parameters, its contract.\<close>

definition modifier_tokens :: "token_kind \<Rightarrow> token list \<Rightarrow> bool \<Rightarrow> bool" where
  "modifier_tokens kind ts b \<longleftrightarrow> (if b then (\<exists>t. ts = [t] \<and> tk_kind t = kind) else ts = [])"

definition params_opt_tokens :: "token list \<Rightarrow> function_param list \<Rightarrow> bool" where
  "params_opt_tokens ts ps \<longleftrightarrow> ts = [] \<and> ps = [] \<or> params_tokens ts ps"

definition contract_opt_tokens :: "token list \<Rightarrow> contract_declaration option \<Rightarrow> bool" where
  "contract_opt_tokens ts c \<longleftrightarrow> (case c of None \<Rightarrow> ts = [] | Some c \<Rightarrow> contract_tokens ts c)"

inductive declaration_tokens :: "token list \<Rightarrow> ast_declaration \<Rightarrow> bool" where
  declaration_struct:
    "tk_kind s = TkStruct \<Longrightarrow> tk_kind i = TkIdentifier \<Longrightarrow> tk_kind lb = TkLeftBrace \<Longrightarrow>
     struct_fields_tokens fts fs \<Longrightarrow> tk_kind rb = TkRightBrace \<Longrightarrow> ts = s # i # lb # fts @ [rb] \<Longrightarrow>
     declaration_tokens ts (DeclStruct \<lparr>struct_name = ident_of i, struct_fields = fs, struct_span = span_of ts\<rparr>)"
| declaration_function:
    "modifier_tokens TkExport xs exp \<Longrightarrow> modifier_tokens TkUnsafe us unsafe \<Longrightarrow> tk_kind f = TkFn \<Longrightarrow>
     tk_kind i = TkIdentifier \<Longrightarrow> tk_kind lp = TkLeftParen \<Longrightarrow> params_opt_tokens pts ps \<Longrightarrow>
     tk_kind rp = TkRightParen \<Longrightarrow> tk_kind ar = TkArrow \<Longrightarrow> type_tokens tys ty \<Longrightarrow>
     contract_opt_tokens cs c \<Longrightarrow> block_tokens bs b \<Longrightarrow>
     ts = xs @ us @ f # i # lp # pts @ rp # ar # tys @ cs @ bs \<Longrightarrow>
     declaration_tokens ts (DeclFunction
       \<lparr>exported = exp, is_unsafe = unsafe, fn_name = ident_of i, fn_params = ps, return_type = ty,
        fn_contract = c, fn_body = b, fn_span = span_of ts\<rparr>)"

inductive declarations_tokens :: "token list \<Rightarrow> ast_declaration list \<Rightarrow> bool" where
  declarations_none: "declarations_tokens [] []"
| declarations_more: "declaration_tokens ts d \<Longrightarrow> declarations_tokens us ds \<Longrightarrow>
    declarations_tokens (ts @ us) (d # ds)"

text \<open>A program: its declarations up to the token of the end of the file.\<close>

definition program_tokens :: "token list \<Rightarrow> program \<Rightarrow> bool" where
  "program_tokens ts p \<longleftrightarrow>
     declarations_tokens (butlast ts) (declarations p) \<and>
     program_span p = span_from_positions (position_from_token (hd ts)) (position_from_token (last ts))"

section \<open>Spans and first tokens\<close>

lemma span_of_simps [simp]:
  "span_start (span_of ts) = position_from_token (hd ts)"
  "span_end (span_of ts) = end_position_from_token (last ts)"
  by (simp_all add: span_of_def span_between_tokens_def span_from_positions_def)

lemma span_of_eq: "span_of ts = span_from_positions (position_from_token (hd ts)) (end_position_from_token (last ts))"
  by (simp add: span_of_def span_between_tokens_def)

lemma span_between_of: "span_between_tokens a b = span_of (a # ts @ [b])"
  by (simp add: span_of_def)

lemma span_from_token_of: "span_from_token t = span_of [t]"
  by (simp add: span_of_def span_from_token_def)

lemma ident_span [simp]: "id_span (ident_of t) = span_of [t]"
  by (simp add: ident_of_def span_from_token_of)

lemma type_tokens_span: "type_tokens ts ty \<Longrightarrow> ts \<noteq> [] \<and> type_span ty = span_of ts"
  by (induction rule: type_tokens.induct) (auto simp: span_from_token_of)

lemma block_tokens_span: "block_tokens ts b \<Longrightarrow> ts \<noteq> [] \<and> block_span b = span_of ts \<and> tk_kind (hd ts) = TkLeftBrace"
  by (cases rule: block_tokens.cases) auto

definition expression_kinds :: "token_kind set" where
  "expression_kinds = {TkBang, TkMinus, TkInteger, TkFloat, TkTrue, TkFalse, TkIdentifier, TkSlice, TkLeftParen}"

lemma expression_tokens_span:
  "expression_tokens p ts e \<Longrightarrow> ts \<noteq> [] \<and> expression_span e = span_of ts \<and> tk_kind (hd ts) \<in> expression_kinds"
  "unary_tokens ts e \<Longrightarrow> ts \<noteq> [] \<and> expression_span e = span_of ts \<and> tk_kind (hd ts) \<in> expression_kinds"
  "postfix_tokens ts e \<Longrightarrow> ts \<noteq> [] \<and> expression_span e = span_of ts \<and>
     tk_kind (hd ts) \<in> expression_kinds - {TkBang, TkMinus}"
  "arguments_tokens ts es \<Longrightarrow> ts \<noteq> [] \<and> tk_kind (hd ts) \<in> expression_kinds"
  by (induction rule: expression_tokens_unary_tokens_postfix_tokens_arguments_tokens.inducts)
    (auto simp: expression_kinds_def)

lemma statement_tokens_head:
  "statement_tokens ts s \<Longrightarrow> ts \<noteq> [] \<and> tk_kind (hd ts) \<in>
     expression_kinds \<union> {TkLeftBrace, TkUnsafe, TkLet, TkReturn, TkBreak, TkContinue, TkIf, TkWhile}"
  by (cases rule: statement_tokens.cases) (auto dest: block_tokens_span expression_tokens_span(1))

end
