(* ===== verification/Parser_Sound.thy ===== *)
theory Parser_Sound
  imports Parser_Grammar
begin

text \<open>
  Every method of the parser returns on every token list with the fuel it is given, moves
  forward, and, when it reports nothing, has read a phrase of the grammar. The three are one
  total-correctness judgement \<open>spec\<close>, with a rule for each construct the methods are built of.
\<close>

section \<open>Runs\<close>

text \<open>The tokens still to read, without the end of the file.\<close>

definition rest :: "parser \<Rightarrow> token list" where
  "rest st = drop (ps_index st) (butlast (ps_tokens st))"

definition ok :: "parser \<Rightarrow> bool" where
  "ok st \<longleftrightarrow> ps_tokens st \<noteq> [] \<and> tk_kind (last (ps_tokens st)) = TkEof \<and>
     (\<forall>t \<in> set (butlast (ps_tokens st)). tk_kind t \<noteq> TkEof) \<and> ps_index st \<le> length (butlast (ps_tokens st))"

text \<open>From one state to another, reading tokens and pushing diagnostics.\<close>

definition run :: "parser \<Rightarrow> token list \<Rightarrow> diagnostic list \<Rightarrow> parser \<Rightarrow> bool" where
  "run st us es st' \<longleftrightarrow> ok st' \<and> rest st = us @ rest st' \<and>
     st' = st\<lparr>ps_index := ps_index st + length us, ps_diagnostics := ps_diagnostics st @ es\<rparr>"

lemma run_refl: "ok st \<Longrightarrow> run st [] [] st"
  by (simp add: run_def)

lemma run_trans: "run st us es st1 \<Longrightarrow> run st1 vs fs st2 \<Longrightarrow> run st (us @ vs) (es @ fs) st2"
  by (auto simp: run_def)

lemma run_ok: "run st us es st' \<Longrightarrow> ok st'"
  unfolding run_def by (rule conjunct1)

lemma run_rest: "run st us es st' \<Longrightarrow> rest st = us @ rest st'"
  by (simp add: run_def)

lemma current_rest: "ok st \<Longrightarrow> current st = (case rest st of [] \<Rightarrow> last (ps_tokens st) | t # _ \<Rightarrow> t)"
proof -
  assume ok: "ok st"
  show ?thesis
  proof (cases "ps_index st < length (butlast (ps_tokens st))")
    case True
    then have "rest st = butlast (ps_tokens st) ! ps_index st # drop (Suc (ps_index st)) (butlast (ps_tokens st))"
      unfolding rest_def by (rule Cons_nth_drop_Suc [symmetric])
    with True show ?thesis by (simp add: current_def nth_butlast)
  next
    case False
    with ok have i: "ps_index st = length (ps_tokens st) - 1" "ps_tokens st \<noteq> []" by (auto simp: ok_def)
    then have "rest st = []" by (simp add: rest_def)
    with i show ?thesis by (simp add: current_def last_conv_nth)
  qed
qed

lemma rest_kinds: "ok st \<Longrightarrow> t \<in> set (rest st) \<Longrightarrow> tk_kind t \<noteq> TkEof"
  unfolding ok_def rest_def by (meson in_set_dropD)

lemma check_Eof: "ok st \<Longrightarrow> check TkEof st \<longleftrightarrow> rest st = []"
  by (cases "rest st") (auto simp: check_def current_rest rest_kinds, auto simp: ok_def)

lemma check_rest: "ok st \<Longrightarrow> k \<noteq> TkEof \<Longrightarrow> check k st \<longleftrightarrow> (\<exists>t r. rest st = t # r \<and> tk_kind t = k)"
  by (cases "rest st") (auto simp: check_def current_rest, auto simp: ok_def)

lemma run_bump: "ok st \<Longrightarrow> run st (take 1 (rest st)) [] (bump st)"
proof -
  assume ok: "ok st"
  show ?thesis
  proof (cases "rest st")
    case Nil
    then show ?thesis using ok by (simp add: bump_def check_Eof run_def)
  next
    case (Cons t r)
    then have "ps_index st < length (butlast (ps_tokens st))"
      unfolding rest_def by (metis drop_all list.distinct(1) not_le)
    moreover have "\<not> check TkEof st" using ok Cons by (simp add: check_Eof)
    moreover have "drop (Suc (ps_index st)) (butlast (ps_tokens st)) = r"
      using Cons unfolding rest_def by (metis drop_Suc list.sel(3) tl_drop)
    ultimately show ?thesis using ok Cons by (auto simp: bump_def run_def ok_def rest_def)
  qed
qed

lemma run_bump_token: "ok st \<Longrightarrow> rest st \<noteq> [] \<Longrightarrow> run st [current st] [] (bump st)"
  using run_bump [of st] by (cases "rest st") (auto simp: current_rest)

lemma run_error: "ok st \<Longrightarrow> \<exists>d. run st [] [d] (error_with_code t code message st)"
  by (auto simp: run_def error_with_code_def ok_def rest_def)

lemma run_report: "ok st \<Longrightarrow> \<exists>d. run st [] [d] (report t message st)"
  by (simp add: report_def run_error)

section \<open>The judgement\<close>

type_synonym 'a post = "token list \<Rightarrow> diagnostic list \<Rightarrow> 'a \<Rightarrow> parser \<Rightarrow> bool"

definition spec :: "parser \<Rightarrow> ('a \<times> parser) option \<Rightarrow> 'a post \<Rightarrow> bool" where
  "spec st r Q \<longleftrightarrow> (\<exists>us es x st'. r = Some (x, st') \<and> run st us es st' \<and> Q us es x st')"

text \<open>The post-condition of a method: it moves when it can, and reads a phrase when it reports nothing.\<close>

definition reads :: "parser \<Rightarrow> (token list \<Rightarrow> 'a \<Rightarrow> parser \<Rightarrow> bool) \<Rightarrow> 'a post" where
  "reads st G = (\<lambda>us es x st'. (rest st \<noteq> [] \<longrightarrow> us \<noteq> []) \<and> (es = [] \<longrightarrow> G us x st'))"

lemma spec_return: "ok st \<Longrightarrow> Q [] [] x st \<Longrightarrow> spec st (Some (x, st)) Q"
  by (auto simp: spec_def intro!: run_refl)

lemma spec_run:
  "run st us es st1 \<Longrightarrow> spec st1 r (\<lambda>vs fs. Q (us @ vs) (es @ fs)) \<Longrightarrow> spec st r Q"
  unfolding spec_def by (blast intro: run_trans)

lemma spec_bind:
  assumes "spec st m P"
    "\<And>us es x st1. run st us es st1 \<Longrightarrow> P us es x st1 \<Longrightarrow> spec st1 (f x st1) (\<lambda>vs fs. Q (us @ vs) (es @ fs))"
  shows "spec st (Option.bind m (case_prod f)) Q"
proof -
  obtain us es x st1 where 1: "m = Some (x, st1)" "run st us es st1" "P us es x st1"
    using assms(1) by (auto simp: spec_def)
  from spec_run [OF 1(2) assms(2) [OF 1(2,3)]] show ?thesis by (simp add: 1(1))
qed

lemma spec_if: "(b \<Longrightarrow> spec st r Q) \<Longrightarrow> (\<not> b \<Longrightarrow> spec st r' Q) \<Longrightarrow> spec st (if b then r else r') Q"
  by simp

lemma spec_let: "spec st (f x) Q \<Longrightarrow> spec st (Let x f) Q"
  by simp

lemma spec_bind_reads:
  assumes "spec st m (reads st G)"
    "\<And>us es x st1. run st us es st1 \<Longrightarrow> (rest st \<noteq> [] \<longrightarrow> us \<noteq> []) \<Longrightarrow> (es = [] \<longrightarrow> G us x st1) \<Longrightarrow>
       spec st1 (f x st1) (\<lambda>vs fs. Q (us @ vs) (es @ fs))"
  shows "spec st (Option.bind m (case_prod f)) Q"
  using assms by (intro spec_bind [OF assms(1)]) (simp_all add: reads_def)

text \<open>A call in the last position.\<close>

lemma spec_tail:
  assumes "spec st r (reads st G)"
    "\<And>us es x st'. run st us es st' \<Longrightarrow> (rest st \<noteq> [] \<longrightarrow> us \<noteq> []) \<Longrightarrow> (es = [] \<longrightarrow> G us x st') \<Longrightarrow> Q us es x st'"
  shows "spec st r Q"
  using assms unfolding spec_def reads_def by blast

lemma run_len: "run st us es st1 \<Longrightarrow> length (rest st) = length us + length (rest st1)"
  using run_rest by force

lemma spec_mono: "spec st r P \<Longrightarrow> (\<And>us es x st'. run st us es st' \<Longrightarrow> P us es x st' \<Longrightarrow> Q us es x st') \<Longrightarrow> spec st r Q"
  unfolding spec_def by blast

lemma spec_bump:
  "ok st \<Longrightarrow> spec (bump st) r (\<lambda>vs. Q (take 1 (rest st) @ vs)) \<Longrightarrow> spec st r Q"
  using spec_run [OF run_bump] by simp

lemma spec_consume:
  assumes "ok st" "k \<noteq> TkEof"
    "\<And>us es t st1. run st us es st1 \<Longrightarrow> es = [] \<longrightarrow> us = [t] \<and> tk_kind t = k \<Longrightarrow>
       spec st1 (f t st1) (\<lambda>vs fs. Q (us @ vs) (es @ fs))"
  shows "spec st (Let (consume k m st) (case_prod f)) Q"
proof (cases "check k st")
  case True
  then have "rest st \<noteq> []" using assms(1,2) by (auto simp: check_rest)
  note r = run_bump_token [OF assms(1) this]
  with True show ?thesis
    using spec_run [OF r assms(3) [OF r]] by (simp add: consume_def check_def)
next
  case False
  obtain d where r: "run st [] [d] (report (current st) (lit m) st)" using run_report [OF assms(1)] by blast
  show ?thesis using False spec_run [OF r assms(3) [OF r]] by (simp add: consume_def)
qed

lemma spec_identifier:
  assumes "ok st"
    "\<And>us es i st1. run st us es st1 \<Longrightarrow> es = [] \<longrightarrow> (\<exists>t. us = [t] \<and> tk_kind t = TkIdentifier \<and> i = ident_of t) \<Longrightarrow>
       spec st1 (f i st1) (\<lambda>vs fs. Q (us @ vs) (es @ fs))"
  shows "spec st (Let (parse_identifier m st) (case_prod f)) Q"
proof -
  have "parse_identifier m st = (let (t, st) = consume TkIdentifier m st in (ident_of t, st))"
    by (simp add: parse_identifier_def ident_of_def)
  then have eq: "Let (parse_identifier m st) (case_prod f) =
      Let (consume TkIdentifier m st) (\<lambda>(t, st). f (ident_of t) st)"
    by (simp add: Let_def split: prod.splits)
  show ?thesis
    unfolding eq by (rule spec_consume) (auto intro: assms)
qed

lemma spec_match:
  assumes "ok st" "k \<noteq> TkEof"
    "\<And>t r. rest st = t # r \<Longrightarrow> tk_kind t = k \<Longrightarrow> run st [t] [] (bump st) \<Longrightarrow>
       spec (bump st) (f True (bump st)) (\<lambda>vs. Q (t # vs))"
    "\<not> check k st \<Longrightarrow> spec st (f False st) Q"
  shows "spec st (Let (match_token k st) (case_prod f)) Q"
proof (cases "check k st")
  case True
  then obtain t r where t: "rest st = t # r" "tk_kind t = k" using assms(1,2) by (auto simp: check_rest)
  note run = run_bump [OF assms(1), unfolded t(1), simplified]
  with True show ?thesis
    using spec_run [OF run, of "f True (bump st)" Q] assms(3) [OF t run] by (simp add: match_token_def)
next
  case False
  then show ?thesis using assms(4) by (simp add: match_token_def)
qed

text \<open>The token at hand is taken, when there is one.\<close>

lemma spec_take:
  assumes "ok st" "check k st" "k \<noteq> TkEof"
    "tk_kind (current st) = k \<Longrightarrow> rest st \<noteq> [] \<Longrightarrow> run st [current st] [] (bump st) \<Longrightarrow>
     spec (bump st) r (\<lambda>vs. Q (current st # vs))"
  shows "spec st r Q"
proof -
  have "rest st \<noteq> []" using assms(1-3) by (auto simp: check_rest)
  note run = run_bump_token [OF assms(1) this]
  show ?thesis
    using spec_run [OF run, of r Q] assms(4) [OF _ \<open>rest st \<noteq> []\<close> run] assms(2) by (simp add: check_def)
qed

lemma spec_consume_checked:
  assumes "ok st" "check k st" "k \<noteq> TkEof"
    "tk_kind (current st) = k \<Longrightarrow> rest st \<noteq> [] \<Longrightarrow> run st [current st] [] (bump st) \<Longrightarrow>
       spec (bump st) (f (current st) (bump st)) (\<lambda>vs. Q (current st # vs))"
  shows "spec st (Let (consume k m st) (case_prod f)) Q"
  using spec_take [OF assms] assms(2) by (simp add: consume_def)

text \<open>A report: whatever follows, something was reported.\<close>

lemma spec_error:
  assumes "ok st" "\<And>d. run st [] [d] (error_with_code t code m st) \<Longrightarrow>
    spec (error_with_code t code m st) r (\<lambda>vs fs. Q vs (d # fs))"
  shows "spec st r Q"
  using run_error [OF assms(1)] assms(2) spec_run by fastforce

lemma spec_report:
  assumes "ok st" "\<And>d. run st [] [d] (report t m st) \<Longrightarrow> spec (report t m st) r (\<lambda>vs fs. Q vs (d # fs))"
  shows "spec st r Q"
  using assms unfolding report_def by (rule spec_error)

text \<open>The methods that only move.\<close>

definition skips :: "parser \<Rightarrow> parser option \<Rightarrow> bool" where
  "skips st r \<longleftrightarrow> (\<exists>us es st'. r = Some st' \<and> run st us es st')"

lemma skips_return: "ok st \<Longrightarrow> skips st (Some st)"
  unfolding skips_def using run_refl by blast

lemma skips_run: "run st us es st1 \<Longrightarrow> skips st1 r \<Longrightarrow> skips st r"
  unfolding skips_def using run_trans by blast

lemma skips_bump: "ok st \<Longrightarrow> skips (bump st) r \<Longrightarrow> skips st r"
  by (rule skips_run [OF run_bump])

lemma spec_bind_skip:
  assumes "skips st m" "\<And>us es st1. run st us es st1 \<Longrightarrow> spec st1 (f st1) (\<lambda>vs fs. Q (us @ vs) (es @ fs))"
  shows "spec st (Option.bind m f) Q"
  using assms spec_run unfolding skips_def by fastforce

lemma ok_bump: "ok st \<Longrightarrow> ok (bump st)"
  by (rule run_ok [OF run_bump])

lemma rest_bump: "ok st \<Longrightarrow> rest (bump st) = tl (rest st)"
proof -
  assume "ok st"
  from run_rest [OF run_bump [OF this]] show ?thesis by (cases "rest st") simp_all
qed

lemma length_bump: "ok st \<Longrightarrow> \<not> check TkEof st \<Longrightarrow> length (rest (bump st)) < length (rest st)"
  by (simp add: check_Eof rest_bump)

lemma skip_until_skips: "ok st \<Longrightarrow> length (rest st) < n \<Longrightarrow> skips st (skip_until k n st)"
proof (induction k n st rule: skip_until.induct)
  case (2 k n st)
  then show ?case
    using length_bump [of st] by (auto intro: skips_return skips_bump simp: ok_bump)
qed simp

lemma skip_braces_skips: "ok st \<Longrightarrow> length (rest st) < n \<Longrightarrow> skips st (skip_braces n depth st)"
proof (induction n depth st rule: skip_braces.induct)
  case (2 n depth st)
  then show ?case
    using length_bump [of st] by (auto intro: skips_return skips_bump simp: ok_bump)
qed simp

lemma skips_match:
  assumes "ok st" "k \<noteq> TkEof" "skips (bump st) (f True (bump st))" "\<not> check k st \<Longrightarrow> skips st (f False st)"
  shows "skips st (Let (match_token k st) (case_prod f))"
  using assms by (auto simp: match_token_def intro: skips_bump)

lemma skip_braced_declaration_skips:
  "ok st \<Longrightarrow> length (rest st) < n \<Longrightarrow> skips st (skip_braced_declaration n st)"
  unfolding skip_braced_declaration_def
  by (rule skips_match) (auto intro!: skips_return skip_braces_skips ok_bump simp: rest_bump)

lemma skips_if: "(b \<Longrightarrow> skips st r) \<Longrightarrow> (\<not> b \<Longrightarrow> skips st r') \<Longrightarrow> skips st (if b then r else r')"
  by simp

lemma synchronize_statement_skips: "ok st \<Longrightarrow> length (rest st) < n \<Longrightarrow> skips st (synchronize_statement n st)"
proof (induction n arbitrary: st)
  case (Suc n)
  have bump: "skips st (synchronize_statement n (bump st))" if "\<not> check TkEof st" "\<not> check TkSemicolon st"
    "\<not> check TkRightBrace st"
    by (rule skips_bump [OF Suc.prems(1)], rule Suc.IH)
      (use that Suc.prems length_bump [of st] in \<open>simp_all add: ok_bump\<close>)
  show ?case
    unfolding synchronize_statement.simps
    apply (rule skips_if)
     apply (rule skips_return, rule Suc.prems(1))
    apply (rule skips_match, rule Suc.prems(1), simp)
     apply (simp add: skips_return ok_bump Suc.prems(1))
    apply (rule skips_if)
     apply (rule skips_return, rule Suc.prems(1))
    apply (rule bump)
      apply simp_all
    done
qed simp

lemma synchronize_contract_clause_skips:
  "ok st \<Longrightarrow> length (rest st) < n \<Longrightarrow> skips st (synchronize_contract_clause n st)"
proof (induction n arbitrary: st)
  case (Suc n)
  have bump: "skips st (synchronize_contract_clause n (bump st))" if "\<not> check TkEof st" "\<not> check TkSemicolon st"
    "\<not> check TkRightBrace st"
    by (rule skips_bump [OF Suc.prems(1)], rule Suc.IH)
      (use that Suc.prems length_bump [of st] in \<open>simp_all add: ok_bump\<close>)
  show ?case
    unfolding synchronize_contract_clause.simps
    apply (rule skips_if)
     apply (rule skips_return, rule Suc.prems(1))
    apply (rule skips_match, rule Suc.prems(1), simp)
     apply (simp add: skips_return ok_bump Suc.prems(1))
    apply (simp add: bump)
    done
qed simp

section \<open>Types\<close>

lemma current_Cons: "ok st \<Longrightarrow> rest st = t # r \<Longrightarrow> current st = t"
  by (simp add: current_rest)

lemma spec_error_bump: "ok st \<Longrightarrow> spec st (Some (x, bump (report t m st))) (reads st G)"
proof -
  assume ok: "ok st"
  then obtain d where d: "run st [] [d] (report t m st)" using run_report by blast
  have eq: "rest (report t m st) = rest st" using run_rest [OF d] by simp
  show ?thesis
    by (rule spec_run [OF d], rule spec_run [OF run_bump [OF run_ok [OF d]]],
        rule spec_return [OF ok_bump [OF run_ok [OF d]]])
      (simp add: reads_def eq)
qed

lemma spec_token:
  assumes "ok st" "k \<noteq> TkEof" "tk_kind (current st) = k" "\<And>t. tk_kind t = k \<Longrightarrow> t = current st \<Longrightarrow> G [t] x (bump st)"
  shows "spec st (Some (x, bump st)) (reads st G)"
proof -
  have c: "check k st" using assms(3) by (simp add: check_def)
  show ?thesis
    by (rule spec_take [OF assms(1) c assms(2)], rule spec_return)
      (simp_all add: assms ok_bump reads_def)
qed

lemma run_length: "run st us es st1 \<Longrightarrow> length (rest st1) = length (rest st) - length us"
  using run_rest by force

lemma run_length_le: "run st us es st1 \<Longrightarrow> length (rest st1) \<le> length (rest st)"
  using run_rest by force

lemma spec_pointer:
  assumes "ok st" "tk_kind (current st) = k" "k \<noteq> TkEof" "t = current st"
    "\<And>st1. ok st1 \<Longrightarrow> length (rest st1) < length (rest st) \<Longrightarrow>
      spec st1 (parse_type n st1) (reads st1 (\<lambda>us ty _. type_tokens us ty))"
    "\<And>p l ts ty g. tk_kind p = k \<Longrightarrow> tk_kind l = TkLess \<Longrightarrow> type_tokens ts ty \<Longrightarrow> tk_kind g = TkGreater \<Longrightarrow>
      type_tokens (p # l # ts @ [g]) (C ty (span_of (p # l # ts @ [g])))"
  shows "spec st
    (do {
       let (_, st) = consume TkLess m (bump st);
       (element, st) \<leftarrow> parse_type n st;
       let (greater, st) = consume TkGreater m' st;
       Some (C element (span_between_tokens t greater), st)
     }) (reads st (\<lambda>us ty _. type_tokens us ty))"
  apply (rule spec_take [OF assms(1) _ assms(3)])
   apply (simp add: check_def assms(2))
  apply (rule spec_consume, erule run_ok, simp)
  apply (rule spec_bind, rule assms(5), erule run_ok, simp add: run_length)
  apply (rule spec_consume, erule run_ok, simp)
  apply (rule spec_return, erule run_ok)
  using assms(6) [unfolded span_of_def] by (auto simp: reads_def assms(4))

lemma parse_type_spec:
  "ok st \<Longrightarrow> length (rest st) < n \<Longrightarrow>
   spec st (parse_type n st) (reads st (\<lambda>us ty _. type_tokens us ty))"
proof (induction n arbitrary: st)
  case (Suc n)
  have IH: "spec st1 (parse_type n st1) (reads st1 (\<lambda>us ty _. type_tokens us ty))"
    if "ok st1" "length (rest st1) < length (rest st)" for st1
    using Suc that by simp
  show ?case
    unfolding parse_type.simps
    apply (rule spec_let, rule spec_if)
     apply (rule spec_token [OF Suc.prems(1) _ refl], force simp: primitive_kinds_def)
     apply (simp add: span_from_token_of type_primitive del: span_of_simps) [1]
    apply (rule spec_if)
     apply (rule spec_token [OF Suc.prems(1), of TkVoid], simp, simp)
     apply (simp add: span_from_token_of type_void)
    apply (rule spec_if)
     apply (simp add: parse_identifier_def consume_def check_def)
     apply (rule spec_token [OF Suc.prems(1), of TkIdentifier], simp, simp)
     apply (simp add: span_from_token_of type_named [unfolded ident_of_def span_from_token_of])
    apply (rule spec_if)
     apply (rule spec_pointer [OF Suc.prems(1) _ _ refl IH type_pointer]; simp)
    apply (rule spec_if)
     apply (rule spec_pointer [OF Suc.prems(1) _ _ refl IH type_slice]; simp)
    apply (rule spec_error_bump [OF Suc.prems(1)])
    done
qed simp

section \<open>Expressions\<close>

declare One_nat_def [simp del]

text \<open>Where an expression of level \<open>p\<close> stops: no operator of the level and no postfix follows.\<close>

definition stops :: "nat \<Rightarrow> parser \<Rightarrow> bool" where
  "stops p st \<longleftrightarrow> binary_precedence (tk_kind (current st)) < p \<and>
     tk_kind (current st) \<notin> {TkLeftParen, TkDot, TkLeftBracket}"

text \<open>The contract of the expression parser the loops rely on, on inputs of fewer than \<open>r\<close> tokens.\<close>

definition expr_ok :: "expression_parser \<Rightarrow> nat \<Rightarrow> bool" where
  "expr_ok expr r \<longleftrightarrow> (\<forall>p st. 1 \<le> p \<longrightarrow> ok st \<longrightarrow> length (rest st) < r \<longrightarrow>
     spec st (expr p st) (reads st (\<lambda>us e st'. expression_tokens p us e \<and> stops p st')))"

lemma expr_okD:
  "expr_ok expr r \<Longrightarrow> ok st \<Longrightarrow> length (rest st) < r \<Longrightarrow> 1 \<le> p \<Longrightarrow>
   spec st (expr p st) (reads st (\<lambda>us e st'. expression_tokens p us e \<and> stops p st'))"
  by (simp add: expr_ok_def)

lemma parse_arguments_spec:
  "expr_ok expr r \<Longrightarrow> ok st \<Longrightarrow> length (rest st) < r \<Longrightarrow> length (rest st) < n \<Longrightarrow>
   spec st (parse_arguments expr n args st) (reads st (\<lambda>us as _. \<exists>es. as = args @ es \<and> arguments_tokens us es))"
proof (induction n arbitrary: args st)
  case (Suc n)
  show ?case
    unfolding parse_arguments.simps
    apply (rule spec_bind_reads, rule expr_okD [OF Suc.prems(1-3) order.refl])
    apply (rule spec_match, erule run_ok, simp; simp only: if_True if_False)
     apply (rule spec_tail, rule Suc.IH [OF Suc.prems(1)], erule run_ok)
       apply (use Suc.prems in \<open>auto dest!: run_len\<close>) [2]
     apply (auto simp: reads_def intro: arguments_more) [1]
    apply (rule spec_return, erule run_ok)
    apply (auto simp: reads_def intro: arguments_last) [1]
    done
qed simp

text \<open>The methods below start after a token of the base expression or an opening bracket.\<close>

lemma parse_call_spec:
  assumes "expr_ok expr r" "ok st" "length (rest st) < r" "length (rest st) < n"
  shows "spec st (parse_call expr n callee st)
    (\<lambda>us es e _. es = [] \<longrightarrow> (\<exists>as args rp. us = as @ [rp] \<and> tk_kind rp = TkRightParen \<and>
        (as = [] \<and> args = [] \<or> arguments_tokens as args) \<and> e = ECall callee args (span_to callee rp)))"
proof -
  have args: "spec st (if check TkRightParen st then Some ([], st) else parse_arguments expr n [] st)
      (\<lambda>us es args _. es = [] \<longrightarrow> us = [] \<and> args = [] \<or> arguments_tokens us args)"
    by (rule spec_if, rule spec_return [OF assms(2)], simp,
        rule spec_tail [OF parse_arguments_spec [OF assms]]) auto
  show ?thesis
    unfolding parse_call_def
    apply (rule spec_bind, rule args)
    apply (rule spec_consume, erule run_ok, simp)
    apply (rule spec_return, erule run_ok)
    apply auto
    done
qed

lemma parse_field_spec:
  assumes "ok st" "\<And>us es e st1. run st us es st1 \<Longrightarrow>
     es = [] \<longrightarrow> (\<exists>f. us = [f] \<and> tk_kind f = TkIdentifier \<and>
        e = EField ob (ident_of f) (span_to ob f)) \<Longrightarrow>
     spec st1 (f e st1) (\<lambda>vs fs. Q (us @ vs) (es @ fs))"
  shows "spec st (Let (parse_field ob st) (case_prod f)) Q"
proof -
  have eq: "Let (parse_field ob st) (case_prod f) =
      Let (parse_identifier ''Expected field name after '.'.'' st) (\<lambda>(field, st). f (EField ob field
        (span_from_positions (span_start (expression_span ob)) (span_end (id_span field)))) st)"
    by (simp add: parse_field_def Let_def split: prod.splits)
  show ?thesis
    unfolding eq by (rule spec_identifier [OF assms(1)], rule assms(2)) (auto simp: span_to_def)
qed

lemma recover_spec:
  assumes "ok st" "length (rest st) < n"
    "\<And>us es t st1. run st us es st1 \<Longrightarrow> spec st1 (f t st1) (\<lambda>vs fs. Q (us @ vs) (es @ fs))"
  shows "spec st (Option.bind (recover_to_right_bracket n st) (case_prod f)) Q"
proof -
  have eq: "Option.bind (recover_to_right_bracket n st) (case_prod f) =
      Option.bind (skip_until TkRightBracket n st) (\<lambda>st.
        Let (consume TkRightBracket ''Expected ']' after sub-slice expression.'' st) (case_prod f))"
    by (simp add: recover_to_right_bracket_def)
  show ?thesis
    unfolding eq
    apply (rule spec_bind_skip, rule skip_until_skips [OF assms(1,2)])
    apply (rule spec_consume, erule run_ok, simp)
    apply (drule (1) run_trans)
    apply (drule assms(3))
    apply simp
    done
qed

lemma parse_index_spec:
  assumes "expr_ok expr r" "ok st" "length (rest st) < r" "length (rest st) < n"
  shows "spec st (parse_index expr n ob st)
    (\<lambda>us es e _. es = [] \<longrightarrow>
      (\<exists>is i rb. us = is @ [rb] \<and> expression_tokens 1 is i \<and> tk_kind rb = TkRightBracket \<and>
         e = EIndex ob i (span_to ob rb)) \<or>
      (\<exists>is i dd js j rb. us = is @ dd # js @ [rb] \<and> expression_tokens 1 is i \<and> tk_kind dd = TkDotDot \<and>
         expression_tokens 1 js j \<and> tk_kind rb = TkRightBracket \<and> e = ESubslice ob i j (span_to ob rb)))"
  unfolding parse_index_def
  apply (rule spec_if)
   apply (rule spec_let)
   apply (rule spec_report [OF assms(2), of "current st" "lit ''Sub-slice start expression is required.''"])
   apply (rule recover_spec, erule run_ok)
    apply (use assms(4) in \<open>auto dest!: run_len\<close>) [1]
   apply (rule spec_return, erule run_ok, simp)
  apply (rule spec_bind_reads, rule expr_okD [OF assms(1-3) order.refl])
  apply (rule spec_match, erule run_ok, simp; simp only: not_True_eq_False not_False_eq_True if_True if_False)
   apply (rule spec_if)
    apply (rule spec_let)
    apply (rule spec_tail, rule spec_error_bump [where G = "\<lambda>_ _ _. False"], rule ok_bump, erule run_ok, simp)
   apply (rule spec_bind_reads, rule expr_okD [OF assms(1)], rule ok_bump, erule run_ok)
     apply (use assms(3) in \<open>auto dest!: run_len\<close>) [2]
   apply (rule spec_if)
    apply (rule spec_let)
    apply (rule spec_report, erule run_ok, rule recover_spec, erule run_ok)
     apply (use assms(4) in \<open>auto dest!: run_len\<close>) [1]
    apply (rule spec_return, erule run_ok, simp)
   apply (rule spec_consume, erule run_ok, simp)
   apply (rule spec_return, erule run_ok)
   apply fastforce
  apply (rule spec_consume, erule run_ok, simp)
  apply (rule spec_return, erule run_ok)
  apply auto
  done

lemma span_to_eq:
  "expression_span e = span_of bs \<Longrightarrow> bs \<noteq> [] \<Longrightarrow> span_to e t = span_of (bs @ us @ [t])"
  by (simp add: span_to_def span_of_eq span_from_positions_def)

lemma postfix_span: "postfix_tokens bs e \<Longrightarrow> span_to e t = span_of (bs @ us @ [t])"
  by (rule span_to_eq) (auto dest: expression_tokens_span(3))

text \<open>What one more suffix makes of a base expression.\<close>

lemma postfix_extend:
  assumes "postfix_tokens bs b"
  shows "tk_kind lp = TkLeftParen \<Longrightarrow> as = [] \<and> args = [] \<or> arguments_tokens as args \<Longrightarrow> tk_kind rp = TkRightParen \<Longrightarrow>
      postfix_tokens (bs @ lp # as @ [rp]) (ECall b args (span_to b rp))"
    "tk_kind d = TkDot \<Longrightarrow> tk_kind f = TkIdentifier \<Longrightarrow> postfix_tokens (bs @ [d, f]) (EField b (ident_of f) (span_to b f))"
    "tk_kind lb = TkLeftBracket \<Longrightarrow> expression_tokens 1 is i \<Longrightarrow> tk_kind rb = TkRightBracket \<Longrightarrow>
      postfix_tokens (bs @ lb # is @ [rb]) (EIndex b i (span_to b rb))"
    "tk_kind lb = TkLeftBracket \<Longrightarrow> expression_tokens 1 is i \<Longrightarrow> tk_kind dd = TkDotDot \<Longrightarrow> expression_tokens 1 js j \<Longrightarrow>
      tk_kind rb = TkRightBracket \<Longrightarrow>
      postfix_tokens (bs @ lb # is @ dd # js @ [rb]) (ESubslice b i j (span_to b rb))"
  using postfix_call [OF assms _ _ _ refl, of lp as args rp] postfix_call_empty [OF assms _ _ refl, of lp rp]
    postfix_field [OF assms _ _ refl, of d f] postfix_index [OF assms _ _ _ refl, of lb "is" i rb]
    postfix_subslice [OF assms _ _ _ _ _ refl, of lb "is" i dd js j rb]
    postfix_span [OF assms, of rp "lp # as"] postfix_span [OF assms, of f "[d]"]
    postfix_span [OF assms, of rb "lb # is"] postfix_span [OF assms, of rb "lb # is @ dd # js"]
  by auto

text \<open>The tokens \<open>us\<close> after a bracket or dot of kind \<open>k\<close> make \<open>e\<close> of the base \<open>b\<close>.\<close>

definition extends :: "token_kind \<Rightarrow> expression \<Rightarrow> token list \<Rightarrow> expression \<Rightarrow> bool" where
  "extends k b us e \<longleftrightarrow>
     (\<forall>bs t. postfix_tokens bs b \<longrightarrow> tk_kind t = k \<longrightarrow> postfix_tokens (bs @ t # us) e)"

lemma extendsD:
  "extends k b us x \<Longrightarrow> tk_kind t = k \<Longrightarrow> postfix_tokens bs b \<Longrightarrow> \<forall>bs. postfix_tokens bs x \<longrightarrow> postfix_tokens (bs @ vs) e \<Longrightarrow>
   postfix_tokens (bs @ t # us @ vs) e"
  unfolding extends_def by (metis append.assoc append_Cons)

lemma parse_call_extends:
  assumes "expr_ok expr r" "ok st" "length (rest st) < r" "length (rest st) < n"
  shows "spec st (parse_call expr n b st) (\<lambda>us es e _. es = [] \<longrightarrow> extends TkLeftParen b us e)"
  by (rule spec_mono [OF parse_call_spec [OF assms]]) (auto simp: extends_def dest: postfix_extend(1))

lemma parse_index_extends:
  assumes "expr_ok expr r" "ok st" "length (rest st) < r" "length (rest st) < n"
  shows "spec st (parse_index expr n b st) (\<lambda>us es e _. es = [] \<longrightarrow> extends TkLeftBracket b us e)"
  by (rule spec_mono [OF parse_index_spec [OF assms]]) (auto simp: extends_def dest: postfix_extend(3,4))

lemma parse_field_extends:
  assumes "ok st" "\<And>us es e st1. run st us es st1 \<Longrightarrow> es = [] \<longrightarrow> extends TkDot b us e \<Longrightarrow>
     spec st1 (f e st1) (\<lambda>vs fs. Q (us @ vs) (es @ fs))"
  shows "spec st (Let (parse_field b st) (case_prod f)) Q"
  by (rule parse_field_spec [OF assms(1)], rule assms(2)) (auto simp: extends_def dest: postfix_extend(2))

lemma parse_postfix_spec:
  "expr_ok expr r \<Longrightarrow> ok st \<Longrightarrow> length (rest st) \<le> r \<Longrightarrow> length (rest st) < n \<Longrightarrow>
   spec st (parse_postfix_expression expr n b st) (\<lambda>us es e st'. es = [] \<longrightarrow>
     tk_kind (current st') \<notin> {TkLeftParen, TkDot, TkLeftBracket} \<and>
     (\<forall>bs. postfix_tokens bs b \<longrightarrow> postfix_tokens (bs @ us) e))"
proof (induction n arbitrary: b st)
  case (Suc n)
  note IH = Suc.IH [OF Suc.prems(1)]
  show ?case
    unfolding parse_postfix_expression.simps
    apply (rule spec_if)
     apply (rule spec_take [OF Suc.prems(2)], assumption, simp)
     apply (rule spec_bind, rule parse_call_extends [OF Suc.prems(1)], erule run_ok)
       apply (use Suc.prems in \<open>auto dest!: run_len\<close>) [2]
     apply (rule spec_mono, rule IH, erule run_ok)
       apply (use Suc.prems in \<open>auto dest!: run_len\<close>) [2]
     apply (auto intro: extendsD) [1]
    apply (rule spec_if)
     apply (rule spec_take [OF Suc.prems(2)], assumption, simp)
     apply (rule parse_field_extends, erule run_ok)
     apply (rule spec_mono, rule IH, erule run_ok)
       apply (use Suc.prems in \<open>auto dest!: run_len\<close>) [2]
     apply (auto intro: extendsD) [1]
    apply (rule spec_if)
     apply (rule spec_take [OF Suc.prems(2)], assumption, simp)
     apply (rule spec_bind, rule parse_index_extends [OF Suc.prems(1)], erule run_ok)
       apply (use Suc.prems in \<open>auto dest!: run_len\<close>) [2]
     apply (rule spec_mono, rule IH, erule run_ok)
       apply (use Suc.prems in \<open>auto dest!: run_len\<close>) [2]
     apply (auto intro: extendsD) [1]
    apply (rule spec_return [OF Suc.prems(2)])
    apply (auto simp: check_def)
    done
qed simp

lemma parse_slice_constructor_spec:
  assumes "expr_ok expr r" "ok st" "length (rest st) < r"
  shows "spec st (parse_slice_constructor expr t st)
    (\<lambda>us es e _. es = [] \<longrightarrow> tk_kind t = TkSlice \<longrightarrow> postfix_tokens (t # us) e)"
  unfolding parse_slice_constructor_def
  apply (rule spec_consume [OF assms(2)], simp)
  apply (rule spec_bind_reads, rule expr_okD [OF assms(1)], erule run_ok)
    apply (use assms(3) in \<open>auto dest!: run_len\<close>) [2]
  apply (rule spec_consume, erule run_ok, simp)
  apply (rule spec_bind_reads, rule expr_okD [OF assms(1)], erule run_ok)
    apply (use assms(3) in \<open>auto dest!: run_len\<close>) [2]
  apply (rule spec_consume, erule run_ok, simp)
  apply (rule spec_return, erule run_ok)
  apply (auto intro!: primary_slice [OF _ _ _ _ _ _ refl, unfolded span_of_def, simplified])
  done

lemma parse_parenthesized_spec:
  assumes "expr_ok expr r" "ok st" "length (rest st) < r"
  shows "spec st (parse_parenthesized expr t st)
    (\<lambda>us es e _. es = [] \<longrightarrow> tk_kind t = TkLeftParen \<longrightarrow> postfix_tokens (t # us) e)"
  unfolding parse_parenthesized_def
  apply (rule spec_bind_reads, rule expr_okD [OF assms(1-3) order.refl])
  apply (rule spec_consume, erule run_ok, simp)
  apply (rule spec_return, erule run_ok)
  apply (auto intro!: primary_parenthesized [OF _ _ _ refl, unfolded span_of_def, simplified])
  done

lemma parse_primary_spec:
  assumes "expr_ok expr r" "ok st" "length (rest st) \<le> r"
  shows "spec st (parse_primary_expression expr st) (reads st (\<lambda>us e _. postfix_tokens us e))"
  unfolding parse_primary_expression_def
  apply (rule spec_let, rule spec_if)
   apply (rule spec_token [OF assms(2), of TkInteger], simp, simp, simp add: span_from_token_of primary_integer)
  apply (rule spec_if)
   apply (rule spec_token [OF assms(2), of TkFloat], simp, simp, simp add: span_from_token_of primary_float)
  apply (rule spec_if)
   apply (rule spec_token [OF assms(2) _ refl], force, simp add: span_from_token_of primary_bool)
  apply (rule spec_if)
   apply (rule spec_token [OF assms(2), of TkIdentifier], simp, simp, simp add: span_from_token_of primary_identifier)
  apply (rule spec_if)
   apply (rule spec_take [OF assms(2), of TkSlice], simp add: check_def, simp)
   apply (rule spec_mono, rule parse_slice_constructor_spec [OF assms(1)], erule run_ok)
    apply (use assms(3) in \<open>auto dest!: run_len\<close>) [1]
   apply (simp add: reads_def)
  apply (rule spec_if)
   apply (rule spec_take [OF assms(2), of TkLeftParen], simp add: check_def, simp)
   apply (rule spec_mono, rule parse_parenthesized_spec [OF assms(1)], erule run_ok)
    apply (use assms(3) in \<open>auto dest!: run_len\<close>) [1]
   apply (simp add: reads_def)
  apply (rule spec_error_bump [OF assms(2)])
  done

text \<open>An expression of level 7 has no binary operator at its top.\<close>

lemma binary_precedence_7: "\<not> 7 \<le> binary_precedence k"
  by (cases k) (simp_all add: binary_precedence_def)

lemma expression_7: "expression_tokens 7 ts e \<Longrightarrow> unary_tokens ts e"
  by (cases rule: expression_tokens.cases) (use binary_precedence_7 in blast)+

lemma unary_step:
  assumes "tk_kind op \<in> {TkBang, TkMinus}" "unary_tokens us e"
  shows "unary_tokens (op # us) (EUnary (tk_text op) e
    (span_from_positions (position_from_token op) (span_end (expression_span e))))"
  using unary_prefix [OF assms] expression_tokens_span(2) [OF assms(2)] by (simp add: span_of_eq span_from_positions_def)

definition no_postfix :: "parser \<Rightarrow> bool" where
  "no_postfix st \<longleftrightarrow> tk_kind (current st) \<notin> {TkLeftParen, TkDot, TkLeftBracket}"

lemma stops_iff: "stops p st \<longleftrightarrow> binary_precedence (tk_kind (current st)) < p \<and> no_postfix st"
  by (auto simp: stops_def no_postfix_def)

lemma parse_unary_spec:
  assumes "expr_ok expr r" "ok st" "length (rest st) \<le> r" "length (rest st) < n"
  shows "spec st (parse_unary_expression expr n st)
    (reads st (\<lambda>us e st'. unary_tokens us e \<and> no_postfix st'))"
proof -
  have prefix: "spec st (do {
          let operator = current st;
          (operand, st) \<leftarrow> expr 7 (bump st);
          Some (EUnary (tk_text operator) operand
            (span_from_positions (position_from_token operator) (span_end (expression_span operand))), st)
        }) (reads st (\<lambda>us e st'. unary_tokens us e \<and> no_postfix st'))"
    if k: "check k st" "k \<in> {TkBang, TkMinus}" for k
    apply (rule spec_let)
    apply (rule spec_take [OF assms(2) k(1)], use k(2) in force)
    apply (rule spec_bind_reads, rule expr_okD [OF assms(1)], erule run_ok)
      apply (use assms(3) in \<open>auto dest!: run_len\<close>) [2]
    apply (rule spec_return, erule run_ok)
    apply (use k(2) in \<open>simp add: reads_def stops_iff\<close>)
    apply (auto intro: unary_step expression_7)
    done
  show ?thesis
    unfolding parse_unary_expression_def
    apply (rule spec_if)
     apply (erule disjE; rule prefix, assumption, simp)
    apply (rule spec_bind_reads, rule parse_primary_spec [OF assms(1-3)])
    apply (rule spec_mono, rule parse_postfix_spec [OF assms(1)], erule run_ok)
      apply (use assms(3,4) in \<open>auto dest!: run_len\<close>) [2]
    apply (auto simp: reads_def no_postfix_def intro: unary_postfix)
    done
qed

lemma expression_mono: "expression_tokens q ts e \<Longrightarrow> p \<le> q \<Longrightarrow> expression_tokens p ts e"
  by (cases rule: expression_tokens.cases) (auto intro: expression_unary expression_binary)

lemma binary_step:
  assumes "expression_tokens q bs l" "binary_precedence (tk_kind op) \<le> q" "p \<le> binary_precedence (tk_kind op)" "0 < p"
    "expression_tokens (binary_precedence (tk_kind op) + 1) us r"
  shows "expression_tokens (binary_precedence (tk_kind op)) (bs @ op # us) (EBinary (tk_text op) l r
      (span_from_positions (span_start (expression_span l)) (span_end (expression_span r))))"
proof -
  let ?q = "binary_precedence (tk_kind op)"
  have "expression_tokens ?q bs l" using assms(1,2) by (rule expression_mono)
  from expression_binary [OF this refl _ order.refl assms(5)] assms(3,4)
  have "expression_tokens ?q (bs @ op # us) (EBinary (tk_text op) l r (span_of (bs @ op # us)))" by simp
  moreover have "span_from_positions (span_start (expression_span l)) (span_end (expression_span r)) =
      span_of (bs @ op # us)"
    using expression_tokens_span(1) [OF assms(1)] expression_tokens_span(1) [OF assms(5)]
    by (simp add: span_of_eq span_from_positions_def)
  ultimately show ?thesis by simp
qed

text \<open>The tokens \<open>us\<close>, whose first has precedence \<open>c\<close>, make \<open>e\<close> of the left operand.\<close>

definition closes :: "nat \<Rightarrow> expression \<Rightarrow> nat \<Rightarrow> token list \<Rightarrow> expression \<Rightarrow> bool" where
  "closes p left c us e \<longleftrightarrow>
     (\<forall>q bs. expression_tokens q bs left \<longrightarrow> p \<le> q \<longrightarrow> c \<le> q \<longrightarrow> expression_tokens p (bs @ us) e)"

lemma closes_none: "closes p left c [] left"
  by (auto simp: closes_def intro: expression_mono)

lemma closes_step:
  assumes "1 \<le> p" "p \<le> binary_precedence (tk_kind op)" "expression_tokens (binary_precedence (tk_kind op) + 1) us r"
    "c < binary_precedence (tk_kind op) + 1"
    "closes p (EBinary (tk_text op) left r
      (span_from_positions (span_start (expression_span left)) (span_end (expression_span r)))) c vs e"
  shows "closes p left (binary_precedence (tk_kind op)) (op # us @ vs) e"
  unfolding closes_def
proof (intro allI impI)
  fix q bs
  assume l: "expression_tokens q bs left" and q: "binary_precedence (tk_kind op) \<le> q"
  have "0 < p" "c \<le> binary_precedence (tk_kind op)" using assms(1,4) by simp_all
  from assms(5) [unfolded closes_def, rule_format, OF binary_step [OF l q assms(2) this(1) assms(3)] assms(2) this(2)]
  show "expression_tokens p (bs @ op # us @ vs) e" by simp
qed

lemma closes_unary: "unary_tokens us x \<Longrightarrow> closes p x c vs e \<Longrightarrow> expression_tokens p (us @ vs) e"
  unfolding closes_def using expression_unary [of us x "max p c"] by auto

lemma parse_binary_loop_spec:
  "expr_ok expr r \<Longrightarrow> ok st \<Longrightarrow> length (rest st) \<le> r \<Longrightarrow> length (rest st) < n \<Longrightarrow> 1 \<le> p \<Longrightarrow>
   spec st (parse_binary_loop expr n p left st) (\<lambda>us es e st'. es = [] \<longrightarrow> no_postfix st \<longrightarrow>
     stops p st' \<and> closes p left (binary_precedence (tk_kind (current st))) us e)"
proof (induction n arbitrary: left st)
  case (Suc n)
  note IH = Suc.IH [OF Suc.prems(1)]
  show ?case
    unfolding parse_binary_loop.simps
    apply (rule spec_let, rule spec_let, rule spec_if)
     apply (rule spec_return [OF Suc.prems(2)])
     apply (simp add: stops_iff closes_none) [1]
    apply (rule spec_take [OF Suc.prems(2), of "tk_kind (current st)"])
      apply (simp add: check_def)
     apply (use Suc.prems(5) in \<open>auto simp: binary_precedence_def split: token_kind.splits\<close>) [1]
    apply (rule spec_bind_reads, rule expr_okD [OF Suc.prems(1)], erule run_ok)
      apply (use Suc.prems(3) in \<open>auto dest!: run_len\<close>) [2]
    apply (rule spec_mono, rule IH, erule run_ok)
       apply (use Suc.prems in \<open>auto dest!: run_len\<close>) [3]
    apply (auto simp: stops_iff not_less intro: closes_step [OF Suc.prems(5)])
    done
qed simp

lemma parse_expression_spec:
  "ok st \<Longrightarrow> length (rest st) + 1 < n \<Longrightarrow> 1 \<le> p \<Longrightarrow>
   spec st (parse_expression n p st) (reads st (\<lambda>us e st'. expression_tokens p us e \<and> stops p st'))"
proof (induction n arbitrary: p st)
  case (Suc n)
  have ok: "expr_ok (parse_expression n) (n - 1)"
    using Suc.IH by (auto simp: expr_ok_def)
  have le: "length (rest st) \<le> n - 1" "length (rest st) < n" using Suc.prems by simp_all
  show ?case
    unfolding parse_expression.simps
    apply (rule spec_bind_reads, rule parse_unary_spec [OF ok Suc.prems(1) le])
    apply (rule spec_mono, rule parse_binary_loop_spec [OF ok], erule run_ok)
       apply (use le Suc.prems in \<open>auto dest!: run_len\<close>) [3]
    apply (auto simp: reads_def intro: closes_unary)
    done
qed simp

end
