(* ===== verification/Parser_Sound_Items.thy ===== *)
theory Parser_Sound_Items
  imports Parser_Sound
begin

text \<open>
  The judgement of \<open>Parser_Sound\<close> for the methods that parse statements and declarations, up to
  the whole program.
\<close>

section \<open>Statements\<close>

definition block_ok :: "block_parser \<Rightarrow> nat \<Rightarrow> bool" where
  "block_ok block r \<longleftrightarrow> (\<forall>st. ok st \<longrightarrow> length (rest st) < r \<longrightarrow>
     spec st (block st) (\<lambda>us es b _. (check TkLeftBrace st \<longrightarrow> us \<noteq> []) \<and> (es = [] \<longrightarrow> block_tokens us b)))"

lemma block_okD:
  "block_ok block r \<Longrightarrow> ok st \<Longrightarrow> length (rest st) < r \<Longrightarrow>
   spec st (block st) (\<lambda>us es b _. (check TkLeftBrace st \<longrightarrow> us \<noteq> []) \<and> (es = [] \<longrightarrow> block_tokens us b))"
  by (simp add: block_ok_def)

text \<open>Statements start with a token they take, so each of them moves.\<close>

definition takes :: "(token list \<Rightarrow> 'a \<Rightarrow> bool) \<Rightarrow> 'a post" where
  "takes G = (\<lambda>us es x _. us \<noteq> [] \<and> (es = [] \<longrightarrow> G us x))"

lemma parse_let_spec:
  assumes "ok st" "check TkLet st" "length (rest st) + 1 < n"
  shows "spec st (parse_let_statement n st) (takes statement_tokens)"
  unfolding parse_let_statement_def
  apply (rule spec_consume_checked [OF assms(1,2)], simp)
  apply (rule spec_identifier, erule run_ok)
  apply (rule spec_consume, erule run_ok, simp)
  apply (rule spec_bind_reads, rule parse_type_spec, erule run_ok)
   apply (use assms(3) in \<open>auto dest!: run_len\<close>) [1]
  apply (rule spec_consume, erule run_ok, simp)
  apply (rule spec_bind_reads, rule parse_expression_spec, erule run_ok)
    apply (use assms(3) in \<open>auto dest!: run_len\<close>) [1]
   apply simp
  apply (rule spec_consume, erule run_ok, simp)
  apply (rule spec_return, erule run_ok)
  apply (auto simp: takes_def intro!: statement_let [OF _ _ _ _ _ _ _ refl, unfolded span_of_def, simplified])
  done

lemma expression_span_of: "expression_tokens p us e \<Longrightarrow> span_to e t = span_of (us @ vs @ [t])"
  by (rule span_to_eq) (auto dest: expression_tokens_span(1))

lemma assignment_step:
  assumes "expression_tokens 1 xs x" "tk_kind eq = TkEqual" "expression_tokens 1 es e" "tk_kind s = TkSemicolon"
  shows "statement_tokens (xs @ eq # es @ [s]) (StAssignment x e (span_to x s))"
  using statement_assignment [OF assms refl] expression_span_of [OF assms(1), of s "eq # es"] by simp

lemma call_step:
  assumes "expression_tokens 1 es e" "is_call e" "tk_kind s = TkSemicolon"
  shows "statement_tokens (es @ [s]) (StCall e (span_to e s))"
  using statement_call [OF assms] expression_span_of [OF assms(1), of s "[]"] by simp

lemma parse_assignment_or_call_spec:
  assumes "ok st" "rest st \<noteq> []" "length (rest st) + 1 < n"
  shows "spec st (parse_assignment_or_call_statement n st) (takes statement_tokens)"
  unfolding parse_assignment_or_call_statement_def
  apply (rule spec_let)
  apply (rule spec_bind_reads, rule parse_expression_spec [OF assms(1,3) order.refl])
  apply (rule spec_match, erule run_ok, simp; simp only: if_True if_False)
   apply (rule spec_bind_reads, rule parse_expression_spec, rule ok_bump, erule run_ok)
     apply (use assms(3) in \<open>auto dest!: run_len\<close>) [1]
    apply simp
   apply (rule spec_consume, erule run_ok, simp)
   apply (rule spec_return, erule run_ok)
   apply (auto simp: takes_def assms(2) intro: assignment_step) [1]
  apply (rule spec_if)
   apply (rule spec_consume, erule run_ok, simp)
   apply (rule spec_return, erule run_ok)
   apply (auto simp: takes_def assms(2) intro: call_step) [1]
  apply (rule spec_let)
  apply (rule spec_report, erule run_ok, rule spec_bind_skip, rule synchronize_statement_skips, erule run_ok)
   apply (use assms(3) in \<open>auto dest!: run_len\<close>) [1]
  apply (rule spec_return, erule run_ok)
  apply (simp add: takes_def assms(2))
  done

lemma parse_return_spec:
  assumes "ok st" "check TkReturn st" "length (rest st) + 1 < n"
  shows "spec st (parse_return_statement n st) (takes statement_tokens)"
proof -
  have opt: "spec st1 (if check TkSemicolon st1 \<and> \<not> lex_error_before_semicolon t st1 then Some (None, st1)
      else do { (e, st) \<leftarrow> parse_expression n 1 st1; Some (Some e, st) })
    (\<lambda>us es r _. es = [] \<longrightarrow> r = None \<and> us = [] \<or> (\<exists>e. r = Some e \<and> expression_tokens 1 us e))"
    if "ok st1" "length (rest st1) + 1 < n" for st1 t
    apply (rule spec_if, rule spec_return [OF that(1)], simp)
    apply (rule spec_bind_reads, rule parse_expression_spec [OF that order.refl])
    apply (rule spec_return, erule run_ok, simp)
    done
  show ?thesis
    unfolding parse_return_statement_def
    apply (rule spec_consume_checked [OF assms(1,2)], simp)
    apply (rule spec_bind, rule opt, erule run_ok)
     apply (use assms(3) in \<open>auto dest!: run_len\<close>) [1]
    apply (rule spec_consume, erule run_ok, simp)
    apply (rule spec_return, erule run_ok)
    apply (auto simp: takes_def intro!: statement_return [unfolded span_of_def, simplified]
      statement_return_value [unfolded span_of_def, simplified])
    done
qed

lemma parse_break_spec:
  assumes "ok st" "check TkBreak st"
  shows "spec st (Some (parse_break_statement st)) (takes statement_tokens)"
proof -
  have eq: "Some (parse_break_statement st) =
    (let (t, st) = consume TkBreak ''Expected 'break'.'' st;
          (semicolon, st) = consume TkSemicolon ''Expected ';' after 'break'.'' st
      in Some (StBreak (span_between_tokens t semicolon), st))"
    by (simp add: parse_break_statement_def case_prod_beta)
  show ?thesis
    unfolding eq
    apply (rule spec_consume_checked [OF assms], simp)
    apply (rule spec_consume, erule run_ok, simp)
    apply (rule spec_return, erule run_ok)
    apply (auto simp: takes_def intro!: statement_break [unfolded span_of_def, simplified])
    done
qed

lemma parse_continue_spec:
  assumes "ok st" "check TkContinue st"
  shows "spec st (Some (parse_continue_statement st)) (takes statement_tokens)"
proof -
  have eq: "Some (parse_continue_statement st) =
    (let (t, st) = consume TkContinue ''Expected 'continue'.'' st;
          (semicolon, st) = consume TkSemicolon ''Expected ';' after 'continue'.'' st
      in Some (StContinue (span_between_tokens t semicolon), st))"
    by (simp add: parse_continue_statement_def case_prod_beta)
  show ?thesis
    unfolding eq
    apply (rule spec_consume_checked [OF assms], simp)
    apply (rule spec_consume, erule run_ok, simp)
    apply (rule spec_return, erule run_ok)
    apply (auto simp: takes_def intro!: statement_continue [unfolded span_of_def, simplified])
    done
qed

text \<open>The span of a node that ends with a block.\<close>

lemma span_to_block:
  "block_tokens bs b \<Longrightarrow> span_from_positions (position_from_token t) (span_end (block_span b)) = span_of (t # us @ bs)"
  by (drule block_tokens_span) (simp add: span_of_eq span_from_positions_def)

lemma unsafe_step:
  "tk_kind u = TkUnsafe \<Longrightarrow> block_tokens bs b \<Longrightarrow>
   statement_tokens (u # bs) (StUnsafe b (span_from_positions (position_from_token u) (span_end (block_span b))))"
  using statement_unsafe [of u bs b] span_to_block [of bs b u "[]"] by simp

lemma if_step:
  "tk_kind i = TkIf \<Longrightarrow> expression_tokens 1 cs c \<Longrightarrow> block_tokens bs b \<Longrightarrow>
   statement_tokens (i # cs @ bs)
     (StIf c b None (span_from_positions (position_from_token i) (span_end (block_span b))))"
  using statement_if [of i cs c bs b] span_to_block [of bs b i cs] by simp

lemma if_else_step:
  "tk_kind i = TkIf \<Longrightarrow> expression_tokens 1 cs c \<Longrightarrow> block_tokens bs b \<Longrightarrow> tk_kind el = TkElse \<Longrightarrow> block_tokens es e \<Longrightarrow>
   statement_tokens (i # cs @ bs @ el # es)
     (StIf c b (Some e) (span_from_positions (position_from_token i) (span_end (block_span e))))"
  using statement_if_else [of i cs c bs b el es e] span_to_block [of es e i "cs @ bs @ [el]"] by simp

lemma while_step:
  "tk_kind w = TkWhile \<Longrightarrow> expression_tokens 1 cs c \<Longrightarrow> block_tokens bs b \<Longrightarrow>
   statement_tokens (w # cs @ bs)
     (StWhile c b (span_from_positions (position_from_token w) (span_end (block_span b))))"
  using statement_while [of w cs c bs b] span_to_block [of bs b w cs] by simp

lemma parse_unsafe_spec:
  assumes "ok st" "check TkUnsafe st" "block_ok block r" "length (rest st) \<le> r"
  shows "spec st (parse_unsafe_statement block st) (takes statement_tokens)"
  unfolding parse_unsafe_statement_def
  apply (rule spec_let, rule spec_take [OF assms(1,2)], simp)
  apply (rule spec_bind, rule block_okD [OF assms(3)], erule run_ok)
   apply (use assms(4) in \<open>auto dest!: run_len\<close>) [1]
  apply (rule spec_return, erule run_ok)
  apply (auto simp: takes_def intro: unsafe_step)
  done

lemma parse_while_spec:
  assumes "ok st" "check TkWhile st" "block_ok block r" "length (rest st) \<le> r" "length (rest st) + 1 < n"
  shows "spec st (parse_while_statement block n st) (takes statement_tokens)"
  unfolding parse_while_statement_def
  apply (rule spec_consume_checked [OF assms(1,2)], simp)
  apply (rule spec_bind_reads, rule parse_expression_spec, erule run_ok)
    apply (use assms(5) in \<open>auto dest!: run_len\<close>) [1]
   apply simp
  apply (rule spec_bind, rule block_okD [OF assms(3)], erule run_ok)
   apply (use assms(4) in \<open>auto dest!: run_len\<close>) [1]
  apply (rule spec_return, erule run_ok)
  apply (auto simp: takes_def intro: while_step)
  done

lemma parse_if_spec:
  assumes "ok st" "check TkIf st" "block_ok block r" "length (rest st) \<le> r" "length (rest st) + 1 < n"
  shows "spec st (parse_if_statement block n st) (takes statement_tokens)"
proof -
  have opt: "spec st1 (if matched then do { (b, st) \<leftarrow> block st1; Some (Some b, st) } else Some (None, st1))
    (\<lambda>us es r _. es = [] \<longrightarrow> (if matched then (\<exists>e. r = Some e \<and> block_tokens us e) else r = None \<and> us = []))"
    if "ok st1" "length (rest st1) < r" for st1 matched
    apply (rule spec_if)
     apply (rule spec_bind, rule block_okD [OF assms(3) that])
     apply (rule spec_return, erule run_ok, simp)
    apply (rule spec_return [OF that(1)], simp)
    done
  show ?thesis
    unfolding parse_if_statement_def
    apply (rule spec_consume_checked [OF assms(1,2)], simp)
    apply (rule spec_bind_reads, rule parse_expression_spec, erule run_ok)
      apply (use assms(5) in \<open>auto dest!: run_len\<close>) [1]
     apply simp
    apply (rule spec_bind, rule block_okD [OF assms(3)], erule run_ok)
     apply (use assms(4) in \<open>auto dest!: run_len\<close>) [1]
    apply (rule spec_match, erule run_ok, simp)
     apply (rule spec_bind, rule opt, rule ok_bump, erule run_ok)
      apply (use assms(4) in \<open>auto dest!: run_len\<close>) [1]
     apply (rule spec_let, rule spec_return, erule run_ok)
     apply (auto simp: takes_def intro: if_else_step) [1]
    apply (rule spec_bind, rule opt, erule run_ok)
     apply (use assms(4) in \<open>auto dest!: run_len\<close>) [1]
    apply (rule spec_let, rule spec_return, erule run_ok)
    apply (auto simp: takes_def intro: if_step) [1]
    done
qed

lemma parse_statement_spec:
  assumes "ok st" "rest st \<noteq> []" "block_ok block r" "length (rest st) + 1 < n"
    "length (rest st) \<le> r" "check TkLeftBrace st \<longrightarrow> length (rest st) < r"
  shows "spec st (parse_statement block n st) (takes statement_tokens)"
proof -
  note r = assms(3,5) and n = assms(4)
  have block: "spec st (do { (b, st) \<leftarrow> block st; Some (StBlock b, st) }) (takes statement_tokens)"
    if "check TkLeftBrace st"
    apply (rule spec_bind, rule block_okD [OF assms(3,1)], use assms(6) that in simp)
    apply (rule spec_return, erule run_ok)
    apply (use that in \<open>auto simp: takes_def intro: statement_block\<close>)
    done
  show ?thesis
    unfolding parse_statement_def
    by (intro spec_if block parse_unsafe_spec [OF assms(1) _ r] parse_let_spec [OF assms(1) _ n]
      parse_return_spec [OF assms(1) _ n] parse_break_spec [OF assms(1)] parse_continue_spec [OF assms(1)]
      parse_if_spec [OF assms(1) _ r n] parse_while_spec [OF assms(1) _ r n]
      parse_assignment_or_call_spec [OF assms(1,2) n])
qed

lemma parse_statements_spec:
  "ok st \<Longrightarrow> block_ok block r \<Longrightarrow> length (rest st) + 2 < n \<Longrightarrow> length (rest st) \<le> r \<Longrightarrow>
   (check TkLeftBrace st \<longrightarrow> length (rest st) < r) \<Longrightarrow>
   spec st (parse_statements block n ss st) (\<lambda>us es ss' st'.
     (check TkRightBrace st' \<or> rest st' = []) \<and>
     (es = [] \<longrightarrow> (\<exists>sts. ss' = ss @ sts \<and> statements_tokens us sts)))"
proof (induction n arbitrary: ss st)
  case (Suc n)
  show ?case
    unfolding parse_statements.simps
    apply (rule spec_if)
     apply (rule spec_return [OF Suc.prems(1)])
     apply (use Suc.prems(1) in \<open>auto simp: check_Eof intro: statements_none\<close>) [1]
    apply (rule spec_bind, rule parse_statement_spec [OF Suc.prems(1) _ Suc.prems(2) _ Suc.prems(4,5)])
      apply (use Suc.prems(1) in \<open>simp add: check_Eof\<close>)
     apply (use Suc.prems(3) in simp)
    apply (rule spec_mono, rule Suc.IH [OF _ Suc.prems(2)], erule run_ok)
       apply (use Suc.prems in \<open>auto simp: takes_def neq_Nil_conv dest!: run_len\<close>) [3]
    apply (auto simp: takes_def intro: statements_more)
    done
qed simp

lemma check_report [simp]: "check k (report t m st) = check k st"
  by (simp add: check_def current_def report_def error_with_code_def)

lemma spec_consume_missing:
  assumes "ok st" "\<not> check k st"
    "\<And>d. run st [] [d] (report (current st) (lit m) st) \<Longrightarrow>
       spec (report (current st) (lit m) st) (f (placeholder k (current st)) (report (current st) (lit m) st))
         (\<lambda>vs fs. Q vs (d # fs))"
  shows "spec st (Let (consume k m st) (case_prod f)) Q"
  using spec_report [OF assms(1,3)] assms(2) by (simp add: consume_def)

lemma parse_block_spec:
  "ok st \<Longrightarrow> length (rest st) + 4 < n \<Longrightarrow>
   spec st (parse_block_statement n st) (\<lambda>us es b _.
     (rest st \<noteq> [] \<longrightarrow> us \<noteq> []) \<and> (es = [] \<longrightarrow> block_tokens us b))"
proof (induction n arbitrary: st)
  case (Suc n)
  have ok: "block_ok (parse_block_statement n) (n - 4)"
    unfolding block_ok_def
  proof (intro allI impI)
    fix st
    assume "ok st" "length (rest st) < n - 4"
    then show "spec st (parse_block_statement n st)
        (\<lambda>us es b _. (check TkLeftBrace st \<longrightarrow> us \<noteq> []) \<and> (es = [] \<longrightarrow> block_tokens us b))"
      by (intro spec_mono [OF Suc.IH]) (auto simp: check_rest)
  qed
  have tail: "spec st1 (do {
       (ss, st) \<leftarrow> parse_statements (parse_block_statement n) n [] st1;
       let (right_brace, st) = consume TkRightBrace ''Expected '}' after block.'' st;
       Some (BlockStatement ss (span_between_tokens lb right_brace), st)
     }) (\<lambda>us es b _. (rest st1 \<noteq> [] \<longrightarrow> us \<noteq> []) \<and>
        (es = [] \<longrightarrow> tk_kind lb = TkLeftBrace \<longrightarrow> block_tokens (lb # us) b))"
    if "ok st1" "length (rest st1) \<le> n - 4" "3 < n" "check TkLeftBrace st1 \<longrightarrow> length (rest st1) < n - 4" for st1 lb
    apply (rule spec_bind, rule parse_statements_spec [OF that(1) ok _ that(2,4)], use that in simp)
    subgoal for us es ss st2
      apply (cases "check TkRightBrace st2")
       apply (rule spec_consume_checked, erule run_ok, assumption, simp)
       apply (rule spec_return, erule run_ok)
       apply (force intro: block_braces [OF _ _ _ refl, unfolded span_of_def, simplified])
      apply (rule spec_consume, erule run_ok, simp)
      apply (rule spec_return, erule run_ok)
      apply (auto dest: run_rest intro!: block_braces [OF _ _ _ refl, unfolded span_of_def, simplified])
      done
    done
  show ?case
  proof (cases "check TkLeftBrace st")
    case True
    show ?thesis
      unfolding parse_block_statement.simps
      apply (rule spec_consume_checked [OF Suc.prems(1) True], simp)
      apply (rule spec_mono, rule tail, erule run_ok)
         apply (use Suc.prems(2) in \<open>auto dest!: run_len\<close>)
      done
  next
    case False
    show ?thesis
      unfolding parse_block_statement.simps
      apply (rule spec_consume_missing [OF Suc.prems(1) False])
      apply (rule spec_mono, rule tail, erule run_ok)
         apply (use Suc.prems(2) False in \<open>auto simp: check_report dest!: run_len\<close>)
      done
  qed
qed simp

section \<open>Struct declarations\<close>

lemma spec_identifier_checked:
  assumes "ok st" "check TkIdentifier st"
    "tk_kind (current st) = TkIdentifier \<Longrightarrow> run st [current st] [] (bump st) \<Longrightarrow>
       spec (bump st) (f (ident_of (current st)) (bump st)) (\<lambda>vs. Q (current st # vs))"
  shows "spec st (Let (parse_identifier m st) (case_prod f)) Q"
  using spec_take [OF assms(1,2), of "f (ident_of (current st)) (bump st)" Q] assms(2,3)
  by (simp add: parse_identifier_def consume_def ident_of_def)

text \<open>A field moves because at least its type does.\<close>

lemma run_current: "ok st \<Longrightarrow> run st [t] es st1 \<Longrightarrow> current st = t"
  by (simp add: current_rest run_rest)

lemma field_step:
  assumes "tk_kind i = TkIdentifier" "tk_kind c = TkColon" "type_tokens tys ty" "tk_kind s = TkSemicolon"
    "struct_fields_tokens us fs"
  shows "struct_fields_tokens (i # c # tys @ s # us)
    (\<lparr>field_name = ident_of i, field_type = ty, field_span = span_between_tokens i s\<rparr> # fs)"
  using fields_more [OF assms(1-4) refl assms(5)] by (simp add: span_of_def)

lemma parse_struct_fields_spec:
  "ok st \<Longrightarrow> length (rest st) + 1 < n \<Longrightarrow>
   spec st (parse_struct_fields n fs st) (\<lambda>us es fs' _. es = [] \<longrightarrow>
     (\<exists>gs. fs' = fs @ gs \<and> struct_fields_tokens us gs))"
proof (induction n arbitrary: fs st)
  case (Suc n)
  show ?case
    unfolding parse_struct_fields.simps
    apply (rule spec_if)
     apply (rule spec_return [OF Suc.prems(1)], simp add: fields_none)
    apply (rule spec_let)
    apply (rule spec_identifier [OF Suc.prems(1)])
    apply (rule spec_consume, erule run_ok, simp)
    apply (rule spec_bind_reads, rule parse_type_spec, erule run_ok)
     apply (use Suc.prems in \<open>auto dest!: run_len\<close>) [1]
    apply (rule spec_consume, erule run_ok, simp)
    apply (rule spec_mono, rule Suc.IH, erule run_ok)
     subgoal premises p for us es i st1 usa esa c st2 usb esb ty st3 usc esc s st4
     proof -
       have "0 < length (rest st)" using p(1) Suc.prems(1) by (simp add: check_Eof)
       moreover have "length (rest st2) = 0 \<or> 0 < length usb" using p(7) by auto
       ultimately show ?thesis
         using run_len [OF p(2)] run_len [OF p(4)] run_len [OF p(6)] run_len [OF p(9)] Suc.prems(2)
         by linarith
     qed
    apply (auto intro: field_step dest!: run_current [OF Suc.prems(1)])
    done
qed simp

lemma parse_struct_spec:
  assumes "ok st" "check TkStruct st" "length (rest st) + 1 < n"
  shows "spec st (parse_struct_declaration n st) (takes (\<lambda>us d. declaration_tokens us (DeclStruct d)))"
  unfolding parse_struct_declaration_def
  apply (rule spec_consume_checked [OF assms(1,2)], simp)
  apply (rule spec_identifier, erule run_ok)
  apply (rule spec_consume, erule run_ok, simp)
  apply (rule spec_bind, rule parse_struct_fields_spec, erule run_ok)
   apply (use assms(3) in \<open>auto dest!: run_len\<close>) [1]
  apply (rule spec_consume, erule run_ok, simp)
  apply (rule spec_return, erule run_ok)
  apply (auto simp: takes_def intro!: declaration_struct [OF _ _ _ _ _ refl, unfolded span_of_def, simplified])
  done

section \<open>Contracts\<close>

lemma spec_effect_kind:
  assumes "ok st" "\<And>us es k st1. run st us es st1 \<Longrightarrow>
      es = [] \<longrightarrow> us = [] \<and> map_of effect_names (tk_text t) = Some k \<Longrightarrow>
      spec st1 (f k st1) (\<lambda>vs fs. Q (us @ vs) (es @ fs))"
  shows "spec st (Let (effect_kind_of t st) (case_prod f)) Q"
proof -
  obtain d where d: "run st [] [d] (report t (lit ''Expected read, write, or readwrite in effects clause.'') st)"
    using run_report [OF assms(1)] by blast
  note refl = run_refl [OF assms(1)]
  show ?thesis
    using assms(2) [OF refl, of EffectRead] assms(2) [OF refl, of EffectWrite] assms(2) [OF refl, of EffectReadWrite]
      spec_run [OF d assms(2) [OF d, of EffectReadWrite]]
    by (auto simp: effect_kind_of_def effect_names_def)
qed

lemma spec_effect_item:
  assumes "ok st" "\<And>us es x st1. run st us es st1 \<Longrightarrow> es = [] \<longrightarrow> effect_item_tokens us x \<Longrightarrow>
      spec st1 (f x st1) (\<lambda>vs fs. Q (us @ vs) (es @ fs))"
  shows "spec st (Let (parse_effect_item st) (case_prod f)) Q"
proof -
  have eq: "Let (parse_effect_item st) (case_prod f) =
    (let (kind_token, st) = consume TkIdentifier ''Expected read, write, or readwrite in effects clause.'' st;
          (kind, st) = effect_kind_of kind_token st;
          (_, st) = consume TkLeftParen ''Expected '(' after effect kind.'' st;
          (target, st) = parse_identifier ''Expected slice parameter in effect.'' st;
          (right_paren, st) = consume TkRightParen ''Expected ')' after effect target.'' st
      in f \<lparr>effect_kind = kind, effect_target = target,
           effect_span = span_between_tokens kind_token right_paren\<rparr> st)"
    by (simp add: parse_effect_item_def case_prod_beta Let_def)
  show ?thesis
    unfolding eq
    apply (rule spec_consume [OF assms(1)], simp)
    apply (rule spec_effect_kind, erule run_ok)
    apply (rule spec_consume, erule run_ok, simp)
    apply (rule spec_identifier, erule run_ok)
    apply (rule spec_consume, erule run_ok, simp)
    subgoal premises p for us es k st1 usa esa kind st2 usb esb lp st3 usc esc i st4 usd esd rp st5
    proof -
      have "es @ esa @ esb @ esc @ esd = [] \<longrightarrow> effect_item_tokens (us @ usa @ usb @ usc @ usd)
          \<lparr>effect_kind = kind, effect_target = i, effect_span = span_between_tokens k rp\<rparr>"
        using p(2,4,6,8,10) by (auto intro!: effect_item [OF _ _ _ _ _ refl, unfolded span_of_def, simplified])
      from assms(2) [OF run_trans [OF p(1) run_trans [OF p(3) run_trans [OF p(5) run_trans [OF p(7,9)]]]] this]
      show ?thesis by simp
    qed
    done
qed

lemma parse_effect_items_spec:
  "ok st \<Longrightarrow> length (rest st) < n \<Longrightarrow>
   spec st (parse_effect_items n xs st) (\<lambda>us es xs' _. es = [] \<longrightarrow>
     (\<exists>ys. xs' = xs @ ys \<and> effect_items_tokens us ys))"
proof (induction n arbitrary: xs st)
  case (Suc n)
  show ?case
    unfolding parse_effect_items.simps
    apply (rule spec_effect_item [OF Suc.prems(1)])
    apply (rule spec_match, erule run_ok, simp; simp only: if_True if_False)
     apply (rule spec_mono, rule Suc.IH, rule ok_bump, erule run_ok)
      apply (use Suc.prems in \<open>auto dest!: run_len\<close>) [1]
     apply (auto intro: effects_more) [1]
    apply (rule spec_return, erule run_ok)
    apply (auto intro: effects_last)
    done
qed simp

lemma parse_effect_clause_spec:
  assumes "ok st" "length (rest st) < n"
  shows "spec st (parse_contract_effect_clause n t st) (\<lambda>us es c _. es = [] \<longrightarrow> tk_kind t = TkEffects \<longrightarrow>
    effect_clause_tokens (t # us) c)"
proof -
  have items: "spec st1 (if none then Some ([], st1) else parse_effect_items n [] st1)
    (\<lambda>us es xs _. es = [] \<longrightarrow> (if none then us = [] \<and> xs = [] else effect_items_tokens us xs))"
    if "ok st1" "length (rest st1) < n" for st1 none
    by (rule spec_if, rule spec_return [OF that(1)], simp,
        rule spec_mono [OF parse_effect_items_spec [OF that]]) auto
  show ?thesis
    unfolding parse_contract_effect_clause_def
    apply (rule spec_match [OF assms(1)], simp)
     apply (rule spec_bind, rule items, erule run_ok)
      apply (use assms(2) in \<open>auto dest!: run_len\<close>) [1]
     apply (rule spec_consume, erule run_ok, simp)
     apply (rule spec_return, erule run_ok)
     apply (auto intro!: effects_none [OF _ _ _ refl, unfolded span_of_def, simplified]) [1]
    apply (rule spec_bind, rule items [OF assms])
    apply (rule spec_consume, erule run_ok, simp)
    apply (rule spec_return, erule run_ok)
    apply (auto intro!: effects_some [OF _ _ _ refl, unfolded span_of_def, simplified]) [1]
    done
qed

lemma previous_bump:
  assumes "ok st" "rest st \<noteq> []"
  shows "previous (bump st) = current st"
proof -
  have "ps_index st < length (butlast (ps_tokens st))"
    using assms(2) unfolding rest_def by (metis drop_all not_le)
  moreover have "\<not> check TkEof st" using assms by (simp add: check_Eof)
  ultimately show ?thesis by (simp add: previous_def bump_def current_def)
qed

lemma parse_requirement_spec:
  assumes "ok st" "length (rest st) + 1 < n"
  shows "spec st (parse_requirement n st) (\<lambda>us es q _. es = [] \<longrightarrow>
    (\<exists>xs e s. us = xs @ [s] \<and> expression_tokens 1 xs e \<and> tk_kind s = TkSemicolon \<and>
       q = \<lparr>requirement_expression = e, requirement_span = span_between_tokens (previous st) s\<rparr>))"
  unfolding parse_requirement_def
  apply (rule spec_let)
  apply (rule spec_bind_reads, rule parse_expression_spec [OF assms order.refl])
  apply (rule spec_consume, erule run_ok, simp)
  apply (rule spec_return, erule run_ok)
  apply auto
  done

lemma synchronize_contract_moves:
  assumes "ok st" "\<not> check TkEof st" "\<not> check TkRightBrace st" "length (rest st) < n"
  shows "skips (bump st) (synchronize_contract_clause n st)"
proof -
  obtain m where m: "n = Suc m" using assms(4) by (cases n) auto
  have "length (rest (bump st)) < m" using length_bump [OF assms(1,2)] assms(4) m by simp
  then have "skips (bump st) (synchronize_contract_clause m (bump st))"
    by (intro synchronize_contract_clause_skips ok_bump assms(1))
  then show ?thesis
    using assms by (simp add: m match_token_def skips_return ok_bump)
qed

text \<open>The clauses read, given the effects clause read before them.\<close>

definition clauses_from ::
  "contract_requirement list \<Rightarrow> contract_effect_clause option \<Rightarrow> token list \<Rightarrow>
   contract_requirement list \<times> contract_effect_clause option \<Rightarrow> bool" where
  "clauses_from reqs eff us r \<longleftrightarrow> (\<exists>qs. fst r = reqs @ qs \<and>
     (case eff of None \<Rightarrow> clauses_tokens us qs (snd r)
                | Some c \<Rightarrow> snd r = Some c \<and> clauses_tokens us qs None))"

lemma clauses_from_none: "clauses_from reqs eff [] (reqs, eff)"
  by (auto simp: clauses_from_def clauses_none split: option.splits)

lemma clauses_from_requires:
  assumes "tk_kind t = TkRequires" "expression_tokens 1 xs e" "tk_kind s = TkSemicolon"
    "clauses_from (reqs @ [\<lparr>requirement_expression = e, requirement_span = span_between_tokens t s\<rparr>]) eff us r"
  shows "clauses_from reqs eff (t # xs @ s # us) r"
  using clauses_requires [OF assms(1-3) refl] assms(4)
  by (auto simp: clauses_from_def span_of_def split: option.splits)

lemma clauses_from_effects:
  assumes "effect_clause_tokens ts c" "clauses_from reqs (Some c) us r"
  shows "clauses_from reqs None (ts @ us) r"
  using clauses_effects [OF assms(1)] assms(2) by (auto simp: clauses_from_def)

lemma parse_contract_clauses_spec:
  "ok st \<Longrightarrow> length (rest st) + 2 < n \<Longrightarrow>
   spec st (parse_contract_clauses n reqs eff st) (\<lambda>us es r _. es = [] \<longrightarrow> clauses_from reqs eff us r)"
proof (induction n arbitrary: reqs eff st)
  case (Suc n)
  have req: "spec st (do { (req, st) \<leftarrow> parse_requirement n (bump st); parse_contract_clauses n (reqs @ [req]) eff st })
      (\<lambda>us es r _. es = [] \<longrightarrow> clauses_from reqs eff us r)" if "check TkRequires st"
    apply (rule spec_take [OF Suc.prems(1) that], simp)
    apply (rule spec_bind, rule parse_requirement_spec, erule run_ok)
     apply (use Suc.prems in \<open>auto dest!: run_len\<close>) [1]
    apply (rule spec_mono, rule Suc.IH, erule run_ok)
     apply (use Suc.prems in \<open>auto dest!: run_len\<close>) [1]
    apply (auto simp: previous_bump [OF Suc.prems(1)] intro: clauses_from_requires)
    done
  have eff: "spec st (do {
          let st = bump st;
          (clause, st) \<leftarrow> parse_contract_effect_clause n (previous st) st;
          let st = (if eff = None then st
                    else report (previous st) (lit ''A contract can contain only one effects clause.'') st);
          parse_contract_clauses n reqs (Some clause) st
        }) (\<lambda>us es r _. es = [] \<longrightarrow> clauses_from reqs eff us r)" if "check TkEffects st"
    apply (rule spec_take [OF Suc.prems(1) that], simp)
    apply (rule spec_let)
    apply (rule spec_bind, rule parse_effect_clause_spec, erule run_ok)
     apply (use Suc.prems in \<open>auto dest!: run_len\<close>) [1]
    apply (rule spec_let)
    apply (cases "eff = None")
     apply (simp only: if_True simp_thms)
     apply (rule spec_mono, rule Suc.IH, erule run_ok)
      apply (use Suc.prems in \<open>auto dest!: run_len\<close>) [1]
     apply (clarsimp simp: previous_bump [OF Suc.prems(1)])
     apply (drule (1) clauses_from_effects)
     apply simp
    apply (simp only: if_False)
    apply (rule spec_report, erule run_ok)
    apply (rule spec_mono, rule Suc.IH, erule run_ok)
     apply (use Suc.prems in \<open>auto dest!: run_len\<close>) [1]
    apply simp
    done
  have err: "spec st (do {
          st \<leftarrow> synchronize_contract_clause n
            (report (current st) (lit ''Expected 'requires' or 'effects' in contract.'') st);
          parse_contract_clauses n reqs eff st
        }) (\<lambda>us es r _. es = [] \<longrightarrow> clauses_from reqs eff us r)"
    if "\<not> check TkEof st" "\<not> check TkRightBrace st"
    apply (rule spec_report [OF Suc.prems(1)])
    apply (rule spec_bump, erule run_ok)
    apply (rule spec_bind_skip, rule synchronize_contract_moves, erule run_ok)
       apply (use that Suc.prems in \<open>auto dest!: run_len\<close>) [3]
    apply (rule spec_mono, rule Suc.IH, erule run_ok)
     subgoal premises p
       using run_len [OF p(1)] run_len [OF p(2)] length_bump [OF run_ok [OF p(1)]] that Suc.prems(2) by simp
    apply simp
    done
  show ?case
    unfolding parse_contract_clauses.simps
    apply (rule spec_if, rule spec_return [OF Suc.prems(1)], simp add: clauses_from_none)
    apply (rule spec_if, erule req)
    apply (rule spec_if, erule eff)
    apply (rule err; simp)
    done
qed simp

lemma parse_contract_spec:
  assumes "ok st" "length (rest st) + 2 < n"
  shows "spec st (parse_contract_declaration n st)
    (\<lambda>us es c _. es = [] \<longrightarrow> tk_kind (previous st) = TkContract \<longrightarrow> contract_tokens (previous st # us) c)"
  unfolding parse_contract_declaration_def
  apply (rule spec_let)
  apply (rule spec_consume [OF assms(1)], simp)
  apply (rule spec_bind, rule parse_contract_clauses_spec, erule run_ok)
   apply (use assms(2) in \<open>auto dest!: run_len\<close>) [1]
  apply (simp only: case_prod_beta')
  apply (rule spec_consume [unfolded case_prod_beta'], erule run_ok, simp)
  apply (rule spec_return, erule run_ok)
  apply (auto simp: clauses_from_def intro!: contract_braces [OF _ _ _ _ refl, unfolded span_of_def, simplified])
  done

section \<open>Functions\<close>

lemma parse_function_param_spec:
  assumes "ok st" "length (rest st) < n"
  shows "spec st (parse_function_param n st) (\<lambda>us es p _. es = [] \<longrightarrow> param_tokens us p)"
proof -
  have param: "param_tokens (i # c # tys) \<lparr>param_name = ident_of i, param_type = ty,
      param_span = span_from_positions (position_from_token i) (span_end (type_span ty))\<rparr>"
    if "tk_kind i = TkIdentifier" "tk_kind c = TkColon" "type_tokens tys ty" for i c tys ty
    using param [OF that refl] type_tokens_span [OF that(3)]
    by (simp add: span_of_eq span_from_positions_def)
  show ?thesis
    unfolding parse_function_param_def
    apply (rule spec_let)
    apply (rule spec_identifier [OF assms(1)])
    apply (rule spec_consume, erule run_ok, simp)
    apply (rule spec_bind_reads, rule parse_type_spec, erule run_ok)
     apply (use assms(2) in \<open>auto dest!: run_len\<close>) [1]
    apply (rule spec_return, erule run_ok)
    apply (auto intro: param dest!: run_current [OF assms(1)])
    done
qed

lemma parse_params_spec:
  "ok st \<Longrightarrow> length (rest st) + 1 < n \<Longrightarrow>
   spec st (parse_params n ps st) (\<lambda>us es ps' _. es = [] \<longrightarrow> (\<exists>qs. ps' = ps @ qs \<and> params_tokens us qs))"
proof (induction n arbitrary: ps st)
  case (Suc n)
  show ?case
    unfolding parse_params.simps
    apply (rule spec_bind, rule parse_function_param_spec [OF Suc.prems(1)])
     apply (use Suc.prems in simp)
    apply (rule spec_match, erule run_ok, simp; simp only: if_True if_False)
     apply (rule spec_mono, rule Suc.IH, rule ok_bump, erule run_ok)
      apply (use Suc.prems in \<open>auto dest!: run_len\<close>) [1]
     apply (auto intro: params_more) [1]
    apply (rule spec_return, erule run_ok)
    apply (auto intro: params_last)
    done
qed simp

definition modifiers_tokens :: "token list \<Rightarrow> bool \<Rightarrow> bool \<Rightarrow> bool" where
  "modifiers_tokens us exp uns \<longleftrightarrow>
     (\<exists>xs ws. us = xs @ ws \<and> modifier_tokens TkExport xs exp \<and> modifier_tokens TkUnsafe ws uns)"

lemma modifiers_tokens_simps:
  "modifiers_tokens [] False False"
  "tk_kind t = TkExport \<Longrightarrow> modifiers_tokens [t] True False"
  "tk_kind t = TkUnsafe \<Longrightarrow> modifiers_tokens [t] False True"
  "tk_kind t = TkExport \<Longrightarrow> tk_kind t' = TkUnsafe \<Longrightarrow> modifiers_tokens [t, t'] True True"
  by (auto simp: modifiers_tokens_def modifier_tokens_def Cons_eq_append_conv)

lemma spec_modifiers:
  assumes "ok st"
    "\<And>us es exp uns st1. run st us es st1 \<Longrightarrow>
       (check TkExport st \<or> check TkUnsafe st \<longrightarrow> us \<noteq> []) \<Longrightarrow> (us = [] \<longrightarrow> check TkFn st1 = check TkFn st) \<Longrightarrow>
       es = [] \<longrightarrow> modifiers_tokens us exp uns \<Longrightarrow>
       spec st1 (f (exp, uns) st1) (\<lambda>vs fs. Q (us @ vs) (es @ fs))"
  shows "spec st (Let (parse_modifiers st) (case_prod f)) Q"
proof -
  have eq: "Let (parse_modifiers st) (case_prod f) =
     (let (exp, st) = match_token TkExport st;
          (uns, st) = match_token TkUnsafe st
      in if uns \<and> check TkExport st then
           let st = bump st
           in f (True, uns) (error_with_code (previous st) Ck2014
                (lit ''Function modifiers must appear in '[export] [unsafe] fn' order.'') st)
         else f (exp, uns) st)"
    by (simp add: parse_modifiers_def Let_def split: prod.splits)
  have wrong: "spec st1 (if uns \<and> check TkExport st1 then
           let st = bump st1
           in f (True, uns) (error_with_code (previous st) Ck2014
                (lit ''Function modifiers must appear in '[export] [unsafe] fn' order.'') st)
         else f (exp, uns) st1) (\<lambda>vs. Q (us @ vs))"
    if "run st us [] st1" "check TkExport st \<or> check TkUnsafe st \<longrightarrow> us \<noteq> []" "us = [] \<longrightarrow> check TkFn st1 = check TkFn st"
      "modifiers_tokens us exp uns"
      "uns \<longrightarrow> us \<noteq> []" for us exp uns st1
  proof (cases "uns \<and> check TkExport st1")
    case True
    note ok = run_ok [OF that(1)]
    have "rest st1 \<noteq> []" using ok True by (auto simp: check_rest)
    note b = run_bump_token [OF ok this]
    obtain d where d: "run (bump st1) [] [d] (error_with_code (previous (bump st1)) Ck2014
        (lit ''Function modifiers must appear in '[export] [unsafe] fn' order.'') (bump st1))"
      using run_error [OF ok_bump [OF ok]] by blast
    from assms(2) [OF run_trans [OF that(1) run_trans [OF b d]], of True uns]
    have "spec (error_with_code (previous (bump st1)) Ck2014
        (lit ''Function modifiers must appear in '[export] [unsafe] fn' order.'') (bump st1))
        (f (True, uns) (error_with_code (previous (bump st1)) Ck2014
        (lit ''Function modifiers must appear in '[export] [unsafe] fn' order.'') (bump st1)))
        (\<lambda>vs fs. Q (us @ current st1 # vs) (d # fs))"
      by simp
    with True show ?thesis by (auto simp: Let_def intro!: spec_run [OF run_trans [OF b d]])
  next
    case False
    have "spec st1 (f (exp, uns) st1) (\<lambda>vs. Q (us @ vs))"
      using assms(2) [OF that(1-3), of exp uns] that(4) by simp
    with False show ?thesis by auto
  qed
  show ?thesis
    unfolding eq
    apply (rule spec_match [OF assms(1)], simp)
     apply (rule spec_match, erule run_ok, simp)
      subgoal premises p for t r t' r'
        using wrong [OF run_trans [OF p(3,6), simplified], where exp = True and uns = True] p
        by (simp add: modifiers_tokens_simps)
     subgoal premises p for t r
       using wrong [OF p(3), where exp = True and uns = False] p by (auto simp: modifiers_tokens_simps)
    apply (rule spec_match [OF assms(1)], simp)
     subgoal premises p for t r
       using wrong [OF p(4), where exp = False and uns = True] p by (auto simp: modifiers_tokens_simps)
    subgoal premises p
      using wrong [OF run_refl [OF assms(1)], where exp = False and uns = False] p by (auto simp: modifiers_tokens_simps)
    done
qed

lemma previous_run_bump: "ok st \<Longrightarrow> rest st = t # r \<Longrightarrow> previous (bump st) = t"
  by (simp add: previous_bump current_Cons)

lemma spec_consume_moves:
  assumes "ok st" "k \<noteq> TkEof"
    "\<And>us es t st1. run st us es st1 \<Longrightarrow> es = [] \<longrightarrow> us = [t] \<and> tk_kind t = k \<Longrightarrow> check k st \<longrightarrow> us \<noteq> [] \<Longrightarrow>
       spec st1 (f t st1) (\<lambda>vs fs. Q (us @ vs) (es @ fs))"
  shows "spec st (Let (consume k m st) (case_prod f)) Q"
proof (cases "check k st")
  case True
  show ?thesis
    by (rule spec_consume_checked [OF assms(1) True assms(2)])
      (use assms(3) [of "[current st]" "[]" "bump st" "current st"] in simp)
next
  case False
  show ?thesis by (rule spec_consume [OF assms(1,2)], rule assms(3)) (use False in auto)
qed

lemma run_head: "ok st \<Longrightarrow> run st us es st1 \<Longrightarrow> run st1 [t] fs st2 \<Longrightarrow> current st = hd (us @ [t])"
  using run_rest [of st us es st1] run_rest [of st1 "[t]" fs st2] by (cases us) (simp_all add: current_rest)

lemma declaration_function_step:
  assumes "modifiers_tokens ms exp unsafe" "tk_kind f = TkFn"
     "tk_kind i = TkIdentifier" "tk_kind lp = TkLeftParen" "params_opt_tokens pts ps"
     "tk_kind rp = TkRightParen" "tk_kind ar = TkArrow" "type_tokens tys ty"
     "contract_opt_tokens cs c" "block_tokens bs b" "s = hd (ms @ [f])"
  shows "declaration_tokens (ms @ f # i # lp # pts @ rp # ar # tys @ cs @ bs) (DeclFunction
       \<lparr>exported = exp, is_unsafe = unsafe, fn_name = ident_of i, fn_params = ps, return_type = ty,
        fn_contract = c, fn_body = b,
        fn_span = span_from_positions (position_from_token s) (span_end (block_span b))\<rparr>)"
proof -
  obtain xs us where ms: "ms = xs @ us" "modifier_tokens TkExport xs exp" "modifier_tokens TkUnsafe us unsafe"
    using assms(1) by (auto simp: modifiers_tokens_def)
  have "hd (xs @ us @ f # i # lp # pts @ rp # ar # tys @ cs @ bs) = s"
    using assms(11) ms(1) by (cases xs; cases us) auto
  moreover have "last (xs @ us @ f # i # lp # pts @ rp # ar # tys @ cs @ bs) = last bs"
    using block_tokens_span [OF assms(10)] by simp
  ultimately have "span_from_positions (position_from_token s) (span_end (block_span b)) =
      span_of (xs @ us @ f # i # lp # pts @ rp # ar # tys @ cs @ bs)"
    using block_tokens_span [OF assms(10)] by (simp add: span_of_eq span_from_positions_def)
  with declaration_function [OF ms(2,3) assms(2-10) refl] ms(1) show ?thesis by simp
qed

lemma parse_function_spec:
  assumes "ok st" "check TkExport st \<or> check TkUnsafe st \<or> check TkFn st" "length (rest st) + 4 < n"
  shows "spec st (parse_function_declaration n st) (takes (\<lambda>us d. declaration_tokens us (DeclFunction d)))"
proof -
  have ps: "spec st1 (if check TkRightParen st1 then Some ([], st1) else parse_params n [] st1)
      (\<lambda>us es ps _. es = [] \<longrightarrow> params_opt_tokens us ps)" if "ok st1" "length (rest st1) + 1 < n" for st1
    by (rule spec_if, rule spec_return [OF that(1)], simp add: params_opt_tokens_def,
        rule spec_mono [OF parse_params_spec [OF that]]) (auto simp: params_opt_tokens_def)
  have contr: "spec st1 (let (has_contract, st) = match_token TkContract st1 in
       Option.bind (if has_contract then do { (c, st) \<leftarrow> parse_contract_declaration n st; Some (Some c, st) }
          else Some (None, st)) (case_prod g)) Q"
    if "ok st1" "length (rest st1) + 2 < n"
      "\<And>us es c st2. run st1 us es st2 \<Longrightarrow> es = [] \<longrightarrow> contract_opt_tokens us c \<Longrightarrow>
         spec st2 (g c st2) (\<lambda>vs fs. Q (us @ vs) (es @ fs))" for st1 g and Q :: "function_declaration post"
    apply (rule spec_match [OF that(1)], simp; simp only: if_True if_False)
     subgoal premises p for t r
       apply (rule spec_bind [where P = "\<lambda>us es c _. es = [] \<longrightarrow> contract_opt_tokens (t # us) c"])
        apply (rule spec_bind, rule parse_contract_spec [OF run_ok [OF p(3)]])
         apply (use that(2) run_len [OF p(3)] in simp)
        apply (rule spec_return, erule run_ok)
        apply (use p in \<open>auto simp: contract_opt_tokens_def previous_run_bump [OF that(1)]\<close>) [1]
       using that(3) [OF run_trans [OF p(3), of _ _ _]] by auto
    apply (rule spec_bind [where P = "\<lambda>us es c _. es = [] \<longrightarrow> contract_opt_tokens us c"])
     apply (rule spec_return [OF that(1)], simp add: contract_opt_tokens_def)
    using that(3) by blast
  show ?thesis
    unfolding parse_function_declaration_def
    apply (rule spec_let)
    apply (rule spec_modifiers [OF assms(1)], simp only: prod.case)
    apply (rule spec_consume_moves, erule run_ok, simp)
    apply (rule spec_identifier, erule run_ok)
    apply (rule spec_consume, erule run_ok, simp)
    apply (rule spec_bind, rule ps, erule run_ok)
     apply ((drule run_length_le)+, use assms(3) in linarith)
    apply (rule spec_consume, erule run_ok, simp)
    apply (rule spec_consume, erule run_ok, simp)
    apply (rule spec_bind_reads, rule parse_type_spec, erule run_ok)
     apply ((drule run_length_le)+, use assms(3) in linarith)
    subgoal premises p for us es exp uns st1 usa esa f st2 usb esb i st3 usc esc lp st4 usd esd ps st5
        use ese rp st6 usf esf ar st7 usg esg ty st8
    proof -
      let ?us = "us @ usa @ usb @ usc @ usd @ use @ usf @ usg" and
        ?es = "es @ esa @ esb @ esc @ esd @ ese @ esf @ esg"
      have run: "run st ?us ?es st8"
        by (rule run_trans [OF p(1) run_trans [OF p(5) run_trans [OF p(8) run_trans [OF p(10)
          run_trans [OF p(12) run_trans [OF p(14) run_trans [OF p(16,18)]]]]]]])
      have moves: "?us \<noteq> []" using p(2,3,7) assms(2) by auto
      have signature: "declaration_tokens (?us @ cs @ bs) (DeclFunction
           \<lparr>exported = exp, is_unsafe = uns, fn_name = i, fn_params = ps, return_type = ty,
            fn_contract = c, fn_body = b,
            fn_span = span_from_positions (position_from_token (current st)) (span_end (block_span b))\<rparr>)"
        if "?es = []" "contract_opt_tokens cs c" "block_tokens bs b" for cs c bs b
      proof -
        from that(1) p(6,9,11,15,17) obtain t where us: "usa = [f]" "tk_kind f = TkFn" "usb = [t]"
            "tk_kind t = TkIdentifier" "i = ident_of t" "usc = [lp]" "tk_kind lp = TkLeftParen"
            "use = [rp]" "tk_kind rp = TkRightParen" "usf = [ar]" "tk_kind ar = TkArrow" by auto
        have "modifiers_tokens us exp uns" "params_opt_tokens usd ps" "type_tokens usg ty"
          using that(1) p(4,13,20) by simp_all
        from declaration_function_step [OF this(1) us(2,4,7) this(2) us(9,11) this(3) that(2,3) refl]
          run_head [OF assms(1) p(1) p(5) [unfolded us(1)]]
        show ?thesis by (simp add: us)
      qed
      have le: "length (rest st8) \<le> length (rest st)" by (rule run_length_le [OF run])
      show ?thesis
        apply (rule contr [OF run_ok [OF run]])
         apply (use le assms(3) in linarith)
        apply (rule spec_bind, rule parse_block_spec, erule run_ok)
         apply (drule run_length_le, use le assms(3) in linarith)
        apply (rule spec_return, erule run_ok)
        subgoal premises q for vs fs c st9 ws gs b st10
          using q(2,4) moves signature [of vs c ws b] by (simp add: takes_def) blast
        done
    qed
    done
qed

lemma parse_declaration_spec:
  assumes "ok st" "rest st \<noteq> []" "length (rest st) + 4 < n"
  shows "spec st (parse_declaration n st) (takes (\<lambda>us d. \<exists>x. d = Some x \<and> declaration_tokens us x))"
proof -
  have skip: "spec st (do {
          st \<leftarrow> skip_braced_declaration n (error_with_code (current st) Ck2014 m (bump st));
          Some (None, st)
        }) (takes (\<lambda>us d. \<exists>x. d = Some x \<and> declaration_tokens us x))" if "check k st" "k \<noteq> TkEof" for k m
    apply (rule spec_take [OF assms(1) that])
    apply (rule spec_error, erule run_ok)
    apply (rule spec_bind_skip, rule skip_braced_declaration_skips, erule run_ok)
     apply ((drule run_length_le)+, use assms(3) in linarith)
    apply (rule spec_return, erule run_ok)
    apply (simp add: takes_def)
    done
  show ?thesis
    unfolding parse_declaration_def
    apply (rule spec_if)
     apply (rule spec_bind, rule parse_struct_spec [OF assms(1)], assumption, use assms(3) in simp)
     apply (rule spec_return, erule run_ok, simp add: takes_def)
    apply (rule spec_if, erule skip, simp)
    apply (rule spec_if, rule skip [of TkUnsafe], simp, simp)
    apply (rule spec_if)
     apply (rule spec_bind, rule parse_function_spec [OF assms(1) _ assms(3)], assumption)
     apply (rule spec_return, erule run_ok, simp add: takes_def)
    apply (rule spec_tail, rule spec_error_bump [OF assms(1), where G = "\<lambda>_ _ _. False"])
    apply (simp add: takes_def assms(2))
    done
qed

lemma parse_declarations_spec:
  "ok st \<Longrightarrow> length (rest st) + 5 < n \<Longrightarrow>
   spec st (parse_declarations n ds st) (\<lambda>us es ds' st'. rest st' = [] \<and>
     (es = [] \<longrightarrow> (\<exists>xs. ds' = ds @ xs \<and> declarations_tokens us xs)))"
proof (induction n arbitrary: ds st)
  case (Suc n)
  show ?case
    unfolding parse_declarations.simps
    apply (rule spec_if)
     apply (rule spec_return [OF Suc.prems(1)])
     apply (use Suc.prems(1) in \<open>simp add: check_Eof declarations_none\<close>)
    apply (rule spec_bind, rule parse_declaration_spec [OF Suc.prems(1)])
      apply (use Suc.prems in \<open>simp_all add: check_Eof\<close>) [2]
    apply (rule spec_mono, rule Suc.IH, erule run_ok)
     apply (use Suc.prems in \<open>auto simp: takes_def neq_Nil_conv dest!: run_len\<close>) [1]
    apply (auto simp: takes_def intro: declarations_more)
    done
qed simp

text \<open>The whole program.\<close>

lemma ok_new:
  "toks \<noteq> [] \<Longrightarrow> tk_kind (last toks) = TkEof \<Longrightarrow> \<forall>t \<in> set (butlast toks). tk_kind t \<noteq> TkEof \<Longrightarrow>
   ok (parser_new src toks ds)"
  by (simp add: ok_def parser_new_def)

lemma rest_new: "rest (parser_new src toks ds) = butlast toks"
  by (simp add: rest_def parser_new_def)

lemma parser_parse_sound:
  assumes "toks \<noteq> []" "tk_kind (last toks) = TkEof" "\<forall>t \<in> set (butlast toks). tk_kind t \<noteq> TkEof"
    "length toks + 4 < n"
  shows "\<exists>p es. parser_parse n (parser_new src toks ds) = Some \<lparr>pr_ast = p, pr_diagnostics = ds @ es\<rparr> \<and>
    (es = [] \<longrightarrow> program_tokens toks p)"
proof -
  let ?st = "parser_new src toks ds"
  have ok: "ok ?st" using assms(1-3) by (rule ok_new)
  have "length (rest ?st) + 5 < n" using assms(1,4) by (cases toks) (simp_all add: rest_new)
  from parse_declarations_spec [OF ok this, of "[]"]
  obtain us es xs st' where 1: "parse_declarations n [] ?st = Some (xs, st')" "run ?st us es st'"
      "rest st' = []" "es = [] \<longrightarrow> declarations_tokens us xs"
    by (auto simp: spec_def)
  have us: "us = butlast toks" using run_rest [OF 1(2)] 1(3) by (simp add: rest_new)
  have toks': "ps_tokens st' = toks" "ps_diagnostics st' = ds @ es"
    using 1(2) by (simp_all add: run_def parser_new_def)
  have "current ?st = hd toks" using assms(1) by (simp add: current_def parser_new_def hd_conv_nth)
  moreover have "current st' = last toks"
    using current_rest [OF run_ok [OF 1(2)]] 1(3) toks' by simp
  ultimately show ?thesis
    using 1(1,4) us toks' by (simp add: parser_parse_def program_tokens_def)
qed

end
