(* ===== verification/Parser_Complete.thy ===== *)
theory Parser_Complete
  imports Parser_Sound_Items
begin

text \<open>
  The parser accepts every phrase of the grammar: on tokens that start with a phrase and go on
  with a token that cannot extend it, each method yields the tree of the phrase, stops right
  after it and reports nothing.
\<close>

section \<open>The judgement\<close>

definition at :: "parser \<Rightarrow> token list \<Rightarrow> bool" where
  "at st ts \<longleftrightarrow> ok st \<and> rest st = ts \<and> ps_diagnostics st = []"

definition yields :: "('a \<times> parser) option \<Rightarrow> 'a \<Rightarrow> token list \<Rightarrow> bool" where
  "yields r x rs \<longleftrightarrow> (\<exists>st. r = Some (x, st) \<and> at st rs)"

definition hd_kind :: "token list \<Rightarrow> token_kind" where
  "hd_kind ts = (case ts of [] \<Rightarrow> TkEof | t # _ \<Rightarrow> tk_kind t)"

lemma hd_kind_simps [simp]: "hd_kind [] = TkEof" "hd_kind (t # ts) = tk_kind t"
  by (simp_all add: hd_kind_def)

lemma hd_kind_append [simp]: "ts \<noteq> [] \<Longrightarrow> hd_kind (ts @ us) = tk_kind (hd ts)"
  by (cases ts) auto

lemma at_current: "at st ts \<Longrightarrow> tk_kind (current st) = hd_kind ts"
proof -
  assume at: "at st ts"
  then have "tk_kind (last (ps_tokens st)) = TkEof" by (simp add: at_def ok_def)
  with at show ?thesis by (cases ts) (simp_all add: at_def current_rest)
qed

lemma at_check: "at st ts \<Longrightarrow> check k st \<longleftrightarrow> hd_kind ts = k"
  by (simp add: check_def at_current)

lemma at_token: "at st (t # ts) \<Longrightarrow> current st = t"
  by (auto simp: at_def current_rest)

lemma at_kind: "at st (t # ts) \<Longrightarrow> tk_kind t \<noteq> TkEof"
  by (auto simp: at_def dest: rest_kinds)

lemma at_bump:
  assumes "at st (t # ts)"
  shows "at (bump st) ts" "previous (bump st) = t"
proof -
  have ok: "ok st" "rest st = t # ts" "ps_diagnostics st = []" using assms by (simp_all add: at_def)
  have "ps_diagnostics (bump st) = []" using ok(3) by (simp add: bump_def)
  then show "at (bump st) ts" using ok by (simp add: at_def ok_bump rest_bump)
  show "previous (bump st) = t" using ok by (simp add: previous_run_bump)
qed

lemma at_hd: "at st (ts @ rs) \<Longrightarrow> ts \<noteq> [] \<Longrightarrow> current st = hd ts \<and> tk_kind (hd ts) \<noteq> TkEof"
  using at_token [of st "hd ts" "tl ts @ rs"] at_kind [of st "hd ts" "tl ts @ rs"] by (cases ts) auto

lemma at_next: "at st (t # ts) \<Longrightarrow> next_is k st \<longleftrightarrow> hd_kind ts = k"
proof -
  assume at: "at st (t # ts)"
  then have go: "\<not> check TkEof st" using at_kind [OF at] by (simp add: at_check)
  then have index: "ps_index (bump st) = ps_index st + 1" "ps_tokens (bump st) = ps_tokens st"
    by (simp_all add: bump_def)
  have "ok (bump st)" using at_bump(1) [OF at] by (simp add: at_def)
  then have "ps_index (bump st) \<le> length (ps_tokens (bump st)) - 1" "ps_tokens (bump st) \<noteq> []" by (simp_all add: ok_def)
  then have bound: "ps_index st + 1 < length (ps_tokens st)" unfolding index by (cases "ps_tokens st") auto
  then have "next_is k st \<longleftrightarrow> tk_kind (current (bump st)) = k" by (simp add: next_is_def current_def index)
  then show ?thesis using at_current [OF at_bump(1) [OF at]] by simp
qed

lemma yields_return: "at st rs \<Longrightarrow> yields (Some (x, st)) x rs"
  by (simp add: yields_def)

lemma yields_bind:
  "yields m x rs \<Longrightarrow> (\<And>st. at st rs \<Longrightarrow> yields (f x st) y us) \<Longrightarrow> yields (Option.bind m (case_prod f)) y us"
  by (auto simp: yields_def)

lemma yields_consume:
  "at st (t # rs) \<Longrightarrow> tk_kind t = k \<Longrightarrow> (\<And>st. at st rs \<Longrightarrow> yields (f t st) y us) \<Longrightarrow>
   yields (case_prod f (consume k m st)) y us"
  by (simp add: consume_def at_check at_token at_bump)

lemma consume_at: "at st (t # rs) \<Longrightarrow> tk_kind t = k \<Longrightarrow> consume k m st = (t, bump st)"
  by (simp add: consume_def at_check at_token)

lemma yields_identifier:
  "at st (t # rs) \<Longrightarrow> tk_kind t = TkIdentifier \<Longrightarrow> (\<And>st. at st rs \<Longrightarrow> yields (f (ident_of t) st) y us) \<Longrightarrow>
   yields (case_prod f (parse_identifier m st)) y us"
  by (simp add: parse_identifier_def consume_def at_check at_token at_bump ident_of_def)

lemma yields_match:
  "at st (t # rs) \<Longrightarrow> tk_kind t = k \<Longrightarrow> (\<And>st. at st rs \<Longrightarrow> previous st = t \<Longrightarrow> yields (f True st) y us) \<Longrightarrow>
   yields (case_prod f (match_token k st)) y us"
  by (simp add: match_token_def at_check at_bump)

lemma yields_no_match:
  "at st ts \<Longrightarrow> hd_kind ts \<noteq> k \<Longrightarrow> yields (f False st) y us \<Longrightarrow>
   yields (case_prod f (match_token k st)) y us"
  by (simp add: match_token_def at_check)

lemma yields_if: "(b \<Longrightarrow> yields r x rs) \<Longrightarrow> (\<not> b \<Longrightarrow> yields r' x rs) \<Longrightarrow> yields (if b then r else r') x rs"
  by simp

lemma yields_let: "yields (f v) x rs \<Longrightarrow> yields (Let v f) x rs"
  by simp

lemma yields_token: "at st (t # rs) \<Longrightarrow> yields (Some (x, bump st)) x rs"
  by (simp add: yields_return at_bump)

section \<open>Types\<close>

lemma parse_type_complete:
  "type_tokens ts ty \<Longrightarrow> at st (ts @ rs) \<Longrightarrow> length ts < n \<Longrightarrow> yields (parse_type n st) ty rs"
proof (induction arbitrary: n st rs rule: type_tokens.induct)
  case (type_primitive t)
  obtain m where n: "n = Suc m" using type_primitive.prems(2) by (cases n) auto
  then show ?case
    using type_primitive by (auto simp: at_token span_from_token_of intro: yields_token)
next
  case (type_void t)
  obtain m where n: "n = Suc m" using type_void.prems(2) by (cases n) auto
  then show ?case
    using type_void by (auto simp: at_token span_from_token_of primitive_kinds_def intro: yields_token)
next
  case (type_named t)
  obtain m where n: "n = Suc m" using type_named.prems(2) by (cases n) auto
  then show ?case
    using type_named by (auto simp: at_token at_check parse_identifier_def consume_def span_from_token_of ident_of_def
      primitive_kinds_def intro: yields_token)
next
  case (type_pointer p l ts ty g)
  obtain m where n: "n = Suc m" using type_pointer.prems(2) by (cases n) auto
  have at: "at (bump st) (l # ts @ g # rs)" "current st = p"
    using type_pointer.prems(1) by (simp_all add: at_bump at_token)
  show ?case
    using type_pointer.hyps(1) type_pointer.prems(2)
    by (simp add: n at(2) primitive_kinds_def)
      (rule yields_consume [OF at(1) type_pointer.hyps(2)], rule yields_bind, rule type_pointer.IH, assumption, simp,
       rule yields_consume, assumption, rule type_pointer.hyps(4),
       simp add: yields_return span_between_of [of p g "l # ts"])
next
  case (type_slice p l ts ty g)
  obtain m where n: "n = Suc m" using type_slice.prems(2) by (cases n) auto
  have at: "at (bump st) (l # ts @ g # rs)" "current st = p"
    using type_slice.prems(1) by (simp_all add: at_bump at_token)
  show ?case
    using type_slice.hyps(1) type_slice.prems(2)
    by (simp add: n at(2) primitive_kinds_def)
      (rule yields_consume [OF at(1) type_slice.hyps(2)], rule yields_bind, rule type_slice.IH, assumption, simp,
       rule yields_consume, assumption, rule type_slice.hyps(4),
       simp add: yields_return span_between_of [of p g "l # ts"])
qed

section \<open>Chains of operators and suffixes\<close>

text \<open>
  The binary operators at the top of an expression, in the order the parser meets them, after
  an operand of one after the other: their precedences are at least \<open>p\<close> and do not grow.
\<close>

definition binary_node :: "token \<Rightarrow> expression \<Rightarrow> expression \<Rightarrow> expression" where
  "binary_node op l r = EBinary (tk_text op) l r
     (span_from_positions (span_start (expression_span l)) (span_end (expression_span r)))"

inductive chain :: "nat \<Rightarrow> nat \<Rightarrow> expression \<Rightarrow> token list \<Rightarrow> expression \<Rightarrow> bool" where
  chain_end: "chain p b l [] l"
| chain_op: "binary_precedence (tk_kind op) = c \<Longrightarrow> 0 < c \<Longrightarrow> p \<le> c \<Longrightarrow> c \<le> b \<Longrightarrow> expression_tokens (c + 1) rs r \<Longrightarrow>
    chain p c (binary_node op l r) vs e \<Longrightarrow> chain p b l (op # rs @ vs) e"

lemma chain_snoc:
  "chain q b l vs e \<Longrightarrow> binary_precedence (tk_kind op) = c \<Longrightarrow> 0 < c \<Longrightarrow> c \<le> q \<Longrightarrow> c \<le> b \<Longrightarrow> p \<le> c \<Longrightarrow>
   expression_tokens (c + 1) rs r \<Longrightarrow> chain p b l (vs @ op # rs) (binary_node op e r)"
proof (induction rule: chain.induct)
  case (chain_end q b l)
  have "chain p b l (op # rs @ []) (binary_node op l r)"
    using chain_end by (intro chain_op) (auto intro: chain.chain_end)
  then show ?case by simp
next
  case (chain_op op1 c1 q b rs1 r1 l vs e)
  have "chain p c1 (binary_node op1 l r1) (vs @ op # rs) (binary_node op e r)"
    using chain_op by auto
  from chain.chain_op [OF chain_op.hyps(1,2) _ chain_op.hyps(4,5) this] chain_op.hyps(3) chain_op.prems
  show ?case by simp
qed

lemma expression_chain:
  "expression_tokens p ts e \<Longrightarrow> \<exists>us l vs. ts = us @ vs \<and> unary_tokens us l \<and> chain p 7 l vs e"
proof (induction ts arbitrary: p e rule: length_induct)
  case (1 ts)
  from 1(2) show ?case
  proof (cases rule: expression_tokens.cases)
    case expression_unary
    then show ?thesis by (metis append_Nil2 chain_end)
  next
    case (expression_binary q ls l op rs r)
    have "length ls < length ts" using expression_binary by simp
    with 1(1) expression_binary obtain us l0 vs where
      ih: "ls = us @ vs" "unary_tokens us l0" "chain q 7 l0 vs l" by blast
    have "q \<le> 7" using binary_precedence_7 [of "tk_kind op"] expression_binary(4) by simp
    from chain_snoc [OF ih(3) expression_binary(4,5) order.refl this expression_binary(6,7)]
    have "chain p 7 l0 (vs @ op # rs) (binary_node op l r)" .
    moreover have "binary_node op l r = e"
      using expression_tokens_span(1) [OF expression_binary(3)] expression_tokens_span(1) [OF expression_binary(7)]
      by (simp add: binary_node_def expression_binary(2) span_of_eq span_from_positions_def)
    ultimately show ?thesis using ih(1,2) expression_binary(1) by auto
  qed
qed

text \<open>The suffixes of a primary expression, in the order the parser reads them.\<close>

inductive suffix :: "expression \<Rightarrow> token list \<Rightarrow> expression \<Rightarrow> bool" where
  suffix_call: "tk_kind lp = TkLeftParen \<Longrightarrow> arguments_tokens as args \<Longrightarrow> tk_kind rp = TkRightParen \<Longrightarrow>
    suffix e (lp # as @ [rp]) (ECall e args (span_to e rp))"
| suffix_call_empty: "tk_kind lp = TkLeftParen \<Longrightarrow> tk_kind rp = TkRightParen \<Longrightarrow>
    suffix e [lp, rp] (ECall e [] (span_to e rp))"
| suffix_field: "tk_kind d = TkDot \<Longrightarrow> tk_kind f = TkIdentifier \<Longrightarrow>
    suffix e [d, f] (EField e (ident_of f) (span_to e f))"
| suffix_index: "tk_kind lb = TkLeftBracket \<Longrightarrow> expression_tokens 1 is i \<Longrightarrow> tk_kind rb = TkRightBracket \<Longrightarrow>
    suffix e (lb # is @ [rb]) (EIndex e i (span_to e rb))"
| suffix_subslice: "tk_kind lb = TkLeftBracket \<Longrightarrow> expression_tokens 1 is i \<Longrightarrow> tk_kind dd = TkDotDot \<Longrightarrow>
    expression_tokens 1 js j \<Longrightarrow> tk_kind rb = TkRightBracket \<Longrightarrow>
    suffix e (lb # is @ dd # js @ [rb]) (ESubslice e i j (span_to e rb))"

inductive suffixes :: "expression \<Rightarrow> token list \<Rightarrow> expression \<Rightarrow> bool" where
  suffixes_none: "suffixes e [] e"
| suffixes_more: "suffix e us e1 \<Longrightarrow> suffixes e1 vs e2 \<Longrightarrow> suffixes e (us @ vs) e2"

lemma suffixes_snoc: "suffixes e us e1 \<Longrightarrow> suffix e1 vs e2 \<Longrightarrow> suffixes e (us @ vs) e2"
proof (induction rule: suffixes.induct)
  case (suffixes_none e)
  from suffixes_more [OF suffixes_none suffixes.suffixes_none] show ?case by simp
next
  case (suffixes_more e us e1 ws e3)
  from suffixes.suffixes_more [OF suffixes_more.hyps(1) suffixes_more.IH [OF suffixes_more.prems]]
  show ?case by simp
qed

fun is_primary :: "expression \<Rightarrow> bool" where
  "is_primary (ECall _ _ _) = False"
| "is_primary (EField _ _ _) = False"
| "is_primary (EIndex _ _ _) = False"
| "is_primary (ESubslice _ _ _ _) = False"
| "is_primary _ = True"

definition split_postfix :: "token list \<Rightarrow> expression \<Rightarrow> bool" where
  "split_postfix ts e \<longleftrightarrow>
     (\<exists>us x vs. ts = us @ vs \<and> postfix_tokens us x \<and> is_primary x \<and> suffixes x vs e)"

lemma split_primary: "postfix_tokens ts e \<Longrightarrow> is_primary e \<Longrightarrow> split_postfix ts e"
  unfolding split_postfix_def by (metis append_Nil2 suffixes_none)

lemma split_suffix: "split_postfix ts e \<Longrightarrow> suffix e vs e2 \<Longrightarrow> split_postfix (ts @ vs) e2"
  unfolding split_postfix_def using suffixes_snoc by (metis append_assoc)

lemma span_to_postfix: "postfix_tokens ts e \<Longrightarrow> span_of (ts @ us @ [t]) = span_to e t"
  by (rule postfix_span [symmetric])

lemma postfix_split: "postfix_tokens ts e \<Longrightarrow> split_postfix ts e"
proof (induction "length ts" arbitrary: ts e rule: less_induct)
  case less
  from less.prems show ?case
  proof (cases rule: postfix_tokens.cases)
    case (postfix_call cs c lp as args rp)
    then show ?thesis
      using split_suffix [OF less.hyps suffix_call, of cs c lp as args rp] span_to_postfix [of cs c "lp # as" rp] by simp
  next
    case (postfix_call_empty cs c lp rp)
    then show ?thesis
      using split_suffix [OF less.hyps suffix_call_empty, of cs c lp rp] span_to_postfix [of cs c "[lp]" rp] by simp
  next
    case (postfix_field os ob d f)
    then show ?thesis
      using split_suffix [OF less.hyps suffix_field, of os ob d f] span_to_postfix [of os ob "[d]" f] by simp
  next
    case (postfix_index os ob lb "is" i rb)
    then show ?thesis
      using split_suffix [OF less.hyps suffix_index, of os ob lb "is" i rb] span_to_postfix [of os ob "lb # is" rb] by simp
  next
    case (postfix_subslice os ob lb "is" i dd js j rb)
    then show ?thesis
      using split_suffix [OF less.hyps suffix_subslice, of os ob lb "is" i dd js j rb]
        span_to_postfix [of os ob "lb # is @ dd # js" rb] by simp
  qed (rule split_primary [OF less.prems], simp)+
qed

lemma suffix_head: "suffix e ts e2 \<Longrightarrow> ts \<noteq> [] \<and> tk_kind (hd ts) \<in> {TkLeftParen, TkDot, TkLeftBracket}"
  by (cases rule: suffix.cases) auto

section \<open>Expressions\<close>

text \<open>What may follow an expression read at a precedence.\<close>

definition ends :: "nat \<Rightarrow> token list \<Rightarrow> bool" where
  "ends p ts \<longleftrightarrow> binary_precedence (hd_kind ts) < p \<and> hd_kind ts \<notin> {TkLeftParen, TkDot, TkLeftBracket}"

lemma ends_kind: "binary_precedence k = 0 \<Longrightarrow> k \<notin> {TkLeftParen, TkDot, TkLeftBracket} \<Longrightarrow> hd_kind ts = k \<Longrightarrow> ends 1 ts"
  by (simp add: ends_def)

definition expr_complete :: "expression_parser \<Rightarrow> nat \<Rightarrow> bool" where
  "expr_complete expr n \<longleftrightarrow> (\<forall>p ts e st rs. expression_tokens p ts e \<longrightarrow> 1 \<le> p \<longrightarrow> length ts < n \<longrightarrow>
     at st (ts @ rs) \<longrightarrow> ends p rs \<longrightarrow> yields (expr p st) e rs)"

lemma expr_completeD:
  "expr_complete expr n \<Longrightarrow> expression_tokens p ts e \<Longrightarrow> 1 \<le> p \<Longrightarrow> length ts < n \<Longrightarrow> at st (ts @ rs) \<Longrightarrow> ends p rs \<Longrightarrow>
   yields (expr p st) e rs"
  by (simp add: expr_complete_def)

lemma expression_first: "expression_tokens p ts e \<Longrightarrow> at st (ts @ rs) \<Longrightarrow> k \<notin> expression_kinds \<Longrightarrow> \<not> check k st"
  using expression_tokens_span(1) [of p ts e] by (auto simp: at_check)

lemma parse_arguments_complete:
  "arguments_tokens ts es \<Longrightarrow> expr_complete expr n \<Longrightarrow> length ts < n \<Longrightarrow> length ts \<le> m \<Longrightarrow> at st (ts @ rs) \<Longrightarrow>
   hd_kind rs = TkRightParen \<Longrightarrow> yields (parse_arguments expr m args st) (args @ es) rs"
proof (induction es arbitrary: ts m args st)
  case Nil
  then show ?case by (auto elim: arguments_tokens.cases)
next
  case (Cons e es)
  have "ts \<noteq> []" using Cons.prems(1) by (simp add: expression_tokens_span)
  then obtain k where m: "m = Suc k" using Cons.prems(4) by (cases m) auto
  from Cons.prems(1) show ?case
  proof (cases rule: arguments_tokens.cases)
    case arguments_last
    show ?thesis
      unfolding m parse_arguments.simps Let_def
      apply (rule yields_bind, rule expr_completeD [OF Cons.prems(2) arguments_last(2)])
      apply (use Cons.prems arguments_last in \<open>auto simp: ends_def binary_precedence_def\<close>)[4]
      apply (rule yields_no_match, assumption)
      using Cons.prems(6) apply simp
      using arguments_last(1) apply (simp add: yields_return)
      done
  next
    case (arguments_more us c vs)
    show ?thesis
      unfolding m parse_arguments.simps Let_def
      apply (rule yields_bind, rule expr_completeD [OF Cons.prems(2) arguments_more(2), of _ "c # vs @ rs"])
      apply (use Cons.prems arguments_more in \<open>auto simp: ends_def binary_precedence_def\<close>)[4]
      apply (rule yields_match, assumption, rule arguments_more(3))
      using Cons.IH [OF arguments_more(4) Cons.prems(2), of k _ "args @ [e]"] Cons.prems arguments_more(1) m
      apply simp
      done
  qed
qed

lemma parse_call_complete:
  assumes expr: "expr_complete expr n" and st: "at st (as @ rp # rs)" and rp: "tk_kind rp = TkRightParen"
    and as: "as = [] \<and> args = [] \<or> arguments_tokens as args" and n: "length as < n" "length as \<le> m"
  shows "yields (parse_call expr m e st) (ECall e args (span_to e rp)) rs"
proof -
  have "yields (if check TkRightParen st then Some ([], st) else parse_arguments expr m [] st) args (rp # rs)"
  proof (cases "as = []")
    case True
    then show ?thesis using as st rp expression_tokens_span(4) [of "[]" args] by (auto simp: at_check yields_return)
  next
    case False
    then have a: "arguments_tokens as args" using as by simp
    then have "\<not> check TkRightParen st"
      using st expression_tokens_span(4) [OF a] by (auto simp: at_check expression_kinds_def)
    then show ?thesis using parse_arguments_complete [OF a expr n st, of "[]"] rp by simp
  qed
  then show ?thesis
    unfolding parse_call_def Let_def
    by (rule yields_bind) (rule yields_consume, assumption, rule rp, rule yields_return)
qed

lemma parse_field_complete:
  "at st (f # rs) \<Longrightarrow> tk_kind f = TkIdentifier \<Longrightarrow>
   yields (Some (parse_field e st)) (EField e (ident_of f) (span_to e f)) rs"
  by (simp add: parse_field_def parse_identifier_def consume_def at_check at_token at_bump ident_of_def span_to_def
    yields_return end_position_from_token_def span_from_token_def span_between_tokens_def span_from_positions_def)

lemma parse_index_complete:
  assumes expr: "expr_complete expr n" and st: "at st (is @ rb # rs)" and rb: "tk_kind rb = TkRightBracket"
    and i: "expression_tokens 1 is i" and n: "length is < n"
  shows "yields (parse_index expr m e st) (EIndex e i (span_to e rb)) rs"
proof -
  have "\<not> check TkDotDot st" by (rule expression_first [OF i st]) (simp add: expression_kinds_def)
  then show ?thesis
    unfolding parse_index_def Let_def
    apply (simp only: if_False)
    apply (rule yields_bind, rule expr_completeD [OF expr i _ n st])
    using rb apply (simp_all add: ends_def binary_precedence_def)[2]
    apply (rule yields_no_match, assumption)
    using rb apply simp
    apply simp
    apply (rule yields_consume, assumption, rule rb, rule yields_return, assumption)
    done
qed

lemma parse_subslice_complete:
  assumes expr: "expr_complete expr n" and st: "at st (is @ dd # js @ rb # rs)"
    and k: "tk_kind dd = TkDotDot" "tk_kind rb = TkRightBracket"
    and ij: "expression_tokens 1 is i" "expression_tokens 1 js j" and n: "length is < n" "length js < n"
  shows "yields (parse_index expr m e st) (ESubslice e i j (span_to e rb)) rs"
proof -
  have "\<not> check TkDotDot st" by (rule expression_first [OF ij(1) st]) (simp add: expression_kinds_def)
  moreover have "\<not> check TkRightBracket st1" if "at st1 (js @ rb # rs)" for st1
    by (rule expression_first [OF ij(2) that]) (simp add: expression_kinds_def)
  ultimately show ?thesis
    unfolding parse_index_def Let_def
    apply (simp only: if_False)
    apply (rule yields_bind, rule expr_completeD [OF expr ij(1) _ n(1) st])
    using k apply (simp_all add: ends_def binary_precedence_def)[2]
    apply (rule yields_match, assumption, rule k(1))
    apply simp
    apply (rule yields_bind, rule expr_completeD [OF expr ij(2) _ n(2)], simp, assumption)
    using k apply (simp_all add: ends_def binary_precedence_def at_check)[1]
    using k apply (simp add: at_check)
    apply (rule yields_consume, assumption, rule k(2), rule yields_return, assumption)
    done
qed

lemma parse_postfix_complete:
  "suffixes e ts e2 \<Longrightarrow> expr_complete expr n \<Longrightarrow> length ts < n \<Longrightarrow> length ts < m \<Longrightarrow> at st (ts @ rs) \<Longrightarrow>
   hd_kind rs \<notin> {TkLeftParen, TkDot, TkLeftBracket} \<Longrightarrow> yields (parse_postfix_expression expr m e st) e2 rs"
proof (induction arbitrary: m st rule: suffixes.induct)
  case (suffixes_none e)
  then obtain k where m: "m = Suc k" by (cases m) auto
  show ?case using suffixes_none by (simp add: m at_check yields_return)
next
  case (suffixes_more e us e1 vs e2)
  obtain k where m: "m = Suc k" using suffixes_more.prems(3) by (cases m) auto
  have us: "us \<noteq> []" using suffix_head [OF suffixes_more.hyps(1)] by simp
  have tail: "yields (parse_postfix_expression expr k e1 st1) e2 rs" if "at st1 (vs @ rs)" for st1
    using suffixes_more.IH [OF suffixes_more.prems(1) _ _ that suffixes_more.prems(5)] suffixes_more.prems(2,3) us m
    by (cases us) auto
  note st = suffixes_more.prems(4)
  from suffixes_more.hyps(1) show ?case
  proof (cases rule: suffix.cases)
    case (suffix_call lp as args rp)
    have "yields (parse_call expr k e (bump st)) e1 (vs @ rs)"
      unfolding suffix_call(2)
      by (rule parse_call_complete [OF suffixes_more.prems(1) _ suffix_call(5), of _ as])
        (use st suffix_call suffixes_more.prems m in \<open>auto intro: at_bump(1)\<close>)
    from yields_bind [where f = "parse_postfix_expression expr k", OF this tail] show ?thesis
      using st suffix_call by (simp add: m at_check)
  next
    case (suffix_call_empty lp rp)
    have "yields (parse_call expr k e (bump st)) e1 (vs @ rs)"
      unfolding suffix_call_empty(2)
      by (rule parse_call_complete [OF suffixes_more.prems(1) _ suffix_call_empty(4), of _ "[]"])
        (use st suffix_call_empty suffixes_more.prems m in \<open>auto intro: at_bump(1)\<close>)
    from yields_bind [where f = "parse_postfix_expression expr k", OF this tail] show ?thesis
      using st suffix_call_empty by (simp add: m at_check)
  next
    case (suffix_field d f)
    have "at (bump st) (f # vs @ rs)" using st suffix_field by (auto intro: at_bump(1))
    from parse_field_complete [OF this suffix_field(4), of e]
    obtain st1 where "parse_field e (bump st) = (e1, st1)" "at st1 (vs @ rs)"
      using suffix_field(2) by (auto simp: yields_def)
    then show ?thesis using st suffix_field(1,3) by (simp add: m at_check tail)
  next
    case (suffix_index lb "is" i rb)
    have "yields (parse_index expr k e (bump st)) e1 (vs @ rs)"
      unfolding suffix_index(2)
      by (rule parse_index_complete [OF suffixes_more.prems(1) _ suffix_index(5,4)])
        (use st suffix_index suffixes_more.prems m in \<open>auto intro: at_bump(1)\<close>)
    from yields_bind [where f = "parse_postfix_expression expr k", OF this tail] show ?thesis
      using st suffix_index by (simp add: m at_check)
  next
    case (suffix_subslice lb "is" i dd js j rb)
    have "yields (parse_index expr k e (bump st)) e1 (vs @ rs)"
      unfolding suffix_subslice(2)
      by (rule parse_subslice_complete [OF suffixes_more.prems(1) _ suffix_subslice(5,7,4,6)])
        (use st suffix_subslice suffixes_more.prems m in \<open>auto intro: at_bump(1)\<close>)
    from yields_bind [where f = "parse_postfix_expression expr k", OF this tail] show ?thesis
      using st suffix_subslice by (simp add: m at_check)
  qed
qed

lemma parse_primary_complete:
  assumes ts: "postfix_tokens ts e" "is_primary e" and expr: "expr_complete expr n" "length ts \<le> n"
    and st: "at st (ts @ rs)"
  shows "yields (parse_primary_expression expr st) e rs"
  using ts(1)
proof (cases rule: postfix_tokens.cases)
  case (primary_slice s lp ds d c ns l rp)
  have at: "at (bump st) (lp # ds @ c # ns @ rp # rs)" and cur: "current st = s"
    using st primary_slice(8) by (auto simp: at_token intro: at_bump(1))
  have "yields (parse_slice_constructor expr s (bump st)) e rs"
    unfolding parse_slice_constructor_def Let_def
    apply (rule yields_consume, rule at, rule primary_slice(3))
    apply (rule yields_bind, rule expr_completeD [OF expr(1) primary_slice(4)], simp)
    using primary_slice expr(2) apply simp
    apply assumption
    using primary_slice apply (simp add: ends_def binary_precedence_def)
    apply (rule yields_consume, assumption, rule primary_slice(5))
    apply (rule yields_bind, rule expr_completeD [OF expr(1) primary_slice(6)], simp)
    using primary_slice expr(2) apply simp
    apply assumption
    using primary_slice apply (simp add: ends_def binary_precedence_def)
    apply (rule yields_consume, assumption, rule primary_slice(7))
    apply (simp add: yields_return primary_slice span_between_of [of s rp "lp # ds @ c # ns"])
    done
  then show ?thesis using primary_slice(2) by (simp add: parse_primary_expression_def cur)
next
  case (primary_parenthesized lp es x rp)
  have at: "at (bump st) (es @ rp # rs)" and cur: "current st = lp"
    using st primary_parenthesized(5) by (auto simp: at_token intro: at_bump(1))
  have "yields (parse_parenthesized expr lp (bump st)) e rs"
    unfolding parse_parenthesized_def Let_def
    apply (rule yields_bind, rule expr_completeD [OF expr(1) primary_parenthesized(3) _ _ at], simp)
    using primary_parenthesized expr(2) apply (simp_all add: ends_def binary_precedence_def)[2]
    apply (rule yields_consume, assumption, rule primary_parenthesized(4))
    apply (simp add: yields_return primary_parenthesized span_between_of [of lp rp es])
    done
  then show ?thesis using primary_parenthesized(2) by (simp add: parse_primary_expression_def cur)
qed (use ts(2) st in \<open>auto simp: parse_primary_expression_def at_token span_from_token_of intro: yields_token\<close>)

lemma parse_unary_complete:
  assumes ts: "unary_tokens ts e" and expr: "expr_complete expr n" "length ts \<le> n"
    and st: "at st (ts @ rs)" and rs: "hd_kind rs \<notin> {TkLeftParen, TkDot, TkLeftBracket}"
  shows "yields (parse_unary_expression expr n st) e rs"
  using ts
proof (cases rule: unary_tokens.cases)
  case (unary_prefix op us x)
  have at: "at (bump st) (us @ rs)" and cur: "current st = op" and ch: "check TkBang st \<or> check TkMinus st"
    using st unary_prefix(1,3) by (auto simp: at_token at_check intro: at_bump(1))
  have x: "expression_tokens 7 us x" using unary_prefix(4) by (rule expression_unary)
  have "ends 7 rs" using rs binary_precedence_7 [of "hd_kind rs"] by (simp add: ends_def not_le)
  then have "yields (expr 7 (bump st)) x rs"
    using unary_prefix(1) expr(2) by (intro expr_completeD [OF expr(1) x _ _ at]) auto
  moreover have "us \<noteq> []" "expression_span x = span_of us" using expression_tokens_span(1) [OF x] by auto
  ultimately show ?thesis
    using ch unary_prefix(1,2)
    by (auto simp: parse_unary_expression_def cur Let_def span_of_eq span_from_positions_def intro!: yields_bind yields_return)
next
  case unary_postfix
  then obtain us x vs where e: "ts = us @ vs" "postfix_tokens us x" "is_primary x" "suffixes x vs e"
    using postfix_split [of ts e] unfolding split_postfix_def by blast
  have us: "us \<noteq> []" "tk_kind (hd us) \<noteq> TkBang" "tk_kind (hd us) \<noteq> TkMinus"
    using expression_tokens_span(3) [OF e(2)] by auto
  then have ch: "\<not> (check TkBang st \<or> check TkMinus st)" using st e(1) by (simp add: at_check)
  have vs: "length vs < n" using us(1) expr(2) e(1) by (cases us) auto
  show ?thesis
    unfolding parse_unary_expression_def if_not_P [OF ch]
  proof (rule yields_bind)
    show "yields (parse_primary_expression expr st) x (vs @ rs)"
      by (rule parse_primary_complete [OF e(2,3) expr(1)]) (use expr(2) st e(1) in auto)
  qed (rule parse_postfix_complete [OF e(4) expr(1) vs vs _ rs])
qed

lemma parse_binary_loop_complete:
  "chain p b l ts e \<Longrightarrow> expr_complete expr n \<Longrightarrow> length ts < n \<Longrightarrow> length ts < m \<Longrightarrow> at st (ts @ rs) \<Longrightarrow> ends p rs \<Longrightarrow>
   yields (parse_binary_loop expr m p l st) e rs"
proof (induction arbitrary: m st rule: chain.induct)
  case (chain_end p b l)
  then obtain k where m: "m = Suc k" by (cases m) auto
  show ?case using chain_end by (simp add: m Let_def at_current ends_def yields_return)
next
  case (chain_op op c p b us r l vs e)
  obtain k where m: "m = Suc k" using chain_op.prems(3) by (cases m) auto
  have at: "at (bump st) (us @ vs @ rs)" and cur: "current st = op"
    using chain_op.prems(4) by (auto simp: at_token intro: at_bump(1))
  have "ends (c + 1) (vs @ rs)"
    using chain_op.hyps(6)
  proof (cases rule: chain.cases)
    case chain_end
    then show ?thesis using chain_op.prems(5) chain_op.hyps(3) by (simp add: ends_def)
  next
    case (chain_op op2 c2 us2 r2 vs2)
    then show ?thesis by (auto simp: ends_def binary_precedence_def)
  qed
  then have "yields (expr (c + 1) (bump st)) r (vs @ rs)"
    using chain_op.prems(2) by (intro expr_completeD [OF chain_op.prems(1) chain_op.hyps(5) _ _ at]) auto
  then show ?case
    unfolding m parse_binary_loop.simps cur chain_op.hyps(1) Let_def if_not_P [OF leD [OF chain_op.hyps(3)]]
    by (rule yields_bind) (unfold binary_node_def [symmetric], rule chain_op.IH,
      use chain_op.prems m in auto)
qed

lemma parse_expression_complete: "expr_complete (parse_expression n) n"
proof (induction n)
  case 0
  show ?case by (simp add: expr_complete_def)
next
  case (Suc n)
  show ?case
    unfolding expr_complete_def
  proof (intro allI impI)
    fix p ts e st rs
    assume a: "expression_tokens p ts e" "1 \<le> p" "length ts < Suc n" "at st (ts @ rs)" "ends p rs"
    obtain us l vs where e: "ts = us @ vs" "unary_tokens us l" "chain p 7 l vs e"
      using expression_chain [OF a(1)] by blast
    have "us \<noteq> []" using expression_tokens_span(2) [OF e(2)] by simp
    then have vs: "length vs < n" using a(3) e(1) by (cases us) auto
    have head: "hd_kind (vs @ rs) \<notin> {TkLeftParen, TkDot, TkLeftBracket}"
      using e(3) a(5) by (cases rule: chain.cases) (auto simp: ends_def binary_precedence_def)
    show "yields (parse_expression (Suc n) p st) e rs"
      unfolding parse_expression.simps
    proof (rule yields_bind)
      show "yields (parse_unary_expression (parse_expression n) n st) l (vs @ rs)"
        by (rule parse_unary_complete [OF e(2) Suc.IH _ _ head]) (use a(3,4) e(1) in auto)
    qed (rule parse_binary_loop_complete [OF e(3) Suc.IH vs vs _ a(5)])
  qed
qed

lemmas expression_yields = expr_completeD [OF parse_expression_complete]

lemma ends_1: "tk_kind t \<in> {TkSemicolon, TkEqual, TkLeftBrace} \<Longrightarrow> ends 1 (t # rs)"
  by (auto simp: ends_def binary_precedence_def)

lemma expression_then:
  assumes "expression_tokens 1 es e" "length es < n" "at st (es @ t # rs)" "tk_kind t \<in> {TkSemicolon, TkEqual, TkLeftBrace}"
    "\<And>st. at st (t # rs) \<Longrightarrow> yields (f e st) y us"
  shows "yields (Option.bind (parse_expression n 1 st) (case_prod f)) y us"
  by (rule yields_bind, rule expression_yields [OF assms(1) order.refl assms(2,3) ends_1 [OF assms(4)]], rule assms(5))

lemma type_then:
  "type_tokens ts ty \<Longrightarrow> length ts < n \<Longrightarrow> at st (ts @ rs) \<Longrightarrow> (\<And>st. at st rs \<Longrightarrow> yields (f ty st) y us) \<Longrightarrow>
   yields (Option.bind (parse_type n st) (case_prod f)) y us"
  by (rule yields_bind, rule parse_type_complete)

section \<open>Statements\<close>

definition block_complete :: "block_parser \<Rightarrow> nat \<Rightarrow> bool" where
  "block_complete block n \<longleftrightarrow>
     (\<forall>ts b st rs. block_tokens ts b \<longrightarrow> length ts < n \<longrightarrow> at st (ts @ rs) \<longrightarrow> yields (block st) b rs)"

lemma block_then:
  "block_complete block n \<Longrightarrow> block_tokens ts b \<Longrightarrow> length ts < n \<Longrightarrow> at st (ts @ rs) \<Longrightarrow>
   (\<And>st. at st rs \<Longrightarrow> yields (f b st) y us) \<Longrightarrow> yields (Option.bind (block st) (case_prod f)) y us"
  unfolding block_complete_def by (rule yields_bind) blast+

lemma block_end: "block_tokens bs b \<Longrightarrow> span_end (block_span b) = end_position_from_token (last bs)"
  by (simp add: block_tokens_span)

lemma let_complete:
  assumes "tk_kind l = TkLet" "tk_kind i = TkIdentifier" "tk_kind c = TkColon" "type_tokens tys ty"
    "tk_kind eq = TkEqual" "expression_tokens 1 es e" "tk_kind s = TkSemicolon"
    "at st (l # i # c # tys @ eq # es @ s # rs)" "length tys < n" "length es < n"
  shows "yields (parse_let_statement n st) (StLet (ident_of i) ty e (span_of (l # i # c # tys @ eq # es @ [s]))) rs"
  unfolding parse_let_statement_def Let_def
  by (rule yields_consume, rule assms, rule assms, rule yields_identifier, assumption, rule assms,
    rule yields_consume, assumption, rule assms, rule type_then, rule assms, rule assms, assumption,
    rule yields_consume, assumption, rule assms, rule expression_then, rule assms, rule assms, assumption, simp add: assms,
    rule yields_consume, assumption, rule assms,
    simp add: yields_return span_between_of [of l s "i # c # tys @ eq # es"])

lemma assignment_complete:
  assumes "expression_tokens 1 xs x" "tk_kind eq = TkEqual" "expression_tokens 1 es e" "tk_kind s = TkSemicolon"
    "at st (xs @ eq # es @ s # rs)" "length xs < n" "length es < n"
  shows "yields (parse_assignment_or_call_statement n st) (StAssignment x e (span_of (xs @ eq # es @ [s]))) rs"
  unfolding parse_assignment_or_call_statement_def Let_def
  apply (rule expression_then, rule assms, rule assms, rule assms, simp add: assms)
  apply (rule yields_match, assumption, rule assms)
  apply (simp only: if_True)
  apply (rule expression_then, rule assms, rule assms, assumption, simp add: assms)
  apply (rule yields_consume, assumption, rule assms)
  using expression_tokens_span(1) [OF assms(1)]
  apply (simp add: yields_return span_to_def span_of_eq span_from_positions_def)
  done

lemma call_complete:
  assumes "expression_tokens 1 es e" "is_call e" "tk_kind s = TkSemicolon" "at st (es @ s # rs)" "length es < n"
  shows "yields (parse_assignment_or_call_statement n st) (StCall e (span_of (es @ [s]))) rs"
  unfolding parse_assignment_or_call_statement_def Let_def
  apply (rule expression_then, rule assms, rule assms, rule assms, simp add: assms)
  apply (rule yields_no_match, assumption, simp add: assms)
  apply (simp only: if_False if_True assms(2))
  apply (rule yields_consume, assumption, rule assms)
  using expression_tokens_span(1) [OF assms(1)]
  apply (simp add: yields_return span_to_def span_of_eq span_from_positions_def)
  done

lemma return_complete:
  assumes "tk_kind r = TkReturn" "tk_kind s = TkSemicolon" "at st (r # s # rs)"
  shows "yields (parse_return_statement n st) (StReturn None (span_of [r, s])) rs"
  unfolding parse_return_statement_def Let_def
  apply (rule yields_consume, rule assms, rule assms)
  apply (rule yields_bind [where x = None and rs = "s # rs"])
  using assms(2) apply (simp add: at_check lex_error_before_semicolon_def yields_return)
  using assms(2) apply (simp add: at_def)
  apply (rule yields_consume, assumption, rule assms)
  apply (simp add: yields_return span_between_of [of r s "[]"])
  done

lemma return_value_complete:
  assumes "tk_kind r = TkReturn" "expression_tokens 1 es e" "tk_kind s = TkSemicolon" "at st (r # es @ s # rs)" "length es < n"
  shows "yields (parse_return_statement n st) (StReturn (Some e) (span_of (r # es @ [s]))) rs"
proof -
  have "\<not> check TkSemicolon st1" if "at st1 (es @ s # rs)" for st1
    by (rule expression_first [OF assms(2) that]) (simp add: expression_kinds_def)
  then show ?thesis
    unfolding parse_return_statement_def Let_def
    apply (rule_tac yields_consume, rule_tac assms, rule_tac assms)
    apply (rule yields_bind [where x = "Some e" and rs = "s # rs"])
    apply (simp, rule expression_then, rule assms, rule assms, assumption, simp add: assms, simp add: yields_return)
    apply (rule yields_consume, assumption, rule assms)
    apply (simp add: yields_return span_between_of [of r s es])
    done
qed

lemma break_complete:
  "tk_kind b = TkBreak \<Longrightarrow> tk_kind s = TkSemicolon \<Longrightarrow> at st (b # s # rs) \<Longrightarrow>
   yields (Some (parse_break_statement st)) (StBreak (span_of [b, s])) rs"
  using at_bump(1) [of st b "s # rs"] at_bump(1) [of "bump st" s rs]
  by (simp add: parse_break_statement_def consume_at [of st b "s # rs"] consume_at [of "bump st" s rs]
    yields_return span_between_of [of b s "[]"])

lemma continue_complete:
  "tk_kind b = TkContinue \<Longrightarrow> tk_kind s = TkSemicolon \<Longrightarrow> at st (b # s # rs) \<Longrightarrow>
   yields (Some (parse_continue_statement st)) (StContinue (span_of [b, s])) rs"
  using at_bump(1) [of st b "s # rs"] at_bump(1) [of "bump st" s rs]
  by (simp add: parse_continue_statement_def consume_at [of st b "s # rs"] consume_at [of "bump st" s rs]
    yields_return span_between_of [of b s "[]"])

lemma if_complete:
  assumes "block_complete block n" "tk_kind i = TkIf" "expression_tokens 1 cs c" "block_tokens bs b"
    "at st (i # cs @ bs @ rs)" "hd_kind rs \<noteq> TkElse" "length cs < n" "length bs < n"
  shows "yields (parse_if_statement block n st) (StIf c b None (span_of (i # cs @ bs))) rs"
proof -
  obtain lb bs' where bs: "bs = lb # bs'" "tk_kind lb = TkLeftBrace"
    using block_tokens_span [OF assms(4)] by (cases bs) auto
  show ?thesis
    unfolding parse_if_statement_def Let_def
    apply (rule yields_consume, rule assms, rule assms)
    apply (rule expression_then [where t = lb and rs = "bs' @ rs"], rule assms, rule assms, simp add: bs, simp add: bs)
    apply (rule block_then, rule assms, rule assms, rule assms, simp add: bs)
    apply (rule yields_no_match, assumption, rule assms, simp)
    apply (simp add: yields_return bs(1) span_of_eq block_end [OF assms(4)])
    done
qed

lemma if_else_complete:
  assumes "block_complete block n" "tk_kind i = TkIf" "expression_tokens 1 cs c" "block_tokens bs b"
    "tk_kind el = TkElse" "block_tokens es e"
    "at st (i # cs @ bs @ el # es @ rs)" "length cs < n" "length bs < n" "length es < n"
  shows "yields (parse_if_statement block n st) (StIf c b (Some e) (span_of (i # cs @ bs @ el # es))) rs"
proof -
  obtain lb bs' where bs: "bs = lb # bs'" "tk_kind lb = TkLeftBrace"
    using block_tokens_span [OF assms(4)] by (cases bs) auto
  show ?thesis
    unfolding parse_if_statement_def Let_def
    apply (rule yields_consume, rule assms, rule assms)
    apply (rule expression_then [where t = lb and rs = "bs' @ el # es @ rs"], rule assms, rule assms, simp add: bs, simp add: bs)
    apply (rule block_then, rule assms, rule assms, rule assms, simp add: bs)
    apply (rule yields_match, assumption, rule assms)
    apply (rule yields_bind [where x = "Some e" and rs = rs])
    apply (simp, rule block_then, rule assms, rule assms, rule assms, assumption, simp add: yields_return)
    using block_tokens_span [OF assms(6)]
    apply (simp add: yields_return span_of_eq span_from_positions_def)
    done
qed

lemma while_complete:
  assumes "block_complete block n" "tk_kind w = TkWhile" "expression_tokens 1 cs c" "block_tokens bs b"
    "at st (w # cs @ bs @ rs)" "length cs < n" "length bs < n"
  shows "yields (parse_while_statement block n st) (StWhile c b (span_of (w # cs @ bs))) rs"
proof -
  obtain lb bs' where bs: "bs = lb # bs'" "tk_kind lb = TkLeftBrace"
    using block_tokens_span [OF assms(4)] by (cases bs) auto
  show ?thesis
    unfolding parse_while_statement_def Let_def
    apply (rule yields_consume, rule assms, rule assms)
    apply (rule expression_then [where t = lb and rs = "bs' @ rs"], rule assms, rule assms, simp add: bs, simp add: bs)
    apply (rule block_then, rule assms, rule assms, rule assms, simp add: bs)
    apply (simp add: yields_return bs(1) span_of_eq block_end [OF assms(4)])
    done
qed

lemma unsafe_complete:
  assumes "block_complete block n" "tk_kind u = TkUnsafe" "block_tokens bs b" "at st (u # bs @ rs)" "length bs < n"
  shows "yields (parse_unsafe_statement block st) (StUnsafe b (span_of (u # bs))) rs"
  unfolding parse_unsafe_statement_def Let_def
  apply (rule block_then, rule assms, rule assms, rule assms, rule at_bump(1), rule assms)
  using block_tokens_span [OF assms(3)] assms(4)
  apply (simp add: yields_return span_of_eq span_from_positions_def at_token)
  done

lemma parse_statement_complete:
  assumes s: "statement_tokens ts s" and block: "block_complete block n" and n: "length ts < n"
    and st: "at st (ts @ rs)" and rs: "hd_kind rs \<noteq> TkElse"
  shows "yields (parse_statement block n st) s rs"
proof -
  have k: "check k st \<longleftrightarrow> tk_kind (hd ts) = k" for k
    using statement_tokens_head [OF s] st by (simp add: at_check)
  have expression: "parse_statement block n st = parse_assignment_or_call_statement n st"
    if "expression_tokens 1 us x" "ts = us @ vs" for us x vs
    using expression_tokens_span(1) [OF that(1)] that(2)
    by (auto simp: parse_statement_def k expression_kinds_def)
  from s show ?thesis
  proof (cases rule: statement_tokens.cases)
    case (statement_block b)
    have "yields (block st) b rs"
      using block statement_block n st unfolding block_complete_def by blast
    then show ?thesis
      using block_tokens_span [OF statement_block(2)] statement_block(1)
      by (auto simp: parse_statement_def k intro!: yields_bind yields_return)
  next
    case (statement_unsafe u bs b)
    then show ?thesis
      using unsafe_complete [OF block statement_unsafe(3,4), of st rs] n st by (simp add: parse_statement_def k)
  next
    case (statement_let l i c tys ty eq es e s)
    then show ?thesis using let_complete [OF statement_let(2-8), of st rs n] n st by (simp add: parse_statement_def k)
  next
    case (statement_assignment xs x eq es e s)
    then show ?thesis
      using assignment_complete [OF statement_assignment(2-5), of st rs n] n st expression [OF statement_assignment(2)] by simp
  next
    case (statement_call es e s)
    then show ?thesis
      using call_complete [OF statement_call(3-5), of st rs n] n st expression [OF statement_call(3)] by simp
  next
    case (statement_return r s)
    then show ?thesis using return_complete [OF statement_return(3,4), of st rs n] st by (simp add: parse_statement_def k)
  next
    case (statement_return_value r es e s)
    then show ?thesis
      using return_value_complete [OF statement_return_value(3-5), of st rs n] n st by (simp add: parse_statement_def k)
  next
    case (statement_break b s)
    then show ?thesis using break_complete [OF statement_break(3,4), of st rs] st by (simp add: parse_statement_def k)
  next
    case (statement_continue b s)
    then show ?thesis using continue_complete [OF statement_continue(3,4), of st rs] st by (simp add: parse_statement_def k)
  next
    case (statement_if i cs c bs b)
    then show ?thesis
      using if_complete [OF block statement_if(2-4), of st rs] n st rs by (simp add: parse_statement_def k)
  next
    case (statement_if_else i cs c bs b el es e)
    then show ?thesis
      using if_else_complete [OF block statement_if_else(2-6), of st rs] n st by (simp add: parse_statement_def k)
  next
    case (statement_while w cs c bs b)
    then show ?thesis
      using while_complete [OF block statement_while(2-4), of st rs] n st by (simp add: parse_statement_def k)
  qed
qed

lemma block_complete_mono: "block_complete block n \<Longrightarrow> m \<le> n \<Longrightarrow> block_complete block m"
  by (simp add: block_complete_def)

lemma parse_statements_complete:
  "statements_tokens ts ss \<Longrightarrow> block_complete block n \<Longrightarrow> length ts + 1 < m \<Longrightarrow> m \<le> n \<Longrightarrow>
   at st (ts @ rs) \<Longrightarrow> hd_kind rs = TkRightBrace \<Longrightarrow> yields (parse_statements block m acc st) (acc @ ss) rs"
proof (induction ss arbitrary: ts m acc st)
  case Nil
  then obtain k where m: "m = Suc k" by (cases m) auto
  have "ts = []" using Nil.prems(1) by (cases rule: statements_tokens.cases) auto
  then show ?case using Nil.prems by (simp add: m at_check yields_return)
next
  case (Cons s ss)
  obtain k where m: "m = Suc k" using Cons.prems(3) by (cases m) auto
  obtain us vs where ts: "ts = us @ vs" and s: "statement_tokens us s" and ss: "statements_tokens vs ss"
    using Cons.prems(1) by (cases rule: statements_tokens.cases) auto
  have us: "us \<noteq> []" using statement_tokens_head [OF s] by simp
  have vs: "hd_kind (vs @ rs) \<noteq> TkElse"
    using ss
  proof (cases rule: statements_tokens.cases)
    case statements_none
    then show ?thesis using Cons.prems(6) by simp
  next
    case (statements_more us1 s1 vs1 ss1)
    then show ?thesis using statement_tokens_head [OF statements_more(3)] by (auto simp: expression_kinds_def)
  qed
  have go: "\<not> (check TkRightBrace st \<or> check TkEof st)"
    using statement_tokens_head [OF s] Cons.prems(5) ts by (auto simp: at_check expression_kinds_def)
  have first: "yields (parse_statement block k st) s (vs @ rs)"
    by (rule parse_statement_complete [OF s block_complete_mono [OF Cons.prems(2)] _ _ vs])
      (use Cons.prems(3-5) ts m in auto)
  have "yields (parse_statements block k (acc @ [s]) st1) (acc @ s # ss) rs" if "at st1 (vs @ rs)" for st1
    using Cons.IH [OF ss Cons.prems(2) _ _ that Cons.prems(6), of k "acc @ [s]"] Cons.prems(3,4) ts m us
    by (cases us) auto
  from yields_bind [where f = "\<lambda>s st. parse_statements block k (acc @ [s]) st", OF first this]
  show ?case unfolding m parse_statements.simps if_not_P [OF go] .
qed

lemma parse_block_complete: "block_complete (parse_block_statement n) n"
proof (induction n)
  case 0
  show ?case by (simp add: block_complete_def)
next
  case (Suc n)
  show ?case
    unfolding block_complete_def
  proof (intro allI impI)
    fix ts b st rs
    assume a: "block_tokens ts b" "length ts < Suc n" "at st (ts @ rs)"
    from a(1) show "yields (parse_block_statement (Suc n) st) b rs"
    proof (cases rule: block_tokens.cases)
      case (block_braces lb ss sts rb)
      show ?thesis
        unfolding parse_block_statement.simps Let_def
        apply (rule yields_consume [where t = lb and rs = "ss @ rb # rs"])
        using a(3) block_braces(5) apply simp
        apply (rule block_braces)
        apply (rule yields_bind, rule parse_statements_complete [OF block_braces(3) Suc.IH])
        using a(2) block_braces apply simp
        apply (rule order.refl)
        apply assumption
        using block_braces(4) apply simp
        apply (rule yields_consume, assumption, rule block_braces)
        apply (simp add: yields_return block_braces(1,5) span_between_of [of lb rb ss])
        done
    qed
  qed
qed

lemmas block_yields = block_then [OF parse_block_complete]

section \<open>Declarations\<close>

lemma parse_struct_fields_complete:
  "struct_fields_tokens ts fs \<Longrightarrow> length ts < n \<Longrightarrow> at st (ts @ rs) \<Longrightarrow> hd_kind rs = TkRightBrace \<Longrightarrow>
   yields (parse_struct_fields n acc st) (acc @ fs) rs"
proof (induction arbitrary: n acc st rule: struct_fields_tokens.induct)
  case fields_none
  then obtain k where m: "n = Suc k" by (cases n) auto
  show ?case using fields_none by (simp add: m at_check yields_return)
next
  case (fields_more i c tys ty s ts us fs)
  obtain k where m: "n = Suc k" using fields_more.prems(1) by (cases n) auto
  have st: "at st (i # c # tys @ s # us @ rs)" using fields_more by simp
  then have go: "\<not> (check TkRightBrace st \<or> check TkEof st)" and cur: "current st = i"
    using fields_more.hyps(1) by (auto simp: at_check at_token)
  have len: "length tys < k" "length us < k" using fields_more.prems(1) fields_more.hyps(5) m by auto
  show ?case
    unfolding m parse_struct_fields.simps if_not_P [OF go] Let_def cur
    apply (rule yields_identifier, rule st, rule fields_more)
    apply (rule yields_consume, assumption, rule fields_more)
    apply (rule type_then, rule fields_more, rule len, assumption)
    apply (rule yields_consume, assumption, rule fields_more)
    using fields_more.IH [OF len(2) _ fields_more.prems(3), of _ "acc @ [_]"]
    apply (simp add: fields_more.hyps(5) span_between_of [of i s "c # tys"])
    done
qed

lemma parse_struct_complete:
  assumes "tk_kind s = TkStruct" "tk_kind i = TkIdentifier" "tk_kind lb = TkLeftBrace" "struct_fields_tokens fts fs"
    "tk_kind rb = TkRightBrace" "at st (s # i # lb # fts @ rb # rs)" "length fts < n"
  shows "yields (parse_struct_declaration n st)
    \<lparr>struct_name = ident_of i, struct_fields = fs, struct_span = span_of (s # i # lb # fts @ [rb])\<rparr> rs"
  unfolding parse_struct_declaration_def Let_def
  by (rule yields_consume, rule assms, rule assms, rule yields_identifier, assumption, rule assms,
    rule yields_consume, assumption, rule assms,
    rule yields_bind, rule parse_struct_fields_complete, rule assms, rule assms, assumption, simp add: assms,
    rule yields_consume, assumption, rule assms,
    simp add: yields_return span_between_of [of s rb "i # lb # fts"])

lemma effect_item_complete:
  assumes "effect_item_tokens ts x" "at st (ts @ rs)"
  shows "yields (Some (parse_effect_item st)) x rs"
  using assms(1)
proof (cases rule: effect_item_tokens.cases)
  case (effect_item k kind lp i rp)
  have st: "at st (k # lp # i # rp # rs)" using assms(2) effect_item(7) by simp
  have kind: "effect_kind_of k st1 = (kind, st1)" for st1
    using effect_item(3) by (auto simp: effect_kind_of_def effect_names_def split: if_splits)
  from at_bump(1) [OF st] at_bump(1) [OF at_bump(1) [OF st]] at_bump(1) [OF at_bump(1) [OF at_bump(1) [OF st]]]
  show ?thesis
    using at_bump(1) [of "bump (bump (bump st))" rp rs] st effect_item(1,2,4-7)
    by (simp add: parse_effect_item_def consume_at [of _ k "lp # i # rp # rs"] consume_at [of _ lp "i # rp # rs"]
      parse_identifier_def consume_at [of _ i "rp # rs"] consume_at [of _ rp rs] kind yields_return
      ident_of_def span_between_of [of k rp "[lp, i]"])
qed

lemma effect_item_head: "effect_item_tokens ts x \<Longrightarrow> ts \<noteq> [] \<and> tk_kind (hd ts) = TkIdentifier"
  by (cases rule: effect_item_tokens.cases) auto

lemma effect_items_head: "effect_items_tokens ts xs \<Longrightarrow> ts \<noteq> [] \<and> tk_kind (hd ts) = TkIdentifier"
  by (cases rule: effect_items_tokens.cases) (auto dest: effect_item_head)

lemma effect_items_complete:
  "effect_items_tokens ts xs \<Longrightarrow> length ts < n \<Longrightarrow> at st (ts @ rs) \<Longrightarrow> hd_kind rs \<noteq> TkComma \<Longrightarrow>
   yields (parse_effect_items n acc st) (acc @ xs) rs"
proof (induction arbitrary: n acc st rule: effect_items_tokens.induct)
  case (effects_last ts x)
  then obtain k where m: "n = Suc k" by (cases n) auto
  obtain st1 where 1: "parse_effect_item st = (x, st1)" "at st1 rs"
    using effect_item_complete [OF effects_last.hyps effects_last.prems(2)] by (auto simp: yields_def)
  have "yields (case match_token TkComma st1 of (b, st) \<Rightarrow>
      if b then parse_effect_items k (acc @ [x]) st else Some (acc @ [x], st)) (acc @ [x]) rs"
    by (rule yields_no_match, rule 1, rule effects_last, simp add: yields_return 1)
  then show ?case by (simp add: m 1(1))
next
  case (effects_more ts x c us xs)
  obtain k where m: "n = Suc k" using effects_more.prems(1) by (cases n) auto
  have "at st (ts @ c # us @ rs)" using effects_more.prems(2) by simp
  from effect_item_complete [OF effects_more.hyps(1) this]
  obtain st1 where 1: "parse_effect_item st = (x, st1)" "at st1 (c # us @ rs)" by (auto simp: yields_def)
  have "yields (case match_token TkComma st1 of (b, st) \<Rightarrow>
      if b then parse_effect_items k (acc @ [x]) st else Some (acc @ [x], st)) (acc @ x # xs) rs"
    using effects_more.IH [of k _ "acc @ [x]"] effects_more.prems(1,3) m
    by - (rule yields_match, rule 1, rule effects_more, simp)
  then show ?case by (simp add: m 1(1))
qed

lemma effect_clause_complete:
  assumes "effect_clause_tokens (e # ts) c" "at st (ts @ rs)" "length ts < n"
  shows "yields (parse_contract_effect_clause n e st) c rs"
  using assms(1)
proof (cases rule: effect_clause_tokens.cases)
  case (effects_none e' nn s)
  have "at st (nn # s # rs)" using assms(2) effects_none(5) by simp
  then show ?thesis
    unfolding parse_contract_effect_clause_def Let_def
    apply (rule yields_match, rule_tac effects_none)
    apply (simp only: if_True)
    apply (rule yields_bind, rule yields_return, assumption)
    apply (rule yields_consume, assumption, rule effects_none)
    using effects_none(1,5) apply (simp add: yields_return span_between_of [of e' s "[nn]"])
    done
next
  case (effects_some e' "is" xs s)
  have st: "at st (is @ s # rs)" using assms(2) effects_some(5) by simp
  have "hd_kind (is @ s # rs) \<noteq> TkNone"
    using effect_items_head [OF effects_some(3)] by simp
  then show ?thesis
    unfolding parse_contract_effect_clause_def Let_def
    apply (rule_tac yields_no_match, rule_tac st, assumption)
    apply (simp only: if_False)
    apply (rule yields_bind, rule effect_items_complete [OF effects_some(3) _ st])
    using assms(3) effects_some(5) apply simp
    using effects_some(4) apply simp
    apply (rule yields_consume, assumption, rule effects_some)
    using effects_some(1,5) apply (simp add: yields_return span_between_of [of e' s "is"])
    done
qed

lemma parse_requirement_complete:
  assumes "expression_tokens 1 es e" "tk_kind s = TkSemicolon" "at st (es @ s # rs)" "previous st = r" "length es < n"
  shows "yields (parse_requirement n st) \<lparr>requirement_expression = e, requirement_span = span_of (r # es @ [s])\<rparr> rs"
  unfolding parse_requirement_def Let_def
  by (rule expression_then, rule assms, rule assms, rule assms, simp add: assms,
    rule yields_consume, assumption, rule assms, simp add: yields_return assms(4) span_between_of [of r s es])

lemma parse_contract_clauses_complete:
  "clauses_tokens ts rqs eff \<Longrightarrow> effects = None \<or> eff = None \<Longrightarrow> length ts < n \<Longrightarrow> at st (ts @ rs) \<Longrightarrow>
   hd_kind rs = TkRightBrace \<Longrightarrow>
   yields (parse_contract_clauses n acc effects st) (acc @ rqs, case eff of None \<Rightarrow> effects | Some c \<Rightarrow> Some c) rs"
proof (induction arbitrary: n acc effects st rule: clauses_tokens.induct)
  case clauses_none
  then obtain k where m: "n = Suc k" by (cases n) auto
  show ?case using clauses_none by (simp add: m at_check yields_return)
next
  case (clauses_requires r es e s ts us rqs eff)
  obtain k where m: "n = Suc k" using clauses_requires.prems(2) by (cases n) auto
  have st: "at st (r # es @ s # us @ rs)" using clauses_requires by simp
  then have kind: "\<not> (check TkRightBrace st \<or> check TkEof st)" "check TkRequires st"
    using clauses_requires.hyps(1) by (auto simp: at_check)
  have len: "length es < k" "length us < k" using clauses_requires.prems(2) clauses_requires.hyps(4) m by auto
  let ?req = "\<lparr>requirement_expression = e, requirement_span = span_of ts\<rparr>"
  have "yields (parse_requirement k (bump st)) ?req (us @ rs)"
    unfolding clauses_requires.hyps(4)
    by (rule parse_requirement_complete, rule clauses_requires.hyps(2), rule clauses_requires.hyps(3), rule at_bump(1), rule st,
      rule at_bump(2), rule st, rule len(1))
  from yields_bind [where f = "\<lambda>req. parse_contract_clauses k (acc @ [req]) effects", OF this
    clauses_requires.IH [OF clauses_requires.prems(1) len(2) _ clauses_requires.prems(4)]]
  show ?case by (simp add: m kind)
next
  case (clauses_effects ts c us rqs)
  obtain k where m: "n = Suc k" using clauses_effects.prems(2) by (cases n) auto
  have eff: "effects = None" using clauses_effects.prems(1) by simp
  obtain e ts' where ts: "ts = e # ts'" "tk_kind e = TkEffects"
    using clauses_effects.hyps(1) by (auto elim: effect_clause_tokens.cases)
  have st: "at st (e # ts' @ us @ rs)" using clauses_effects.prems(3) ts by simp
  then have kind: "\<not> (check TkRightBrace st \<or> check TkEof st)" "\<not> check TkRequires st" "check TkEffects st"
    using ts(2) by (auto simp: at_check)
  have len: "length ts' < k" "length us < k" using clauses_effects.prems(2) ts m by auto
  have "yields (parse_contract_effect_clause k e (bump st)) c (us @ rs)"
    by (rule effect_clause_complete, use clauses_effects.hyps(1) ts in simp, rule at_bump(1), rule st, rule len(1))
  from yields_bind [where f = "\<lambda>c. parse_contract_clauses k acc (Some c)", OF this
    clauses_effects.IH [OF disjI2 [OF refl] len(2) _ clauses_effects.prems(4)]]
  show ?case by (simp add: m kind eff Let_def at_bump(2) [OF st])
qed

lemma parse_contract_complete:
  assumes "contract_tokens (c # ts) d" "at st (ts @ rs)" "previous st = c" "length ts < n"
  shows "yields (parse_contract_declaration n st) d rs"
  using assms(1)
proof (cases rule: contract_tokens.cases)
  case (contract_braces c' lb cs rqs eff rb)
  have st: "at st (lb # cs @ rb # rs)" using assms(2) contract_braces(6) by simp
  have len: "length cs < n" using assms(4) contract_braces(6) by simp
  show ?thesis
    unfolding parse_contract_declaration_def Let_def
    apply (rule yields_consume, rule st, rule contract_braces)
    apply (rule yields_bind, rule parse_contract_clauses_complete [OF contract_braces(4) _ len], simp, assumption)
    using contract_braces(5) apply simp
    apply simp
    apply (rule yields_consume, assumption, rule contract_braces)
    using contract_braces(1,6) apply (cases eff)
    apply (simp_all add: yields_return assms(3) span_between_of [of c' rb "lb # cs"])
    done
qed

lemma parse_function_param_complete:
  assumes "param_tokens ts p" "at st (ts @ rs)" "length ts \<le> n"
  shows "yields (parse_function_param n st) p rs"
  using assms(1)
proof (cases rule: param_tokens.cases)
  case (param i c tys ty)
  have st: "at st (i # c # tys @ rs)" using assms(2) param(5) by simp
  have len: "length tys < n" using assms(3) param(5) by simp
  show ?thesis
    unfolding parse_function_param_def Let_def at_token [OF st]
    apply (rule yields_identifier, rule st, rule param)
    apply (rule yields_consume, assumption, rule param)
    apply (rule type_then, rule param, rule len, assumption)
    using param(1,5) type_tokens_span [OF param(4)] apply (simp add: yields_return span_of_eq span_from_positions_def)
    done
qed

lemma parse_params_complete:
  "params_tokens ts ps \<Longrightarrow> length ts < n \<Longrightarrow> at st (ts @ rs) \<Longrightarrow> hd_kind rs = TkRightParen \<Longrightarrow>
   yields (parse_params n acc st) (acc @ ps) rs"
proof (induction arbitrary: n acc st rule: params_tokens.induct)
  case (params_last ts p)
  then obtain k where m: "n = Suc k" by (cases n) auto
  show ?case
    unfolding m parse_params.simps Let_def
    apply (rule yields_bind, rule parse_function_param_complete [OF params_last.hyps params_last.prems(2)])
    using params_last.prems(1) m apply simp
    apply (rule yields_no_match, assumption)
    using params_last.prems(3) apply simp
    apply (simp add: yields_return)
    done
next
  case (params_more ts p c us ps)
  obtain k where m: "n = Suc k" using params_more.prems(1) by (cases n) auto
  have len: "length ts \<le> k" "length us < k" using params_more.prems(1) m by auto
  have st: "at st (ts @ c # us @ rs)" using params_more.prems(2) by simp
  show ?case
    unfolding m parse_params.simps Let_def
    apply (rule yields_bind, rule parse_function_param_complete [OF params_more.hyps(1) st len(1)])
    apply (rule yields_match, assumption, rule params_more.hyps(2))
    using params_more.IH [OF len(2) _ params_more.prems(3), of _ "acc @ [p]"]
    apply simp
    done
qed

lemma no_modifier:
  "modifier_tokens k ts b \<Longrightarrow> at st (ts @ rs) \<Longrightarrow> hd_kind rs \<noteq> k \<Longrightarrow> \<exists>st1. match_token k st = (b, st1) \<and> at st1 rs"
  by (auto simp: modifier_tokens_def match_token_def at_check intro: at_bump(1) split: if_splits)

lemma parse_modifiers_complete:
  assumes "modifier_tokens TkExport xs ex" "modifier_tokens TkUnsafe us un" "at st (xs @ us @ rs)" "hd_kind rs = TkFn"
  shows "yields (Some (parse_modifiers st)) (ex, un) rs"
proof -
  have "hd_kind (us @ rs) \<noteq> TkExport" using assms(2,4) by (auto simp: modifier_tokens_def split: if_splits)
  from no_modifier [OF assms(1,3) this]
  obtain st1 where 1: "match_token TkExport st = (ex, st1)" "at st1 (us @ rs)" by blast
  have "hd_kind rs \<noteq> TkUnsafe" using assms(4) by simp
  from no_modifier [OF assms(2) 1(2) this]
  obtain st2 where 2: "match_token TkUnsafe st1 = (un, st2)" "at st2 rs" by blast
  show ?thesis using 1 2 assms(4) by (simp add: parse_modifiers_def at_check yields_return)
qed

lemma params_opt_complete:
  assumes "params_opt_tokens ts ps" "at st (ts @ rs)" "hd_kind rs = TkRightParen" "length ts < n"
  shows "yields (if check TkRightParen st then Some ([], st) else parse_params n [] st) ps rs"
proof (cases "ts = [] \<and> ps = []")
  case True
  then show ?thesis using assms(2,3) by (simp add: at_check yields_return)
next
  case False
  then have ts: "params_tokens ts ps" using assms(1) by (auto simp: params_opt_tokens_def)
  then have "ts \<noteq> [] \<and> tk_kind (hd ts) = TkIdentifier"
    by (cases rule: params_tokens.cases) (auto elim: param_tokens.cases)
  then show ?thesis using parse_params_complete [OF ts assms(4,2,3), of "[]"] assms(2) by (simp add: at_check)
qed

lemma contract_opt_complete:
  assumes "contract_opt_tokens ts c" "at st (ts @ rs)" "hd_kind rs = TkLeftBrace" "length ts < n"
    "\<And>st. at st rs \<Longrightarrow> yields (f c st) y us"
  shows "yields (case match_token TkContract st of (has_contract, st) \<Rightarrow>
    Option.bind (if has_contract then Option.bind (parse_contract_declaration n st) (\<lambda>(c, st). Some (Some c, st))
      else Some (None, st)) (case_prod f)) y us"
proof (cases c)
  case None
  then have "ts = []" using assms(1) by (simp add: contract_opt_tokens_def)
  then show ?thesis
    using assms(2,3) None assms(5) by (intro yields_no_match) (auto intro: yields_bind yields_return)
next
  case (Some d)
  then have c: "contract_tokens ts d" using assms(1) by (simp add: contract_opt_tokens_def)
  then obtain t ts' where ts: "ts = t # ts'" "tk_kind t = TkContract" by (auto elim: contract_tokens.cases)
  have st: "at st (t # ts' @ rs)" using assms(2) ts(1) by simp
  show ?thesis
    apply (rule yields_match, rule st, rule ts)
    apply (simp only: if_True)
    apply (rule yields_bind, rule yields_bind, rule parse_contract_complete [of t ts' d])
    using c ts(1) apply simp
    apply assumption
    apply assumption
    using assms(4) ts(1) apply simp
    apply (rule yields_return, assumption)
    using assms(5) Some apply simp
    done
qed

lemma parse_function_complete:
  assumes "modifier_tokens TkExport xs ex" "modifier_tokens TkUnsafe us un" "tk_kind f = TkFn"
    "tk_kind i = TkIdentifier" "tk_kind lp = TkLeftParen" "params_opt_tokens pts ps"
    "tk_kind rp = TkRightParen" "tk_kind ar = TkArrow" "type_tokens tys ty"
    "contract_opt_tokens cs c" "block_tokens bs b"
    "ts = xs @ us @ f # i # lp # pts @ rp # ar # tys @ cs @ bs" "at st (ts @ rs)" "length ts \<le> n"
  shows "yields (parse_function_declaration n st)
    \<lparr>exported = ex, is_unsafe = un, fn_name = ident_of i, fn_params = ps, return_type = ty,
     fn_contract = c, fn_body = b, fn_span = span_of ts\<rparr> rs"
proof -
  have st: "at st (xs @ us @ f # i # lp # pts @ rp # ar # tys @ cs @ bs @ rs)" using assms(12,13) by simp
  have "hd_kind (f # i # lp # pts @ rp # ar # tys @ cs @ bs @ rs) = TkFn" using assms(3) by simp
  from parse_modifiers_complete [OF assms(1,2) st this]
  obtain st1 where mods: "parse_modifiers st = ((ex, un), st1)" and
    st1: "at st1 (f # i # lp # pts @ rp # ar # tys @ cs @ bs @ rs)" by (auto simp: yields_def)
  have bs: "bs \<noteq> []" "hd_kind (bs @ rs) = TkLeftBrace" "span_end (block_span b) = end_position_from_token (last bs)"
    using block_tokens_span [OF assms(11)] by auto
  have len: "length pts < n" "length tys < n" "length cs < n" "length bs < n" using assms(12,14) by auto
  have cur: "current st = hd ts" using at_hd [OF assms(13)] assms(12) by simp
  show ?thesis
    unfolding parse_function_declaration_def Let_def mods prod.case
    apply (rule yields_consume, rule st1, rule assms)
    apply (rule yields_identifier, assumption, rule assms)
    apply (rule yields_consume, assumption, rule assms)
    apply (rule yields_bind, rule params_opt_complete, rule assms, assumption, simp add: assms, rule len)
    apply (rule yields_consume, assumption, rule assms)
    apply (rule yields_consume, assumption, rule assms)
    apply (rule type_then, rule assms, rule len, assumption)
    apply (rule contract_opt_complete, rule assms, assumption, rule bs, rule len)
    apply (rule block_yields, rule assms, rule len, assumption)
    using bs assms(12) apply (simp add: yields_return span_of_eq cur)
    done
qed

lemma parse_declaration_complete:
  assumes "declaration_tokens ts d" "at st (ts @ rs)" "length ts \<le> n"
  shows "yields (parse_declaration n st) (Some d) rs"
  using assms(1)
proof (cases rule: declaration_tokens.cases)
  case (declaration_struct s i lb fts fs rb)
  have st: "at st (s # i # lb # fts @ rb # rs)" and len: "length fts < n" using assms(2,3) declaration_struct(7) by auto
  have "check TkStruct st" using st declaration_struct(2) by (simp add: at_check)
  then show ?thesis
    unfolding parse_declaration_def declaration_struct(1,7)
    by (simp only: if_True)
      (rule yields_bind, rule parse_struct_complete [OF declaration_struct(2-6) st len], simp add: yields_return)
next
  case (declaration_function xs ex us un f i lp pts ps rp ar tys ty cs c bs b)
  note fn = parse_function_complete [OF declaration_function(2-13) assms(2,3)]
  have st: "at st (xs @ us @ f # i # lp # pts @ rp # ar # tys @ cs @ bs @ rs)" using assms(2) declaration_function(13) by simp
  then have "hd_kind (xs @ us @ f # i # lp # pts @ rp # ar # tys @ cs @ bs @ rs) \<in> {TkExport, TkUnsafe, TkFn}"
    using declaration_function(2-4) by (auto simp: modifier_tokens_def split: if_splits)
  then have k: "\<not> check TkStruct st" "\<not> check TkContract st" "check TkExport st \<or> check TkUnsafe st \<or> check TkFn st"
    using st by (auto simp: at_check)
  have "\<not> (check TkUnsafe st \<and> next_is TkLeftBrace st)"
  proof
    assume a: "check TkUnsafe st \<and> next_is TkLeftBrace st"
    then have "hd_kind (xs @ us @ f # i # lp # pts @ rp # ar # tys @ cs @ bs @ rs) = TkUnsafe" using st by (simp add: at_check)
    then obtain u where u: "xs = []" "us = [u]"
      using declaration_function(2-4) by (auto simp: modifier_tokens_def split: if_splits)
    then have "next_is TkLeftBrace st \<longleftrightarrow> tk_kind f = TkLeftBrace" using at_next [of st u "f # _"] st by auto
    then show False using a declaration_function(4) by simp
  qed
  then show ?thesis
    unfolding parse_declaration_def declaration_function(1)
    using k by (simp only: if_True if_False) (rule yields_bind, rule fn, simp add: yields_return)
qed

lemma parse_declarations_complete:
  "declarations_tokens ts ds \<Longrightarrow> length ts < n \<Longrightarrow> at st ts \<Longrightarrow> yields (parse_declarations n acc st) (acc @ ds) []"
proof (induction arbitrary: n acc st rule: declarations_tokens.induct)
  case declarations_none
  then obtain k where m: "n = Suc k" by (cases n) auto
  show ?case using declarations_none by (simp add: m at_check yields_return)
next
  case (declarations_more ts d us ds)
  obtain k where m: "n = Suc k" using declarations_more.prems(1) by (cases n) auto
  have ts: "ts \<noteq> []" using declarations_more.hyps(1) by (auto elim: declaration_tokens.cases)
  then have "tk_kind (hd ts) \<noteq> TkEof"
    using at_hd [OF declarations_more.prems(2)] by simp
  then have go: "\<not> check TkEof st" using declarations_more.prems(2) ts by (simp add: at_check)
  have len: "length ts \<le> k" "length us < k" using declarations_more.prems(1) ts m by (cases ts; simp)+
  have "yields (parse_declarations k (acc @ [d]) st1) (acc @ d # ds) []" if "at st1 us" for st1
    using declarations_more.IH [OF len(2) that, of "acc @ [d]"] by simp
  from yields_bind [where f = "\<lambda>d. parse_declarations k (case d of None \<Rightarrow> acc | Some d \<Rightarrow> acc @ [d])",
    OF parse_declaration_complete [OF declarations_more.hyps(1) declarations_more.prems(2) len(1)]]
  have "yields (Option.bind (parse_declaration k st) (\<lambda>(d, st). parse_declarations k (case d of None \<Rightarrow> acc | Some d \<Rightarrow> acc @ [d]) st))
    (acc @ d # ds) []"
    using \<open>\<And>st1. at st1 us \<Longrightarrow> _\<close> by simp
  then show ?case by (simp add: m go)
qed

end
