(* ===== verification/Lexer_Spec.thy ===== *)
theory Lexer_Spec
  imports Lexer
begin

text \<open>
  What the lexer promises. \<open>next_piece\<close> cuts the first piece off a text by maximal munch: a
  token, something skipped, or something reported. The lexer of \<^verbatim>\<open>lexer.rs\<close> is shown to
  compute exactly these pieces, with the positions of \<open>line_of\<close>, \<open>column_of\<close> and \<open>utf16_len\<close>.
\<close>

section \<open>Positions in a text\<close>

definition line_of :: "rstring \<Rightarrow> nat" where
  "line_of p = Suc (count_list p 10)"

definition column_of :: "rstring \<Rightarrow> nat" where
  "column_of p = Suc (utf16_len (takeWhile (\<lambda>c. c \<noteq> 10) (rev p)))"

lemma line_of_simps [simp]:
  "line_of [] = 1" "line_of (p @ [c]) = (if c = 10 then Suc (line_of p) else line_of p)"
  by (simp_all add: line_of_def)

lemma column_of_simps [simp]:
  "column_of [] = 1" "column_of (p @ [c]) = (if c = 10 then 1 else column_of p + len_utf16 c)"
  by (simp_all add: column_of_def)

definition token_at :: "token_kind \<Rightarrow> rstring \<Rightarrow> rstring \<Rightarrow> token" where
  "token_at k p w =
     \<lparr>tk_kind = k, tk_text = w, tk_line = line_of p, tk_column = column_of p,
      tk_start = utf16_len p, tk_end = utf16_len (p @ w)\<rparr>"

definition position_at :: "rstring \<Rightarrow> lexer_position" where
  "position_at p =
     \<lparr>lp_byte_offset = utf8_len p, lp_utf16_offset = utf16_len p,
      lp_line = line_of p, lp_column = column_of p\<rparr>"

section \<open>The lexer between two parts of its text\<close>

text \<open>\<open>lexer_at s p r\<close>: the lexer has read \<open>p\<close> and has \<open>r\<close> in front of it.\<close>

definition lexer_at :: "lexer \<Rightarrow> rstring \<Rightarrow> rstring \<Rightarrow> bool" where
  "lexer_at s p r \<longleftrightarrow> sf_text (lx_source s) = p @ r \<and> position s = position_at p"

lemma lexer_atD:
  assumes "lexer_at s p r"
  shows "sf_text (lx_source s) = p @ r" "lx_byte_offset s = utf8_len p"
    "lx_utf16_offset s = utf16_len p" "lx_line s = line_of p" "lx_column s = column_of p"
  using assms by (simp_all add: lexer_at_def position_def position_at_def)

lemma lexer_at_new [simp]: "lexer_at (lexer_new src) [] (sf_text src)"
  by (simp add: lexer_at_def lexer_new_def position_def position_at_def)

lemma position_lexer_at: "lexer_at s p r \<Longrightarrow> position s = position_at p"
  by (simp add: lexer_at_def)

lemma lexer_rest_at [simp]: "lexer_at s p r \<Longrightarrow> lexer_rest s = r"
  by (simp add: lexer_rest_def lexer_atD)

lemma peek_at: "lexer_at s p r \<Longrightarrow> peek s = (case r of [] \<Rightarrow> 0 | c # _ \<Rightarrow> c)"
  by (simp add: peek_def)

lemma peek_next_at: "lexer_at s p r \<Longrightarrow> peek_next s = (case r of _ # c # _ \<Rightarrow> c | _ \<Rightarrow> 0)"
  by (simp add: peek_next_def)

lemma is_at_end_at: "lexer_at s p r \<Longrightarrow> is_at_end s \<longleftrightarrow> r = []"
  by (auto simp: is_at_end_def lexer_atD)

lemmas at_simps = peek_at peek_next_at is_at_end_at position_lexer_at

text \<open>The fields a step of the cursor leaves alone.\<close>

definition same_output :: "lexer \<Rightarrow> lexer \<Rightarrow> bool" where
  "same_output s t \<longleftrightarrow> lx_source t = lx_source s \<and> lx_tokens t = lx_tokens s \<and>
     lx_diagnostics t = lx_diagnostics s"

lemma same_output_refl [simp]: "same_output s s"
  by (simp add: same_output_def)

lemma same_output_trans: "same_output s t \<Longrightarrow> same_output t u \<Longrightarrow> same_output s u"
  by (simp add: same_output_def)

lemma same_output_advance [simp]: "same_output s (advance s)"
  by (simp add: same_output_def advance_def Let_def)

lemma advance_at:
  assumes "lexer_at s p (c # r)" "c \<noteq> 0"
  shows "lexer_at (advance s) (p @ [c]) r"
  using assms
  by (auto simp: lexer_at_def peek_def lexer_rest_def advance_def Let_def position_def position_at_def)

lemma advance_at_nul: "lexer_at s p (0 # r) \<Longrightarrow> advance s = s"
  by (simp add: advance_def peek_at)

lemma advance_at_end: "lexer_at s p [] \<Longrightarrow> advance s = s"
  by (simp add: advance_def peek_at)

lemma text_since_at:
  assumes "lexer_at s (p @ w) r"
  shows "text_since (position_at p) s = w"
  using assms slice_range_append [of p w r]
  by (simp add: text_since_def lexer_atD position_at_def)

section \<open>Loops\<close>

lemma advance_while_at:
  assumes "lexer_at s p r" "0 \<notin> set (takeWhile P r)"
  shows "\<exists>t. advance_while P s = Some t \<and> lexer_at t (p @ takeWhile P r) (dropWhile P r) \<and>
           same_output s t"
  using assms
proof (induction r arbitrary: s p)
  case Nil
  then show ?case by (subst advance_while.simps) (simp add: at_simps)
next
  case (Cons c r)
  show ?case
  proof (cases "P c")
    case True
    with Cons.prems have nz: "c \<noteq> 0" by auto
    with Cons.prems have at: "lexer_at (advance s) (p @ [c]) r" by (simp add: advance_at)
    obtain t where t: "advance_while P (advance s) = Some t"
      "lexer_at t ((p @ [c]) @ takeWhile P r) (dropWhile P r)" "same_output (advance s) t"
      using Cons.IH [OF at] Cons.prems(2) True by auto
    moreover have "same_output s t"
      using t(3) same_output_advance same_output_trans by blast
    ultimately show ?thesis
      using Cons.prems(1) True by (subst advance_while.simps) (simp add: at_simps)
  next
    case False
    with Cons.prems show ?thesis by (subst advance_while.simps) (simp add: at_simps)
  qed
qed

lemma advance_while_bounded:
  assumes "lexer_at s p r" "\<not> P 0"
  obtains t where "advance_while P s = Some t"
    "lexer_at t (p @ takeWhile P r) (dropWhile P r)" "same_output s t"
proof -
  from assms(2) have "0 \<notin> set (takeWhile P r)"
    using set_takeWhileD by metis
  from advance_while_at [OF assms(1) this] show ?thesis using that by blast
qed

text \<open>A loop that accepts U+0000 never gets past one.\<close>

lemma advance_while_stuck:
  assumes "lexer_at s p r" "P 0" "0 \<in> set (takeWhile P r)"
  shows "advance_while P s = None"
proof -
  have "\<not> (\<exists>p r. lexer_at s p r \<and> 0 \<in> set (takeWhile P r))" if "advance_while P s = Some t" for s t
  proof (rule advance_while.raw_induct [where P = "\<lambda>Q s t. Q = P \<longrightarrow>
        \<not> (\<exists>p r. lexer_at s p r \<and> 0 \<in> set (takeWhile Q r))", OF _ that, THEN mp, OF _ refl])
    fix f Q s t
    assume IH: "\<And>Q s t. f Q s = Some t \<Longrightarrow> Q = P \<longrightarrow>
        \<not> (\<exists>p r. lexer_at s p r \<and> 0 \<in> set (takeWhile Q r))"
      and eq: "(if \<not> is_at_end s \<and> Q (peek s) then f Q (advance s) else Some s) = Some t"
    show "Q = P \<longrightarrow> \<not> (\<exists>p r. lexer_at s p r \<and> 0 \<in> set (takeWhile Q r))"
    proof safe
      fix p r
      assume Q: "Q = P" and at: "lexer_at s p r" and nul: "0 \<in> set (takeWhile P r)"
      from nul obtain c r' where r: "r = c # r'" "P c"
        by (cases r) (auto split: if_splits)
      with at eq Q have f: "f P (advance s) = Some t" by (simp add: at_simps)
      show False
      proof (cases "c = 0")
        case True
        with at r have "advance s = s" by (simp add: advance_at_nul)
        with f at nul IH show False by metis
      next
        case False
        with at r have "lexer_at (advance s) (p @ [c]) r'" by (simp add: advance_at)
        moreover have "0 \<in> set (takeWhile P r')" using nul r False by simp
        ultimately show False using f IH by metis
      qed
    qed
  qed
  with assms(1,3) show ?thesis by (cases "advance_while P s") auto
qed

section \<open>The reference: pieces by maximal munch\<close>

datatype piece = PieceToken token_kind | PieceSkip | PieceError

definition identifier_kind :: "rstring \<Rightarrow> token_kind" where
  "identifier_kind w = (case keyword_kind w of Some k \<Rightarrow> k | None \<Rightarrow> TkIdentifier)"

fun exponent_piece :: "token_kind \<Rightarrow> rstring \<Rightarrow> rstring \<Rightarrow> piece \<times> rstring" where
  "exponent_piece k w [] = (PieceToken k, w)"
| "exponent_piece k w (e # r) =
     (if is_exponent_start e then
        let sg = (case r of c # _ \<Rightarrow> if c = ch CHR ''+'' \<or> c = ch CHR ''-'' then [c] else []
                          | [] \<Rightarrow> []);
            ds = takeWhile is_ascii_digit (drop (length sg) r)
        in (if ds = [] then PieceError else PieceToken TkFloat, w @ e # sg @ ds)
      else (PieceToken k, w))"

definition number_piece :: "rstring \<Rightarrow> piece \<times> rstring" where
  "number_piece r =
     (let ds = takeWhile is_ascii_digit r in
      case dropWhile is_ascii_digit r of
        c # r' \<Rightarrow>
          if c = ch CHR ''.'' \<and> (case r' of d # _ \<Rightarrow> d \<noteq> ch CHR ''.'' | [] \<Rightarrow> True) then
            (let fs = takeWhile is_ascii_digit r' in
             if fs = [] then (PieceError, ds @ [c])
             else exponent_piece TkFloat (ds @ c # fs) (dropWhile is_ascii_digit r'))
          else exponent_piece TkInteger ds (c # r')
      | [] \<Rightarrow> (PieceToken TkInteger, ds))"

fun next_piece :: "rstring \<Rightarrow> piece \<times> rstring" where
  "next_piece [] = (PieceSkip, [])"
| "next_piece (c # r) =
     (if is_whitespace c then (PieceSkip, [c])
      else if c = ch CHR ''/'' \<and> (case r of d # _ \<Rightarrow> d = ch CHR ''/'' | [] \<Rightarrow> False)
        then (PieceSkip, takeWhile (\<lambda>c. c \<noteq> 10) (c # r))
      else if is_identifier_start c
        then (let w = c # takeWhile is_identifier_part r in (PieceToken (identifier_kind w), w))
      else if is_ascii_digit c then number_piece (c # r)
      else case single_token c of
        Some k \<Rightarrow> (PieceToken k, [c])
      | None \<Rightarrow>
          if c = ch CHR ''.'' then
            (case r of
               d # _ \<Rightarrow> if d = ch CHR ''.'' then (PieceToken TkDotDot, [c, d])
                       else if is_ascii_digit d then (PieceError, c # takeWhile is_ascii_digit r)
                       else (PieceToken TkDot, [c])
             | [] \<Rightarrow> (PieceToken TkDot, [c]))
          else case pair_token c of
            Some (second, k2, k1) \<Rightarrow>
              (case r of
                 d # _ \<Rightarrow> if d = second then (PieceToken k2, [c, d])
                         else (case k1 of Some k \<Rightarrow> PieceToken k | None \<Rightarrow> PieceError, [c])
               | [] \<Rightarrow> (case k1 of Some k \<Rightarrow> PieceToken k | None \<Rightarrow> PieceError, [c]))
          | None \<Rightarrow> (PieceError, [c]))"

text \<open>
  \<open>emits s p w out t\<close>: from \<open>s\<close> (at \<open>p\<close>) the lexer moved over \<open>w\<close> to \<open>t\<close> and recorded what
  the piece \<open>out\<close> asks for.
\<close>

definition emits :: "lexer \<Rightarrow> rstring \<Rightarrow> rstring \<Rightarrow> piece \<Rightarrow> lexer \<Rightarrow> bool" where
  "emits s p w out t \<longleftrightarrow>
     lx_source t = lx_source s \<and>
     lx_tokens t = lx_tokens s @ (case out of PieceToken k \<Rightarrow> [token_at k p w] | _ \<Rightarrow> []) \<and>
     (\<exists>ds. lx_diagnostics t = lx_diagnostics s @ ds \<and> (ds = [] \<longleftrightarrow> out \<noteq> PieceError))"

lemma emits_skip: "same_output s t \<Longrightarrow> emits s p w PieceSkip t"
  by (simp add: emits_def same_output_def)

lemma emits_token:
  assumes "same_output s t" "lexer_at t (p @ w) r"
  shows "emits s p w (PieceToken k) (add_token k (position_at p) t) \<and>
    lexer_at (add_token k (position_at p) t) (p @ w) r"
  using assms text_since_at [OF assms(2)]
  by (auto simp: emits_def same_output_def add_token_def token_at_def position_at_def
      lexer_at_def position_def)

lemma push_lex_error_at [simp]: "lexer_at (push_lex_error m sp t) p r = lexer_at t p r"
  by (simp add: push_lex_error_def lexer_at_def position_def)

lemma emits_error:
  assumes "same_output s t" "lexer_at t (p @ w) r"
  shows "emits s p w PieceError (push_lex_error m sp t) \<and>
    lexer_at (push_lex_error m sp t) (p @ w) r"
  using assms by (auto simp: emits_def same_output_def push_lex_error_def lexer_at_def position_def)

lemma fold_push_lex_error:
  "\<exists>ds. fold (\<lambda>i s. push_lex_error m (f i) s) is s = s\<lparr>lx_diagnostics := lx_diagnostics s @ ds\<rparr> \<and>
     length ds = length is"
proof (induction "is" arbitrary: s)
  case Nil
  then show ?case by simp
next
  case (Cons i "is")
  obtain ds where "fold (\<lambda>i s. push_lex_error m (f i) s) is (push_lex_error m (f i) s) =
      (push_lex_error m (f i) s)\<lparr>lx_diagnostics := lx_diagnostics (push_lex_error m (f i) s) @ ds\<rparr>"
    "length ds = length is"
    using Cons.IH by blast
  then show ?case
    by (intro exI [of _ "diagnostic_error Ck0001 m (file_name (lx_source s)) (f i) # ds"])
      (simp add: push_lex_error_def)
qed

lemma scan_unexpected_at:
  assumes "lexer_at s p (c # r)" "c \<noteq> 0"
  shows "emits s p [c] PieceError (scan_unexpected_character (position_at p) c s) \<and>
    lexer_at (scan_unexpected_character (position_at p) c s) (p @ [c]) r"
proof -
  have at: "lexer_at (advance s) (p @ [c]) r" using assms by (rule advance_at)
  show ?thesis
  proof (cases "len_utf16 c = 1")
    case True
    with at emits_error [OF same_output_advance at] show ?thesis
      by (simp add: scan_unexpected_character_def report_unexpected_def Let_def)
  next
    case False
    obtain ds where ds: "scan_unexpected_character (position_at p) c s =
        (advance s)\<lparr>lx_diagnostics := lx_diagnostics (advance s) @ ds\<rparr>"
      "length ds = len_utf16 c"
    proof -
      obtain ds where "fold (\<lambda>i s. push_lex_error
            (lit ''Unexpected character '' @ quoted [0xFFFD] @ lit ''.'')
            (replacement_span (position_at p) i) s) [0..<len_utf16 c] (advance s) =
          (advance s)\<lparr>lx_diagnostics := lx_diagnostics (advance s) @ ds\<rparr>"
        "length ds = length [0..<len_utf16 c]"
        using fold_push_lex_error by blast
      with False that show ?thesis by (simp add: scan_unexpected_character_def Let_def)
    qed
    have "ds \<noteq> []" using ds(2) len_utf16_pos [of c] by (metis length_greater_0_conv)
    with ds(1) at same_output_advance [of s] show ?thesis
      by (auto simp: emits_def same_output_def lexer_at_def position_def)
  qed
qed

section \<open>Each scanner computes the first piece\<close>

lemma is_ascii_digit_nul [simp]: "\<not> is_ascii_digit 0"
  by (simp add: is_ascii_digit_def)

lemma is_identifier_part_nul [simp]: "\<not> is_identifier_part 0" "\<not> is_identifier_start 0"
  by (simp_all add: is_identifier_part_def is_identifier_start_def is_ascii_alphabetic_def)

lemma is_exponent_start_nul [simp]: "\<not> is_exponent_start 0"
  by (simp add: is_exponent_start_def)

lemma class_pos:
  "is_ascii_digit c \<Longrightarrow> 0 < c" "is_identifier_part c \<Longrightarrow> 0 < c"
  "is_identifier_start c \<Longrightarrow> 0 < c" "is_exponent_start c \<Longrightarrow> 0 < c"
  using is_ascii_digit_nul is_identifier_part_nul is_exponent_start_nul by (metis gr0I)+

text \<open>What a scanner of the lexer is to do with the piece the reference gives.\<close>

definition scans :: "lexer option \<Rightarrow> lexer \<Rightarrow> rstring \<Rightarrow> piece \<times> rstring \<Rightarrow> rstring \<Rightarrow> bool" where
  "scans res s p pc r \<longleftrightarrow>
     (\<exists>t r'. res = Some t \<and> r = snd pc @ r' \<and> emits s p (snd pc) (fst pc) t \<and>
        lexer_at t (p @ snd pc) r')"

lemma scansI:
  assumes "emits s p w out t \<and> lexer_at t (p @ w) r'" "r = w @ r'"
  shows "scans (Some t) s p (out, w) r"
  using assms by (auto simp: scans_def)

lemma scan_identifier_at:
  assumes at: "lexer_at s p (c # r)" and c: "is_identifier_start c"
  shows "scans (scan_identifier_or_keyword s) s p (next_piece (c # r)) (c # r)"
proof -
  from c have nz: "c \<noteq> 0" by (metis is_identifier_part_nul(2))
  from c have cls: "\<not> is_whitespace c" "c \<noteq> ch CHR ''/''"
    by (auto simp: is_identifier_start_def is_ascii_alphabetic_def is_whitespace_def)
  obtain t where t: "advance_while is_identifier_part (advance s) = Some t"
    "lexer_at t ((p @ [c]) @ takeWhile is_identifier_part r) (dropWhile is_identifier_part r)"
    "same_output (advance s) t"
    using advance_while_bounded [OF advance_at [OF at nz]] is_identifier_part_nul by metis
  let ?w = "c # takeWhile is_identifier_part r"
  have at': "lexer_at t (p @ ?w) (dropWhile is_identifier_part r)" using t(2) by simp
  have same: "same_output s t" using t(3) same_output_advance same_output_trans by blast
  show ?thesis
    using t(1) cls c text_since_at [OF at'] scansI [OF emits_token [OF same at']]
    by (simp add: scan_identifier_or_keyword_def Let_def position_lexer_at [OF at]
        identifier_kind_def)
qed

lemma scan_exponent_at:
  assumes at: "lexer_at s' (p @ w) r" and same: "same_output s s'"
  shows "scans (scan_exponent (position_at p) (k = TkFloat) s') s p
    (exponent_piece (if k = TkFloat then TkFloat else TkInteger) w r) (w @ r)"
proof (cases r)
  case Nil
  with at same emits_token [OF same at] show ?thesis
    by (auto simp: scan_exponent_def at_simps intro!: scansI)
next
  case (Cons e r1)
  show ?thesis
  proof (cases "is_exponent_start e")
    case False
    with Cons at same emits_token [OF same at] show ?thesis
      by (auto simp: scan_exponent_def at_simps intro!: scansI)
  next
    case True
    then have nz: "e \<noteq> 0" by (metis is_exponent_start_nul)
    define sg where "sg = (case r1 of c # _ \<Rightarrow> if c = ch CHR ''+'' \<or> c = ch CHR ''-'' then [c] else []
                          | [] \<Rightarrow> [])"
    define s1 where "s1 = advance s'"
    define s2 where "s2 = (if peek s1 = ch CHR ''+'' \<or> peek s1 = ch CHR ''-'' then advance s1 else s1)"
    have at1: "lexer_at s1 (p @ w @ [e]) r1"
      using advance_at [of s' "p @ w" e r1] at Cons nz by (simp add: s1_def)
    have at2: "lexer_at s2 (p @ w @ e # sg) (drop (length sg) r1)"
      using at1 advance_at [of s1 "p @ w @ [e]"]
      by (cases r1) (auto simp: s2_def sg_def at_simps)
    have same2: "same_output s s2"
      unfolding s2_def s1_def using same by (simp add: same_output_def advance_def Let_def)
    let ?r2 = "drop (length sg) r1"
    have r: "w @ r = (w @ e # sg @ takeWhile is_ascii_digit ?r2) @ dropWhile is_ascii_digit ?r2"
      using Cons by (cases r1) (auto simp: sg_def)
    have unf: "scan_exponent (position_at p) (k = TkFloat) s' =
        (if \<not> is_ascii_digit (peek s2) then Some (report_malformed_float (position_at p) s2)
         else Option.bind (advance_while is_ascii_digit s2)
                (\<lambda>s. Some (add_token TkFloat (position_at p) s)))"
      using True at Cons by (simp add: scan_exponent_def at_simps Let_def s2_def s1_def)
    have pc: "exponent_piece (if k = TkFloat then TkFloat else TkInteger) w r =
        (let ds = takeWhile is_ascii_digit ?r2
         in (if ds = [] then PieceError else PieceToken TkFloat, w @ e # sg @ ds))"
      using Cons True by (simp add: sg_def Let_def)
    show ?thesis
    proof (cases "is_ascii_digit (peek s2)")
      case False
      then have nil: "takeWhile is_ascii_digit ?r2 = []"
        using at2 by (cases ?r2) (auto simp: at_simps)
      have "dropWhile is_ascii_digit ?r2 = ?r2"
        using nil takeWhile_dropWhile_id [of is_ascii_digit ?r2] by simp
      with at2 have at2': "lexer_at s2 (p @ (w @ e # sg)) (dropWhile is_ascii_digit ?r2)" by simp
      have "scans (Some (report_malformed_float (position_at p) s2)) s p
          (PieceError, w @ e # sg) (w @ r)"
        using emits_error [OF same2 at2'] unfolding report_malformed_float_def
        by (rule scansI) (use r nil in simp)
      with False nil show ?thesis unfolding unf pc by (simp add: Let_def)
    next
      case dig: True
      then have cons: "takeWhile is_ascii_digit ?r2 \<noteq> []"
        using at2 by (cases ?r2) (auto simp: at_simps)
      obtain t where t: "advance_while is_ascii_digit s2 = Some t"
        "lexer_at t ((p @ w @ e # sg) @ takeWhile is_ascii_digit ?r2) (dropWhile is_ascii_digit ?r2)"
        "same_output s2 t"
        using advance_while_bounded [OF at2, of is_ascii_digit] by auto
      have at': "lexer_at t (p @ (w @ e # sg @ takeWhile is_ascii_digit ?r2)) (dropWhile is_ascii_digit ?r2)"
        using t(2) by simp
      have "same_output s t" using same2 t(3) same_output_trans by blast
      from scansI [OF emits_token [OF this at'] r] show ?thesis
        using dig cons t(1) unfolding unf pc by (simp add: Let_def)
    qed
  qed
qed

lemma scan_number_at:
  assumes at: "lexer_at s p (c # r)" and c: "is_ascii_digit c"
  shows "scans (scan_number s) s p (number_piece (c # r)) (c # r)"
proof -
  from c have nz: "c \<noteq> 0" by (metis is_ascii_digit_nul)
  define ds where "ds = takeWhile is_ascii_digit (c # r)"
  define r1 where "r1 = dropWhile is_ascii_digit (c # r)"
  have r: "c # r = ds @ r1" by (simp add: ds_def r1_def del: takeWhile.simps dropWhile.simps)
  obtain s1 where s1: "advance_while is_ascii_digit (advance s) = Some s1"
    "lexer_at s1 (p @ ds) r1" "same_output (advance s) s1"
    using advance_while_bounded [OF advance_at [OF at nz], of is_ascii_digit] c
    by (auto simp: ds_def r1_def)
  have same1: "same_output s s1" using s1(3) same_output_advance same_output_trans by blast
  have int: "scans (scan_exponent (position_at p) False s1) s p (exponent_piece TkInteger ds r1) (c # r)"
    using scan_exponent_at [OF s1(2) same1, of TkInteger] r by simp
  note pos = position_lexer_at [OF at]
  show ?thesis
  proof (cases r1)
    case Nil
    have "scan_number s = scan_exponent (position_at p) False s1"
      using s1 Nil pos by (simp add: scan_number_def at_simps)
    moreover have "number_piece (c # r) = exponent_piece TkInteger ds r1"
      unfolding number_piece_def Nil [unfolded r1_def] using Nil by (simp add: ds_def Let_def)
    ultimately show ?thesis using int by simp
  next
    case (Cons d r2)
    note drop_eq = Cons [unfolded r1_def]
    show ?thesis
    proof (cases "d = ch CHR ''.'' \<and> (case r2 of x # _ \<Rightarrow> x \<noteq> ch CHR ''.'' | [] \<Rightarrow> True)")
      case False
      have "scan_number s = scan_exponent (position_at p) False s1"
        using False s1 Cons pos by (cases r2) (auto simp: scan_number_def at_simps)
      moreover have "number_piece (c # r) = exponent_piece TkInteger ds r1"
        unfolding number_piece_def drop_eq using False Cons by (auto simp: ds_def Let_def)
      ultimately show ?thesis using int by simp
    next
      case True
      define s2 where "s2 = advance s1"
      have at2: "lexer_at s2 (p @ (ds @ [d])) r2"
        using advance_at [of s1 "p @ ds" d r2] s1(2) Cons True by (simp add: s2_def)
      have same2: "same_output s s2"
        unfolding s2_def using same1 same_output_advance same_output_trans by blast
      have unf: "scan_number s =
          (if \<not> is_ascii_digit (peek s2) then Some (report_malformed_float (position_at p) s2)
           else Option.bind (advance_while is_ascii_digit s2) (scan_exponent (position_at p) True))"
        using True s1 Cons pos
        by (cases r2) (auto simp: scan_number_def at_simps s2_def Let_def)
      have pc: "number_piece (c # r) =
          (let fs = takeWhile is_ascii_digit r2 in
             if fs = [] then (PieceError, ds @ [d])
             else exponent_piece TkFloat (ds @ d # fs) (dropWhile is_ascii_digit r2))"
        unfolding number_piece_def drop_eq using True by (auto simp: ds_def Let_def)
      show ?thesis
      proof (cases "is_ascii_digit (peek s2)")
        case False
        then have nil: "takeWhile is_ascii_digit r2 = []"
          using at2 by (cases r2) (auto simp: at_simps)
        from emits_error [OF same2 at2] False nil r Cons show ?thesis
          unfolding unf pc by (auto simp: report_malformed_float_def Let_def intro!: scansI)
      next
        case dig: True
        then have cons: "takeWhile is_ascii_digit r2 \<noteq> []"
          using at2 by (cases r2) (auto simp: at_simps)
        obtain t where t: "advance_while is_ascii_digit s2 = Some t"
          "lexer_at t (p @ (ds @ [d]) @ takeWhile is_ascii_digit r2) (dropWhile is_ascii_digit r2)"
          "same_output s2 t"
          using advance_while_bounded [OF at2, of is_ascii_digit] by auto
        have same: "same_output s t" using same2 t(3) same_output_trans by blast
        have at': "lexer_at t (p @ (ds @ d # takeWhile is_ascii_digit r2)) (dropWhile is_ascii_digit r2)"
          using t(2) by simp
        show ?thesis
          using scan_exponent_at [OF at' same, of TkFloat] dig cons t(1) r Cons
          unfolding unf pc by (simp add: Let_def)
      qed
    qed
  qed
qed

text \<open>
  The one place where the lexer and the reference part: a comment that runs into U+0000 (the
  loop stays there) and U+0000 itself (nothing is consumed). Everywhere else one call of
  \<open>scan_token\<close> handles exactly the first piece.
\<close>

lemma pair_token_first:
  "pair_token c = Some x \<Longrightarrow> c \<noteq> 0 \<and> c \<noteq> ch CHR ''/'' \<and> fst x \<noteq> 0"
  by (auto simp: pair_token_def split: if_splits)

lemma single_token_first: "single_token c = Some k \<Longrightarrow> c \<noteq> 0"
  by (auto simp: single_token_def split: if_splits)

lemma scan_punctuation_at:
  assumes at: "lexer_at s p (c # r)" and c: "c \<noteq> 0" and pt: "pair_token c = Some (d, k2, k1)"
  shows "scans (case match_char d (advance s) of
                 (True, s) \<Rightarrow> Some (add_token k2 (position_at p) s)
               | (False, s) \<Rightarrow>
                   Some (case k1 of Some k \<Rightarrow> add_token k (position_at p) s
                                  | None \<Rightarrow> report_unexpected (position_at p) c s))
           s p
           (case r of
              e # _ \<Rightarrow> if e = d then (PieceToken k2, [c, e])
                      else (case k1 of Some k \<Rightarrow> PieceToken k | None \<Rightarrow> PieceError, [c])
            | [] \<Rightarrow> (case k1 of Some k \<Rightarrow> PieceToken k | None \<Rightarrow> PieceError, [c]))
           (c # r)"
proof -
  have at1: "lexer_at (advance s) (p @ [c]) r" using at c by (rule advance_at)
  have short: "scans (Some (case k1 of Some k \<Rightarrow> add_token k (position_at p) (advance s)
                 | None \<Rightarrow> report_unexpected (position_at p) c (advance s)))
      s p (case k1 of Some k \<Rightarrow> PieceToken k | None \<Rightarrow> PieceError, [c]) (c # r)"
    using emits_token [OF same_output_advance at1] emits_error [OF same_output_advance at1]
    by (cases k1) (auto simp: report_unexpected_def intro!: scansI)
  show ?thesis
  proof (cases "\<exists>r'. r = d # r'")
    case True
    then obtain r' where r': "r = d # r'" by blast
    have "d \<noteq> 0" using pair_token_first [OF pt] by simp
    with at1 r' have at2: "lexer_at (advance (advance s)) (p @ [c, d]) r'"
      using advance_at [of "advance s" "p @ [c]" d r'] by simp
    have "same_output s (advance (advance s))"
      using same_output_advance same_output_trans by blast
    from emits_token [OF this at2] at1 r' show ?thesis
      by (auto simp: match_char_def at_simps intro!: scansI)
  next
    case False
    then have "match_char d (advance s) = (False, advance s)"
      using at1 by (cases r) (auto simp: match_char_def at_simps)
    with False short show ?thesis by (cases r) auto
  qed
qed

lemma scan_dot_at:
  assumes at: "lexer_at s p (c # r)" and c: "c = ch CHR ''.''"
  shows "scans (if peek_next s = ch CHR ''.''
               then Some (add_token TkDotDot (position_at p) (advance (advance s)))
             else if is_ascii_digit (peek_next s)
               then scan_malformed_float_starting_with_dot s
             else Some (add_token TkDot (position_at p) (advance s)))
           s p
           (case r of
               d # _ \<Rightarrow> if d = ch CHR ''.'' then (PieceToken TkDotDot, [c, d])
                       else if is_ascii_digit d then (PieceError, c # takeWhile is_ascii_digit r)
                       else (PieceToken TkDot, [c])
             | [] \<Rightarrow> (PieceToken TkDot, [c]))
           (c # r)"
proof -
  have at1: "lexer_at (advance s) (p @ [c]) r" using at c by (simp add: advance_at)
  have dot: "scans (Some (add_token TkDot (position_at p) (advance s))) s p (PieceToken TkDot, [c]) (c # r)"
    using emits_token [OF same_output_advance at1] by (auto intro!: scansI)
  show ?thesis
  proof (cases r)
    case Nil
    with dot at show ?thesis by (simp add: at_simps)
  next
    case (Cons d r')
    consider "d = ch CHR ''.''" | "d \<noteq> ch CHR ''.''" "is_ascii_digit d"
      | "d \<noteq> ch CHR ''.''" "\<not> is_ascii_digit d" by blast
    then show ?thesis
    proof cases
      case 1
      then have at2: "lexer_at (advance (advance s)) (p @ [c, d]) r'"
        using advance_at [of "advance s" "p @ [c]" d r'] at1 Cons by simp
      have "same_output s (advance (advance s))"
        using same_output_advance same_output_trans by blast
      from emits_token [OF this at2] 1 at Cons show ?thesis
        by (auto simp: at_simps intro!: scansI)
    next
      case 2
      obtain t where t: "advance_while is_ascii_digit (advance s) = Some t"
        "lexer_at t ((p @ [c]) @ takeWhile is_ascii_digit r) (dropWhile is_ascii_digit r)"
        "same_output (advance s) t"
        using advance_while_bounded [OF at1, of is_ascii_digit] by auto
      have same: "same_output s t" using t(3) same_output_advance same_output_trans by blast
      have at': "lexer_at t (p @ (c # takeWhile is_ascii_digit r)) (dropWhile is_ascii_digit r)"
        using t(2) by simp
      have "scans (Some (report_malformed_float (position_at p) t)) s p
          (PieceError, c # takeWhile is_ascii_digit r) (c # r)"
        using emits_error [OF same at'] unfolding report_malformed_float_def by (rule scansI) simp
      with 2 t(1) at Cons show ?thesis
        by (simp add: at_simps scan_malformed_float_starting_with_dot_def Let_def)
    next
      case 3
      with dot at Cons show ?thesis by (simp add: at_simps)
    qed
  qed
qed

text \<open>A piece the lexer can handle: not U+0000, and no comment with U+0000 in it.\<close>

definition scannable :: "rstring \<Rightarrow> bool" where
  "scannable r \<longleftrightarrow> (case r of [] \<Rightarrow> False | c # _ \<Rightarrow> c \<noteq> 0 \<and> 0 \<notin> set (snd (next_piece r)))"

lemma scan_token_at:
  assumes at: "lexer_at s p r" and ok: "scannable r"
  shows "scans (scan_token s) s p (next_piece r) r"
proof -
  obtain c r' where r: "r = c # r'" and c: "c \<noteq> 0" and nz: "0 \<notin> set (snd (next_piece (c # r')))"
    using ok by (auto simp: scannable_def split: list.splits)
  note at = at [unfolded r]
  note pos = position_lexer_at [OF at]
  have pk: "peek s = c" using at by (simp add: at_simps)
  have pn: "peek_next s = ch CHR ''/'' \<longleftrightarrow> (case r' of d # _ \<Rightarrow> d = ch CHR ''/'' | [] \<Rightarrow> False)"
    using at by (cases r') (auto simp: at_simps)
  have at1: "lexer_at (advance s) (p @ [c]) r'" using at c by (rule advance_at)
  consider (white) "is_whitespace c"
    | (comment) "\<not> is_whitespace c" "c = ch CHR ''/''" "peek_next s = ch CHR ''/''"
    | (ident) "is_identifier_start c" "\<not> is_whitespace c"
    | (number) "is_ascii_digit c" "\<not> is_identifier_start c" "\<not> is_whitespace c"
    | (other) "\<not> is_whitespace c" "\<not> (c = ch CHR ''/'' \<and> peek_next s = ch CHR ''/'')"
        "\<not> is_identifier_start c" "\<not> is_ascii_digit c" by blast
  then show ?thesis
  proof cases
    case white
    have "emits s p [c] PieceSkip (advance s)" by (rule emits_skip) simp
    with at1 white pk r show ?thesis
      by (auto simp: scan_token_def Let_def intro!: scansI)
  next
    case comment
    then have pc: "next_piece (c # r') = (PieceSkip, takeWhile (\<lambda>c. c \<noteq> 10) (c # r'))"
      using pn by simp
    obtain t where t: "advance_while (\<lambda>c. c \<noteq> 10) s = Some t"
      "lexer_at t (p @ takeWhile (\<lambda>c. c \<noteq> 10) (c # r')) (dropWhile (\<lambda>c. c \<noteq> 10) (c # r'))"
      "same_output s t"
      using advance_while_at [OF at] nz [unfolded pc snd_conv] by blast
    have "scan_token s = Some t"
      using comment pk t(1) by (simp add: scan_token_def Let_def skip_line_comment_def)
    moreover have "c # r' = takeWhile (\<lambda>c. c \<noteq> 10) (c # r') @ dropWhile (\<lambda>c. c \<noteq> 10) (c # r')"
      by (simp del: takeWhile.simps dropWhile.simps)
    ultimately show ?thesis
      using scansI [OF conjI [OF emits_skip [OF t(3)] t(2)]] r pc by simp
  next
    case ident
    moreover from ident have "c \<noteq> ch CHR ''/''"
      by (auto simp: is_identifier_start_def is_ascii_alphabetic_def)
    ultimately have "scan_token s = scan_identifier_or_keyword s"
      using pk by (simp add: scan_token_def Let_def)
    with scan_identifier_at [OF at ident(1)] r show ?thesis by simp
  next
    case number
    moreover from number have "c \<noteq> ch CHR ''/''" by (auto simp: is_ascii_digit_def)
    ultimately have "scan_token s = scan_number s" "next_piece (c # r') = number_piece (c # r')"
      using pk by (simp_all add: scan_token_def Let_def)
    with scan_number_at [OF at number(1)] r show ?thesis by simp
  next
    case other
    show ?thesis
    proof (cases "single_token c")
      case (Some k)
      with other pk pn pos r emits_token [OF same_output_advance at1] show ?thesis
        by (auto simp: scan_token_def Let_def intro!: scansI)
    next
      case single: None
      show ?thesis
      proof (cases "c = ch CHR ''.''")
        case True
        have st: "scan_token s =
            (if peek_next s = ch CHR ''.''
               then Some (add_token TkDotDot (position_at p) (advance (advance s)))
             else if is_ascii_digit (peek_next s)
               then scan_malformed_float_starting_with_dot s
             else Some (add_token TkDot (position_at p) (advance s)))"
          using other single True pk pos by (auto simp: scan_token_def Let_def)
        have np: "next_piece (c # r') =
            (case r' of
               d # _ \<Rightarrow> if d = ch CHR ''.'' then (PieceToken TkDotDot, [c, d])
                       else if is_ascii_digit d then (PieceError, c # takeWhile is_ascii_digit r')
                       else (PieceToken TkDot, [c])
             | [] \<Rightarrow> (PieceToken TkDot, [c]))"
          using other single by (cases r') (simp_all add: True)
        from scan_dot_at [OF at True] show ?thesis
          unfolding r st np .
      next
        case nodot: False
        show ?thesis
        proof (cases "pair_token c")
          case None
          with other single nodot pk pn pos r scan_unexpected_at [OF at c] show ?thesis
            by (auto simp: scan_token_def Let_def intro!: scansI)
        next
          case (Some x)
          obtain d k2 k1 where x: "x = (d, k2, k1)" by (cases x) auto
          have "c \<noteq> ch CHR ''/''" using pair_token_first [OF Some] by simp
          with other single nodot Some x pk pos r scan_punctuation_at [OF at c] show ?thesis
            by (simp add: scan_token_def Let_def)
        qed
      qed
    qed
  qed
qed

section \<open>The whole text\<close>

lemma takeWhile_prefix: "\<exists>r'. r = takeWhile P r @ r'"
  by (metis takeWhile_dropWhile_id)

lemma exponent_piece_prefix: "\<exists>r'. w @ r = snd (exponent_piece k w r) @ r'"
proof (cases r)
  case (Cons e r1)
  then show ?thesis
    by (cases r1) (auto simp: Let_def intro: exI [of _ "dropWhile is_ascii_digit r1"]
        exI [of _ "dropWhile is_ascii_digit (tl r1)"])
qed simp

lemma exponent_piece_nonempty: "w \<noteq> [] \<Longrightarrow> snd (exponent_piece k w r) \<noteq> []"
  by (cases r) (auto simp: Let_def)

lemma number_piece_prefix: "\<exists>r'. r = snd (number_piece r) @ r'"
proof (cases "dropWhile is_ascii_digit r")
  case Nil
  then show ?thesis
    using takeWhile_dropWhile_id [of is_ascii_digit r] unfolding number_piece_def Nil
    by (simp add: Let_def takeWhile_prefix)
next
  case (Cons c r')
  have r: "r = takeWhile is_ascii_digit r @ c # r'"
    using Cons takeWhile_dropWhile_id [of is_ascii_digit r] by simp
  let ?fs = "takeWhile is_ascii_digit r'"
  have r2: "r = (takeWhile is_ascii_digit r @ c # ?fs) @ dropWhile is_ascii_digit r'"
    using r by simp
  show ?thesis
    using exponent_piece_prefix [of "takeWhile is_ascii_digit r" "c # r'" TkInteger]
      exponent_piece_prefix [of "takeWhile is_ascii_digit r @ c # ?fs"
        "dropWhile is_ascii_digit r'" TkFloat] r r2
    by (auto simp: number_piece_def Cons Let_def simp del: exponent_piece.simps)
qed

lemma number_piece_nonempty: "is_ascii_digit c \<Longrightarrow> snd (number_piece (c # r)) \<noteq> []"
  by (auto simp: number_piece_def Let_def exponent_piece_nonempty split: list.splits)

lemma next_piece_prefix: "\<exists>r'. r = snd (next_piece r) @ r'"
proof (cases r)
  case (Cons c r1)
  show ?thesis
    using number_piece_prefix [of r]
    by (auto simp: Cons Let_def takeWhile_prefix split: list.splits option.splits)
qed simp

lemma scannable_clean:
  assumes "r \<noteq> []" "0 \<notin> set r"
  shows "scannable r"
proof -
  have "set (snd (next_piece r)) \<subseteq> set r" using next_piece_prefix [of r] by (metis set_append Un_upper1)
  with assms show ?thesis
    by (cases r) (auto simp: scannable_def simp del: next_piece.simps)
qed

lemma next_piece_nonempty: "r \<noteq> [] \<Longrightarrow> snd (next_piece r) \<noteq> []"
proof (cases r)
  case (Cons c r1)
  then show ?thesis
    by (auto simp: Let_def number_piece_nonempty split: list.splits option.splits)
qed simp

function pieces :: "rstring \<Rightarrow> (piece \<times> rstring) list" where
  "pieces r =
     (if r = [] then []
      else next_piece r # pieces (drop (length (snd (next_piece r))) r))"
  by pat_completeness auto
termination
  by (relation "measure length") (auto intro!: diff_less simp: next_piece_nonempty)

declare pieces.simps [simp del]

lemma pieces_Nil [simp]: "pieces [] = []"
  by (simp add: pieces.simps)

lemma pieces_step:
  assumes "next_piece r = (out, w)" "r = w @ r'" "r \<noteq> []"
  shows "pieces r = (out, w) # pieces r'"
  using assms by (subst pieces.simps) simp

text \<open>The pieces cover the text, none is empty, and the tokens are where they stand.\<close>

lemma concat_pieces [simp]: "concat (map snd (pieces r)) = r"
proof (induction r rule: pieces.induct)
  case (1 r)
  show ?case
  proof (cases "r = []")
    case False
    obtain r' where r': "r = snd (next_piece r) @ r'" using next_piece_prefix by blast
    with False "1" have "concat (map snd (pieces r')) = r'" by (metis append_eq_conv_conj)
    with r' False show ?thesis
      using pieces_step [of r "fst (next_piece r)" "snd (next_piece r)" r'] by simp
  qed simp
qed

lemma pieces_nonempty: "(out, w) \<in> set (pieces r) \<Longrightarrow> w \<noteq> []"
proof (induction r rule: pieces.induct)
  case (1 r)
  then show ?case
    using next_piece_nonempty [of r]
    by (cases "next_piece r", subst (asm) (2) pieces.simps) (auto split: if_splits)
qed

fun layout :: "rstring \<Rightarrow> (piece \<times> rstring) list \<Rightarrow> token list" where
  "layout p [] = []"
| "layout p ((PieceToken k, w) # ps) = token_at k p w # layout (p @ w) ps"
| "layout p ((PieceSkip, w) # ps) = layout (p @ w) ps"
| "layout p ((PieceError, w) # ps) = layout (p @ w) ps"

definition clean :: "(piece \<times> rstring) list \<Rightarrow> bool" where
  "clean ps \<longleftrightarrow> (\<forall>pc \<in> set ps. fst pc \<noteq> PieceError)"

lemma lex_loop_at:
  assumes "lexer_at s p r" "0 \<notin> set r"
  shows "\<exists>t. lex_loop s = Some t \<and> lexer_at t (p @ r) [] \<and> lx_source t = lx_source s \<and>
    lx_tokens t = lx_tokens s @ layout p (pieces r) \<and>
    (\<exists>ds. lx_diagnostics t = lx_diagnostics s @ ds \<and> (ds = [] \<longleftrightarrow> clean (pieces r)))"
  using assms
proof (induction r arbitrary: s p rule: length_induct)
  case (1 r)
  show ?case
  proof (cases "r = []")
    case True
    with 1 show ?thesis by (subst lex_loop.simps) (simp add: at_simps clean_def)
  next
    case False
    obtain out w where pc: "next_piece r = (out, w)" by fastforce
    have "scannable r" using False "1.prems"(2) by (rule scannable_clean)
    with "1.prems"(1) pc obtain u r' where u: "scan_token s = Some u" "r = w @ r'"
      "emits s p w out u" "lexer_at u (p @ w) r'"
      using scan_token_at unfolding scans_def by fastforce
    have "w \<noteq> []" using next_piece_nonempty [OF False] pc by simp
    with u(2) "1.prems"(2) have "length r' < length r" "0 \<notin> set r'" by auto
    with "1.IH" u(4) obtain t where t: "lex_loop u = Some t" "lexer_at t ((p @ w) @ r') []"
      "lx_source t = lx_source u" "lx_tokens t = lx_tokens u @ layout (p @ w) (pieces r')"
      "\<exists>ds. lx_diagnostics t = lx_diagnostics u @ ds \<and> (ds = [] \<longleftrightarrow> clean (pieces r'))"
      by blast
    note ps = pieces_step [OF pc u(2) False]
    have "lex_loop s = Some t"
      using "1.prems"(1) False u(1) t(1) by (subst lex_loop.simps) (simp add: at_simps)
    with t u(2,3) ps show ?thesis by (cases out) (auto simp: emits_def clean_def)
  qed
qed

section \<open>Where the lexer does not return\<close>

lemma scan_token_nul:
  assumes "lexer_at s p (0 # r)"
  shows "\<exists>t. scan_token s = Some t \<and> lexer_at t p (0 # r)"
proof -
  have "\<not> is_whitespace 0" "single_token 0 = None" "pair_token 0 = None" "len_utf16 0 = 1"
    by (simp_all add: is_whitespace_def single_token_def pair_token_def len_utf16_def)
  with assms advance_at_nul [OF assms] show ?thesis
    by (simp add: scan_token_def Let_def at_simps scan_unexpected_character_def report_unexpected_def)
qed

lemma lex_loop_stuck:
  assumes "lexer_at s p (0 # r)"
  shows "lex_loop s = None"
proof -
  have "\<not> (\<exists>p r. lexer_at s p (0 # r))" if "lex_loop s = Some t" for s t
  proof (rule lex_loop.raw_induct [where P = "\<lambda>s t. \<not> (\<exists>p r. lexer_at s p (0 # r))", OF _ that])
    fix f s t
    assume IH: "\<And>s t. f s = Some t \<Longrightarrow> \<not> (\<exists>p r. lexer_at s p (0 # r))"
      and eq: "(if is_at_end s then Some s else Option.bind (scan_token s) f) = Some t"
    show "\<not> (\<exists>p r. lexer_at s p (0 # r))"
    proof clarify
      fix p r
      assume at: "lexer_at s p (0 # r)"
      with scan_token_nul obtain u where "scan_token s = Some u" "lexer_at u p (0 # r)" by blast
      with at eq IH [of u t] show False by (auto simp: at_simps)
    qed
  qed
  with assms show ?thesis by (cases "lex_loop s") auto
qed

lemma exponent_piece_no_nul: "0 \<notin> set w \<Longrightarrow> 0 \<notin> set (snd (exponent_piece k w r))"
  by (cases r) (auto simp: Let_def dest: set_takeWhileD class_pos split: list.splits)

lemma number_piece_no_nul: "0 \<notin> set (snd (number_piece r))"
proof (cases "dropWhile is_ascii_digit r")
  case Nil
  then show ?thesis
    unfolding number_piece_def Nil by (auto simp: Let_def dest: set_takeWhileD class_pos)
next
  case (Cons c r')
  have "0 \<notin> set (takeWhile is_ascii_digit x)" for x
    by (auto dest: set_takeWhileD class_pos)
  then show ?thesis
    unfolding number_piece_def Cons
    using exponent_piece_no_nul [of "takeWhile is_ascii_digit r" TkInteger "c # r'"]
      exponent_piece_no_nul [of "takeWhile is_ascii_digit r @ c # takeWhile is_ascii_digit r'"
        TkFloat "dropWhile is_ascii_digit r'"]
    by (auto simp: Let_def simp del: exponent_piece.simps)
qed

lemma next_piece_no_nul:
  assumes "c \<noteq> 0" "\<not> (c = ch CHR ''/'' \<and> (case r of d # _ \<Rightarrow> d = ch CHR ''/'' | [] \<Rightarrow> False))"
  shows "0 \<notin> set (snd (next_piece (c # r)))"
  using assms number_piece_no_nul [of "c # r"]
  by (auto simp: Let_def dest: set_takeWhileD class_pos pair_token_first split: list.splits option.splits)

lemma scan_token_comment_nul:
  assumes at: "lexer_at s p (c # r)" and c: "c = ch CHR ''/''"
    and d: "case r of d # _ \<Rightarrow> d = ch CHR ''/'' | [] \<Rightarrow> False"
    and nul: "0 \<in> set (takeWhile (\<lambda>c. c \<noteq> 10) (c # r))"
  shows "scan_token s = None"
proof -
  have "peek s = ch CHR ''/''" "peek_next s = ch CHR ''/''"
    using at c d by (auto simp: at_simps split: list.splits)
  moreover have "advance_while (\<lambda>c. c \<noteq> 10) s = None"
    using at nul by (intro advance_while_stuck) auto
  moreover have "\<not> is_whitespace (ch CHR ''/'')" by (simp add: is_whitespace_def)
  ultimately show ?thesis
    by (simp add: scan_token_def Let_def skip_line_comment_def)
qed

lemma lex_loop_diverges:
  assumes "lexer_at s p r" "0 \<in> set r"
  shows "lex_loop s = None"
  using assms
proof (induction r arbitrary: s p rule: length_induct)
  case (1 r)
  then obtain c r1 where r: "r = c # r1" by (cases r) auto
  note at = "1.prems"(1) [unfolded r]
  show ?case
  proof (cases "c = 0")
    case True
    with at show ?thesis using lex_loop_stuck by blast
  next
    case c: False
    show ?thesis
    proof (cases "scannable r")
      case True
      obtain out w where pc: "next_piece r = (out, w)" by fastforce
      from True "1.prems"(1) pc obtain u r' where u: "scan_token s = Some u" "r = w @ r'"
        "lexer_at u (p @ w) r'"
        using scan_token_at unfolding scans_def by fastforce
      have "0 \<notin> set w" using True pc r by (simp add: scannable_def del: next_piece.simps)
      moreover have "w \<noteq> []" using next_piece_nonempty [of r] pc r by simp
      ultimately have "length r' < length r" "0 \<in> set r'"
        using u(2) "1.prems"(2) by auto
      with "1.IH" u(3) have "lex_loop u = None" by blast
      with u(1) at show ?thesis by (subst lex_loop.simps) (simp add: at_simps)
    next
      case False
      then have nul: "0 \<in> set (snd (next_piece (c # r1)))"
        using r c by (simp add: scannable_def del: next_piece.simps)
      with c next_piece_no_nul have cm: "c = ch CHR ''/''"
        "case r1 of d # _ \<Rightarrow> d = ch CHR ''/'' | [] \<Rightarrow> False" by blast+
      have "\<not> is_whitespace c" using cm(1) by (simp add: is_whitespace_def)
      with cm have "next_piece (c # r1) = (PieceSkip, takeWhile (\<lambda>c. c \<noteq> 10) (c # r1))" by simp
      with nul have "0 \<in> set (takeWhile (\<lambda>c. c \<noteq> 10) (c # r1))" by (metis snd_conv)
      with at cm have "scan_token s = None" by (rule scan_token_comment_nul)
      with at show ?thesis by (subst lex_loop.simps) (simp add: at_simps)
    qed
  qed
qed

section \<open>Facts on layouts and blank-separated words\<close>

lemma layout_token:
  assumes "t \<in> set (layout p ps)"
  shows "\<exists>q r k. concat (map snd ps) = q @ tk_text t @ r \<and> t = token_at k (p @ q) (tk_text t)"
  using assms
proof (induction p ps rule: layout.induct)
  case (2 p k w ps)
  show ?case
  proof (cases "t = token_at k p w")
    case True
    then show ?thesis by (intro exI [of _ "[]"] exI [of _ "concat (map snd ps)"]) (auto simp: token_at_def)
  next
    case False
    with 2 obtain q r k where "concat (map snd ps) = q @ tk_text t @ r"
      "t = token_at k ((p @ w) @ q) (tk_text t)" by auto
    then show ?thesis by (intro exI [of _ "w @ q"] exI [of _ r] exI [of _ k]) auto
  qed
next
  case (3 p w ps)
  then obtain q r k where "concat (map snd ps) = q @ tk_text t @ r"
    "t = token_at k ((p @ w) @ q) (tk_text t)" by auto
  then show ?case by (intro exI [of _ "w @ q"] exI [of _ r] exI [of _ k]) auto
next
  case (4 p w ps)
  then obtain q r k where "concat (map snd ps) = q @ tk_text t @ r"
    "t = token_at k ((p @ w) @ q) (tk_text t)" by auto
  then show ?case by (intro exI [of _ "w @ q"] exI [of _ r] exI [of _ k]) auto
qed simp

lemma layout_token_fields:
  assumes "t \<in> set (layout p ps)"
  obtains q r where "concat (map snd ps) = q @ tk_text t @ r"
    "tk_line t = line_of (p @ q)" "tk_column t = column_of (p @ q)"
    "tk_start t = utf16_len (p @ q)" "tk_end t = utf16_len (p @ q @ tk_text t)"
proof -
  obtain q r k where eq: "concat (map snd ps) = q @ tk_text t @ r" "t = token_at k (p @ q) (tk_text t)"
    using layout_token [OF assms] by blast
  show ?thesis
    by (rule that [OF eq(1)]; subst eq(2), simp add: token_at_def)
qed

lemma layout_start: "t \<in> set (layout p ps) \<Longrightarrow> utf16_len p \<le> tk_start t"
  by (erule layout_token_fields) simp

lemma layout_end: "t \<in> set (layout p ps) \<Longrightarrow> tk_end t \<le> utf16_len (p @ concat (map snd ps))"
  by (erule layout_token_fields) simp

lemma layout_sorted: "sorted_wrt (\<lambda>a b. tk_end a \<le> tk_start b) (layout p ps)"
  by (induction p ps rule: layout.induct) (auto dest!: layout_start simp: token_at_def)

lemma exponent_piece_not_eof:
  "k \<noteq> TkEof \<Longrightarrow> fst (exponent_piece k w r) \<noteq> PieceToken TkEof"
  by (cases r) (auto simp: Let_def)

lemma number_piece_not_eof: "fst (number_piece r) \<noteq> PieceToken TkEof"
  by (auto simp: number_piece_def Let_def exponent_piece_not_eof split: list.splits)

lemma identifier_kind_not_eof: "identifier_kind w \<noteq> TkEof"
  by (auto simp: identifier_kind_def keyword_kind_def keyword_table_def split: option.splits if_splits)

lemma next_piece_not_eof: "fst (next_piece r) \<noteq> PieceToken TkEof"
proof (cases r)
  case (Cons c r1)
  have "single_token c \<noteq> Some TkEof" by (auto simp: single_token_def)
  moreover have "pair_token c \<noteq> Some (d, TkEof, k)" "pair_token c \<noteq> Some (d, k2, Some TkEof)" for d k k2
    by (auto simp: pair_token_def split: if_splits)
  ultimately show ?thesis
    unfolding Cons
    by (auto simp: Let_def number_piece_not_eof identifier_kind_not_eof split: list.splits option.splits)
qed simp

lemma pieces_from_next: "pc \<in> set (pieces r) \<Longrightarrow> \<exists>r'. pc = next_piece r'"
proof (induction r rule: pieces.induct)
  case (1 r)
  then show ?case by (subst (asm) (2) pieces.simps) (auto split: if_splits)
qed

lemma layout_kind:
  "t \<in> set (layout p ps) \<Longrightarrow> \<exists>w. (PieceToken (tk_kind t), w) \<in> set ps \<and> tk_text t = w"
  by (induction p ps rule: layout.induct) (auto simp: token_at_def)

lemma layout_not_eof: "t \<in> set (layout p (pieces r)) \<Longrightarrow> tk_kind t \<noteq> TkEof \<and> tk_text t \<noteq> []"
  using layout_kind [of t p "pieces r"] pieces_from_next next_piece_not_eof pieces_nonempty
  by (metis fst_conv)

lemma takeWhile_blank:
  "\<not> P b \<Longrightarrow> takeWhile P (xs @ b # r) = takeWhile P xs"
  "\<not> P b \<Longrightarrow> dropWhile P (xs @ b # r) = dropWhile P xs @ b # r"
  by (induction xs) auto

lemma blank_class [simp]:
  "\<not> is_ascii_digit 32" "\<not> is_identifier_part 32" "\<not> is_exponent_start 32" "is_whitespace 32"
  by (simp_all add: is_ascii_digit_def is_identifier_part_def is_identifier_start_def
      is_ascii_alphabetic_def is_exponent_start_def is_whitespace_def)

lemma exponent_piece_blank:
  assumes "exponent_piece k w r = (PieceToken k', w')"
  shows "exponent_piece k w (r @ 32 # x) = (PieceToken k', w')"
proof (cases r)
  case Nil
  with assms show ?thesis by simp
next
  case (Cons e r1)
  show ?thesis
  proof (cases r1)
    case Nil
    with Cons assms show ?thesis by (auto simp: Let_def split: if_splits)
  next
    case (Cons a r2)
    with assms \<open>r = e # r1\<close> show ?thesis
      by (auto simp: Let_def takeWhile_blank split: if_splits)
  qed
qed

lemma number_piece_blank:
  assumes "number_piece r = (PieceToken k, w)"
  shows "number_piece (r @ 32 # x) = (PieceToken k, w)"
proof (cases "dropWhile is_ascii_digit r")
  case Nil
  then have d: "dropWhile is_ascii_digit (r @ 32 # x) = 32 # x" by (simp add: takeWhile_blank)
  from assms have "k = TkInteger" "w = takeWhile is_ascii_digit r"
    unfolding number_piece_def Nil by (simp_all add: Let_def)
  then show ?thesis
    unfolding number_piece_def d by (simp add: Let_def takeWhile_blank)
next
  case (Cons c r')
  then have d: "dropWhile is_ascii_digit (r @ 32 # x) = c # r' @ 32 # x"
    by (simp add: takeWhile_blank)
  have hd: "(case r' @ 32 # x of d # _ \<Rightarrow> d \<noteq> ch CHR ''.'' | [] \<Rightarrow> True) \<longleftrightarrow>
      (case r' of d # _ \<Rightarrow> d \<noteq> ch CHR ''.'' | [] \<Rightarrow> True)"
    by (cases r') auto
  show ?thesis
  proof (cases "c = ch CHR ''.'' \<and> (case r' of d # _ \<Rightarrow> d \<noteq> ch CHR ''.'' | [] \<Rightarrow> True)")
    case True
    with assms show ?thesis
      unfolding number_piece_def d list.case hd unfolding Cons
      by (auto simp: Let_def takeWhile_blank exponent_piece_blank split: if_splits)
  next
    case False
    with assms exponent_piece_blank [of TkInteger "takeWhile is_ascii_digit r" "c # r'" k w x]
    show ?thesis
      unfolding number_piece_def d list.case hd unfolding Cons
      by (auto simp: Let_def takeWhile_blank simp del: exponent_piece.simps)
  qed
qed

lemma next_piece_blank:
  assumes "next_piece w = (PieceToken k, w)"
  shows "next_piece (w @ 32 # x) = (PieceToken k, w)"
proof (cases w)
  case Nil
  with assms show ?thesis by simp
next
  case (Cons c cs)
  note eq = assms [unfolded Cons]
  have "\<not> is_whitespace c" using eq by auto
  moreover have "\<not> (c = ch CHR ''/'' \<and> (case cs of d # _ \<Rightarrow> d = ch CHR ''/'' | [] \<Rightarrow> False))"
    using eq by (auto split: if_splits)
  moreover have "(case cs @ 32 # x of d # _ \<Rightarrow> d = ch CHR ''/'' | [] \<Rightarrow> False) \<longleftrightarrow>
      (case cs of d # _ \<Rightarrow> d = ch CHR ''/'' | [] \<Rightarrow> False)" by (cases cs) auto
  ultimately show ?thesis
    using eq number_piece_blank [of "c # cs" k "c # cs" x] unfolding Cons
    by (cases cs) (auto simp: Let_def takeWhile_blank pair_token_def
        split: if_splits option.splits)
qed

end
