(* ===== verification/Lexer_Properties.thy ===== *)
theory Lexer_Properties
  imports Lexer_Spec
begin

text \<open>The properties of the lexer, from the refinement of \<open>Lexer_Spec\<close>.\<close>

lemma lex_result:
  assumes "0 \<notin> set (sf_text src)"
  shows "\<exists>ds. lex src = Some \<lparr>lr_tokens = layout [] (pieces (sf_text src)) @
            [eof_token (position_at (sf_text src))], lr_diagnostics = ds\<rparr> \<and>
          (ds = [] \<longleftrightarrow> clean (pieces (sf_text src)))"
proof -
  obtain t where "lex_loop (lexer_new src) = Some t" "lexer_at t (sf_text src) []"
    "lx_tokens t = layout [] (pieces (sf_text src))"
    "\<exists>ds. lx_diagnostics t = ds \<and> (ds = [] \<longleftrightarrow> clean (pieces (sf_text src)))"
    using lex_loop_at [OF lexer_at_new assms] by (auto simp: lexer_new_def)
  then show ?thesis by (simp add: lex_def position_lexer_at)
qed

lemma lex_nul: "0 \<in> set (sf_text src) \<Longrightarrow> lex src = None"
  using lex_loop_diverges [OF lexer_at_new] by (simp add: lex_def)

lemma lex_SomeD:
  assumes "lex src = Some res"
  shows "lr_tokens res = layout [] (pieces (sf_text src)) @ [eof_token (position_at (sf_text src))]"
    "lr_diagnostics res = [] \<longleftrightarrow> clean (pieces (sf_text src))" "0 \<notin> set (sf_text src)"
proof -
  show nz: "0 \<notin> set (sf_text src)" using lex_nul assms by auto
  show "lr_tokens res = layout [] (pieces (sf_text src)) @ [eof_token (position_at (sf_text src))]"
    "lr_diagnostics res = [] \<longleftrightarrow> clean (pieces (sf_text src))"
    using lex_result [OF nz] assms by auto
qed

text \<open>Evaluation of the lexer on a closed text.\<close>

lemmas lex_eval =
  lex_def lexer_new_def lex_loop.simps advance_while.simps scan_token_def
  scan_identifier_or_keyword_def scan_number_def scan_exponent_def peek_def peek_next_def
  lexer_rest_def is_at_end_def position_def advance_def match_char_def text_since_def
  slice_range_def add_token_def is_ascii_digit_def is_ascii_alphabetic_def is_whitespace_def
  is_exponent_start_def is_identifier_start_def is_identifier_part_def keyword_kind_def
  keyword_table_def single_token_def pair_token_def len_utf8_def len_utf16_def lit_def
  eof_token_def Let_def

definition if_one :: source_file where
  "if_one = \<lparr>file_name = [], sf_text = lit ''if 1''\<rparr>"

definition if_one_tokens :: lex_result where
  "if_one_tokens = \<lparr>lr_tokens =
     [\<lparr>tk_kind = TkIf, tk_text = lit ''if'', tk_line = 1, tk_column = 1, tk_start = 0, tk_end = 2\<rparr>,
      \<lparr>tk_kind = TkInteger, tk_text = lit ''1'', tk_line = 1, tk_column = 4, tk_start = 3, tk_end = 4\<rparr>,
      \<lparr>tk_kind = TkEof, tk_text = [], tk_line = 1, tk_column = 5, tk_start = 4, tk_end = 4\<rparr>],
     lr_diagnostics = []\<rparr>"

lemma lex_if_one: "lex if_one = Some if_one_tokens"
  by (simp add: if_one_def if_one_tokens_def lex_eval)

text \<open>
  C1. The lexer returns on a text exactly when the text has no U+0000. On a text with U+0000
  it runs for ever: \<open>advance\<close> does not move over that character, which \<open>peek\<close> also returns
  past the end.
\<close>

theorem lex_returns_iff: "(\<exists>res. lex src = Some res) \<longleftrightarrow> 0 \<notin> set (sf_text src)"
  using lex_result [of src] lex_nul [of src] by auto

text \<open>
  C2. Refinement: the tokens are those of the maximal-munch reference \<open>next_piece\<close>, in order
  and each at its place in the text, followed by one end-of-file token; a diagnostic is
  reported exactly when the reference rejects some piece.
\<close>

theorem lex_refines_pieces:
  assumes "lex src = Some res"
  shows "lr_tokens res = layout [] (pieces (sf_text src)) @ [eof_token (position_at (sf_text src))] \<and>
    (lr_diagnostics res = [] \<longleftrightarrow> clean (pieces (sf_text src)))"
  using lex_SomeD [OF assms] by simp

theorem lex_refines_pieces_witness:
  "lr_tokens if_one_tokens = layout [] (pieces (sf_text if_one)) @
     [eof_token (position_at (sf_text if_one))] \<and>
   (lr_diagnostics if_one_tokens = [] \<longleftrightarrow> clean (pieces (sf_text if_one)))"
  using lex_refines_pieces [OF lex_if_one] .

text \<open>
  C3. Every token is an exact slice of the text, with the 1-based line, the 1-based UTF-16
  column and the UTF-16 offsets of that slice.
\<close>

theorem lex_token_positions:
  assumes "lex src = Some res" "t \<in> set (lr_tokens res)"
  shows "\<exists>p r. sf_text src = p @ tk_text t @ r \<and> tk_line t = line_of p \<and>
    tk_column t = column_of p \<and> tk_start t = utf16_len p \<and> tk_end t = utf16_len (p @ tk_text t)"
proof -
  have toks: "lr_tokens res = layout [] (pieces (sf_text src)) @ [eof_token (position_at (sf_text src))]"
    using lex_SomeD [OF assms(1)] by simp
  show ?thesis
  proof (cases "t \<in> set (layout [] (pieces (sf_text src)))")
    case True
    then show ?thesis by (rule layout_token_fields) auto
  next
    case False
    with assms(2) toks have "t = eof_token (position_at (sf_text src))" by simp
    then show ?thesis
      by (intro exI [of _ "sf_text src"] exI [of _ "[]"]) (simp add: eof_token_def position_at_def)
  qed
qed

theorem lex_token_positions_witness:
  "\<exists>p r. sf_text if_one = p @ lit ''1'' @ r \<and> 1 = line_of p \<and> 4 = column_of p \<and>
     3 = utf16_len p \<and> 4 = utf16_len (p @ lit ''1'')"
proof -
  have "lr_tokens if_one_tokens ! 1 \<in> set (lr_tokens if_one_tokens)"
    by (simp add: if_one_tokens_def)
  from lex_token_positions [OF lex_if_one this] show ?thesis
    by (simp add: if_one_tokens_def)
qed

text \<open>
  The tokens do not overlap and come in the order of the text; none but the last is an
  end-of-file token and none but it is empty.
\<close>

theorem lex_tokens_ordered:
  assumes "lex src = Some res"
  shows "sorted_wrt (\<lambda>a b. tk_end a \<le> tk_start b) (lr_tokens res) \<and>
    tk_kind (last (lr_tokens res)) = TkEof \<and> lr_tokens res \<noteq> [] \<and>
    (\<forall>t \<in> set (butlast (lr_tokens res)). tk_kind t \<noteq> TkEof \<and> tk_start t < tk_end t)"
proof -
  have toks: "lr_tokens res = layout [] (pieces (sf_text src)) @ [eof_token (position_at (sf_text src))]"
    using lex_SomeD [OF assms] by simp
  have le: "tk_end t \<le> utf16_len (sf_text src)" if "t \<in> set (layout [] (pieces (sf_text src)))" for t
    using layout_end [OF that] by simp
  have lt: "tk_start t < tk_end t" if t: "t \<in> set (layout [] (pieces (sf_text src)))" for t
    using t
  proof (rule layout_token_fields)
    fix q r
    assume "tk_start t = utf16_len ([] @ q)" "tk_end t = utf16_len ([] @ q @ tk_text t)"
    with layout_not_eof [OF t] show ?thesis by (cases "tk_text t") auto
  qed
  show ?thesis
    using le lt layout_not_eof layout_sorted [of "[]" "pieces (sf_text src)"]
    by (auto simp: toks sorted_wrt_append eof_token_def position_at_def)
qed

theorem lex_tokens_ordered_witness:
  "sorted_wrt (\<lambda>a b. tk_end a \<le> tk_start b) (lr_tokens if_one_tokens) \<and>
   tk_kind (last (lr_tokens if_one_tokens)) = TkEof"
  using lex_tokens_ordered [OF lex_if_one] by blast

definition lexes_alone :: "rstring \<Rightarrow> token_kind \<Rightarrow> bool" where
  "lexes_alone w k \<longleftrightarrow>
     map_option (\<lambda>r. (map (\<lambda>t. (tk_kind t, tk_text t)) (lr_tokens r), lr_diagnostics r))
       (lex \<lparr>file_name = [], sf_text = w\<rparr>) = Some ([(k, w), (TkEof, [])], [])"

definition write_words :: "(rstring \<times> token_kind) list \<Rightarrow> rstring" where
  "write_words ws = concat (map (\<lambda>(w, k). w @ [32]) ws)"

lemma layout_texts:
  "map tk_text (layout p ps) = map snd (filter (\<lambda>pc. \<exists>k. fst pc = PieceToken k) ps)"
  by (induction p ps rule: layout.induct) (auto simp: token_at_def)

lemma piece_length: "(out, w) \<in> set ps \<Longrightarrow> length w \<le> length (concat (map snd ps))"
  by (induction ps) auto

lemma lexes_aloneD:
  assumes "lexes_alone w k"
  shows "next_piece w = (PieceToken k, w)" "0 \<notin> set w" "w \<noteq> []"
proof -
  obtain res where res: "lex \<lparr>file_name = [], sf_text = w\<rparr> = Some res"
    "map (\<lambda>t. (tk_kind t, tk_text t)) (lr_tokens res) = [(k, w), (TkEof, [])]"
    using assms by (auto simp: lexes_alone_def)
  note D = lex_SomeD [OF res(1), simplified]
  show "0 \<notin> set w" by (fact D(3))
  obtain t where t: "layout [] (pieces w) = [t]" "tk_kind t = k" "tk_text t = w"
    using res(2) D(1) by (cases "layout [] (pieces w)") (auto simp: eof_token_def)
  then show ne: "w \<noteq> []" using layout_not_eof [of t "[]" w] by simp
  have "(PieceToken k, w) \<in> set (pieces w)" using layout_kind [of t "[]" "pieces w"] t by simp
  moreover obtain r' where r': "w = snd (next_piece w) @ r'" using next_piece_prefix by blast
  ultimately have mem: "(PieceToken k, w) \<in> set (next_piece w # pieces r')"
    using pieces_step [of w "fst (next_piece w)" "snd (next_piece w)" r'] ne by simp
  show "next_piece w = (PieceToken k, w)"
  proof (rule ccontr)
    assume "next_piece w \<noteq> (PieceToken k, w)"
    with mem have "(PieceToken k, w) \<in> set (pieces r')" by auto
    then have "length w \<le> length (concat (map snd (pieces r')))"
      by (rule piece_length)
    moreover have "length r' < length w" using next_piece_nonempty [OF ne] arg_cong [OF r', of length] by simp
    ultimately show False by simp
  qed
qed

lemma pieces_write_words:
  assumes "\<forall>(w, k) \<in> set ws. lexes_alone w k"
  shows "pieces (write_words ws) = concat (map (\<lambda>(w, k). [(PieceToken k, w), (PieceSkip, [32])]) ws)"
  using assms
proof (induction ws)
  case Nil
  then show ?case by (simp add: write_words_def)
next
  case (Cons x ws)
  obtain w k where x: "x = (w, k)" by (cases x)
  with Cons.prems have w: "next_piece w = (PieceToken k, w)" "w \<noteq> []"
    using lexes_aloneD [of w k] by auto
  have eq: "write_words (x # ws) = w @ 32 # write_words ws" by (simp add: write_words_def x)
  have "pieces (w @ 32 # write_words ws) = (PieceToken k, w) # pieces (32 # write_words ws)"
    using next_piece_blank [OF w(1)] w(2) by (intro pieces_step) auto
  also have "pieces (32 # write_words ws) = (PieceSkip, [32]) # pieces (write_words ws)"
    by (intro pieces_step) auto
  finally show ?case using Cons eq x by simp
qed

text \<open>
  C5. Printing and reading back: words that each lex on their own to one token and the end of
  the file, written one after another with a blank after each, lex to these tokens (kinds and
  texts) without a diagnostic.
\<close>

theorem lex_write_words:
  assumes "\<forall>(w, k) \<in> set ws. lexes_alone w k"
  shows "\<exists>res. lex \<lparr>file_name = f, sf_text = write_words ws\<rparr> = Some res \<and>
    map (\<lambda>t. (tk_text t, tk_kind t)) (lr_tokens res) = ws @ [([], TkEof)] \<and>
    lr_diagnostics res = []"
proof -
  let ?t = "write_words ws"
  have nz: "0 \<notin> set ?t" using assms lexes_aloneD(2) by (fastforce simp: write_words_def)
  have lay: "map (\<lambda>t. (tk_text t, tk_kind t)) (layout p (concat
      (map (\<lambda>(w, k). [(PieceToken k, w), (PieceSkip, [32])]) ws))) = ws" for p
    by (induction ws arbitrary: p) (auto simp: token_at_def)
  have cl: "clean (pieces ?t)"
    unfolding pieces_write_words [OF assms] by (auto simp: clean_def)
  show ?thesis
    using lex_result [of "\<lparr>file_name = f, sf_text = ?t\<rparr>"] nz cl lay [of "[]"]
    by (auto simp: pieces_write_words [OF assms] eof_token_def)
qed

theorem lex_write_words_witness:
  "\<exists>res. lex \<lparr>file_name = [], sf_text = write_words [(lit ''if'', TkIf), (lit ''1'', TkInteger)]\<rparr> = Some res \<and>
    map (\<lambda>t. (tk_text t, tk_kind t)) (lr_tokens res) =
      [(lit ''if'', TkIf), (lit ''1'', TkInteger), ([], TkEof)] \<and>
    lr_diagnostics res = []"
proof -
  have "\<forall>(w, k) \<in> set [(lit ''if'', TkIf), (lit ''1'', TkInteger)]. lexes_alone w k"
    by (simp add: lexes_alone_def lex_eval)
  from lex_write_words [OF this] show ?thesis by simp
qed

end
