(* ===== verification/Parser_Properties.thy ===== *)
theory Parser_Properties
  imports Parser_Complete Lexer_Properties
begin

text \<open>
  The properties of the parser: with the fuel of \<open>parse\<close> it returns on every text the lexer
  returns on, and it accepts exactly the programs of the grammar, each with its only tree.
\<close>

section \<open>The tokens of the lexer\<close>

lemma lexed_tokens:
  assumes "lex src = Some res"
  shows "lr_tokens res \<noteq> []" "tk_kind (last (lr_tokens res)) = TkEof"
    "\<forall>t \<in> set (butlast (lr_tokens res)). tk_kind t \<noteq> TkEof"
  using lex_SomeD [OF assms] layout_not_eof by (auto simp: eof_token_def)

lemma parser_parse_complete:
  assumes toks: "toks \<noteq> []" "tk_kind (last toks) = TkEof" "\<forall>t \<in> set (butlast toks). tk_kind t \<noteq> TkEof"
    and n: "length toks + 4 < n" and p: "program_tokens toks p"
  shows "parser_parse n (parser_new src toks []) = Some \<lparr>pr_ast = p, pr_diagnostics = []\<rparr>"
proof -
  let ?st = "parser_new src toks []"
  have "ok ?st" using toks by (rule ok_new)
  then have at: "at ?st (butlast toks)" using rest_new [of src toks "[]"] by (simp add: at_def parser_new_def)
  have len: "length (butlast toks) < n" using toks(1) n by (cases toks) auto
  have ds: "declarations_tokens (butlast toks) (declarations p)"
    and span: "program_span p = span_from_positions (position_from_token (hd toks)) (position_from_token (last toks))"
    using p by (simp_all add: program_tokens_def)
  from parse_declarations_complete [OF ds len at, of "[]"]
  obtain st' where st': "parse_declarations n [] ?st = Some (declarations p, st')" "at st' []"
    by (auto simp: yields_def)
  from parser_parse_sound [OF toks n, of src "[]"]
  obtain p' es where p': "parser_parse n ?st = Some \<lparr>pr_ast = p', pr_diagnostics = es\<rparr>"
      "es = [] \<longrightarrow> program_tokens toks p'"
    by auto
  have "declarations p' = declarations p" "es = []"
    using p'(1) st' by (auto simp: parser_parse_def at_def)
  then have "p' = p" using p'(2) span by (simp add: program_tokens_def)
  then show ?thesis using p'(1) \<open>es = []\<close> by simp
qed

lemma parse_accepted:
  assumes parse: "parse src = Some \<lparr>pr_ast = p, pr_diagnostics = []\<rparr>"
  shows "\<exists>res. lex src = Some res \<and> lr_diagnostics res = [] \<and> program_tokens (lr_tokens res) p"
proof -
  obtain res where res: "lex src = Some res" using parse by (auto simp: parse_def split: bind_splits)
  have "length (lr_tokens res) + 4 < length (lr_tokens res) + 8" by simp
  from parser_parse_sound [OF lexed_tokens [OF res] this, of src "lr_diagnostics res"] parse
  show ?thesis by (auto simp: parse_def res)
qed

section \<open>Properties\<close>

text \<open>
  C32. Parsing returns on a text exactly when the lexer does, on the texts without U+0000:
  the loops of the parser and of its error recovery come to an end on every list of tokens.
\<close>

theorem parse_returns_iff: "(\<exists>r. parse src = Some r) \<longleftrightarrow> 0 \<notin> set (sf_text src)"
proof
  assume "\<exists>r. parse src = Some r"
  then show "0 \<notin> set (sf_text src)" using lex_SomeD(3) by (auto simp: parse_def split: bind_splits)
next
  assume "0 \<notin> set (sf_text src)"
  then obtain res where res: "lex src = Some res" using lex_result by blast
  have "length (lr_tokens res) + 4 < length (lr_tokens res) + 8" by simp
  from parser_parse_sound [OF lexed_tokens [OF res] this] show "\<exists>r. parse src = Some r"
    by (auto simp: parse_def res)
qed

text \<open>
  C33. Parsing reports nothing and yields a tree exactly when the lexer reports nothing and the
  tokens are a program of the grammar with that tree: the parser accepts the whole language, no
  more, and builds the tree of the grammar, each node with the span of its phrase.
\<close>

theorem parse_iff_grammar:
  "parse src = Some \<lparr>pr_ast = p, pr_diagnostics = []\<rparr> \<longleftrightarrow>
   (\<exists>res. lex src = Some res \<and> lr_diagnostics res = [] \<and> program_tokens (lr_tokens res) p)"
proof
  assume "\<exists>res. lex src = Some res \<and> lr_diagnostics res = [] \<and> program_tokens (lr_tokens res) p"
  then obtain res where res: "lex src = Some res" "lr_diagnostics res = []" "program_tokens (lr_tokens res) p" by blast
  have "length (lr_tokens res) + 4 < length (lr_tokens res) + 8" by simp
  from parser_parse_complete [OF lexed_tokens [OF res(1)] this res(3)]
  show "parse src = Some \<lparr>pr_ast = p, pr_diagnostics = []\<rparr>" by (simp add: parse_def res)
qed (rule parse_accepted)

text \<open>
  The grammar is unambiguous: the tokens of a text are a program with one tree at most.
\<close>

theorem program_tokens_unique:
  assumes "lex src = Some res" "program_tokens (lr_tokens res) p" "program_tokens (lr_tokens res) q"
  shows "p = q"
proof -
  have "length (lr_tokens res) + 4 < length (lr_tokens res) + 8" by simp
  from parser_parse_complete [OF lexed_tokens [OF assms(1)] this assms(2), of src]
    parser_parse_complete [OF lexed_tokens [OF assms(1)] this assms(3), of src]
  show ?thesis by simp
qed

definition empty_struct :: source_file where
  "empty_struct = \<lparr>file_name = [], sf_text = lit ''struct S{}''\<rparr>"

definition empty_struct_tokens :: "token list" where
  "empty_struct_tokens =
     [\<lparr>tk_kind = TkStruct, tk_text = lit ''struct'', tk_line = 1, tk_column = 1, tk_start = 0, tk_end = 6\<rparr>,
      \<lparr>tk_kind = TkIdentifier, tk_text = lit ''S'', tk_line = 1, tk_column = 8, tk_start = 7, tk_end = 8\<rparr>,
      \<lparr>tk_kind = TkLeftBrace, tk_text = lit ''{'', tk_line = 1, tk_column = 9, tk_start = 8, tk_end = 9\<rparr>,
      \<lparr>tk_kind = TkRightBrace, tk_text = lit ''}'', tk_line = 1, tk_column = 10, tk_start = 9, tk_end = 10\<rparr>,
      \<lparr>tk_kind = TkEof, tk_text = [], tk_line = 1, tk_column = 11, tk_start = 10, tk_end = 10\<rparr>]"

definition empty_struct_program :: program where
  "empty_struct_program =
     \<lparr>declarations = [DeclStruct \<lparr>struct_name = ident_of (empty_struct_tokens ! 1), struct_fields = [],
        struct_span = span_of (butlast empty_struct_tokens)\<rparr>],
      program_span = span_from_positions (position_from_token (hd empty_struct_tokens))
        (position_from_token (last empty_struct_tokens))\<rparr>"

lemma lex_empty_struct: "lex empty_struct = Some \<lparr>lr_tokens = empty_struct_tokens, lr_diagnostics = []\<rparr>"
  by (simp add: empty_struct_def empty_struct_tokens_def lex_eval)

lemma empty_struct_grammar: "program_tokens empty_struct_tokens empty_struct_program"
proof -
  have "declaration_tokens (butlast empty_struct_tokens) (hd (declarations empty_struct_program))"
    unfolding empty_struct_program_def program.simps list.sel
    by (rule declaration_struct [OF _ _ _ fields_none, where s = "empty_struct_tokens ! 0" and
      lb = "empty_struct_tokens ! 2" and rb = "empty_struct_tokens ! 3"])
      (simp_all add: empty_struct_tokens_def)
  from declarations_more [OF this declarations_none] show ?thesis
    by (simp add: program_tokens_def empty_struct_program_def)
qed

theorem program_tokens_unique_witness:
  "lex empty_struct = Some \<lparr>lr_tokens = empty_struct_tokens, lr_diagnostics = []\<rparr> \<and>
   program_tokens empty_struct_tokens empty_struct_program \<and>
   {p. program_tokens empty_struct_tokens p} = {empty_struct_program}"
proof -
  have "p = empty_struct_program" if "program_tokens empty_struct_tokens p" for p
    using program_tokens_unique [OF lex_empty_struct, of p empty_struct_program] that empty_struct_grammar by simp
  then show ?thesis using lex_empty_struct empty_struct_grammar by blast
qed

declare One_nat_def [simp]

end
