(* ===== verification/Typeck.thy ===== *)
theory Typeck
  imports Parser Ordered_Map
begin

text \<open>
  The type checker, \<^verbatim>\<open>src/src/frontend/typeck.rs\<close>: types, symbols, scopes and the checks of types,
  expressions and statements. The record \<open>checker\<close> is the struct \<open>Checker\<close>; a method that
  yields a value and changes the checker returns both. A \<open>HashMap\<close> that is only looked up is a
  partial function. A scope is the list of its frames, the innermost first.
\<close>

section \<open>Types\<close>

datatype primitive_type_name = PrimI32 | PrimI64 | PrimU32 | PrimU64 | PrimF64 | PrimBool

datatype ck_type =
    CkPrimitive primitive_type_name
  | CkPointer ck_type
  | CkSlice ck_type
  | CkStruct rstring
  | CkVoid
  | CkIntegerLiteral
  | CkUnknown

abbreviation primitive_i32 :: ck_type where "primitive_i32 \<equiv> CkPrimitive PrimI32"
abbreviation primitive_i64 :: ck_type where "primitive_i64 \<equiv> CkPrimitive PrimI64"
abbreviation primitive_u32 :: ck_type where "primitive_u32 \<equiv> CkPrimitive PrimU32"
abbreviation primitive_u64 :: ck_type where "primitive_u64 \<equiv> CkPrimitive PrimU64"
abbreviation primitive_f64 :: ck_type where "primitive_f64 \<equiv> CkPrimitive PrimF64"
abbreviation primitive_bool :: ck_type where "primitive_bool \<equiv> CkPrimitive PrimBool"

definition primitive_type_from_str :: "rstring \<Rightarrow> ck_type" where
  "primitive_type_from_str name =
     (if name = lit ''i32'' then primitive_i32
      else if name = lit ''i64'' then primitive_i64
      else if name = lit ''u32'' then primitive_u32
      else if name = lit ''u64'' then primitive_u64
      else if name = lit ''f64'' then primitive_f64
      else if name = lit ''bool'' then primitive_bool
      else CkUnknown)"

definition is_unknown :: "ck_type \<Rightarrow> bool" where
  "is_unknown t \<longleftrightarrow> t = CkUnknown"

definition is_bool :: "ck_type \<Rightarrow> bool" where
  "is_bool t \<longleftrightarrow> t = primitive_bool"

definition is_integer_primitive :: "ck_type \<Rightarrow> bool" where
  "is_integer_primitive t \<longleftrightarrow> t \<in> {primitive_i32, primitive_i64, primitive_u32, primitive_u64}"

definition is_float_type :: "ck_type \<Rightarrow> bool" where
  "is_float_type t \<longleftrightarrow> t = primitive_f64"

definition is_integer :: "ck_type \<Rightarrow> bool" where
  "is_integer t \<longleftrightarrow> t = CkIntegerLiteral \<or> is_integer_primitive t"

definition is_numeric_type :: "ck_type \<Rightarrow> bool" where
  "is_numeric_type t \<longleftrightarrow> is_integer t \<or> is_float_type t"

fun is_slice :: "ck_type \<Rightarrow> bool" where
  "is_slice (CkSlice _) = True"
| "is_slice _ = False"

fun is_valid_slice_element :: "ck_type \<Rightarrow> bool" where
  "is_valid_slice_element (CkPrimitive _) = True"
| "is_valid_slice_element (CkPointer _) = True"
| "is_valid_slice_element (CkStruct _) = True"
| "is_valid_slice_element _ = False"

definition is_index_integer :: "ck_type \<Rightarrow> bool" where
  "is_index_integer t \<longleftrightarrow> t \<in> {CkIntegerLiteral, primitive_i32, primitive_u32}"

definition same_type :: "ck_type \<Rightarrow> ck_type \<Rightarrow> bool" where
  "same_type left right \<longleftrightarrow>
     is_unknown left \<or> is_unknown right \<or>
     left = CkIntegerLiteral \<and> is_integer right \<or>
     right = CkIntegerLiteral \<and> is_integer left \<or> left = right"

definition can_assign :: "ck_type \<Rightarrow> ck_type \<Rightarrow> bool" where
  "can_assign assigned v = same_type assigned v"

definition materialize_integer_literal :: "ck_type \<Rightarrow> ck_type \<Rightarrow> ck_type" where
  "materialize_integer_literal t fallback = (if t = CkIntegerLiteral then fallback else t)"

definition integer_literal_fallback :: "ck_type option \<Rightarrow> ck_type" where
  "integer_literal_fallback t =
     (case t of Some t \<Rightarrow> if is_integer_primitive t then t else primitive_i32 | None \<Rightarrow> primitive_i32)"

fun type_to_string :: "ck_type \<Rightarrow> rstring" where
  "type_to_string (CkPrimitive PrimI32) = lit ''i32''"
| "type_to_string (CkPrimitive PrimI64) = lit ''i64''"
| "type_to_string (CkPrimitive PrimU32) = lit ''u32''"
| "type_to_string (CkPrimitive PrimU64) = lit ''u64''"
| "type_to_string (CkPrimitive PrimF64) = lit ''f64''"
| "type_to_string (CkPrimitive PrimBool) = lit ''bool''"
| "type_to_string (CkPointer t) = lit ''ptr<'' @ type_to_string t @ lit ''>''"
| "type_to_string (CkSlice t) = lit ''slice<'' @ type_to_string t @ lit ''>''"
| "type_to_string (CkStruct name) = name"
| "type_to_string CkVoid = lit ''void''"
| "type_to_string CkIntegerLiteral = lit ''i32''"
| "type_to_string CkUnknown = lit ''unknown''"

section \<open>Integer literals\<close>

text \<open>
  The value of a decimal text. The lexer makes the text of an integer literal a non-empty list
  of digits, so no sign or separator is read.
\<close>

definition parse_decimal :: "rstring \<Rightarrow> int option" where
  "parse_decimal text =
     (if text \<noteq> [] \<and> list_all (\<lambda>c. 48 \<le> c \<and> c \<le> 57) text
      then Some (foldl (\<lambda>v c. 10 * v + (int c - 48)) 0 text) else None)"

definition parse_u32 :: "rstring \<Rightarrow> int option" where
  "parse_u32 text = (case parse_decimal text of Some v \<Rightarrow> if v < 2 ^ 32 then Some v else None | None \<Rightarrow> None)"

fun integer_literal_text :: "expression \<Rightarrow> rstring option" where
  "integer_literal_text (EIntegerLiteral text _) = Some text"
| "integer_literal_text (EParenthesized e _) = integer_literal_text e"
| "integer_literal_text _ = None"

fun invalid_u32_literal :: "expression \<Rightarrow> rstring option" where
  "invalid_u32_literal (EIntegerLiteral text _) = (if parse_u32 text = None then Some text else None)"
| "invalid_u32_literal (EUnary operator operand _) =
     (if operator = lit ''-'' then
        (case integer_literal_text operand of
           Some text \<Rightarrow> Some (lit ''-'' @ text) | None \<Rightarrow> invalid_u32_literal operand)
      else invalid_u32_literal operand)"
| "invalid_u32_literal (EBinary _ left right _) =
     (case invalid_u32_literal left of Some text \<Rightarrow> Some text | None \<Rightarrow> invalid_u32_literal right)"
| "invalid_u32_literal (EParenthesized e _) = invalid_u32_literal e"
| "invalid_u32_literal _ = None"

fun is_assignable_expression :: "expression \<Rightarrow> bool" where
  "is_assignable_expression (EIdentifier _ _) = True"
| "is_assignable_expression (EField _ _ _) = True"
| "is_assignable_expression (EIndex _ _ _) = True"
| "is_assignable_expression _ = False"

definition is_arithmetic_operator :: "rstring \<Rightarrow> bool" where
  "is_arithmetic_operator op \<longleftrightarrow> op \<in> set (map lit [''+'', ''-'', ''*'', ''/'', ''%''])"

definition is_comparison_operator :: "rstring \<Rightarrow> bool" where
  "is_comparison_operator op \<longleftrightarrow> op \<in> set (map lit [''=='', ''!='', ''<'', ''<='', ''>'', ''>=''])"

definition is_logical_operator :: "rstring \<Rightarrow> bool" where
  "is_logical_operator op \<longleftrightarrow> op = lit ''&&'' \<or> op = lit ''||''"

section \<open>Builtins\<close>

datatype compiler_builtin_kind =
    BuiltinI32ToF64 | BuiltinU32ToF64 | BuiltinPrintI32 | BuiltinPrintI64 | BuiltinPrintU32
  | BuiltinPrintU64 | BuiltinPrintF64 | BuiltinPrintBool | BuiltinPrintNewline

datatype compiler_builtin_availability = AllBackends | NativeExecutable

datatype compiler_builtin_effect = BuiltinPure | BuiltinObservableOutput

record compiler_builtin =
  cb_name :: rstring
  cb_kind :: compiler_builtin_kind
  cb_params :: "ck_type list"
  cb_return_type :: ck_type
  cb_availability :: compiler_builtin_availability
  cb_effect :: compiler_builtin_effect

definition native_print_builtin :: "rstring \<Rightarrow> compiler_builtin_kind \<Rightarrow> ck_type option \<Rightarrow> compiler_builtin" where
  "native_print_builtin name kind parameter =
     \<lparr>cb_name = name, cb_kind = kind, cb_params = (case parameter of Some t \<Rightarrow> [t] | None \<Rightarrow> []),
      cb_return_type = CkVoid, cb_availability = NativeExecutable, cb_effect = BuiltinObservableOutput\<rparr>"

definition conversion_builtin :: "rstring \<Rightarrow> compiler_builtin_kind \<Rightarrow> ck_type \<Rightarrow> compiler_builtin" where
  "conversion_builtin name kind parameter =
     \<lparr>cb_name = name, cb_kind = kind, cb_params = [parameter],
      cb_return_type = primitive_f64, cb_availability = AllBackends, cb_effect = BuiltinPure\<rparr>"

definition compiler_builtins :: "compiler_builtin list" where
  "compiler_builtins =
     [conversion_builtin (lit ''i32_to_f64'') BuiltinI32ToF64 primitive_i32,
      conversion_builtin (lit ''u32_to_f64'') BuiltinU32ToF64 primitive_u32,
      native_print_builtin (lit ''print_i32'') BuiltinPrintI32 (Some primitive_i32),
      native_print_builtin (lit ''print_i64'') BuiltinPrintI64 (Some primitive_i64),
      native_print_builtin (lit ''print_u32'') BuiltinPrintU32 (Some primitive_u32),
      native_print_builtin (lit ''print_u64'') BuiltinPrintU64 (Some primitive_u64),
      native_print_builtin (lit ''print_f64'') BuiltinPrintF64 (Some primitive_f64),
      native_print_builtin (lit ''print_bool'') BuiltinPrintBool (Some primitive_bool),
      native_print_builtin (lit ''print_newline'') BuiltinPrintNewline None]"

definition get_compiler_builtin :: "rstring \<Rightarrow> compiler_builtin option" where
  "get_compiler_builtin name = find (\<lambda>b. cb_name b = name) compiler_builtins"

section \<open>Symbols and scopes\<close>

record variable_symbol =
  var_name :: rstring
  var_type :: ck_type

record struct_symbol =
  ss_name :: rstring
  ss_declaration :: struct_declaration
  ss_fields :: "rstring \<rightharpoonup> ck_type"

record function_symbol =
  fs_name :: rstring
  fs_declaration :: function_declaration
  fs_params :: "ck_type list"
  fs_return_type :: ck_type

record symbol_table =
  sym_structs :: "rstring \<rightharpoonup> struct_symbol"
  sym_functions :: "rstring \<rightharpoonup> function_symbol"

type_synonym scope = "(rstring \<rightharpoonup> variable_symbol) list"

definition scope_push :: "scope \<Rightarrow> scope" where
  "scope_push sc = Map.empty # sc"

definition scope_pop :: "scope \<Rightarrow> scope" where
  "scope_pop sc = tl sc"

definition scope_declare :: "variable_symbol \<Rightarrow> scope \<Rightarrow> bool \<times> scope" where
  "scope_declare v sc =
     (case (if sc = [] then scope_push sc else sc) of
        frame # frames \<Rightarrow>
          if frame (var_name v) \<noteq> None then (False, frame # frames)
          else (True, frame(var_name v \<mapsto> v) # frames)
      | [] \<Rightarrow> (False, []))"

fun scope_lookup :: "scope \<Rightarrow> rstring \<Rightarrow> variable_symbol option" where
  "scope_lookup [] name = None"
| "scope_lookup (frame # frames) name =
     (case frame name of Some v \<Rightarrow> Some v | None \<Rightarrow> scope_lookup frames name)"

section \<open>Checked contracts\<close>

datatype checked_affine_term = TermParameter rstring | TermSliceLength rstring

text \<open>The derived order: the parameters by name, then the slice lengths by name.\<close>

definition term_key :: "checked_affine_term \<Rightarrow> nat list" where
  "term_key t = (case t of TermParameter n \<Rightarrow> 0 # n | TermSliceLength n \<Rightarrow> 1 # n)"

instantiation checked_affine_term :: linorder
begin

definition less_eq_checked_affine_term :: "checked_affine_term \<Rightarrow> checked_affine_term \<Rightarrow> bool" where
  "less_eq_checked_affine_term a b \<longleftrightarrow> term_key a \<le> term_key b"

definition less_checked_affine_term :: "checked_affine_term \<Rightarrow> checked_affine_term \<Rightarrow> bool" where
  "less_checked_affine_term a b \<longleftrightarrow> term_key a < term_key b"

instance
proof
  fix x y z :: checked_affine_term
  show "x < y \<longleftrightarrow> x \<le> y \<and> \<not> y \<le> x"
    unfolding less_checked_affine_term_def less_eq_checked_affine_term_def by (rule less_le_not_le)
  show "x \<le> x" unfolding less_eq_checked_affine_term_def by (rule order.refl)
  show "x \<le> y \<or> y \<le> x" unfolding less_eq_checked_affine_term_def by (rule linear)
  show "x \<le> y \<Longrightarrow> y \<le> z \<Longrightarrow> x \<le> z" unfolding less_eq_checked_affine_term_def by (rule order.trans)
  have inj: "term_key x = term_key y \<Longrightarrow> x = y"
    by (cases x; cases y; simp add: term_key_def)
  show "x \<le> y \<Longrightarrow> y \<le> x \<Longrightarrow> x = y"
    unfolding less_eq_checked_affine_term_def by (rule inj, rule order.antisym)
qed

end

record checked_affine_term_coefficient =
  catc_term :: checked_affine_term
  catc_coefficient :: rstring

record checked_affine_expression =
  cae_terms :: "checked_affine_term_coefficient list"
  cae_constant :: rstring
  cae_type :: ck_type

datatype checked_contract_pointer = PointerParameter rstring | PointerSliceData rstring

datatype checked_contract_predicate =
    PredicateComparison rstring checked_affine_expression checked_affine_expression
  | PredicateConjunction "checked_contract_predicate list"
  | PredicateMultipleOf checked_affine_expression rstring
  | PredicateNoAlias rstring rstring
  | PredicateAligned checked_contract_pointer int

record checked_contract_effect_ceiling =
  cec_is_none :: bool
  cec_items :: "(rstring \<times> contract_effect_kind) list"

record checked_contract =
  cc_predicates :: "checked_contract_predicate list"
  cc_effects :: "checked_contract_effect_ceiling option"

section \<open>The checker\<close>

record checker =
  ck_source :: source_file
  ck_program :: program
  ck_diagnostics :: "diagnostic list"
  ck_symbols :: symbol_table
  ck_expression_types :: "source_span \<rightharpoonup> ck_type"
  ck_local_types :: "source_span \<rightharpoonup> ck_type"
  ck_contracts :: "rstring \<rightharpoonup> checked_contract"
  ck_loop_depth :: nat
  ck_unsafe_depth :: nat

definition starts_with :: "string \<Rightarrow> rstring \<Rightarrow> bool" where
  "starts_with p s \<longleftrightarrow> take (length p) s = lit p"

definition checker_diagnostic_code :: "rstring \<Rightarrow> diagnostic_code" where
  "checker_diagnostic_code message =
     (if starts_with ''Unknown variable'' message then Ck2001
      else if starts_with ''Unknown function'' message then Ck2002
      else if starts_with ''Unknown type'' message then Ck2003
      else if starts_with ''Duplicate'' message then Ck2005
      else if starts_with ''If condition'' message \<or> starts_with ''While condition'' message then Ck2006
      else if starts_with ''Invalid assignment target'' message then Ck2007
      else if starts_with ''Missing return'' message then Ck2008
      else Ck2004)"

definition ck_error_with_code :: "source_span \<Rightarrow> diagnostic_code \<Rightarrow> rstring \<Rightarrow> checker \<Rightarrow> checker" where
  "ck_error_with_code span code message st =
     st\<lparr>ck_diagnostics := ck_diagnostics st @ [diagnostic_error code message (file_name (ck_source st)) span]\<rparr>"

definition ck_error :: "source_span \<Rightarrow> rstring \<Rightarrow> checker \<Rightarrow> checker" where
  "ck_error span message st = ck_error_with_code span (checker_diagnostic_code message) message st"

definition type_mismatch_error :: "source_span \<Rightarrow> ck_type \<Rightarrow> ck_type \<Rightarrow> rstring \<Rightarrow> checker \<Rightarrow> checker" where
  "type_mismatch_error span expected actual message st =
     (if is_slice expected \<or> is_slice actual then ck_error_with_code span Ck2012 message st
      else ck_error span message st)"

definition record_type :: "source_span \<Rightarrow> ck_type \<Rightarrow> checker \<Rightarrow> checker" where
  "record_type span t st = st\<lparr>ck_expression_types := (ck_expression_types st)(span \<mapsto> t)\<rparr>"

section \<open>Types of the source\<close>

datatype type_use_context =
  UseFunctionReturn | UseParameter | UseStructField | UseLocal | UsePointerElement | UseSliceElement

fun is_void_node :: "type_node \<Rightarrow> bool" where
  "is_void_node (TypeVoid _) = True"
| "is_void_node _ = False"

fun is_slice_node :: "type_node \<Rightarrow> bool" where
  "is_slice_node (TypeSlice _ _) = True"
| "is_slice_node _ = False"

fun resolve_type :: "type_node \<Rightarrow> type_use_context \<Rightarrow> checker \<Rightarrow> ck_type \<times> checker" where
  "resolve_type (TypePrimitive name _) cx st = (primitive_type_from_str name, st)"
| "resolve_type (TypeVoid span) cx st =
     (if cx = UseFunctionReturn then (CkVoid, st)
      else (CkUnknown, ck_error_with_code span Ck2011
        (if cx = UsePointerElement then lit ''Void is not allowed as a pointer element type.''
         else lit ''Void is only allowed as a function return type.'') st))"
| "resolve_type (TypePointer element _) cx st =
     (let (t, st) = resolve_type element UsePointerElement st in (CkPointer t, st))"
| "resolve_type (TypeSlice element span) cx st =
     (if is_void_node element then
        (CkUnknown, ck_error_with_code (type_span element) Ck2012 (lit ''A slice element type cannot be void.'') st)
      else if is_slice_node element then
        (CkUnknown, ck_error_with_code (type_span element) Ck2012
          (lit ''A direct slice element type cannot itself be a slice.'') st)
      else
        let (t, st) = resolve_type element UseSliceElement st in
        if \<not> is_unknown t \<and> \<not> is_valid_slice_element t then
          (CkUnknown, ck_error_with_code span Ck2012 (lit ''Invalid slice element type.'') st)
        else if is_unknown t then (CkUnknown, st)
        else (CkSlice t, st))"
| "resolve_type (TypeNamed name _) cx st =
     (if sym_structs (ck_symbols st) (id_name name) = None then
        (CkUnknown, ck_error (id_span name) (lit ''Unknown type '' @ quoted (id_name name) @ lit ''.'') st)
      else (CkStruct (id_name name), st))"
| "resolve_type (TypeError _) cx st = (CkUnknown, st)"

end
