(* ===== verification/Typeck_Expression.thy ===== *)
theory Typeck_Expression
  imports Typeck
begin

text \<open>
  The checks of expressions of \<^verbatim>\<open>src/src/frontend/typeck.rs\<close>. The methods call one another along
  the expression, so they are one recursive function; what a method does with the types of its
  operands is a definition of its own.
\<close>

section \<open>Operands\<close>

definition check_not_operand :: "expression \<Rightarrow> ck_type \<times> checker \<Rightarrow> ck_type \<times> checker" where
  "check_not_operand operand = (\<lambda>(t, st).
     let t = materialize_integer_literal t primitive_i32 in
     (primitive_bool,
      if \<not> is_unknown t \<and> \<not> is_bool t then
        ck_error (expression_span operand)
          (lit ''Unary operator '!' requires bool operand, got '' @ type_to_string t @ lit ''.'') st
      else st))"

definition check_negate_operand :: "expression \<Rightarrow> ck_type \<Rightarrow> ck_type \<times> checker \<Rightarrow> ck_type \<times> checker" where
  "check_negate_operand operand fallback = (\<lambda>(t, st).
     let t = materialize_integer_literal t fallback in
     if \<not> is_unknown t \<and> \<not> is_numeric_type t then
       (CkUnknown, ck_error (expression_span operand)
         (lit ''Unary operator '-' requires integer operand, got '' @ type_to_string t @ lit ''.'') st)
     else (materialize_integer_literal t fallback, st))"

definition check_logical_operand :: "rstring \<Rightarrow> expression \<Rightarrow> ck_type \<Rightarrow> checker \<Rightarrow> checker" where
  "check_logical_operand operator e t st =
     (if \<not> is_unknown t \<and> \<not> is_bool t then
        ck_error (expression_span e)
          (lit ''Logical operator '' @ quoted operator @ lit '' requires bool operands.'') st
      else st)"

definition check_logical_types ::
  "rstring \<Rightarrow> expression \<Rightarrow> expression \<Rightarrow> ck_type \<Rightarrow> ck_type \<Rightarrow> checker \<Rightarrow> ck_type \<times> checker" where
  "check_logical_types operator left right left_type right_type st =
     (primitive_bool,
      check_logical_operand operator right (materialize_integer_literal right_type primitive_i32)
        (check_logical_operand operator left (materialize_integer_literal left_type primitive_i32) st))"

definition check_arithmetic_types ::
  "rstring \<Rightarrow> expression \<Rightarrow> expression \<Rightarrow> source_span \<Rightarrow> ck_type option \<Rightarrow> ck_type \<Rightarrow> ck_type \<Rightarrow> checker \<Rightarrow>
   ck_type \<times> checker" where
  "check_arithmetic_types operator left right span expected left_raw right_raw st =
     (if is_slice left_raw \<or> is_slice right_raw then
        (CkUnknown, ck_error_with_code span Ck2012
          (lit ''Slice values do not support arithmetic operator '' @ quoted operator @ lit ''.'') st)
      else
        let fallback = integer_literal_fallback expected;
            left_type = materialize_integer_literal left_raw
              (if right_raw = CkIntegerLiteral then fallback else integer_literal_fallback (Some right_raw));
            right_type = materialize_integer_literal right_raw (integer_literal_fallback (Some left_type));
            st = record_type (expression_span right) right_type (record_type (expression_span left) left_type st)
        in if operator = lit ''%'' \<and> (is_float_type left_type \<or> is_float_type right_type) then
          (CkUnknown, ck_error span (lit ''Arithmetic operator '%' does not support f64 operands.'') st)
        else if \<not> is_unknown left_type \<and> \<not> is_unknown right_type \<and>
            (\<not> is_numeric_type left_type \<or> \<not> is_numeric_type right_type \<or> \<not> same_type left_type right_type) then
          (CkUnknown, ck_error span
            (lit ''Arithmetic operator '' @ quoted operator @ lit '' requires integer operands of the same type.'') st)
        else (materialize_integer_literal left_type fallback, st))"

definition check_comparison_types ::
  "rstring \<Rightarrow> expression \<Rightarrow> expression \<Rightarrow> source_span \<Rightarrow> ck_type \<Rightarrow> ck_type \<Rightarrow> checker \<Rightarrow> ck_type \<times> checker" where
  "check_comparison_types operator left right span left_raw right_raw st =
     (if is_slice left_raw \<or> is_slice right_raw then
        (primitive_bool, ck_error_with_code span Ck2012
          (lit ''Slice values do not support comparison operator '' @ quoted operator @ lit ''.'') st)
      else
        let left_type = materialize_integer_literal left_raw
              (if right_raw = CkIntegerLiteral then primitive_i32 else integer_literal_fallback (Some right_raw));
            right_type = materialize_integer_literal right_raw (integer_literal_fallback (Some left_type));
            st = record_type (expression_span right) right_type (record_type (expression_span left) left_type st);
            valid = (if operator = lit ''=='' \<or> operator = lit ''!='' then same_type left_type right_type
                     else is_numeric_type left_type \<and> is_numeric_type right_type \<and> same_type left_type right_type)
        in (primitive_bool,
            if \<not> is_unknown left_type \<and> \<not> is_unknown right_type \<and> \<not> valid then
              ck_error span
                (lit ''Comparison operator '' @ quoted operator @ lit '' requires compatible operands.'') st
            else st))"

definition check_binary_types ::
  "rstring \<Rightarrow> expression \<Rightarrow> expression \<Rightarrow> source_span \<Rightarrow> ck_type option \<Rightarrow> ck_type \<Rightarrow> ck_type \<Rightarrow> checker \<Rightarrow>
   ck_type \<times> checker" where
  "check_binary_types operator left right span expected left_raw right_raw st =
     (if is_arithmetic_operator operator then
        check_arithmetic_types operator left right span expected left_raw right_raw st
      else if is_comparison_operator operator then
        check_comparison_types operator left right span left_raw right_raw st
      else check_logical_types operator left right left_raw right_raw st)"

section \<open>Calls\<close>

definition plural_s :: "nat \<Rightarrow> rstring" where
  "plural_s n = (if n = 1 then [] else lit ''s'')"

text \<open>\<open>what\<close> names the callee in a message: a function, or a compiler builtin.\<close>

definition check_argument_count ::
  "rstring \<Rightarrow> rstring \<Rightarrow> nat \<Rightarrow> nat \<Rightarrow> source_span \<Rightarrow> checker \<Rightarrow> checker" where
  "check_argument_count what name expected count span st =
     (if count \<noteq> expected then
        ck_error span (what @ lit '' '' @ quoted name @ lit '' expects '' @ nat_decimal expected @ lit '' argument'' @
          plural_s expected @ lit '' but got '' @ nat_decimal count @ lit ''.'') st
      else st)"

definition check_argument_type ::
  "rstring \<Rightarrow> rstring \<Rightarrow> nat \<Rightarrow> expression \<Rightarrow> ck_type option \<Rightarrow> ck_type \<times> checker \<Rightarrow> checker" where
  "check_argument_type what name index arg expected = (\<lambda>(arg_type, st).
     case expected of
       Some expected \<Rightarrow>
         if \<not> is_unknown expected \<and> \<not> is_unknown arg_type \<and> \<not> can_assign expected arg_type then
           type_mismatch_error (expression_span arg) expected arg_type
             (lit ''Argument '' @ nat_decimal (index + 1) @ lit '' of '' @ what @ lit '' '' @ quoted name @
              lit '' expects '' @ type_to_string expected @ lit '' but got '' @ type_to_string arg_type @ lit ''.'') st
         else st
     | None \<Rightarrow> st)"

definition check_unsafe_call :: "function_symbol \<Rightarrow> source_span \<Rightarrow> checker \<Rightarrow> checker" where
  "check_unsafe_call f span st =
     (if is_unsafe (fs_declaration f) \<and> ck_unsafe_depth st = 0 then
        ck_error_with_code span Ck2014
          (lit ''Call to unsafe function '' @ quoted (fs_name f) @ lit '' requires an explicit unsafe block.'') st
      else st)"

text \<open>The type of a call, which cannot be void where a value is required.\<close>

definition call_value :: "bool \<Rightarrow> rstring \<Rightarrow> source_span \<Rightarrow> ck_type \<Rightarrow> checker \<Rightarrow> ck_type \<times> checker" where
  "call_value value_required message span result_type st =
     (if value_required \<and> result_type = CkVoid then
        (CkUnknown, ck_error_with_code span Ck2011 message st)
      else (result_type, st))"

section \<open>Projections\<close>

definition check_field_type :: "expression \<Rightarrow> identifier_node \<Rightarrow> ck_type \<times> checker \<Rightarrow> ck_type \<times> checker" where
  "check_field_type object field = (\<lambda>(object_type, st).
     case object_type of
       CkSlice element \<Rightarrow>
         if id_name field = lit ''data'' then (CkPointer element, st)
         else if id_name field = lit ''len'' then (primitive_u32, st)
         else (CkUnknown, ck_error_with_code (id_span field) Ck2012
           (lit ''A slice has no projection named '' @ quoted (id_name field) @ lit ''.'') st)
     | CkStruct name \<Rightarrow>
         (case Option.bind (sym_structs (ck_symbols st) name) (\<lambda>s. ss_fields s (id_name field)) of
            Some t \<Rightarrow> (t, st)
          | None \<Rightarrow> (CkUnknown, ck_error (id_span field)
              (lit ''Struct '' @ quoted name @ lit '' has no field '' @ quoted (id_name field) @ lit ''.'') st))
     | _ \<Rightarrow>
         (CkUnknown,
          if \<not> is_unknown object_type then
            ck_error (expression_span object)
              (lit ''Field access requires struct value, got '' @ type_to_string object_type @ lit ''.'') st
          else st))"

definition check_slice_u32_type :: "rstring \<Rightarrow> expression \<Rightarrow> ck_type \<times> checker \<Rightarrow> ck_type \<times> checker" where
  "check_slice_u32_type role e = (\<lambda>(t, st).
     case invalid_u32_literal e of
       Some text \<Rightarrow>
         (CkUnknown, ck_error_with_code (expression_span e) Ck2012
           (lit ''Slice '' @ role @ lit '' literal '' @ quoted text @ lit '' is not materializable as u32.'') st)
     | None \<Rightarrow>
         if \<not> is_unknown t \<and> t \<noteq> primitive_u32 then
           (CkUnknown, ck_error_with_code (expression_span e) Ck2012
             (lit ''Slice '' @ role @ lit '' requires u32, got '' @ type_to_string t @ lit ''.'') st)
         else (t, st))"

definition check_pointer_index :: "expression \<Rightarrow> ck_type \<times> checker \<Rightarrow> checker" where
  "check_pointer_index index = (\<lambda>(t, st).
     let t = materialize_integer_literal t primitive_i32 in
     if \<not> is_unknown t \<and> \<not> is_index_integer t then
       ck_error (expression_span index)
         (lit ''Index expression requires i32 or u32 index, got '' @ type_to_string t @ lit ''.'') st
     else st)"

definition check_indexed_object :: "expression \<Rightarrow> ck_type \<Rightarrow> checker \<Rightarrow> checker" where
  "check_indexed_object object t st =
     (if \<not> is_unknown t then
        ck_error (expression_span object)
          (lit ''Index access requires pointer or slice value, got '' @ type_to_string t @ lit ''.'') st
      else st)"

definition check_slice_data :: "expression \<Rightarrow> ck_type \<times> checker \<Rightarrow> ck_type \<times> checker" where
  "check_slice_data data = (\<lambda>(t, st).
     case t of
       CkPointer element \<Rightarrow> (element, st)
     | CkUnknown \<Rightarrow> (CkUnknown, st)
     | _ \<Rightarrow> (CkUnknown, ck_error_with_code (expression_span data) Ck2012
         (lit ''Slice construction requires a raw pointer, got '' @ type_to_string t @ lit ''.'') st))"

definition check_subsliced :: "expression \<Rightarrow> ck_type \<Rightarrow> checker \<Rightarrow> ck_type \<times> checker" where
  "check_subsliced sliced t st =
     (if is_slice t then (t, st)
      else (CkUnknown,
        if \<not> is_unknown t then
          ck_error_with_code (expression_span sliced) Ck2012
            (lit ''Sub-slicing requires a slice value, got '' @ type_to_string t @ lit ''.'') st
        else st))"

section \<open>Expressions\<close>

definition check_variable :: "rstring \<Rightarrow> source_span \<Rightarrow> scope \<Rightarrow> checker \<Rightarrow> ck_type \<times> checker" where
  "check_variable name span sc st =
     (case scope_lookup sc name of
        Some v \<Rightarrow> (var_type v, st)
      | None \<Rightarrow> (CkUnknown, ck_error span (lit ''Unknown variable '' @ quoted name @ lit ''.'') st))"

definition integer_literal_type :: "ck_type option \<Rightarrow> ck_type" where
  "integer_literal_type expected =
     (case expected of Some t \<Rightarrow> if is_integer t then t else CkIntegerLiteral | None \<Rightarrow> CkIntegerLiteral)"

definition remember :: "source_span \<Rightarrow> ck_type \<times> checker \<Rightarrow> ck_type \<times> checker" where
  "remember span = (\<lambda>(t, st). (t, record_type span t st))"

function check_expression :: "expression \<Rightarrow> scope \<Rightarrow> ck_type option \<Rightarrow> checker \<Rightarrow> ck_type \<times> checker"
  and check_call :: "expression \<Rightarrow> expression list \<Rightarrow> source_span \<Rightarrow> scope \<Rightarrow> bool \<Rightarrow> checker \<Rightarrow> ck_type \<times> checker"
  and check_plain_arguments :: "expression list \<Rightarrow> scope \<Rightarrow> checker \<Rightarrow> checker"
  and check_arguments ::
    "expression list \<Rightarrow> rstring \<Rightarrow> rstring \<Rightarrow> ck_type list \<Rightarrow> nat \<Rightarrow> scope \<Rightarrow> checker \<Rightarrow> checker" where
  "check_expression (EIdentifier name span) sc expected st = remember span (check_variable name span sc st)"
| "check_expression (EIntegerLiteral _ span) sc expected st = remember span (integer_literal_type expected, st)"
| "check_expression (EFloatLiteral _ span) sc expected st = remember span (primitive_f64, st)"
| "check_expression (EBoolLiteral _ span) sc expected st = remember span (primitive_bool, st)"
| "check_expression (EUnary operator operand span) sc expected st = remember span
     (if operator = lit ''!'' then check_not_operand operand (check_expression operand sc None st)
      else
        let fallback = integer_literal_fallback expected
        in check_negate_operand operand fallback (check_expression operand sc (Some fallback) st))"
| "check_expression (EBinary operator left right span) sc expected st = remember span
     (if is_arithmetic_operator operator \<or> is_comparison_operator operator \<or> is_logical_operator operator then
        let (left_raw, st) = check_expression left sc None st;
            (right_raw, st) = check_expression right sc None st
        in check_binary_types operator left right span expected left_raw right_raw st
      else (CkUnknown, st))"
| "check_expression (ECall callee args span) sc expected st = remember span (check_call callee args span sc True st)"
| "check_expression (ESliceConstructor data len span) sc expected st = remember span
     (let (element, st) = check_slice_data data (check_expression data sc None st);
          (_, st) = check_slice_u32_type (lit ''length'') len (check_expression len sc (Some primitive_u32) st)
      in if is_unknown element then (CkUnknown, st) else (CkSlice element, st))"
| "check_expression (EField object field span) sc expected st = remember span
     (check_field_type object field (check_expression object sc None st))"
| "check_expression (EIndex object index span) sc expected st = remember span
     (let (object_type, st) = check_expression object sc None st in
      case object_type of
        CkSlice element \<Rightarrow>
          let (_, st) = check_slice_u32_type (lit ''index'') index (check_expression index sc (Some primitive_u32) st)
          in (element, st)
      | CkPointer element \<Rightarrow> (element, check_pointer_index index (check_expression index sc None st))
      | _ \<Rightarrow>
          let (_, st) = check_expression index sc None st
          in (CkUnknown, check_indexed_object object object_type st))"
| "check_expression (ESubslice sliced start stop span) sc expected st = remember span
     (let (slice_type, st) = check_expression sliced sc None st;
          (_, st) = check_slice_u32_type (lit ''start'') start (check_expression start sc (Some primitive_u32) st);
          (_, st) = check_slice_u32_type (lit ''end'') stop (check_expression stop sc (Some primitive_u32) st)
      in check_subsliced sliced slice_type st)"
| "check_expression (EParenthesized e span) sc expected st = remember span (check_expression e sc expected st)"
| "check_expression (EError span) sc expected st = remember span (CkUnknown, st)"
| "check_call callee args span sc value_required st =
     (case callee of
        EIdentifier name name_span \<Rightarrow>
          (case get_compiler_builtin name of
             Some builtin \<Rightarrow>
               call_value value_required
                 (lit ''A void compiler builtin call cannot be used where a value is required.'') span
                 (cb_return_type builtin)
                 (check_arguments args (lit ''compiler builtin'') (cb_name builtin) (cb_params builtin) 0 sc
                   (check_argument_count (lit ''Compiler builtin'') (cb_name builtin) (length (cb_params builtin))
                     (length args) span st))
           | None \<Rightarrow>
             (case sym_functions (ck_symbols st) name of
                None \<Rightarrow>
                  (CkUnknown, check_plain_arguments args sc
                    (ck_error name_span (lit ''Unknown function '' @ quoted name @ lit ''.'') st))
              | Some f \<Rightarrow>
                  call_value value_required
                    (lit ''A void call cannot be used where a value is required.'') span (fs_return_type f)
                    (check_arguments args (lit ''function'') (fs_name f) (fs_params f) 0 sc
                      (check_argument_count (lit ''Function'') (fs_name f) (length (fs_params f)) (length args) span
                        (check_unsafe_call f span st)))))
      | _ \<Rightarrow>
          (CkUnknown, check_plain_arguments args sc
            (ck_error (expression_span callee) (lit ''Can only call functions by name.'') st)))"
| "check_plain_arguments [] sc st = st"
| "check_plain_arguments (arg # args) sc st = check_plain_arguments args sc (snd (check_expression arg sc None st))"
| "check_arguments [] what name params index sc st = st"
| "check_arguments (arg # args) what name params index sc st =
     (let expected = (if index < length params then Some (params ! index) else None)
      in check_arguments args what name params (index + 1) sc
           (check_argument_type what name index arg expected (check_expression arg sc expected st)))"
  by pat_completeness auto
termination
  by (relation "measure (\<lambda>x. case x of
      Inl (Inl (e, _)) \<Rightarrow> 2 * size e + 1
    | Inl (Inr (_, args, _)) \<Rightarrow> 2 * size_list size args + 1
    | Inr (Inl (args, _)) \<Rightarrow> 2 * size_list size args
    | Inr (Inr (args, _)) \<Rightarrow> 2 * size_list size args)") simp_all

end
