(* ===== verification/Typeck_Contract.thy ===== *)
theory Typeck_Contract
  imports Typeck
begin

text \<open>
  The checks of contracts of \<^verbatim>\<open>src/src/frontend/typeck.rs\<close>: affine integer expressions in a
  normal form (a map from terms to coefficients that are not zero, and a constant), the
  predicates of the requirements, and the effects clause. An early return with \<open>None\<close> is the
  value \<open>None\<close>, next to the checker with the diagnostic.
\<close>

section \<open>Affine normal forms\<close>

record normalized_affine_expression =
  nae_terms :: "(checked_affine_term, int) btree"
  nae_constant :: int

definition nae_constant_form :: "int \<Rightarrow> normalized_affine_expression" where
  "nae_constant_form v = \<lparr>nae_terms = [], nae_constant = v\<rparr>"

definition nae_term_form :: "checked_affine_term \<Rightarrow> normalized_affine_expression" where
  "nae_term_form t = \<lparr>nae_terms = bt_collect [(t, 1)], nae_constant = 0\<rparr>"

definition nae_add_term :: "int \<Rightarrow> checked_affine_term \<Rightarrow> int \<Rightarrow>
    (checked_affine_term, int) btree \<Rightarrow> (checked_affine_term, int) btree" where
  "nae_add_term scale term coefficient terms =
     (let updated = (case bt_get terms term of Some c \<Rightarrow> c | None \<Rightarrow> 0) + coefficient * scale
      in if updated = 0 then bt_remove term terms else bt_insert term updated terms)"

definition nae_add_scaled ::
  "normalized_affine_expression \<Rightarrow> normalized_affine_expression \<Rightarrow> int \<Rightarrow> normalized_affine_expression" where
  "nae_add_scaled form other scale =
     \<lparr>nae_terms = fold (\<lambda>(term, coefficient). nae_add_term scale term coefficient) (nae_terms other) (nae_terms form),
      nae_constant = nae_constant form + nae_constant other * scale\<rparr>"

definition nae_scaled :: "normalized_affine_expression \<Rightarrow> int \<Rightarrow> normalized_affine_expression" where
  "nae_scaled form scale =
     \<lparr>nae_terms = bt_collect (filter (\<lambda>(term, coefficient). coefficient \<noteq> 0)
        (map (\<lambda>(term, coefficient). (term, coefficient * scale)) (nae_terms form))),
      nae_constant = nae_constant form * scale\<rparr>"

definition nae_checked :: "normalized_affine_expression \<Rightarrow> ck_type \<Rightarrow> checked_affine_expression" where
  "nae_checked form t =
     \<lparr>cae_terms = map (\<lambda>(term, coefficient). \<lparr>catc_term = term, catc_coefficient = int_decimal coefficient\<rparr>)
        (nae_terms form),
      cae_constant = int_decimal (nae_constant form), cae_type = t\<rparr>"

record checked_affine_candidate =
  cac_form :: normalized_affine_expression
  cac_type :: ck_type
  cac_is_constant :: bool

definition contract_error :: "source_span \<Rightarrow> string \<Rightarrow> checker \<Rightarrow> checker" where
  "contract_error span message st = ck_error_with_code span Ck2015 (lit message) st"

definition contract_named_error :: "source_span \<Rightarrow> string \<Rightarrow> rstring \<Rightarrow> checker \<Rightarrow> checker" where
  "contract_named_error span message name st =
     ck_error_with_code span Ck2015 (lit message @ quoted name @ lit ''.'') st"

definition combine_affine ::
  "rstring \<Rightarrow> source_span \<Rightarrow> checked_affine_candidate \<Rightarrow> checked_affine_candidate \<Rightarrow> checker \<Rightarrow>
   checked_affine_candidate option \<times> checker" where
  "combine_affine operator span left right st =
     (if operator = lit ''*'' \<and> \<not> cac_is_constant left \<and> \<not> cac_is_constant right then
        (None, contract_error span ''Contract multiplication must have an integer constant operand.'' st)
      else if \<not> same_type (cac_type left) (cac_type right) then
        (None, contract_error span ''Contract affine operands must have the same integer type.'' st)
      else
        (Some \<lparr>cac_form =
           (if operator = lit ''+'' then nae_add_scaled (cac_form left) (cac_form right) 1
            else if operator = lit ''-'' then nae_add_scaled (cac_form left) (cac_form right) (- 1)
            else if cac_is_constant left then nae_scaled (cac_form right) (nae_constant (cac_form left))
            else nae_scaled (cac_form left) (nae_constant (cac_form right))),
          cac_type = (if cac_type left = CkIntegerLiteral then cac_type right else cac_type left),
          cac_is_constant = cac_is_constant left \<and> cac_is_constant right\<rparr>, st))"

definition affine_parameter ::
  "rstring \<Rightarrow> source_span \<Rightarrow> scope \<Rightarrow> checker \<Rightarrow> checked_affine_candidate option \<times> checker" where
  "affine_parameter name span sc st =
     (case scope_lookup sc name of
        None \<Rightarrow> (None, contract_named_error span ''Unknown contract parameter '' name st)
      | Some v \<Rightarrow>
          if \<not> is_integer_primitive (var_type v) then
            (None, contract_error span ''Contract affine terms must be integer values.'' st)
          else (Some \<lparr>cac_form = nae_term_form (TermParameter name), cac_type = var_type v,
                      cac_is_constant = False\<rparr>, st))"

definition affine_slice_length ::
  "expression \<Rightarrow> source_span \<Rightarrow> scope \<Rightarrow> checker \<Rightarrow> checked_affine_candidate option \<times> checker" where
  "affine_slice_length object span sc st =
     (case object of
        EIdentifier name _ \<Rightarrow>
          (case scope_lookup sc name of
             None \<Rightarrow> (None, contract_named_error span ''Unknown contract parameter '' name st)
           | Some v \<Rightarrow>
               if \<not> is_slice (var_type v) then
                 (None, contract_error span ''Contract '.len' requires a slice parameter.'' st)
               else (Some \<lparr>cac_form = nae_term_form (TermSliceLength name), cac_type = primitive_u32,
                           cac_is_constant = False\<rparr>, st))
      | _ \<Rightarrow> (None, contract_error span ''Contract slice length must name a parameter.'' st))"

text \<open>
  \<open>and_then m f\<close> is \<open>?\<close> on a method: it stops with \<open>None\<close> or goes on with the value.
\<close>

definition and_then ::
  "'a option \<times> checker \<Rightarrow> ('a \<Rightarrow> checker \<Rightarrow> 'b option \<times> checker) \<Rightarrow> 'b option \<times> checker" where
  "and_then m f = (case m of (None, st) \<Rightarrow> (None, st) | (Some x, st) \<Rightarrow> f x st)"

lemma and_then_cong [fundef_cong]:
  "m = m' \<Longrightarrow> (\<And>x st. m' = (Some x, st) \<Longrightarrow> f x st = f' x st) \<Longrightarrow> and_then m f = and_then m' f'"
  by (auto simp: and_then_def split: prod.split option.split)

definition unsupported_affine :: "expression \<Rightarrow> checker \<Rightarrow> 'a option \<times> checker" where
  "unsupported_affine e st =
     (None, contract_error (expression_span e) ''Unsupported or non-affine contract integer expression.'' st)"

fun check_contract_affine ::
  "expression \<Rightarrow> scope \<Rightarrow> checker \<Rightarrow> checked_affine_candidate option \<times> checker" where
  "check_contract_affine (EIntegerLiteral text span) sc st =
     (case parse_decimal text of
        None \<Rightarrow> (None, contract_error span ''Invalid contract integer constant.'' st)
      | Some v \<Rightarrow> (Some \<lparr>cac_form = nae_constant_form v, cac_type = CkIntegerLiteral, cac_is_constant = True\<rparr>, st))"
| "check_contract_affine (EIdentifier name span) sc st = affine_parameter name span sc st"
| "check_contract_affine (EField object field span) sc st =
     (if id_name field = lit ''len'' then affine_slice_length object span sc st
      else unsupported_affine (EField object field span) st)"
| "check_contract_affine (EUnary operator operand span) sc st =
     (if operator = lit ''-'' then
        and_then (check_contract_affine operand sc st)
          (\<lambda>c st. (Some \<lparr>cac_form = nae_scaled (cac_form c) (- 1), cac_type = cac_type c,
                         cac_is_constant = cac_is_constant c\<rparr>, st))
      else unsupported_affine (EUnary operator operand span) st)"
| "check_contract_affine (EBinary operator left right span) sc st =
     (if operator = lit ''+'' \<or> operator = lit ''-'' \<or> operator = lit ''*'' then
        and_then (check_contract_affine left sc st) (\<lambda>l st.
          and_then (check_contract_affine right sc st) (\<lambda>r st. combine_affine operator span l r st))
      else unsupported_affine (EBinary operator left right span) st)"
| "check_contract_affine (EParenthesized e span) sc st = check_contract_affine e sc st"
| "check_contract_affine e sc st = unsupported_affine e st"

section \<open>Predicates\<close>

definition contract_slice_parameter :: "expression \<Rightarrow> scope \<Rightarrow> checker \<Rightarrow> rstring option \<times> checker" where
  "contract_slice_parameter e sc st =
     (case e of
        EIdentifier name span \<Rightarrow>
          if \<exists>v \<in> set_option (scope_lookup sc name). is_slice (var_type v) then (Some name, st)
          else (None, contract_error span ''noalias requires named slice parameters.'' st)
      | _ \<Rightarrow> (None, contract_error (expression_span e) ''noalias requires named slice parameters.'' st))"

fun is_pointer :: "ck_type \<Rightarrow> bool" where
  "is_pointer (CkPointer _) = True"
| "is_pointer _ = False"

definition contract_pointer :: "expression \<Rightarrow> scope \<Rightarrow> checker \<Rightarrow> checked_contract_pointer option \<times> checker" where
  "contract_pointer e sc st =
     (let refused = (None, contract_error (expression_span e) ''aligned requires a pointer parameter or slice.data.'' st)
      in case e of
        EIdentifier name _ \<Rightarrow>
          if \<exists>v \<in> set_option (scope_lookup sc name). is_pointer (var_type v) then (Some (PointerParameter name), st)
          else refused
      | EField (EIdentifier name _) field _ \<Rightarrow>
          if id_name field = lit ''data'' \<and> (\<exists>v \<in> set_option (scope_lookup sc name). is_slice (var_type v))
          then (Some (PointerSliceData name), st)
          else refused
      | _ \<Rightarrow> refused)"

definition power_of_two_u32 :: "int \<Rightarrow> bool" where
  "power_of_two_u32 v \<longleftrightarrow> (\<exists>k \<in> set [0..<32]. v = 2 ^ k)"

definition check_contract_multiple_of ::
  "expression list \<Rightarrow> source_span \<Rightarrow> scope \<Rightarrow> checker \<Rightarrow> checked_contract_predicate option \<times> checker" where
  "check_contract_multiple_of args span sc st =
     (case args of
        [arg, modulus] \<Rightarrow>
          and_then (check_contract_affine arg sc st) (\<lambda>c st.
            case modulus of
              EIntegerLiteral text mspan \<Rightarrow>
                (case parse_decimal text of
                   Some m \<Rightarrow>
                     if 0 < m then
                       (Some (PredicateMultipleOf
                          (nae_checked (cac_form c) (materialize_integer_literal (cac_type c) primitive_i32))
                          (int_decimal m)), st)
                     else (None, contract_error mspan ''multiple_of modulus must be a positive integer constant.'' st)
                 | None \<Rightarrow> (None, contract_error mspan ''multiple_of modulus must be a positive integer constant.'' st))
            | _ \<Rightarrow> (None, contract_error (expression_span modulus)
                     ''multiple_of modulus must be a positive integer constant.'' st))
      | _ \<Rightarrow> (None, contract_error span ''multiple_of requires two arguments.'' st))"

definition check_contract_noalias ::
  "expression list \<Rightarrow> source_span \<Rightarrow> scope \<Rightarrow> checker \<Rightarrow> checked_contract_predicate option \<times> checker" where
  "check_contract_noalias args span sc st =
     (case args of
        [a, b] \<Rightarrow>
          and_then (contract_slice_parameter a sc st) (\<lambda>left st.
            and_then (contract_slice_parameter b sc st) (\<lambda>right st. (Some (PredicateNoAlias left right), st)))
      | _ \<Rightarrow> (None, contract_error span ''noalias requires two slice parameters.'' st))"

definition check_contract_aligned ::
  "expression list \<Rightarrow> source_span \<Rightarrow> scope \<Rightarrow> checker \<Rightarrow> checked_contract_predicate option \<times> checker" where
  "check_contract_aligned args span sc st =
     (case args of
        [arg, alignment] \<Rightarrow>
          and_then (contract_pointer arg sc st) (\<lambda>pointer st.
            let refused = (None, contract_error (expression_span alignment)
                  ''aligned value must be a power-of-two u32 constant no greater than 2^31.'' st)
            in case alignment of
              EIntegerLiteral text _ \<Rightarrow>
                (case parse_u32 text of
                   Some v \<Rightarrow> if power_of_two_u32 v then (Some (PredicateAligned pointer v), st) else refused
                 | None \<Rightarrow> refused)
            | _ \<Rightarrow> refused)
      | _ \<Rightarrow> (None, contract_error span ''aligned requires a pointer and alignment.'' st))"

definition check_contract_builtin ::
  "expression \<Rightarrow> expression list \<Rightarrow> source_span \<Rightarrow> scope \<Rightarrow> checker \<Rightarrow> checked_contract_predicate option \<times> checker" where
  "check_contract_builtin callee args span sc st =
     (case callee of
        EIdentifier name _ \<Rightarrow>
          if name = lit ''multiple_of'' then check_contract_multiple_of args span sc st
          else if name = lit ''noalias'' then check_contract_noalias args span sc st
          else if name = lit ''aligned'' then check_contract_aligned args span sc st
          else (None, contract_named_error span ''Unsupported contract predicate '' name st)
      | _ \<Rightarrow> (None, contract_error span ''Unsupported contract predicate.'' st))"

text \<open>
  The types of the two sides of a comparison: a literal takes the type of the other side, two
  literals are \<open>i32\<close>. The third of the three conditionals of the code looks at the left side
  after the first two.
\<close>

definition comparison_types :: "ck_type \<Rightarrow> ck_type \<Rightarrow> ck_type \<times> ck_type" where
  "comparison_types left right =
     (let left = (if left = CkIntegerLiteral then materialize_integer_literal left right else left);
          right = (if right = CkIntegerLiteral then materialize_integer_literal right left else right)
      in if left = CkIntegerLiteral then (primitive_i32, primitive_i32) else (left, right))"

definition compare_affine ::
  "rstring \<Rightarrow> source_span \<Rightarrow> checked_affine_candidate \<Rightarrow> checked_affine_candidate \<Rightarrow> checker \<Rightarrow>
   checked_contract_predicate option \<times> checker" where
  "compare_affine operator span left right st =
     (if \<not> same_type (cac_type left) (cac_type right) then
        (None, contract_error span ''Contract comparison operands must have the same integer type.'' st)
      else
        let (left_type, right_type) = comparison_types (cac_type left) (cac_type right)
        in (Some (PredicateComparison operator (nae_checked (cac_form left) left_type)
                   (nae_checked (cac_form right) right_type)), st))"

definition unsupported_predicate :: "expression \<Rightarrow> checker \<Rightarrow> 'a option \<times> checker" where
  "unsupported_predicate e st =
     (None, contract_error (expression_span e)
       ''Contract requirement must be a comparison, conjunction, or supported predicate.'' st)"

fun check_contract_predicate ::
  "expression \<Rightarrow> scope \<Rightarrow> checker \<Rightarrow> checked_contract_predicate option \<times> checker" where
  "check_contract_predicate (EParenthesized e _) sc st = check_contract_predicate e sc st"
| "check_contract_predicate (EBinary operator left right span) sc st =
     (if operator = lit ''&&'' then
        and_then (check_contract_predicate left sc st) (\<lambda>l st.
          and_then (check_contract_predicate right sc st) (\<lambda>r st. (Some (PredicateConjunction [l, r]), st)))
      else if is_comparison_operator operator then
        and_then (check_contract_affine left sc st) (\<lambda>l st.
          and_then (check_contract_affine right sc st) (\<lambda>r st. compare_affine operator span l r st))
      else unsupported_predicate (EBinary operator left right span) st)"
| "check_contract_predicate (ECall callee args span) sc st = check_contract_builtin callee args span sc st"
| "check_contract_predicate e sc st = unsupported_predicate e st"

section \<open>Contracts\<close>

fun check_contract_predicates ::
  "contract_requirement list \<Rightarrow> scope \<Rightarrow> checker \<Rightarrow> checked_contract_predicate list \<times> checker" where
  "check_contract_predicates [] sc st = ([], st)"
| "check_contract_predicates (r # rs) sc st =
     (let (p, st) = check_contract_predicate (requirement_expression r) sc st;
          (ps, st) = check_contract_predicates rs sc st
      in (case p of Some p \<Rightarrow> p # ps | None \<Rightarrow> ps, st))"

fun check_effect_items ::
  "contract_effect_item list \<Rightarrow> scope \<Rightarrow> rstring list \<Rightarrow> (rstring \<rightharpoonup> contract_effect_kind) \<Rightarrow> checker \<Rightarrow>
   (rstring \<rightharpoonup> contract_effect_kind) \<times> checker" where
  "check_effect_items [] sc seen declared st = (declared, st)"
| "check_effect_items (item # items) sc seen declared st =
     (let name = id_name (effect_target item); span = id_span (effect_target item) in
      if \<not> (\<exists>v \<in> set_option (scope_lookup sc name). is_slice (var_type v)) then
        check_effect_items items sc seen declared
          (contract_error span ''Effect target must be a named slice parameter.'' st)
      else if name \<in> set seen then
        check_effect_items items sc seen declared
          (contract_error span ''An effect target can appear only once in a ceiling.'' st)
      else check_effect_items items sc (name # seen) (declared(name \<mapsto> effect_kind item)) st)"

definition check_contract_effects ::
  "contract_effect_clause \<Rightarrow> scope \<Rightarrow> rstring list \<Rightarrow> checker \<Rightarrow>
   checked_contract_effect_ceiling option \<times> checker" where
  "check_contract_effects clause sc slice_params st =
     (let (declared, st') = check_effect_items (effect_items clause) sc [] Map.empty st in
      (if length (ck_diagnostics st') = length (ck_diagnostics st) then
         Some \<lparr>cec_is_none = is_none clause,
               cec_items = map (\<lambda>name. (name, case declared name of Some k \<Rightarrow> k | None \<Rightarrow> EffectNone)) slice_params\<rparr>
       else None, st'))"

definition check_contract ::
  "contract_declaration \<Rightarrow> scope \<Rightarrow> rstring list \<Rightarrow> checker \<Rightarrow> checked_contract option \<times> checker" where
  "check_contract contr sc slice_params st =
     (let (predicates, st1) = check_contract_predicates (requirements contr) sc st;
          (effects, st2) = (case contract_effects contr of
             Some clause \<Rightarrow> check_contract_effects clause sc slice_params st1 | None \<Rightarrow> (None, st1))
      in (if length (ck_diagnostics st2) = length (ck_diagnostics st)
          then Some \<lparr>cc_predicates = predicates, cc_effects = effects\<rparr> else None, st2))"

end
