(* ===== verification/Typeck_Statement.thy ===== *)
theory Typeck_Statement
  imports Typeck_Expression Typeck_Contract
begin

text \<open>
  The checks of statements and function bodies of \<^verbatim>\<open>src/src/frontend/typeck.rs\<close>: the flow of
  control, the scopes, the depth of loops and unsafe blocks.
\<close>

section \<open>Flow\<close>

record flow_summary =
  falls_through :: bool
  returns :: bool
  breaks :: bool
  continues :: bool

definition flow_falls_through :: flow_summary where
  "flow_falls_through = \<lparr>falls_through = True, returns = False, breaks = False, continues = False\<rparr>"

definition flow_returns :: flow_summary where
  "flow_returns = \<lparr>falls_through = False, returns = True, breaks = False, continues = False\<rparr>"

definition flow_breaks :: flow_summary where
  "flow_breaks = \<lparr>falls_through = False, returns = False, breaks = True, continues = False\<rparr>"

definition flow_continues :: flow_summary where
  "flow_continues = \<lparr>falls_through = False, returns = False, breaks = False, continues = True\<rparr>"

definition flow_then :: "flow_summary \<Rightarrow> flow_summary \<Rightarrow> flow_summary" where
  "flow_then a b =
     \<lparr>falls_through = falls_through b, returns = returns a \<or> returns b,
      breaks = breaks a \<or> breaks b, continues = continues a \<or> continues b\<rparr>"

definition flow_union :: "flow_summary \<Rightarrow> flow_summary \<Rightarrow> flow_summary" where
  "flow_union a b =
     \<lparr>falls_through = falls_through a \<or> falls_through b, returns = returns a \<or> returns b,
      breaks = breaks a \<or> breaks b, continues = continues a \<or> continues b\<rparr>"

definition flow_loop :: "flow_summary \<Rightarrow> flow_summary" where
  "flow_loop body = \<lparr>falls_through = True, returns = returns body, breaks = False, continues = False\<rparr>"

section \<open>Simple statements\<close>

definition declare_variable :: "rstring \<Rightarrow> ck_type \<Rightarrow> source_span \<Rightarrow> scope \<times> checker \<Rightarrow> scope \<times> checker" where
  "declare_variable name t span = (\<lambda>(sc, st).
     let (fresh, sc) = scope_declare \<lparr>var_name = name, var_type = t\<rparr> sc in
     (sc, if fresh then st else ck_error span (lit ''Duplicate variable '' @ quoted name @ lit ''.'') st))"

text \<open>The check that a value may be stored where another type is expected.\<close>

definition check_assignable :: "expression \<Rightarrow> ck_type \<Rightarrow> ck_type \<Rightarrow> rstring \<Rightarrow> checker \<Rightarrow> checker" where
  "check_assignable e expected actual message st =
     (if \<not> is_unknown expected \<and> \<not> is_unknown actual \<and> \<not> can_assign expected actual
      then type_mismatch_error (expression_span e) expected actual message st else st)"

definition record_local_type :: "source_span \<Rightarrow> ck_type \<Rightarrow> checker \<Rightarrow> checker" where
  "record_local_type span t st = st\<lparr>ck_local_types := (ck_local_types st)(span \<mapsto> t)\<rparr>"

definition check_let_statement ::
  "identifier_node \<Rightarrow> type_node \<Rightarrow> expression \<Rightarrow> source_span \<Rightarrow> scope \<Rightarrow> checker \<Rightarrow> scope \<times> checker" where
  "check_let_statement name node initializer span sc st =
     (let (declared_type, st) = resolve_type node UseLocal st;
          st = record_local_type span declared_type st;
          (sc, st) = declare_variable (id_name name) declared_type (id_span name) (sc, st);
          (initializer_type, st) = check_expression initializer sc (Some declared_type) st
      in (sc, check_assignable initializer declared_type initializer_type
            (lit ''Cannot initialize '' @ quoted (id_name name) @ lit '': expected '' @
             type_to_string declared_type @ lit '' but got '' @ type_to_string initializer_type @ lit ''.'') st))"

definition check_read_only :: "expression \<Rightarrow> checker \<Rightarrow> checker" where
  "check_read_only assigned st =
     (case assigned of
        EField object field _ \<Rightarrow>
          if (\<exists>t \<in> set_option (ck_expression_types st (expression_span object)). is_slice t) \<and>
             (id_name field = lit ''data'' \<or> id_name field = lit ''len'')
          then ck_error_with_code (expression_span assigned) Ck2012
            (lit ''Slice '.data' and '.len' projections are read-only.'') st
          else st
      | _ \<Rightarrow> st)"

definition check_assignment_statement :: "expression \<Rightarrow> expression \<Rightarrow> scope \<Rightarrow> checker \<Rightarrow> checker" where
  "check_assignment_statement assigned v sc st =
     (let st = (if is_assignable_expression assigned then st
                else ck_error (expression_span assigned) (lit ''Invalid assignment target.'') st);
          (target_type, st) = check_expression assigned sc None st;
          st = check_read_only assigned st;
          (value_type, st) = check_expression v sc (Some target_type) st
      in check_assignable v target_type value_type
           (lit ''Cannot assign '' @ type_to_string value_type @ lit '' to '' @
            type_to_string target_type @ lit ''.'') st)"

definition check_return_statement ::
  "expression option \<Rightarrow> source_span \<Rightarrow> scope \<Rightarrow> ck_type \<Rightarrow> checker \<Rightarrow> checker" where
  "check_return_statement returned span sc result_type st =
     (if result_type = CkVoid then
        (case returned of
           None \<Rightarrow> st
         | Some v \<Rightarrow> ck_error_with_code (expression_span v) Ck2011
             (lit ''A void function cannot return a value.'') (snd (check_expression v sc None st)))
      else
        (case returned of
           None \<Rightarrow> ck_error_with_code span Ck2011 (lit ''A non-void function must return a value.'') st
         | Some v \<Rightarrow>
             let (value_type, st) = check_expression v sc (Some result_type) st
             in check_assignable v result_type value_type
                  (lit ''Return type mismatch: expected '' @ type_to_string result_type @ lit '' but got '' @
                   type_to_string value_type @ lit ''.'') st))"

definition check_call_statement :: "expression \<Rightarrow> scope \<Rightarrow> checker \<Rightarrow> checker" where
  "check_call_statement call sc st =
     (case call of
        ECall callee args span \<Rightarrow>
          let (result_type, st) = check_call callee args span sc False st;
              st = record_type span result_type st
          in if \<not> is_unknown result_type \<and> result_type \<noteq> CkVoid then
               ck_error_with_code span Ck2011
                 (lit ''Only a void call may be used as a standalone statement.'') st
             else st
      | _ \<Rightarrow> ck_error_with_code (expression_span call) Ck2011
          (lit ''Only a function call may be used as a standalone statement.'') st)"

text \<open>\<open>what\<close> is the word the message starts with.\<close>

definition check_condition :: "string \<Rightarrow> expression \<Rightarrow> scope \<Rightarrow> checker \<Rightarrow> checker" where
  "check_condition what condition sc st =
     (let (t, st) = check_expression condition sc None st;
          t = materialize_integer_literal t primitive_i32
      in if \<not> is_unknown t \<and> \<not> is_bool t then
           ck_error (expression_span condition)
             (lit what @ lit '' condition must be bool, got '' @ type_to_string t @ lit ''.'') st
         else st)"

section \<open>Statements\<close>

text \<open>A jump out of a loop, or the diagnostic when there is none.\<close>

definition check_jump :: "source_span \<Rightarrow> string \<Rightarrow> flow_summary \<Rightarrow> checker \<Rightarrow> flow_summary \<times> checker" where
  "check_jump span message flow st =
     (if ck_loop_depth st = 0 then (flow_falls_through, ck_error_with_code span Ck2009 (lit message) st)
      else (flow, st))"

definition enter_unsafe :: "checker \<Rightarrow> checker" where
  "enter_unsafe st = st\<lparr>ck_unsafe_depth := ck_unsafe_depth st + 1\<rparr>"

definition leave_unsafe :: "checker \<Rightarrow> checker" where
  "leave_unsafe st = st\<lparr>ck_unsafe_depth := ck_unsafe_depth st - 1\<rparr>"

definition enter_loop :: "checker \<Rightarrow> checker" where
  "enter_loop st = st\<lparr>ck_loop_depth := ck_loop_depth st + 1\<rparr>"

definition leave_loop :: "checker \<Rightarrow> checker" where
  "leave_loop st = st\<lparr>ck_loop_depth := ck_loop_depth st - 1\<rparr>"

text \<open>
  A block in a scope of its own yields its flow; the scope it pushes is gone when it ends, so
  the caller goes on with the scope it had.
\<close>

fun check_statement :: "statement \<Rightarrow> scope \<Rightarrow> ck_type \<Rightarrow> checker \<Rightarrow> flow_summary \<times> scope \<times> checker"
  and check_statements ::
    "statement list \<Rightarrow> flow_summary \<Rightarrow> scope \<Rightarrow> ck_type \<Rightarrow> checker \<Rightarrow> flow_summary \<times> scope \<times> checker"
  and check_scoped_block :: "block_statement \<Rightarrow> scope \<Rightarrow> ck_type \<Rightarrow> checker \<Rightarrow> flow_summary \<times> scope \<times> checker" where
  "check_statement (StBlock b) sc rt st = check_scoped_block b sc rt st"
| "check_statement (StUnsafe b _) sc rt st =
     (let (flow, sc, st) = check_scoped_block b sc rt (enter_unsafe st) in (flow, sc, leave_unsafe st))"
| "check_statement (StLet name node initializer span) sc rt st =
     (flow_falls_through, check_let_statement name node initializer span sc st)"
| "check_statement (StAssignment assigned v _) sc rt st =
     (flow_falls_through, sc, check_assignment_statement assigned v sc st)"
| "check_statement (StCall call _) sc rt st = (flow_falls_through, sc, check_call_statement call sc st)"
| "check_statement (StReturn returned span) sc rt st =
     (flow_returns, sc, check_return_statement returned span sc rt st)"
| "check_statement (StBreak span) sc rt st =
     (let (flow, st) = check_jump span '''break' can only be used inside a while loop.'' flow_breaks st
      in (flow, sc, st))"
| "check_statement (StContinue span) sc rt st =
     (let (flow, st) = check_jump span '''continue' can only be used inside a while loop.'' flow_continues st
      in (flow, sc, st))"
| "check_statement (StIf condition then_block else_block _) sc rt st =
     (let st = check_condition ''If'' condition sc st;
          (then_flow, sc, st) = check_scoped_block then_block sc rt st;
          (else_flow, sc, st) = (case else_block of
             Some b \<Rightarrow> check_scoped_block b sc rt st | None \<Rightarrow> (flow_falls_through, sc, st))
      in (flow_union then_flow else_flow, sc, st))"
| "check_statement (StWhile condition body _) sc rt st =
     (let st = enter_loop (check_condition ''While'' condition sc st);
          (body_flow, sc, st) = check_scoped_block body sc rt st
      in (flow_loop body_flow, sc, leave_loop st))"
| "check_statement (StError _) sc rt st = (flow_falls_through, sc, st)"
| "check_statements [] flow sc rt st = (flow, sc, st)"
| "check_statements (s # ss) flow sc rt st =
     (if \<not> falls_through flow then
        check_statements ss flow sc rt
          (ck_error_with_code (statement_span s) Ck2010 (lit ''Unreachable statement.'') st)
      else
        let (next, sc, st) = check_statement s sc rt st
        in check_statements ss (flow_then flow next) sc rt st)"
| "check_scoped_block b sc rt st =
     (case b of BlockStatement ss _ \<Rightarrow>
        let (flow, sc, st) = check_statements ss flow_falls_through (scope_push sc) rt st
        in (flow, scope_pop sc, st))"

definition check_body_block :: "block_statement \<Rightarrow> scope \<Rightarrow> ck_type \<Rightarrow> checker \<Rightarrow> flow_summary \<times> scope \<times> checker" where
  "check_body_block b sc rt st = check_statements (block_statements b) flow_falls_through sc rt st"

end
