(* ===== verification/Typeck_Typing.thy ===== *)
theory Typeck_Typing
  imports Typeck_Statement
begin

text \<open>
  A type system for the language, independent of the checker: inductive relations between a
  phrase and its type in an environment. An integer literal has every integer type. And the
  frame of the checker's methods: they push diagnostics and record types, nothing else.
\<close>

section \<open>Types of values\<close>

text \<open>The types a value can have: not void, not the marks of a literal or of an error.\<close>

fun proper :: "ck_type \<Rightarrow> bool" where
  "proper (CkPrimitive _) = True"
| "proper (CkPointer t) = proper t"
| "proper (CkSlice t) = proper t"
| "proper (CkStruct _) = True"
| "proper CkVoid = False"
| "proper CkIntegerLiteral = False"
| "proper CkUnknown = False"

definition numeric :: "ck_type \<Rightarrow> bool" where
  "numeric t \<longleftrightarrow> is_integer_primitive t \<or> t = primitive_f64"

type_synonym type_env = "rstring \<rightharpoonup> ck_type"

definition scope_types :: "scope \<Rightarrow> type_env" where
  "scope_types sc = (\<lambda>n. map_option var_type (scope_lookup sc n))"

fun is_literal :: "expression \<Rightarrow> bool" where
  "is_literal (EIntegerLiteral _ _) = True"
| "is_literal (EParenthesized e _) = is_literal e"
| "is_literal _ = False"

section \<open>Expressions\<close>

inductive typed :: "symbol_table \<Rightarrow> bool \<Rightarrow> type_env \<Rightarrow> expression \<Rightarrow> ck_type \<Rightarrow> bool"
  and call_typed :: "symbol_table \<Rightarrow> bool \<Rightarrow> type_env \<Rightarrow> expression \<Rightarrow> expression list \<Rightarrow> ck_type \<Rightarrow> bool"
  for syms :: symbol_table and unsafe :: bool and env :: type_env where
  typed_variable: "env name = Some t \<Longrightarrow> typed syms unsafe env (EIdentifier name sp) t"
| typed_integer: "is_integer_primitive t \<Longrightarrow> typed syms unsafe env (EIntegerLiteral text sp) t"
| typed_float: "typed syms unsafe env (EFloatLiteral text sp) primitive_f64"
| typed_bool: "typed syms unsafe env (EBoolLiteral b sp) primitive_bool"
| typed_not: "typed syms unsafe env e primitive_bool \<Longrightarrow>
    typed syms unsafe env (EUnary (lit ''!'') e sp) primitive_bool"
| typed_negate: "typed syms unsafe env e t \<Longrightarrow> numeric t \<Longrightarrow> typed syms unsafe env (EUnary (lit ''-'') e sp) t"
| typed_arithmetic: "is_arithmetic_operator op \<Longrightarrow> typed syms unsafe env l t \<Longrightarrow> typed syms unsafe env r t \<Longrightarrow>
    numeric t \<Longrightarrow> op \<noteq> lit ''%'' \<or> t \<noteq> primitive_f64 \<Longrightarrow> typed syms unsafe env (EBinary op l r sp) t"
| typed_comparison: "is_comparison_operator op \<Longrightarrow> typed syms unsafe env l t \<Longrightarrow> typed syms unsafe env r t \<Longrightarrow>
    numeric t \<or> op \<in> {lit ''=='', lit ''!=''} \<and> \<not> is_slice t \<Longrightarrow>
    typed syms unsafe env (EBinary op l r sp) primitive_bool"
| typed_logical: "is_logical_operator op \<Longrightarrow> typed syms unsafe env l primitive_bool \<Longrightarrow>
    typed syms unsafe env r primitive_bool \<Longrightarrow> typed syms unsafe env (EBinary op l r sp) primitive_bool"
| typed_call: "call_typed syms unsafe env callee args t \<Longrightarrow> t \<noteq> CkVoid \<Longrightarrow>
    typed syms unsafe env (ECall callee args sp) t"
| typed_slice: "typed syms unsafe env d (CkPointer t) \<Longrightarrow> typed syms unsafe env n primitive_u32 \<Longrightarrow>
    invalid_u32_literal n = None \<Longrightarrow> typed syms unsafe env (ESliceConstructor d n sp) (CkSlice t)"
| typed_data: "typed syms unsafe env e (CkSlice t) \<Longrightarrow> id_name f = lit ''data'' \<Longrightarrow>
    typed syms unsafe env (EField e f sp) (CkPointer t)"
| typed_len: "typed syms unsafe env e (CkSlice t) \<Longrightarrow> id_name f = lit ''len'' \<Longrightarrow>
    typed syms unsafe env (EField e f sp) primitive_u32"
| typed_field: "typed syms unsafe env e (CkStruct s) \<Longrightarrow> sym_structs syms s = Some d \<Longrightarrow>
    ss_fields d (id_name f) = Some t \<Longrightarrow> typed syms unsafe env (EField e f sp) t"
| typed_slice_index: "typed syms unsafe env e (CkSlice t) \<Longrightarrow> typed syms unsafe env i primitive_u32 \<Longrightarrow>
    invalid_u32_literal i = None \<Longrightarrow> typed syms unsafe env (EIndex e i sp) t"
| typed_pointer_index: "typed syms unsafe env e (CkPointer t) \<Longrightarrow> typed syms unsafe env i it \<Longrightarrow>
    it \<in> {primitive_i32, primitive_u32} \<Longrightarrow> typed syms unsafe env (EIndex e i sp) t"
| typed_subslice: "typed syms unsafe env e (CkSlice t) \<Longrightarrow> typed syms unsafe env i primitive_u32 \<Longrightarrow>
    invalid_u32_literal i = None \<Longrightarrow> typed syms unsafe env j primitive_u32 \<Longrightarrow>
    invalid_u32_literal j = None \<Longrightarrow> typed syms unsafe env (ESubslice e i j sp) (CkSlice t)"
| typed_parenthesized: "typed syms unsafe env e t \<Longrightarrow> typed syms unsafe env (EParenthesized e sp) t"
| call_builtin: "get_compiler_builtin name = Some b \<Longrightarrow> list_all2 (typed syms unsafe env) args (cb_params b) \<Longrightarrow>
    call_typed syms unsafe env (EIdentifier name sp) args (cb_return_type b)"
| call_function: "get_compiler_builtin name = None \<Longrightarrow> sym_functions syms name = Some f \<Longrightarrow>
    list_all2 (typed syms unsafe env) args (fs_params f) \<Longrightarrow> is_unsafe (fs_declaration f) \<longrightarrow> unsafe \<Longrightarrow>
    call_typed syms unsafe env (EIdentifier name sp) args (fs_return_type f)"

lemma typed_literal: "is_literal e \<Longrightarrow> is_integer_primitive t \<Longrightarrow> typed syms unsafe env e t"
  by (induction e rule: is_literal.induct) (auto intro: typed_call_typed.intros)

text \<open>The expressions the parser makes: its operators, and no place-holder of an error.\<close>

fun wf_expression :: "expression \<Rightarrow> bool" where
  "wf_expression (EUnary op e _) \<longleftrightarrow> (op = lit ''!'' \<or> op = lit ''-'') \<and> wf_expression e"
| "wf_expression (EBinary op l r _) \<longleftrightarrow>
     (is_arithmetic_operator op \<or> is_comparison_operator op \<or> is_logical_operator op) \<and>
     wf_expression l \<and> wf_expression r"
| "wf_expression (ECall c args _) \<longleftrightarrow> list_all wf_expression args"
| "wf_expression (ESliceConstructor d n _) \<longleftrightarrow> wf_expression d \<and> wf_expression n"
| "wf_expression (EField e _ _) \<longleftrightarrow> wf_expression e"
| "wf_expression (EIndex e i _) \<longleftrightarrow> wf_expression e \<and> wf_expression i"
| "wf_expression (ESubslice e i j _) \<longleftrightarrow> wf_expression e \<and> wf_expression i \<and> wf_expression j"
| "wf_expression (EParenthesized e _) \<longleftrightarrow> wf_expression e"
| "wf_expression (EError _) \<longleftrightarrow> False"
| "wf_expression _ \<longleftrightarrow> True"

section \<open>The frame of the methods\<close>

definition grows :: "checker \<Rightarrow> checker \<Rightarrow> bool" where
  "grows st st' \<longleftrightarrow> (\<exists>es. ck_diagnostics st' = ck_diagnostics st @ es) \<and>
     ck_symbols st' = ck_symbols st \<and> ck_unsafe_depth st' = ck_unsafe_depth st \<and>
     ck_loop_depth st' = ck_loop_depth st \<and> ck_source st' = ck_source st \<and> ck_program st' = ck_program st \<and>
     ck_contracts st' = ck_contracts st"

named_theorems grows_intros \<open>the frame of the operations of the checker\<close>

lemma grows_refl [grows_intros]: "grows st st"
  by (simp add: grows_def)

lemma grows_trans: "grows st st1 \<Longrightarrow> grows st1 st2 \<Longrightarrow> grows st st2"
  by (auto simp: grows_def)

lemma grows_diagnostics: "grows st st' \<Longrightarrow> \<exists>es. ck_diagnostics st' = ck_diagnostics st @ es"
  by (simp add: grows_def)

lemma grows_frame:
  assumes "grows st st'"
  shows "ck_symbols st' = ck_symbols st" "ck_unsafe_depth st' = ck_unsafe_depth st"
    "ck_loop_depth st' = ck_loop_depth st" "ck_source st' = ck_source st" "ck_program st' = ck_program st"
    "ck_contracts st' = ck_contracts st"
  using assms by (simp_all add: grows_def)

lemma grows_error_with_code [grows_intros]: "grows st st1 \<Longrightarrow> grows st (ck_error_with_code sp c m st1)"
  by (auto simp: grows_def ck_error_with_code_def)

lemma grows_error [grows_intros]: "grows st st1 \<Longrightarrow> grows st (ck_error sp m st1)"
  by (simp add: ck_error_def grows_error_with_code)

lemma grows_mismatch [grows_intros]: "grows st st1 \<Longrightarrow> grows st (type_mismatch_error sp a b m st1)"
  by (simp add: type_mismatch_error_def grows_intros)

lemma grows_record [grows_intros]: "grows st st1 \<Longrightarrow> grows st (record_type sp t st1)"
  by (auto simp: grows_def record_type_def)

lemma grows_record_local [grows_intros]: "grows st st1 \<Longrightarrow> grows st (record_local_type sp t st1)"
  by (auto simp: grows_def record_local_type_def)

lemma resolve_type_grows: "grows st (snd (resolve_type node cx st))"
  by (induction node cx st rule: resolve_type.induct)
    (auto simp: Let_def case_prod_unfold intro: grows_intros)

lemma grows_resolve [grows_intros]: "grows st st1 \<Longrightarrow> grows st (snd (resolve_type node cx st1))"
  by (rule grows_trans [OF _ resolve_type_grows])

text \<open>The finishing steps of the expressions.\<close>

lemmas finisher_defs =
  check_not_operand_def check_negate_operand_def check_logical_operand_def check_logical_types_def
  check_arithmetic_types_def check_comparison_types_def check_binary_types_def check_argument_count_def
  check_argument_type_def check_unsafe_call_def call_value_def check_field_type_def check_slice_u32_type_def
  check_pointer_index_def check_indexed_object_def check_slice_data_def check_subsliced_def check_variable_def
  remember_def

lemma grows_finishers [grows_intros]:
  "grows s (snd x) \<Longrightarrow> grows s (snd (check_not_operand e x))"
  "grows s (snd x) \<Longrightarrow> grows s (snd (check_negate_operand e fb x))"
  "grows s st \<Longrightarrow> grows s (snd (check_logical_types op l r lt rt st))"
  "grows s st \<Longrightarrow> grows s (snd (check_arithmetic_types op l r sp ex lt rt st))"
  "grows s st \<Longrightarrow> grows s (snd (check_comparison_types op l r sp lt rt st))"
  "grows s st \<Longrightarrow> grows s (check_argument_count w nm k c sp st)"
  "grows s (snd x) \<Longrightarrow> grows s (check_argument_type w nm i e ex x)"
  "grows s st \<Longrightarrow> grows s (check_unsafe_call f sp st)"
  "grows s st \<Longrightarrow> grows s (snd (call_value v m sp t st))"
  "grows s (snd x) \<Longrightarrow> grows s (snd (check_field_type e fd x))"
  "grows s (snd x) \<Longrightarrow> grows s (snd (check_slice_u32_type rl e x))"
  "grows s (snd x) \<Longrightarrow> grows s (check_pointer_index e x)"
  "grows s st \<Longrightarrow> grows s (check_indexed_object e t st)"
  "grows s (snd x) \<Longrightarrow> grows s (snd (check_slice_data e x))"
  "grows s st \<Longrightarrow> grows s (snd (check_subsliced e t st))"
  "grows s st \<Longrightarrow> grows s (snd (check_variable nm sp sc st))"
  "grows s (snd x) \<Longrightarrow> grows s (snd (remember sp x))"
  by (simp_all add: finisher_defs Let_def case_prod_unfold grows_intros split: option.split ck_type.split)

lemma grows_binary_types [grows_intros]: "grows s st \<Longrightarrow> grows s (snd (check_binary_types op l r sp ex lt rt st))"
  by (simp add: check_binary_types_def grows_finishers)

declare check_call.simps [simp del]

lemma arguments_grow:
  assumes "\<And>a s st sc ex. a \<in> set args \<Longrightarrow> grows s st \<Longrightarrow> grows s (snd (check_expression a sc ex st))" "grows s st"
  shows "grows s (check_plain_arguments args sc st)" "grows s (check_arguments args w nm ps i sc st)"
  using assms by (induction args arbitrary: st i) (simp_all add: Let_def grows_intros)

lemma call_grows:
  assumes "\<And>a s st sc ex. a \<in> set args \<Longrightarrow> grows s st \<Longrightarrow> grows s (snd (check_expression a sc ex st))" "grows s st"
  shows "grows s (snd (check_call c args sp sc v st))"
  using arguments_grow [OF assms(1)] assms(2)
  by (simp add: check_call.simps grows_intros split: expression.split option.split)

lemma grows_expression [grows_intros]: "grows s st \<Longrightarrow> grows s (snd (check_expression e sc ex st))"
proof (induction e arbitrary: s st sc ex)
  case (ECall c args sp)
  then show ?case by (simp add: grows_intros call_grows)
qed (simp_all add: Let_def case_prod_unfold grows_intros split: ck_type.split)

lemma grows_call [grows_intros]: "grows s st \<Longrightarrow> grows s (snd (check_call c args sp sc v st))"
  by (rule call_grows) (rule grows_expression)

lemma grows_arguments [grows_intros]:
  "grows s st \<Longrightarrow> grows s (check_plain_arguments args sc st)"
  "grows s st \<Longrightarrow> grows s (check_arguments args w nm ps i sc st)"
  by (blast intro: arguments_grow grows_expression)+

end
