(* ===== verification/Typeck_Sound.thy ===== *)
theory Typeck_Sound
  imports Typeck_Typing
begin

text \<open>
  The soundness of the checks of expressions: a check that reports nothing has found a type of
  the type system.
\<close>

section \<open>Checks that report nothing\<close>

text \<open>A run of a method that pushed no diagnostic.\<close>

definition quiet :: "checker \<Rightarrow> checker \<Rightarrow> bool" where
  "quiet st st' \<longleftrightarrow> grows st st' \<and> ck_diagnostics st' = ck_diagnostics st"

lemma quiet_refl [simp]: "quiet st st"
  by (simp add: quiet_def grows_refl)

lemma quiet_split:
  assumes "grows st st1" "grows st1 st2" "ck_diagnostics st2 = ck_diagnostics st"
  shows "quiet st st1" "quiet st1 st2"
proof -
  obtain es fs where "ck_diagnostics st1 = ck_diagnostics st @ es" "ck_diagnostics st2 = ck_diagnostics st1 @ fs"
    using grows_diagnostics [OF assms(1)] grows_diagnostics [OF assms(2)] by blast
  with assms show "quiet st st1" "quiet st1 st2" by (simp_all add: quiet_def)
qed

lemma not_quiet_error: "grows st st1 \<Longrightarrow> ck_diagnostics (ck_error_with_code sp c m st1) \<noteq> ck_diagnostics st"
  by (auto simp: ck_error_with_code_def dest!: grows_diagnostics)

section \<open>Environments\<close>

definition syms_ok :: "symbol_table \<Rightarrow> bool" where
  "syms_ok syms \<longleftrightarrow>
     (\<forall>n s f t. sym_structs syms n = Some s \<longrightarrow> ss_fields s f = Some t \<longrightarrow> proper t) \<and>
     (\<forall>n f. sym_functions syms n = Some f \<longrightarrow>
        list_all proper (fs_params f) \<and> (proper (fs_return_type f) \<or> fs_return_type f = CkVoid))"

definition scope_ok :: "scope \<Rightarrow> bool" where
  "scope_ok sc \<longleftrightarrow> (\<forall>n v. scope_lookup sc n = Some v \<longrightarrow> proper (var_type v))"

abbreviation typed_in :: "checker \<Rightarrow> scope \<Rightarrow> expression \<Rightarrow> ck_type \<Rightarrow> bool" where
  "typed_in st sc \<equiv> typed (ck_symbols st) (0 < ck_unsafe_depth st) (scope_types sc)"

text \<open>What a check with an expected type finds: a type, or that the expression is a literal.\<close>

definition finds :: "checker \<Rightarrow> scope \<Rightarrow> expression \<Rightarrow> ck_type option \<Rightarrow> ck_type \<Rightarrow> bool" where
  "finds st sc e ex t \<longleftrightarrow>
     proper t \<and> typed_in st sc e t \<or>
     t = CkIntegerLiteral \<and> is_literal e \<and> \<not> (\<exists>x. ex = Some x \<and> is_integer_primitive x)"

definition sound :: "expression \<Rightarrow> bool" where
  "sound e \<longleftrightarrow> (\<forall>sc ex st t st'. check_expression e sc ex st = (t, st') \<longrightarrow> quiet st st' \<longrightarrow>
     syms_ok (ck_symbols st) \<longrightarrow> scope_ok sc \<longrightarrow> (\<forall>x. ex = Some x \<longrightarrow> proper x) \<longrightarrow> wf_expression e \<longrightarrow>
     finds st sc e ex t)"

lemma soundD:
  "sound e \<Longrightarrow> check_expression e sc ex st = (t, st') \<Longrightarrow> quiet st st' \<Longrightarrow> syms_ok (ck_symbols st) \<Longrightarrow> scope_ok sc \<Longrightarrow>
   (\<And>x. ex = Some x \<Longrightarrow> proper x) \<Longrightarrow> wf_expression e \<Longrightarrow> finds st sc e ex t"
  unfolding sound_def by blast

lemma soundI:
  "(\<And>sc ex st t st'. check_expression e sc ex st = (t, st') \<Longrightarrow> quiet st st' \<Longrightarrow> syms_ok (ck_symbols st) \<Longrightarrow>
     scope_ok sc \<Longrightarrow> wf_expression e \<Longrightarrow> finds st sc e ex t) \<Longrightarrow> sound e"
  unfolding sound_def by blast

lemma quiet_frame:
  assumes "quiet st st'"
  shows "ck_symbols st' = ck_symbols st" "ck_unsafe_depth st' = ck_unsafe_depth st"
    "ck_loop_depth st' = ck_loop_depth st"
  using assms grows_frame [of st st'] by (simp_all add: quiet_def)

lemma quiet_typed_in: "quiet st st' \<Longrightarrow> typed_in st' sc e t \<longleftrightarrow> typed_in st sc e t"
  by (simp add: quiet_frame)

lemma quiet_finds: "quiet st st' \<Longrightarrow> finds st' sc e ex t \<longleftrightarrow> finds st sc e ex t"
  by (simp add: finds_def quiet_typed_in)

lemma check_expression_grows: "check_expression e sc ex st = (t, st') \<Longrightarrow> grows st st'"
  using grows_expression [OF grows_refl [of st], of e sc ex] by simp

lemma finds_literal: "finds st sc e ex CkIntegerLiteral \<Longrightarrow> is_integer_primitive t \<Longrightarrow> typed_in st sc e t"
  by (auto simp: finds_def intro: typed_literal)

lemma finds_proper: "finds st sc e ex t \<Longrightarrow> t \<noteq> CkIntegerLiteral \<Longrightarrow> proper t \<and> typed_in st sc e t"
  by (auto simp: finds_def)

lemma finds_unknown: "finds st sc e ex t \<Longrightarrow> t \<noteq> CkUnknown \<and> t \<noteq> CkVoid"
  by (auto simp: finds_def)

lemma proper_facts: "proper t \<Longrightarrow> t \<noteq> CkUnknown \<and> t \<noteq> CkVoid \<and> t \<noteq> CkIntegerLiteral"
  by auto

lemma integer_primitive_proper: "is_integer_primitive t \<Longrightarrow> proper t"
  by (auto simp: is_integer_primitive_def)

section \<open>The finishing steps\<close>

lemma quiet_record [simp]: "quiet st (record_type sp t st1) \<longleftrightarrow> quiet st st1"
  by (simp add: quiet_def grows_def record_type_def)

lemma quiet_record' [simp]: "quiet (record_type sp t st1) st \<longleftrightarrow> quiet st1 st"
  by (simp add: quiet_def grows_def record_type_def)

lemma not_quiet:
  "grows st st1 \<Longrightarrow> \<not> quiet st (ck_error_with_code sp c m st1)"
  "grows st st1 \<Longrightarrow> \<not> quiet st (ck_error sp m st1)"
  "grows st st1 \<Longrightarrow> \<not> quiet st (type_mismatch_error sp a b m st1)"
  by (simp_all add: quiet_def not_quiet_error ck_error_def type_mismatch_error_def)

lemmas not_quiet_simps [simp] = not_quiet [OF grows_refl]

lemmas type_defs = is_unknown_def is_bool_def is_integer_def is_integer_primitive_def is_numeric_type_def
  is_float_type_def same_type_def can_assign_def materialize_integer_literal_def is_index_integer_def numeric_def

text \<open>A type found agrees with a type when it is that type, or the mark of a literal and the type an integer type.\<close>

definition agrees :: "ck_type \<Rightarrow> ck_type \<Rightarrow> bool" where
  "agrees t T \<longleftrightarrow> t = T \<or> t = CkIntegerLiteral \<and> is_integer_primitive T"

lemma finds_agrees: "finds st sc e ex t \<Longrightarrow> agrees t T \<Longrightarrow> proper T \<Longrightarrow> typed_in st sc e T"
  by (auto simp: agrees_def finds_def intro: typed_literal)

lemma fallback_integer: "is_integer_primitive (integer_literal_fallback ex)"
  by (auto simp: integer_literal_fallback_def is_integer_primitive_def split: option.splits)

lemma fallback_Some: "integer_literal_fallback (Some t) = (if is_integer_primitive t then t else primitive_i32)"
  by (simp add: integer_literal_fallback_def)

lemma numeric_proper: "numeric t \<Longrightarrow> proper t"
  by (auto simp: type_defs)

lemma quiet_not_operand:
  "quiet st (snd (check_not_operand e (t, st))) \<Longrightarrow> t \<noteq> CkUnknown \<Longrightarrow>
   fst (check_not_operand e (t, st)) = primitive_bool \<and> t = primitive_bool"
  by (auto simp: check_not_operand_def Let_def type_defs split: if_splits)

lemma quiet_negate_operand:
  "quiet st (snd (check_negate_operand e fb (t, st))) \<Longrightarrow> t \<noteq> CkUnknown \<Longrightarrow> is_integer_primitive fb \<Longrightarrow>
   agrees t (fst (check_negate_operand e fb (t, st))) \<and> numeric (fst (check_negate_operand e fb (t, st)))"
  by (auto simp: check_negate_operand_def Let_def type_defs agrees_def split: if_splits)

lemma quiet_logical_types:
  assumes "quiet st (snd (check_logical_types op l r lt rt st))" "lt \<noteq> CkUnknown" "rt \<noteq> CkUnknown"
  shows "lt = primitive_bool" "rt = primitive_bool"
proof -
  let ?st1 = "check_logical_operand op l (materialize_integer_literal lt primitive_i32) st"
  have g: "grows st ?st1" "grows ?st1 (snd (check_logical_types op l r lt rt st))"
    by (simp_all add: check_logical_types_def check_logical_operand_def grows_intros)
  from assms(1) have "ck_diagnostics (snd (check_logical_types op l r lt rt st)) = ck_diagnostics st"
    by (simp add: quiet_def)
  from quiet_split [OF g this] show "lt = primitive_bool" "rt = primitive_bool"
    using assms(2,3) by (auto simp: check_logical_types_def check_logical_operand_def type_defs split: if_splits)
qed

text \<open>The types the two operands of an arithmetic or comparison operator end up with.\<close>

definition operand_types :: "ck_type \<Rightarrow> ck_type \<Rightarrow> ck_type \<Rightarrow> ck_type \<times> ck_type" where
  "operand_types fb lt rt =
     (let L = materialize_integer_literal lt (if rt = CkIntegerLiteral then fb else integer_literal_fallback (Some rt))
      in (L, materialize_integer_literal rt (integer_literal_fallback (Some L))))"

lemma operand_types_agree:
  assumes "operand_types fb lt rt = (L, R)" "is_integer_primitive fb" "lt \<noteq> CkUnknown" "rt \<noteq> CkUnknown"
  shows "agrees lt L" "agrees rt R" "L \<noteq> CkUnknown" "R \<noteq> CkUnknown" "L \<noteq> CkIntegerLiteral" "R \<noteq> CkIntegerLiteral"
proof -
  have fb: "is_integer_primitive (integer_literal_fallback (Some x))" for x by (rule fallback_integer)
  have L: "L = materialize_integer_literal lt (if rt = CkIntegerLiteral then fb else integer_literal_fallback (Some rt))"
    and R: "R = materialize_integer_literal rt (integer_literal_fallback (Some L))"
    using assms(1) by (auto simp: operand_types_def Let_def)
  have ne: "is_integer_primitive x \<Longrightarrow> x \<noteq> CkUnknown \<and> x \<noteq> CkIntegerLiteral" for x
    by (auto simp: is_integer_primitive_def)
  show "agrees lt L" "agrees rt R" "L \<noteq> CkUnknown" "R \<noteq> CkUnknown" "L \<noteq> CkIntegerLiteral" "R \<noteq> CkIntegerLiteral"
    using fb ne assms(2-4) by (auto simp: L R agrees_def materialize_integer_literal_def)
qed

lemma agrees_same:
  assumes "agrees lt L" "agrees rt R" "same_type L R" "L \<noteq> CkUnknown" "R \<noteq> CkUnknown" "L \<noteq> CkIntegerLiteral" "R \<noteq> CkIntegerLiteral"
  shows "L = R"
  using assms by (simp add: same_type_def is_unknown_def)

lemma quiet_arithmetic_types:
  assumes q: "quiet st (snd (check_arithmetic_types op l r sp ex lt rt st))" and ne: "lt \<noteq> CkUnknown" "rt \<noteq> CkUnknown"
  shows "\<exists>T. fst (check_arithmetic_types op l r sp ex lt rt st) = T \<and> agrees lt T \<and> agrees rt T \<and> numeric T \<and>
    (op \<noteq> lit ''%'' \<or> T \<noteq> primitive_f64)"
proof -
  obtain L R where ot: "operand_types (integer_literal_fallback ex) lt rt = (L, R)" by (cases "operand_types (integer_literal_fallback ex) lt rt")
  note ag = operand_types_agree [OF ot fallback_integer ne]
  have "\<not> (op = lit ''%'' \<and> (is_float_type L \<or> is_float_type R)) \<and>
      \<not> (\<not> is_numeric_type L \<or> \<not> is_numeric_type R \<or> \<not> same_type L R) \<and>
      fst (check_arithmetic_types op l r sp ex lt rt st) = materialize_integer_literal L (integer_literal_fallback ex)"
    using q ag ot by (auto simp: check_arithmetic_types_def operand_types_def Let_def is_unknown_def not_quiet grows_intros
      split: if_splits)
  then have "L = R" "is_numeric_type L" "op \<noteq> lit ''%'' \<or> L \<noteq> primitive_f64"
      "fst (check_arithmetic_types op l r sp ex lt rt st) = L"
    using agrees_same [OF ag(1,2) _ ag(3-6)] ag(5) by (auto simp: is_float_type_def materialize_integer_literal_def)
  then show ?thesis using ag by (auto simp: numeric_def is_numeric_type_def is_integer_def is_float_type_def)
qed

lemma quiet_comparison_types:
  assumes q: "quiet st (snd (check_comparison_types op l r sp lt rt st))" and ne: "lt \<noteq> CkUnknown" "rt \<noteq> CkUnknown"
  shows "\<exists>T. agrees lt T \<and> agrees rt T \<and> T \<noteq> CkIntegerLiteral \<and>
    (numeric T \<or> op \<in> {lit ''=='', lit ''!=''} \<and> \<not> is_slice T)"
proof -
  obtain L R where ot: "operand_types primitive_i32 lt rt = (L, R)" by (cases "operand_types primitive_i32 lt rt")
  have "is_integer_primitive primitive_i32" by (simp add: is_integer_primitive_def)
  note ag = operand_types_agree [OF ot this ne]
  have "\<not> is_slice lt \<and> \<not> is_slice rt \<and> (if op = lit ''=='' \<or> op = lit ''!='' then same_type L R
      else is_numeric_type L \<and> is_numeric_type R \<and> same_type L R)"
    using q ag ot by (auto simp: check_comparison_types_def operand_types_def Let_def is_unknown_def not_quiet grows_intros
      split: if_splits)
  then have *: "\<not> is_slice lt" "\<not> is_slice rt" "L = R" "op \<in> {lit ''=='', lit ''!=''} \<or> is_numeric_type L"
    using agrees_same [OF ag(1,2) _ ag(3-6)] by (auto split: if_splits)
  have "numeric L \<or> \<not> is_slice L \<and> op \<in> {lit ''=='', lit ''!=''}"
    using * ag by (auto simp: agrees_def numeric_def is_numeric_type_def is_integer_def is_float_type_def)
  then show ?thesis using ag *(3) by auto
qed

lemma quiet_argument_type:
  assumes "quiet st (check_argument_type w nm i arg (Some p) (t, st))" "proper p" "finds st sc arg (Some p) t"
  shows "agrees t p"
  using assms finds_unknown [OF assms(3)]
  by (auto simp: check_argument_type_def agrees_def finds_def is_unknown_def can_assign_def same_type_def
    is_integer_def split: if_splits)

section \<open>Expressions\<close>

lemma arguments_sound:
  "(\<And>a. a \<in> set args \<Longrightarrow> sound a) \<Longrightarrow> quiet st (check_arguments args w nm ps i sc st) \<Longrightarrow>
   i + length args = length ps \<Longrightarrow> list_all proper ps \<Longrightarrow> syms_ok (ck_symbols st) \<Longrightarrow> scope_ok sc \<Longrightarrow>
   list_all wf_expression args \<Longrightarrow> list_all2 (typed_in st sc) args (drop i ps)"
proof (induction args arbitrary: st i)
  case Nil
  then show ?case by simp
next
  case (Cons a args)
  have i: "i < length ps" using Cons.prems(3) by simp
  have p: "proper (ps ! i)" using Cons.prems(4) i by (simp add: list_all_length)
  obtain t st1 where e: "check_expression a sc (Some (ps ! i)) st = (t, st1)" by (cases "check_expression a sc (Some (ps ! i)) st")
  let ?st2 = "check_argument_type w nm i a (Some (ps ! i)) (t, st1)"
  let ?st3 = "check_arguments args w nm ps (i + 1) sc ?st2"
  have g: "grows st st1" using e by (rule check_expression_grows)
  have g2: "grows st1 ?st2" by (simp add: grows_intros)
  have g3: "grows ?st2 ?st3" by (simp add: grows_intros)
  have q: "ck_diagnostics ?st3 = ck_diagnostics st" using Cons.prems(2) e i by (simp add: quiet_def Let_def)
  note q1 = quiet_split [OF g grows_trans [OF g2 g3] q]
  have "ck_diagnostics ?st3 = ck_diagnostics st1" using q1(2) by (simp add: quiet_def)
  note q2 = quiet_split [OF g2 g3 this]
  have "finds st sc a (Some (ps ! i)) t"
    using soundD [OF Cons.prems(1) e q1(1) Cons.prems(5,6)] p Cons.prems(7) by simp
  moreover from this have "agrees t (ps ! i)"
    using quiet_argument_type [OF q2(1) p] quiet_finds [OF q1(1)] by simp
  ultimately have "typed_in st sc a (ps ! i)" using p by (rule finds_agrees)
  moreover have "list_all2 (typed_in ?st2 sc) args (drop (i + 1) ps)"
    using Cons.IH [OF Cons.prems(1) q2(2)] Cons.prems(3-7) quiet_frame(1) [OF q1(1)] quiet_frame(1) [OF q2(1)]
    by simp
  then have "list_all2 (typed_in st sc) args (drop (i + 1) ps)"
    using quiet_frame [OF q1(1)] quiet_frame [OF q2(1)] by simp
  ultimately show ?case using Cons_nth_drop_Suc [OF i] by (metis Suc_eq_plus1 list_all2_Cons)
qed

lemma builtin_types:
  assumes "get_compiler_builtin name = Some b"
  shows "list_all proper (cb_params b) \<and> (proper (cb_return_type b) \<or> cb_return_type b = CkVoid)"
proof -
  have "list_all (\<lambda>b. list_all proper (cb_params b) \<and> (proper (cb_return_type b) \<or> cb_return_type b = CkVoid))
      compiler_builtins"
    by (simp add: compiler_builtins_def conversion_builtin_def native_print_builtin_def)
  moreover have "b \<in> set compiler_builtins" using assms by (auto simp: get_compiler_builtin_def find_Some_iff)
  ultimately show ?thesis by (simp add: list_all_iff)
qed

lemma quiet_call:
  assumes "quiet st (snd (call_value v m sp t (check_arguments args w nm ps 0 sc (check_argument_count w2 nm2 k c sp2 st1))))"
    "grows st st1"
  shows "quiet st st1" "c = k" "quiet st1 (check_arguments args w nm ps 0 sc st1)" "v \<longrightarrow> t \<noteq> CkVoid"
    "fst (call_value v m sp t (check_arguments args w nm ps 0 sc (check_argument_count w2 nm2 k c sp2 st1))) = t"
proof -
  let ?st2 = "check_argument_count w2 nm2 k c sp2 st1"
  let ?st3 = "check_arguments args w nm ps 0 sc ?st2"
  let ?st4 = "snd (call_value v m sp t ?st3)"
  have g: "grows st1 ?st2" "grows ?st2 ?st3" "grows ?st3 ?st4" by (simp_all add: grows_intros)
  have d: "ck_diagnostics ?st4 = ck_diagnostics st" using assms(1) by (simp add: quiet_def)
  note q1 = quiet_split [OF assms(2) grows_trans [OF g(1) grows_trans [OF g(2,3)]] d]
  have d: "ck_diagnostics ?st4 = ck_diagnostics st1" using q1(2) by (simp add: quiet_def)
  note q2 = quiet_split [OF g(1) grows_trans [OF g(2,3)] d]
  have d: "ck_diagnostics ?st4 = ck_diagnostics ?st2" using q2(2) by (simp add: quiet_def)
  note q3 = quiet_split [OF g(2,3) d]
  show "quiet st st1" by (rule q1)
  show ck: "c = k" using q2(1) by (auto simp: check_argument_count_def split: if_splits)
  then have "?st2 = st1" by (simp add: check_argument_count_def)
  then show "quiet st1 (check_arguments args w nm ps 0 sc st1)" using q3(1) by simp
  show "v \<longrightarrow> t \<noteq> CkVoid" "fst (call_value v m sp t ?st3) = t"
    using q3(2) by (auto simp: call_value_def split: if_splits)
qed

lemma quiet_after_error: "quiet st (check_plain_arguments args sc (ck_error sp m st)) \<Longrightarrow> False"
proof -
  assume q: "quiet st (check_plain_arguments args sc (ck_error sp m st))"
  have "grows st (ck_error sp m st)" "grows (ck_error sp m st) (check_plain_arguments args sc (ck_error sp m st))"
    by (simp_all add: grows_intros)
  from quiet_split(1) [OF this] q have "quiet st (ck_error sp m st)" by (simp add: quiet_def)
  then show False by simp
qed

lemma call_sound:
  assumes args: "\<And>a. a \<in> set args \<Longrightarrow> sound a" and q: "quiet st (snd (check_call callee args sp sc v st))"
    and ok: "syms_ok (ck_symbols st)" "scope_ok sc" "list_all wf_expression args"
  shows "\<exists>t. fst (check_call callee args sp sc v st) = t \<and> (v \<longrightarrow> t \<noteq> CkVoid) \<and> (proper t \<or> t = CkVoid) \<and>
    call_typed (ck_symbols st) (0 < ck_unsafe_depth st) (scope_types sc) callee args t"
proof (cases "\<exists>name sp1. callee = EIdentifier name sp1")
  case False
  then have "check_call callee args sp sc v st = (CkUnknown, check_plain_arguments args sc
      (ck_error (expression_span callee) (lit ''Can only call functions by name.'') st))"
    by (cases callee) (auto simp: check_call.simps)
  then show ?thesis using q quiet_after_error by simp
next
  case True
  then obtain name sp1 where c: "callee = EIdentifier name sp1" by blast
  show ?thesis
  proof (cases "get_compiler_builtin name")
    case (Some b)
    note qc = quiet_call [OF q [unfolded c check_call.simps expression.case Some option.case] grows_refl]
    have "list_all2 (typed_in st sc) args (drop 0 (cb_params b))"
      by (rule arguments_sound [OF args qc(3)]) (use qc(2) builtin_types [OF Some] ok in simp_all)
    then have "call_typed (ck_symbols st) (0 < ck_unsafe_depth st) (scope_types sc) callee args (cb_return_type b)"
      unfolding c using Some by (intro call_builtin) simp_all
    then show ?thesis using qc(4,5) builtin_types [OF Some] by (simp add: c check_call.simps Some)
  next
    case None
    show ?thesis
    proof (cases "sym_functions (ck_symbols st) name")
      case None2: None
      show ?thesis using q quiet_after_error by (simp add: c check_call.simps None None2)
    next
      case (Some f)
      have gu: "grows st (check_unsafe_call f sp st)" by (simp add: grows_intros)
      note qc = quiet_call [OF q [unfolded c check_call.simps expression.case None Some option.case] gu]
      have u: "is_unsafe (fs_declaration f) \<longrightarrow> 0 < ck_unsafe_depth st" "check_unsafe_call f sp st = st"
        using qc(1) by (auto simp: check_unsafe_call_def split: if_splits)
      have "list_all2 (typed_in st sc) args (drop 0 (fs_params f))"
        by (rule arguments_sound [OF args qc(3) [unfolded u(2)]]) (use qc(2) ok Some in \<open>auto simp: syms_ok_def\<close>)
      then have "call_typed (ck_symbols st) (0 < ck_unsafe_depth st) (scope_types sc) callee args (fs_return_type f)"
        unfolding c using None Some u(1) by (intro call_function) simp_all
      moreover have "proper (fs_return_type f) \<or> fs_return_type f = CkVoid" using ok(1) Some by (auto simp: syms_ok_def)
      ultimately show ?thesis using qc(4,5) by (simp add: c check_call.simps None Some)
    qed
  qed
qed

text \<open>The run of two checks one after the other.\<close>

lemma quiet_chain:
  assumes "check_expression e sc ex st = (t, st1)" "grows st1 st'" "quiet st st'"
  shows "quiet st st1" "quiet st1 st'"
  using quiet_split [OF check_expression_grows [OF assms(1)] assms(2)] assms(3) by (simp_all add: quiet_def)

lemma finds_I: "proper t \<Longrightarrow> typed_in st sc e t \<Longrightarrow> finds st sc e ex t"
  by (simp add: finds_def)

lemma u32_operand:
  assumes e: "check_expression e sc (Some primitive_u32) st = (t, st1)" and s: "sound e"
    and q: "quiet st (snd (check_slice_u32_type role e (t, st1)))"
    and ok: "syms_ok (ck_symbols st)" "scope_ok sc" "wf_expression e"
  shows "typed_in st sc e primitive_u32 \<and> invalid_u32_literal e = None \<and> quiet st st1 \<and>
    quiet st (snd (check_slice_u32_type role e (t, st1)))"
proof -
  have "grows st1 (snd (check_slice_u32_type role e (t, st1)))" by (simp add: grows_intros)
  note qs = quiet_chain [OF e this q]
  have f: "finds st sc e (Some primitive_u32) t" using soundD [OF s e qs(1) ok(1,2) _ ok(3)] by simp
  then have "invalid_u32_literal e = None \<and> t = primitive_u32"
    using qs(2) finds_unknown [OF f] by (auto simp: check_slice_u32_type_def is_unknown_def split: option.splits if_splits)
  then show ?thesis using f qs(1) q by (auto simp: finds_def)
qed

lemma check_expression_EUnary:
  assumes IH: "sound operand" and c: "check_expression (EUnary op operand sp) sc ex st = (t, st')" "quiet st st'"
    and ok: "syms_ok (ck_symbols st)" "scope_ok sc" "wf_expression (EUnary op operand sp)"
  shows "finds st sc (EUnary op operand sp) ex t"
proof (cases "op = lit ''!''")
  case True
  obtain t1 st1 where e: "check_expression operand sc None st = (t1, st1)" by (cases "check_expression operand sc None st")
  have q: "quiet st (snd (check_not_operand operand (t1, st1)))" and t: "t = fst (check_not_operand operand (t1, st1))"
    using c e True by (auto simp: remember_def case_prod_unfold)
  have "grows st1 (snd (check_not_operand operand (t1, st1)))" by (simp add: grows_intros)
  note qs = quiet_chain [OF e this q]
  have f: "finds st sc operand None t1" using soundD [OF IH e qs(1) ok(1,2)] ok(3) by simp
  with quiet_not_operand [OF qs(2)] finds_unknown [OF f] t have "t = primitive_bool" "t1 = primitive_bool" by auto
  then show ?thesis using f True by (auto simp: finds_def intro: typed_not)
next
  case False
  then have op: "op = lit ''-''" using ok(3) by simp
  let ?fb = "integer_literal_fallback ex"
  obtain t1 st1 where e: "check_expression operand sc (Some ?fb) st = (t1, st1)"
    by (cases "check_expression operand sc (Some ?fb) st")
  have q: "quiet st (snd (check_negate_operand operand ?fb (t1, st1)))" and t: "t = fst (check_negate_operand operand ?fb (t1, st1))"
    using c e False by (auto simp: remember_def case_prod_unfold Let_def)
  have "grows st1 (snd (check_negate_operand operand ?fb (t1, st1)))" by (simp add: grows_intros)
  note qs = quiet_chain [OF e this q]
  have f: "finds st sc operand (Some ?fb) t1"
    using soundD [OF IH e qs(1) ok(1,2)] ok(3) integer_primitive_proper [OF fallback_integer [of ex]] by simp
  with quiet_negate_operand [OF qs(2) _ fallback_integer] finds_unknown [OF f] t
  have n: "agrees t1 t" "numeric t" by auto
  then have "typed_in st sc operand t" using finds_agrees [OF f] numeric_proper by blast
  then show ?thesis using n op by (auto intro!: finds_I typed_negate numeric_proper)
qed

lemma check_expression_EBinary:
  assumes IH: "sound l" "sound r" and c: "check_expression (EBinary op l r sp) sc ex st = (t, st')" "quiet st st'"
    and ok: "syms_ok (ck_symbols st)" "scope_ok sc" "wf_expression (EBinary op l r sp)"
  shows "finds st sc (EBinary op l r sp) ex t"
proof -
  obtain lt st1 where l: "check_expression l sc None st = (lt, st1)" by (cases "check_expression l sc None st")
  obtain rt st2 where r: "check_expression r sc None st1 = (rt, st2)" by (cases "check_expression r sc None st1")
  let ?c = "check_binary_types op l r sp ex lt rt st2"
  have q: "quiet st (snd ?c)" and t: "t = fst ?c" using c l r ok(3) by (auto simp: remember_def case_prod_unfold)
  have g: "grows st2 (snd ?c)" by (simp add: grows_intros)
  note q1 = quiet_chain [OF l grows_trans [OF check_expression_grows [OF r] g] q]
  note q2 = quiet_chain [OF r g q1(2)]
  have fl: "finds st sc l None lt" using soundD [OF IH(1) l q1(1) ok(1,2)] ok(3) by simp
  have "finds st1 sc r None rt"
    using soundD [OF IH(2) r q2(1)] ok quiet_frame(1) [OF q1(1)] by simp
  then have fr: "finds st sc r None rt" by (simp add: quiet_finds [OF q1(1)])
  note ne = finds_unknown [OF fl] finds_unknown [OF fr]
  show ?thesis
  proof (cases "is_arithmetic_operator op")
    case True
    then have qa: "quiet st2 (snd (check_arithmetic_types op l r sp ex lt rt st2))"
        and ta: "t = fst (check_arithmetic_types op l r sp ex lt rt st2)"
      using q2(2) t by (simp_all add: check_binary_types_def)
    from quiet_arithmetic_types [OF qa] ne ta
    have "agrees lt t" "agrees rt t" "numeric t" "op \<noteq> lit ''%'' \<or> t \<noteq> primitive_f64" by auto
    then show ?thesis
      using True finds_agrees [OF fl] finds_agrees [OF fr] by (intro finds_I typed_arithmetic) (auto intro: numeric_proper)
  next
    case na: False
    show ?thesis
    proof (cases "is_comparison_operator op")
      case True
      then have qa: "quiet st2 (snd (check_comparison_types op l r sp lt rt st2))" and ta: "t = primitive_bool"
        using q2(2) t na by (auto simp: check_binary_types_def check_comparison_types_def Let_def)
      from quiet_comparison_types [OF qa] ne
      obtain T where T: "agrees lt T" "agrees rt T" "T \<noteq> CkIntegerLiteral"
        "numeric T \<or> op \<in> {lit ''=='', lit ''!=''} \<and> \<not> is_slice T" by auto
      have "proper T" using T(1,3) fl by (auto simp: agrees_def finds_def intro: integer_primitive_proper)
      then have "typed_in st sc (EBinary op l r sp) primitive_bool"
        using True T finds_agrees [OF fl T(1)] finds_agrees [OF fr T(2)] by (intro typed_comparison) auto
      then show ?thesis by (simp add: finds_def ta)
    next
      case False
      then have "is_logical_operator op" using ok(3) na by simp
      moreover have "quiet st2 (snd (check_logical_types op l r lt rt st2))" "t = primitive_bool"
        using q2(2) t na False by (auto simp: check_binary_types_def check_logical_types_def)
      moreover from quiet_logical_types [OF this(1)] ne have "lt = primitive_bool" "rt = primitive_bool" by auto
      ultimately show ?thesis using fl fr by (auto simp: finds_def intro: typed_logical)
    qed
  qed
qed

lemma check_expression_EField:
  assumes IH: "sound e" and c: "check_expression (EField e f sp) sc ex st = (t, st')" "quiet st st'"
    and ok: "syms_ok (ck_symbols st)" "scope_ok sc" "wf_expression (EField e f sp)"
  shows "finds st sc (EField e f sp) ex t"
proof -
  obtain t1 st1 where e: "check_expression e sc None st = (t1, st1)" by (cases "check_expression e sc None st")
  let ?c = "check_field_type e f (t1, st1)"
  have q: "quiet st (snd ?c)" and t: "t = fst ?c" using c e by (auto simp: remember_def case_prod_unfold)
  have "grows st1 (snd ?c)" by (simp add: grows_intros)
  note qs = quiet_chain [OF e this q]
  have fe: "finds st sc e None t1" using soundD [OF IH e qs(1) ok(1,2)] ok(3) by simp
  have syms: "ck_symbols st1 = ck_symbols st" using quiet_frame(1) [OF qs(1)] .
  show ?thesis
  proof (cases t1)
    case (CkSlice el)
    then have p: "proper el" "typed_in st sc e (CkSlice el)" using fe by (auto simp: finds_def)
    have "id_name f = lit ''data'' \<and> t = CkPointer el \<or> id_name f = lit ''len'' \<and> t = primitive_u32"
      using qs(2) t CkSlice by (auto simp: check_field_type_def split: if_splits)
    then show ?thesis using p by (auto simp: finds_def intro: typed_data typed_len)
  next
    case (CkStruct n)
    then have p: "typed_in st sc e (CkStruct n)" using fe by (auto simp: finds_def)
    obtain s where s: "sym_structs (ck_symbols st) n = Some s" "ss_fields s (id_name f) = Some t"
      using qs(2) t CkStruct syms by (auto simp: check_field_type_def split: option.splits bind_splits)
    then have "proper t" using ok(1) by (auto simp: syms_ok_def)
    then show ?thesis using p s by (auto simp: finds_def intro: typed_field)
  qed (use qs(2) t finds_unknown [OF fe] in \<open>auto simp: check_field_type_def is_unknown_def\<close>)
qed

lemma check_expression_EIndex:
  assumes IH: "sound e" "sound i" and c: "check_expression (EIndex e i sp) sc ex st = (t, st')" "quiet st st'"
    and ok: "syms_ok (ck_symbols st)" "scope_ok sc" "wf_expression (EIndex e i sp)"
  shows "finds st sc (EIndex e i sp) ex t"
proof -
  obtain t1 st1 where e: "check_expression e sc None st = (t1, st1)" by (cases "check_expression e sc None st")
  obtain t2 st2 where i: "check_expression i sc (Some primitive_u32) st1 = (t2, st2)"
    by (cases "check_expression i sc (Some primitive_u32) st1")
  obtain t3 st3 where j: "check_expression i sc None st1 = (t3, st3)" by (cases "check_expression i sc None st1")
  have wf: "wf_expression e" "wf_expression i" using ok(3) by simp_all
  have first: "quiet st st1 \<and> finds st sc e None t1 \<and> quiet st1 s" if "grows st1 s" "quiet st s" for s
  proof -
    note qs = quiet_chain [OF e that]
    show ?thesis using soundD [OF IH(1) e qs(1) ok(1,2) _ wf(1)] qs by simp
  qed
  show ?thesis
  proof (cases t1)
    case (CkSlice el)
    let ?c = "check_slice_u32_type (lit ''index'') i (t2, st2)"
    have q: "quiet st (snd ?c)" and t: "t = el" using c e i CkSlice by (auto simp: remember_def case_prod_unfold)
    have "grows st1 (snd ?c)" using check_expression_grows [OF i] by (simp add: grows_intros)
    from first [OF this q] have f: "quiet st st1" "finds st sc e None t1" "quiet st1 (snd ?c)" by simp_all
    have "typed_in st1 sc i primitive_u32 \<and> invalid_u32_literal i = None"
      using u32_operand [OF i IH(2) f(3)] ok wf quiet_frame(1) [OF f(1)] by simp
    then show ?thesis
      using f(2) CkSlice by (auto simp: finds_def t quiet_typed_in [OF f(1)] intro: typed_slice_index)
  next
    case (CkPointer el)
    let ?s = "check_pointer_index i (t3, st3)"
    have q: "quiet st ?s" and t: "t = el" using c e j CkPointer by (auto simp: remember_def case_prod_unfold)
    have "grows st1 ?s" using check_expression_grows [OF j] by (simp add: grows_intros)
    from first [OF this q] have f: "quiet st st1" "finds st sc e None t1" "quiet st1 ?s" by simp_all
    have "grows st3 ?s" by (simp add: grows_intros)
    note qs = quiet_chain [OF j this f(3)]
    have fi: "finds st1 sc i None t3"
      using soundD [OF IH(2) j qs(1)] ok wf quiet_frame(1) [OF f(1)] by simp
    have "materialize_integer_literal t3 primitive_i32 \<in> {primitive_i32, primitive_u32}"
      using qs(2) finds_unknown [OF fi]
      by (auto simp: check_pointer_index_def Let_def type_defs split: if_splits)
    then obtain T where "agrees t3 T" "T \<in> {primitive_i32, primitive_u32}"
      by (auto simp: agrees_def type_defs split: if_splits)
    then have "typed_in st sc i T" "T \<in> {primitive_i32, primitive_u32}"
      using finds_agrees [OF fi] quiet_typed_in [OF f(1)] by auto
    then show ?thesis using f(2) CkPointer by (auto simp: finds_def t intro: typed_pointer_index)
  qed (use c e j first [of "check_indexed_object e t1 st3"] check_expression_grows [OF j] in
      \<open>auto simp: remember_def check_indexed_object_def is_unknown_def grows_intros not_quiet
         dest: finds_unknown grows_error\<close>)
qed

lemma check_expression_ESubslice:
  assumes IH: "sound e" "sound i" "sound j"
    and c: "check_expression (ESubslice e i j sp) sc ex st = (t, st')" "quiet st st'"
    and ok: "syms_ok (ck_symbols st)" "scope_ok sc" "wf_expression (ESubslice e i j sp)"
  shows "finds st sc (ESubslice e i j sp) ex t"
proof -
  obtain t1 st1 where e: "check_expression e sc None st = (t1, st1)" by (cases "check_expression e sc None st")
  obtain t2 st2 where i: "check_expression i sc (Some primitive_u32) st1 = (t2, st2)"
    by (cases "check_expression i sc (Some primitive_u32) st1")
  let ?ci = "check_slice_u32_type (lit ''start'') i (t2, st2)"
  obtain t3 st3 where j: "check_expression j sc (Some primitive_u32) (snd ?ci) = (t3, st3)"
    by (cases "check_expression j sc (Some primitive_u32) (snd ?ci)")
  let ?cj = "check_slice_u32_type (lit ''end'') j (t3, st3)"
  let ?c = "check_subsliced e t1 (snd ?cj)"
  have q: "quiet st (snd ?c)" and t: "t = fst ?c" using c e i j by (auto simp: remember_def case_prod_unfold)
  have g3: "grows (snd ?cj) (snd ?c)" "grows (snd ?ci) (snd ?cj)" "grows st1 (snd ?ci)"
    using check_expression_grows [OF i] check_expression_grows [OF j] by (simp_all add: grows_intros)
  note q1 = quiet_chain [OF e grows_trans [OF g3(3) grows_trans [OF g3(2,1)]] q]
  have d: "ck_diagnostics (snd ?c) = ck_diagnostics st1" using q1(2) by (simp add: quiet_def)
  note q2 = quiet_split [OF g3(3) grows_trans [OF g3(2,1)] d]
  have d: "ck_diagnostics (snd ?c) = ck_diagnostics (snd ?ci)" using q2(2) by (simp add: quiet_def)
  note q3 = quiet_split [OF g3(2,1) d]
  have wf: "wf_expression e" "wf_expression i" "wf_expression j" using ok(3) by simp_all
  have fe: "finds st sc e None t1" using soundD [OF IH(1) e q1(1) ok(1,2) _ wf(1)] by simp
  have ui: "typed_in st1 sc i primitive_u32 \<and> invalid_u32_literal i = None"
    using u32_operand [OF i IH(2) q2(1)] ok wf quiet_frame(1) [OF q1(1)] by simp
  have uj: "typed_in (snd ?ci) sc j primitive_u32 \<and> invalid_u32_literal j = None"
    using u32_operand [OF j IH(3) q3(1)] ok wf quiet_frame(1) [OF q1(1)] quiet_frame(1) [OF q2(1)] by simp
  have "is_slice t1" "t = t1"
    using q3(2) t finds_unknown [OF fe] by (auto simp: check_subsliced_def is_unknown_def split: if_splits)
  then obtain el where "t1 = CkSlice el" "t = CkSlice el" by (cases t1) auto
  then show ?thesis
    using fe ui uj quiet_typed_in [OF q1(1)] quiet_typed_in [OF q2(1)] by (auto simp: finds_def intro: typed_subslice)
qed

lemma check_expression_ESliceConstructor:
  assumes IH: "sound d" "sound n"
    and c: "check_expression (ESliceConstructor d n sp) sc ex st = (t, st')" "quiet st st'"
    and ok: "syms_ok (ck_symbols st)" "scope_ok sc" "wf_expression (ESliceConstructor d n sp)"
  shows "finds st sc (ESliceConstructor d n sp) ex t"
proof -
  obtain t1 st1 where e: "check_expression d sc None st = (t1, st1)" by (cases "check_expression d sc None st")
  let ?cd = "check_slice_data d (t1, st1)"
  obtain t2 st2 where i: "check_expression n sc (Some primitive_u32) (snd ?cd) = (t2, st2)"
    by (cases "check_expression n sc (Some primitive_u32) (snd ?cd)")
  let ?c = "check_slice_u32_type (lit ''length'') n (t2, st2)"
  have q: "quiet st (snd ?c)" and t: "t = (if is_unknown (fst ?cd) then CkUnknown else CkSlice (fst ?cd))"
    using c e i by (auto simp: remember_def case_prod_unfold Let_def split: if_splits)
  have g: "grows (snd ?cd) (snd ?c)" "grows st1 (snd ?cd)"
    using check_expression_grows [OF i] by (simp_all add: grows_intros)
  note q1 = quiet_chain [OF e grows_trans [OF g(2,1)] q]
  have d: "ck_diagnostics (snd ?c) = ck_diagnostics st1" using q1(2) by (simp add: quiet_def)
  note q2 = quiet_split [OF g(2,1) d]
  have wf: "wf_expression d" "wf_expression n" using ok(3) by simp_all
  have fe: "finds st sc d None t1" using soundD [OF IH(1) e q1(1) ok(1,2) _ wf(1)] by simp
  obtain el where el: "t1 = CkPointer el" "fst ?cd = el"
    using q2(1) finds_unknown [OF fe] by (cases t1) (auto simp: check_slice_data_def)
  then have p: "proper el" "typed_in st sc d (CkPointer el)" using fe by (auto simp: finds_def)
  then have "t = CkSlice el" using t el(2) by (auto simp: is_unknown_def)
  moreover have "typed_in (snd ?cd) sc n primitive_u32 \<and> invalid_u32_literal n = None"
    using u32_operand [OF i IH(2) q2(2)] ok wf quiet_frame(1) [OF q1(1)] quiet_frame(1) [OF q2(1)] by simp
  ultimately show ?thesis
    using p quiet_typed_in [OF q1(1)] quiet_typed_in [OF q2(1)] by (auto simp: finds_def intro: typed_slice)
qed

lemma expression_sound: "sound e"
proof (induction e)
  case (EIdentifier name sp)
  show ?case
    unfolding sound_def
    by (auto simp: remember_def check_variable_def finds_def scope_ok_def scope_types_def
      split: option.splits intro: typed_variable)
next
  case (EIntegerLiteral tx sp)
  show ?case
    unfolding sound_def
    by (auto simp: remember_def integer_literal_type_def finds_def is_integer_def split: option.splits if_splits
      intro: typed_integer)
next
  case (EUnary op e sp)
  show ?case by (rule soundI, rule check_expression_EUnary [OF EUnary.IH], assumption+)
next
  case (EBinary op l r sp)
  show ?case by (rule soundI, rule check_expression_EBinary [OF EBinary.IH], assumption+)
next
  case (ECall callee args sp)
  show ?case
    unfolding sound_def
  proof (intro allI impI)
    fix sc ex st t st'
    assume a: "check_expression (ECall callee args sp) sc ex st = (t, st')" "quiet st st'" "syms_ok (ck_symbols st)"
      "scope_ok sc" "\<forall>x. ex = Some x \<longrightarrow> proper x" "wf_expression (ECall callee args sp)"
    have "quiet st (snd (check_call callee args sp sc True st))" "t = fst (check_call callee args sp sc True st)"
      using a(1,2) by (auto simp: remember_def case_prod_unfold)
    from call_sound [OF ECall.IH(2) this(1) a(3,4)] a(6) this(2)
    show "finds st sc (ECall callee args sp) ex t" by (auto simp: finds_def intro: typed_call)
  qed
next
  case (ESliceConstructor d n sp)
  show ?case by (rule soundI, rule check_expression_ESliceConstructor [OF ESliceConstructor.IH], assumption+)
next
  case (EField e f sp)
  show ?case by (rule soundI, rule check_expression_EField [OF EField.IH], assumption+)
next
  case (EIndex e i sp)
  show ?case by (rule soundI, rule check_expression_EIndex [OF EIndex.IH], assumption+)
next
  case (ESubslice e i j sp)
  show ?case by (rule soundI, rule check_expression_ESubslice [OF ESubslice.IH], assumption+)
next
  case (EParenthesized e sp)
  show ?case
    unfolding sound_def
  proof (intro allI impI)
    fix sc ex st t st'
    assume a: "check_expression (EParenthesized e sp) sc ex st = (t, st')" "quiet st st'" "syms_ok (ck_symbols st)"
      "scope_ok sc" "\<forall>x. ex = Some x \<longrightarrow> proper x" "wf_expression (EParenthesized e sp)"
    obtain t1 st1 where e: "check_expression e sc ex st = (t1, st1)" by (cases "check_expression e sc ex st")
    with a(1,2) have "quiet st st1" "t1 = t" by (auto simp: remember_def)
    with soundD [OF EParenthesized.IH e _ a(3,4)] a(5,6) have "finds st sc e ex t" by simp
    then show "finds st sc (EParenthesized e sp) ex t" by (auto simp: finds_def intro: typed_parenthesized)
  qed
qed (auto simp: sound_def finds_def remember_def intro: typed_float typed_bool)

end
