(* ===== verification/Typeck_Flow.thy ===== *)
theory Typeck_Flow
  imports Typeck_Sound
begin

text \<open>
  Statements: their typing, the ways a run of them can end, and the proof that a check that
  reports nothing has established both.
\<close>

section \<open>Types of the source\<close>

inductive node_typed :: "symbol_table \<Rightarrow> type_use_context \<Rightarrow> type_node \<Rightarrow> ck_type \<Rightarrow> bool" for syms where
  node_primitive: "primitive_type_from_str name = t \<Longrightarrow> t \<noteq> CkUnknown \<Longrightarrow> node_typed syms cx (TypePrimitive name sp) t"
| node_void: "node_typed syms UseFunctionReturn (TypeVoid sp) CkVoid"
| node_pointer: "node_typed syms UsePointerElement n t \<Longrightarrow> node_typed syms cx (TypePointer n sp) (CkPointer t)"
| node_slice: "node_typed syms UseSliceElement n t \<Longrightarrow> is_valid_slice_element t \<Longrightarrow>
    node_typed syms cx (TypeSlice n sp) (CkSlice t)"
| node_struct: "sym_structs syms (id_name i) \<noteq> None \<Longrightarrow> node_typed syms cx (TypeNamed i sp) (CkStruct (id_name i))"

fun wf_type :: "type_node \<Rightarrow> bool" where
  "wf_type (TypePrimitive name _) \<longleftrightarrow> primitive_type_from_str name \<noteq> CkUnknown"
| "wf_type (TypePointer n _) \<longleftrightarrow> wf_type n"
| "wf_type (TypeSlice n _) \<longleftrightarrow> wf_type n"
| "wf_type (TypeError _) \<longleftrightarrow> False"
| "wf_type _ \<longleftrightarrow> True"

lemma primitive_type_cases: "primitive_type_from_str name \<noteq> CkUnknown \<Longrightarrow> \<exists>p. primitive_type_from_str name = CkPrimitive p"
  by (auto simp: primitive_type_from_str_def split: if_splits)

lemma resolve_sound:
  "resolve_type node cx st = (t, st') \<Longrightarrow> quiet st st' \<Longrightarrow> wf_type node \<Longrightarrow>
   node_typed (ck_symbols st) cx node t \<and> (proper t \<or> t = CkVoid \<and> cx = UseFunctionReturn)"
proof (induction node cx st arbitrary: t st' rule: resolve_type.induct)
  case (1 name sp cx st)
  then show ?case using primitive_type_cases [of name] by (auto intro: node_primitive)
next
  case (2 sp cx st)
  then show ?case by (auto split: if_splits intro: node_void)
next
  case (3 element sp cx st)
  obtain t1 st1 where e: "resolve_type element UsePointerElement st = (t1, st1)" by (cases "resolve_type element UsePointerElement st")
  then show ?case using 3 by (auto intro: node_pointer)
next
  case (4 element sp cx st)
  obtain t1 st1 where e: "resolve_type element UseSliceElement st = (t1, st1)" by (cases "resolve_type element UseSliceElement st")
  have g: "grows st st1" using resolve_type_grows [of st element UseSliceElement] e by simp
  have n: "\<not> is_void_node element" "\<not> is_slice_node element" using 4(2,3) by (auto split: if_splits)
  then have q: "quiet st st1" "is_unknown t1 \<or> is_valid_slice_element t1 \<and> t = CkSlice t1"
    using 4(2,3) e not_quiet(1) [OF g] by (auto split: if_splits)
  have p: "node_typed (ck_symbols st) UseSliceElement element t1 \<and> proper t1"
    using 4(1) [OF n e q(1)] 4(4) by simp
  then have "is_valid_slice_element t1" "t = CkSlice t1" using q(2) by (auto simp: is_unknown_def)
  then show ?case using p by (auto intro: node_slice)
next
  case (5 name sp cx st)
  then show ?case by (auto split: if_splits intro: node_struct)
next
  case (6 sp cx st)
  then show ?case by simp
qed

section \<open>Statements\<close>

inductive statement_typed :: "symbol_table \<Rightarrow> ck_type \<Rightarrow> bool \<Rightarrow> bool \<Rightarrow> scope \<Rightarrow> statement \<Rightarrow> scope \<Rightarrow> bool"
  and statements_typed :: "symbol_table \<Rightarrow> ck_type \<Rightarrow> bool \<Rightarrow> bool \<Rightarrow> scope \<Rightarrow> statement list \<Rightarrow> scope \<Rightarrow> bool"
  for syms rt where
  typed_block: "statements_typed syms rt u l (scope_push sc) ss sc' \<Longrightarrow>
    statement_typed syms rt u l sc (StBlock (BlockStatement ss sp)) sc"
| typed_unsafe: "statements_typed syms rt True l (scope_push sc) ss sc' \<Longrightarrow>
    statement_typed syms rt u l sc (StUnsafe (BlockStatement ss sp) sp2) sc"
| typed_let: "node_typed syms UseLocal node t \<Longrightarrow>
    scope_declare \<lparr>var_name = id_name i, var_type = t\<rparr> sc = (True, sc') \<Longrightarrow>
    typed syms u (scope_types sc') e t \<Longrightarrow> statement_typed syms rt u l sc (StLet i node e sp) sc'"
| typed_assignment: "is_assignable_expression x \<Longrightarrow> typed syms u (scope_types sc) x t \<Longrightarrow>
    typed syms u (scope_types sc) v t \<Longrightarrow> statement_typed syms rt u l sc (StAssignment x v sp) sc"
| typed_call_statement: "call_typed syms u (scope_types sc) callee args CkVoid \<Longrightarrow>
    statement_typed syms rt u l sc (StCall (ECall callee args sp2) sp) sc"
| typed_return_void: "rt = CkVoid \<Longrightarrow> statement_typed syms rt u l sc (StReturn None sp) sc"
| typed_return: "rt \<noteq> CkVoid \<Longrightarrow> typed syms u (scope_types sc) e rt \<Longrightarrow>
    statement_typed syms rt u l sc (StReturn (Some e) sp) sc"
| typed_break: "statement_typed syms rt u True sc (StBreak sp) sc"
| typed_continue: "statement_typed syms rt u True sc (StContinue sp) sc"
| typed_if: "typed syms u (scope_types sc) c primitive_bool \<Longrightarrow>
    statement_typed syms rt u l sc (StBlock b) sc \<Longrightarrow> statement_typed syms rt u l sc (StIf c b None sp) sc"
| typed_if_else: "typed syms u (scope_types sc) c primitive_bool \<Longrightarrow>
    statement_typed syms rt u l sc (StBlock b) sc \<Longrightarrow> statement_typed syms rt u l sc (StBlock b2) sc \<Longrightarrow>
    statement_typed syms rt u l sc (StIf c b (Some b2) sp) sc"
| typed_while: "typed syms u (scope_types sc) c primitive_bool \<Longrightarrow>
    statement_typed syms rt u True sc (StBlock b) sc \<Longrightarrow> statement_typed syms rt u l sc (StWhile c b sp) sc"
| typed_none: "statements_typed syms rt u l sc [] sc"
| typed_more: "statement_typed syms rt u l sc s sc1 \<Longrightarrow> statements_typed syms rt u l sc1 ss sc2 \<Longrightarrow>
    statements_typed syms rt u l sc (s # ss) sc2"

section \<open>Paths\<close>

text \<open>The ways a run of a statement can end, whatever its conditions evaluate to.\<close>

datatype outcome = Falls | Returns | Breaks | Continues

inductive runs :: "statement \<Rightarrow> outcome \<Rightarrow> bool" and runs_all :: "statement list \<Rightarrow> outcome \<Rightarrow> bool" where
  runs_block: "runs_all ss r \<Longrightarrow> runs (StBlock (BlockStatement ss sp)) r"
| runs_unsafe: "runs_all ss r \<Longrightarrow> runs (StUnsafe (BlockStatement ss sp) sp2) r"
| runs_let: "runs (StLet i n e sp) Falls"
| runs_assignment: "runs (StAssignment x v sp) Falls"
| runs_call: "runs (StCall e sp) Falls"
| runs_return: "runs (StReturn v sp) Returns"
| runs_break: "runs (StBreak sp) Breaks"
| runs_continue: "runs (StContinue sp) Continues"
| runs_if_then: "runs (StBlock b) r \<Longrightarrow> runs (StIf c b el sp) r"
| runs_if_else: "runs (StBlock b2) r \<Longrightarrow> runs (StIf c b (Some b2) sp) r"
| runs_if_none: "runs (StIf c b None sp) Falls"
| runs_while_skip: "runs (StWhile c b sp) Falls"
| runs_while_break: "runs (StBlock b) Breaks \<Longrightarrow> runs (StWhile c b sp) Falls"
| runs_while_return: "runs (StBlock b) Returns \<Longrightarrow> runs (StWhile c b sp) Returns"
| runs_while_again: "runs (StBlock b) Falls \<or> runs (StBlock b) Continues \<Longrightarrow> runs (StWhile c b sp) r \<Longrightarrow>
    runs (StWhile c b sp) r"
| runs_none: "runs_all [] Falls"
| runs_stop: "runs s r \<Longrightarrow> r \<noteq> Falls \<Longrightarrow> runs_all (s # ss) r"
| runs_more: "runs s Falls \<Longrightarrow> runs_all ss r \<Longrightarrow> runs_all (s # ss) r"

fun flow_has :: "flow_summary \<Rightarrow> outcome \<Rightarrow> bool" where
  "flow_has flow Falls = falls_through flow"
| "flow_has flow Returns = returns flow"
| "flow_has flow Breaks = breaks flow"
| "flow_has flow Continues = continues flow"

lemma flow_has_simps [simp]:
  "flow_has flow_falls_through r \<longleftrightarrow> r = Falls" "flow_has flow_returns r \<longleftrightarrow> r = Returns"
  "flow_has flow_breaks r \<longleftrightarrow> r = Breaks" "flow_has flow_continues r \<longleftrightarrow> r = Continues"
  "flow_has (flow_union a b) r \<longleftrightarrow> flow_has a r \<or> flow_has b r"
  "flow_has (flow_then a b) r \<longleftrightarrow> (r \<noteq> Falls \<and> flow_has a r) \<or> flow_has b r"
  "flow_has (flow_loop a) r \<longleftrightarrow> r = Falls \<or> r = Returns \<and> flow_has a Returns"
  by (cases r; simp add: flow_falls_through_def flow_returns_def flow_breaks_def flow_continues_def flow_union_def
    flow_then_def flow_loop_def)+

declare flow_has.simps [simp del]

inductive_simps runs_simps [simp]:
  "runs (StBlock (BlockStatement ss sp)) r" "runs (StUnsafe (BlockStatement ss sp) sp2) r"
  "runs (StLet i n e sp) r" "runs (StAssignment x v sp) r" "runs (StCall e sp) r" "runs (StReturn v sp) r"
  "runs (StBreak sp) r" "runs (StContinue sp) r" "runs (StIf c b None sp) r" "runs (StIf c b (Some b2) sp) r"
  "runs_all [] r" "runs_all (s # ss) r"

lemma runs_while [simp]: "runs (StWhile c b sp) r \<longleftrightarrow> r = Falls \<or> r = Returns \<and> runs (StBlock b) Returns"
proof
  assume "runs (StWhile c b sp) r"
  then show "r = Falls \<or> r = Returns \<and> runs (StBlock b) Returns"
    by (induction "StWhile c b sp" r rule: runs_runs_all.inducts(1)) auto
qed (auto intro: runs_while_skip runs_while_return)

section \<open>The frame of the statements\<close>

lemma grows_enter_unsafe: "grows (enter_unsafe st) st1 \<Longrightarrow> grows st (leave_unsafe st1)"
  by (auto simp: grows_def enter_unsafe_def leave_unsafe_def)

lemma grows_enter_loop: "grows (enter_loop st) st1 \<Longrightarrow> grows st (leave_loop st1)"
  by (auto simp: grows_def enter_loop_def leave_loop_def)

lemma grows_simple_statements [grows_intros]:
  "grows s (snd x) \<Longrightarrow> grows s (snd (declare_variable n t sp x))"
  "grows s st \<Longrightarrow> grows s (check_assignable e a b m st)"
  "grows s st \<Longrightarrow> grows s (check_read_only e st)"
  "grows s st \<Longrightarrow> grows s (snd (check_jump sp msg fl st))"
  "grows s st \<Longrightarrow> grows s (check_condition w e sc st)"
  by (simp_all add: declare_variable_def check_assignable_def check_read_only_def check_jump_def check_condition_def
    Let_def case_prod_unfold grows_intros split: expression.split)

lemma grows_statements [grows_intros]:
  "grows s st \<Longrightarrow> grows s (snd (check_let_statement i n e sp sc st))"
  "grows s st \<Longrightarrow> grows s (check_assignment_statement x v sc st)"
  "grows s st \<Longrightarrow> grows s (check_return_statement r sp sc rt st)"
  "grows s st \<Longrightarrow> grows s (check_call_statement e sc st)"
  by (simp_all add: check_let_statement_def check_assignment_statement_def check_return_statement_def
    check_call_statement_def Let_def case_prod_unfold grows_intros split: option.split expression.split)

text \<open>A statement changes the innermost frame of the scope only.\<close>

definition same_outer :: "scope \<Rightarrow> scope \<Rightarrow> bool" where
  "same_outer sc sc' \<longleftrightarrow> (\<forall>f fs. sc = f # fs \<longrightarrow> (\<exists>f'. sc' = f' # fs))"

lemma same_outer_refl [simp]: "same_outer sc sc"
  by (simp add: same_outer_def)

lemma same_outer_trans: "same_outer sc sc1 \<Longrightarrow> same_outer sc1 sc2 \<Longrightarrow> same_outer sc sc2"
  by (auto simp: same_outer_def)

lemma same_outer_pop: "same_outer (scope_push sc) sc' \<Longrightarrow> scope_pop sc' = sc"
  by (auto simp: same_outer_def scope_push_def scope_pop_def)

lemma same_outer_declare: "same_outer sc (snd (scope_declare v sc))"
  by (auto simp: same_outer_def scope_declare_def)

lemma same_outer_let: "same_outer sc (fst (check_let_statement i n e sp sc st))"
  using same_outer_declare by (simp add: check_let_statement_def declare_variable_def Let_def case_prod_unfold)

declare check_scoped_block.simps [simp del]

definition framed :: "scope \<Rightarrow> checker \<Rightarrow> flow_summary \<times> scope \<times> checker \<Rightarrow> bool" where
  "framed sc st r \<longleftrightarrow> (case r of (flow, sc', st') \<Rightarrow> grows st st' \<and> same_outer sc sc')"

lemma statements_framed:
  assumes "\<And>s sc rt st. s \<in> set ss \<Longrightarrow> framed sc st (check_statement s sc rt st)"
  shows "framed sc st (check_statements ss flow sc rt st)"
  using assms
proof (induction ss arbitrary: flow sc st)
  case Nil
  then show ?case by (simp add: framed_def grows_refl)
next
  case (Cons s ss)
  have tail: "framed sc1 st1 (check_statements ss fl sc1 rt st1)" for fl sc1 st1
    using Cons.IH Cons.prems by simp
  have step: "framed sc st (check_statement s sc rt st)" using Cons.prems by simp
  show ?case
  proof (cases "falls_through flow")
    case True
    obtain fl sc1 st1 where 1: "check_statement s sc rt st = (fl, sc1, st1)" by (cases "check_statement s sc rt st")
    show ?thesis
      using True 1 step tail [of sc1 st1 "flow_then flow fl"]
      by (auto simp: framed_def intro: grows_trans same_outer_trans)
  next
    case False
    let ?st1 = "ck_error_with_code (statement_span s) Ck2010 (lit ''Unreachable statement.'') st"
    have "grows st ?st1" by (simp add: grows_intros)
    then show ?thesis using False tail [of sc ?st1 flow] by (auto simp: framed_def intro: grows_trans)
  qed
qed

lemma framed_block:
  assumes "framed (scope_push sc) st (check_statements ss flow_falls_through (scope_push sc) rt st)"
  shows "framed sc st (check_scoped_block (BlockStatement ss sp) sc rt st) \<and>
    fst (snd (check_scoped_block (BlockStatement ss sp) sc rt st)) = sc"
  using assms same_outer_pop by (auto simp: framed_def check_scoped_block.simps)

lemma check_statement_framed:
  "framed sc st (check_statement s sc rt st)"
  "framed sc st (check_scoped_block b sc rt st) \<and> fst (snd (check_scoped_block b sc rt st)) = sc"
proof (induction s and b arbitrary: sc st rt and sc st rt rule: statement.induct block_statement.induct)
  case (BlockStatement ss sp)
  show ?case by (rule framed_block, rule statements_framed) (use BlockStatement in blast)
next
  case (StUnsafe b sp)
  obtain fl sc1 st1 where 1: "check_scoped_block b sc rt (enter_unsafe st) = (fl, sc1, st1)"
    by (cases "check_scoped_block b sc rt (enter_unsafe st)")
  have "grows (enter_unsafe st) st1" "sc1 = sc" using StUnsafe [of sc "enter_unsafe st" rt] 1 by (auto simp: framed_def)
  then show ?case using 1 by (auto simp: framed_def dest: grows_enter_unsafe)
next
  case (StIf c b el sp)
  let ?st1 = "check_condition ''If'' c sc st"
  obtain fl sc1 st1 where 1: "check_scoped_block b sc rt ?st1 = (fl, sc1, st1)" by (cases "check_scoped_block b sc rt ?st1")
  have g: "grows st ?st1" by (simp add: grows_intros)
  have b: "grows ?st1 st1" "sc1 = sc" using StIf(1) [of sc ?st1 rt] 1 by (auto simp: framed_def)
  show ?case
  proof (cases el)
    case None
    then show ?thesis using 1 b g by (auto simp: framed_def intro: grows_trans)
  next
    case (Some b2)
    obtain fl2 sc2 st2 where 2: "check_scoped_block b2 sc rt st1 = (fl2, sc2, st2)" by (cases "check_scoped_block b2 sc rt st1")
    have "grows st1 st2" "sc2 = sc" using StIf(2) [of b2 sc st1 rt] Some 2 by (auto simp: framed_def)
    then show ?thesis using 1 2 b g Some by (auto simp: framed_def intro: grows_trans)
  qed
next
  case (StWhile c b sp)
  let ?st1 = "check_condition ''While'' c sc st"
  obtain fl sc1 st1 where 1: "check_scoped_block b sc rt (enter_loop ?st1) = (fl, sc1, st1)"
    by (cases "check_scoped_block b sc rt (enter_loop ?st1)")
  have "grows st ?st1" by (simp add: grows_intros)
  moreover have "grows (enter_loop ?st1) st1" "sc1 = sc" using StWhile(1) [of sc "enter_loop ?st1" rt] 1 by (auto simp: framed_def)
  ultimately show ?case using 1 by (auto simp: framed_def intro: grows_trans dest: grows_enter_loop)
next
  case (StLet i n e sp)
  then show ?case using grows_statements(1) [OF grows_refl] same_outer_let by (simp add: framed_def case_prod_unfold)
qed (auto simp: framed_def case_prod_unfold Let_def grows_intros)

section \<open>Soundness\<close>

text \<open>
  The statements the parser makes: well-formed types and expressions, calls that are calls, no
  place-holder of an error.
\<close>

fun wf_statement :: "statement \<Rightarrow> bool" and wf_block :: "block_statement \<Rightarrow> bool" where
  "wf_statement (StBlock b) \<longleftrightarrow> wf_block b"
| "wf_statement (StUnsafe b _) \<longleftrightarrow> wf_block b"
| "wf_statement (StLet _ n e _) \<longleftrightarrow> wf_type n \<and> wf_expression e"
| "wf_statement (StAssignment x v _) \<longleftrightarrow> wf_expression x \<and> wf_expression v"
| "wf_statement (StCall e _) \<longleftrightarrow> wf_expression e"
| "wf_statement (StReturn v _) \<longleftrightarrow> pred_option wf_expression v"
| "wf_statement (StIf c b el _) \<longleftrightarrow> wf_expression c \<and> wf_block b \<and> (case el of None \<Rightarrow> True | Some b2 \<Rightarrow> wf_block b2)"
| "wf_statement (StWhile c b _) \<longleftrightarrow> wf_expression c \<and> wf_block b"
| "wf_statement (StError _) \<longleftrightarrow> False"
| "wf_statement _ \<longleftrightarrow> True"
| "wf_block (BlockStatement ss _) \<longleftrightarrow> list_all wf_statement ss"

definition result_type_ok :: "ck_type \<Rightarrow> bool" where
  "result_type_ok rt \<longleftrightarrow> proper rt \<or> rt = CkVoid"

abbreviation stmt_typed :: "checker \<Rightarrow> ck_type \<Rightarrow> scope \<Rightarrow> statement \<Rightarrow> scope \<Rightarrow> bool" where
  "stmt_typed st rt \<equiv> statement_typed (ck_symbols st) rt (0 < ck_unsafe_depth st) (0 < ck_loop_depth st)"

definition stmt_sound :: "statement \<Rightarrow> bool" where
  "stmt_sound s \<longleftrightarrow> (\<forall>sc rt st flow sc' st'. check_statement s sc rt st = (flow, sc', st') \<longrightarrow> quiet st st' \<longrightarrow>
     syms_ok (ck_symbols st) \<longrightarrow> scope_ok sc \<longrightarrow> result_type_ok rt \<longrightarrow> wf_statement s \<longrightarrow>
     stmt_typed st rt sc s sc' \<and> scope_ok sc' \<and> (\<forall>r. flow_has flow r \<longleftrightarrow> runs s r))"

lemma stmt_soundI:
  "(\<And>sc rt st flow sc' st'. check_statement s sc rt st = (flow, sc', st') \<Longrightarrow> quiet st st' \<Longrightarrow>
     syms_ok (ck_symbols st) \<Longrightarrow> scope_ok sc \<Longrightarrow> result_type_ok rt \<Longrightarrow> wf_statement s \<Longrightarrow>
     stmt_typed st rt sc s sc' \<and> scope_ok sc' \<and> (\<forall>r. flow_has flow r \<longleftrightarrow> runs s r)) \<Longrightarrow> stmt_sound s"
  unfolding stmt_sound_def by blast

lemma stmt_soundD:
  "stmt_sound s \<Longrightarrow> check_statement s sc rt st = (flow, sc', st') \<Longrightarrow> quiet st st' \<Longrightarrow>
     syms_ok (ck_symbols st) \<Longrightarrow> scope_ok sc \<Longrightarrow> result_type_ok rt \<Longrightarrow> wf_statement s \<Longrightarrow>
     stmt_typed st rt sc s sc' \<and> scope_ok sc' \<and> (\<forall>r. flow_has flow r \<longleftrightarrow> runs s r)"
  unfolding stmt_sound_def by blast

text \<open>One expression, checked with an expected type and then compared with it.\<close>

lemma expression_finds:
  assumes "check_expression e sc ex st = (t, st1)" "quiet st st1" "syms_ok (ck_symbols st)" "scope_ok sc" "wf_expression e"
    "\<And>x. ex = Some x \<Longrightarrow> proper x"
  shows "finds st sc e ex t"
  using soundD [OF expression_sound assms(1-4,6,5)] .

lemma assignable_sound:
  assumes e: "check_expression e sc (Some t) st = (t1, st1)" and q: "quiet st (check_assignable e t t1 m st1)"
    and ok: "syms_ok (ck_symbols st)" "scope_ok sc" "wf_expression e" "proper t"
  shows "typed_in st sc e t"
proof -
  have "grows st1 (check_assignable e t t1 m st1)" by (simp add: grows_intros)
  note qs = quiet_chain [OF e this q]
  have f: "finds st sc e (Some t) t1" using expression_finds [OF e qs(1) ok(1-3)] ok(4) by simp
  have "agrees t1 t"
    using qs(2) f ok(4) finds_unknown [OF f]
    by (auto simp: check_assignable_def agrees_def finds_def is_unknown_def can_assign_def same_type_def is_integer_def
      split: if_splits)
  then show ?thesis by (rule finds_agrees [OF f _ ok(4)])
qed

lemma condition_sound:
  assumes q: "quiet st (check_condition w c sc st)" and ok: "syms_ok (ck_symbols st)" "scope_ok sc" "wf_expression c"
  shows "typed_in st sc c primitive_bool"
proof -
  obtain t st1 where e: "check_expression c sc None st = (t, st1)" by (cases "check_expression c sc None st")
  have g: "grows st1 (check_condition w c sc st)" using e by (simp add: check_condition_def Let_def grows_intros)
  note qs = quiet_chain [OF e g q]
  have f: "finds st sc c None t" using expression_finds [OF e qs(1) ok] by simp
  have "t = primitive_bool"
    using qs(2) finds_unknown [OF f] e by (auto simp: check_condition_def Let_def type_defs split: if_splits)
  then show ?thesis using f by (auto simp: finds_def)
qed

lemma scope_ok_declare:
  "scope_ok sc \<Longrightarrow> proper (var_type v) \<Longrightarrow> scope_ok (snd (scope_declare v sc))"
  by (auto simp: scope_ok_def scope_declare_def scope_push_def split: list.splits if_splits option.splits)

lemma scope_ok_push: "scope_ok (scope_push sc) \<longleftrightarrow> scope_ok sc"
  by (simp add: scope_ok_def scope_push_def)

lemma let_sound:
  assumes c: "check_let_statement i n e sp sc st = (sc', st')" "quiet st st'"
    and ok: "syms_ok (ck_symbols st)" "scope_ok sc" "wf_type n" "wf_expression e"
  shows "stmt_typed st rt sc (StLet i n e sp) sc' \<and> scope_ok sc'"
proof -
  obtain t st1 where n: "resolve_type n UseLocal st = (t, st1)" by (cases "resolve_type n UseLocal st")
  let ?st2 = "record_local_type sp t st1"
  obtain b sc1 where d: "scope_declare \<lparr>var_name = id_name i, var_type = t\<rparr> sc = (b, sc1)"
    by (cases "scope_declare \<lparr>var_name = id_name i, var_type = t\<rparr> sc")
  let ?st3 = "if b then ?st2 else ck_error (id_span i) (lit ''Duplicate variable '' @ quoted (id_name i) @ lit ''.'') ?st2"
  obtain t1 st4 where e: "check_expression e sc1 (Some t) ?st3 = (t1, st4)" by (cases "check_expression e sc1 (Some t) ?st3")
  obtain m where st': "sc' = sc1" "st' = check_assignable e t t1 m st4"
    using c(1) n d e by (auto simp: check_let_statement_def declare_variable_def Let_def)
  have g: "grows st st1" "grows st1 ?st2" "grows ?st2 ?st3" "grows ?st3 st4" "grows st4 st'"
    using resolve_type_grows [of st n UseLocal] n check_expression_grows [OF e] st' by (simp_all add: grows_intros)
  have dq: "ck_diagnostics st' = ck_diagnostics st" using c(2) by (simp add: quiet_def)
  note q1 = quiet_split [OF g(1) grows_trans [OF g(2) grows_trans [OF g(3) grows_trans [OF g(4,5)]]] dq]
  have "ck_diagnostics st' = ck_diagnostics st1" using q1(2) by (simp add: quiet_def)
  note q2 = quiet_split [OF grows_trans [OF g(2,3)] grows_trans [OF g(4,5)] this]
  have b: "b"
  proof (rule ccontr)
    assume "\<not> b"
    then show False using q2(1) not_quiet(2) [OF g(2)] by simp
  qed
  have t: "node_typed (ck_symbols st) UseLocal n t" "proper t" using resolve_sound [OF n q1(1) ok(3)] by auto
  have sc1: "scope_ok sc1" using scope_ok_declare [of sc "\<lparr>var_name = id_name i, var_type = t\<rparr>"] ok(2) t(2) d by simp
  have "typed_in ?st3 sc1 e t"
    using assignable_sound [OF e q2(2) [unfolded st'(2)]] ok sc1 t(2) quiet_frame(1) [OF q1(1)] quiet_frame(1) [OF q2(1)] by simp
  then have "typed_in st sc1 e t" using quiet_frame [OF q1(1)] quiet_frame [OF q2(1)] by simp
  then show ?thesis using t d b sc1 st'(1) by (auto intro: typed_let)
qed

lemma assignment_sound:
  assumes q: "quiet st (check_assignment_statement x v sc st)"
    and ok: "syms_ok (ck_symbols st)" "scope_ok sc" "wf_expression x" "wf_expression v"
  shows "stmt_typed st rt sc (StAssignment x v sp) sc"
proof -
  let ?st1 = "if is_assignable_expression x then st else ck_error (expression_span x) (lit ''Invalid assignment target.'') st"
  obtain t st2 where e: "check_expression x sc None ?st1 = (t, st2)" by (cases "check_expression x sc None ?st1")
  let ?st3 = "check_read_only x st2"
  obtain t1 st4 where e2: "check_expression v sc (Some t) ?st3 = (t1, st4)" by (cases "check_expression v sc (Some t) ?st3")
  obtain m where st': "check_assignment_statement x v sc st = check_assignable v t t1 m st4"
    using e e2 by (auto simp: check_assignment_statement_def Let_def)
  let ?st' = "check_assignable v t t1 m st4"
  have g: "grows st ?st1" "grows ?st1 st2" "grows st2 ?st3" "grows ?st3 ?st'"
    using check_expression_grows [OF e] grows_trans [OF check_expression_grows [OF e2]] by (simp_all add: grows_intros)
  have d: "ck_diagnostics ?st' = ck_diagnostics st" using q st' by (simp add: quiet_def)
  note q1 = quiet_split [OF g(1) grows_trans [OF g(2) grows_trans [OF g(3,4)]] d]
  have d: "ck_diagnostics ?st' = ck_diagnostics ?st1" using q1(2) by (simp add: quiet_def)
  note q2 = quiet_split [OF g(2) grows_trans [OF g(3,4)] d]
  have d: "ck_diagnostics ?st' = ck_diagnostics st2" using q2(2) by (simp add: quiet_def)
  note q3 = quiet_split [OF g(3,4) d]
  have a: "is_assignable_expression x" using q1(1) by (auto split: if_splits)
  then have st1: "?st1 = st" by simp
  have f: "finds st sc x None t" using expression_finds [OF e [unfolded st1] q2(1) [unfolded st1] ok(1-3)] by simp
  have nl: "\<not> is_literal x" using a by (cases x) auto
  then have x: "proper t" "typed_in st sc x t" using f by (auto simp: finds_def)
  have "typed_in ?st3 sc v t"
    using assignable_sound [OF e2 q3(2)] ok x(1) quiet_frame(1) [OF q3(1)] quiet_frame(1) [OF q2(1) [unfolded st1]] by simp
  then have "typed_in st sc v t"
    using quiet_frame [OF q3(1)] quiet_frame [OF q2(1) [unfolded st1]] by simp
  then show ?thesis using a x(2) by (rule typed_assignment [rotated 2])
qed

lemma return_sound:
  assumes q: "quiet st (check_return_statement v span sc rt st)"
    and ok: "syms_ok (ck_symbols st)" "scope_ok sc" "result_type_ok rt" "pred_option wf_expression v"
  shows "stmt_typed st rt sc (StReturn v span) sc"
proof (cases "rt = CkVoid")
  case True
  then have "v = None"
    using q not_quiet(1) [OF grows_expression [OF grows_refl]]
    by (auto simp: check_return_statement_def split: option.splits)
  then show ?thesis using True by (simp add: typed_return_void)
next
  case False
  then obtain e where v: "v = Some e" using q by (auto simp: check_return_statement_def split: option.splits)
  obtain t st1 where e: "check_expression e sc (Some rt) st = (t, st1)" by (cases "check_expression e sc (Some rt) st")
  have rt: "proper rt" using ok(3) False by (simp add: result_type_ok_def)
  obtain m where "check_return_statement v span sc rt st = check_assignable e rt t m st1"
    using False v e by (auto simp: check_return_statement_def)
  then have "typed_in st sc e rt" using assignable_sound [OF e] q ok v rt by simp
  then show ?thesis using False v by (auto intro: typed_return)
qed

lemma call_statement_sound:
  assumes q: "quiet st (check_call_statement e sc st)" and ok: "syms_ok (ck_symbols st)" "scope_ok sc" "wf_expression e"
  shows "stmt_typed st rt sc (StCall e sp) sc"
proof -
  obtain callee args sp2 where e: "e = ECall callee args sp2"
    using q by (cases e) (auto simp: check_call_statement_def)
  let ?c = "check_call callee args sp2 sc False st"
  have g: "grows (snd ?c) (check_call_statement e sc st)"
    by (simp add: e check_call_statement_def Let_def case_prod_unfold grows_intros)
  have q1: "quiet st (snd ?c)" "quiet (snd ?c) (check_call_statement e sc st)"
    using quiet_split [OF grows_call [OF grows_refl] g] q by (simp_all add: quiet_def)
  obtain t where t: "fst ?c = t" "proper t \<or> t = CkVoid"
      "call_typed (ck_symbols st) (0 < ck_unsafe_depth st) (scope_types sc) callee args t"
    using call_sound [OF expression_sound q1(1)] ok e by auto
  have "t = CkVoid"
  proof (rule ccontr)
    assume n: "t \<noteq> CkVoid"
    then have "\<not> is_unknown t" using t(2) by (auto simp: is_unknown_def)
    then have "\<not> quiet (snd ?c) (check_call_statement e sc st)"
      using n t(1) by (auto simp: e check_call_statement_def Let_def case_prod_unfold not_quiet(1) grows_intros)
    then show False using q1(2) by simp
  qed
  then show ?thesis using t(3) e by (auto intro: typed_call_statement)
qed

lemma jump_sound: "quiet st (snd (check_jump span m flow st)) \<Longrightarrow> 0 < ck_loop_depth st \<and> fst (check_jump span m flow st) = flow"
  by (auto simp: check_jump_def split: if_splits)

section \<open>Sequences and blocks\<close>

lemma statements_grow: "check_statements ss flow sc rt st = (fl, sc', st') \<Longrightarrow> grows st st'"
  using statements_framed [of ss sc st flow rt] check_statement_framed(1) by (simp add: framed_def)

lemma statement_grows: "check_statement s sc rt st = (fl, sc', st') \<Longrightarrow> grows st st'"
  using check_statement_framed(1) [of sc st s rt] by (simp add: framed_def)

lemma scoped_block_grows: "check_scoped_block b sc rt st = (fl, sc', st') \<Longrightarrow> grows st st' \<and> sc' = sc"
  using check_statement_framed(2) [of sc st b rt] by (simp add: framed_def)

lemma stopped_statements:
  assumes "check_statements ss flow sc rt st = (fl, sc', st')" "quiet st st'" "\<not> falls_through flow"
  shows "ss = [] \<and> fl = flow \<and> sc' = sc"
proof (cases ss)
  case (Cons s ss1)
  let ?st1 = "ck_error_with_code (statement_span s) Ck2010 (lit ''Unreachable statement.'') st"
  have c: "check_statements ss1 flow sc rt ?st1 = (fl, sc', st')" using assms Cons by simp
  have "grows st ?st1" by (simp add: grows_intros)
  moreover have "ck_diagnostics st' = ck_diagnostics st" using assms(2) by (simp add: quiet_def)
  ultimately have "quiet st ?st1" by (rule quiet_split(1) [OF _ statements_grow [OF c]])
  then show ?thesis by simp
qed (use assms in auto)

lemma statements_sound:
  assumes "\<And>s. s \<in> set ss \<Longrightarrow> stmt_sound s"
    and "check_statements ss flow sc rt st = (fl, sc', st')" "quiet st st'" "falls_through flow"
    and "syms_ok (ck_symbols st)" "scope_ok sc" "result_type_ok rt" "list_all wf_statement ss"
  shows "statements_typed (ck_symbols st) rt (0 < ck_unsafe_depth st) (0 < ck_loop_depth st) sc ss sc' \<and> scope_ok sc' \<and>
    (\<forall>r. flow_has fl r \<longleftrightarrow> r \<noteq> Falls \<and> flow_has flow r \<or> runs_all ss r)"
  using assms
proof (induction ss arbitrary: flow sc st)
  case Nil
  then have "flow_has flow Falls" "fl = flow" "sc' = sc" by (simp_all add: flow_has.simps)
  then show ?case using Nil(6) by (auto intro: typed_none)
next
  case (Cons s ss)
  obtain f1 sc1 st1 where s: "check_statement s sc rt st = (f1, sc1, st1)" by (cases "check_statement s sc rt st")
  have rest: "check_statements ss (flow_then flow f1) sc1 rt st1 = (fl, sc', st')" using Cons.prems(2,4) s by simp
  have "ck_diagnostics st' = ck_diagnostics st" using Cons.prems(3) by (simp add: quiet_def)
  note q = quiet_split [OF statement_grows [OF s] statements_grow [OF rest] this]
  have sound1: "stmt_typed st rt sc s sc1 \<and> scope_ok sc1 \<and> (\<forall>r. flow_has f1 r \<longleftrightarrow> runs s r)"
    using stmt_soundD [OF Cons.prems(1) s q(1)] Cons.prems(5-8) by simp
  show ?case
  proof (cases "falls_through f1")
    case True
    then have "falls_through (flow_then flow f1)" by (simp add: flow_then_def)
    then have "statements_typed (ck_symbols st1) rt (0 < ck_unsafe_depth st1) (0 < ck_loop_depth st1) sc1 ss sc' \<and> scope_ok sc' \<and>
      (\<forall>r. flow_has fl r \<longleftrightarrow> r \<noteq> Falls \<and> flow_has (flow_then flow f1) r \<or> runs_all ss r)"
      using Cons.IH [OF _ rest q(2)] Cons.prems(1,5-8) sound1 quiet_frame(1) [OF q(1)] by simp
    moreover have "runs s Falls" using True sound1 by (metis flow_has.simps(1))
    ultimately show ?thesis using sound1 quiet_frame [OF q(1)] by (auto intro: typed_more)
  next
    case False
    then have "\<not> falls_through (flow_then flow f1)" by (simp add: flow_then_def)
    from stopped_statements [OF rest q(2) this] have r: "ss = []" "fl = flow_then flow f1" "sc' = sc1" by simp_all
    have "\<not> runs s Falls" using False sound1 by (metis flow_has.simps(1))
    then have "runs_all [s] r \<longleftrightarrow> runs s r" for r by (cases r) auto
    then show ?thesis using r sound1 by (auto intro: typed_more typed_none)
  qed
qed

definition block_sound :: "block_statement \<Rightarrow> bool" where
  "block_sound b \<longleftrightarrow> (\<forall>sc rt st flow sc' st'. check_scoped_block b sc rt st = (flow, sc', st') \<longrightarrow> quiet st st' \<longrightarrow>
     syms_ok (ck_symbols st) \<longrightarrow> scope_ok sc \<longrightarrow> result_type_ok rt \<longrightarrow> wf_block b \<longrightarrow>
     stmt_typed st rt sc (StBlock b) sc \<and> (\<forall>r. flow_has flow r \<longleftrightarrow> runs (StBlock b) r))"

lemma block_soundD:
  "block_sound b \<Longrightarrow> check_scoped_block b sc rt st = (flow, sc', st') \<Longrightarrow> quiet st st' \<Longrightarrow>
     syms_ok (ck_symbols st) \<Longrightarrow> scope_ok sc \<Longrightarrow> result_type_ok rt \<Longrightarrow> wf_block b \<Longrightarrow>
     stmt_typed st rt sc (StBlock b) sc \<and> (\<forall>r. flow_has flow r \<longleftrightarrow> runs (StBlock b) r)"
  unfolding block_sound_def by blast

lemma scoped_block_sound:
  assumes "\<And>s. s \<in> set ss \<Longrightarrow> stmt_sound s"
  shows "block_sound (BlockStatement ss sp)"
  unfolding block_sound_def
proof (intro allI impI)
  fix sc rt st flow sc' st'
  assume c: "check_scoped_block (BlockStatement ss sp) sc rt st = (flow, sc', st')" "quiet st st'"
    and ok: "syms_ok (ck_symbols st)" "scope_ok sc" "result_type_ok rt" "wf_block (BlockStatement ss sp)"
  obtain sc1 where ss: "check_statements ss flow_falls_through (scope_push sc) rt st = (flow, sc1, st')"
    using c(1) by (auto simp: check_scoped_block.simps split: prod.splits)
  have "statements_typed (ck_symbols st) rt (0 < ck_unsafe_depth st) (0 < ck_loop_depth st) (scope_push sc) ss sc1 \<and> scope_ok sc1 \<and>
    (\<forall>r. flow_has flow r \<longleftrightarrow> r \<noteq> Falls \<and> flow_has flow_falls_through r \<or> runs_all ss r)"
    using statements_sound [OF assms ss c(2)] ok by (simp add: scope_ok_push flow_falls_through_def)
  then show "stmt_typed st rt sc (StBlock (BlockStatement ss sp)) sc \<and>
      (\<forall>r. flow_has flow r \<longleftrightarrow> runs (StBlock (BlockStatement ss sp)) r)"
    by (auto intro: typed_block)
qed

section \<open>Every statement\<close>

inductive_cases block_typedE: "statement_typed syms rt u l sc (StBlock (BlockStatement ss sp)) sc'"

lemma unsafe_sound:
  assumes b: "block_sound b"
  shows "stmt_sound (StUnsafe b sp)"
proof (rule stmt_soundI)
  fix sc rt st flow sc' st'
  assume c: "check_statement (StUnsafe b sp) sc rt st = (flow, sc', st')" "quiet st st'"
    and ok: "syms_ok (ck_symbols st)" "scope_ok sc" "result_type_ok rt" "wf_statement (StUnsafe b sp)"
  obtain st1 sc1 where 1: "check_scoped_block b sc rt (enter_unsafe st) = (flow, sc1, st1)" "sc' = sc1" "st' = leave_unsafe st1"
    using c(1) by (auto split: prod.splits)
  have g: "grows (enter_unsafe st) st1" "sc1 = sc" using scoped_block_grows [OF 1(1)] by simp_all
  have q: "quiet (enter_unsafe st) st1"
    using g(1) c(2) 1(3) by (simp add: quiet_def enter_unsafe_def leave_unsafe_def)
  have "stmt_typed (enter_unsafe st) rt sc (StBlock b) sc \<and> (\<forall>r. flow_has flow r \<longleftrightarrow> runs (StBlock b) r)"
    using block_soundD [OF b 1(1) q] ok by (simp add: enter_unsafe_def)
  then show "stmt_typed st rt sc (StUnsafe b sp) sc' \<and> scope_ok sc' \<and> (\<forall>r. flow_has flow r \<longleftrightarrow> runs (StUnsafe b sp) r)"
    using ok(2) 1(2) g(2) by (cases b) (auto simp: enter_unsafe_def elim: block_typedE intro: typed_unsafe)
qed

lemma while_sound:
  assumes b: "block_sound b"
  shows "stmt_sound (StWhile c b sp)"
proof (rule stmt_soundI)
  fix sc rt st flow sc' st'
  assume c: "check_statement (StWhile c b sp) sc rt st = (flow, sc', st')" "quiet st st'"
    and ok: "syms_ok (ck_symbols st)" "scope_ok sc" "result_type_ok rt" "wf_statement (StWhile c b sp)"
  let ?st0 = "check_condition ''While'' c sc st"
  obtain st1 sc1 fl where 1: "check_scoped_block b sc rt (enter_loop ?st0) = (fl, sc1, st1)" "sc' = sc1"
      "st' = leave_loop st1" "flow = flow_loop fl"
    using c(1) by (auto simp: Let_def split: prod.splits)
  have g: "grows (enter_loop ?st0) st1" "sc1 = sc" using scoped_block_grows [OF 1(1)] by simp_all
  have "ck_diagnostics st' = ck_diagnostics st" using c(2) by (simp add: quiet_def)
  moreover have "grows st ?st0" "grows ?st0 st'" using g(1) 1(3) by (simp_all add: grows_intros grows_enter_loop)
  ultimately have q: "quiet st ?st0" "quiet ?st0 st'" using quiet_split by blast+
  have q1: "quiet (enter_loop ?st0) st1"
    using g(1) q(2) 1(3) by (simp add: quiet_def enter_loop_def leave_loop_def)
  have "typed_in st sc c primitive_bool" using condition_sound [OF q(1)] ok by simp
  moreover have "stmt_typed (enter_loop ?st0) rt sc (StBlock b) sc" and fl: "\<forall>r. flow_has fl r \<longleftrightarrow> runs (StBlock b) r"
    using block_soundD [OF b 1(1) q1] ok quiet_frame(1) [OF q(1)] by (simp_all add: enter_loop_def)
  then have "statement_typed (ck_symbols st) rt (0 < ck_unsafe_depth st) True sc (StBlock b) sc"
    using quiet_frame(1,2) [OF q(1)] by (simp add: enter_loop_def)
  ultimately have "stmt_typed st rt sc (StWhile c b sp) sc" by (rule typed_while)
  then show "stmt_typed st rt sc (StWhile c b sp) sc' \<and> scope_ok sc' \<and> (\<forall>r. flow_has flow r \<longleftrightarrow> runs (StWhile c b sp) r)"
    using ok(2) 1(2,4) g(2) fl by simp
qed

lemma if_sound:
  assumes b: "block_sound b" and el: "\<And>b2. el = Some b2 \<Longrightarrow> block_sound b2"
  shows "stmt_sound (StIf c b el sp)"
proof (rule stmt_soundI)
  fix sc rt st flow sc' st'
  assume c: "check_statement (StIf c b el sp) sc rt st = (flow, sc', st')" "quiet st st'"
    and ok: "syms_ok (ck_symbols st)" "scope_ok sc" "result_type_ok rt" "wf_statement (StIf c b el sp)"
  let ?st0 = "check_condition ''If'' c sc st"
  obtain fl sc1 st1 where 1: "check_scoped_block b sc rt ?st0 = (fl, sc1, st1)" by (cases "check_scoped_block b sc rt ?st0")
  have g0: "grows st ?st0" and g1: "grows ?st0 st1" "sc1 = sc" using scoped_block_grows [OF 1] by (simp_all add: grows_intros)
  have d: "ck_diagnostics st' = ck_diagnostics st" using c(2) by (simp add: quiet_def)
  have g2: "grows st1 st'"
    using c(1) 1 g1(2) by (auto simp: Let_def grows_refl split: prod.splits option.splits dest: scoped_block_grows)
  have q: "quiet st ?st0" "quiet ?st0 st1" "quiet st1 st'"
    using quiet_split [OF g0 grows_trans [OF g1(1) g2] d] quiet_split [OF g1(1) g2] by (simp_all add: quiet_def)
  have cond: "typed_in st sc c primitive_bool" using condition_sound [OF q(1)] ok by simp
  have then1: "stmt_typed st rt sc (StBlock b) sc" "flow_has fl r \<longleftrightarrow> runs (StBlock b) r" for r
    using block_soundD [OF b 1 q(2)] ok quiet_frame [OF q(1)] by simp_all
  show "stmt_typed st rt sc (StIf c b el sp) sc' \<and> scope_ok sc' \<and> (\<forall>r. flow_has flow r \<longleftrightarrow> runs (StIf c b el sp) r)"
  proof (cases el)
    case None
    then have "sc' = sc" "flow = flow_union fl flow_falls_through" using c(1) 1 g1(2) by (simp_all add: Let_def)
    then show ?thesis using typed_if [OF cond then1(1)] then1(2) ok(2) None by auto
  next
    case (Some b2)
    obtain fl2 where 2: "check_scoped_block b2 sc rt st1 = (fl2, sc', st')" "flow = flow_union fl fl2"
      using c(1) 1 g1(2) Some by (auto simp: Let_def split: prod.splits)
    have "stmt_typed st rt sc (StBlock b2) sc \<and> (\<forall>r. flow_has fl2 r \<longleftrightarrow> runs (StBlock b2) r)"
      using block_soundD [OF el [OF Some] 2(1) q(3)] ok quiet_frame [OF q(1)] quiet_frame [OF q(2)] Some by simp
    then show ?thesis
      using Some 2(2) scoped_block_grows [OF 2(1)] typed_if_else [OF cond then1(1), of b2] then1(2) ok(2) by simp
  qed
qed

lemma statement_sound: "stmt_sound s" and scoped_sound: "block_sound b"
proof (induction s and b rule: statement.induct block_statement.induct)
  case (BlockStatement ss sp)
  show ?case by (rule scoped_block_sound) (rule BlockStatement)
next
  case (StBlock b)
  show ?case
  proof (rule stmt_soundI)
    fix sc rt st flow sc' st'
    assume "check_statement (StBlock b) sc rt st = (flow, sc', st')" "quiet st st'" and
      ok: "syms_ok (ck_symbols st)" "scope_ok sc" "result_type_ok rt" "wf_statement (StBlock b)"
    then have c: "check_scoped_block b sc rt st = (flow, sc', st')" "quiet st st'" by simp_all
    show "stmt_typed st rt sc (StBlock b) sc' \<and> scope_ok sc' \<and> (\<forall>r. flow_has flow r \<longleftrightarrow> runs (StBlock b) r)"
      using block_soundD [OF StBlock c] ok scoped_block_grows [OF c(1)] by simp
  qed
next
  case (StUnsafe b sp)
  show ?case by (rule unsafe_sound) (rule StUnsafe)
next
  case (StWhile c b sp)
  then show ?case by (rule while_sound)
next
  case (StIf c b el sp)
  then show ?case by (intro if_sound) auto
next
  case (StLet i n e sp)
  show ?case
  proof (rule stmt_soundI)
    fix sc rt st flow sc' st'
    assume "check_statement (StLet i n e sp) sc rt st = (flow, sc', st')" "quiet st st'" and
      ok: "syms_ok (ck_symbols st)" "scope_ok sc" "result_type_ok rt" "wf_statement (StLet i n e sp)"
    then have c: "check_let_statement i n e sp sc st = (sc', st')" "flow = flow_falls_through" "quiet st st'" by simp_all
    show "stmt_typed st rt sc (StLet i n e sp) sc' \<and> scope_ok sc' \<and> (\<forall>r. flow_has flow r \<longleftrightarrow> runs (StLet i n e sp) r)"
      using let_sound [OF c(1,3) ok(1,2)] ok(4) c(2) by simp
  qed
next
  case (StAssignment x v sp)
  show ?case by (rule stmt_soundI) (auto intro: assignment_sound)
next
  case (StCall e sp)
  show ?case by (rule stmt_soundI) (auto intro: call_statement_sound)
next
  case (StReturn v sp)
  show ?case by (rule stmt_soundI) (auto intro: return_sound)
next
  case (StBreak sp)
  show ?case by (rule stmt_soundI) (auto simp: Let_def case_prod_unfold dest!: jump_sound intro: typed_break)
next
  case (StContinue sp)
  show ?case by (rule stmt_soundI) (auto simp: Let_def case_prod_unfold dest!: jump_sound intro: typed_continue)
next
  case (StError sp)
  show ?case by (rule stmt_soundI) simp
qed

end
