(* ===== verification/Typeck_Wellformed.thy ===== *)
theory Typeck_Wellformed
  imports Typeck_Flow Parser_Properties
begin

text \<open>
  The trees of the grammar are well-formed: the text of a keyword or an operator is the one its
  kind names, so the checker meets no operator, type name or place-holder it does not know.
\<close>

section \<open>The text of a token\<close>

definition spellings :: "(token_kind \<times> string) list" where
  "spellings =
     [(TkBang, ''!''), (TkMinus, ''-''), (TkPlus, ''+''), (TkStar, ''*''), (TkSlash, ''/''), (TkPercent, ''%''),
      (TkEqualEqual, ''==''), (TkBangEqual, ''!=''), (TkLess, ''<''), (TkLessEqual, ''<=''), (TkGreater, ''>''),
      (TkGreaterEqual, ''>=''), (TkAmpAmp, ''&&''), (TkPipePipe, ''||''), (TkI32, ''i32''), (TkI64, ''i64''),
      (TkU32, ''u32''), (TkU64, ''u64''), (TkF64, ''f64''), (TkBool, ''bool'')]"

definition spelled :: "token_kind \<Rightarrow> rstring \<Rightarrow> bool" where
  "spelled k w \<longleftrightarrow> (\<forall>s. map_of spellings k = Some s \<longrightarrow> w = lit s)"

lemma spelled_other: "k \<notin> set (map fst spellings) \<Longrightarrow> spelled k w"
  by (metis spelled_def map_of_eq_None_iff option.distinct(1) set_map)

lemma spelled_kinds [simp]:
  "spelled TkBang w \<longleftrightarrow> w = lit ''!''" "spelled TkMinus w \<longleftrightarrow> w = lit ''-''" "spelled TkPlus w \<longleftrightarrow> w = lit ''+''"
  "spelled TkStar w \<longleftrightarrow> w = lit ''*''" "spelled TkSlash w \<longleftrightarrow> w = lit ''/''" "spelled TkPercent w \<longleftrightarrow> w = lit ''%''"
  "spelled TkEqualEqual w \<longleftrightarrow> w = lit ''==''" "spelled TkBangEqual w \<longleftrightarrow> w = lit ''!=''"
  "spelled TkLess w \<longleftrightarrow> w = lit ''<''" "spelled TkLessEqual w \<longleftrightarrow> w = lit ''<=''"
  "spelled TkGreater w \<longleftrightarrow> w = lit ''>''" "spelled TkGreaterEqual w \<longleftrightarrow> w = lit ''>=''"
  "spelled TkAmpAmp w \<longleftrightarrow> w = lit ''&&''" "spelled TkPipePipe w \<longleftrightarrow> w = lit ''||''"
  "spelled TkI32 w \<longleftrightarrow> w = lit ''i32''" "spelled TkI64 w \<longleftrightarrow> w = lit ''i64''" "spelled TkU32 w \<longleftrightarrow> w = lit ''u32''"
  "spelled TkU64 w \<longleftrightarrow> w = lit ''u64''" "spelled TkF64 w \<longleftrightarrow> w = lit ''f64''" "spelled TkBool w \<longleftrightarrow> w = lit ''bool''"
  "spelled TkArrow w" "spelled TkEqual w" "spelled TkDot w" "spelled TkDotDot w" "spelled TkInteger w" "spelled TkFloat w"
  by (simp_all add: spelled_def spellings_def)

lemma identifier_kind_spelled: "spelled (identifier_kind w) w"
  by (auto simp: spelled_def spellings_def identifier_kind_def keyword_kind_def keyword_table_def
    split: option.splits if_splits)

lemma exponent_piece_kind: "fst (exponent_piece k w r) = PieceToken j \<Longrightarrow> j = k \<or> j = TkFloat"
  by (cases r) (auto simp: Let_def split: if_splits)

lemma number_piece_kind: "fst (number_piece r) = PieceToken j \<Longrightarrow> j = TkInteger \<or> j = TkFloat"
  by (auto simp: number_piece_def Let_def dest!: exponent_piece_kind split: list.splits if_splits)

lemma single_token_spelled: "single_token c = Some k \<Longrightarrow> spelled k [c]"
  by (auto simp: single_token_def spelled_def spellings_def lit_def split: if_splits)

lemma pair_token_spelled:
  "pair_token c = Some (d, k2, k1) \<Longrightarrow> spelled k2 [c, d] \<and> (\<forall>k. k1 = Some k \<longrightarrow> spelled k [c])"
  by (simp add: pair_token_def lit_def split: if_splits) (auto simp: lit_def)

lemma next_piece_spelled: "next_piece r = (PieceToken k, w) \<Longrightarrow> spelled k w"
proof (cases r)
  case (Cons c r1)
  assume p: "next_piece r = (PieceToken k, w)"
  have n: "spelled k w" if "number_piece (c # r1) = (PieceToken k, w)"
    using number_piece_kind [of "c # r1" k] that by auto
  show ?thesis
    using p n identifier_kind_spelled single_token_spelled [of c] pair_token_spelled [of c] unfolding Cons
    by (auto simp: Let_def split: if_splits list.splits option.splits)
qed simp

lemma lexed_spelled:
  assumes "lex src = Some res" "t \<in> set (lr_tokens res)"
  shows "spelled (tk_kind t) (tk_text t)"
proof (cases "t \<in> set (layout [] (pieces (sf_text src)))")
  case True
  from layout_kind [OF this] pieces_from_next next_piece_spelled show ?thesis by metis
next
  case False
  then have "tk_kind t = TkEof" using lex_SomeD(1) [OF assms(1)] assms(2) by (auto simp: eof_token_def)
  then show ?thesis by (simp add: spelled_def spellings_def)
qed

section \<open>The trees of the grammar\<close>

definition spelled_tokens :: "token list \<Rightarrow> bool" where
  "spelled_tokens ts \<longleftrightarrow> (\<forall>t \<in> set ts. spelled (tk_kind t) (tk_text t))"

lemma spelled_tokens_simps [simp]:
  "spelled_tokens []" "spelled_tokens (t # ts) \<longleftrightarrow> spelled (tk_kind t) (tk_text t) \<and> spelled_tokens ts"
  "spelled_tokens (ts @ us) \<longleftrightarrow> spelled_tokens ts \<and> spelled_tokens us"
  by (auto simp: spelled_tokens_def)

lemma operator_spelled:
  "0 < binary_precedence k \<Longrightarrow> spelled k w \<Longrightarrow> is_arithmetic_operator w \<or> is_comparison_operator w \<or> is_logical_operator w"
  by (cases k) (simp_all add: binary_precedence_def is_arithmetic_operator_def is_comparison_operator_def
    is_logical_operator_def)

lemma primitive_spelled: "k \<in> set primitive_kinds \<Longrightarrow> spelled k w \<Longrightarrow> primitive_type_from_str w \<noteq> CkUnknown"
  by (auto simp: primitive_kinds_def primitive_type_from_str_def)

lemma wf_type_tokens: "type_tokens ts n \<Longrightarrow> spelled_tokens ts \<Longrightarrow> wf_type n"
  by (induction rule: type_tokens.induct) (auto dest: primitive_spelled)

lemma wf_expression_tokens:
  "expression_tokens p ts e \<Longrightarrow> spelled_tokens ts \<longrightarrow> wf_expression e"
  "unary_tokens ts e \<Longrightarrow> spelled_tokens ts \<longrightarrow> wf_expression e"
  "postfix_tokens ts e \<Longrightarrow> spelled_tokens ts \<longrightarrow> wf_expression e"
  "arguments_tokens ts es \<Longrightarrow> spelled_tokens ts \<longrightarrow> list_all wf_expression es"
proof (induction rule: expression_tokens_unary_tokens_postfix_tokens_arguments_tokens.inducts)
  case (expression_binary q ls l op p rs r)
  then show ?case using operator_spelled by auto
next
  case (unary_prefix op ts e)
  then show ?case by auto
qed auto

lemma wf_statement_tokens:
  "statement_tokens ts s \<Longrightarrow> spelled_tokens ts \<longrightarrow> wf_statement s"
  "statements_tokens ts ss \<Longrightarrow> spelled_tokens ts \<longrightarrow> list_all wf_statement ss"
  "block_tokens ts b \<Longrightarrow> spelled_tokens ts \<longrightarrow> wf_block b"
  by (induction rule: statement_tokens_statements_tokens_block_tokens.inducts)
    (auto dest: wf_expression_tokens(1) wf_type_tokens)

fun wf_declaration :: "ast_declaration \<Rightarrow> bool" where
  "wf_declaration (DeclStruct d) \<longleftrightarrow> list_all (\<lambda>f. wf_type (field_type f)) (struct_fields d)"
| "wf_declaration (DeclFunction f) \<longleftrightarrow>
     list_all (\<lambda>p. wf_type (param_type p)) (fn_params f) \<and> wf_type (return_type f) \<and> wf_block (fn_body f)"

lemma wf_fields_tokens:
  "struct_fields_tokens ts fs \<Longrightarrow> spelled_tokens ts \<Longrightarrow> list_all (\<lambda>f. wf_type (field_type f)) fs"
  by (induction rule: struct_fields_tokens.induct) (auto dest: wf_type_tokens)

lemma wf_params_tokens:
  "params_tokens ts ps \<Longrightarrow> spelled_tokens ts \<Longrightarrow> list_all (\<lambda>p. wf_type (param_type p)) ps"
  by (induction rule: params_tokens.induct) (auto elim!: param_tokens.cases dest: wf_type_tokens)

lemma wf_declaration_tokens: "declaration_tokens ts d \<Longrightarrow> spelled_tokens ts \<Longrightarrow> wf_declaration d"
  by (induction rule: declaration_tokens.induct)
    (auto simp: params_opt_tokens_def dest: wf_fields_tokens wf_params_tokens wf_type_tokens wf_statement_tokens(3))

lemma wf_declarations_tokens: "declarations_tokens ts ds \<Longrightarrow> spelled_tokens ts \<Longrightarrow> list_all wf_declaration ds"
  by (induction rule: declarations_tokens.induct) (auto dest: wf_declaration_tokens)

text \<open>What the parser accepts is well-formed.\<close>

lemma parsed_wf:
  assumes "parse src = Some \<lparr>pr_ast = p, pr_diagnostics = []\<rparr>"
  shows "list_all wf_declaration (declarations p)"
proof -
  obtain res where "lex src = Some res" "program_tokens (lr_tokens res) p"
    using assms parse_accepted by blast
  moreover have "spelled_tokens (butlast (lr_tokens res))"
    using lexed_spelled [OF calculation(1)] by (auto simp: spelled_tokens_def dest: in_set_butlastD)
  ultimately show ?thesis using wf_declarations_tokens by (auto simp: program_tokens_def)
qed

end
