(* ===== verification/Typeck_Declarations.thy ===== *)
theory Typeck_Declarations
  imports Typeck_Statement
begin

text \<open>
  The passes of the type checker over the declarations, \<^verbatim>\<open>src/src/frontend/typeck.rs\<close>: the names
  of the structs, their fields, the signatures of the functions, their bodies; and the checked
  program made of what they collect, but for the effect summaries.
\<close>

section \<open>Structs\<close>

definition set_structs :: "(rstring \<rightharpoonup> struct_symbol) \<Rightarrow> checker \<Rightarrow> checker" where
  "set_structs structs st = st\<lparr>ck_symbols := (ck_symbols st)\<lparr>sym_structs := structs\<rparr>\<rparr>"

definition collect_struct_name :: "struct_declaration \<Rightarrow> checker \<Rightarrow> checker" where
  "collect_struct_name d st =
     (let name = id_name (struct_name d) in
      if sym_structs (ck_symbols st) name \<noteq> None then
        ck_error (id_span (struct_name d)) (lit ''Duplicate struct '' @ quoted name @ lit ''.'') st
      else set_structs ((sym_structs (ck_symbols st))
        (name \<mapsto> \<lparr>ss_name = name, ss_declaration = d, ss_fields = Map.empty\<rparr>)) st)"

fun collect_struct_names :: "ast_declaration list \<Rightarrow> checker \<Rightarrow> checker" where
  "collect_struct_names [] st = st"
| "collect_struct_names (DeclStruct d # ds) st = collect_struct_names ds (collect_struct_name d st)"
| "collect_struct_names (DeclFunction f # ds) st = collect_struct_names ds st"

text \<open>
  The loop over the fields of a struct: the names seen, the fields resolved and the errors for
  duplicates, which are reported after the fields.
\<close>

fun resolve_struct_fields ::
  "rstring \<Rightarrow> struct_field list \<Rightarrow> rstring list \<Rightarrow> (rstring \<times> ck_type) list \<Rightarrow> (source_span \<times> rstring) list \<Rightarrow>
   checker \<Rightarrow> (rstring \<times> ck_type) list \<times> (source_span \<times> rstring) list \<times> checker" where
  "resolve_struct_fields struct [] seen resolved errors st = (resolved, errors, st)"
| "resolve_struct_fields struct (f # fs) seen resolved errors st =
     (let name = id_name (field_name f) in
      if name \<in> set seen then
        resolve_struct_fields struct fs seen resolved
          (errors @ [(id_span (field_name f),
             lit ''Duplicate field '' @ quoted name @ lit '' in struct '' @ quoted struct @ lit ''.'')]) st
      else
        let (t, st) = resolve_type (field_type f) UseStructField st
        in resolve_struct_fields struct fs (name # seen) (resolved @ [(name, t)]) errors st)"

definition insert_fields :: "rstring \<Rightarrow> (rstring \<times> ck_type) list \<Rightarrow> checker \<Rightarrow> checker" where
  "insert_fields struct resolved st =
     (case sym_structs (ck_symbols st) struct of
        None \<Rightarrow> st
      | Some symbol \<Rightarrow>
          set_structs ((sym_structs (ck_symbols st))
            (struct \<mapsto> symbol\<lparr>ss_fields := fold (\<lambda>(name, t) fields. fields(name \<mapsto> t)) resolved (ss_fields symbol)\<rparr>)) st)"

definition collect_struct_field_types :: "struct_declaration \<Rightarrow> checker \<Rightarrow> checker" where
  "collect_struct_field_types d st =
     (let struct = id_name (struct_name d) in
      case sym_structs (ck_symbols st) struct of
        None \<Rightarrow> st
      | Some symbol \<Rightarrow>
          if ss_declaration symbol \<noteq> d then st
          else
            let (resolved, errors, st) = resolve_struct_fields struct (struct_fields d) [] [] [] st
            in fold (\<lambda>(span, message). ck_error span message) errors (insert_fields struct resolved st))"

fun collect_struct_fields :: "ast_declaration list \<Rightarrow> checker \<Rightarrow> checker" where
  "collect_struct_fields [] st = st"
| "collect_struct_fields (DeclStruct d # ds) st = collect_struct_fields ds (collect_struct_field_types d st)"
| "collect_struct_fields (DeclFunction f # ds) st = collect_struct_fields ds st"

section \<open>Function signatures\<close>

definition set_functions :: "(rstring \<rightharpoonup> function_symbol) \<Rightarrow> checker \<Rightarrow> checker" where
  "set_functions functions st = st\<lparr>ck_symbols := (ck_symbols st)\<lparr>sym_functions := functions\<rparr>\<rparr>"

fun resolve_params :: "function_param list \<Rightarrow> checker \<Rightarrow> ck_type list \<times> checker" where
  "resolve_params [] st = ([], st)"
| "resolve_params (p # ps) st =
     (let (t, st) = resolve_type (param_type p) UseParameter st;
          (ts, st) = resolve_params ps st
      in (t # ts, st))"

text \<open>\<open>report_if\<close> is an \<open>if\<close> around a diagnostic.\<close>

definition report_if :: "bool \<Rightarrow> source_span \<Rightarrow> diagnostic_code \<Rightarrow> string \<Rightarrow> checker \<Rightarrow> checker" where
  "report_if b span code message st = (if b then ck_error_with_code span code (lit message) st else st)"

definition main_name :: rstring where
  "main_name = lit ''main''"

definition entry_result_type :: "ck_type \<Rightarrow> bool" where
  "entry_result_type t \<longleftrightarrow> t = CkVoid \<or> t = primitive_i32"

definition check_entry_signature :: "function_declaration \<Rightarrow> ck_type \<Rightarrow> checker \<Rightarrow> checker" where
  "check_entry_signature f rt st =
     (let st = report_if (is_unsafe f \<or> fn_contract f \<noteq> None) (id_span (fn_name f)) Ck2014
            ''Program entry 'main' cannot be unsafe or contracted.'' st;
          st = report_if (exported f) (id_span (fn_name f)) Ck2013 ''Program entry 'main' cannot be exported.'' st;
          st = (case fn_params f of
                  p # _ \<Rightarrow> report_if True (param_span p) Ck2013
                    ''Program entry 'main' must not declare parameters.'' st
                | [] \<Rightarrow> st)
      in report_if (\<not> entry_result_type rt) (type_span (return_type f)) Ck2013
           ''Program entry 'main' must return void or i32.'' st)"

definition contract_place :: "function_declaration \<Rightarrow> source_span" where
  "contract_place f = (case fn_contract f of Some c \<Rightarrow> contract_span c | None \<Rightarrow> id_span (fn_name f))"

definition check_contract_presence :: "function_declaration \<Rightarrow> checker \<Rightarrow> checker" where
  "check_contract_presence f st =
     (let st = report_if (\<not> is_unsafe f \<and> fn_contract f \<noteq> None) (contract_place f) Ck2014
            ''A safe function cannot declare a contract or effects ceiling.'' st
      in report_if (is_unsafe f \<and> (case fn_contract f of None \<Rightarrow> True | Some c \<Rightarrow> requirements c = []))
           (contract_place f) Ck2014
           ''An unsafe function contract requires at least one 'requires' clause.'' st)"

definition collect_function_signature :: "function_declaration \<Rightarrow> checker \<Rightarrow> checker" where
  "collect_function_signature f st =
     (let name = id_name (fn_name f); span = id_span (fn_name f) in
      if get_compiler_builtin name \<noteq> None then
        ck_error span (lit ''Cannot define reserved compiler builtin '' @ quoted name @ lit ''.'') st
      else if sym_functions (ck_symbols st) name \<noteq> None then
        ck_error span (lit ''Duplicate function '' @ quoted name @ lit ''.'') st
      else
        let (params, st) = resolve_params (fn_params f) st;
            (rt, st) = resolve_type (return_type f) UseFunctionReturn st;
            st = (if name = main_name then check_entry_signature f rt st else check_contract_presence f st);
            st = report_if (exported f \<and> is_slice rt) (type_span (return_type f)) Ck2012
              ''An exported function cannot return a slice.'' st
        in set_functions ((sym_functions (ck_symbols st))
             (name \<mapsto> \<lparr>fs_name = name, fs_declaration = f, fs_params = params, fs_return_type = rt\<rparr>)) st)"

fun collect_function_signatures :: "ast_declaration list \<Rightarrow> checker \<Rightarrow> checker" where
  "collect_function_signatures [] st = st"
| "collect_function_signatures (DeclStruct d # ds) st = collect_function_signatures ds st"
| "collect_function_signatures (DeclFunction f # ds) st =
     collect_function_signatures ds (collect_function_signature f st)"

section \<open>Function bodies\<close>

text \<open>The type of a parameter at its index, unknown when the symbol has none.\<close>

definition param_type_at :: "ck_type list \<Rightarrow> nat \<Rightarrow> ck_type" where
  "param_type_at ts i = (if i < length ts then ts ! i else CkUnknown)"

fun declare_params :: "function_param list \<Rightarrow> nat \<Rightarrow> ck_type list \<Rightarrow> scope \<times> checker \<Rightarrow> scope \<times> checker" where
  "declare_params [] i ts s = s"
| "declare_params (p # ps) i ts s =
     declare_params ps (i + 1) ts
       (declare_variable (id_name (param_name p)) (param_type_at ts i) (id_span (param_name p)) s)"

definition slice_params :: "function_param list \<Rightarrow> ck_type list \<Rightarrow> rstring list" where
  "slice_params ps ts = map (\<lambda>(p, _). id_name (param_name p)) (filter (\<lambda>(_, t). is_slice t) (zip ps ts))"

definition check_function_contract :: "function_declaration \<Rightarrow> function_symbol \<Rightarrow> scope \<Rightarrow> checker \<Rightarrow> checker" where
  "check_function_contract f symbol sc st =
     (case fn_contract f of
        None \<Rightarrow> st
      | Some contr \<Rightarrow>
          if id_name (fn_name f) \<noteq> main_name \<and> is_unsafe f \<and> requirements contr \<noteq> [] then
            (case check_contract contr sc (slice_params (fn_params f) (fs_params symbol)) st of
               (Some checked, st) \<Rightarrow> st\<lparr>ck_contracts := (ck_contracts st)(id_name (fn_name f) \<mapsto> checked)\<rparr>
             | (None, st) \<Rightarrow> st)
          else st)"

definition check_function_body :: "function_declaration \<Rightarrow> function_symbol \<Rightarrow> checker \<Rightarrow> checker" where
  "check_function_body f symbol st =
     (let (sc, st) = declare_params (fn_params f) 0 (fs_params symbol) ([], st);
          st = check_function_contract f symbol sc st;
          st = st\<lparr>ck_loop_depth := 0, ck_unsafe_depth := 0\<rparr>;
          (flow, sc, st) = check_body_block (fn_body f) sc (fs_return_type symbol) st
      in if falls_through flow \<and> fs_return_type symbol \<noteq> CkVoid then
           ck_error (block_span (fn_body f))
             (lit ''Missing return in function '' @ quoted (id_name (fn_name f)) @ lit ''.'') st
         else st)"

fun check_function_bodies :: "ast_declaration list \<Rightarrow> checker \<Rightarrow> checker" where
  "check_function_bodies [] st = st"
| "check_function_bodies (DeclStruct d # ds) st = check_function_bodies ds st"
| "check_function_bodies (DeclFunction f # ds) st =
     check_function_bodies ds
       (case sym_functions (ck_symbols st) (id_name (fn_name f)) of
          None \<Rightarrow> st
        | Some symbol \<Rightarrow> if fs_declaration symbol \<noteq> f then st else check_function_body f symbol st)"

section \<open>The checked program\<close>

record struct_field_info =
  sfi_name :: rstring
  sfi_type :: ck_type
  sfi_declaration :: struct_field

record struct_info =
  si_name :: rstring
  si_declaration :: struct_declaration
  si_fields :: "struct_field_info list"
  si_field_map :: "rstring \<rightharpoonup> struct_field_info"

record function_param_info =
  fpi_name :: rstring
  fpi_type :: ck_type
  fpi_declaration :: function_param

record function_info =
  fi_name :: rstring
  fi_exported :: bool
  fi_is_unsafe :: bool
  fi_declaration :: function_declaration
  fi_params :: "function_param_info list"
  fi_return_type :: ck_type
  fi_contract :: "checked_contract option"

datatype entry_result = EntryVoid | EntryI32

record entry_point =
  ep_name :: rstring
  ep_declaration :: function_declaration
  ep_result :: entry_result

text \<open>A \<open>HashMap\<close> collected from pairs: the last one of a key stays.\<close>

definition hash_collect :: "('k \<times> 'v) list \<Rightarrow> 'k \<rightharpoonup> 'v" where
  "hash_collect es = map_of (rev es)"

definition to_struct_info :: "struct_symbol \<Rightarrow> struct_info" where
  "to_struct_info symbol =
     (let fields = List.map_filter (\<lambda>f. map_option
            (\<lambda>t. \<lparr>sfi_name = id_name (field_name f), sfi_type = t, sfi_declaration = f\<rparr>)
            (ss_fields symbol (id_name (field_name f)))) (struct_fields (ss_declaration symbol))
      in \<lparr>si_name = ss_name symbol, si_declaration = ss_declaration symbol, si_fields = fields,
          si_field_map = hash_collect (map (\<lambda>f. (sfi_name f, f)) fields)\<rparr>)"

definition to_function_info :: "function_symbol \<Rightarrow> checked_contract option \<Rightarrow> function_info" where
  "to_function_info symbol contr =
     (let d = fs_declaration symbol in
      \<lparr>fi_name = fs_name symbol, fi_exported = exported d, fi_is_unsafe = is_unsafe d, fi_declaration = d,
       fi_params = map (\<lambda>(i, p). \<lparr>fpi_name = id_name (param_name p), fpi_type = param_type_at (fs_params symbol) i,
         fpi_declaration = p\<rparr>) (enumerate 0 (fn_params d)),
       fi_return_type = fs_return_type symbol, fi_contract = contr\<rparr>)"

fun struct_infos :: "symbol_table \<Rightarrow> ast_declaration list \<Rightarrow> struct_info list" where
  "struct_infos symbols [] = []"
| "struct_infos symbols (DeclStruct d # ds) =
     (case sym_structs symbols (id_name (struct_name d)) of
        Some symbol \<Rightarrow> if ss_declaration symbol = d then to_struct_info symbol # struct_infos symbols ds
                       else struct_infos symbols ds
      | None \<Rightarrow> struct_infos symbols ds)"
| "struct_infos symbols (DeclFunction f # ds) = struct_infos symbols ds"

fun function_infos ::
  "symbol_table \<Rightarrow> (rstring \<rightharpoonup> checked_contract) \<Rightarrow> ast_declaration list \<Rightarrow> function_info list" where
  "function_infos symbols contracts [] = []"
| "function_infos symbols contracts (DeclStruct d # ds) = function_infos symbols contracts ds"
| "function_infos symbols contracts (DeclFunction f # ds) =
     (case sym_functions symbols (id_name (fn_name f)) of
        Some symbol \<Rightarrow>
          if fs_declaration symbol = f
          then to_function_info symbol (contracts (fs_name symbol)) # function_infos symbols contracts ds
          else function_infos symbols contracts ds
      | None \<Rightarrow> function_infos symbols contracts ds)"

fun main_declaration_count :: "ast_declaration list \<Rightarrow> nat" where
  "main_declaration_count [] = 0"
| "main_declaration_count (DeclFunction f # ds) =
     (if id_name (fn_name f) = main_name then 1 else 0) + main_declaration_count ds"
| "main_declaration_count (DeclStruct d # ds) = main_declaration_count ds"

definition to_entry_point :: "function_info \<Rightarrow> entry_point option" where
  "to_entry_point f =
     (if fi_exported f \<or> fi_is_unsafe f \<or> fn_contract (fi_declaration f) \<noteq> None \<or> fi_params f \<noteq> [] then None
      else if fi_return_type f = CkVoid then
        Some \<lparr>ep_name = fi_name f, ep_declaration = fi_declaration f, ep_result = EntryVoid\<rparr>
      else if fi_return_type f = primitive_i32 then
        Some \<lparr>ep_name = fi_name f, ep_declaration = fi_declaration f, ep_result = EntryI32\<rparr>
      else None)"

definition program_entry :: "ast_declaration list \<Rightarrow> function_info list \<Rightarrow> entry_point option" where
  "program_entry ds functions =
     (if main_declaration_count ds = 1
      then Option.bind (find (\<lambda>f. fi_name f = main_name) functions) to_entry_point else None)"

end
