(* ===== verification/Source_Effects.thy ===== *)
theory Source_Effects
  imports Typeck_Declarations Effects
begin

text \<open>
  The effects of the functions of a checked program, \<^verbatim>\<open>src/src/frontend/effects.rs\<close>: where the
  memory a variable refers to comes from, the accesses and calls of a body, the graph given to
  the solver, and the check of the effect ceilings of the contracts.
\<close>

record checked_program =
  cp_ast :: program
  cp_symbols :: symbol_table
  cp_types :: "source_span \<rightharpoonup> ck_type"
  cp_local_types :: "source_span \<rightharpoonup> ck_type"
  cp_structs :: "struct_info list"
  cp_functions :: "function_info list"
  cp_struct_map :: "rstring \<rightharpoonup> struct_info"
  cp_function_map :: "rstring \<rightharpoonup> function_info"
  cp_entry :: "entry_point option"
  cp_effect_summaries :: "(rstring, effect_summary) btree"

definition create_checked_program ::
  "program \<Rightarrow> symbol_table \<Rightarrow> (source_span \<rightharpoonup> ck_type) \<Rightarrow> (source_span \<rightharpoonup> ck_type) \<Rightarrow>
   (rstring \<rightharpoonup> checked_contract) \<Rightarrow> checked_program" where
  "create_checked_program ast symbols types local_types contracts =
     (let structs = struct_infos symbols (declarations ast);
          functions = function_infos symbols contracts (declarations ast)
      in \<lparr>cp_ast = ast, cp_symbols = symbols, cp_types = types, cp_local_types = local_types,
          cp_structs = structs, cp_functions = functions,
          cp_struct_map = hash_collect (map (\<lambda>s. (si_name s, s)) structs),
          cp_function_map = hash_collect (map (\<lambda>f. (fi_name f, f)) functions),
          cp_entry = program_entry (declarations ast) functions,
          cp_effect_summaries = []\<rparr>)"

section \<open>Roots\<close>

datatype source_root = RootExternal effect_target | RootPrivate | RootAll

fun root_target :: "source_root \<Rightarrow> effect_target option" where
  "root_target (RootExternal t) = Some t"
| "root_target RootPrivate = None"
| "root_target RootAll = Some AllMemory"

type_synonym roots = "rstring \<rightharpoonup> source_root"

definition param_root :: "nat \<Rightarrow> ck_type \<Rightarrow> source_root" where
  "param_root i t =
     (case t of
        CkSlice _ \<Rightarrow> if i \<le> u32_max then RootExternal (Parameter i) else RootAll
      | CkPointer _ \<Rightarrow> RootAll
      | _ \<Rightarrow> RootPrivate)"

definition initial_roots :: "function_info \<Rightarrow> roots" where
  "initial_roots f = hash_collect (map (\<lambda>(i, p). (fpi_name p, param_root i (fpi_type p))) (enumerate 0 (fi_params f)))"

fun root_of_expression :: "roots \<Rightarrow> expression \<Rightarrow> source_root" where
  "root_of_expression roots (EIdentifier name _) = (case roots name of Some r \<Rightarrow> r | None \<Rightarrow> RootPrivate)"
| "root_of_expression roots (EParenthesized e _) = root_of_expression roots e"
| "root_of_expression roots (ESubslice sliced _ _ _) = root_of_expression roots sliced"
| "root_of_expression roots (ESliceConstructor data _ _) = root_of_expression roots data"
| "root_of_expression roots (EField object _ _) = root_of_expression roots object"
| "root_of_expression roots (ECall _ _ _) = RootAll"
| "root_of_expression roots (EIndex object _ _) = root_of_expression roots object"
| "root_of_expression roots _ = RootPrivate"

definition merge_roots :: "roots \<Rightarrow> roots \<Rightarrow> roots \<Rightarrow> roots" where
  "merge_roots base left right = (\<lambda>name.
     case base name of
       None \<Rightarrow> None
     | Some base_root \<Rightarrow>
         let l = (case left name of Some r \<Rightarrow> r | None \<Rightarrow> base_root);
             r = (case right name of Some r \<Rightarrow> r | None \<Rightarrow> base_root)
         in Some (if l = r then l else RootAll))"

text \<open>What a nested block leaves: the names of the outer scope, with the roots they have now.\<close>

definition restore_roots :: "roots \<Rightarrow> roots \<Rightarrow> roots" where
  "restore_roots outer inner = (\<lambda>name.
     case outer name of
       None \<Rightarrow> None
     | Some root \<Rightarrow> (case inner name of Some r \<Rightarrow> Some r | None \<Rightarrow> Some root))"

section \<open>The collector\<close>

record collector =
  co_functions :: "rstring \<rightharpoonup> function_info"
  co_roots :: roots
  co_direct :: effect_summary
  co_calls :: "effect_call list"

definition add_memory_effect :: "source_root \<Rightarrow> memory_effect \<Rightarrow> collector \<Rightarrow> collector" where
  "add_memory_effect root effect st =
     (case root_target root of
        Some t \<Rightarrow> st\<lparr>co_direct := add_access \<lparr>ea_target = t, ea_effect = effect\<rparr> (co_direct st)\<rparr>
      | None \<Rightarrow> st)"

definition set_may_fail :: "collector \<Rightarrow> collector" where
  "set_may_fail st = st\<lparr>co_direct := (co_direct st)\<lparr>may_fail := True\<rparr>\<rparr>"

definition add_call :: "expression \<Rightarrow> expression list \<Rightarrow> collector \<Rightarrow> collector" where
  "add_call callee args st =
     (case callee of
        EIdentifier name _ \<Rightarrow>
          (case get_compiler_builtin name of
             Some builtin \<Rightarrow>
               if cb_effect builtin = BuiltinObservableOutput
               then st\<lparr>co_direct := (co_direct st)\<lparr>runtime_effect := True\<rparr>\<rparr> else st
           | None \<Rightarrow>
               let unsafe = (case co_functions st name of Some f \<Rightarrow> fi_is_unsafe f | None \<Rightarrow> False)
               in st\<lparr>co_calls := co_calls st @ [\<lparr>ec_callee = name,
                      ec_arguments = map (\<lambda>arg. root_target (root_of_expression (co_roots st) arg)) args,
                      ec_is_unsafe = unsafe\<rparr>],
                    co_direct := (co_direct st)\<lparr>unsafe_calls := unsafe_calls (co_direct st) \<or> unsafe\<rparr>\<rparr>)
      | _ \<Rightarrow> st\<lparr>co_direct := summary_join (co_direct st) full_conservative\<rparr>)"

fun scan_expression :: "expression \<Rightarrow> collector \<Rightarrow> collector"
  and scan_expressions :: "expression list \<Rightarrow> collector \<Rightarrow> collector" where
  "scan_expression (EIdentifier _ _) st = st"
| "scan_expression (EIntegerLiteral _ _) st = st"
| "scan_expression (EFloatLiteral _ _) st = st"
| "scan_expression (EBoolLiteral _ _) st = st"
| "scan_expression (EError _) st = st"
| "scan_expression (EParenthesized e _) st = scan_expression e st"
| "scan_expression (EUnary operator operand _) st =
     (let st = scan_expression operand st in if operator = lit ''-'' then set_may_fail st else st)"
| "scan_expression (EBinary operator left right _) st =
     (let st = scan_expression right (scan_expression left st)
      in if is_arithmetic_operator operator then set_may_fail st else st)"
| "scan_expression (ECall callee args _) st = add_call callee args (scan_expressions args st)"
| "scan_expression (ESliceConstructor data len _) st = scan_expression len (scan_expression data st)"
| "scan_expression (EField object _ _) st = scan_expression object st"
| "scan_expression (EIndex object index _) st =
     (let st = scan_expression index (scan_expression object st)
      in set_may_fail (add_memory_effect (root_of_expression (co_roots st) object) MeRead st))"
| "scan_expression (ESubslice sliced start stop _) st =
     set_may_fail (scan_expression stop (scan_expression start (scan_expression sliced st)))"
| "scan_expressions [] st = st"
| "scan_expressions (e # es) st = scan_expressions es (scan_expression e st)"

fun scan_write_place :: "expression \<Rightarrow> collector \<Rightarrow> collector" where
  "scan_write_place (EIdentifier _ _) st = st"
| "scan_write_place (EParenthesized e _) st = scan_write_place e st"
| "scan_write_place (EIndex object index _) st =
     (let st = scan_expression index (scan_expression object st)
      in set_may_fail (add_memory_effect (root_of_expression (co_roots st) object) MeWrite st))"
| "scan_write_place (EField object _ _) st =
     (let st = scan_expression object st
      in add_memory_effect (root_of_expression (co_roots st) object) MeWrite st)"
| "scan_write_place e st = scan_expression e st"

definition bind_root :: "rstring \<Rightarrow> expression \<Rightarrow> collector \<Rightarrow> collector" where
  "bind_root name e st = st\<lparr>co_roots := (co_roots st)(name \<mapsto> root_of_expression (co_roots st) e)\<rparr>"

definition bind_assigned :: "expression \<Rightarrow> expression \<Rightarrow> collector \<Rightarrow> collector" where
  "bind_assigned assigned v st =
     (case assigned of EIdentifier name _ \<Rightarrow> bind_root name v st | _ \<Rightarrow> st)"

fun scan_statement :: "statement \<Rightarrow> collector \<Rightarrow> collector"
  and scan_statements :: "statement list \<Rightarrow> collector \<Rightarrow> collector"
  and scan_block :: "block_statement \<Rightarrow> collector \<Rightarrow> collector" where
  "scan_statement (StBlock b) st =
     (let inner = scan_block b st in inner\<lparr>co_roots := restore_roots (co_roots st) (co_roots inner)\<rparr>)"
| "scan_statement (StUnsafe b _) st =
     (let inner = scan_block b st in inner\<lparr>co_roots := restore_roots (co_roots st) (co_roots inner)\<rparr>)"
| "scan_statement (StLet name _ initializer _) st =
     bind_root (id_name name) initializer (scan_expression initializer st)"
| "scan_statement (StAssignment assigned v _) st =
     bind_assigned assigned v (scan_write_place assigned (scan_expression v st))"
| "scan_statement (StCall call _) st = scan_expression call st"
| "scan_statement (StReturn returned _) st =
     (case returned of Some v \<Rightarrow> scan_expression v st | None \<Rightarrow> st)"
| "scan_statement (StIf condition then_block else_block _) st =
     (let st = scan_expression condition st;
          start_roots = co_roots st;
          st = scan_block then_block st;
          then_roots = co_roots st;
          st = st\<lparr>co_roots := start_roots\<rparr>;
          st = (case else_block of Some b \<Rightarrow> scan_block b st | None \<Rightarrow> st)
      in st\<lparr>co_roots := merge_roots start_roots then_roots (co_roots st)\<rparr>)"
| "scan_statement (StWhile condition body _) st =
     (let st = scan_expression condition st;
          start_roots = co_roots st;
          st = scan_block body st
      in st\<lparr>co_roots := merge_roots start_roots start_roots (co_roots st)\<rparr>)"
| "scan_statement (StBreak _) st = st"
| "scan_statement (StContinue _) st = st"
| "scan_statement (StError _) st = st"
| "scan_statements [] st = st"
| "scan_statements (s # ss) st = scan_statements ss (scan_statement s st)"
| "scan_block b st = (case b of BlockStatement ss _ \<Rightarrow> scan_statements ss st)"

definition collector_new :: "checked_program \<Rightarrow> function_info \<Rightarrow> collector" where
  "collector_new p f =
     \<lparr>co_functions = cp_function_map p, co_roots = initial_roots f, co_direct = summary_empty, co_calls = []\<rparr>"

definition collect_function :: "checked_program \<Rightarrow> function_info \<Rightarrow> effect_function" where
  "collect_function p f =
     (let st = scan_statements (block_statements (fn_body (fi_declaration f))) (collector_new p f)
      in \<lparr>ef_name = fi_name f, ef_parameter_count = min (length (fi_params f)) u32_max,
          ef_direct = co_direct st, ef_calls = co_calls st\<rparr>)"

definition analyze_checked_program_effects :: "checked_program \<Rightarrow> nat option \<Rightarrow> effect_solve_result" where
  "analyze_checked_program_effects p budget =
     solve_effect_graph (map (collect_function p) (cp_functions p)) budget"

section \<open>Ceilings\<close>

record effect_ceiling_violation =
  ecv_span :: source_span
  ecv_message :: rstring

fun contract_memory_effect :: "contract_effect_kind \<Rightarrow> memory_effect" where
  "contract_memory_effect EffectNone = MeNone"
| "contract_memory_effect EffectRead = MeRead"
| "contract_memory_effect EffectWrite = MeWrite"
| "contract_memory_effect EffectReadWrite = MeReadWrite"

definition ceiling_allows :: "function_info \<Rightarrow> checked_contract_effect_ceiling \<Rightarrow> effect_access \<Rightarrow> bool" where
  "ceiling_allows f ceiling access =
     (case ea_target access of
        AllMemory \<Rightarrow> False
      | Parameter i \<Rightarrow>
          if i < length (fi_params f) then
            me_allows
              (case find (\<lambda>(name, _). name = fpi_name (fi_params f ! i)) (cec_items ceiling) of
                 Some (_, kind) \<Rightarrow> contract_memory_effect kind | None \<Rightarrow> MeNone)
              (ea_effect access)
          else False)"

fun effect_word :: "memory_effect \<Rightarrow> rstring" where
  "effect_word MeNone = lit ''none''"
| "effect_word MeRead = lit ''read''"
| "effect_word MeWrite = lit ''write''"
| "effect_word MeReadWrite = lit ''readwrite''"

definition ceiling_violation_message :: "function_info \<Rightarrow> effect_access \<Rightarrow> rstring" where
  "ceiling_violation_message f access =
     (case ea_target access of
        Parameter i \<Rightarrow>
          lit ''Effect ceiling for function '' @ quoted (fi_name f) @ lit '' does not allow '' @
          effect_word (ea_effect access) @ lit '' access to slice parameter '' @
          quoted (if i < length (fi_params f) then fpi_name (fi_params f ! i) else lit ''<unknown>'') @ lit ''.''
      | AllMemory \<Rightarrow>
          lit ''Effect ceiling for function '' @ quoted (fi_name f) @ lit '' cannot cover conservative '' @
          effect_word (ea_effect access) @ lit '' access to externally reachable memory.'')"

definition ceiling_span :: "function_info \<Rightarrow> source_span" where
  "ceiling_span f =
     (case Option.bind (fn_contract (fi_declaration f)) contract_effects of
        Some clause \<Rightarrow> effect_clause_span clause
      | None \<Rightarrow> id_span (fn_name (fi_declaration f)))"

definition function_violation :: "checked_program \<Rightarrow> function_info \<Rightarrow> effect_ceiling_violation option" where
  "function_violation p f =
     do {
       contr \<leftarrow> fi_contract f;
       ceiling \<leftarrow> cc_effects contr;
       summary \<leftarrow> bt_get (cp_effect_summaries p) (fi_name f);
       access \<leftarrow> find (\<lambda>a. \<not> ceiling_allows f ceiling a) (accesses summary);
       Some \<lparr>ecv_span = ceiling_span f, ecv_message = ceiling_violation_message f access\<rparr>
     }"

definition validate_effect_ceilings :: "checked_program \<Rightarrow> effect_ceiling_violation list" where
  "validate_effect_ceilings p = List.map_filter (function_violation p) (cp_functions p)"

section \<open>The whole check\<close>

record check_result =
  cr_ast :: program
  cr_typed_ast :: "program \<times> (source_span \<rightharpoonup> ck_type)"
  cr_checked_program :: checked_program
  cr_diagnostics :: "diagnostic list"
  cr_symbols :: symbol_table

definition checker_new :: "source_file \<Rightarrow> parse_result \<Rightarrow> checker" where
  "checker_new src r =
     \<lparr>ck_source = src, ck_program = pr_ast r, ck_diagnostics = pr_diagnostics r,
      ck_symbols = \<lparr>sym_structs = Map.empty, sym_functions = Map.empty\<rparr>,
      ck_expression_types = Map.empty, ck_local_types = Map.empty, ck_contracts = Map.empty,
      ck_loop_depth = 0, ck_unsafe_depth = 0\<rparr>"

definition check_declarations :: "checker \<Rightarrow> checker" where
  "check_declarations st =
     (let ds = declarations (ck_program st)
      in check_function_bodies ds (collect_function_signatures ds
           (collect_struct_fields ds (collect_struct_names ds st))))"

definition checker_check :: "checker \<Rightarrow> check_result" where
  "checker_check st =
     (let st = check_declarations st;
          p = create_checked_program (ck_program st) (ck_symbols st) (ck_expression_types st)
            (ck_local_types st) (ck_contracts st);
          p = p\<lparr>cp_effect_summaries := sr_summaries (analyze_checked_program_effects p None)\<rparr>;
          st = fold (\<lambda>v. ck_error_with_code (ecv_span v) Ck2016 (ecv_message v)) (validate_effect_ceilings p) st
      in \<lparr>cr_ast = ck_program st, cr_typed_ast = (ck_program st, ck_expression_types st),
          cr_checked_program = p, cr_diagnostics = ck_diagnostics st, cr_symbols = ck_symbols st\<rparr>)"

definition check_source :: "source_file \<Rightarrow> check_result option" where
  "check_source src = map_option (\<lambda>r. checker_check (checker_new src r)) (parse src)"

definition require_executable_entry :: "source_file \<Rightarrow> checked_program \<Rightarrow> diagnostic option" where
  "require_executable_entry src p =
     (if cp_entry p \<noteq> None then None
      else let stop = span_end (program_span (cp_ast p))
        in Some (diagnostic_error Ck2013 (lit ''Executable input requires a valid 'main' entry.'')
          (file_name src) \<lparr>span_start = stop, span_end = stop\<rparr>))"

end
