(* ===== verification/Typeck_Program.thy ===== *)
theory Typeck_Program
  imports Typeck_Wellformed Source_Effects
begin

text \<open>
  Declarations: what a check that reports nothing has established of the structs, the signatures
  and the bodies of a program.
\<close>

section \<open>The frame of the passes\<close>

text \<open>The passes push diagnostics and leave the program alone.\<close>

definition pushes :: "checker \<Rightarrow> checker \<Rightarrow> bool" where
  "pushes st st' \<longleftrightarrow> (\<exists>es. ck_diagnostics st' = ck_diagnostics st @ es) \<and> ck_program st' = ck_program st"

lemma pushes_refl [simp]: "pushes st st"
  by (simp add: pushes_def)

lemma pushes_trans: "pushes st st1 \<Longrightarrow> pushes st1 st2 \<Longrightarrow> pushes st st2"
  by (auto simp: pushes_def)

lemma grows_pushes: "grows st st' \<Longrightarrow> pushes st st'"
  unfolding grows_def pushes_def by blast

lemma pushes_silent:
  assumes "pushes st st1" "pushes st1 st2" "ck_diagnostics st2 = ck_diagnostics st"
  shows "ck_diagnostics st1 = ck_diagnostics st" "ck_diagnostics st2 = ck_diagnostics st1"
proof -
  obtain es fs where "ck_diagnostics st1 = ck_diagnostics st @ es" "ck_diagnostics st2 = ck_diagnostics st1 @ fs"
    using assms(1,2) by (auto simp: pushes_def)
  with assms(3) show "ck_diagnostics st1 = ck_diagnostics st" "ck_diagnostics st2 = ck_diagnostics st1" by simp_all
qed

lemma grows_quiet: "grows st st' \<Longrightarrow> ck_diagnostics st' = ck_diagnostics st \<Longrightarrow> quiet st st'"
  by (simp add: quiet_def)

lemma error_not_silent: "pushes st st1 \<Longrightarrow> ck_diagnostics (ck_error_with_code sp c m st1) \<noteq> ck_diagnostics st"
  "pushes st st1 \<Longrightarrow> ck_diagnostics (ck_error sp m st1) \<noteq> ck_diagnostics st"
  by (auto simp: pushes_def ck_error_with_code_def ck_error_def)

lemma set_tables [simp]:
  "ck_diagnostics (set_structs m st) = ck_diagnostics st" "ck_program (set_structs m st) = ck_program st"
  "ck_diagnostics (set_functions m2 st) = ck_diagnostics st" "ck_program (set_functions m2 st) = ck_program st"
  "sym_structs (ck_symbols (set_structs m st)) = m" "sym_functions (ck_symbols (set_structs m st)) = sym_functions (ck_symbols st)"
  "sym_functions (ck_symbols (set_functions m2 st)) = m2" "sym_structs (ck_symbols (set_functions m2 st)) = sym_structs (ck_symbols st)"
  by (simp_all add: set_structs_def set_functions_def)

lemma pushes_tables [simp]:
  "pushes st (set_structs m st1) \<longleftrightarrow> pushes st st1" "pushes st (set_functions m2 st1) \<longleftrightarrow> pushes st st1"
  by (simp_all add: pushes_def)

text \<open>Only which structs there are matters for the types of the source.\<close>

lemma node_typed_dom: "dom (sym_structs syms) = dom (sym_structs syms') \<Longrightarrow> node_typed syms cx n t \<Longrightarrow> node_typed syms' cx n t"
proof -
  assume d: "dom (sym_structs syms) = dom (sym_structs syms')"
  assume "node_typed syms cx n t"
  then show ?thesis
  proof (induction rule: node_typed.induct)
    case (node_struct i cx sp)
    then have "id_name i \<in> dom (sym_structs syms')" using d by auto
    then show ?case by (auto intro: node_typed.node_struct)
  qed (auto intro: node_typed.intros)
qed

lemma nodes_typed_dom:
  "dom (sym_structs syms) = dom (sym_structs syms') \<Longrightarrow> list_all2 (node_typed syms cx) ns ts \<Longrightarrow>
   list_all2 (node_typed syms' cx) ns ts"
  by (erule list_all2_mono) (rule node_typed_dom)

section \<open>Names of structs\<close>

fun struct_declarations :: "ast_declaration list \<Rightarrow> struct_declaration list" where
  "struct_declarations [] = []"
| "struct_declarations (DeclStruct d # ds) = d # struct_declarations ds"
| "struct_declarations (DeclFunction f # ds) = struct_declarations ds"

fun function_declarations :: "ast_declaration list \<Rightarrow> function_declaration list" where
  "function_declarations [] = []"
| "function_declarations (DeclStruct d # ds) = function_declarations ds"
| "function_declarations (DeclFunction f # ds) = f # function_declarations ds"

abbreviation struct_key :: "struct_declaration \<Rightarrow> rstring" where
  "struct_key d \<equiv> id_name (struct_name d)"

abbreviation function_key :: "function_declaration \<Rightarrow> rstring" where
  "function_key f \<equiv> id_name (fn_name f)"

definition new_struct :: "struct_declaration \<Rightarrow> struct_symbol" where
  "new_struct d = \<lparr>ss_name = struct_key d, ss_declaration = d, ss_fields = Map.empty\<rparr>"

lemma collect_struct_name_pushes: "pushes st (collect_struct_name d st)"
  by (simp add: collect_struct_name_def Let_def) (auto simp: pushes_def ck_error_def ck_error_with_code_def)

lemma collect_struct_names_pushes: "pushes st (collect_struct_names ds st)"
  by (induction ds st rule: collect_struct_names.induct) (auto intro: pushes_trans collect_struct_name_pushes)

lemma struct_names_collected:
  assumes "ck_diagnostics (collect_struct_names ds st) = ck_diagnostics st"
  shows "distinct (map struct_key (struct_declarations ds)) \<and>
    (\<forall>d \<in> set (struct_declarations ds). sym_structs (ck_symbols st) (struct_key d) = None) \<and>
    sym_structs (ck_symbols (collect_struct_names ds st)) =
      sym_structs (ck_symbols st) ++ map_of (map (\<lambda>d. (struct_key d, new_struct d)) (struct_declarations ds)) \<and>
    sym_functions (ck_symbols (collect_struct_names ds st)) = sym_functions (ck_symbols st)"
  using assms
proof (induction ds st rule: collect_struct_names.induct)
  case (2 d ds st)
  let ?st1 = "collect_struct_name d st"
  have q: "ck_diagnostics ?st1 = ck_diagnostics st"
      "ck_diagnostics (collect_struct_names ds ?st1) = ck_diagnostics ?st1"
    using pushes_silent [OF collect_struct_name_pushes collect_struct_names_pushes] 2(2) by auto
  have n: "sym_structs (ck_symbols st) (struct_key d) = None"
    using q(1) by (rule_tac ccontr) (auto simp: collect_struct_name_def Let_def error_not_silent)
  then have s: "?st1 = set_structs ((sym_structs (ck_symbols st))(struct_key d \<mapsto> new_struct d)) st"
    by (simp add: collect_struct_name_def Let_def new_struct_def)
  have IH: "distinct (map struct_key (struct_declarations ds))"
    "\<forall>e \<in> set (struct_declarations ds). ((sym_structs (ck_symbols st))(struct_key d \<mapsto> new_struct d)) (struct_key e) = None"
    "sym_structs (ck_symbols (collect_struct_names ds ?st1)) = (sym_structs (ck_symbols st))(struct_key d \<mapsto> new_struct d) ++
       map_of (map (\<lambda>d. (struct_key d, new_struct d)) (struct_declarations ds))"
    "sym_functions (ck_symbols (collect_struct_names ds ?st1)) = sym_functions (ck_symbols st)"
    using 2(1) [OF q(2)] by (simp_all add: s del: fun_upd_apply)
  have d: "struct_key d \<notin> struct_key ` set (struct_declarations ds)" using IH(2) by (auto split: if_splits)
  have "sym_structs (ck_symbols st) (struct_key e) = None" if "e \<in> set (struct_declarations ds)" for e
    using IH(2) that by (auto split: if_splits)
  moreover have "struct_key d \<notin> dom (map_of (map (\<lambda>d. (struct_key d, new_struct d)) (struct_declarations ds)))"
    using d by (simp add: dom_map_of_conv_image_fst image_image)
  note map_add_upd_left [OF this]
  ultimately show ?case using n d IH by (simp del: fun_upd_apply)
qed auto

section \<open>Fields of structs\<close>

definition struct_typed :: "symbol_table \<Rightarrow> struct_declaration \<Rightarrow> bool" where
  "struct_typed syms d \<longleftrightarrow> distinct (map (\<lambda>f. id_name (field_name f)) (struct_fields d)) \<and>
     (\<exists>ts. list_all2 (node_typed syms UseStructField) (map field_type (struct_fields d)) ts \<and> list_all proper ts \<and>
       sym_structs syms (struct_key d) = Some \<lparr>ss_name = struct_key d, ss_declaration = d,
         ss_fields = map_of (zip (map (\<lambda>f. id_name (field_name f)) (struct_fields d)) ts)\<rparr>)"

lemma resolve_fields_grow:
  "resolve_struct_fields n fs seen res errs st = (res', errs', st') \<Longrightarrow> grows st st' \<and> (\<exists>more. errs' = errs @ more)"
proof (induction n fs seen res errs st arbitrary: res' errs' st' rule: resolve_struct_fields.induct)
  case (2 n f fs seen res errs st)
  show ?case
  proof (cases "id_name (field_name f) \<in> set seen")
    case True
    then show ?thesis using 2(1) [OF refl True] 2(3) by fastforce
  next
    case False
    obtain t st1 where r: "resolve_type (field_type f) UseStructField st = (t, st1)"
      by (cases "resolve_type (field_type f) UseStructField st")
    then have "resolve_struct_fields n fs (id_name (field_name f) # seen) (res @ [(id_name (field_name f), t)]) errs st1 =
      (res', errs', st')" using 2(3) False by (simp add: Let_def)
    from 2(2) [OF refl False r [symmetric] refl this] show ?thesis
      using resolve_type_grows [of st "field_type f" UseStructField] r by (auto intro: grows_trans)
  qed
qed (auto simp: grows_refl)

lemma resolve_fields_sound:
  assumes "resolve_struct_fields n fs seen res errs st = (res', errs, st')" "quiet st st'"
    "list_all (\<lambda>f. wf_type (field_type f)) fs"
  shows "distinct (map (\<lambda>f. id_name (field_name f)) fs) \<and> (\<forall>f \<in> set fs. id_name (field_name f) \<notin> set seen) \<and>
    (\<exists>ts. list_all2 (node_typed (ck_symbols st) UseStructField) (map field_type fs) ts \<and> list_all proper ts \<and>
      res' = res @ zip (map (\<lambda>f. id_name (field_name f)) fs) ts)"
  using assms
proof (induction fs arbitrary: seen res st)
  case Nil
  then show ?case by simp
next
  case (Cons f fs)
  let ?n = "id_name (field_name f)"
  have fresh: "?n \<notin> set seen"
  proof
    assume "?n \<in> set seen"
    then obtain e where "resolve_struct_fields n fs seen res (errs @ [e]) st = (res', errs, st')"
      using Cons.prems(1) by (auto simp: Let_def)
    from resolve_fields_grow [OF this] show False by auto
  qed
  obtain t st1 where r: "resolve_type (field_type f) UseStructField st = (t, st1)"
    by (cases "resolve_type (field_type f) UseStructField st")
  then have rest: "resolve_struct_fields n fs (?n # seen) (res @ [(?n, t)]) errs st1 = (res', errs, st')"
    using Cons.prems(1) fresh by (simp add: Let_def)
  have g: "grows st st1" using resolve_type_grows [of st "field_type f" UseStructField] r by simp
  have "ck_diagnostics st' = ck_diagnostics st" using Cons.prems(2) by (simp add: quiet_def)
  from quiet_split [OF g conjunct1 [OF resolve_fields_grow [OF rest]] this] have q: "quiet st st1" "quiet st1 st'" by simp_all
  have t: "node_typed (ck_symbols st) UseStructField (field_type f) t" "proper t"
    using resolve_sound [OF r q(1)] Cons.prems(3) by auto
  obtain ts where ts: "distinct (map (\<lambda>f. id_name (field_name f)) fs)" "\<forall>f \<in> set fs. id_name (field_name f) \<notin> set (?n # seen)"
      "list_all2 (node_typed (ck_symbols st) UseStructField) (map field_type fs) ts" "list_all proper ts"
      "res' = (res @ [(?n, t)]) @ zip (map (\<lambda>f. id_name (field_name f)) fs) ts"
    using Cons.IH [OF rest q(2)] Cons.prems(3) quiet_frame(1) [OF q(1)] by auto
  show ?case
    using ts t fresh by (intro conjI exI [of _ "t # ts"]) auto
qed

lemma fold_insert: "fold (\<lambda>(n, t) m. m(n \<mapsto> t)) xs m = m ++ map_of (rev xs)"
  by (induction xs arbitrary: m) (auto simp: map_add_upd_left fun_eq_iff map_add_def split: option.split)

lemma fold_insert_distinct: "distinct (map fst xs) \<Longrightarrow> fold (\<lambda>(n, t) m. m(n \<mapsto> t)) xs Map.empty = map_of xs"
  using map_of_inject_set [of "rev xs" xs] by (simp add: fold_insert rev_map [symmetric])


section \<open>The pass over the fields\<close>

lemma resolve_fields_errors:
  "fold (\<lambda>(span, message). ck_error span message) errs st =
     st\<lparr>ck_diagnostics := ck_diagnostics st @ map (\<lambda>(span, message).
       diagnostic_error (checker_diagnostic_code message) message (file_name (ck_source st)) span) errs\<rparr>"
  by (induction errs arbitrary: st) (auto simp: ck_error_def ck_error_with_code_def)

lemma insert_fields_symbols:
  "sym_structs (ck_symbols st) n = Some s \<Longrightarrow>
   insert_fields n res st = set_structs ((sym_structs (ck_symbols st))
     (n \<mapsto> s\<lparr>ss_fields := fold (\<lambda>(n, t) m. m(n \<mapsto> t)) res (ss_fields s)\<rparr>)) st"
  by (simp add: insert_fields_def)

lemma insert_fields_pushes: "pushes st (insert_fields n res st)"
  by (auto simp: insert_fields_def split: option.split)

lemma collect_fields_pushes: "pushes st (collect_struct_field_types d st)"
proof -
  obtain res errs st1 where r: "resolve_struct_fields (struct_key d) (struct_fields d) [] [] [] st = (res, errs, st1)"
    by (cases "resolve_struct_fields (struct_key d) (struct_fields d) [] [] [] st")
  have "pushes st st1" using resolve_fields_grow [OF r] grows_pushes by blast
  then have "pushes st (insert_fields (struct_key d) res st1)" by (rule pushes_trans [OF _ insert_fields_pushes])
  then have "pushes st (fold (\<lambda>(span, message). ck_error span message) errs (insert_fields (struct_key d) res st1))"
    by (auto simp: resolve_fields_errors pushes_def)
  then show ?thesis using r by (simp add: collect_struct_field_types_def Let_def split: option.split)
qed

lemma collect_struct_fields_pushes: "pushes st (collect_struct_fields ds st)"
  by (induction ds st rule: collect_struct_fields.induct) (auto intro: pushes_trans collect_fields_pushes)

lemma fields_of_struct:
  assumes "ck_diagnostics (collect_struct_field_types d st) = ck_diagnostics st"
    and s: "sym_structs (ck_symbols st) (struct_key d) = Some (new_struct d)"
    and wf: "list_all (\<lambda>f. wf_type (field_type f)) (struct_fields d)"
  shows "struct_typed (ck_symbols (collect_struct_field_types d st)) d \<and>
    (\<forall>n. n \<noteq> struct_key d \<longrightarrow> sym_structs (ck_symbols (collect_struct_field_types d st)) n = sym_structs (ck_symbols st) n) \<and>
    sym_functions (ck_symbols (collect_struct_field_types d st)) = sym_functions (ck_symbols st)"
proof -
  let ?n = "struct_key d" and ?names = "map (\<lambda>f. id_name (field_name f)) (struct_fields d)"
  obtain res errs st1 where r: "resolve_struct_fields ?n (struct_fields d) [] [] [] st = (res, errs, st1)"
    by (cases "resolve_struct_fields ?n (struct_fields d) [] [] [] st")
  have g: "grows st st1" using resolve_fields_grow [OF r] by blast
  have c: "collect_struct_field_types d st = fold (\<lambda>(span, message). ck_error span message) errs (insert_fields ?n res st1)"
    using s r by (simp add: collect_struct_field_types_def new_struct_def)
  have p: "pushes st1 (insert_fields ?n res st1)" by (rule insert_fields_pushes)
  have p2: "pushes (insert_fields ?n res st1) (collect_struct_field_types d st)"
    unfolding c by (simp add: resolve_fields_errors pushes_def)
  have q1: "ck_diagnostics st1 = ck_diagnostics st"
    using pushes_silent(1) [OF grows_pushes [OF g] pushes_trans [OF p p2] assms(1)] .
  have q2: "ck_diagnostics (collect_struct_field_types d st) = ck_diagnostics (insert_fields ?n res st1)"
    using pushes_silent(2) [OF pushes_trans [OF grows_pushes [OF g] p] p2 assms(1)] .
  then have errs: "errs = []" unfolding c by (simp add: resolve_fields_errors)
  have q: "quiet st st1" using grows_quiet [OF g q1] .
  obtain ts where ts: "distinct ?names" "list_all2 (node_typed (ck_symbols st) UseStructField) (map field_type (struct_fields d)) ts"
      "list_all proper ts" "res = zip ?names ts"
    using resolve_fields_sound [OF r [unfolded errs] q wf] by auto
  have len: "length ts = length ?names" using list_all2_lengthD [OF ts(2)] by simp
  have syms: "ck_symbols st1 = ck_symbols st" using quiet_frame(1) [OF q] .
  have c': "collect_struct_field_types d st = set_structs ((sym_structs (ck_symbols st))
      (?n \<mapsto> (new_struct d)\<lparr>ss_fields := map_of (zip ?names ts)\<rparr>)) st1"
    unfolding c errs using s syms insert_fields_symbols [of st1 ?n "new_struct d" res] fold_insert_distinct [of res] ts len
    by (simp add: new_struct_def)
  have "dom (sym_structs (ck_symbols st)) = dom (sym_structs (ck_symbols (collect_struct_field_types d st)))"
    using s unfolding c' by auto
  then have "list_all2 (node_typed (ck_symbols (collect_struct_field_types d st)) UseStructField) (map field_type (struct_fields d)) ts"
    using ts(2) by (rule nodes_typed_dom)
  then have "struct_typed (ck_symbols (collect_struct_field_types d st)) d"
    using ts(1,3) unfolding struct_typed_def c' by (auto simp: new_struct_def)
  then show ?thesis using syms unfolding c' by simp
qed

lemma struct_typed_dom:
  assumes "struct_typed syms d" "dom (sym_structs syms) = dom (sym_structs syms')"
    "sym_structs syms' (struct_key d) = sym_structs syms (struct_key d)"
  shows "struct_typed syms' d"
  using assms(1,3) nodes_typed_dom [OF assms(2)] unfolding struct_typed_def by auto

lemma fields_collected:
  assumes "ck_diagnostics (collect_struct_fields ds st) = ck_diagnostics st"
    "distinct (map struct_key (struct_declarations ds))"
    "\<forall>d \<in> set (struct_declarations ds). sym_structs (ck_symbols st) (struct_key d) = Some (new_struct d)"
    "list_all wf_declaration ds"
  shows "(\<forall>d \<in> set (struct_declarations ds). struct_typed (ck_symbols (collect_struct_fields ds st)) d) \<and>
    dom (sym_structs (ck_symbols (collect_struct_fields ds st))) = dom (sym_structs (ck_symbols st)) \<and>
    (\<forall>n. n \<notin> struct_key ` set (struct_declarations ds) \<longrightarrow>
       sym_structs (ck_symbols (collect_struct_fields ds st)) n = sym_structs (ck_symbols st) n) \<and>
    sym_functions (ck_symbols (collect_struct_fields ds st)) = sym_functions (ck_symbols st)"
  using assms
proof (induction ds st rule: collect_struct_fields.induct)
  case (2 d ds st)
  let ?st1 = "collect_struct_field_types d st" and ?st2 = "collect_struct_fields (DeclStruct d # ds) st"
  have q: "ck_diagnostics ?st1 = ck_diagnostics st"
      "ck_diagnostics (collect_struct_fields ds ?st1) = ck_diagnostics ?st1"
    using pushes_silent [OF collect_fields_pushes collect_struct_fields_pushes] 2(2) by auto
  have d: "struct_typed (ck_symbols ?st1) d" "sym_functions (ck_symbols ?st1) = sym_functions (ck_symbols st)"
      "n \<noteq> struct_key d \<Longrightarrow> sym_structs (ck_symbols ?st1) n = sym_structs (ck_symbols st) n" for n
    using fields_of_struct [OF q(1)] 2(4,5) by auto
  have dom1: "dom (sym_structs (ck_symbols ?st1)) = dom (sym_structs (ck_symbols st))"
  proof (rule set_eqI)
    fix n show "n \<in> dom (sym_structs (ck_symbols ?st1)) \<longleftrightarrow> n \<in> dom (sym_structs (ck_symbols st))"
      using d(1,3) 2(4) by (cases "n = struct_key d") (auto simp: struct_typed_def)
  qed
  have nd: "struct_key d \<notin> struct_key ` set (struct_declarations ds)" using 2(3) by auto
  have "sym_structs (ck_symbols ?st1) (struct_key e) = Some (new_struct e)" if "e \<in> set (struct_declarations ds)" for e
  proof -
    have "struct_key e \<noteq> struct_key d" using nd that by (metis image_eqI)
    then show ?thesis using d(3) 2(4) that by simp
  qed
  then have IH: "\<forall>e \<in> set (struct_declarations ds). struct_typed (ck_symbols ?st2) e"
      "dom (sym_structs (ck_symbols ?st2)) = dom (sym_structs (ck_symbols ?st1))"
      "n \<notin> struct_key ` set (struct_declarations ds) \<Longrightarrow> sym_structs (ck_symbols ?st2) n = sym_structs (ck_symbols ?st1) n"
      "sym_functions (ck_symbols ?st2) = sym_functions (ck_symbols ?st1)" for n
    using 2(1) [OF q(2)] 2(3,5) by simp_all
  have "struct_typed (ck_symbols ?st2) d"
    using struct_typed_dom [OF d(1), of "ck_symbols ?st2"] IH(2,3) nd by simp
  then show ?case using IH d(2,3) dom1 by auto
qed auto

end
