(* ===== verification/Typeck_Safety.thy ===== *)
theory Typeck_Safety
  imports Typeck_Program
begin

text \<open>
  Signatures, bodies and the whole program: an accepted program is well-typed.
\<close>

section \<open>Signatures\<close>

definition signature_rules :: "function_declaration \<Rightarrow> ck_type \<Rightarrow> bool" where
  "signature_rules f rt \<longleftrightarrow>
     (if function_key f = main_name
      then \<not> is_unsafe f \<and> fn_contract f = None \<and> \<not> exported f \<and> fn_params f = [] \<and> entry_result_type rt
      else (is_unsafe f \<longleftrightarrow> fn_contract f \<noteq> None) \<and> (\<forall>c. fn_contract f = Some c \<longrightarrow> requirements c \<noteq> [])) \<and>
     (exported f \<longrightarrow> \<not> is_slice rt)"

definition signature_typed :: "symbol_table \<Rightarrow> function_declaration \<Rightarrow> ck_type list \<Rightarrow> ck_type \<Rightarrow> bool" where
  "signature_typed syms f ts rt \<longleftrightarrow> get_compiler_builtin (function_key f) = None \<and>
     list_all2 (node_typed syms UseParameter) (map param_type (fn_params f)) ts \<and> list_all proper ts \<and>
     node_typed syms UseFunctionReturn (return_type f) rt \<and> (proper rt \<or> rt = CkVoid) \<and> signature_rules f rt"

definition function_symbol_of :: "function_declaration \<Rightarrow> ck_type list \<Rightarrow> ck_type \<Rightarrow> function_symbol" where
  "function_symbol_of f ts rt = \<lparr>fs_name = function_key f, fs_declaration = f, fs_params = ts, fs_return_type = rt\<rparr>"

lemma grows_report_if [grows_intros]: "grows s st \<Longrightarrow> grows s (report_if b sp c m st)"
  by (simp add: report_if_def grows_intros)

lemma grows_signature_checks [grows_intros]:
  "grows s st \<Longrightarrow> grows s (check_entry_signature f rt st)"
  "grows s st \<Longrightarrow> grows s (check_contract_presence f st)"
  by (auto simp: check_entry_signature_def check_contract_presence_def Let_def intro!: grows_intros split: list.split)

lemma quiet_report_if [simp]: "quiet st (report_if b sp c m st) \<longleftrightarrow> \<not> b"
  by (simp add: report_if_def)

lemma quiet_grows_split: "grows st st1 \<Longrightarrow> grows st1 st2 \<Longrightarrow> quiet st st2 \<Longrightarrow> quiet st st1 \<and> quiet st1 st2"
  using quiet_split [of st st1 st2] by (simp add: quiet_def)

lemma quiet_report: "quiet s (report_if b sp c m st) \<Longrightarrow> grows s st \<Longrightarrow> quiet s st \<and> \<not> b"
  using quiet_grows_split [of s st "report_if b sp c m st"] by (simp add: grows_intros)

lemma entry_signature_rules:
  assumes "quiet st (check_entry_signature f rt st)"
  shows "\<not> is_unsafe f \<and> fn_contract f = None \<and> \<not> exported f \<and> fn_params f = [] \<and> entry_result_type rt"
  using assms
  by (cases "fn_params f") (auto simp: check_entry_signature_def Let_def grows_intros dest!: quiet_report)

lemma contract_presence_rules:
  assumes "quiet st (check_contract_presence f st)"
  shows "(is_unsafe f \<longleftrightarrow> fn_contract f \<noteq> None) \<and> (\<forall>c. fn_contract f = Some c \<longrightarrow> requirements c \<noteq> [])"
proof -
  have "\<not> (\<not> is_unsafe f \<and> fn_contract f \<noteq> None)"
    "\<not> (is_unsafe f \<and> (case fn_contract f of None \<Rightarrow> True | Some c \<Rightarrow> requirements c = []))"
    using assms quiet_report [OF assms [unfolded check_contract_presence_def Let_def]]
    by (auto simp: grows_intros)
  then show ?thesis by (auto split: option.splits)
qed

lemma resolve_params_grows: "grows st (snd (resolve_params ps st))"
  by (induction ps arbitrary: st) (auto simp: Let_def case_prod_unfold grows_refl intro: grows_trans resolve_type_grows)

lemma resolve_params_sound:
  "resolve_params ps st = (ts, st') \<Longrightarrow> quiet st st' \<Longrightarrow> list_all (\<lambda>p. wf_type (param_type p)) ps \<Longrightarrow>
   list_all2 (node_typed (ck_symbols st) UseParameter) (map param_type ps) ts \<and> list_all proper ts"
proof (induction ps arbitrary: st ts)
  case (Cons p ps)
  obtain t st1 where 1: "resolve_type (param_type p) UseParameter st = (t, st1)"
    by (cases "resolve_type (param_type p) UseParameter st")
  obtain us st2 where 2: "resolve_params ps st1 = (us, st2)" by (cases "resolve_params ps st1")
  have e: "ts = t # us" "st' = st2" using Cons.prems(1) 1 2 by simp_all
  have g: "grows st st1" "grows st1 st'"
    using resolve_type_grows [of st "param_type p" UseParameter] resolve_params_grows [of st1 ps] 1 2 e by simp_all
  have q: "quiet st st1" "quiet st1 st'" using quiet_grows_split [OF g Cons.prems(2)] by simp_all
  show ?case
    using resolve_sound [OF 1 q(1)] Cons.IH [of st1 us] 2 q(2) Cons.prems(3) quiet_frame(1) [OF q(1)] e by auto
qed simp

lemma signature_pushes: "pushes st (collect_function_signature f st)"
proof -
  obtain ts st1 where 1: "resolve_params (fn_params f) st = (ts, st1)" by (cases "resolve_params (fn_params f) st")
  obtain rt st2 where 2: "resolve_type (return_type f) UseFunctionReturn st1 = (rt, st2)"
    by (cases "resolve_type (return_type f) UseFunctionReturn st1")
  have "grows st st1" "grows st1 st2"
    using resolve_params_grows [of st "fn_params f"] resolve_type_grows [of st1 "return_type f" UseFunctionReturn] 1 2 by simp_all
  then have "grows st st2" by (rule grows_trans)
  then show ?thesis
    by (auto simp: collect_function_signature_def 1 2 Let_def intro!: grows_pushes grows_intros grows_refl)
qed

lemma signatures_push: "pushes st (collect_function_signatures ds st)"
  by (induction ds st rule: collect_function_signatures.induct) (auto intro: pushes_trans signature_pushes)

lemma signature_collected:
  assumes "ck_diagnostics (collect_function_signature f st) = ck_diagnostics st"
    and wf: "list_all (\<lambda>p. wf_type (param_type p)) (fn_params f)" "wf_type (return_type f)"
  shows "sym_functions (ck_symbols st) (function_key f) = None \<and>
    (\<exists>ts rt. signature_typed (ck_symbols st) f ts rt \<and>
      ck_symbols (collect_function_signature f st) =
        (ck_symbols st)\<lparr>sym_functions := (sym_functions (ck_symbols st))(function_key f \<mapsto> function_symbol_of f ts rt)\<rparr>)"
proof -
  let ?n = "function_key f"
  have b: "get_compiler_builtin ?n = None" and n: "sym_functions (ck_symbols st) ?n = None"
    using assms(1) error_not_silent(2) [OF pushes_refl]
    by (force simp: collect_function_signature_def Let_def split: if_splits)+
  obtain ts st1 where 1: "resolve_params (fn_params f) st = (ts, st1)" by (cases "resolve_params (fn_params f) st")
  obtain rt st2 where 2: "resolve_type (return_type f) UseFunctionReturn st1 = (rt, st2)"
    by (cases "resolve_type (return_type f) UseFunctionReturn st1")
  let ?st3 = "if ?n = main_name then check_entry_signature f rt st2 else check_contract_presence f st2"
  let ?st4 = "report_if (exported f \<and> is_slice rt) (type_span (return_type f)) Ck2012
    ''An exported function cannot return a slice.'' ?st3"
  have c: "collect_function_signature f st =
      set_functions ((sym_functions (ck_symbols ?st4))(?n \<mapsto> function_symbol_of f ts rt)) ?st4"
    using b n 1 2 by (simp add: collect_function_signature_def Let_def function_symbol_of_def)
  have g: "grows st st1" "grows st1 st2" "grows st2 ?st3" "grows ?st3 ?st4"
    using resolve_params_grows [of st "fn_params f"] resolve_type_grows [of st1 "return_type f" UseFunctionReturn] 1 2
    by (simp_all add: grows_intros)
  have "quiet st ?st4"
    using grows_quiet [OF grows_trans [OF g(1) grows_trans [OF g(2) grows_trans [OF g(3,4)]]]] assms(1) c by simp
  from quiet_grows_split [OF grows_trans [OF g(1) grows_trans [OF g(2,3)]] g(4) this]
  have q: "quiet st ?st3" "quiet ?st3 ?st4" by blast+
  from quiet_grows_split [OF grows_trans [OF g(1,2)] g(3) q(1)] have q1: "quiet st st2" "quiet st2 ?st3" by blast+
  from quiet_grows_split [OF g(1,2) q1(1)] have q2: "quiet st st1" "quiet st1 st2" by blast+
  have ts: "list_all2 (node_typed (ck_symbols st) UseParameter) (map param_type (fn_params f)) ts" "list_all proper ts"
    using resolve_params_sound [OF 1 q2(1) wf(1)] by simp_all
  have rt: "node_typed (ck_symbols st) UseFunctionReturn (return_type f) rt" "proper rt \<or> rt = CkVoid"
    using resolve_sound [OF 2 q2(2) wf(2)] quiet_frame(1) [OF q2(1)] by auto
  have "signature_rules f rt"
    using q(2) q1(2) entry_signature_rules [of st2 f rt] contract_presence_rules [of st2 f]
    by (auto simp: signature_rules_def split: if_splits)
  moreover have "ck_symbols ?st4 = ck_symbols st" using quiet_frame(1) [OF q(1)] quiet_frame(1) [OF q(2)] by simp
  then have "ck_symbols (collect_function_signature f st) =
      (ck_symbols st)\<lparr>sym_functions := (sym_functions (ck_symbols st))(?n \<mapsto> function_symbol_of f ts rt)\<rparr>"
    unfolding c set_functions_def by simp
  ultimately show ?thesis using b n ts rt unfolding signature_typed_def by blast
qed

lemma signature_typed_dom:
  "sym_structs syms = sym_structs syms' \<Longrightarrow> signature_typed syms f ts rt \<Longrightarrow> signature_typed syms' f ts rt"
  unfolding signature_typed_def using nodes_typed_dom [of syms syms'] node_typed_dom [of syms syms'] by auto

lemma signatures_collected:
  assumes "ck_diagnostics (collect_function_signatures ds st) = ck_diagnostics st" "list_all wf_declaration ds"
  shows "distinct (map function_key (function_declarations ds)) \<and>
    (\<forall>f \<in> set (function_declarations ds). sym_functions (ck_symbols st) (function_key f) = None \<and>
      (\<exists>ts rt. signature_typed (ck_symbols st) f ts rt \<and>
        sym_functions (ck_symbols (collect_function_signatures ds st)) (function_key f) = Some (function_symbol_of f ts rt))) \<and>
    (\<forall>n. n \<notin> function_key ` set (function_declarations ds) \<longrightarrow>
       sym_functions (ck_symbols (collect_function_signatures ds st)) n = sym_functions (ck_symbols st) n) \<and>
    sym_structs (ck_symbols (collect_function_signatures ds st)) = sym_structs (ck_symbols st)"
  using assms
proof (induction ds st rule: collect_function_signatures.induct)
  case (3 f ds st)
  let ?st1 = "collect_function_signature f st" and ?st2 = "collect_function_signatures ds (collect_function_signature f st)"
  have q: "ck_diagnostics ?st1 = ck_diagnostics st" "ck_diagnostics ?st2 = ck_diagnostics ?st1"
    using pushes_silent [OF signature_pushes signatures_push] 3(2) by auto
  obtain ts rt where f: "sym_functions (ck_symbols st) (function_key f) = None" "signature_typed (ck_symbols st) f ts rt"
      "ck_symbols ?st1 = (ck_symbols st)\<lparr>sym_functions := (sym_functions (ck_symbols st))(function_key f \<mapsto> function_symbol_of f ts rt)\<rparr>"
    using signature_collected [OF q(1)] 3(3) by auto
  have IH: "distinct (map function_key (function_declarations ds))"
    "\<forall>g \<in> set (function_declarations ds). sym_functions (ck_symbols ?st1) (function_key g) = None \<and>
      (\<exists>ts rt. signature_typed (ck_symbols ?st1) g ts rt \<and>
        sym_functions (ck_symbols ?st2) (function_key g) = Some (function_symbol_of g ts rt))"
    "\<forall>n. n \<notin> function_key ` set (function_declarations ds) \<longrightarrow>
       sym_functions (ck_symbols ?st2) n = sym_functions (ck_symbols ?st1) n"
    "sym_structs (ck_symbols ?st2) = sym_structs (ck_symbols ?st1)"
    using 3(1) [OF q(2)] 3(3) by simp_all
  have nf: "function_key g \<noteq> function_key f" if "g \<in> set (function_declarations ds)" for g
    using IH(2) that f(3) by (cases "function_key g = function_key f") force+
  have "sym_functions (ck_symbols st) (function_key g) = None \<and>
      (\<exists>ts rt. signature_typed (ck_symbols st) g ts rt \<and>
        sym_functions (ck_symbols ?st2) (function_key g) = Some (function_symbol_of g ts rt))"
    if g: "g \<in> set (function_declarations ds)" for g
  proof -
    from IH(2) g obtain ts rt where "sym_functions (ck_symbols ?st1) (function_key g) = None"
      "signature_typed (ck_symbols ?st1) g ts rt" "sym_functions (ck_symbols ?st2) (function_key g) = Some (function_symbol_of g ts rt)"
      by blast
    moreover have "signature_typed (ck_symbols st) g ts rt"
      by (rule signature_typed_dom [OF _ calculation(2)]) (simp add: f(3))
    ultimately show ?thesis using nf [OF g] f(3) by auto
  qed
  moreover have notin: "function_key f \<notin> function_key ` set (function_declarations ds)" using nf by (metis imageE)
  moreover have "sym_functions (ck_symbols ?st2) (function_key f) = Some (function_symbol_of f ts rt)"
    using IH(3) notin f(3) by simp
  ultimately show ?case using f IH(1,3,4) by auto
qed auto

section \<open>Contracts\<close>

lemma grows_contract_errors [grows_intros]:
  "grows s st \<Longrightarrow> grows s (contract_error sp m st)"
  "grows s st \<Longrightarrow> grows s (contract_named_error sp m n st)"
  by (simp_all add: contract_error_def contract_named_error_def grows_intros)

lemma grows_and_then:
  assumes "grows s (snd m)" "\<And>x st. grows s st \<Longrightarrow> grows s (snd (f x st))"
  shows "grows s (snd (and_then m f))"
  using assms by (auto simp: and_then_def split: prod.splits option.splits)

lemma grows_affine [grows_intros]: "grows s st \<Longrightarrow> grows s (snd (check_contract_affine e sc st))"
proof (induction e arbitrary: s st)
  case (EBinary op l r sp)
  then show ?case
    by (auto simp: unsupported_affine_def combine_affine_def intro!: grows_and_then grows_intros)
qed (auto simp: unsupported_affine_def affine_parameter_def affine_slice_length_def
      intro!: grows_and_then grows_intros split: option.split expression.split)

lemma grows_contract_places [grows_intros]:
  "grows s st \<Longrightarrow> grows s (snd (contract_slice_parameter e sc st))"
  "grows s st \<Longrightarrow> grows s (snd (contract_pointer e sc st))"
  by (auto simp: contract_slice_parameter_def contract_pointer_def Let_def intro!: grows_intros split: expression.split)

lemma grows_contract_builtins [grows_intros]:
  "grows s st \<Longrightarrow> grows s (snd (check_contract_multiple_of args sp sc st))"
  "grows s st \<Longrightarrow> grows s (snd (check_contract_noalias args sp sc st))"
  "grows s st \<Longrightarrow> grows s (snd (check_contract_aligned args sp sc st))"
  by (auto simp: check_contract_multiple_of_def check_contract_noalias_def check_contract_aligned_def Let_def
    intro!: grows_and_then grows_intros split: list.split expression.split option.split)

lemma grows_predicate [grows_intros]: "grows s st \<Longrightarrow> grows s (snd (check_contract_predicate e sc st))"
proof (induction e arbitrary: s st)
  case (EBinary op l r sp)
  then show ?case
    by (auto simp: unsupported_predicate_def compare_affine_def comparison_types_def Let_def intro!: grows_and_then grows_intros)
qed (auto simp: unsupported_predicate_def check_contract_builtin_def intro!: grows_intros split: expression.split)

lemma grows_predicates [grows_intros]: "grows s st \<Longrightarrow> grows s (snd (check_contract_predicates rs sc st))"
  by (induction rs arbitrary: st) (auto simp: Let_def case_prod_unfold intro!: grows_intros)

lemma grows_effect_items [grows_intros]: "grows s st \<Longrightarrow> grows s (snd (check_effect_items items sc seen m st))"
  by (induction items arbitrary: seen m st) (simp_all add: Let_def grows_intros)

lemma grows_contract [grows_intros]: "grows s st \<Longrightarrow> grows s (snd (check_contract c sc ps st))"
  by (auto simp: check_contract_def check_contract_effects_def Let_def case_prod_unfold intro!: grows_intros split: option.split)

section \<open>Bodies\<close>

text \<open>A body changes neither the symbols nor the program.\<close>

definition pushes_only :: "checker \<Rightarrow> checker \<Rightarrow> bool" where
  "pushes_only st st' \<longleftrightarrow> pushes st st' \<and> ck_symbols st' = ck_symbols st"

lemma pushes_only_trans: "pushes_only st st1 \<Longrightarrow> pushes_only st1 st2 \<Longrightarrow> pushes_only st st2"
  by (auto simp: pushes_only_def intro: pushes_trans)

lemma grows_pushes_only: "grows st st' \<Longrightarrow> pushes_only st st'"
  using grows_pushes by (auto simp: pushes_only_def grows_def)

lemma function_contract_pushes: "pushes_only st (check_function_contract f symbol sc st)"
proof (cases "fn_contract f")
  case (Some c)
  obtain r st1 where 1: "check_contract c sc (slice_params (fn_params f) (fs_params symbol)) st = (r, st1)"
    by (cases "check_contract c sc (slice_params (fn_params f) (fs_params symbol)) st")
  have "grows st (snd (check_contract c sc (slice_params (fn_params f) (fs_params symbol)) st))"
    by (intro grows_intros)
  then have "pushes_only st st1" using 1 by (simp add: grows_pushes_only)
  then show ?thesis using Some 1
    by (auto simp: check_function_contract_def pushes_only_def pushes_def split: option.split)
qed (simp add: check_function_contract_def pushes_only_def)

lemma declare_params_grows: "grows st (snd (declare_params ps i ts (sc, st)))"
proof (induction ps i ts "(sc, st)" arbitrary: sc st rule: declare_params.induct)
  case (2 p ps i ts sc st)
  let ?d = "declare_variable (id_name (param_name p)) (param_type_at ts i) (id_span (param_name p)) (sc, st)"
  have "grows st (snd ?d)" by (simp add: grows_intros)
  then show ?case using 2 [of "fst ?d" "snd ?d"] by (auto intro: grows_trans)
qed (simp add: grows_refl)

definition param_scope :: "function_param list \<Rightarrow> ck_type list \<Rightarrow> scope" where
  "param_scope ps ts = (if ps = [] then [] else
     [map_of (map (\<lambda>(p, t). (id_name (param_name p), \<lparr>var_name = id_name (param_name p), var_type = t\<rparr>)) (zip ps ts))])"

lemma declare_params_frame:
  assumes "declare_params ps i us ([frame], st) = (sc', st')" "quiet st st'" "length us = i + length ps"
  shows "distinct (map (\<lambda>p. id_name (param_name p)) ps) \<and> (\<forall>p \<in> set ps. frame (id_name (param_name p)) = None) \<and>
    sc' = [frame ++ map_of (map (\<lambda>(p, t). (id_name (param_name p), \<lparr>var_name = id_name (param_name p), var_type = t\<rparr>))
      (zip ps (drop i us)))]"
  using assms
proof (induction ps arbitrary: i frame st)
  case (Cons p ps)
  let ?n = "id_name (param_name p)"
  have i: "i < length us" using Cons.prems(3) by simp
  let ?v = "\<lparr>var_name = ?n, var_type = us ! i\<rparr>"
  obtain sc1 st1 where d: "declare_variable ?n (us ! i) (id_span (param_name p)) ([frame], st) = (sc1, st1)"
    by (cases "declare_variable ?n (us ! i) (id_span (param_name p)) ([frame], st)")
  have rest: "declare_params ps (i + 1) us (sc1, st1) = (sc', st')"
    using Cons.prems(1) d i by (simp add: param_type_at_def)
  have g: "grows st st1" "grows st1 st'"
    using grows_simple_statements(1) [of st "([frame], st)" ?n "us ! i" "id_span (param_name p)"] d
      declare_params_grows [of st1 ps "i + 1" us sc1] rest by (simp_all add: grows_refl)
  have q: "quiet st st1" "quiet st1 st'" using quiet_grows_split [OF g Cons.prems(2)] by simp_all
  have fr: "frame ?n = None" "sc1 = [frame(?n \<mapsto> ?v)]"
    using d q(1) by (auto simp: declare_variable_def scope_declare_def split: if_splits)
  have IH: "distinct (map (\<lambda>p. id_name (param_name p)) ps)" "\<forall>q \<in> set ps. (frame(?n \<mapsto> ?v)) (id_name (param_name q)) = None"
      "sc' = [frame(?n \<mapsto> ?v) ++ map_of (map (\<lambda>(p, t). (id_name (param_name p), \<lparr>var_name = id_name (param_name p), var_type = t\<rparr>))
        (zip ps (drop (i + 1) us)))]"
    using Cons.IH [OF rest [unfolded fr(2)] q(2)] Cons.prems(3) by (simp_all del: fun_upd_apply)
  have n: "?n \<notin> (\<lambda>p. id_name (param_name p)) ` set ps" "q \<in> set ps \<Longrightarrow> frame (id_name (param_name q)) = None" for q
    using IH(2) by (auto split: if_splits)
  have drop: "drop i us = us ! i # drop (i + 1) us" using i by (simp add: Cons_nth_drop_Suc)
  let ?m = "map_of (map (\<lambda>(p, t). (id_name (param_name p), \<lparr>var_name = id_name (param_name p), var_type = t\<rparr>)) (zip ps (drop (i + 1) us)))"
  have "?n \<notin> dom ?m" using n(1) by (auto simp: dom_map_of_conv_image_fst dest: set_zip_leftD)
  then show ?case using IH(1,3) fr(1) n drop
    by (auto simp: map_add_upd_left map_add_def fun_eq_iff split: option.split)
qed auto

lemma declare_params_start: "p # ps = qs \<Longrightarrow> declare_params qs i us ([], st) = declare_params qs i us ([Map.empty], st)"
  by (auto simp: declare_variable_def scope_declare_def scope_push_def)

lemma declare_params_sound:
  assumes "declare_params ps 0 us ([], st) = (sc', st')" "quiet st st'" "length us = length ps"
  shows "distinct (map (\<lambda>p. id_name (param_name p)) ps) \<and> sc' = param_scope ps us"
proof (cases ps)
  case (Cons p qs)
  have "declare_params ps 0 us ([Map.empty], st) = (sc', st')"
    using assms(1) declare_params_start [OF Cons [symmetric], of 0 us st] by simp
  from declare_params_frame [OF this assms(2)] show ?thesis using assms(3) Cons by (simp add: param_scope_def)
qed (use assms in \<open>simp add: param_scope_def\<close>)

definition body_typed :: "symbol_table \<Rightarrow> function_declaration \<Rightarrow> ck_type list \<Rightarrow> ck_type \<Rightarrow> bool" where
  "body_typed syms f ts rt \<longleftrightarrow> distinct (map (\<lambda>p. id_name (param_name p)) (fn_params f)) \<and>
     (\<exists>sc. statements_typed syms rt False False (param_scope (fn_params f) ts) (block_statements (fn_body f)) sc) \<and>
     (rt = CkVoid \<or> \<not> runs_all (block_statements (fn_body f)) Falls)"

lemma list_all_nth_zip:
  "list_all P ts \<Longrightarrow> map_of (map (\<lambda>(p, t). (k p, \<lparr>var_name = k p, var_type = t\<rparr>)) (zip ps ts)) n = Some v \<Longrightarrow> P (var_type v)"
proof -
  assume a: "list_all P ts" "map_of (map (\<lambda>(p, t). (k p, \<lparr>var_name = k p, var_type = t\<rparr>)) (zip ps ts)) n = Some v"
  from map_of_SomeD [OF a(2)] obtain p t where "(p, t) \<in> set (zip ps ts)" "v = \<lparr>var_name = k p, var_type = t\<rparr>" by auto
  then show "P (var_type v)" using a(1) set_zip_rightD [of p t ps ts] by (auto simp: list_all_iff)
qed

lemma param_scope_ok: "list_all proper ts \<Longrightarrow> scope_ok (param_scope ps ts)"
  unfolding scope_ok_def param_scope_def
  by (auto split: if_splits option.splits intro: list_all_nth_zip [where k = "\<lambda>p. id_name (param_name p)"])

lemma body_block_sound:
  assumes "check_body_block b sc rt st = (fl, sc', st')" "quiet st st'"
    "syms_ok (ck_symbols st)" "scope_ok sc" "result_type_ok rt" "wf_block b"
  shows "statements_typed (ck_symbols st) rt (0 < ck_unsafe_depth st) (0 < ck_loop_depth st) sc (block_statements b) sc' \<and>
    (\<forall>r. flow_has fl r \<longleftrightarrow> runs_all (block_statements b) r)"
proof -
  have "list_all wf_statement (block_statements b)" using assms(6) by (cases b) simp
  moreover have "falls_through flow_falls_through" by (simp add: flow_falls_through_def)
  ultimately show ?thesis
    using statements_sound [OF statement_sound assms(1) [unfolded check_body_block_def] assms(2) _ assms(3-5)] by simp
qed

lemma function_body_pushes: "pushes_only st (check_function_body f symbol st)"
proof -
  obtain sc st1 where 1: "declare_params (fn_params f) 0 (fs_params symbol) ([], st) = (sc, st1)"
    by (cases "declare_params (fn_params f) 0 (fs_params symbol) ([], st)")
  let ?st2 = "check_function_contract f symbol sc st1"
  let ?st3 = "?st2\<lparr>ck_loop_depth := 0, ck_unsafe_depth := 0\<rparr>"
  obtain fl sc' st4 where 4: "check_body_block (fn_body f) sc (fs_return_type symbol) ?st3 = (fl, sc', st4)"
    by (cases "check_body_block (fn_body f) sc (fs_return_type symbol) ?st3")
  have p: "pushes_only st st1"
    using declare_params_grows [of st "fn_params f" 0 "fs_params symbol" "[]"] 1 by (simp add: grows_pushes_only)
  have p2: "pushes_only st1 ?st2" by (rule function_contract_pushes)
  have p3: "pushes_only ?st2 ?st3" by (simp add: pushes_only_def pushes_def)
  have p4: "pushes_only ?st3 st4"
    using statements_grow [OF 4 [unfolded check_body_block_def]] by (rule grows_pushes_only)
  have p5: "pushes_only st4 (ck_error sp m st4)" for sp m
    by (rule grows_pushes_only) (simp add: grows_intros)
  have "pushes_only st st4" using pushes_only_trans [OF p pushes_only_trans [OF p2 pushes_only_trans [OF p3 p4]]] .
  then show ?thesis using p5 pushes_only_trans [OF _ p5] by (simp add: check_function_body_def 1 4)
qed

lemma function_body_sound:
  assumes q: "ck_diagnostics (check_function_body f (function_symbol_of f ts rt) st) = ck_diagnostics st"
    and ok: "syms_ok (ck_symbols st)" "list_all proper ts" "length ts = length (fn_params f)" "result_type_ok rt" "wf_block (fn_body f)"
  shows "body_typed (ck_symbols st) f ts rt"
proof -
  obtain sc st1 where 1: "declare_params (fn_params f) 0 ts ([], st) = (sc, st1)"
    by (cases "declare_params (fn_params f) 0 ts ([], st)")
  let ?st2 = "check_function_contract f (function_symbol_of f ts rt) sc st1"
  let ?st3 = "?st2\<lparr>ck_loop_depth := 0, ck_unsafe_depth := 0\<rparr>"
  obtain fl sc' st4 where 4: "check_body_block (fn_body f) sc rt ?st3 = (fl, sc', st4)"
    by (cases "check_body_block (fn_body f) sc rt ?st3")
  let ?st5 = "check_function_body f (function_symbol_of f ts rt) st"
  have g1: "grows st st1" using declare_params_grows [of st "fn_params f" 0 ts "[]"] 1 by simp
  have p2: "pushes_only st1 ?st2" by (rule function_contract_pushes)
  have p3: "pushes_only ?st2 ?st3" by (simp add: pushes_only_def pushes_def)
  have g4: "grows ?st3 st4" using statements_grow [OF 4 [unfolded check_body_block_def]] .
  obtain sp m where st5: "?st5 = (if falls_through fl \<and> rt \<noteq> CkVoid then ck_error sp m st4 else st4)"
    using 1 4 by (simp add: check_function_body_def function_symbol_of_def)
  have p5: "pushes st4 ?st5"
    unfolding st5 using grows_pushes [OF grows_error [OF grows_refl]] by simp
  have p23: "pushes_only st1 ?st3" by (rule pushes_only_trans [OF p2 p3])
  have p14: "pushes st1 st4" using pushes_trans p23 grows_pushes [OF g4] by (auto simp: pushes_only_def)
  note d1 = pushes_silent [OF grows_pushes [OF g1] pushes_trans [OF p14 p5] q]
  note d2 = pushes_silent [OF p14 p5 d1(2)]
  have d3: "ck_diagnostics ?st3 = ck_diagnostics st1" "ck_diagnostics st4 = ck_diagnostics ?st3"
    using pushes_silent [of st1 ?st3 st4] p23 grows_pushes [OF g4] d2(1) by (simp_all add: pushes_only_def)
  have q1: "quiet st st1" by (rule grows_quiet [OF g1 d1(1)])
  have q4: "quiet ?st3 st4" by (rule grows_quiet [OF g4 d3(2)])
  have sc: "distinct (map (\<lambda>p. id_name (param_name p)) (fn_params f))" "sc = param_scope (fn_params f) ts"
    using declare_params_sound [OF 1 q1 ok(3)] by simp_all
  have syms: "ck_symbols ?st3 = ck_symbols st"
    using p23 quiet_frame(1) [OF q1] unfolding pushes_only_def by metis
  have body: "statements_typed (ck_symbols st) rt False False sc (block_statements (fn_body f)) sc' \<and>
      (\<forall>r. flow_has fl r \<longleftrightarrow> runs_all (block_statements (fn_body f)) r)"
    using body_block_sound [OF 4 q4] ok syms param_scope_ok [OF ok(2), of "fn_params f"] sc(2) by simp
  have "\<not> (falls_through fl \<and> rt \<noteq> CkVoid)" using d2(2) st5 error_not_silent(2) [OF pushes_refl]
    by (auto split: if_splits)
  then have "rt = CkVoid \<or> \<not> runs_all (block_statements (fn_body f)) Falls"
    using body flow_has.simps(1) by metis
  then show ?thesis using sc body by (auto simp: body_typed_def)
qed

lemma function_bodies_push: "pushes_only st (check_function_bodies ds st)"
proof (induction ds st rule: check_function_bodies.induct)
  case (3 f ds st)
  let ?st1 = "case sym_functions (ck_symbols st) (function_key f) of None \<Rightarrow> st
    | Some symbol \<Rightarrow> if fs_declaration symbol \<noteq> f then st else check_function_body f symbol st"
  have "pushes_only st ?st1" using function_body_pushes by (auto simp: pushes_only_def split: option.split)
  then show ?case using 3 pushes_only_trans by auto
qed (auto simp: pushes_only_def)

definition function_typed :: "symbol_table \<Rightarrow> function_declaration \<Rightarrow> bool" where
  "function_typed syms f \<longleftrightarrow> (\<exists>ts rt. sym_functions syms (function_key f) = Some (function_symbol_of f ts rt) \<and>
     signature_typed syms f ts rt \<and> body_typed syms f ts rt)"

lemma function_bodies_sound:
  assumes "ck_diagnostics (check_function_bodies ds st) = ck_diagnostics st" "syms_ok (ck_symbols st)" "list_all wf_declaration ds"
    "\<forall>f \<in> set (function_declarations ds). \<exists>ts rt. sym_functions (ck_symbols st) (function_key f) = Some (function_symbol_of f ts rt) \<and>
       signature_typed (ck_symbols st) f ts rt"
  shows "\<forall>f \<in> set (function_declarations ds). function_typed (ck_symbols st) f"
  using assms
proof (induction ds st rule: check_function_bodies.induct)
  case (3 f ds st)
  obtain ts rt where f: "sym_functions (ck_symbols st) (function_key f) = Some (function_symbol_of f ts rt)"
      "signature_typed (ck_symbols st) f ts rt" using 3(5) by auto
  let ?st1 = "check_function_body f (function_symbol_of f ts rt) st"
  have st1: "check_function_bodies (DeclFunction f # ds) st = check_function_bodies ds ?st1"
    using f(1) by (simp add: function_symbol_of_def)
  have p: "pushes_only st ?st1" "pushes_only ?st1 (check_function_bodies ds ?st1)"
    by (rule function_body_pushes function_bodies_push)+
  have q: "ck_diagnostics ?st1 = ck_diagnostics st" "ck_diagnostics (check_function_bodies ds ?st1) = ck_diagnostics ?st1"
    using pushes_silent [of st ?st1 "check_function_bodies ds ?st1"] p 3(2) st1 by (simp_all add: pushes_only_def)
  have syms: "ck_symbols ?st1 = ck_symbols st" using p(1) by (simp add: pushes_only_def)
  have "length ts = length (fn_params f)" "list_all proper ts" "result_type_ok rt"
    using f(2) list_all2_lengthD [of _ "map param_type (fn_params f)" ts] by (auto simp: signature_typed_def result_type_ok_def)
  then have "body_typed (ck_symbols st) f ts rt" using function_body_sound [OF q(1)] 3(3,4) by simp
  then have "function_typed (ck_symbols st) f" using f by (auto simp: function_typed_def)
  moreover have IH: "(case sym_functions (ck_symbols st) (function_key f) of None \<Rightarrow> st
      | Some symbol \<Rightarrow> if fs_declaration symbol \<noteq> f then st else check_function_body f symbol st) = ?st1"
    using f(1) by (simp add: function_symbol_of_def)
  have "\<forall>g \<in> set (function_declarations ds). function_typed (ck_symbols st) g"
    using 3(1) [unfolded IH, OF q(2)] 3(3-5) syms by simp
  ultimately show ?case by simp
qed auto

section \<open>Programs\<close>

definition program_typed :: "symbol_table \<Rightarrow> program \<Rightarrow> bool" where
  "program_typed syms p \<longleftrightarrow>
     distinct (map struct_key (struct_declarations (declarations p))) \<and>
     distinct (map function_key (function_declarations (declarations p))) \<and>
     dom (sym_structs syms) = struct_key ` set (struct_declarations (declarations p)) \<and>
     dom (sym_functions syms) = function_key ` set (function_declarations (declarations p)) \<and>
     (\<forall>d \<in> set (struct_declarations (declarations p)). struct_typed syms d) \<and>
     (\<forall>f \<in> set (function_declarations (declarations p)). function_typed syms f)"

lemma declarations_typed:
  assumes q: "ck_diagnostics (check_declarations st) = ck_diagnostics st"
    and new: "sym_structs (ck_symbols st) = Map.empty" "sym_functions (ck_symbols st) = Map.empty"
    and wf: "list_all wf_declaration (declarations (ck_program st))"
  shows "program_typed (ck_symbols (check_declarations st)) (ck_program st)"
proof -
  let ?ds = "declarations (ck_program st)"
  let ?s1 = "collect_struct_names ?ds st"
  let ?s2 = "collect_struct_fields ?ds ?s1"
  let ?s3 = "collect_function_signatures ?ds ?s2"
  let ?s4 = "check_function_bodies ?ds ?s3"
  have s4: "check_declarations st = ?s4" by (simp add: check_declarations_def Let_def)
  have p: "pushes st ?s1" "pushes ?s1 ?s2" "pushes ?s2 ?s3" and p4: "pushes_only ?s3 ?s4"
    by (rule collect_struct_names_pushes collect_struct_fields_pushes signatures_push function_bodies_push)+
  have p34: "pushes ?s3 ?s4" using p4 by (simp add: pushes_only_def)
  have q1: "ck_diagnostics ?s1 = ck_diagnostics st" "ck_diagnostics ?s4 = ck_diagnostics ?s1"
    using pushes_silent [OF p(1) pushes_trans [OF p(2) pushes_trans [OF p(3) p34]]] q s4 by simp_all
  have q2: "ck_diagnostics ?s2 = ck_diagnostics ?s1" "ck_diagnostics ?s4 = ck_diagnostics ?s2"
    using pushes_silent [OF p(2) pushes_trans [OF p(3) p34] q1(2)] by simp_all
  have q3: "ck_diagnostics ?s3 = ck_diagnostics ?s2" "ck_diagnostics ?s4 = ck_diagnostics ?s3"
    using pushes_silent [OF p(3) p34 q2(2)] by simp_all
  let ?sd = "struct_declarations ?ds" and ?fd = "function_declarations ?ds"
  have n: "distinct (map struct_key ?sd)" "sym_functions (ck_symbols ?s1) = Map.empty"
      "sym_structs (ck_symbols ?s1) = map_of (map (\<lambda>d. (struct_key d, new_struct d)) ?sd)"
    using struct_names_collected [OF q1(1)] new by simp_all
  have "sym_structs (ck_symbols ?s1) (struct_key d) = Some (new_struct d)" if "d \<in> set ?sd" for d
    unfolding n(3) using n(1) that by (intro map_of_is_SomeI) (auto simp: o_def)
  then have f: "\<forall>d \<in> set ?sd. struct_typed (ck_symbols ?s2) d" "dom (sym_structs (ck_symbols ?s2)) = dom (sym_structs (ck_symbols ?s1))"
      "sym_functions (ck_symbols ?s2) = Map.empty"
    using fields_collected [OF q2(1) n(1) _ wf] n(2) by auto
  have doms: "dom (sym_structs (ck_symbols ?s2)) = struct_key ` set ?sd"
    unfolding f(2) n(3) by (simp add: dom_map_of_conv_image_fst image_image)
  have g: "distinct (map function_key ?fd)"
      "\<forall>f \<in> set ?fd. \<exists>ts rt. signature_typed (ck_symbols ?s2) f ts rt \<and>
        sym_functions (ck_symbols ?s3) (function_key f) = Some (function_symbol_of f ts rt)"
      "\<forall>n. n \<notin> function_key ` set ?fd \<longrightarrow> sym_functions (ck_symbols ?s3) n = None"
      "sym_structs (ck_symbols ?s3) = sym_structs (ck_symbols ?s2)"
    using signatures_collected [OF q3(1) wf] f(3) by auto
  have structs: "\<forall>d \<in> set ?sd. struct_typed (ck_symbols ?s3) d"
    using f(1) struct_typed_dom [of "ck_symbols ?s2" _ "ck_symbols ?s3"] g(4) by simp
  have sigs: "\<forall>f \<in> set ?fd. \<exists>ts rt. sym_functions (ck_symbols ?s3) (function_key f) = Some (function_symbol_of f ts rt) \<and>
      signature_typed (ck_symbols ?s3) f ts rt"
    using g(2) signature_typed_dom [OF g(4) [symmetric]] by blast
  have domf: "dom (sym_functions (ck_symbols ?s3)) = function_key ` set ?fd"
    using g(2,3) by (auto simp: dom_def)
  have "syms_ok (ck_symbols ?s3)"
    unfolding syms_ok_def
  proof (intro conjI allI impI)
    fix k s fl t
    assume s: "sym_structs (ck_symbols ?s3) k = Some s" "ss_fields s fl = Some t"
    then obtain d where d: "d \<in> set ?sd" "k = struct_key d" using doms g(4) by fastforce
    then obtain ts where "list_all proper ts" "ss_fields s = map_of (zip (map (\<lambda>f. id_name (field_name f)) (struct_fields d)) ts)"
      using bspec [OF structs d(1)] s(1) unfolding struct_typed_def by auto
    then show "proper t" using s(2) by (auto simp: list_all_iff dest!: map_of_SomeD set_zip_rightD)
  next
    fix k h
    assume h: "sym_functions (ck_symbols ?s3) k = Some h"
    then have "k \<in> function_key ` set ?fd" using domf by blast
    then obtain f where f: "f \<in> set ?fd" "k = function_key f" by blast
    obtain ts rt where "sym_functions (ck_symbols ?s3) k = Some (function_symbol_of f ts rt)" "signature_typed (ck_symbols ?s3) f ts rt"
      using bspec [OF sigs f(1)] f(2) by blast
    then have "h = function_symbol_of f ts rt" "signature_typed (ck_symbols ?s3) f ts rt" using h by simp_all
    then show "list_all proper (fs_params h)" "proper (fs_return_type h) \<or> fs_return_type h = CkVoid"
      by (auto simp: signature_typed_def function_symbol_of_def)
  qed
  from function_bodies_sound [OF q3(2) this wf sigs] have "\<forall>f \<in> set ?fd. function_typed (ck_symbols ?s3) f" .
  moreover have "ck_symbols ?s4 = ck_symbols ?s3" using p4 by (simp add: pushes_only_def)
  ultimately show ?thesis
    unfolding program_typed_def s4 using n(1) g(1,4) doms domf structs by simp
qed

lemma violations_push: "ck_diagnostics (fold (\<lambda>v. ck_error_with_code (ecv_span v) Ck2016 (ecv_message v)) vs st) =
    ck_diagnostics st @ map (\<lambda>v. diagnostic_error Ck2016 (ecv_message v) (file_name (ck_source st)) (ecv_span v)) vs \<and>
  ck_symbols (fold (\<lambda>v. ck_error_with_code (ecv_span v) Ck2016 (ecv_message v)) vs st) = ck_symbols st \<and>
  ck_program (fold (\<lambda>v. ck_error_with_code (ecv_span v) Ck2016 (ecv_message v)) vs st) = ck_program st"
  by (induction vs arbitrary: st) (simp_all add: ck_error_with_code_def)

lemma declarations_push: "pushes st (check_declarations st)"
  using pushes_trans [OF collect_struct_names_pushes pushes_trans [OF collect_struct_fields_pushes
    pushes_trans [OF signatures_push conjunct1 [OF function_bodies_push [unfolded pushes_only_def]]]]]
  by (simp add: check_declarations_def Let_def)

text \<open>An accepted source: it parses, and no pass of the checker reports anything.\<close>

lemma accepted:
  assumes "check_source src = Some r" "cr_diagnostics r = []"
  obtains p where "parse src = Some \<lparr>pr_ast = p, pr_diagnostics = []\<rparr>" "cr_ast r = p"
    "list_all wf_declaration (declarations p)"
    "ck_diagnostics (check_declarations (checker_new src \<lparr>pr_ast = p, pr_diagnostics = []\<rparr>)) = []"
    "cr_symbols r = ck_symbols (check_declarations (checker_new src \<lparr>pr_ast = p, pr_diagnostics = []\<rparr>))"
    "validate_effect_ceilings (cr_checked_program r) = []"
proof -
  obtain pr where pr: "parse src = Some pr" "r = checker_check (checker_new src pr)"
    using assms(1) by (auto simp: check_source_def)
  let ?st = "checker_new src pr"
  let ?st1 = "check_declarations ?st"
  obtain vs st2 where st2: "st2 = fold (\<lambda>v. ck_error_with_code (ecv_span v) Ck2016 (ecv_message v)) vs ?st1"
      "cr_diagnostics r = ck_diagnostics st2" "cr_ast r = ck_program st2" "cr_symbols r = ck_symbols st2"
      "vs = validate_effect_ceilings (cr_checked_program r)"
    unfolding pr(2) checker_check_def Let_def by simp
  have d: "ck_diagnostics ?st1 = []" "vs = []" using assms(2) st2(1,2) violations_push [of vs ?st1] by simp_all
  have p: "pushes ?st ?st1" by (rule declarations_push)
  then have "pr_diagnostics pr = []" using d(1) by (auto simp: pushes_def checker_new_def)
  then have e: "pr = \<lparr>pr_ast = pr_ast pr, pr_diagnostics = []\<rparr>" by simp
  have "ck_program ?st1 = pr_ast pr" using p by (simp add: pushes_def checker_new_def)
  then show ?thesis
    using that [of "pr_ast pr"] e pr(1) st2 d violations_push [of vs ?st1] parsed_wf [of src "pr_ast pr"] by simp
qed

end
