(* ===== verification/Evaluation.thy ===== *)
theory Evaluation
  imports Parser_Properties
begin

text \<open>
  Evaluation of the lexer and the parser on a closed text, for the concrete programs of the
  properties: the pieces by rewriting, the positions counted along the text.
\<close>

declare One_nat_def [simp del]

lemma pieces_shared:
  "pieces (c # r) = (case next_piece (c # r) of (out, w) \<Rightarrow> (out, w) # pieces (drop (length w) (c # r)))"
  by (subst pieces.simps) (simp add: case_prod_unfold)

lemmas pieces_eval =
  pieces_shared is_ascii_digit_def is_ascii_alphabetic_def is_whitespace_def identifier_kind_def
  is_exponent_start_def is_identifier_start_def is_identifier_part_def keyword_kind_def
  keyword_table_def single_token_def pair_token_def number_piece_def lit_def

fun count_char :: "rchar \<Rightarrow> nat \<times> nat \<times> nat \<Rightarrow> nat \<times> nat \<times> nat" where
  "count_char x (l, c, u) = (if x = 10 then (l + 1, 1, u + len_utf16 x) else (l, c + len_utf16 x, u + len_utf16 x))"

fun layout_from :: "nat \<times> nat \<times> nat \<Rightarrow> (piece \<times> rstring) list \<Rightarrow> token list" where
  "layout_from (l, c, u) [] = []"
| "layout_from (l, c, u) ((out, w) # ps) =
     (let stop = fold count_char w (l, c, u) in
      case out of
        PieceToken k \<Rightarrow> \<lparr>tk_kind = k, tk_text = w, tk_line = l, tk_column = c, tk_start = u,
                        tk_end = snd (snd stop)\<rparr> # layout_from stop ps
      | _ \<Rightarrow> layout_from stop ps)"

definition place_of :: "rstring \<Rightarrow> nat \<times> nat \<times> nat" where
  "place_of p = (line_of p, column_of p, utf16_len p)"

lemma count_chars: "fold count_char w (place_of p) = place_of (p @ w)"
proof (induction w arbitrary: p)
  case (Cons a w)
  have "count_char a (place_of p) = place_of (p @ [a])" by (simp add: place_of_def)
  then show ?case using Cons [of "p @ [a]"] by simp
qed simp

lemma layout_counted: "layout p ps = layout_from (place_of p) ps"
proof (induction p ps rule: layout.induct)
  case (1 p)
  then show ?case by (cases "place_of p") simp
next
  case (2 p k w ps)
  then show ?case using count_chars [of w p] by (simp add: place_of_def token_at_def)
next
  case (3 p w ps)
  then show ?case using count_chars [of w p] by (simp add: place_of_def)
next
  case (4 p w ps)
  then show ?case using count_chars [of w p] by (simp add: place_of_def)
qed

definition eof_at :: "nat \<times> nat \<times> nat \<Rightarrow> token" where
  "eof_at = (\<lambda>(l, c, u). \<lparr>tk_kind = TkEof, tk_text = [], tk_line = l, tk_column = c, tk_start = u, tk_end = u\<rparr>)"

lemma lex_by_pieces:
  assumes "pieces (sf_text src) = ps" "clean ps" "0 \<notin> set (sf_text src)"
    "layout_from (1, 1, 0) ps @ [eof_at (fold count_char (sf_text src) (1, 1, 0))] = toks"
  shows "lex src = Some \<lparr>lr_tokens = toks, lr_diagnostics = []\<rparr>"
proof -
  have p: "place_of [] = (1, 1, 0)" by (simp add: place_of_def)
  have "fold count_char (sf_text src) (1, 1, 0) = place_of (sf_text src)"
    using count_chars [of "sf_text src" "[]"] by (simp add: p)
  then have "eof_at (fold count_char (sf_text src) (1, 1, 0)) = eof_token (position_at (sf_text src))"
    by (simp add: place_of_def eof_at_def eof_token_def position_at_def)
  then show ?thesis
    using lex_result [OF assms(3)] assms(1,2,4) layout_counted [of "[]" ps] by (auto simp: p)
qed

lemma parse_by_tokens:
  assumes "lex src = Some \<lparr>lr_tokens = toks, lr_diagnostics = []\<rparr>"
    "parser_parse (length toks + 8) (parser_new src toks []) = Some r"
  shows "parse src = Some r"
  using assms by (simp add: parse_def)

end
