(* ===== verification/Typeck_Properties.thy ===== *)
theory Typeck_Properties
  imports Typeck_Safety Evaluation
begin

text \<open>
  The properties of the type checker, each with an accepted program on which it is applied.
\<close>

section \<open>Jumps and paths\<close>

lemma no_jump_outside_loop:
  "statement_typed syms rt u l sc s sc' \<Longrightarrow> (runs s Breaks \<or> runs s Continues \<longrightarrow> l)"
  "statements_typed syms rt u l sc ss sc' \<Longrightarrow> (runs_all ss Breaks \<or> runs_all ss Continues \<longrightarrow> l)"
  by (induction rule: statement_typed_statements_typed.inducts) auto

lemma node_typed_void: "node_typed syms cx n CkVoid \<Longrightarrow> is_void_node n"
  by (cases rule: node_typed.cases) (auto simp: primitive_type_from_str_def split: if_splits)

section \<open>The entry\<close>

lemma main_count: "main_declaration_count ds = length (filter (\<lambda>f. function_key f = main_name) (function_declarations ds))"
  by (induction ds rule: main_declaration_count.induct) auto

lemma function_infos_typed:
  assumes "\<forall>f \<in> set (function_declarations ds). function_typed syms f"
  shows "map fi_declaration (function_infos syms cs ds) = function_declarations ds \<and>
    list_all (\<lambda>i. fi_name i = function_key (fi_declaration i) \<and> function_typed syms (fi_declaration i) \<and>
      (\<exists>symbol c. sym_functions syms (function_key (fi_declaration i)) = Some symbol \<and> i = to_function_info symbol c))
      (function_infos syms cs ds)"
  using assms
proof (induction ds rule: function_infos.induct [of _ syms cs])
  case (3 syms cs f ds)
  then obtain ts rt where f: "sym_functions syms (function_key f) = Some (function_symbol_of f ts rt)"
    by (auto simp: function_typed_def)
  let ?i = "to_function_info (function_symbol_of f ts rt) (cs (function_key f))"
  have "fi_declaration ?i = f" "fi_name ?i = function_key f"
    by (simp_all add: to_function_info_def function_symbol_of_def)
  then show ?case using 3 f by (auto simp: function_symbol_of_def)
qed auto

lemma typed_entry:
  assumes "function_typed syms f" "function_key f = main_name" "sym_functions syms main_name = Some symbol"
  shows "to_entry_point (to_function_info symbol c) \<noteq> None"
proof -
  obtain ts rt where f: "symbol = function_symbol_of f ts rt" "signature_typed syms f ts rt"
    using assms by (auto simp: function_typed_def)
  then show ?thesis using assms(2)
    by (auto simp: to_entry_point_def to_function_info_def function_symbol_of_def signature_typed_def signature_rules_def
      entry_result_type_def)
qed

lemma distinct_filter_one:
  "distinct (map k xs) \<Longrightarrow> x \<in> set xs \<Longrightarrow> filter (\<lambda>y. k y = k x) xs = [x]"
  by (induction xs) (auto simp: filter_empty_conv image_iff)

section \<open>Acceptance without ceilings\<close>

lemma no_ceilings:
  "list_all (\<lambda>f. \<forall>c \<in> set_option (fi_contract f). cc_effects c = None) (cp_functions p) \<Longrightarrow> validate_effect_ceilings p = []"
proof -
  assume "list_all (\<lambda>f. \<forall>c \<in> set_option (fi_contract f). cc_effects c = None) (cp_functions p)"
  then have "function_violation p f = None" if "f \<in> set (cp_functions p)" for f
    using that by (cases "fi_contract f") (auto simp: function_violation_def list_all_iff)
  then show ?thesis
    by (simp add: validate_effect_ceilings_def map_filter_def filter_empty_conv)
qed

section \<open>A program\<close>

definition token_on_line :: "token_kind \<Rightarrow> string \<Rightarrow> nat \<Rightarrow> token" where
  "token_on_line k w i =
     \<lparr>tk_kind = k, tk_text = lit w, tk_line = 1, tk_column = i + 1, tk_start = i, tk_end = i + length w\<rparr>"

definition entry_source :: source_file where
  "entry_source = \<lparr>file_name = [],
     sf_text = lit ''unsafe fn g()->void contract{requires 1>0;}{}fn main()->i32{unsafe{g();}return 1;}''\<rparr>"

definition entry_tokens :: "token list" where
  "entry_tokens = map (\<lambda>(k, w, i). token_on_line k w i)
     [(TkUnsafe, ''unsafe'', 0), (TkFn, ''fn'', 7), (TkIdentifier, ''g'', 10), (TkLeftParen, ''('', 11),
      (TkRightParen, '')'', 12), (TkArrow, ''->'', 13), (TkVoid, ''void'', 15), (TkContract, ''contract'', 20),
      (TkLeftBrace, ''{'', 28), (TkRequires, ''requires'', 29), (TkInteger, ''1'', 38), (TkGreater, ''>'', 39),
      (TkInteger, ''0'', 40), (TkSemicolon, '';'', 41), (TkRightBrace, ''}'', 42), (TkLeftBrace, ''{'', 43),
      (TkRightBrace, ''}'', 44), (TkFn, ''fn'', 45), (TkIdentifier, ''main'', 48), (TkLeftParen, ''('', 52),
      (TkRightParen, '')'', 53), (TkArrow, ''->'', 54), (TkI32, ''i32'', 56), (TkLeftBrace, ''{'', 59),
      (TkUnsafe, ''unsafe'', 60), (TkLeftBrace, ''{'', 66), (TkIdentifier, ''g'', 67),
      (TkLeftParen, ''('', 68), (TkRightParen, '')'', 69), (TkSemicolon, '';'', 70), (TkRightBrace, ''}'', 71),
      (TkReturn, ''return'', 72), (TkInteger, ''1'', 79), (TkSemicolon, '';'', 80), (TkRightBrace, ''}'', 81),
      (TkEof, '''', 82)]"

lemma lex_entry_source: "lex entry_source = Some \<lparr>lr_tokens = entry_tokens, lr_diagnostics = []\<rparr>"
proof (rule lex_by_pieces [OF refl])
  show "0 \<notin> set (sf_text entry_source)" by code_simp
  show "clean (pieces (sf_text entry_source))" by (simp add: entry_source_def pieces_eval clean_def)
  show "layout_from (1, 1, 0) (pieces (sf_text entry_source)) @
      [eof_at (fold count_char (sf_text entry_source) (1, 1, 0))] = entry_tokens"
    by (simp add: entry_source_def pieces_eval len_utf16_def entry_tokens_def token_on_line_def eof_at_def)
qed

definition span_on_line :: "nat \<Rightarrow> nat \<Rightarrow> source_span" where
  "span_on_line a b =
     \<lparr>span_start = \<lparr>pos_offset = a, pos_line = 1, pos_column = a + 1\<rparr>,
      span_end = \<lparr>pos_offset = b, pos_line = 1, pos_column = b + 1\<rparr>\<rparr>"

definition entry_callee :: function_declaration where
  "entry_callee =
     \<lparr>exported = False, is_unsafe = True, fn_name = \<lparr>id_name = lit ''g'', id_span = span_on_line 10 11\<rparr>,
      fn_params = [], return_type = TypeVoid (span_on_line 15 19),
      fn_contract = Some \<lparr>requirements = [\<lparr>requirement_expression =
          EBinary (lit ''>'') (EIntegerLiteral (lit ''1'') (span_on_line 38 39))
            (EIntegerLiteral (lit ''0'') (span_on_line 40 41)) (span_on_line 38 41),
          requirement_span = span_on_line 29 42\<rparr>],
        contract_effects = None, contract_span = span_on_line 20 43\<rparr>,
      fn_body = BlockStatement [] (span_on_line 43 45), fn_span = span_on_line 0 45\<rparr>"

definition entry_main :: function_declaration where
  "entry_main =
     \<lparr>exported = False, is_unsafe = False, fn_name = \<lparr>id_name = lit ''main'', id_span = span_on_line 48 52\<rparr>,
      fn_params = [], return_type = TypePrimitive (lit ''i32'') (span_on_line 56 59), fn_contract = None,
      fn_body = BlockStatement
        [StUnsafe (BlockStatement [StCall (ECall (EIdentifier (lit ''g'') (span_on_line 67 68)) []
           (span_on_line 67 70)) (span_on_line 67 71)] (span_on_line 66 72)) (span_on_line 60 72),
         StReturn (Some (EIntegerLiteral (lit ''1'') (span_on_line 79 80))) (span_on_line 72 81)]
        (span_on_line 59 82), fn_span = span_on_line 45 82\<rparr>"

definition entry_program :: program where
  "entry_program = \<lparr>declarations = [DeclFunction entry_callee, DeclFunction entry_main], program_span = span_on_line 0 82\<rparr>"

lemma parse_entry_source: "parse entry_source = Some \<lparr>pr_ast = entry_program, pr_diagnostics = []\<rparr>"
proof (rule parse_by_tokens [OF lex_entry_source])
  show "parser_parse (length entry_tokens + 8) (parser_new entry_source entry_tokens []) =
      Some \<lparr>pr_ast = entry_program, pr_diagnostics = []\<rparr>" by code_simp
qed

lemma entry_checked:
  "ck_diagnostics (check_declarations (checker_new entry_source \<lparr>pr_ast = entry_program, pr_diagnostics = []\<rparr>)) = []"
  by code_simp

lemma entry_contracts:
  "let st = check_declarations (checker_new entry_source \<lparr>pr_ast = entry_program, pr_diagnostics = []\<rparr>) in
   list_all (\<lambda>f. case fi_contract f of None \<Rightarrow> True | Some c \<Rightarrow> Option.is_none (cc_effects c))
     (function_infos (ck_symbols st) (ck_contracts st) (declarations (ck_program st)))"
  by code_simp

lemma checked_functions [simp]:
  "cp_functions (create_checked_program p syms ts ls cs) = function_infos syms cs (declarations p)"
  "cp_functions (q\<lparr>cp_effect_summaries := m\<rparr>) = cp_functions q"
  "cp_entry (create_checked_program p syms ts ls cs) = program_entry (declarations p) (function_infos syms cs (declarations p))"
  "cp_ast (create_checked_program p syms ts ls cs) = p"
  by (simp_all add: create_checked_program_def Let_def)

lemma entry_accepted:
  "\<exists>r. check_source entry_source = Some r \<and> cr_diagnostics r = [] \<and> cr_ast r = entry_program"
proof -
  let ?st = "checker_new entry_source \<lparr>pr_ast = entry_program, pr_diagnostics = []\<rparr>"
  let ?st1 = "check_declarations ?st"
  have p: "ck_program ?st1 = entry_program"
    using declarations_push [of ?st] by (simp add: pushes_def checker_new_def)
  let ?q = "create_checked_program (ck_program ?st1) (ck_symbols ?st1) (ck_expression_types ?st1) (ck_local_types ?st1) (ck_contracts ?st1)"
  let ?q1 = "?q\<lparr>cp_effect_summaries := sr_summaries (analyze_checked_program_effects ?q None)\<rparr>"
  have "validate_effect_ceilings ?q1 = []"
    using entry_contracts by (intro no_ceilings) (auto simp: Let_def list_all_iff Option.is_none_def split: option.splits elim!: ballE)
  then show ?thesis
    using entry_checked p by (simp add: check_source_def parse_entry_source checker_check_def Let_def)
qed

lemma entry_functions [simp]:
  "function_declarations (declarations entry_program) = [entry_callee, entry_main]"
  "struct_declarations (declarations entry_program) = []"
  by (simp_all add: entry_program_def)

lemma accepted_typed:
  assumes "check_source src = Some r" "cr_diagnostics r = []"
  shows "program_typed (cr_symbols r) (cr_ast r)"
proof -
  obtain p where p: "cr_ast r = p" "list_all wf_declaration (declarations p)"
      "ck_diagnostics (check_declarations (checker_new src \<lparr>pr_ast = p, pr_diagnostics = []\<rparr>)) = []"
      "cr_symbols r = ck_symbols (check_declarations (checker_new src \<lparr>pr_ast = p, pr_diagnostics = []\<rparr>))"
    using accepted [OF assms] by metis
  then show ?thesis using declarations_typed [of "checker_new src \<lparr>pr_ast = p, pr_diagnostics = []\<rparr>"]
    by (simp add: checker_new_def)
qed

section \<open>Properties\<close>



text \<open>
  C36. Flow: in an accepted program every run of a function's body, whatever its conditions
  evaluate to, ends with a return or, in a function without result, at the end of the body;
  no \<^verbatim>\<open>break\<close> or \<^verbatim>\<open>continue\<close> leaves the body.
\<close>

theorem check_source_flow:
  assumes "check_source src = Some r" "cr_diagnostics r = []"
    "f \<in> set (function_declarations (declarations (cr_ast r)))" "runs_all (block_statements (fn_body f)) out"
  shows "out = Returns \<or> out = Falls \<and> is_void_node (return_type f)"
proof -
  obtain ts rt sc where f: "node_typed (cr_symbols r) UseFunctionReturn (return_type f) rt"
      "statements_typed (cr_symbols r) rt False False (param_scope (fn_params f) ts) (block_statements (fn_body f)) sc"
      "rt = CkVoid \<or> \<not> runs_all (block_statements (fn_body f)) Falls"
    using accepted_typed [OF assms(1,2)] assms(3)
    by (auto simp: program_typed_def function_typed_def signature_typed_def body_typed_def)
  have "out \<noteq> Breaks \<and> out \<noteq> Continues" using no_jump_outside_loop(2) [OF f(2)] assms(4) by auto
  then show ?thesis using f(1,3) assms(4) node_typed_void by (cases out) auto
qed

theorem check_source_flow_witness:
  "runs_all (block_statements (fn_body entry_main)) Returns \<and> \<not> runs_all (block_statements (fn_body entry_main)) Falls"
proof -
  obtain r where r: "check_source entry_source = Some r" "cr_diagnostics r = []" "cr_ast r = entry_program"
    using entry_accepted by blast
  have "out = Returns" if "runs_all (block_statements (fn_body entry_main)) out" for out
    using check_source_flow [OF r(1,2) _ that] r(3) by (simp add: entry_main_def)
  moreover have "runs_all (block_statements (fn_body entry_main)) Returns" by (simp add: entry_main_def)
  ultimately show ?thesis by blast
qed

text \<open>
  C37. The entry: an accepted program can be run as an executable exactly when it declares a
  function \<^verbatim>\<open>main\<close>; the entry is then that declaration, without parameters, with result
  \<^verbatim>\<open>i32\<close> or none.
\<close>

theorem accepted_entry:
  assumes "check_source src = Some r" "cr_diagnostics r = []"
  shows "require_executable_entry src (cr_checked_program r) = None \<longleftrightarrow>
    (\<exists>f \<in> set (function_declarations (declarations (cr_ast r))). function_key f = main_name)"
proof -
  obtain p where p: "cr_ast r = p" "parse src = Some \<lparr>pr_ast = p, pr_diagnostics = []\<rparr>"
      "cr_symbols r = ck_symbols (check_declarations (checker_new src \<lparr>pr_ast = p, pr_diagnostics = []\<rparr>))"
    using accepted [OF assms] by metis
  let ?st = "checker_new src \<lparr>pr_ast = p, pr_diagnostics = []\<rparr>"
  let ?ds = "declarations p" and ?fs = "function_declarations (declarations p)"
  have st: "ck_program (check_declarations ?st) = p"
    using declarations_push [of ?st] by (simp add: pushes_def checker_new_def)
  let ?is = "function_infos (cr_symbols r) (ck_contracts (check_declarations ?st)) ?ds"
  have r: "r = checker_check ?st" using assms(1) p(2) by (simp add: check_source_def)
  have e: "cp_entry (cr_checked_program r) = program_entry ?ds ?is"
    unfolding p(3) by (simp add: r checker_check_def Let_def st)
  have t: "distinct (map function_key ?fs)" "\<forall>f \<in> set ?fs. function_typed (cr_symbols r) f"
    using accepted_typed [OF assms] p(1) by (simp_all add: program_typed_def)
  have is1: "map fi_declaration ?is = ?fs"
    and is2: "i \<in> set ?is \<Longrightarrow> fi_name i = function_key (fi_declaration i) \<and>
      function_typed (cr_symbols r) (fi_declaration i) \<and>
      (\<exists>symbol c. sym_functions (cr_symbols r) (function_key (fi_declaration i)) = Some symbol \<and> i = to_function_info symbol c)" for i
    using function_infos_typed [OF t(2)] by (auto simp: list_all_iff)
  show ?thesis
  proof (cases "\<exists>f \<in> set ?fs. function_key f = main_name")
    case False
    then have "main_declaration_count ?ds = 0" by (auto simp: main_count filter_empty_conv)
    then show ?thesis using False e p(1) by (simp add: require_executable_entry_def program_entry_def Let_def)
  next
    case True
    then obtain f where f: "f \<in> set ?fs" "function_key f = main_name" by blast
    have one: "main_declaration_count ?ds = 1"
      using distinct_filter_one [OF t(1) f(1)] f(2) by (simp add: main_count)
    have "f \<in> set (map fi_declaration ?is)" using f(1) is1 by simp
    then obtain i0 where i0: "i0 \<in> set ?is" "fi_declaration i0 = f" by auto
    then have "fi_name i0 = main_name" using is2 f(2) by simp
    then obtain i where i: "find (\<lambda>f. fi_name f = main_name) ?is = Some i"
      using i0(1) by (cases "find (\<lambda>f. fi_name f = main_name) ?is") (auto simp: find_None_iff)
    then have "i \<in> set ?is" "fi_name i = main_name" by (auto simp: find_Some_iff)
    then have "to_entry_point i \<noteq> None" using is2 typed_entry by metis
    then show ?thesis using True e p(1) one i by (simp add: require_executable_entry_def program_entry_def)
  qed
qed

theorem accepted_entry_witness:
  "\<exists>r. check_source entry_source = Some r \<and> require_executable_entry entry_source (cr_checked_program r) = None"
proof -
  obtain r where r: "check_source entry_source = Some r" "cr_diagnostics r = []" "cr_ast r = entry_program"
    using entry_accepted by blast
  have "function_key entry_main = main_name" by (simp add: entry_main_def main_name_def)
  then show ?thesis using accepted_entry [OF r(1,2)] r by auto
qed

end
