(* ===== verification/Typeck_Meaning.thy ===== *)
theory Typeck_Meaning
  imports Typeck_Safety
begin

text \<open>
  The meaning of contracts: the requirements as they are written, over unbounded integers, and
  the checked predicates as the later phases read them, and that both agree.
\<close>

section \<open>Decimal texts\<close>

definition digits_value :: "rstring \<Rightarrow> int" where
  "digits_value w = foldl (\<lambda>v c. 10 * v + (int c - 48)) 0 w"

fun decimal_value :: "rstring \<Rightarrow> int" where
  "decimal_value [] = 0"
| "decimal_value (c # w) = (if c = 45 then - digits_value w else digits_value (c # w))"

lemma digits_value_snoc: "digits_value (w @ [c]) = 10 * digits_value w + (int c - 48)"
  by (simp add: digits_value_def)

lemma nat_decimal_value: "digits_value (nat_decimal n) = int n \<and> nat_decimal n \<noteq> [] \<and> hd (nat_decimal n) \<noteq> 45"
proof (induction n rule: nat_decimal.induct)
  case (1 n)
  show ?case
  proof (cases "n < 10")
    case True
    then show ?thesis by (simp add: nat_decimal.simps digits_value_def)
  next
    case False
    have "10 * int (n div 10) + int (n mod 10) = int n" by (simp add: zdiv_int zmod_int)
    then show ?thesis using 1 False digits_value_snoc by (subst (1 2 3) nat_decimal.simps) simp
  qed
qed

lemma int_decimal_value: "decimal_value (int_decimal i) = i"
proof (cases "i < 0")
  case False
  obtain c w where n: "nat_decimal (nat i) = c # w" using nat_decimal_value [of "nat i"] by (cases "nat_decimal (nat i)") auto
  have v: "digits_value (nat_decimal (nat i)) = i" and h: "hd (nat_decimal (nat i)) \<noteq> 45"
    using nat_decimal_value [of "nat i"] False by simp_all
  then show ?thesis using False by (simp add: int_decimal_def n)
qed (use nat_decimal_value [of "nat (- i)"] in \<open>simp add: int_decimal_def\<close>)

section \<open>Affine forms\<close>

type_synonym valuation = "checked_affine_term \<Rightarrow> int"

definition terms_value :: "valuation \<Rightarrow> (checked_affine_term, int) btree \<Rightarrow> int" where
  "terms_value \<sigma> m = (\<Sum>(t, c) \<leftarrow> m. c * \<sigma> t)"

definition form_value :: "valuation \<Rightarrow> normalized_affine_expression \<Rightarrow> int" where
  "form_value \<sigma> form = nae_constant form + terms_value \<sigma> (nae_terms form)"

definition form_ok :: "normalized_affine_expression \<Rightarrow> bool" where
  "form_ok form \<longleftrightarrow> bt_ok (nae_terms form) \<and> (\<forall>(t, c) \<in> set (nae_terms form). c \<noteq> 0)"

lemma terms_value_simps [simp]:
  "terms_value \<sigma> [] = 0" "terms_value \<sigma> ((t, c) # m) = c * \<sigma> t + terms_value \<sigma> m"
  by (simp_all add: terms_value_def)

definition coefficient :: "(checked_affine_term, int) btree \<Rightarrow> checked_affine_term \<Rightarrow> int" where
  "coefficient m t = (case bt_get m t of Some c \<Rightarrow> c | None \<Rightarrow> 0)"

lemma coefficient_Cons: "coefficient ((t, c) # m) t' = (if t = t' then c else coefficient m t')"
  by (simp add: coefficient_def bt_get_def)

lemma coefficient_above: "(\<forall>x \<in> set m. t < fst x) \<Longrightarrow> coefficient m t = 0"
  by (induction m) (auto simp: coefficient_Cons coefficient_def bt_get_def)

lemma terms_value_insert:
  "bt_ok m \<Longrightarrow> terms_value \<sigma> (bt_insert t c m) = terms_value \<sigma> m + (c - coefficient m t) * \<sigma> t"
proof (induction t c m rule: bt_insert.induct)
  case (2 t c t' c' m)
  have "coefficient m t = 0" if "t < t'"
    using that 2(2) by (intro coefficient_above) (auto simp: bt_ok_Cons)
  then show ?case using 2 by (auto simp: coefficient_Cons bt_ok_Cons algebra_simps)
qed (simp add: coefficient_def bt_get_def)

lemma terms_value_remove: "bt_ok m \<Longrightarrow> terms_value \<sigma> (bt_remove t m) = terms_value \<sigma> m - coefficient m t * \<sigma> t"
proof (induction m)
  case (Cons e m)
  obtain t' c' where e: "e = (t', c')" by (cases e)
  have "bt_ok m" "coefficient m t' = 0" using Cons.prems e by (auto simp: bt_ok_Cons intro: coefficient_above)
  then show ?case using Cons.IH e by (auto simp: bt_remove_def coefficient_Cons)
qed (simp add: bt_remove_def coefficient_def bt_get_def)

lemma set_bt_insert: "set (bt_insert t c m) \<subseteq> insert (t, c) (set m)"
  by (induction t c m rule: bt_insert.induct) auto

lemma add_term_value:
  assumes "bt_ok m" "\<forall>(t, c) \<in> set m. c \<noteq> 0"
  shows "terms_value \<sigma> (nae_add_term s t c m) = terms_value \<sigma> m + c * s * \<sigma> t \<and>
    bt_ok (nae_add_term s t c m) \<and> (\<forall>(t, c) \<in> set (nae_add_term s t c m). c \<noteq> 0)"
proof -
  have u: "nae_add_term s t c m = (if coefficient m t + c * s = 0 then bt_remove t m
      else bt_insert t (coefficient m t + c * s) m)"
    by (simp add: nae_add_term_def coefficient_def Let_def)
  show ?thesis
  proof (cases "coefficient m t + c * s = 0")
    case True
    then have "coefficient m t = - (c * s)" by simp
    moreover have "nae_add_term s t c m = bt_remove t m" using True u by simp
    ultimately show ?thesis
      using terms_value_remove [OF assms(1)] bt_ok_remove [OF assms(1)] assms(2) by (auto simp: bt_remove_def)
  next
    case False
    moreover have "nae_add_term s t c m = bt_insert t (coefficient m t + c * s) m" using False u by simp
    ultimately show ?thesis
      using terms_value_insert [OF assms(1), of \<sigma> t "coefficient m t + c * s"] bt_ok_insert [OF assms(1)] assms(2)
        set_bt_insert [of t "coefficient m t + c * s" m]
      by (auto simp: algebra_simps)
  qed
qed

lemma add_terms_value:
  assumes "bt_ok m" "\<forall>(t, c) \<in> set m. c \<noteq> 0"
  shows "terms_value \<sigma> (fold (\<lambda>(t, c). nae_add_term s t c) es m) = terms_value \<sigma> m + s * terms_value \<sigma> es \<and>
    bt_ok (fold (\<lambda>(t, c). nae_add_term s t c) es m) \<and> (\<forall>(t, c) \<in> set (fold (\<lambda>(t, c). nae_add_term s t c) es m). c \<noteq> 0)"
  using assms
proof (induction es arbitrary: m)
  case (Cons e es)
  obtain t c where e: "e = (t, c)" by (cases e)
  note step = add_term_value [OF Cons.prems, of \<sigma> s t c]
  then show ?case using Cons.IH [of "nae_add_term s t c m"] e by (simp add: algebra_simps)
qed simp

lemma add_scaled_value:
  "form_ok a \<Longrightarrow> form_value \<sigma> (nae_add_scaled a b s) = form_value \<sigma> a + s * form_value \<sigma> b \<and> form_ok (nae_add_scaled a b s)"
  using add_terms_value [of "nae_terms a" \<sigma> s "nae_terms b"]
  by (simp add: form_ok_def form_value_def nae_add_scaled_def algebra_simps)

lemma scaled_terms:
  assumes "bt_ok m"
  shows "bt_collect (filter (\<lambda>(t, c). c \<noteq> 0) (map (\<lambda>(t, c). (t, c * s)) m)) =
    filter (\<lambda>(t, c). c \<noteq> 0) (map (\<lambda>(t, c). (t, c * s)) m)"
proof (rule bt_collect_id)
  have "bt_ok (map (\<lambda>(t, c). (t, c * s)) m)"
    using assms by (simp add: bt_ok_def o_def case_prod_unfold)
  then show "bt_ok (filter (\<lambda>(t, c). c \<noteq> 0) (map (\<lambda>(t, c). (t, c * s)) m))"
    by (rule bt_ok_filter)
qed

lemma scaled_terms_value:
  "terms_value \<sigma> (filter (\<lambda>(t, c). c \<noteq> 0) (map (\<lambda>(t, c). (t, c * s)) m)) = s * terms_value \<sigma> m"
  by (induction m) (auto simp: algebra_simps)

lemma scaled_value:
  assumes "form_ok a"
  shows "form_value \<sigma> (nae_scaled a s) = s * form_value \<sigma> a \<and> form_ok (nae_scaled a s)"
proof -
  let ?m = "filter (\<lambda>(t, c). c \<noteq> 0) (map (\<lambda>(t, c). (t, c * s)) (nae_terms a))"
  have m: "nae_terms (nae_scaled a s) = ?m" using assms scaled_terms [of "nae_terms a" s]
    by (simp add: nae_scaled_def form_ok_def)
  have "terms_value \<sigma> ?m = s * terms_value \<sigma> (nae_terms a)" by (rule scaled_terms_value)
  moreover have "bt_ok ?m" using m bt_ok_collect scaled_terms [of "nae_terms a" s] assms by (metis form_ok_def)
  ultimately show ?thesis using m by (auto simp: form_value_def form_ok_def nae_scaled_def algebra_simps)
qed

section \<open>Requirements\<close>

text \<open>What a requirement speaks of: integers, slice lengths, disjoint slices, addresses.\<close>

record contract_env =
  ce_parameter :: "rstring \<Rightarrow> int"
  ce_length :: "rstring \<Rightarrow> int"
  ce_disjoint :: "rstring \<Rightarrow> rstring \<Rightarrow> bool"
  ce_pointer :: "rstring \<Rightarrow> int"
  ce_data :: "rstring \<Rightarrow> int"

fun contract_value :: "contract_env \<Rightarrow> expression \<Rightarrow> int" where
  "contract_value env (EIntegerLiteral text _) = digits_value text"
| "contract_value env (EIdentifier name _) = ce_parameter env name"
| "contract_value env (EField (EIdentifier name _) _ _) = ce_length env name"
| "contract_value env (EUnary _ e _) = - contract_value env e"
| "contract_value env (EBinary op l r _) =
     (if op = lit ''+'' then contract_value env l + contract_value env r
      else if op = lit ''-'' then contract_value env l - contract_value env r
      else contract_value env l * contract_value env r)"
| "contract_value env (EParenthesized e _) = contract_value env e"
| "contract_value env _ = 0"

definition compare_values :: "rstring \<Rightarrow> int \<Rightarrow> int \<Rightarrow> bool" where
  "compare_values op a b =
     (if op = lit ''=='' then a = b else if op = lit ''!='' then a \<noteq> b
      else if op = lit ''<'' then a < b else if op = lit ''<='' then a \<le> b
      else if op = lit ''>'' then a > b else a \<ge> b)"

fun contract_address :: "contract_env \<Rightarrow> expression \<Rightarrow> int" where
  "contract_address env (EIdentifier name _) = ce_pointer env name"
| "contract_address env (EField (EIdentifier name _) _ _) = ce_data env name"
| "contract_address env _ = 0"

fun expression_name :: "expression \<Rightarrow> rstring" where
  "expression_name (EIdentifier name _) = name"
| "expression_name _ = []"

definition builtin_holds :: "contract_env \<Rightarrow> rstring \<Rightarrow> expression \<Rightarrow> expression \<Rightarrow> bool" where
  "builtin_holds env name a b =
     (if name = lit ''multiple_of'' then contract_value env b dvd contract_value env a
      else if name = lit ''noalias'' then ce_disjoint env (expression_name a) (expression_name b)
      else contract_value env b dvd contract_address env a)"

fun contract_holds :: "contract_env \<Rightarrow> expression \<Rightarrow> bool" where
  "contract_holds env (EParenthesized e _) = contract_holds env e"
| "contract_holds env (EBinary op l r _) =
     (if op = lit ''&&'' then contract_holds env l \<and> contract_holds env r
      else compare_values op (contract_value env l) (contract_value env r))"
| "contract_holds env (ECall (EIdentifier name _) [a, b] _) = builtin_holds env name a b"
| "contract_holds env _ = False"

section \<open>Checked predicates\<close>

definition term_value :: "contract_env \<Rightarrow> valuation" where
  "term_value env t = (case t of TermParameter n \<Rightarrow> ce_parameter env n | TermSliceLength n \<Rightarrow> ce_length env n)"

definition affine_value :: "contract_env \<Rightarrow> checked_affine_expression \<Rightarrow> int" where
  "affine_value env e = decimal_value (cae_constant e) +
     (\<Sum>c \<leftarrow> cae_terms e. decimal_value (catc_coefficient c) * term_value env (catc_term c))"

definition pointer_address :: "contract_env \<Rightarrow> checked_contract_pointer \<Rightarrow> int" where
  "pointer_address env p = (case p of PointerParameter n \<Rightarrow> ce_pointer env n | PointerSliceData n \<Rightarrow> ce_data env n)"

fun predicate_holds :: "contract_env \<Rightarrow> checked_contract_predicate \<Rightarrow> bool" where
  "predicate_holds env (PredicateComparison op l r) = compare_values op (affine_value env l) (affine_value env r)"
| "predicate_holds env (PredicateConjunction ps) = list_all (predicate_holds env) ps"
| "predicate_holds env (PredicateMultipleOf e m) \<longleftrightarrow> decimal_value m dvd affine_value env e"
| "predicate_holds env (PredicateNoAlias a b) = ce_disjoint env a b"
| "predicate_holds env (PredicateAligned p m) \<longleftrightarrow> m dvd pointer_address env p"

section \<open>Agreement\<close>

lemma and_then_Some: "and_then m f = (Some y, st') \<longleftrightarrow> (\<exists>x st. m = (Some x, st) \<and> f x st = (Some y, st'))"
  by (auto simp: and_then_def split: prod.splits option.splits)

lemma parse_decimal_value: "parse_decimal text = Some v \<Longrightarrow> v = digits_value text"
  by (simp add: parse_decimal_def digits_value_def split: if_splits)

lemma checked_value: "affine_value env (nae_checked form t) = form_value (term_value env) form"
  by (simp add: affine_value_def nae_checked_def int_decimal_value form_value_def terms_value_def o_def case_prod_unfold)

text \<open>An affine form has the value of its expression; a constant one has no terms.\<close>

definition denotes :: "contract_env \<Rightarrow> expression \<Rightarrow> checked_affine_candidate \<Rightarrow> bool" where
  "denotes env e c \<longleftrightarrow> form_ok (cac_form c) \<and> form_value (term_value env) (cac_form c) = contract_value env e \<and>
     (cac_is_constant c \<longrightarrow> nae_terms (cac_form c) = [])"

lemma constant_form_simps [simp]:
  "form_ok (nae_constant_form v)" "form_value \<sigma> (nae_constant_form v) = v" "nae_terms (nae_constant_form v) = []"
  "form_ok (nae_term_form t)" "form_value \<sigma> (nae_term_form t) = \<sigma> t"
  by (simp_all add: nae_constant_form_def nae_term_form_def form_ok_def form_value_def bt_collect_def bt_ok_def)

lemma constant_value: "nae_terms f = [] \<Longrightarrow> form_value \<sigma> f = nae_constant f"
  by (simp add: form_value_def)

lemma no_terms:
  "nae_terms a = [] \<Longrightarrow> nae_terms b = [] \<Longrightarrow> nae_terms (nae_add_scaled a b s) = []"
  "nae_terms a = [] \<Longrightarrow> nae_terms (nae_scaled a s) = []"
  by (simp_all add: nae_add_scaled_def nae_scaled_def bt_collect_def)

lemma combined_denotes:
  assumes "combine_affine op sp l r st = (Some c, st')" "denotes env el l" "denotes env er r"
    "op = lit ''+'' \<or> op = lit ''-'' \<or> op = lit ''*''"
  shows "denotes env (EBinary op el er sp2) c"
proof -
  have c: "cac_form c = (if op = lit ''+'' then nae_add_scaled (cac_form l) (cac_form r) 1
      else if op = lit ''-'' then nae_add_scaled (cac_form l) (cac_form r) (- 1)
      else if cac_is_constant l then nae_scaled (cac_form r) (nae_constant (cac_form l))
      else nae_scaled (cac_form l) (nae_constant (cac_form r)))"
    "cac_is_constant c = (cac_is_constant l \<and> cac_is_constant r)"
    and k: "op = lit ''*'' \<longrightarrow> cac_is_constant l \<or> cac_is_constant r"
    using assms(1) by (auto simp: combine_affine_def split: if_splits)
  have add: "form_value \<sigma> (nae_add_scaled (cac_form l) (cac_form r) s) = form_value \<sigma> (cac_form l) + s * form_value \<sigma> (cac_form r)"
    "form_ok (nae_add_scaled (cac_form l) (cac_form r) s)" for \<sigma> s
    using add_scaled_value [of "cac_form l"] assms(2) by (simp_all add: denotes_def)
  have scale: "form_ok x \<Longrightarrow> form_value \<sigma> (nae_scaled x s) = s * form_value \<sigma> x" "form_ok x \<Longrightarrow> form_ok (nae_scaled x s)" for \<sigma> s x
    using scaled_value by simp_all
  show ?thesis
    using assms(2-4) k by (auto simp: denotes_def c add scale no_terms constant_value lit_def)
qed

lemma affine_denotes: "check_contract_affine e sc st = (Some c, st') \<Longrightarrow> denotes env e c"
proof (induction e arbitrary: c st st')
  case (EBinary op l r sp)
  then obtain cl st1 cr st2 where op: "op = lit ''+'' \<or> op = lit ''-'' \<or> op = lit ''*''"
    and "check_contract_affine l sc st = (Some cl, st1)" "check_contract_affine r sc st1 = (Some cr, st2)"
      "combine_affine op sp cl cr st2 = (Some c, st')"
    by (auto simp: and_then_Some unsupported_affine_def split: if_splits)
  then show ?case using EBinary.IH combined_denotes [OF _ _ _ op] by blast
next
  case (EUnary op e sp)
  then obtain c1 where c1: "check_contract_affine e sc st = (Some c1, st')"
      "cac_form c = nae_scaled (cac_form c1) (- 1)" "cac_is_constant c = cac_is_constant c1"
    by (auto simp: and_then_Some unsupported_affine_def split: if_splits)
  then have "denotes env e c1" using EUnary.IH by blast
  with c1 show ?case using scaled_value [of "cac_form c1"] by (auto simp: denotes_def no_terms)
next
  case (EIntegerLiteral w sp)
  then show ?case by (auto simp: denotes_def split: option.splits dest: parse_decimal_value)
qed (auto simp: unsupported_affine_def affine_parameter_def affine_slice_length_def denotes_def term_value_def
      split: if_splits option.splits expression.splits)

lemma slice_parameter_name:
  "contract_slice_parameter e sc st = (Some n, st') \<Longrightarrow> n = expression_name e"
  by (cases e) (auto simp: contract_slice_parameter_def split: if_splits)

lemma builtin_means:
  assumes "check_contract_builtin callee args sp sc st = (Some p, st')"
  shows "predicate_holds env p \<longleftrightarrow> contract_holds env (ECall callee args sp2)"
proof -
  obtain name sp1 where callee: "callee = EIdentifier name sp1"
    using assms by (cases callee) (auto simp: check_contract_builtin_def)
  have dist: "lit ''noalias'' \<noteq> lit ''multiple_of''" "lit ''aligned'' \<noteq> lit ''multiple_of''" "lit ''aligned'' \<noteq> lit ''noalias''"
    by (simp_all add: lit_def)
  consider (mult) "name = lit ''multiple_of''" "check_contract_multiple_of args sp sc st = (Some p, st')"
    | (noalias) "name = lit ''noalias''" "check_contract_noalias args sp sc st = (Some p, st')"
    | (aligned) "name = lit ''aligned''" "check_contract_aligned args sp sc st = (Some p, st')"
    using assms callee by (auto simp: check_contract_builtin_def split: if_splits)
  then show ?thesis
  proof cases
    case mult
    obtain a b where args: "args = [a, b]"
      using mult(2) by (auto simp: check_contract_multiple_of_def split: list.splits)
    obtain c st1 where c: "check_contract_affine a sc st = (Some c, st1)"
      using mult(2) args by (auto simp: check_contract_multiple_of_def and_then_Some)
    then obtain w msp m where "b = EIntegerLiteral w msp" "parse_decimal w = Some m"
        "p = PredicateMultipleOf (nae_checked (cac_form c) (materialize_integer_literal (cac_type c) primitive_i32)) (int_decimal m)"
      using mult(2) args by (cases b) (auto simp: check_contract_multiple_of_def and_then_Some split: option.splits if_splits)
    then show ?thesis
      using mult(1) args affine_denotes [OF c, of env] parse_decimal_value
      by (simp add: callee builtin_holds_def checked_value denotes_def int_decimal_value)
  next
    case noalias
    obtain a b where args: "args = [a, b]"
      using noalias(2) by (auto simp: check_contract_noalias_def split: list.splits)
    then have "p = PredicateNoAlias (expression_name a) (expression_name b)"
      using noalias(2) by (auto simp: check_contract_noalias_def and_then_Some dest!: slice_parameter_name)
    then show ?thesis using noalias(1) args dist by (simp add: callee builtin_holds_def)
  next
    case aligned
    obtain a b where args: "args = [a, b]"
      using aligned(2) by (auto simp: check_contract_aligned_def split: list.splits)
    obtain q st1 where q: "contract_pointer a sc st = (Some q, st1)"
      using aligned(2) args by (auto simp: check_contract_aligned_def and_then_Some)
    then obtain w asp m where a: "b = EIntegerLiteral w asp" "parse_u32 w = Some m" "p = PredicateAligned q m"
      using aligned(2) args
      by (cases b) (auto simp: check_contract_aligned_def and_then_Some Let_def split: option.splits if_splits)
    have "m = digits_value w" using a(2) by (auto simp: parse_u32_def split: option.splits if_splits dest: parse_decimal_value)
    moreover have "pointer_address env q = contract_address env a"
      using q by (auto simp: contract_pointer_def pointer_address_def Let_def split: expression.splits if_splits)
    ultimately show ?thesis using aligned(1) args a dist by (simp add: callee builtin_holds_def)
  qed
qed

lemma predicate_means:
  "check_contract_predicate e sc st = (Some p, st') \<Longrightarrow> predicate_holds env p \<longleftrightarrow> contract_holds env e"
proof (induction e arbitrary: p st st')
  case (EBinary op l r sp)
  show ?case
  proof (cases "op = lit ''&&''")
    case True
    then show ?thesis using EBinary by (auto simp: and_then_Some)
  next
    case False
    then obtain cl st1 cr st2 where "check_contract_affine l sc st = (Some cl, st1)" "check_contract_affine r sc st1 = (Some cr, st2)"
        "compare_affine op sp cl cr st2 = (Some p, st')"
      using EBinary.prems by (auto simp: and_then_Some unsupported_predicate_def split: if_splits)
    moreover from this obtain tl tr where "p = PredicateComparison op (nae_checked (cac_form cl) tl) (nae_checked (cac_form cr) tr)"
      by (auto simp: compare_affine_def Let_def case_prod_unfold split: if_splits)
    ultimately show ?thesis using False affine_denotes [of l sc st cl st1 env] affine_denotes [of r sc st1 cr st2 env]
      by (simp add: checked_value denotes_def)
  qed
next
  case (ECall callee args sp)
  then show ?case using builtin_means by simp
qed (auto simp: unsupported_predicate_def)

section \<open>Whole contracts\<close>

text \<open>A check that yields nothing has reported why.\<close>

definition reports :: "checker \<Rightarrow> 'a option \<times> checker \<Rightarrow> bool" where
  "reports st m \<longleftrightarrow> fst m = None \<longrightarrow> \<not> quiet st (snd m)"

lemma reports_error [simp]: "reports st (None, contract_error sp m st)" "reports st (None, contract_named_error sp m n st)"
  "reports st (Some x, st')"
  by (simp_all add: reports_def contract_error_def contract_named_error_def)

lemma reports_and_then:
  assumes "reports st m" "grows st (snd m)" "\<And>x st1. reports st1 (f x st1)" "\<And>x st1. grows st1 (snd (f x st1))"
  shows "reports st (and_then m f)"
proof (cases m)
  case (Pair o1 st1)
  show ?thesis
  proof (cases o1)
    case None
    then show ?thesis using assms(1) Pair by (simp add: reports_def and_then_def)
  next
    case (Some x)
    have "\<not> quiet st (snd (f x st1))" if "fst (f x st1) = None"
      using quiet_grows_split [OF _ assms(4), of st st1 x] assms(2) assms(3) [of st1 x] that Pair by (auto simp: reports_def)
    then show ?thesis using Some Pair by (simp add: reports_def and_then_def)
  qed
qed

lemma reports_affine: "reports st (check_contract_affine e sc st)"
proof (induction e arbitrary: st)
  case (EBinary op l r sp)
  have c: "reports st (combine_affine op sp x y st)" "grows st (snd (combine_affine op sp x y st))" for x y st
    by (simp_all add: combine_affine_def grows_intros)
  have g: "grows st (snd (and_then (check_contract_affine r sc st) (combine_affine op sp x)))" for x st
    by (rule grows_and_then) (simp_all add: combine_affine_def grows_intros)
  have "reports st (and_then (check_contract_affine l sc st)
      (\<lambda>l st. and_then (check_contract_affine r sc st) (\<lambda>r st. combine_affine op sp l r st)))"
    by (intro reports_and_then EBinary grows_affine [OF grows_refl] c g)
  then show ?case by (simp add: unsupported_affine_def)
next
  case (EUnary op e sp)
  then show ?case by (auto simp: unsupported_affine_def intro!: reports_and_then grows_intros)
qed (auto simp: unsupported_affine_def affine_parameter_def affine_slice_length_def split: option.split expression.split)

lemma reports_builtin: "reports st (check_contract_builtin callee args sp sc st)"
proof -
  have places: "reports st (contract_slice_parameter e sc st)" "reports st (contract_pointer e sc st)" for e st
    by (auto simp: contract_slice_parameter_def contract_pointer_def Let_def split: expression.split)
  have "reports st (check_contract_multiple_of args sp sc st)" "reports st (check_contract_noalias args sp sc st)"
    "reports st (check_contract_aligned args sp sc st)"
    by (auto simp: check_contract_multiple_of_def check_contract_noalias_def check_contract_aligned_def Let_def
      intro!: reports_and_then reports_affine places grows_and_then grows_intros grows_refl
      split: list.split expression.split option.split)
  then show ?thesis by (auto simp: check_contract_builtin_def split: expression.split)
qed

lemma reports_predicate: "reports st (check_contract_predicate e sc st)"
proof (induction e arbitrary: st)
  case (EBinary op l r sp)
  have c: "reports st (compare_affine op sp x y st)" "grows s st \<Longrightarrow> grows s (snd (compare_affine op sp x y st))" for x y s st
    by (simp_all add: compare_affine_def comparison_types_def Let_def grows_intros)
  show ?case
    by (auto simp: unsupported_predicate_def intro!: reports_and_then EBinary reports_affine c grows_and_then grows_intros grows_refl)
qed (auto simp: unsupported_predicate_def intro: reports_builtin)

lemma predicates_mean:
  assumes "check_contract_predicates rs sc st = (ps, st')" "quiet st st'"
  shows "(\<forall>p \<in> set ps. predicate_holds env p) \<longleftrightarrow> (\<forall>r \<in> set rs. contract_holds env (requirement_expression r))"
  using assms
proof (induction rs arbitrary: ps st)
  case (Cons r rs)
  obtain o1 st1 where 1: "check_contract_predicate (requirement_expression r) sc st = (o1, st1)"
    by (cases "check_contract_predicate (requirement_expression r) sc st")
  obtain ps2 st2 where 2: "check_contract_predicates rs sc st1 = (ps2, st2)" by (cases "check_contract_predicates rs sc st1")
  have e: "st' = st2" "ps = (case o1 of Some p \<Rightarrow> p # ps2 | None \<Rightarrow> ps2)" using Cons.prems(1) 1 2 by simp_all
  have g: "grows st st1" "grows st1 st'"
    using grows_predicate [OF grows_refl [of st], of "requirement_expression r" sc] 1
      grows_predicates [OF grows_refl [of st1], of rs sc] 2 e(1) by simp_all
  have q: "quiet st st1" "quiet st1 st'" using quiet_grows_split [OF g Cons.prems(2)] by simp_all
  obtain p where p: "o1 = Some p" using reports_predicate [of st "requirement_expression r" sc] 1 q(1) by (auto simp: reports_def)
  then have "predicate_holds env p \<longleftrightarrow> contract_holds env (requirement_expression r)" using predicate_means 1 by simp
  moreover have "(\<forall>p \<in> set ps2. predicate_holds env p) \<longleftrightarrow> (\<forall>r \<in> set rs. contract_holds env (requirement_expression r))"
    using Cons.IH [of st1 ps2] 2 q(2) e(1) by simp
  ultimately show ?case using e(2) p by simp
qed auto

lemma contract_means:
  assumes "check_contract c sc ps st = (Some checked, st')"
  shows "(\<forall>p \<in> set (cc_predicates checked). predicate_holds env p) \<longleftrightarrow>
    (\<forall>r \<in> set (requirements c). contract_holds env (requirement_expression r))"
proof -
  obtain preds st1 where 1: "check_contract_predicates (requirements c) sc st = (preds, st1)"
    by (cases "check_contract_predicates (requirements c) sc st")
  obtain eff st2 where 2: "(case contract_effects c of Some clause \<Rightarrow> check_contract_effects clause sc ps st1 | None \<Rightarrow> (None, st1)) = (eff, st2)"
    by (cases "case contract_effects c of Some clause \<Rightarrow> check_contract_effects clause sc ps st1 | None \<Rightarrow> (None, st1)")
  have "length (ck_diagnostics st2) = length (ck_diagnostics st)" "cc_predicates checked = preds"
    using assms 1 2 by (auto simp: check_contract_def split: if_splits)
  moreover have g: "grows st st1" using grows_predicates [OF grows_refl [of st], of "requirements c" sc] 1 by simp
  moreover have "grows st1 st2"
    using 2 grows_effect_items [OF grows_refl [of st1]]
    by (auto simp: check_contract_effects_def Let_def case_prod_unfold grows_refl split: option.splits)
  ultimately have "ck_diagnostics st1 = ck_diagnostics st"
    using grows_diagnostics [of st st1] grows_diagnostics [of st1 st2] by auto
  then show ?thesis using predicates_mean [OF 1 grows_quiet [OF g]] \<open>cc_predicates checked = preds\<close> by simp
qed

section \<open>The property\<close>

text \<open>
  C38. Contracts: the predicates a checked contract keeps for the later phases hold exactly when
  the requirements hold as they are written, over unbounded integers: the affine normal forms,
  their printed coefficients and the modulus and alignment constants mean what the source says,
  and no requirement is lost.
\<close>

theorem check_contract_means:
  assumes "check_contract c sc ps st = (Some checked, st')"
  shows "(\<forall>p \<in> set (cc_predicates checked). predicate_holds env p) \<longleftrightarrow>
    (\<forall>r \<in> set (requirements c). contract_holds env (requirement_expression r))"
  using assms by (rule contract_means)

text \<open>\<^verbatim>\<open>requires 2 * n - n <= 3;\<close> over a parameter \<^verbatim>\<open>n: i32\<close>.\<close>

definition no_span :: source_span where
  "no_span = \<lparr>span_start = \<lparr>pos_offset = 0, pos_line = 1, pos_column = 1\<rparr>,
     span_end = \<lparr>pos_offset = 0, pos_line = 1, pos_column = 1\<rparr>\<rparr>"

definition bound_requirement :: expression where
  "bound_requirement =
     (let n = EIdentifier (lit ''n'') no_span
      in EBinary (lit ''<='')
           (EBinary (lit ''-'') (EBinary (lit ''*'') (EIntegerLiteral (lit ''2'') no_span) n no_span) n no_span)
           (EIntegerLiteral (lit ''3'') no_span) no_span)"

definition bound_contract :: contract_declaration where
  "bound_contract =
     \<lparr>requirements = [\<lparr>requirement_expression = bound_requirement, requirement_span = no_span\<rparr>],
      contract_effects = None, contract_span = no_span\<rparr>"

definition bound_scope :: scope where
  "bound_scope = [[lit ''n'' \<mapsto> \<lparr>var_name = lit ''n'', var_type = primitive_i32\<rparr>]]"

lemma bound_checked:
  "fst (check_contract bound_contract bound_scope [] st) \<noteq> None"
  by (simp add: check_contract_def bound_contract_def bound_requirement_def bound_scope_def Let_def and_then_def
    affine_parameter_def parse_decimal_def combine_affine_def type_defs compare_affine_def comparison_types_def
    is_comparison_operator_def lit_def)

theorem check_contract_means_witness:
  "\<exists>checked. fst (check_contract bound_contract bound_scope [] (checker_new \<lparr>file_name = [], sf_text = []\<rparr>
       \<lparr>pr_ast = \<lparr>declarations = [], program_span = no_span\<rparr>, pr_diagnostics = []\<rparr>)) = Some checked \<and>
     (\<forall>env. (\<forall>p \<in> set (cc_predicates checked). predicate_holds env p) \<longleftrightarrow> ce_parameter env (lit ''n'') \<le> 3)"
proof -
  let ?st = "checker_new \<lparr>file_name = [], sf_text = []\<rparr> \<lparr>pr_ast = \<lparr>declarations = [], program_span = no_span\<rparr>, pr_diagnostics = []\<rparr>"
  obtain checked st' where c: "check_contract bound_contract bound_scope [] ?st = (Some checked, st')"
    using bound_checked [of ?st] by (cases "check_contract bound_contract bound_scope [] ?st") auto
  have "contract_holds env bound_requirement \<longleftrightarrow> ce_parameter env (lit ''n'') \<le> 3" for env
    by (simp add: bound_requirement_def Let_def compare_values_def digits_value_def lit_def)
  then show ?thesis using check_contract_means [OF c] c by (simp add: bound_contract_def)
qed

end
