(* ===== verification/Mir_Lower.thy ===== *)
theory Mir_Lower
  imports Source_Effects Mir_Model
begin

text \<open>
  Lowering of a checked program to the middle-level representation, \<^verbatim>\<open>src/src/ir/lower.rs\<close>. The
  context is passed along; an error ends the lowering. Blocks are numbered in the order they
  start, \<open>cx_current\<close> is the block instructions go to, none after a terminator.
\<close>

section \<open>The context\<close>

record mir_lower_error =
  mle_message :: rstring

definition lower_error :: "rstring \<Rightarrow> mir_lower_error + 'a" where
  "lower_error message = Inl \<lparr>mle_message = message\<rparr>"

definition unsupported :: "string \<Rightarrow> mir_lower_error + 'a" where
  "unsupported what = lower_error (lit ''MIR scalar lowering does not support '' @ lit what @ lit '' yet.'')"

definition violation :: "rstring \<Rightarrow> mir_lower_error + 'a" where
  "violation message = lower_error (lit ''MIR lowering invariant violation: '' @ message)"

record mutable_mir_block =
  mb_label :: rstring
  mb_instructions :: "mir_instruction list"
  mb_terminator :: "mir_terminator option"

record mir_builder =
  temp_counter :: nat
  block_counter :: nat

record loop_targets =
  continue_label :: rstring
  break_label :: rstring

text \<open>The values are a \<^verbatim>\<open>HashMap\<close> that is only asked for keys.\<close>

record lower_context =
  cx_program :: checked_program
  cx_builder :: mir_builder
  cx_values :: "(rstring, mir_value) btree"
  cx_locals :: "mir_local list"
  cx_blocks :: "mutable_mir_block list"
  cx_current :: "nat option"
  cx_synthetic :: nat
  cx_loops :: "loop_targets list"

type_synonym 'a lowered = "mir_lower_error + 'a"

fun map_result :: "('a \<Rightarrow> 'e + 'b) \<Rightarrow> 'a list \<Rightarrow> 'e + 'b list" where
  "map_result f [] = Inr []"
| "map_result f (x # xs) = result_bind (f x) (\<lambda>y. result_bind (map_result f xs) (\<lambda>ys. Inr (y # ys)))"

definition temp :: "mir_type \<Rightarrow> lower_context \<Rightarrow> mir_value \<times> lower_context" where
  "temp t cx =
     (let n = temp_counter (cx_builder cx)
      in (MirTemp (lit ''t'' @ nat_decimal n) t, cx\<lparr>cx_builder := (cx_builder cx)\<lparr>temp_counter := n + 1\<rparr>\<rparr>))"

definition const_bool :: "bool \<Rightarrow> mir_value" where
  "const_bool b = MirConstBool b (MirPrimitive MirBool)"

definition block_label :: "nat \<Rightarrow> rstring" where
  "block_label n = lit ''bb'' @ nat_decimal n"

definition next_block_label :: "lower_context \<Rightarrow> rstring \<times> lower_context" where
  "next_block_label cx =
     (let n = block_counter (cx_builder cx)
      in (block_label n, cx\<lparr>cx_builder := (cx_builder cx)\<lparr>block_counter := n + 1\<rparr>\<rparr>))"

section \<open>Blocks\<close>

definition start_block :: "rstring \<Rightarrow> lower_context \<Rightarrow> nat \<times> lower_context" where
  "start_block label cx =
     (let index = length (cx_blocks cx)
      in (index, cx\<lparr>cx_blocks := cx_blocks cx @ [\<lparr>mb_label = label, mb_instructions = [], mb_terminator = None\<rparr>],
                    cx_current := Some index\<rparr>))"

definition block_has_terminator :: "lower_context \<Rightarrow> nat \<Rightarrow> bool" where
  "block_has_terminator cx index \<longleftrightarrow>
     index < length (cx_blocks cx) \<and> mb_terminator (cx_blocks cx ! index) \<noteq> None"

definition set_block_terminator :: "nat \<Rightarrow> mir_terminator \<Rightarrow> lower_context \<Rightarrow> lower_context" where
  "set_block_terminator index terminator cx =
     (let blocks = cx_blocks cx;
          cx = (if index < length blocks
                then cx\<lparr>cx_blocks := blocks[index := (blocks ! index)\<lparr>mb_terminator := Some terminator\<rparr>]\<rparr> else cx)
      in if cx_current cx = Some index then cx\<lparr>cx_current := None\<rparr> else cx)"

definition emit_instruction :: "mir_instruction \<Rightarrow> lower_context \<Rightarrow> lower_context lowered" where
  "emit_instruction i cx =
     (case cx_current cx of
        None \<Rightarrow> unsupported ''instruction after return''
      | Some n \<Rightarrow>
          let b = cx_blocks cx ! n
          in Inr (cx\<lparr>cx_blocks := (cx_blocks cx)[n := b\<lparr>mb_instructions := mb_instructions b @ [i]\<rparr>]\<rparr>))"

definition set_terminator :: "mir_terminator \<Rightarrow> lower_context \<Rightarrow> lower_context lowered" where
  "set_terminator terminator cx =
     (case cx_current cx of
        None \<Rightarrow> unsupported ''terminator after return''
      | Some n \<Rightarrow>
          Inr (cx\<lparr>cx_blocks := (cx_blocks cx)[n := (cx_blocks cx ! n)\<lparr>mb_terminator := Some terminator\<rparr>],
                 cx_current := None\<rparr>))"

definition finalize_blocks :: "rstring \<Rightarrow> mutable_mir_block list \<Rightarrow> mir_block list lowered" where
  "finalize_blocks function_name blocks =
     map_result (\<lambda>b. case mb_terminator b of
        None \<Rightarrow> violation (lit ''block '' @ quoted (mb_label b) @ lit '' in function '' @ quoted function_name @
                  lit '' has no terminator.'')
      | Some t \<Rightarrow> Inr \<lparr>mir_label = mb_label b, mir_instructions = mb_instructions b, mir_terminator = t\<rparr>) blocks"

section \<open>Types and values\<close>

fun to_mir_type :: "ck_type \<Rightarrow> mir_type lowered" where
  "to_mir_type (CkPrimitive p) = Inr (MirPrimitive (case p of
       PrimI32 \<Rightarrow> MirI32 | PrimI64 \<Rightarrow> MirI64 | PrimU32 \<Rightarrow> MirU32 | PrimU64 \<Rightarrow> MirU64 | PrimF64 \<Rightarrow> MirF64 | PrimBool \<Rightarrow> MirBool))"
| "to_mir_type (CkPointer t) = result_bind (to_mir_type t) (\<lambda>m. Inr (MirPointer m))"
| "to_mir_type (CkSlice t) = result_bind (to_mir_type t) (\<lambda>m. Inr (MirSlice m))"
| "to_mir_type (CkStruct name) = Inr (MirStruct name)"
| "to_mir_type CkVoid = Inr MirVoid"
| "to_mir_type CkIntegerLiteral = Inr (MirPrimitive MirI32)"
| "to_mir_type CkUnknown = lower_error (lit ''MIR lowering cannot lower unknown type.'')"

definition require_expression_type :: "checked_program \<Rightarrow> expression \<Rightarrow> ck_type lowered" where
  "require_expression_type p e =
     (case cp_types p (expression_span e) of
        Some t \<Rightarrow> Inr (materialize_integer_literal t primitive_i32)
      | None \<Rightarrow> violation (lit ''missing expression type for expression at line '' @
                  nat_decimal (pos_line (span_start (expression_span e))) @ lit ''.''))"

definition require_let_type :: "checked_program \<Rightarrow> identifier_node \<Rightarrow> source_span \<Rightarrow> ck_type lowered" where
  "require_let_type p name span =
     (case cp_local_types p span of
        Some t \<Rightarrow> Inr (materialize_integer_literal t primitive_i32)
      | None \<Rightarrow> violation (lit ''missing local type for '' @ quoted (id_name name) @ lit ''.''))"

definition expression_mir_type :: "expression \<Rightarrow> lower_context \<Rightarrow> mir_type lowered" where
  "expression_mir_type e cx = result_bind (require_expression_type (cx_program cx) e) to_mir_type"

definition has_slice_type :: "expression \<Rightarrow> lower_context \<Rightarrow> bool lowered" where
  "has_slice_type e cx = result_bind (require_expression_type (cx_program cx) e) (\<lambda>t. Inr (is_slice t))"

definition require_identifier_value :: "expression \<Rightarrow> lower_context \<Rightarrow> mir_value lowered" where
  "require_identifier_value e cx =
     (case e of
        EIdentifier name _ \<Rightarrow>
          (case bt_get (cx_values cx) name of
             Some v \<Rightarrow> Inr v
           | None \<Rightarrow> violation (lit ''unknown value '' @ quoted name @ lit ''.''))
      | _ \<Rightarrow> unsupported ''non-identifier value'')"

definition binary_op :: "rstring \<Rightarrow> mir_binary_op option" where
  "binary_op operator =
     map_of [(lit ''+'', MirAdd), (lit ''-'', MirSub), (lit ''*'', MirMul), (lit ''/'', MirDiv), (lit ''%'', MirMod)] operator"

definition compare_op :: "rstring \<Rightarrow> mir_compare_op option" where
  "compare_op operator =
     map_of [(lit ''=='', MirEq), (lit ''!='', MirNe), (lit ''<'', MirLt), (lit ''<='', MirLe), (lit ''>'', MirGt),
       (lit ''>='', MirGe)] operator"

definition cast_builtin_op :: "rstring \<Rightarrow> mir_cast_op option" where
  "cast_builtin_op name = Option.bind (get_compiler_builtin name) (\<lambda>b. case cb_kind b of
     BuiltinI32ToF64 \<Rightarrow> Some I32ToF64 | BuiltinU32ToF64 \<Rightarrow> Some U32ToF64 | _ \<Rightarrow> None)"

definition print_runtime_intrinsic :: "rstring \<Rightarrow> mir_runtime_intrinsic option" where
  "print_runtime_intrinsic name = Option.bind (get_compiler_builtin name) (\<lambda>b. case cb_kind b of
     BuiltinPrintI32 \<Rightarrow> Some PrintI32 | BuiltinPrintI64 \<Rightarrow> Some PrintI64 | BuiltinPrintU32 \<Rightarrow> Some PrintU32
   | BuiltinPrintU64 \<Rightarrow> Some PrintU64 | BuiltinPrintF64 \<Rightarrow> Some PrintF64 | BuiltinPrintBool \<Rightarrow> Some PrintBool
   | BuiltinPrintNewline \<Rightarrow> Some PrintNewline | BuiltinI32ToF64 \<Rightarrow> None | BuiltinU32ToF64 \<Rightarrow> None)"

subsection \<open>Synthetic locals\<close>

text \<open>The first number from \<open>counter\<close> on that makes a name without a value.\<close>

lemma nat_decimal_inj [simp]: "nat_decimal a = nat_decimal b \<longleftrightarrow> a = b"
proof
  have "nat_decimal a = nat_decimal b \<Longrightarrow> a = b" for a b
  proof (induction a arbitrary: b rule: nat_decimal.induct)
    case (1 a)
    have ne: "nat_decimal n \<noteq> []" for n by (subst nat_decimal.simps) simp
    show ?case
    proof (cases "a < 10 \<longleftrightarrow> b < 10")
      case True
      show ?thesis
      proof (cases "a < 10")
        case small: True
        with True "1.prems" show ?thesis by (simp add: nat_decimal.simps [of a] nat_decimal.simps [of b])
      next
        case False
        with True "1.prems" have "nat_decimal (a div 10) = nat_decimal (b div 10)" "a mod 10 = b mod 10"
          by (simp_all add: nat_decimal.simps [of a] nat_decimal.simps [of b])
        with "1.IH" [OF False] show ?thesis by (metis div_mult_mod_eq)
      qed
    next
      case False
      with "1.prems" ne [of "a div 10"] ne [of "b div 10"] show ?thesis
        by (auto simp: nat_decimal.simps [of a] nat_decimal.simps [of b] append_eq_Cons_conv Cons_eq_append_conv split: if_splits)
    qed
  qed
  then show "nat_decimal a = nat_decimal b \<Longrightarrow> a = b" .
qed simp

function synthetic_index :: "rstring \<Rightarrow> (rstring, mir_value) btree \<Rightarrow> nat \<Rightarrow> nat" where
  "synthetic_index prefix values counter =
     (if bt_get values (prefix @ nat_decimal counter) = None then counter
      else synthetic_index prefix values (counter + 1))"
  by pat_completeness auto
termination
proof (relation "measure (\<lambda>(prefix, values, counter).
    card {k \<in> set (map fst values). \<exists>n \<ge> counter. k = prefix @ nat_decimal n})")
  fix prefix :: rstring and "values" :: "(rstring, mir_value) btree" and counter :: nat
  let ?A = "\<lambda>c. {k \<in> set (map fst values). \<exists>n \<ge> c. k = prefix @ nat_decimal n}"
  assume "bt_get values (prefix @ nat_decimal counter) \<noteq> None"
  then have "prefix @ nat_decimal counter \<in> ?A counter - ?A (counter + 1)"
    by (auto simp: bt_get_def map_of_eq_None_iff)
  moreover have "?A (counter + 1) \<subseteq> ?A counter" using Suc_leD by auto
  ultimately have "?A (counter + 1) \<subset> ?A counter" by blast
  then have "card (?A (counter + 1)) < card (?A counter)" by (intro psubset_card_mono) simp_all
  then show "((prefix, values, counter + 1), prefix, values, counter) \<in> measure (\<lambda>(prefix, values, counter).
      card {k \<in> set (map fst values). \<exists>n \<ge> counter. k = prefix @ nat_decimal n})" by simp
qed simp

declare synthetic_index.simps [simp del]

definition create_synthetic_local_with_prefix :: "rstring \<Rightarrow> mir_type \<Rightarrow> lower_context \<Rightarrow> mir_value \<times> lower_context" where
  "create_synthetic_local_with_prefix prefix t cx =
     (let index = synthetic_index prefix (cx_values cx) (cx_synthetic cx);
          name = prefix @ nat_decimal index;
          v = MirLocalValue name t
      in (v, cx\<lparr>cx_synthetic := index + 1, cx_locals := cx_locals cx @ [\<lparr>mir_local_name = name, mir_local_type = t\<rparr>],
                cx_values := bt_insert name v (cx_values cx)\<rparr>))"

definition create_synthetic_local :: "mir_type \<Rightarrow> lower_context \<Rightarrow> mir_value \<times> lower_context" where
  "create_synthetic_local t cx = create_synthetic_local_with_prefix (lit ''ik_sc'') t cx"

section \<open>Expressions\<close>

text \<open>A new temporary of the type of \<open>e\<close>, the target of the instruction.\<close>

definition emit_for :: "expression \<Rightarrow> (mir_value \<Rightarrow> mir_instruction) \<Rightarrow> lower_context \<Rightarrow> (mir_value \<times> lower_context) lowered" where
  "emit_for e instruction cx =
     result_bind (expression_mir_type e cx) (\<lambda>t.
       let (target, cx) = temp t cx
       in result_bind (emit_instruction (instruction target) cx) (\<lambda>cx. Inr (target, cx)))"

text \<open>The block of a short circuit that knows the result.\<close>

definition lower_short_circuit_constant_block ::
  "rstring \<Rightarrow> bool \<Rightarrow> mir_value \<Rightarrow> rstring \<Rightarrow> lower_context \<Rightarrow> lower_context lowered" where
  "lower_short_circuit_constant_block label b res join_label cx =
     (let (_, cx) = start_block label cx
      in result_bind (emit_instruction (IMove res (const_bool b)) cx) (set_terminator (MirJump join_label)))"

text \<open>A pointer that is no place itself is moved to a local first.\<close>

definition pointer_local :: "mir_value \<Rightarrow> lower_context \<Rightarrow> (mir_place \<times> lower_context) lowered" where
  "pointer_local pointer cx =
     (let (local, cx) = create_synthetic_local_with_prefix (lit ''ik_place'') (value_type pointer) cx
      in result_bind (emit_instruction (IMove local pointer) cx) (\<lambda>cx.
           case local of
             MirLocalValue name t \<Rightarrow> Inr (MirPlaceLocal name t, cx)
           | _ \<Rightarrow> unsupported ''non-place value''))"

definition place_of_value :: "mir_value \<Rightarrow> mir_place lowered" where
  "place_of_value v =
     (case v of
        MirParamValue name t \<Rightarrow> Inr (MirPlaceParam name t)
      | MirLocalValue name t \<Rightarrow> Inr (MirPlaceLocal name t)
      | _ \<Rightarrow> unsupported ''non-place value'')"

definition emit_load :: "mir_place \<times> lower_context \<Rightarrow> (mir_value \<times> lower_context) lowered" where
  "emit_load = (\<lambda>(place, cx).
     let (target, cx) = temp (place_type place) cx
     in result_bind (emit_instruction (ILoad target place) cx) (\<lambda>cx. Inr (target, cx)))"

definition emit_binary ::
  "expression \<Rightarrow> rstring \<Rightarrow> mir_value \<Rightarrow> mir_value \<Rightarrow> lower_context \<Rightarrow> (mir_value \<times> lower_context) lowered" where
  "emit_binary e operator l r cx =
     (case binary_op operator of
        Some op \<Rightarrow> emit_for e (\<lambda>target. IBinary target op l r) cx
      | None \<Rightarrow>
          (case compare_op operator of
             Some op \<Rightarrow> emit_for e (\<lambda>target. ICompare target op l r) cx
           | None \<Rightarrow> result_bind (expression_mir_type e cx) (\<lambda>_.
               lower_error (lit ''MIR scalar lowering does not support binary operator '' @ quoted operator @ lit '' yet.''))))"

function lower_expression :: "expression \<Rightarrow> lower_context \<Rightarrow> (mir_value \<times> lower_context) lowered"
  and lower_short_circuit_rhs_block ::
    "rstring \<Rightarrow> expression \<Rightarrow> mir_value \<Rightarrow> rstring \<Rightarrow> lower_context \<Rightarrow> lower_context lowered"
  and lower_arguments :: "expression list \<Rightarrow> lower_context \<Rightarrow> (mir_value list \<times> lower_context) lowered"
  and lower_place :: "expression \<Rightarrow> lower_context \<Rightarrow> (mir_place \<times> lower_context) lowered"
  and lower_pointer_base_place :: "expression \<Rightarrow> lower_context \<Rightarrow> (mir_place \<times> lower_context) lowered" where
  "lower_expression (EIdentifier name sp) cx =
     result_bind (require_identifier_value (EIdentifier name sp) cx) (\<lambda>v. Inr (v, cx))"
| "lower_expression (EIntegerLiteral n sp) cx = emit_for (EIntegerLiteral n sp) (\<lambda>target. IConstInt target n) cx"
| "lower_expression (EFloatLiteral n sp) cx = emit_for (EFloatLiteral n sp) (\<lambda>target. IConstFloat target n) cx"
| "lower_expression (EBoolLiteral b sp) cx = emit_for (EBoolLiteral b sp) (\<lambda>target. IConstBool target b) cx"
| "lower_expression (EUnary operator operand sp) cx =
     result_bind (lower_expression operand cx) (\<lambda>(v, cx).
       emit_for (EUnary operator operand sp)
         (\<lambda>target. IUnary target (if operator = lit ''-'' then MirNeg else MirNot) v) cx)"
| "lower_expression (EBinary operator l r sp) cx =
     (if operator = lit ''&&'' \<or> operator = lit ''||'' then
        result_bind (expression_mir_type (EBinary operator l r sp) cx) (\<lambda>t.
          let (res, cx) = create_synthetic_local t cx
          in result_bind (lower_expression l cx) (\<lambda>(lv, cx).
            let (first_label, cx) = next_block_label cx;
                (second_label, cx) = next_block_label cx;
                (join_label, cx) = next_block_label cx;
                rhs_label = (if operator = lit ''&&'' then first_label else second_label);
                short_label = (if operator = lit ''&&'' then second_label else first_label)
            in result_bind (set_terminator (MirBranch lv
                  (if operator = lit ''&&'' then rhs_label else short_label)
                  (if operator = lit ''&&'' then short_label else rhs_label)) cx) (\<lambda>cx.
              result_bind
                (if operator = lit ''&&'' then
                   result_bind (lower_short_circuit_rhs_block rhs_label r res join_label cx)
                     (lower_short_circuit_constant_block short_label False res join_label)
                 else
                   result_bind (lower_short_circuit_constant_block short_label True res join_label cx)
                     (\<lambda>cx. lower_short_circuit_rhs_block rhs_label r res join_label cx))
                (\<lambda>cx. Inr (res, snd (start_block join_label cx))))))
      else
        result_bind (lower_expression l cx) (\<lambda>(lv, cx).
        result_bind (lower_expression r cx) (\<lambda>(rv, cx).
          emit_binary (EBinary operator l r sp) operator lv rv cx)))"
| "lower_expression (ECall callee args sp) cx =
     (case callee of
        EIdentifier name _ \<Rightarrow>
          (case cast_builtin_op name of
             Some op \<Rightarrow>
               (case args of
                  [arg] \<Rightarrow>
                    result_bind (lower_expression arg cx) (\<lambda>(v, cx).
                      emit_for (ECall callee args sp) (\<lambda>target. ICast target op v) cx)
                | _ \<Rightarrow> violation (lit ''compiler builtin '' @ quoted name @ lit '' expects one argument.''))
           | None \<Rightarrow>
               if print_runtime_intrinsic name \<noteq> None then
                 violation (lit ''void runtime builtin '' @ quoted name @ lit '' used as a value.'')
               else
                 result_bind (lower_arguments args cx) (\<lambda>(vs, cx).
                   emit_for (ECall callee args sp) (\<lambda>target. ICall (Some target) name vs) cx))
      | _ \<Rightarrow> unsupported ''non-identifier call callee'')"
| "lower_expression (ESliceConstructor data len sp) cx =
     result_bind (lower_expression data cx) (\<lambda>(d, cx).
     result_bind (lower_expression len cx) (\<lambda>(n, cx).
       emit_for (ESliceConstructor data len sp) (\<lambda>target. IMakeSlice target d n) cx))"
| "lower_expression (ESubslice sliced start stop sp) cx =
     result_bind (lower_expression sliced cx) (\<lambda>(v, cx).
     result_bind (lower_expression start cx) (\<lambda>(a, cx).
     result_bind (lower_expression stop cx) (\<lambda>(b, cx).
       emit_for (ESubslice sliced start stop sp) (\<lambda>target. ISubslice target v a b) cx)))"
| "lower_expression (EField ob field sp) cx =
     result_bind (has_slice_type ob cx) (\<lambda>is_slice_field.
       if is_slice_field then
         result_bind (lower_expression ob cx) (\<lambda>(v, cx).
           emit_for (EField ob field sp)
             (\<lambda>target. if id_name field = lit ''data'' then ISliceData target v else ISliceLen target v) cx)
       else result_bind (lower_place (EField ob field sp) cx) emit_load)"
| "lower_expression (EIndex ob index sp) cx = result_bind (lower_place (EIndex ob index sp) cx) emit_load"
| "lower_expression (EParenthesized e sp) cx = lower_expression e cx"
| "lower_expression (EError sp) cx = unsupported ''ErrorExpression''"
| "lower_short_circuit_rhs_block label e res join_label cx =
     (let (_, cx) = start_block label cx
      in result_bind (lower_expression e cx) (\<lambda>(v, cx).
         result_bind (emit_instruction (IMove res v) cx) (set_terminator (MirJump join_label))))"
| "lower_arguments [] cx = Inr ([], cx)"
| "lower_arguments (arg # args) cx =
     result_bind (lower_expression arg cx) (\<lambda>(v, cx).
     result_bind (lower_arguments args cx) (\<lambda>(vs, cx). Inr (v # vs, cx)))"
| "lower_place (EIdentifier name sp) cx =
     result_bind (require_identifier_value (EIdentifier name sp) cx) (\<lambda>v.
     result_bind (place_of_value v) (\<lambda>place. Inr (place, cx)))"
| "lower_place (EIndex ob index sp) cx =
     result_bind (has_slice_type ob cx) (\<lambda>indexes_slice.
       if indexes_slice then
         result_bind (lower_expression ob cx) (\<lambda>(v, cx).
         result_bind (lower_expression index cx) (\<lambda>(i, cx).
         result_bind (expression_mir_type (EIndex ob index sp) cx) (\<lambda>t. Inr (MirPlaceSliceIndex v i t, cx))))
       else
         result_bind (lower_pointer_base_place ob cx) (\<lambda>(base, cx).
         result_bind (lower_expression index cx) (\<lambda>(i, cx).
         result_bind (expression_mir_type (EIndex ob index sp) cx) (\<lambda>t. Inr (MirPlaceIndex base i t, cx)))))"
| "lower_place (EField ob field sp) cx =
     result_bind (lower_place ob cx) (\<lambda>(base, cx).
     result_bind (expression_mir_type (EField ob field sp) cx) (\<lambda>t. Inr (MirPlaceField base (id_name field) t, cx)))"
| "lower_place (EParenthesized e sp) cx = lower_place e cx"
| "lower_place (EIntegerLiteral _ _) cx = unsupported ''expression place''"
| "lower_place (EFloatLiteral _ _) cx = unsupported ''expression place''"
| "lower_place (EBoolLiteral _ _) cx = unsupported ''expression place''"
| "lower_place (EUnary _ _ _) cx = unsupported ''expression place''"
| "lower_place (EBinary _ _ _ _) cx = unsupported ''expression place''"
| "lower_place (ECall _ _ _) cx = unsupported ''expression place''"
| "lower_place (ESliceConstructor _ _ _) cx = unsupported ''expression place''"
| "lower_place (ESubslice _ _ _ _) cx = unsupported ''expression place''"
| "lower_place (EError _) cx = unsupported ''expression place''"
| "lower_pointer_base_place e cx =
     (case e of
        EParenthesized inner _ \<Rightarrow> lower_pointer_base_place inner cx
      | _ \<Rightarrow>
          result_bind
            (case e of
               EIdentifier _ _ \<Rightarrow> Inr True
             | EIndex _ _ _ \<Rightarrow> Inr True
             | EField ob _ _ \<Rightarrow> result_bind (has_slice_type ob cx) (\<lambda>b. Inr (\<not> b))
             | _ \<Rightarrow> Inr False) (\<lambda>ordinary_place.
            if ordinary_place then lower_place e cx
            else result_bind (lower_expression e cx) (\<lambda>(pointer, cx). pointer_local pointer cx)))"
  by pat_completeness auto

termination
  by (relation "measure (\<lambda>x. case x of
      Inl (Inl (e, _)) \<Rightarrow> 3 * size e + 2
    | Inl (Inr (_, e, _)) \<Rightarrow> 3 * size e + 3
    | Inr (Inl (args, _)) \<Rightarrow> 3 * size_list size args + 1
    | Inr (Inr (Inl (e, _))) \<Rightarrow> 3 * size e + 1
    | Inr (Inr (Inr (e, _))) \<Rightarrow> 3 * size e + 3)") (auto split: if_splits)

section \<open>Statements\<close>

definition lower_let :: "identifier_node \<Rightarrow> expression \<Rightarrow> source_span \<Rightarrow> lower_context \<Rightarrow> lower_context lowered" where
  "lower_let name initializer sp cx =
     result_bind (require_let_type (cx_program cx) name sp) (\<lambda>ct.
     result_bind (to_mir_type ct) (\<lambda>t.
       let local = MirLocalValue (id_name name) t;
           cx = cx\<lparr>cx_locals := cx_locals cx @ [\<lparr>mir_local_name = id_name name, mir_local_type = t\<rparr>],
                   cx_values := bt_insert (id_name name) local (cx_values cx)\<rparr>
       in result_bind (lower_expression initializer cx) (\<lambda>(v, cx). emit_instruction (IMove local v) cx)))"

definition lower_assignment :: "expression \<Rightarrow> expression \<Rightarrow> lower_context \<Rightarrow> lower_context lowered" where
  "lower_assignment target e cx =
     (case target of
        EIdentifier _ _ \<Rightarrow>
          result_bind (require_identifier_value target cx) (\<lambda>variable.
            case variable of
              MirLocalValue _ _ \<Rightarrow>
                result_bind (lower_expression e cx) (\<lambda>(v, cx). emit_instruction (IMove variable v) cx)
            | _ \<Rightarrow> unsupported ''assignment to non-local variable'')
      | _ \<Rightarrow>
          result_bind (lower_place target cx) (\<lambda>(place, cx).
          result_bind (lower_expression e cx) (\<lambda>(v, cx). emit_instruction (IStore place v) cx)))"

definition lower_call_statement :: "expression \<Rightarrow> lower_context \<Rightarrow> lower_context lowered" where
  "lower_call_statement e cx =
     (case e of
        ECall callee args _ \<Rightarrow>
          (case callee of
             EIdentifier name _ \<Rightarrow>
               if cast_builtin_op name \<noteq> None then
                 violation (lit ''value builtin '' @ quoted name @ lit '' used as a statement.'')
               else
                 result_bind (lower_arguments args cx) (\<lambda>(vs, cx).
                   case print_runtime_intrinsic name of
                     Some intrinsic \<Rightarrow> emit_instruction (IRuntimeCall intrinsic vs) cx
                   | None \<Rightarrow> emit_instruction (ICall None name vs) cx)
           | _ \<Rightarrow> unsupported ''non-identifier call callee'')
      | _ \<Rightarrow> violation (lit ''call statement has a non-call expression.''))"

definition lower_jump :: "string \<Rightarrow> (loop_targets \<Rightarrow> rstring) \<Rightarrow> lower_context \<Rightarrow> lower_context lowered" where
  "lower_jump what label cx =
     (if cx_loops cx = [] then violation (quoted (lit what) @ lit '' has no enclosing loop.'')
      else set_terminator (MirJump (label (last (cx_loops cx)))) cx)"

definition push_loop :: "rstring \<Rightarrow> rstring \<Rightarrow> lower_context \<Rightarrow> lower_context" where
  "push_loop continue_to break_to cx =
     cx\<lparr>cx_loops := cx_loops cx @ [\<lparr>continue_label = continue_to, break_label = break_to\<rparr>]\<rparr>"

definition jump_unless_ended :: "nat \<Rightarrow> rstring \<Rightarrow> lower_context \<Rightarrow> lower_context" where
  "jump_unless_ended index label cx =
     (if block_has_terminator cx index then cx else set_block_terminator index (MirJump label) cx)"

definition join_branches :: "nat \<Rightarrow> nat \<Rightarrow> lower_context \<Rightarrow> lower_context" where
  "join_branches then_block else_block cx =
     (if block_has_terminator cx then_block \<and> block_has_terminator cx else_block then cx\<lparr>cx_current := None\<rparr>
      else
        let (join_label, cx) = next_block_label cx;
            cx = jump_unless_ended then_block join_label cx;
            cx = jump_unless_ended else_block join_label cx
        in snd (start_block join_label cx))"

function lower_statement :: "statement \<Rightarrow> lower_context \<Rightarrow> lower_context lowered"
  and lower_statements :: "statement list \<Rightarrow> lower_context \<Rightarrow> lower_context lowered" where
  "lower_statement (StBlock (BlockStatement ss _)) cx = lower_statements ss cx"
| "lower_statement (StUnsafe (BlockStatement ss _) _) cx = lower_statements ss cx"
| "lower_statement (StLet name t e sp) cx = lower_let name e sp cx"
| "lower_statement (StAssignment target e _) cx = lower_assignment target e cx"
| "lower_statement (StCall e _) cx = lower_call_statement e cx"
| "lower_statement (StReturn e _) cx =
     (case e of
        None \<Rightarrow> set_terminator (MirReturn None) cx
      | Some e \<Rightarrow> result_bind (lower_expression e cx) (\<lambda>(v, cx). set_terminator (MirReturn (Some v)) cx))"
| "lower_statement (StBreak _) cx = lower_jump ''break'' break_label cx"
| "lower_statement (StContinue _) cx = lower_jump ''continue'' continue_label cx"
| "lower_statement (StIf condition (BlockStatement then_statements _) else_block _) cx =
     result_bind (lower_expression condition cx) (\<lambda>(c, cx).
       let (then_label, cx) = next_block_label cx;
           (else_or_join_label, cx) = next_block_label cx
       in result_bind (set_terminator (MirBranch c then_label else_or_join_label) cx) (\<lambda>cx.
         let (then_index, cx) = start_block then_label cx
         in result_bind (lower_statements then_statements cx) (\<lambda>cx.
           case else_block of
             None \<Rightarrow>
               Inr (snd (start_block else_or_join_label (jump_unless_ended then_index else_or_join_label cx)))
           | Some (BlockStatement else_statements _) \<Rightarrow>
               let (else_index, cx) = start_block else_or_join_label cx
               in result_bind (lower_statements else_statements cx) (\<lambda>cx. Inr (join_branches then_index else_index cx)))))"
| "lower_statement (StWhile condition (BlockStatement body_statements _) _) cx =
     (let (cond_label, cx) = next_block_label cx;
          (body_label, cx) = next_block_label cx;
          (exit_label, cx) = next_block_label cx
      in result_bind (set_terminator (MirJump cond_label) cx) (\<lambda>cx.
         result_bind (lower_expression condition (snd (start_block cond_label cx))) (\<lambda>(c, cx).
         result_bind (set_terminator (MirBranch c body_label exit_label) cx) (\<lambda>cx.
         result_bind (lower_statements body_statements (push_loop cond_label exit_label (snd (start_block body_label cx)))) (\<lambda>cx.
           let cx = cx\<lparr>cx_loops := butlast (cx_loops cx)\<rparr>
           in result_bind (if cx_current cx \<noteq> None then set_terminator (MirJump cond_label) cx else Inr cx) (\<lambda>cx.
              Inr (snd (start_block exit_label cx))))))))"
| "lower_statement (StError _) cx = unsupported ''ErrorStatement''"
| "lower_statements [] cx = Inr cx"
| "lower_statements (s # ss) cx =
     (if cx_current cx = None then unsupported ''statements after return''
      else result_bind (lower_statement s cx) (lower_statements ss))"
  by pat_completeness auto
termination
  by (relation "measure (\<lambda>x. case x of Inl (s, _) \<Rightarrow> 2 * size s | Inr (ss, _) \<Rightarrow> 2 * size_list size ss + 1)") auto

section \<open>Functions and modules\<close>

definition lower_context_new :: "checked_program \<Rightarrow> mir_param list \<Rightarrow> lower_context" where
  "lower_context_new p params =
     \<lparr>cx_program = p, cx_builder = \<lparr>temp_counter = 0, block_counter = 0\<rparr>,
      cx_values = fold (\<lambda>param. bt_insert (mir_param_name param)
        (MirParamValue (mir_param_name param) (mir_param_type param))) params [],
      cx_locals = [], cx_blocks = [], cx_current = None, cx_synthetic = 0, cx_loops = []\<rparr>"

definition lower_function :: "checked_program \<Rightarrow> function_info \<Rightarrow> mir_function lowered" where
  "lower_function p f =
     result_bind (map_result (\<lambda>param. result_bind (to_mir_type (fpi_type param)) (\<lambda>t.
       Inr \<lparr>mir_param_name = fpi_name param, mir_param_type = t\<rparr>)) (fi_params f)) (\<lambda>params.
     result_bind (to_mir_type (fi_return_type f)) (\<lambda>rt.
       let (label, cx) = next_block_label (lower_context_new p params);
           (_, cx) = start_block label cx
       in result_bind (lower_statements (block_statements (fn_body (fi_declaration f))) cx) (\<lambda>cx.
          result_bind
            (if cx_current cx = None then Inr cx
             else if rt = MirVoid then set_terminator (MirReturn None) cx
             else violation (lit ''function '' @ quoted (fi_name f) @ lit '' has no return terminator.'')) (\<lambda>cx.
          result_bind (finalize_blocks (fi_name f) (cx_blocks cx)) (\<lambda>blocks.
            Inr \<lparr>mir_name = fi_name f, mir_exported = fi_exported f, mir_params = params, mir_return_type = rt,
                 mir_locals = cx_locals cx, mir_blocks = blocks\<rparr>)))))"

definition lower_struct :: "struct_info \<Rightarrow> mir_struct lowered" where
  "lower_struct s =
     result_bind (map_result (\<lambda>f. result_bind (to_mir_type (sfi_type f)) (\<lambda>t.
       Inr \<lparr>mir_field_name = sfi_name f, mir_field_type = t\<rparr>)) (si_fields s)) (\<lambda>fs.
       Inr \<lparr>mir_struct_name = si_name s, mir_struct_fields = fs\<rparr>)"

definition lower_to_mir :: "checked_program \<Rightarrow> mir_module lowered" where
  "lower_to_mir p =
     (let entry = map_option (\<lambda>e. \<lparr>entry_function_name = ep_name e,
            entry_result = (case ep_result e of EntryVoid \<Rightarrow> MirEntryVoid | EntryI32 \<Rightarrow> MirEntryI32)\<rparr>) (cp_entry p)
      in result_bind (map_result lower_struct (cp_structs p)) (\<lambda>structs.
         result_bind (map_result (lower_function p) (cp_functions p)) (\<lambda>fns.
           Inr \<lparr>mir_entry = entry, mir_structs = structs, mir_functions = fns\<rparr>)))"

end
