(* ===== verification/Mir_Lower_Sound.thy ===== *)
theory Mir_Lower_Sound
  imports Mir_Lower "HOL-Library.Multiset"
begin

text \<open>
  The shape of lowered code: every label that is handed out starts exactly one block, terminators
  name such labels, and every temporary is the target of exactly one instruction.
\<close>

section \<open>The invariant\<close>

fun terminator_labels :: "mir_terminator \<Rightarrow> rstring list" where
  "terminator_labels (MirReturn _) = []"
| "terminator_labels (MirJump l) = [l]"
| "terminator_labels (MirBranch _ l r) = [l, r]"

fun instruction_target :: "mir_instruction \<Rightarrow> mir_value option" where
  "instruction_target (IConstInt v _) = Some v"
| "instruction_target (IConstFloat v _) = Some v"
| "instruction_target (IConstBool v _) = Some v"
| "instruction_target (IMove v _) = Some v"
| "instruction_target (IBinary v _ _ _) = Some v"
| "instruction_target (IUnary v _ _) = Some v"
| "instruction_target (ICompare v _ _ _) = Some v"
| "instruction_target (ICast v _ _) = Some v"
| "instruction_target (IAddress v _) = Some v"
| "instruction_target (ILoad v _) = Some v"
| "instruction_target (IStore _ _) = None"
| "instruction_target (IMakeSlice v _ _) = Some v"
| "instruction_target (ISliceData v _) = Some v"
| "instruction_target (ISliceLen v _) = Some v"
| "instruction_target (ISubslice v _ _ _) = Some v"
| "instruction_target (ICall v _ _) = v"
| "instruction_target (IRuntimeCall _ _) = None"

definition temp_defined :: "mir_instruction \<Rightarrow> rstring list" where
  "temp_defined i = (case instruction_target i of Some (MirTemp name _) \<Rightarrow> [name] | _ \<Rightarrow> [])"

lemma temp_defined_simps [simp]:
  "temp_defined (IMove (MirLocalValue name t) v) = []" "temp_defined (IStore place w) = []"
  "temp_defined (ICall None callee vs) = []" "temp_defined (IRuntimeCall intrinsic ws) = []"
  by (simp_all add: temp_defined_def)

definition temps_defined :: "mir_instruction list \<Rightarrow> rstring list" where
  "temps_defined is = concat (map temp_defined is)"

lemma temps_defined_simps [simp]:
  "temps_defined [] = []" "temps_defined (is @ js) = temps_defined is @ temps_defined js"
  "temps_defined [i] = temp_defined i"
  by (simp_all add: temps_defined_def)

definition context_temps :: "mutable_mir_block list \<Rightarrow> rstring list" where
  "context_temps bs = concat (map (\<lambda>b. temps_defined (mb_instructions b)) bs)"

definition temp_name :: "nat \<Rightarrow> rstring" where
  "temp_name n = lit ''t'' @ nat_decimal n"

lemma label_inj [simp]: "block_label a = block_label b \<longleftrightarrow> a = b"
  by (simp add: block_label_def)

lemma temp_name_inj [simp]: "temp_name a = temp_name b \<longleftrightarrow> a = b"
  by (simp add: temp_name_def)

abbreviation blocks_started :: "lower_context \<Rightarrow> nat" where
  "blocks_started cx \<equiv> block_counter (cx_builder cx)"

abbreviation temps_made :: "lower_context \<Rightarrow> nat" where
  "temps_made cx \<equiv> temp_counter (cx_builder cx)"

text \<open>\<open>P\<close>: the numbers of the labels handed out whose blocks have not started yet.\<close>

definition lower_inv :: "nat set \<Rightarrow> lower_context \<Rightarrow> bool" where
  "lower_inv P cx \<longleftrightarrow>
     cx_blocks cx \<noteq> [] \<and> mb_label (cx_blocks cx ! 0) = block_label 0 \<and>
     distinct (map mb_label (cx_blocks cx)) \<and>
     block_label ` P \<inter> set (map mb_label (cx_blocks cx)) = {} \<and>
     block_label ` P \<union> set (map mb_label (cx_blocks cx)) = block_label ` {..<blocks_started cx} \<and>
     (\<forall>b \<in> set (cx_blocks cx). \<forall>t. mb_terminator b = Some t \<longrightarrow>
        set (terminator_labels t) \<subseteq> block_label ` {..<blocks_started cx}) \<and>
     (\<forall>n. cx_current cx = Some n \<longrightarrow> n < length (cx_blocks cx)) \<and>
     distinct (context_temps (cx_blocks cx)) \<and>
     set (context_temps (cx_blocks cx)) \<subseteq> temp_name ` {..<temps_made cx}"

definition loops_ok :: "lower_context \<Rightarrow> bool" where
  "loops_ok cx \<longleftrightarrow> (\<forall>l \<in> set (cx_loops cx).
     {continue_label l, break_label l} \<subseteq> block_label ` {..<blocks_started cx})"

text \<open>What a part of the lowering keeps that starts the blocks of the labels \<open>D\<close>.\<close>

definition lower_opens :: "nat set \<Rightarrow> lower_context \<Rightarrow> lower_context \<Rightarrow> bool" where
  "lower_opens D cx cx' \<longleftrightarrow> (\<forall>P. P \<inter> D = {} \<longrightarrow> lower_inv (D \<union> P) cx \<longrightarrow> lower_inv P cx') \<and>
     blocks_started cx \<le> blocks_started cx' \<and> cx_loops cx' = cx_loops cx"

abbreviation lower_step :: "lower_context \<Rightarrow> lower_context \<Rightarrow> bool" where
  "lower_step \<equiv> lower_opens {}"

lemma lower_step_def: "lower_step cx cx' \<longleftrightarrow> (\<forall>P. lower_inv P cx \<longrightarrow> lower_inv P cx') \<and>
     blocks_started cx \<le> blocks_started cx' \<and> cx_loops cx' = cx_loops cx"
  by (simp add: lower_opens_def)

lemma lower_step_refl: "lower_step cx cx"
  by (simp add: lower_step_def)

lemma lower_opens_trans:
  assumes "lower_opens D a b" "lower_opens E b c" "D \<inter> E = {}"
  shows "lower_opens (D \<union> E) a c"
  unfolding lower_opens_def
proof (intro conjI allI impI)
  fix P assume P: "P \<inter> (D \<union> E) = {}" "lower_inv (D \<union> E \<union> P) a"
  then have "lower_inv (D \<union> (E \<union> P)) a" "(E \<union> P) \<inter> D = {}" "P \<inter> E = {}" using assms(3) by (auto simp: Un_assoc)
  then show "lower_inv P c" using assms(1,2) unfolding lower_opens_def by blast
qed (use assms in \<open>simp_all add: lower_opens_def\<close>)

lemma lower_step_trans: "lower_step a b \<Longrightarrow> lower_step b c \<Longrightarrow> lower_step a c"
  by (auto simp: lower_step_def)

lemma lower_opens_step: "lower_opens D a b \<Longrightarrow> lower_step b c \<Longrightarrow> lower_opens D a c"
  by (auto simp: lower_opens_def)

lemma loops_ok_step: "loops_ok cx \<Longrightarrow> lower_opens D cx cx' \<Longrightarrow> loops_ok cx'"
  by (fastforce simp: loops_ok_def lower_opens_def)

lemma lower_opens_mono: "lower_opens D cx cx' \<Longrightarrow> blocks_started cx \<le> blocks_started cx'"
  by (simp add: lower_opens_def)

subsection \<open>The primitive steps\<close>

lemma nth_split: "n < length xs \<Longrightarrow> xs = take n xs @ xs ! n # drop (Suc n) xs \<and>
    xs[n := x] = take n xs @ x # drop (Suc n) xs"
  by (simp add: id_take_nth_drop upd_conv_take_nth_drop)

lemma mset_context_temps_update:
  assumes "n < length bs" "mb_instructions b = mb_instructions (bs ! n) @ js"
  shows "mset (context_temps (bs[n := b])) = mset (context_temps bs) + mset (temps_defined js)"
proof -
  have "mset (context_temps (take n bs @ b # drop (Suc n) bs)) =
      mset (context_temps (take n bs @ bs ! n # drop (Suc n) bs)) + mset (temps_defined js)"
    by (simp add: context_temps_def assms(2) ac_simps)
  with nth_split [OF assms(1)] show ?thesis by metis
qed

lemma labels_update: "n < length bs \<Longrightarrow> mb_label b = mb_label (bs ! n) \<Longrightarrow> map mb_label (bs[n := b]) = map mb_label bs"
  by (simp add: map_update list_update_same_conv)

text \<open>An update of one block that keeps its label, appends instructions and ends it at known labels.\<close>

lemma lower_inv_update:
  assumes inv: "lower_inv P cx" and n: "n < length (cx_blocks cx)"
    and label: "mb_label b = mb_label (cx_blocks cx ! n)"
    and instrs: "mb_instructions b = mb_instructions (cx_blocks cx ! n) @ js"
    and fresh: "distinct (temps_defined js)" "set (temps_defined js) \<subseteq> temp_name ` {temps_made cx..<temps_made cx'}"
    and ends: "\<And>t. mb_terminator b = Some t \<Longrightarrow> mb_terminator (cx_blocks cx ! n) = Some t \<or>
        set (terminator_labels t) \<subseteq> block_label ` {..<blocks_started cx}"
    and cx': "cx_blocks cx' = (cx_blocks cx)[n := b]" "blocks_started cx' = blocks_started cx"
      "temps_made cx \<le> temps_made cx'" "cx_current cx' = None \<or> cx_current cx' = cx_current cx"
  shows "lower_inv P cx'"
proof -
  let ?bs = "cx_blocks cx" let ?bs' = "?bs[n := b]"
  have m: "mset (context_temps ?bs') = mset (context_temps ?bs) + mset (temps_defined js)"
    by (rule mset_context_temps_update [OF n instrs])
  then have s: "set (context_temps ?bs') = set (context_temps ?bs) \<union> set (temps_defined js)"
    by (metis set_mset_mset set_mset_union)
  have old: "set (context_temps ?bs) \<subseteq> temp_name ` {..<temps_made cx}" "distinct (context_temps ?bs)"
    using inv by (simp_all add: lower_inv_def)
  have "set (context_temps ?bs) \<inter> set (temps_defined js) = {}"
    using old(1) fresh(2) by fastforce
  with old(2) fresh(1) have "distinct (context_temps ?bs @ temps_defined js)" by simp
  moreover have "mset (context_temps ?bs @ temps_defined js) = mset (context_temps ?bs')" using m by simp
  ultimately have d: "distinct (context_temps ?bs')" using mset_eq_imp_distinct_iff by blast
  have u: "set (context_temps ?bs') \<subseteq> temp_name ` {..<temps_made cx'}"
    using s old(1) fresh(2) cx'(3) by fastforce
  have t: "\<forall>b' \<in> set ?bs'. \<forall>t. mb_terminator b' = Some t \<longrightarrow>
      set (terminator_labels t) \<subseteq> block_label ` {..<blocks_started cx}"
  proof (intro ballI allI impI)
    fix b' t assume b': "b' \<in> set ?bs'" "mb_terminator b' = Some t"
    then have "b' = b \<or> b' \<in> set ?bs" using set_update_subset_insert by fastforce
    moreover have "?bs ! n \<in> set ?bs" using n by simp
    ultimately show "set (terminator_labels t) \<subseteq> block_label ` {..<blocks_started cx}"
      using inv ends b'(2) unfolding lower_inv_def by metis
  qed
  have l: "map mb_label ?bs' = map mb_label ?bs" by (rule labels_update [OF n label])
  then have l': "set (map mb_label ?bs') = set (map mb_label ?bs)" by (rule arg_cong)
  have h: "?bs' \<noteq> []" "mb_label (?bs' ! 0) = mb_label (?bs ! 0)"
    using n label by (auto simp: nth_list_update)
  show ?thesis
    unfolding lower_inv_def cx' l l' h(2)
    using inv t d u cx'(4) h(1) n unfolding lower_inv_def by (elim conjE) (intro conjI; auto)
qed

lemma lower_inv_ignores [simp]:
  "lower_inv P (cx\<lparr>cx_values := v\<rparr>) = lower_inv P cx" "lower_inv P (cx\<lparr>cx_locals := l\<rparr>) = lower_inv P cx"
  "lower_inv P (cx\<lparr>cx_synthetic := n\<rparr>) = lower_inv P cx" "lower_inv P (cx\<lparr>cx_loops := ls\<rparr>) = lower_inv P cx"
  by (simp_all add: lower_inv_def)

lemma lower_inv_ended: "lower_inv P cx \<Longrightarrow> lower_inv P (cx\<lparr>cx_current := None\<rparr>)"
  by (simp add: lower_inv_def)

lemma emit_step:
  assumes "emit_instruction i cx = Inr cx'" "temp_defined i = []"
  shows "lower_step cx cx'"
proof -
  obtain n where n: "cx_current cx = Some n" using assms(1)
    by (auto simp: emit_instruction_def unsupported_def lower_error_def split: option.splits)
  let ?b = "(cx_blocks cx ! n)\<lparr>mb_instructions := mb_instructions (cx_blocks cx ! n) @ [i]\<rparr>"
  have cx': "cx' = cx\<lparr>cx_blocks := (cx_blocks cx)[n := ?b]\<rparr>"
    using assms(1) n by (simp add: emit_instruction_def Let_def)
  have "lower_inv P cx \<Longrightarrow> lower_inv P cx'" for P
    by (rule lower_inv_update [where n = n and b = ?b and js = "[i]"])
      (use n assms(2) in \<open>auto simp: cx' lower_inv_def\<close>)
  then show ?thesis by (simp add: lower_step_def cx')
qed

lemma emit_temp_step:
  assumes "emit_instruction i (snd (temp t cx)) = Inr cx'" "temp_defined i = [temp_name (temps_made cx)]"
  shows "lower_step cx cx'"
proof -
  obtain n where n: "cx_current cx = Some n" using assms(1)
    by (auto simp: emit_instruction_def temp_def Let_def unsupported_def lower_error_def split: option.splits)
  let ?b = "(cx_blocks cx ! n)\<lparr>mb_instructions := mb_instructions (cx_blocks cx ! n) @ [i]\<rparr>"
  have cx': "cx' = (snd (temp t cx))\<lparr>cx_blocks := (cx_blocks cx)[n := ?b]\<rparr>"
    using assms(1) n by (simp add: emit_instruction_def temp_def Let_def)
  have "lower_inv P cx \<Longrightarrow> lower_inv P cx'" for P
    by (rule lower_inv_update [where n = n and b = ?b and js = "[i]"])
      (use n assms(2) in \<open>auto simp: cx' temp_def Let_def lower_inv_def\<close>)
  then show ?thesis by (simp add: lower_step_def cx' temp_def Let_def)
qed

lemma fst_temp: "fst (temp t cx) = MirTemp (temp_name (temps_made cx)) t"
  by (simp add: temp_def temp_name_def Let_def)

lemma emit_for_step:
  assumes "emit_for e instruction cx = Inr (v, cx')" "\<And>v. instruction_target (instruction v) = Some v"
  shows "lower_step cx cx'"
proof -
  obtain t where "emit_instruction (instruction (fst (temp t cx))) (snd (temp t cx)) = Inr cx'"
    using assms(1) by (auto simp: emit_for_def Let_def split_def)
  then show ?thesis by (rule emit_temp_step) (simp add: temp_defined_def assms(2) fst_temp)
qed

lemma emit_load_step:
  assumes "emit_load (place, cx) = Inr (v, cx')"
  shows "lower_step cx cx'"
proof -
  have "emit_instruction (ILoad (fst (temp (place_type place) cx)) place) (snd (temp (place_type place) cx)) = Inr cx'"
    using assms by (auto simp: emit_load_def Let_def split: prod.splits)
  then show ?thesis by (rule emit_temp_step) (simp add: temp_defined_def fst_temp)
qed

lemma set_terminator_step:
  assumes "set_terminator t cx = Inr cx'" "set (terminator_labels t) \<subseteq> block_label ` {..<blocks_started cx}"
  shows "lower_step cx cx'"
proof -
  obtain n where n: "cx_current cx = Some n" using assms(1)
    by (auto simp: set_terminator_def unsupported_def lower_error_def split: option.splits)
  let ?b = "(cx_blocks cx ! n)\<lparr>mb_terminator := Some t\<rparr>"
  have cx': "cx' = cx\<lparr>cx_blocks := (cx_blocks cx)[n := ?b], cx_current := None\<rparr>"
    using assms(1) n by (simp add: set_terminator_def)
  have "lower_inv P cx \<Longrightarrow> lower_inv P cx'" for P
    by (rule lower_inv_update [where n = n and b = ?b and js = "[]"])
      (use n assms(2) in \<open>auto simp: cx' lower_inv_def\<close>)
  then show ?thesis by (simp add: lower_step_def cx')
qed

lemma set_block_terminator_step:
  assumes "set (terminator_labels t) \<subseteq> block_label ` {..<blocks_started cx}"
  shows "lower_step cx (set_block_terminator n t cx)"
proof -
  let ?b = "(cx_blocks cx ! n)\<lparr>mb_terminator := Some t\<rparr>"
  have "lower_inv P (set_block_terminator n t cx)" if inv: "lower_inv P cx" for P
  proof (cases "n < length (cx_blocks cx)")
    case True
    show ?thesis
      by (rule lower_inv_update [OF inv True, where b = ?b and js = "[]"])
        (use assms True in \<open>auto simp: set_block_terminator_def Let_def\<close>)
  next
    case False
    with inv show ?thesis by (simp add: set_block_terminator_def lower_inv_ended)
  qed
  then show ?thesis by (simp add: lower_step_def set_block_terminator_def Let_def)
qed

lemma jump_unless_ended_step:
  "set (terminator_labels (MirJump l)) \<subseteq> block_label ` {..<blocks_started cx} \<Longrightarrow> lower_step cx (jump_unless_ended n l cx)"
  by (simp add: jump_unless_ended_def lower_step_refl set_block_terminator_step)

lemma next_block_label_inv:
  assumes "lower_inv P cx"
  shows "lower_inv (insert (blocks_started cx) P) (snd (next_block_label cx))" "blocks_started cx \<notin> P"
proof -
  have P: "block_label ` P \<subseteq> block_label ` {..<blocks_started cx}"
    and L: "set (map mb_label (cx_blocks cx)) \<subseteq> block_label ` {..<blocks_started cx}"
    using assms unfolding lower_inv_def by blast+
  show new: "blocks_started cx \<notin> P" using P by auto
  have "block_label (blocks_started cx) \<notin> set (map mb_label (cx_blocks cx))" using L by auto
  moreover have "{..<blocks_started cx + 1} = insert (blocks_started cx) {..<blocks_started cx}" by auto
  ultimately show "lower_inv (insert (blocks_started cx) P) (snd (next_block_label cx))"
    using assms unfolding lower_inv_def next_block_label_def Let_def by (auto simp: lessThan_Suc) blast
qed

lemma start_block_inv:
  assumes "lower_inv (insert n P) cx" "n \<notin> P"
  shows "lower_inv P (snd (start_block (block_label n) cx))"
  using assms unfolding lower_inv_def start_block_def Let_def
  by (auto simp: context_temps_def image_iff nth_append)

lemma next_block_label_simps:
  "fst (next_block_label cx) = block_label (blocks_started cx)"
  "blocks_started (snd (next_block_label cx)) = Suc (blocks_started cx)"
  "cx_loops (snd (next_block_label cx)) = cx_loops cx"
  by (simp_all add: next_block_label_def Let_def)

lemma start_block_simps [simp]:
  "blocks_started (snd (start_block l cx)) = blocks_started cx" "cx_loops (snd (start_block l cx)) = cx_loops cx"
  "fst (start_block l cx) = length (cx_blocks cx)"
  by (simp_all add: start_block_def Let_def)

lemma start_block_opens: "lower_opens {n} cx (snd (start_block (block_label n) cx))"
  unfolding lower_opens_def using start_block_inv [of n _ cx] by (auto simp: start_block_def Let_def)

lemma next_block_label_opens:
  assumes "lower_opens (insert (blocks_started cx) D) (snd (next_block_label cx)) cx'" "blocks_started cx \<notin> D"
  shows "lower_opens D cx cx'"
  unfolding lower_opens_def
proof (intro conjI allI impI)
  fix P assume P: "P \<inter> D = {}" "lower_inv (D \<union> P) cx"
  from next_block_label_inv [OF P(2)] have "lower_inv (insert (blocks_started cx) D \<union> P) (snd (next_block_label cx))"
    "P \<inter> insert (blocks_started cx) D = {}" using P(1) by auto
  then show "lower_inv P cx'" using assms(1) unfolding lower_opens_def by blast
qed (use assms(1) in \<open>simp_all add: lower_opens_def next_block_label_simps\<close>)

subsection \<open>Expressions\<close>

lemma synthetic_step: "lower_step cx (snd (create_synthetic_local_with_prefix p t cx))"
  by (simp add: lower_step_def create_synthetic_local_with_prefix_def Let_def lower_inv_def)

lemma pointer_local_step: "pointer_local p cx = Inr (v, cx') \<Longrightarrow> lower_step cx cx'"
  using lower_step_trans [OF synthetic_step emit_step]
  by (fastforce simp: pointer_local_def split_def Let_def unsupported_def lower_error_def temp_defined_def
      create_synthetic_local_with_prefix_def split: mir_value.splits)

lemma emit_binary_step: "emit_binary e operator l r cx = Inr (v, cx') \<Longrightarrow> lower_step cx cx'"
  by (auto simp: emit_binary_def lower_error_def split: option.splits elim!: emit_for_step)

lemma constant_block_opens:
  assumes "lower_short_circuit_constant_block (block_label n) b (MirLocalValue res t) (block_label j) cx = Inr cx'"
    "j < blocks_started cx"
  shows "lower_opens {n} cx cx'"
proof -
  obtain cx1 where 1: "emit_instruction (IMove (MirLocalValue res t) (const_bool b)) (snd (start_block (block_label n) cx)) = Inr cx1"
    "set_terminator (MirJump (block_label j)) cx1 = Inr cx'"
    using assms(1) by (auto simp: lower_short_circuit_constant_block_def split_def Let_def)
  note s = emit_step [OF 1(1)]
  have "lower_step cx1 cx'"
    by (rule set_terminator_step [OF 1(2)]) (use assms(2) lower_opens_mono [OF s] in \<open>simp add: temp_defined_def start_block_def Let_def\<close>)
  with s show ?thesis
    by (auto intro: lower_opens_step [OF lower_opens_step [OF start_block_opens]] simp: temp_defined_def)
qed

definition expression_steps :: "expression \<Rightarrow> bool" where
  "expression_steps e \<longleftrightarrow> (\<forall>cx v cx'. lower_expression e cx = Inr (v, cx') \<longrightarrow> lower_step cx cx')"

definition place_steps :: "expression \<Rightarrow> bool" where
  "place_steps e \<longleftrightarrow> (\<forall>cx v cx'. lower_place e cx = Inr (v, cx') \<longrightarrow> lower_step cx cx')"

definition base_steps :: "expression \<Rightarrow> bool" where
  "base_steps e \<longleftrightarrow> (\<forall>cx v cx'. lower_pointer_base_place e cx = Inr (v, cx') \<longrightarrow> lower_step cx cx')"

lemma two_labels:
  assumes "lower_opens {blocks_started cx, Suc (blocks_started cx)} (snd (next_block_label (snd (next_block_label cx)))) cx'"
  shows "lower_step cx cx'"
  by (rule next_block_label_opens, rule next_block_label_opens)
    (use assms in \<open>simp_all add: next_block_label_simps insert_commute\<close>)

lemma three_labels:
  assumes "lower_opens {blocks_started cx, Suc (blocks_started cx), Suc (Suc (blocks_started cx))}
      (snd (next_block_label (snd (next_block_label (snd (next_block_label cx)))))) cx'"
  shows "lower_step cx cx'"
  by (rule next_block_label_opens, rule next_block_label_opens, rule next_block_label_opens)
    (use assms in \<open>simp_all add: next_block_label_simps insert_commute\<close>)

lemma rhs_block_opens:
  assumes "lower_short_circuit_rhs_block (block_label n) e (MirLocalValue res t) (block_label j) cx = Inr cx'"
    "expression_steps e" "j < blocks_started cx"
  shows "lower_opens {n} cx cx'"
proof -
  obtain v cx1 cx2 where 1: "lower_expression e (snd (start_block (block_label n) cx)) = Inr (v, cx1)"
    "emit_instruction (IMove (MirLocalValue res t) v) cx1 = Inr cx2"
    "set_terminator (MirJump (block_label j)) cx2 = Inr cx'"
    using assms(1) by (auto simp: split_def Let_def)
  have s1: "lower_step (snd (start_block (block_label n) cx)) cx1" using 1(1) assms(2) by (simp add: expression_steps_def)
  have s2: "lower_step cx1 cx2" by (rule emit_step [OF 1(2)]) (simp add: temp_defined_def)
  have "j < blocks_started cx2" using assms(3) lower_opens_mono [OF s1] lower_opens_mono [OF s2] start_block_simps(1) by (metis le_trans less_le_trans)
  then have "lower_step cx2 cx'" by (intro set_terminator_step [OF 1(3)]) simp
  with s1 s2 show ?thesis by (blast intro: lower_opens_step start_block_opens)
qed

lemma lower_binary_step:
  assumes "lower_expression (EBinary operator l r sp) cx = Inr (v, cx')" "expression_steps l" "expression_steps r"
  shows "lower_step cx cx'"
proof (cases "operator = lit ''&&'' \<or> operator = lit ''||''")
  case False
  then obtain lv cx1 rv cx2 where "lower_expression l cx = Inr (lv, cx1)" "lower_expression r cx1 = Inr (rv, cx2)"
    "emit_binary (EBinary operator l r sp) operator lv rv cx2 = Inr (v, cx')"
    using assms(1) by auto
  with assms(2,3) emit_binary_step show ?thesis unfolding expression_steps_def by (blast intro: lower_step_trans)
next
  case True
  then obtain t where t: "expression_mir_type (EBinary operator l r sp) cx = Inr t" using assms(1) by auto
  define cx0 where "cx0 = snd (create_synthetic_local t cx)"
  obtain res where res: "create_synthetic_local t cx = (MirLocalValue res t, cx0)"
    by (simp add: cx0_def create_synthetic_local_def create_synthetic_local_with_prefix_def Let_def)
  obtain lv cx1 where 1: "lower_expression l cx0 = Inr (lv, cx1)" using assms(1) t res True by (auto simp: Let_def)
  define n where "n = blocks_started cx1"
  define cx2 where "cx2 = snd (next_block_label (snd (next_block_label (snd (next_block_label cx1)))))"
  have b2: "blocks_started cx2 = n + 3" by (simp add: cx2_def n_def next_block_label_simps)
  have ne: "lit ''||'' \<noteq> lit ''&&''" by (simp add: lit_def)
  have "\<exists>cx3 cx4 cx5. set_terminator (MirBranch lv (block_label n) (block_label (Suc n))) cx2 = Inr cx3 \<and>
     (if operator = lit ''&&''
      then lower_short_circuit_rhs_block (block_label n) r (MirLocalValue res t) (block_label (Suc (Suc n))) cx3 = Inr cx4 \<and>
        lower_short_circuit_constant_block (block_label (Suc n)) False (MirLocalValue res t) (block_label (Suc (Suc n))) cx4 = Inr cx5
      else lower_short_circuit_constant_block (block_label n) True (MirLocalValue res t) (block_label (Suc (Suc n))) cx3 = Inr cx4 \<and>
        lower_short_circuit_rhs_block (block_label (Suc n)) r (MirLocalValue res t) (block_label (Suc (Suc n))) cx4 = Inr cx5) \<and>
     cx' = snd (start_block (block_label (Suc (Suc n))) cx5)"
    using assms(1) t res True 1 ne by (auto simp: Let_def split_def next_block_label_simps n_def cx2_def simp del: lower_short_circuit_rhs_block.simps)
  then obtain cx3 cx4 cx5 where 2: "set_terminator (MirBranch lv (block_label n) (block_label (Suc n))) cx2 = Inr cx3"
    and 3: "if operator = lit ''&&''
      then lower_short_circuit_rhs_block (block_label n) r (MirLocalValue res t) (block_label (Suc (Suc n))) cx3 = Inr cx4 \<and>
        lower_short_circuit_constant_block (block_label (Suc n)) False (MirLocalValue res t) (block_label (Suc (Suc n))) cx4 = Inr cx5
      else lower_short_circuit_constant_block (block_label n) True (MirLocalValue res t) (block_label (Suc (Suc n))) cx3 = Inr cx4 \<and>
        lower_short_circuit_rhs_block (block_label (Suc n)) r (MirLocalValue res t) (block_label (Suc (Suc n))) cx4 = Inr cx5"
    and 4: "cx' = snd (start_block (block_label (Suc (Suc n))) cx5)" by blast
  have s3: "lower_step cx2 cx3" by (rule set_terminator_step [OF 2]) (simp add: b2)
  then have j: "Suc (Suc n) < blocks_started cx3" using b2 lower_opens_mono [of "{}" cx2 cx3] by simp
  have s4: "lower_opens {n} cx3 cx4"
    using 3 rhs_block_opens [OF _ assms(3) j] constant_block_opens [OF _ j] by (auto split: if_splits)
  then have j: "Suc (Suc n) < blocks_started cx4" using j lower_opens_mono [of "{n}" cx3 cx4] by simp
  have s5: "lower_opens {Suc n} cx4 cx5"
    using 3 rhs_block_opens [OF _ assms(3) j] constant_block_opens [OF _ j] by (auto split: if_splits)
  have "lower_opens {Suc (Suc n)} cx5 cx'" unfolding 4 by (rule start_block_opens)
  from lower_opens_trans [OF lower_opens_trans [OF lower_opens_trans [OF s3 s4] s5] this]
  have "lower_opens {n, Suc n, Suc (Suc n)} cx2 cx'" by (simp add: insert_commute)
  then have "lower_step cx1 cx'" unfolding n_def cx2_def by (rule three_labels)
  moreover have "lower_step cx cx0" using synthetic_step by (simp add: cx0_def create_synthetic_local_def)
  moreover have "lower_step cx0 cx1" using 1 assms(2) by (simp add: expression_steps_def)
  ultimately show ?thesis by (blast intro: lower_step_trans)
qed


lemma expression_stepsD: "expression_steps e \<Longrightarrow> lower_expression e cx = Inr (v, cx') \<Longrightarrow> lower_step cx cx'"
  by (auto simp: expression_steps_def)

lemma place_stepsD: "place_steps e \<Longrightarrow> lower_place e cx = Inr (v, cx') \<Longrightarrow> lower_step cx cx'"
  by (auto simp: place_steps_def)

lemma base_stepsD: "base_steps e \<Longrightarrow> lower_pointer_base_place e cx = Inr (v, cx') \<Longrightarrow> lower_step cx cx'"
  by (auto simp: base_steps_def)

lemma arguments_step:
  "(\<And>arg. arg \<in> set args \<Longrightarrow> expression_steps arg) \<Longrightarrow> lower_arguments args cx = Inr (vs, cx') \<Longrightarrow> lower_step cx cx'"
proof (induction args arbitrary: cx vs)
  case (Cons arg args)
  then obtain v cx1 ws where "lower_expression arg cx = Inr (v, cx1)" "lower_arguments args cx1 = Inr (ws, cx')" by auto
  with Cons show ?case by (meson expression_stepsD list.set_intros lower_step_trans)
qed (simp add: lower_step_refl)

lemma index_place_steps: "expression_steps ob \<Longrightarrow> expression_steps index \<Longrightarrow> base_steps ob \<Longrightarrow> place_steps (EIndex ob index sp)"
  unfolding place_steps_def
  by (auto simp del: lower_pointer_base_place.simps split: if_splits
      intro: lower_step_trans dest: expression_stepsD base_stepsD)

lemma field_place_steps: "place_steps ob \<Longrightarrow> place_steps (EField ob field sp)"
  unfolding place_steps_def by auto

lemma pointer_base_cases:
  assumes "lower_pointer_base_place e cx = Inr (v, cx')"
  obtains (inner) inner sp where "e = EParenthesized inner sp" "lower_pointer_base_place inner cx = Inr (v, cx')"
  | (ordinary) "lower_place e cx = Inr (v, cx')"
  | (pointer) w cx1 where "lower_expression e cx = Inr (w, cx1)" "pointer_local w cx1 = Inr (v, cx')"
  using assms unfolding lower_pointer_base_place.simps [of e cx]
  by (cases e)
    (auto simp del: lower_pointer_base_place.simps lower_place.simps lower_expression.simps split: if_splits)

lemma pointer_base_steps:
  assumes "expression_steps e" "place_steps e" "\<And>inner sp. e = EParenthesized inner sp \<Longrightarrow> base_steps inner"
  shows "base_steps e"
  unfolding base_steps_def
proof (intro allI impI)
  fix cx v cx' assume "lower_pointer_base_place e cx = Inr (v, cx')"
  then show "lower_step cx cx'"
  proof (cases rule: pointer_base_cases)
    case inner
    with assms(3) show ?thesis by (blast dest: base_stepsD)
  next
    case ordinary
    with assms(2) show ?thesis by (blast dest: place_stepsD)
  next
    case pointer
    with assms(1) pointer_local_step show ?thesis by (blast dest: expression_stepsD intro: lower_step_trans)
  qed
qed


lemma call_expression_steps:
  assumes "\<And>arg. arg \<in> set args \<Longrightarrow> expression_steps arg"
  shows "expression_steps (ECall callee args sp)"
  unfolding expression_steps_def
proof (intro allI impI)
  fix cx v cx' assume run: "lower_expression (ECall callee args sp) cx = Inr (v, cx')"
  then obtain name nsp where callee: "callee = EIdentifier name nsp"
    by (cases callee) (simp_all add: unsupported_def lower_error_def)
  show "lower_step cx cx'"
  proof (cases "cast_builtin_op name")
    case None
    with run callee obtain vs cx1 where "lower_arguments args cx = Inr (vs, cx1)"
      "emit_for (ECall callee args sp) (\<lambda>target. ICall (Some target) name vs) cx1 = Inr (v, cx')"
      by (auto simp: violation_def lower_error_def split: if_splits)
    moreover from this(1) assms have "lower_step cx cx1" by (rule arguments_step [rotated])
    ultimately show ?thesis by (auto dest!: emit_for_step intro: lower_step_trans)
  next
    case (Some op)
    with run callee obtain arg w cx1 where "args = [arg]" "lower_expression arg cx = Inr (w, cx1)"
      "emit_for (ECall callee args sp) (\<lambda>target. ICast target op w) cx1 = Inr (v, cx')"
      by (auto simp: violation_def lower_error_def split: list.splits)
    with assms show ?thesis by (auto dest!: emit_for_step dest: expression_stepsD intro: lower_step_trans)
  qed
qed

lemma field_expression_steps:
  assumes "expression_steps ob" "place_steps (EField ob field sp)"
  shows "expression_steps (EField ob field sp)"
  unfolding expression_steps_def
proof (intro allI impI)
  fix cx v cx' assume "lower_expression (EField ob field sp) cx = Inr (v, cx')"
  then consider w cx1 where "lower_expression ob cx = Inr (w, cx1)" "emit_for (EField ob field sp)
        (\<lambda>target. if id_name field = lit ''data'' then ISliceData target w else ISliceLen target w) cx1 = Inr (v, cx')"
    | place cx1 where "lower_place (EField ob field sp) cx = Inr (place, cx1)" "emit_load (place, cx1) = Inr (v, cx')"
    by (auto simp del: lower_place.simps split: if_splits)
  then show "lower_step cx cx'"
  proof cases
    case 1
    with assms(1) show ?thesis by (auto dest!: emit_for_step dest: expression_stepsD intro: lower_step_trans)
  next
    case 2
    with assms(2) show ?thesis by (blast dest: place_stepsD emit_load_step intro: lower_step_trans)
  qed
qed

lemma index_expression_steps: "place_steps (EIndex ob index sp) \<Longrightarrow> expression_steps (EIndex ob index sp)"
  unfolding expression_steps_def
  by (auto simp del: lower_place.simps dest!: place_stepsD emit_load_step intro: lower_step_trans)

lemma no_place_steps [simp]:
  "place_steps (EIntegerLiteral i sp)" "place_steps (EFloatLiteral f sp)" "place_steps (EBoolLiteral b sp)"
  "place_steps (EUnary operator e sp)" "place_steps (EBinary operator l r sp)" "place_steps (ECall callee args sp)"
  "place_steps (ESliceConstructor d n sp)" "place_steps (ESubslice e start stop sp)" "place_steps (EError sp)"
  "place_steps (EIdentifier name sp)"
  by (auto simp: place_steps_def unsupported_def lower_error_def lower_step_refl)

lemma literal_steps [simp]:
  "expression_steps (EIdentifier name sp)" "expression_steps (EIntegerLiteral i sp)" "expression_steps (EFloatLiteral f sp)"
  "expression_steps (EBoolLiteral b sp)" "expression_steps (EError sp)"
  by (auto simp: expression_steps_def unsupported_def lower_error_def lower_step_refl elim!: emit_for_step)

lemma compound_expression_steps:
  "expression_steps e \<Longrightarrow> expression_steps (EUnary operator e sp)"
  "expression_steps e \<Longrightarrow> expression_steps l \<Longrightarrow> expression_steps (ESliceConstructor e l sp)"
  "expression_steps e \<Longrightarrow> expression_steps l \<Longrightarrow> expression_steps r \<Longrightarrow> expression_steps (ESubslice e l r sp)"
  unfolding expression_steps_def
  by (auto dest!: emit_for_step intro: lower_step_trans) (meson lower_step_trans)+

lemma binary_expression_steps: "expression_steps l \<Longrightarrow> expression_steps r \<Longrightarrow> expression_steps (EBinary operator l r sp)"
  unfolding expression_steps_def [of "EBinary operator l r sp"] by (intro allI impI lower_binary_step)

lemma steps_together:
  "expression_steps e \<Longrightarrow> place_steps e \<Longrightarrow> (\<And>inner sp. e = EParenthesized inner sp \<Longrightarrow> base_steps inner) \<Longrightarrow>
   expression_steps e \<and> place_steps e \<and> base_steps e"
  by (simp add: pointer_base_steps)

lemma all_steps: "expression_steps e \<and> place_steps e \<and> base_steps e"
proof (induction e)
  case (EUnary operator operand sp)
  then have "expression_steps (EUnary operator operand sp)" by (simp add: compound_expression_steps)
  then show ?case by (intro steps_together) simp_all
next
  case (EBinary operator l r sp)
  then have "expression_steps (EBinary operator l r sp)" by (simp add: binary_expression_steps)
  then show ?case by (intro steps_together) simp_all
next
  case (ECall callee args sp)
  then have "expression_steps (ECall callee args sp)" by (blast intro: call_expression_steps)
  then show ?case by (intro steps_together) simp_all
next
  case (ESliceConstructor d n sp)
  then have "expression_steps (ESliceConstructor d n sp)" by (simp add: compound_expression_steps)
  then show ?case by (intro steps_together) simp_all
next
  case (EField ob field sp)
  then have "place_steps (EField ob field sp)" by (blast intro: field_place_steps)
  with EField have "expression_steps (EField ob field sp)" by (blast intro: field_expression_steps)
  with \<open>place_steps _\<close> show ?case by (intro steps_together) simp_all
next
  case (EIndex ob index sp)
  then have "place_steps (EIndex ob index sp)" by (blast intro: index_place_steps)
  moreover from this have "expression_steps (EIndex ob index sp)" by (rule index_expression_steps)
  ultimately show ?case by (intro steps_together) simp_all
next
  case (ESubslice e f l sp)
  then have "expression_steps (ESubslice e f l sp)" by (simp add: compound_expression_steps)
  then show ?case by (intro steps_together) simp_all
next
  case (EParenthesized e sp)
  then have "expression_steps (EParenthesized e sp)" "place_steps (EParenthesized e sp)"
    by (simp_all add: expression_steps_def place_steps_def)
  with EParenthesized show ?case by (intro steps_together) simp_all
next
  case (EIdentifier name sp)
  show ?case by (intro steps_together) simp_all
next
  case (EIntegerLiteral i sp)
  show ?case by (intro steps_together) simp_all
next
  case (EFloatLiteral i sp)
  show ?case by (intro steps_together) simp_all
next
  case (EBoolLiteral b sp)
  show ?case by (intro steps_together) simp_all
next
  case (EError sp)
  show ?case by (intro steps_together) simp_all
qed

lemma lower_expression_step: "lower_expression e cx = Inr (v, cx') \<Longrightarrow> lower_step cx cx'"
  using all_steps expression_stepsD by blast

lemma lower_place_step: "lower_place e cx = Inr (v, cx') \<Longrightarrow> lower_step cx cx'"
  using all_steps place_stepsD by blast


subsection \<open>Statements\<close>

definition statement_steps :: "statement \<Rightarrow> bool" where
  "statement_steps s \<longleftrightarrow> (\<forall>cx cx'. loops_ok cx \<longrightarrow> lower_statement s cx = Inr cx' \<longrightarrow> lower_step cx cx')"

definition statements_steps :: "statement list \<Rightarrow> bool" where
  "statements_steps ss \<longleftrightarrow> (\<forall>cx cx'. loops_ok cx \<longrightarrow> lower_statements ss cx = Inr cx' \<longrightarrow> lower_step cx cx')"

lemma arguments_lowered: "lower_arguments args cx = Inr (vs, cx') \<Longrightarrow> lower_step cx cx'"
  using arguments_step all_steps by blast

lemma declare_step: "lower_step cx (cx\<lparr>cx_locals := l, cx_values := v\<rparr>)"
  by (simp add: lower_step_def)

lemma let_step:
  assumes "lower_let name e sp cx = Inr cx'" shows "lower_step cx cx'"
proof -
  obtain t v cx1 where "lower_expression e (cx\<lparr>cx_locals := cx_locals cx @ [\<lparr>mir_local_name = id_name name, mir_local_type = t\<rparr>],
      cx_values := bt_insert (id_name name) (MirLocalValue (id_name name) t) (cx_values cx)\<rparr>) = Inr (v, cx1)"
    "emit_instruction (IMove (MirLocalValue (id_name name) t) v) cx1 = Inr cx'"
    using assms by (auto simp: lower_let_def Let_def)
  from lower_step_trans [OF lower_step_trans [OF declare_step lower_expression_step [OF this(1)]] emit_step [OF this(2)]]
  show ?thesis by simp
qed

lemma assignment_lowered:
  assumes "lower_assignment target e cx = Inr cx'" shows "lower_step cx cx'"
proof (cases "\<exists>name sp. target = EIdentifier name sp")
  case True
  then obtain name sp variable where "target = EIdentifier name sp" "require_identifier_value target cx = Inr variable"
    using assms by (auto simp: lower_assignment_def)
  with assms obtain lname t v cx1 where
    "lower_expression e cx = Inr (v, cx1)" "emit_instruction (IMove (MirLocalValue lname t) v) cx1 = Inr cx'"
    by (cases variable) (auto simp: lower_assignment_def unsupported_def lower_error_def)
  from lower_step_trans [OF lower_expression_step [OF this(1)] emit_step [OF this(2)]] show ?thesis by simp
next
  case False
  then obtain place v cx1 cx2 where 1: "lower_place target cx = Inr (place, cx1)" "lower_expression e cx1 = Inr (v, cx2)"
    "emit_instruction (IStore place v) cx2 = Inr cx'"
    using assms by (cases target) (auto simp: lower_assignment_def simp del: lower_place.simps)
  from lower_step_trans [OF lower_step_trans [OF lower_place_step [OF 1(1)] lower_expression_step [OF 1(2)]] emit_step [OF 1(3)]]
  show ?thesis by simp
qed

lemma call_statement_step:
  assumes "lower_call_statement e cx = Inr cx'" shows "lower_step cx cx'"
proof -
  obtain args vs cx1 i where "lower_arguments args cx = Inr (vs, cx1)" "emit_instruction i cx1 = Inr cx'" "temp_defined i = []"
    using assms by (auto simp: lower_call_statement_def violation_def unsupported_def lower_error_def
        split: expression.splits if_splits option.splits)
  then show ?thesis by (meson arguments_lowered emit_step lower_step_trans)
qed


lemma jump_step:
  assumes "lower_jump what pick cx = Inr cx'" "loops_ok cx" "\<And>l. pick l \<in> {continue_label l, break_label l}"
  shows "lower_step cx cx'"
proof -
  have ne: "cx_loops cx \<noteq> []" and run: "set_terminator (MirJump (pick (last (cx_loops cx)))) cx = Inr cx'"
    using assms(1) by (auto simp: lower_jump_def violation_def lower_error_def split: if_splits)
  from ne assms(2) have "{continue_label (last (cx_loops cx)), break_label (last (cx_loops cx))} \<subseteq> block_label ` {..<blocks_started cx}"
    unfolding loops_ok_def by (meson last_in_set)
  with assms(3) [of "last (cx_loops cx)"] show ?thesis by (intro set_terminator_step [OF run]) auto
qed

lemma return_step:
  assumes "lower_statement (StReturn e sp) cx = Inr cx'" shows "lower_step cx cx'"
proof -
  have "lower_step cx1 cx'" if "set_terminator (MirReturn v) cx1 = Inr cx'" for v cx1
    using that by (rule set_terminator_step) simp
  with assms show ?thesis by (auto split: option.splits dest!: lower_expression_step intro: lower_step_trans)
qed

lemma known_label: "n < blocks_started cx \<Longrightarrow> set (terminator_labels (MirJump (block_label n))) \<subseteq> block_label ` {..<blocks_started cx}"
  by simp

text \<open>The end of the branches without and with an else block.\<close>

lemma join_step: "lower_step cx (join_branches t e cx)"
proof (cases "block_has_terminator cx t \<and> block_has_terminator cx e")
  case True
  then show ?thesis by (simp add: join_branches_def lower_step_def lower_inv_ended)
next
  case False
  define n where "n = blocks_started cx"
  define cx1 where "cx1 = snd (next_block_label cx)"
  define cx2 where "cx2 = jump_unless_ended t (block_label n) cx1"
  define cx3 where "cx3 = jump_unless_ended e (block_label n) cx2"
  have b: "n < blocks_started cx1" by (simp add: n_def cx1_def next_block_label_simps)
  have s2: "lower_step cx1 cx2" unfolding cx2_def using b by (intro jump_unless_ended_step known_label)
  have "n < blocks_started cx2" using b lower_opens_mono [OF s2] by simp
  then have s3: "lower_step cx2 cx3" unfolding cx3_def by (intro jump_unless_ended_step known_label)
  from lower_opens_trans [OF lower_step_trans [OF s2 s3] start_block_opens [of n cx3]]
  have "lower_opens {n} cx1 (snd (start_block (block_label n) cx3))" by simp
  then have "lower_step cx (snd (start_block (block_label n) cx3))"
    unfolding n_def cx1_def by (rule next_block_label_opens) simp
  moreover have "join_branches t e cx = snd (start_block (block_label n) cx3)"
    using False by (auto simp: join_branches_def Let_def split_def next_block_label_simps cx1_def cx2_def cx3_def n_def)
  ultimately show ?thesis by simp
qed

lemma if_lowered:
  assumes run: "lower_statement (StIf condition (BlockStatement ss bsp) else_block sp) cx = Inr cx'" and ok: "loops_ok cx"
    and steps: "statements_steps ss" "\<And>es esp. else_block = Some (BlockStatement es esp) \<Longrightarrow> statements_steps es"
  shows "lower_step cx cx'"
proof -
  obtain c cx1 where 1: "lower_expression condition cx = Inr (c, cx1)" using run by auto
  define n where "n = blocks_started cx1"
  define cx2 where "cx2 = snd (next_block_label (snd (next_block_label cx1)))"
  have b2: "blocks_started cx2 = Suc (Suc n)" by (simp add: cx2_def n_def next_block_label_simps)
  obtain cx3 where 3: "set_terminator (MirBranch c (block_label n) (block_label (Suc n))) cx2 = Inr cx3"
    using run 1 by (auto simp: Let_def split_def next_block_label_simps n_def cx2_def)
  define cx4 where "cx4 = snd (start_block (block_label n) cx3)"
  obtain cx5 where 5: "lower_statements ss cx4 = Inr cx5"
    using run 1 3 by (auto simp: Let_def split_def next_block_label_simps n_def cx2_def cx4_def)
  have s1: "lower_step cx cx1" by (rule lower_expression_step [OF 1])
  have s3: "lower_step cx2 cx3" by (rule set_terminator_step [OF 3]) (simp add: b2)
  have s4: "lower_opens {n} cx3 cx4" unfolding cx4_def by (rule start_block_opens)
  have "loops_ok cx2"
    using loops_ok_step [OF ok s1] by (fastforce simp: loops_ok_def cx2_def next_block_label_simps)
  then have ok4: "loops_ok cx4" by (rule loops_ok_step [OF loops_ok_step [OF _ s3] s4])
  have s5: "lower_step cx4 cx5" using 5 ok4 steps(1) unfolding statements_steps_def by blast
  have s25: "lower_opens {n} cx2 cx5"
    using lower_opens_trans [OF s3 lower_opens_step [OF s4 s5]] by simp
  then have b5: "Suc n < blocks_started cx5" using b2 lower_opens_mono [OF s25] by simp
  have "lower_opens {Suc n} cx5 cx'"
  proof (cases else_block)
    case None
    have "lower_step cx5 (jump_unless_ended (length (cx_blocks cx3)) (block_label (Suc n)) cx5)"
      using b5 by (intro jump_unless_ended_step known_label)
    moreover have "cx' = snd (start_block (block_label (Suc n)) (jump_unless_ended (length (cx_blocks cx3)) (block_label (Suc n)) cx5))"
      using run 1 3 5 None by (auto simp: Let_def split_def next_block_label_simps n_def cx2_def cx4_def)
    ultimately show ?thesis using lower_opens_trans [OF _ start_block_opens] by fastforce
  next
    case (Some eb)
    then obtain es esp where eb: "else_block = Some (BlockStatement es esp)" by (cases eb) simp
    define cx6 where "cx6 = snd (start_block (block_label (Suc n)) cx5)"
    obtain cx7 where 7: "lower_statements es cx6 = Inr cx7"
      "cx' = join_branches (length (cx_blocks cx3)) (length (cx_blocks cx5)) cx7"
      using run 1 3 5 eb by (auto simp: Let_def split_def next_block_label_simps n_def cx2_def cx4_def cx6_def)
    have s6: "lower_opens {Suc n} cx5 cx6" unfolding cx6_def by (rule start_block_opens)
    have "loops_ok cx6" by (rule loops_ok_step [OF loops_ok_step [OF ok4 s5] s6])
    then have "lower_step cx6 cx7" using 7(1) steps(2) [OF eb] unfolding statements_steps_def by blast
    with s6 7(2) join_step show ?thesis by (blast intro: lower_opens_step)
  qed
  from lower_opens_trans [OF s25 this] have "lower_opens {n, Suc n} cx2 cx'" by (simp add: insert_commute)
  then have "lower_step cx1 cx'" unfolding n_def cx2_def by (rule two_labels)
  with s1 show ?thesis by (rule lower_step_trans)
qed


lemma loop_step:
  assumes "lower_step (push_loop c b cx) cx'"
  shows "lower_step cx (cx'\<lparr>cx_loops := butlast (cx_loops cx')\<rparr>)"
  using assms by (auto simp: lower_step_def push_loop_def)

lemma while_lowered:
  assumes run: "lower_statement (StWhile condition (BlockStatement ss bsp) sp) cx = Inr cx'" and ok: "loops_ok cx"
    and steps: "statements_steps ss"
  shows "lower_step cx cx'"
proof -
  define n where "n = blocks_started cx"
  define cx1 where "cx1 = snd (next_block_label (snd (next_block_label (snd (next_block_label cx)))))"
  have b1: "blocks_started cx1 = Suc (Suc (Suc n))" by (simp add: cx1_def n_def next_block_label_simps)
  obtain cx2 where 2: "set_terminator (MirJump (block_label n)) cx1 = Inr cx2"
    using run by (auto simp: Let_def split_def next_block_label_simps n_def cx1_def)
  define cx3 where "cx3 = snd (start_block (block_label n) cx2)"
  obtain c cx4 where 4: "lower_expression condition cx3 = Inr (c, cx4)"
    using run 2 by (auto simp: Let_def split_def next_block_label_simps n_def cx1_def cx3_def)
  obtain cx5 where 5: "set_terminator (MirBranch c (block_label (Suc n)) (block_label (Suc (Suc n)))) cx4 = Inr cx5"
    using run 2 4 by (auto simp: Let_def split_def next_block_label_simps n_def cx1_def cx3_def)
  define cx6 where "cx6 = snd (start_block (block_label (Suc n)) cx5)"
  obtain cx7 where 7: "lower_statements ss (push_loop (block_label n) (block_label (Suc (Suc n))) cx6) = Inr cx7"
    using run 2 4 5 by (auto simp: Let_def split_def next_block_label_simps n_def cx1_def cx3_def cx6_def)
  define cx8 where "cx8 = cx7\<lparr>cx_loops := butlast (cx_loops cx7)\<rparr>"
  obtain cx9 where 9: "(if cx_current cx8 \<noteq> None then set_terminator (MirJump (block_label n)) cx8 else Inr cx8) = Inr cx9"
    "cx' = snd (start_block (block_label (Suc (Suc n))) cx9)"
    using run 2 4 5 7 by (auto simp: Let_def split_def next_block_label_simps n_def cx1_def cx3_def cx6_def cx8_def
        split: if_splits)
  have s2: "lower_step cx1 cx2" by (rule set_terminator_step [OF 2]) (simp add: b1)
  have s4: "lower_opens {n} cx2 cx4" unfolding cx3_def
    by (rule lower_opens_step [OF start_block_opens lower_expression_step [OF 4 [unfolded cx3_def]]])
  from lower_opens_trans [OF s2 s4] have s14: "lower_opens {n} cx1 cx4" by simp
  have b4: "Suc (Suc n) < blocks_started cx4" using b1 lower_opens_mono [OF s14] by simp
  have s5: "lower_step cx4 cx5" by (rule set_terminator_step [OF 5]) (use b4 in simp)
  have s6: "lower_opens {Suc n} cx5 cx6" unfolding cx6_def by (rule start_block_opens)
  have s16: "lower_opens {n, Suc n} cx1 cx6"
    using lower_opens_trans [OF lower_opens_step [OF s14 s5] s6] by (simp add: insert_commute)
  have b6: "Suc (Suc n) < blocks_started cx6" using b1 lower_opens_mono [OF s16] by simp
  have "loops_ok cx1" using ok by (fastforce simp: loops_ok_def cx1_def next_block_label_simps)
  then have "loops_ok cx6" by (rule loops_ok_step [OF _ s16])
  with b6 have "loops_ok (push_loop (block_label n) (block_label (Suc (Suc n))) cx6)"
    by (simp add: loops_ok_def push_loop_def ball_Un)
  with 7 steps have "lower_step (push_loop (block_label n) (block_label (Suc (Suc n))) cx6) cx7"
    unfolding statements_steps_def by blast
  then have s8: "lower_step cx6 cx8" unfolding cx8_def by (rule loop_step)
  then have b8: "n < blocks_started cx8" using b6 lower_opens_mono [OF s8] by simp
  have s9: "lower_step cx8 cx9"
  proof (cases "cx_current cx8")
    case None
    with 9(1) show ?thesis by (simp add: lower_step_refl)
  next
    case Some
    with 9(1) have "set_terminator (MirJump (block_label n)) cx8 = Inr cx9" by simp
    then show ?thesis by (rule set_terminator_step) (rule known_label [OF b8])
  qed
  from lower_opens_trans [OF lower_opens_step [OF lower_opens_step [OF s16 s8] s9] start_block_opens [of "Suc (Suc n)" cx9]]
  have "lower_opens {n, Suc n, Suc (Suc n)} cx1 cx'" by (simp add: insert_commute 9(2))
  then show ?thesis unfolding n_def cx1_def by (rule three_labels)
qed

lemma statements_step_list: "(\<And>s. s \<in> set ss \<Longrightarrow> statement_steps s) \<Longrightarrow> statements_steps ss"
proof (induction ss)
  case (Cons s ss)
  show ?case unfolding statements_steps_def
  proof (intro allI impI)
    fix cx cx' assume "loops_ok cx" "lower_statements (s # ss) cx = Inr cx'"
    moreover from this obtain cx1 where "lower_statement s cx = Inr cx1" "lower_statements ss cx1 = Inr cx'"
      by (auto simp: unsupported_def lower_error_def split: if_splits)
    ultimately show "lower_step cx cx'" using Cons
      by (metis list.set_intros lower_step_trans loops_ok_step statement_steps_def statements_steps_def)
  qed
qed (simp add: statements_steps_def lower_step_refl)

lemma all_statement_steps: "statement_steps s" and block_statements_steps: "statements_steps (block_statements b)"
proof (induction s and b rule: statement.induct block_statement.induct)
  case (StBlock b)
  then show ?case by (cases b) (simp add: statement_steps_def statements_steps_def)
next
  case (StUnsafe b sp)
  then show ?case by (cases b) (simp add: statement_steps_def statements_steps_def)
next
  case (StIf c b eb sp)
  then show ?case unfolding statement_steps_def
    by (cases b) (auto simp del: lower_statement.simps intro!: if_lowered)
next
  case (StWhile c b sp)
  then show ?case unfolding statement_steps_def
    by (cases b) (auto simp del: lower_statement.simps intro!: while_lowered)
next
  case (BlockStatement ss sp)
  then show ?case by (simp add: statements_step_list)
next
  case (StReturn e sp)
  show ?case unfolding statement_steps_def using return_step by blast
qed (auto simp: statement_steps_def unsupported_def lower_error_def intro: let_step assignment_lowered call_statement_step jump_step)

lemma lower_statements_step: "loops_ok cx \<Longrightarrow> lower_statements ss cx = Inr cx' \<Longrightarrow> lower_step cx cx'"
  using block_statements_steps [of "BlockStatement ss undefined"] by (simp add: statements_steps_def)


section \<open>Functions\<close>

definition function_temps :: "mir_function \<Rightarrow> rstring list" where
  "function_temps m = concat (map (\<lambda>b. temps_defined (mir_instructions b)) (mir_blocks m))"

text \<open>Labels \<open>bb0\<close> to \<open>bbn\<close>, each of one block, the entry first; jumps stay inside.\<close>

definition closed_blocks :: "mir_block list \<Rightarrow> bool" where
  "closed_blocks bs \<longleftrightarrow>
     bs \<noteq> [] \<and> mir_label (hd bs) = block_label 0 \<and> distinct (map mir_label bs) \<and>
     set (map mir_label bs) = block_label ` {..<length bs} \<and>
     (\<forall>b \<in> set bs. set (terminator_labels (mir_terminator b)) \<subseteq> set (map mir_label bs))"

lemma map_result_Inr: "map_result f xs = Inr ys \<longleftrightarrow> list_all2 (\<lambda>x y. f x = Inr y) xs ys"
  by (induction xs arbitrary: ys) (auto simp: list_all2_Cons1)

lemma finalize_blocks_shape:
  assumes "finalize_blocks name bs = Inr ms"
  shows "map mir_label ms = map mb_label bs" "map mir_instructions ms = map mb_instructions bs"
    "map (Some \<circ> mir_terminator) ms = map mb_terminator bs"
proof -
  have "list_all2 (\<lambda>b m. mb_label b = mir_label m \<and> mb_instructions b = mir_instructions m \<and>
      mb_terminator b = Some (mir_terminator m)) bs ms"
    using assms unfolding finalize_blocks_def map_result_Inr
    by (rule list_all2_mono) (auto simp: violation_def lower_error_def split: option.splits)
  then show "map mir_label ms = map mb_label bs" "map mir_instructions ms = map mb_instructions bs"
    "map (Some \<circ> mir_terminator) ms = map mb_terminator bs"
    by (induction rule: list_all2_induct) auto
qed

lemma entry_inv: "lower_inv {} (snd (start_block (block_label 0) (snd (next_block_label (lower_context_new p params)))))"
  by (simp add: lower_inv_def start_block_def next_block_label_def lower_context_new_def Let_def context_temps_def lessThan_Suc)

lemma finished_shape:
  assumes inv: "lower_inv {} cx" and run: "finalize_blocks name (cx_blocks cx) = Inr ms"
  shows "closed_blocks ms" "distinct (concat (map (\<lambda>b. temps_defined (mir_instructions b)) ms))"
proof -
  note shape = finalize_blocks_shape [OF run]
  have "concat (map (\<lambda>b. temps_defined (mir_instructions b)) ms) = concat (map temps_defined (map mir_instructions ms))"
    by (simp add: comp_def)
  also have "\<dots> = context_temps (cx_blocks cx)" unfolding shape(2) by (simp add: context_temps_def comp_def)
  finally show "distinct (concat (map (\<lambda>b. temps_defined (mir_instructions b)) ms))" using inv by (simp add: lower_inv_def)
  have labels: "set (map mir_label ms) = block_label ` {..<blocks_started cx}" "distinct (map mir_label ms)"
    using inv unfolding shape(1) lower_inv_def by simp_all
  then have "length (map mir_label ms) = card (block_label ` {..<blocks_started cx})" by (metis distinct_card)
  also have "\<dots> = blocks_started cx" by (simp add: card_image inj_on_def)
  finally have len: "length ms = blocks_started cx" by simp
  have ne: "cx_blocks cx \<noteq> []" "mb_label (cx_blocks cx ! 0) = block_label 0" using inv by (simp_all add: lower_inv_def)
  then have ms: "ms \<noteq> []" using shape(1) by auto
  then have "mir_label (hd ms) = hd (map mb_label (cx_blocks cx))" unfolding shape(1) [symmetric] by (simp add: hd_map)
  then have first: "mir_label (hd ms) = block_label 0" using ne by (simp add: hd_map hd_conv_nth)
  have "set (terminator_labels (mir_terminator m)) \<subseteq> set (map mir_label ms)" if "m \<in> set ms" for m
  proof -
    have "Some (mir_terminator m) \<in> set (map mb_terminator (cx_blocks cx))"
      unfolding shape(3) [symmetric] using that by auto
    then obtain b where "b \<in> set (cx_blocks cx)" "mb_terminator b = Some (mir_terminator m)" by auto
    then show ?thesis using inv unfolding labels(1) lower_inv_def by blast
  qed
  with ms first labels len show "closed_blocks ms" by (simp add: closed_blocks_def)
qed

lemma lower_function_shape:
  assumes run: "lower_function p f = Inr m"
  shows "closed_blocks (mir_blocks m)" "distinct (function_temps m)"
    "mir_name m = fi_name f" "mir_exported m = fi_exported f" "map mir_param_name (mir_params m) = map fpi_name (fi_params f)"
proof -
  obtain params rt cx cx1 where params: "map_result (\<lambda>param. result_bind (to_mir_type (fpi_type param)) (\<lambda>t.
       Inr \<lparr>mir_param_name = fpi_name param, mir_param_type = t\<rparr>)) (fi_params f) = Inr params"
    and body: "lower_statements (block_statements (fn_body (fi_declaration f)))
      (snd (start_block (block_label 0) (snd (next_block_label (lower_context_new p params))))) = Inr cx"
    and end_of: "(if cx_current cx = None then Inr cx
             else if rt = MirVoid then set_terminator (MirReturn None) cx
             else violation (lit ''function '' @ quoted (fi_name f) @ lit '' has no return terminator.'')) = Inr cx1"
    and blocks: "finalize_blocks (fi_name f) (cx_blocks cx1) = Inr (mir_blocks m)"
    and m: "mir_name m = fi_name f" "mir_exported m = fi_exported f" "mir_params m = params"
    using run by (auto simp: lower_function_def Let_def split_def next_block_label_simps lower_context_new_def)
  show "mir_name m = fi_name f" "mir_exported m = fi_exported f" by (rule m)+
  have "list_all2 (\<lambda>a b. fpi_name a = mir_param_name b) (fi_params f) params"
    using params unfolding map_result_Inr by (rule list_all2_mono) auto
  then show "map mir_param_name (mir_params m) = map fpi_name (fi_params f)" unfolding m
    by (induction rule: list_all2_induct) auto
  have "loops_ok (snd (start_block (block_label 0) (snd (next_block_label (lower_context_new p params)))))"
    by (simp add: loops_ok_def next_block_label_simps lower_context_new_def)
  from lower_statements_step [OF this body] entry_inv have inv: "lower_inv {} cx" by (simp add: lower_step_def)
  have "lower_step cx cx1"
  proof (cases "cx_current cx = None")
    case True
    with end_of show ?thesis by (simp add: lower_step_refl)
  next
    case False
    with end_of have "set_terminator (MirReturn None) cx = Inr cx1" by (auto simp: violation_def lower_error_def split: if_splits)
    then show ?thesis by (rule set_terminator_step) simp
  qed
  with inv have "lower_inv {} cx1" by (simp add: lower_step_def)
  from finished_shape [OF this blocks] show "closed_blocks (mir_blocks m)" "distinct (function_temps m)"
    by (simp_all add: function_temps_def)
qed

lemma lower_to_mir_parts:
  assumes "lower_to_mir p = Inr mo"
  shows "list_all2 (\<lambda>f m. lower_function p f = Inr m) (cp_functions p) (mir_functions mo)"
    "list_all2 (\<lambda>s m. lower_struct s = Inr m) (cp_structs p) (mir_structs mo)"
  using assms by (auto simp: lower_to_mir_def Let_def map_result_Inr)

end
