(* ===== verification/Mir_Lower_Properties.thy ===== *)
theory Mir_Lower_Properties
  imports Mir_Lower_Sound Typeck_Properties
begin

text \<open>
  The properties of the MIR lowering: the shape of every function it produces, and a program that
  the checker accepts and the lowering rejects.
\<close>

section \<open>Two programs\<close>

text \<open>A checked program from a source the parser and the checker accept, without contracts.\<close>

definition checked_base :: "source_file \<Rightarrow> program \<Rightarrow> checked_program" where
  "checked_base src prog =
     (let st = check_declarations (checker_new src \<lparr>pr_ast = prog, pr_diagnostics = []\<rparr>)
      in create_checked_program prog (ck_symbols st) (ck_expression_types st) (ck_local_types st) (ck_contracts st))"

definition checked_of :: "source_file \<Rightarrow> program \<Rightarrow> checked_program" where
  "checked_of src prog =
     (checked_base src prog)\<lparr>cp_effect_summaries := sr_summaries (analyze_checked_program_effects (checked_base src prog) None)\<rparr>"

lemma check_source_checked:
  assumes "parse src = Some \<lparr>pr_ast = prog, pr_diagnostics = []\<rparr>"
    "ck_diagnostics (check_declarations (checker_new src \<lparr>pr_ast = prog, pr_diagnostics = []\<rparr>)) = []"
    "list_all (\<lambda>f. Option.is_none (fi_contract f)) (cp_functions (checked_base src prog))"
  shows "\<exists>r. check_source src = Some r \<and> cr_diagnostics r = [] \<and> cr_checked_program r = checked_of src prog"
proof -
  let ?st = "checker_new src \<lparr>pr_ast = prog, pr_diagnostics = []\<rparr>"
  have p: "ck_program (check_declarations ?st) = prog"
    using declarations_push [of ?st] by (simp add: pushes_def checker_new_def)
  have "validate_effect_ceilings (checked_of src prog) = []"
    using assms(3) by (intro no_ceilings) (auto simp: list_all_iff Option.is_none_def checked_of_def)
  then show ?thesis
    using assms(1,2) p by (simp add: check_source_def checker_check_def Let_def checked_of_def checked_base_def)
qed

definition loop_source :: source_file where
  "loop_source = \<lparr>file_name = [], sf_text = lit ''fn f(a:bool)->void{while a{if a{break;}}}''\<rparr>"


definition header_tokens :: "token list" where
  "header_tokens = map (\<lambda>(k, w, i). token_on_line k w i)
     [(TkFn, ''fn'', 0), (TkIdentifier, ''f'', 3), (TkLeftParen, ''('', 4), (TkIdentifier, ''a'', 5), (TkColon, '':'', 6),
      (TkBool, ''bool'', 7), (TkRightParen, '')'', 11), (TkArrow, ''->'', 12), (TkVoid, ''void'', 14), (TkLeftBrace, ''{'', 18)]"

definition loop_tokens :: "token list" where
  "loop_tokens = header_tokens @ map (\<lambda>(k, w, i). token_on_line k w i)
     [(TkWhile, ''while'', 19), (TkIdentifier, ''a'', 25), (TkLeftBrace, ''{'', 26), (TkIf, ''if'', 27), (TkIdentifier, ''a'', 30),
      (TkLeftBrace, ''{'', 31), (TkBreak, ''break'', 32), (TkSemicolon, '';'', 37), (TkRightBrace, ''}'', 38),
      (TkRightBrace, ''}'', 39), (TkRightBrace, ''}'', 40), (TkEof, '''', 41)]"


lemma lex_loop: "lex loop_source = Some \<lparr>lr_tokens = loop_tokens, lr_diagnostics = []\<rparr>"
proof (rule lex_by_pieces [OF refl])
  show "0 \<notin> set (sf_text loop_source)" by code_simp
  show "clean (pieces (sf_text loop_source))" by (simp add: loop_source_def pieces_eval clean_def)
  show "layout_from (1, 1, 0) (pieces (sf_text loop_source)) @
      [eof_at (fold count_char (sf_text loop_source) (1, 1, 0))] = loop_tokens"
    by (simp add: loop_source_def pieces_eval len_utf16_def loop_tokens_def header_tokens_def token_on_line_def eof_at_def)
qed


definition read_name :: "nat \<Rightarrow> expression" where
  "read_name i = EIdentifier (lit ''a'') (span_on_line i (i + 1))"

definition one_parameter :: "statement \<Rightarrow> nat \<Rightarrow> program" where
  "one_parameter s stop =
     \<lparr>declarations = [DeclFunction \<lparr>exported = False, is_unsafe = False, fn_name = \<lparr>id_name = lit ''f'', id_span = span_on_line 3 4\<rparr>,
        fn_params = [\<lparr>param_name = \<lparr>id_name = lit ''a'', id_span = span_on_line 5 6\<rparr>,
          param_type = TypePrimitive (lit ''bool'') (span_on_line 7 11), param_span = span_on_line 5 11\<rparr>],
        return_type = TypeVoid (span_on_line 14 18), fn_contract = None,
        fn_body = BlockStatement [s] (span_on_line 18 stop), fn_span = span_on_line 0 stop\<rparr>],
      program_span = span_on_line 0 stop\<rparr>"

definition loop_program :: program where
  "loop_program = one_parameter
     (StWhile (read_name 25) (BlockStatement
        [StIf (read_name 30) (BlockStatement [StBreak (span_on_line 32 38)] (span_on_line 31 39)) None (span_on_line 27 39)]
        (span_on_line 26 40)) (span_on_line 19 40)) 41"


lemma parse_loop: "parse loop_source = Some \<lparr>pr_ast = loop_program, pr_diagnostics = []\<rparr>"
proof (rule parse_by_tokens [OF lex_loop])
  show "parser_parse (length loop_tokens + 8) (parser_new loop_source loop_tokens []) =
      Some \<lparr>pr_ast = loop_program, pr_diagnostics = []\<rparr>" by code_simp
qed



lemma loop_checked:
  "ck_diagnostics (check_declarations (checker_new loop_source \<lparr>pr_ast = loop_program, pr_diagnostics = []\<rparr>)) = []"
  by code_simp


lemma loop_contracts: "list_all (\<lambda>f. Option.is_none (fi_contract f)) (cp_functions (checked_base loop_source loop_program))"
  by code_simp


lemma loop_lowered:
  "case lower_to_mir ((checked_base loop_source loop_program)\<lparr>cp_effect_summaries := summaries\<rparr>) of
      Inl _ \<Rightarrow> False
    | Inr m \<Rightarrow> map (\<lambda>f. map (\<lambda>b. (mir_label b, terminator_labels (mir_terminator b))) (mir_blocks f)) (mir_functions m) =
       [[(lit ''bb0'', [lit ''bb1'']), (lit ''bb1'', [lit ''bb2'', lit ''bb3'']), (lit ''bb2'', [lit ''bb4'', lit ''bb5'']),
         (lit ''bb4'', [lit ''bb3'']), (lit ''bb5'', [lit ''bb1'']), (lit ''bb3'', [])]]"
  by code_simp



lemma loop_accepted: "\<exists>r. check_source loop_source = Some r \<and> cr_diagnostics r = [] \<and> cr_checked_program r = checked_of loop_source loop_program"
  by (rule check_source_checked [OF parse_loop loop_checked loop_contracts])


section \<open>The properties\<close>

text \<open>
  C4. The control flow graphs of the lowering are whole: a module lowered from a checked program
  has its structs and functions in order, under their names; in every function the blocks are
  labelled bb0 to bbn, each label starts one block, bb0 is the entry, every jump and
  branch, those of \<^verbatim>\<open>break\<close>, \<^verbatim>\<open>continue\<close>, short circuits and joins included, leads to
  a block of the function, and every temporary is the target of one instruction only.
\<close>

theorem lower_to_mir_blocks:
  assumes "lower_to_mir p = Inr m"
  shows "map mir_name (mir_functions m) = map fi_name (cp_functions p) \<and>
    map mir_struct_name (mir_structs m) = map si_name (cp_structs p) \<and>
    list_all (\<lambda>f. closed_blocks (mir_blocks f) \<and> distinct (function_temps f)) (mir_functions m)"
proof (intro conjI)
  note parts = lower_to_mir_parts [OF assms]
  from parts(1) show "map mir_name (mir_functions m) = map fi_name (cp_functions p)"
    by (induction rule: list_all2_induct) (auto dest: lower_function_shape(3))
  from parts(2) show "map mir_struct_name (mir_structs m) = map si_name (cp_structs p)"
    by (induction rule: list_all2_induct) (auto simp: lower_struct_def)
  from parts(1) show "list_all (\<lambda>f. closed_blocks (mir_blocks f) \<and> distinct (function_temps f)) (mir_functions m)"
    by (induction rule: list_all2_induct) (auto dest: lower_function_shape(1,2))
qed

theorem lower_to_mir_blocks_witness:
  "\<exists>r m. check_source loop_source = Some r \<and> lower_to_mir (cr_checked_program r) = Inr m \<and>
     map (\<lambda>f. length (mir_blocks f)) (mir_functions m) = [6] \<and>
     list_all (\<lambda>f. closed_blocks (mir_blocks f) \<and> distinct (function_temps f)) (mir_functions m)"
proof -
  obtain r where r: "check_source loop_source = Some r" "cr_checked_program r = checked_of loop_source loop_program"
    using loop_accepted by blast
  obtain m where m: "lower_to_mir (cr_checked_program r) = Inr m"
      "map (\<lambda>f. length (mir_blocks f)) (mir_functions m) = [6]"
    using loop_lowered [of "sr_summaries (analyze_checked_program_effects (checked_base loop_source loop_program) None)"]
    by (auto simp: r(2) checked_of_def length_map [symmetric, of _ "\<lambda>b. (mir_label b, terminator_labels (mir_terminator b))"]
        simp del: length_map split: sum.splits)
  from r(1) m lower_to_mir_blocks [OF m(1)] show ?thesis
    by (intro exI [of _ r] exI [of _ m] conjI) simp_all
qed


end
