(* ===== verification/Kir_Model.thy ===== *)
theory Kir_Model
  imports Mir_Model
begin

text \<open>
  The optimizer's representation of \<^verbatim>\<open>src/src/ir/kir/model.rs\<close>: blocks with parameters in place
  of phi nodes, memory versions per region, ordered effects. The identifiers, newtypes of
  \<^verbatim>\<open>u32\<close> in the code that are only compared and counted, are numbers. The target profile of a
  module is a type parameter; it belongs to \<^verbatim>\<open>profile.rs\<close>.
\<close>

type_synonym function_id = nat
type_synonym block_id = nat
type_synonym value_id = nat
type_synonym instruction_id = nat
type_synonym memory_region_id = nat
type_synonym memory_version_id = nat
type_synonym proof_id = nat
type_synonym vector_region_id = nat

section \<open>Configuration\<close>

datatype kir_consumer = ConsumerC | ConsumerWebAssembly | ConsumerNativeLibrary | ConsumerNativeExecutable | ConsumerInspection

datatype kir_overflow_mode = OverflowUnchecked | OverflowChecked

datatype kir_bounds_mode = BoundsUnchecked | BoundsChecked

datatype kir_sanitizer_mode = SanitizerDisabled | SanitizerContracts

record kir_build_config =
  kbc_consumer :: kir_consumer
  kbc_overflow_mode :: kir_overflow_mode
  kbc_bounds_mode :: kir_bounds_mode
  kbc_sanitizer_mode :: kir_sanitizer_mode

section \<open>Values and memory\<close>

datatype kir_lane_type = LaneI32 | LaneI64 | LaneU32 | LaneU64 | LaneF64

datatype kir_value_type =
    KirScalar mir_type
  | KirFixedVector kir_lane_type nat
  | KirMask nat

fun as_scalar :: "kir_value_type \<Rightarrow> mir_type option" where
  "as_scalar (KirScalar t) = Some t"
| "as_scalar _ = None"

record kir_param =
  kp_value :: value_id
  kp_name :: rstring
  kp_type :: mir_type

datatype kir_memory_region_origin =
    OriginConservative | OriginParameter value_id | OriginRawSlice value_id | OriginSubslice value_id

record kir_symbolic_byte_interval =
  sbi_start :: value_id
  sbi_end :: value_id
  sbi_element_type :: mir_type

record kir_memory_region =
  kmr_id :: memory_region_id
  kmr_origin :: kir_memory_region_origin
  kmr_parent :: "memory_region_id option"
  kmr_partition :: memory_region_id
  kmr_byte_interval :: "kir_symbolic_byte_interval option"

record kir_initial_memory =
  kim_region :: memory_region_id
  kim_version :: memory_version_id

record kir_vector_region =
  kvr_id :: vector_region_id
  kvr_blocks :: "block_id list"

section \<open>Instructions\<close>

datatype kir_arithmetic_semantics = ArithmeticModular | ArithmeticChecked | ArithmeticStrictFloat

datatype kir_check_condition_kind =
  CheckArithmeticOverflow | CheckDivisionByZero | CheckSignedDivisionOverflow | CheckSliceOutOfBounds | CheckInvalidSubslice

datatype kir_failure_kind = FailureOverflow | FailureDivisionByZero | FailureOutOfBounds | FailureContractViolation

datatype kir_place =
    KirPlaceValue value_id mir_type memory_region_id
  | KirPlaceDeref value_id mir_type memory_region_id
  | KirPlaceIndex kir_place value_id mir_type memory_region_id
  | KirPlaceSliceIndex value_id value_id mir_type memory_region_id
  | KirPlaceField kir_place rstring mir_type memory_region_id

datatype kir_version_predicate_conjunct =
    TripThreshold value_id nat
  | AddressIntervalsDisjoint value_id value_id nat value_id value_id nat
  | WasmSliceRange value_id value_id value_id nat

record kir_version_predicate =
  kvp_address_bits :: nat
  kvp_conjuncts :: "kir_version_predicate_conjunct list"

datatype kir_vector_binary_op = VectorAdd | VectorSubtract | VectorMultiply | VectorDivide | VectorRemainder

datatype kir_vector_unary_op = VectorNegate | VectorMaskNot

datatype kir_vector_cast_op = VectorI32ToF64 | VectorU32ToF64

datatype kir_vector_reduction_op = ModularAdd | ModularMultiply | ModularMin | ModularMax

record kir_vector_memory_access =
  kvm_slice :: value_id
  kvm_start :: value_id
  kvm_end :: value_id
  kvm_lane :: kir_lane_type
  kvm_lanes :: nat
  kvm_byte_footprint :: nat
  kvm_known_alignment :: nat
  kvm_required_alignment :: nat

datatype (plugins only: code size) kir_instruction_kind =
    KUndef rstring
  | KConstInt rstring
  | KConstFloat rstring
  | KConstBool bool
  | KCopy value_id
  | KBinary mir_binary_op value_id value_id kir_arithmetic_semantics
  | KUnary mir_unary_op value_id kir_arithmetic_semantics
  | KCompare mir_compare_op value_id value_id
  | KCast mir_cast_op value_id
  | KCheckCondition kir_check_condition_kind "value_id list"
  | KGuard value_id kir_failure_kind
  | KAddress kir_place
  | KLoad kir_place
  | KStore kir_place value_id
  | KMakeSlice value_id value_id
  | KSliceData value_id
  | KSliceLen value_id
  | KSubslice value_id value_id value_id
  | KCall rstring "value_id list"
  | KRuntimeCall mir_runtime_intrinsic "value_id list"
  | KVersionPredicate kir_version_predicate
  | KVectorSplat value_id vector_region_id
  | KVectorLoad kir_vector_memory_access vector_region_id
  | KVectorStore kir_vector_memory_access value_id vector_region_id
  | KVectorBinary kir_vector_binary_op value_id value_id kir_arithmetic_semantics "proof_id option" vector_region_id
  | KVectorUnary kir_vector_unary_op value_id kir_arithmetic_semantics "proof_id option" vector_region_id
  | KVectorCompare mir_compare_op value_id value_id vector_region_id
  | KVectorSelect value_id value_id value_id vector_region_id
  | KVectorCast kir_vector_cast_op value_id vector_region_id
  | KVectorInsert value_id value_id nat vector_region_id
  | KVectorExtract value_id nat vector_region_id
  | KVectorReduce kir_vector_reduction_op value_id kir_arithmetic_semantics vector_region_id

record kir_result =
  kr_value :: value_id
  kr_type :: kir_value_type

record kir_memory_access =
  kma_region :: memory_region_id
  kma_input :: memory_version_id
  kma_output :: "memory_version_id option"

datatype kir_effect_kind = EffReadMemory | EffWriteMemory | EffMayFail | EffRuntime | EffCall | EffReturn

record kir_ordered_effect =
  koe_order :: nat
  koe_kind :: kir_effect_kind

record kir_instruction =
  ki_id :: instruction_id
  ki_results :: "kir_result list"
  ki_kind :: kir_instruction_kind
  ki_memory :: "kir_memory_access option"
  ki_effect :: "kir_ordered_effect option"

section \<open>Blocks and functions\<close>

record kir_edge =
  ke_target :: block_id
  ke_args :: "value_id list"
  ke_memory_args :: "memory_version_id list"

datatype kir_terminator =
    KirReturn "value_id option" "(memory_region_id \<times> memory_version_id) list" nat
  | KirJump kir_edge
  | KirBranch value_id kir_edge kir_edge

record kir_block_param =
  kbp_value :: value_id
  kbp_slot :: rstring
  kbp_type :: kir_value_type

record kir_memory_block_param =
  kmb_version :: memory_version_id
  kmb_region :: memory_region_id

record kir_block =
  kb_id :: block_id
  kb_label :: rstring
  kb_params :: "kir_block_param list"
  kb_memory_params :: "kir_memory_block_param list"
  kb_instructions :: "kir_instruction list"
  kb_terminator :: kir_terminator

record kir_function =
  kf_id :: function_id
  kf_name :: rstring
  kf_exported :: bool
  kf_params :: "kir_param list"
  kf_return_type :: mir_type
  kf_regions :: "kir_memory_region list"
  kf_initial_memory :: "kir_initial_memory list"
  kf_vector_regions :: "kir_vector_region list"
  kf_blocks :: "kir_block list"

record 'profile kir_module =
  km_config :: kir_build_config
  km_profile :: 'profile
  km_entry :: "mir_entry_point option"
  km_structs :: "mir_struct list"
  km_functions :: "kir_function list"

end
