(* ===== verification/Kir_Dominance.thy ===== *)
theory Kir_Dominance
  imports Kir_Model Ordered_Map
begin

text \<open>
  Dominators of the blocks of a function, \<^verbatim>\<open>src/src/ir/kir/dominance.rs\<close>: a bit matrix over the
  indices of the sorted block identifiers, swept until nothing changes, a budget charged along
  the way, and a cache of the last results by the shape of the control flow graph.
\<close>

section \<open>The graph\<close>

fun terminator_successors :: "kir_terminator \<Rightarrow> block_id list" where
  "terminator_successors (KirReturn _ _ _) = []"
| "terminator_successors (KirJump e) = [ke_target e]"
| "terminator_successors (KirBranch _ t e) = [ke_target t, ke_target e]"

type_synonym kir_cfg_identity = "(block_id \<times> block_id option \<times> block_id option) list"

definition cfg_identity :: "kir_function \<Rightarrow> kir_cfg_identity" where
  "cfg_identity f = map (\<lambda>b. (kb_id b, case kb_terminator b of
       KirReturn _ _ _ \<Rightarrow> (None, None)
     | KirJump e \<Rightarrow> (Some (ke_target e), None)
     | KirBranch _ t e \<Rightarrow> (Some (ke_target t), Some (ke_target e)))) (kf_blocks f)"

record kir_dominators =
  kd_entry :: "block_id option"
  kd_sets :: "(block_id, block_id list) btree"

text \<open>The sets are \<^verbatim>\<open>BTreeSet\<close>s, lists in increasing order here.\<close>

definition dominates :: "kir_dominators \<Rightarrow> block_id \<Rightarrow> block_id \<Rightarrow> bool" where
  "dominates d dominator b = (case bt_get (kd_sets d) b of Some s \<Rightarrow> dominator \<in> set s | None \<Rightarrow> False)"

section \<open>The computation\<close>

text \<open>\<open>charge units s\<close> takes units off the budget \<open>s\<close> or fails.\<close>

type_synonym ('e, 's) charge = "nat \<Rightarrow> 's \<Rightarrow> 'e + 's"

definition bind_charge :: "'e + 'a \<Rightarrow> ('a \<Rightarrow> 'e + 'b) \<Rightarrow> 'e + 'b" where
  "bind_charge m f = (case m of Inl e \<Rightarrow> Inl e | Inr x \<Rightarrow> f x)"

type_synonym bit_matrix = "bool list list"

definition add_predecessor :: "(block_id, nat) btree \<Rightarrow> nat \<Rightarrow> block_id \<Rightarrow> nat list list \<Rightarrow> nat list list" where
  "add_predecessor indices source successor preds =
     (case bt_get indices successor of
        Some t \<Rightarrow> preds[t := preds ! t @ [source]]
      | None \<Rightarrow> preds)"

fun collect_predecessors ::
  "('e, 's) charge \<Rightarrow> (block_id, nat) btree \<Rightarrow> kir_block list \<Rightarrow> nat list list \<Rightarrow> 's \<Rightarrow> 'e + nat list list \<times> 's" where
  "collect_predecessors charge indices [] preds s = Inr (preds, s)"
| "collect_predecessors charge indices (b # bs) preds s =
     bind_charge (charge 1 s) (\<lambda>s.
       collect_predecessors charge indices bs
         (fold (add_predecessor indices (the (bt_get indices (kb_id b)))) (terminator_successors (kb_terminator b)) preds) s)"

definition initial_bits :: "nat \<Rightarrow> nat \<Rightarrow> nat list list \<Rightarrow> bit_matrix" where
  "initial_bits n entry preds =
     map (\<lambda>i. if i = entry \<or> preds ! i = [] then (replicate n False)[i := True] else replicate n True) [0..<n]"

fun meet_predecessors ::
  "('e, 's) charge \<Rightarrow> bit_matrix \<Rightarrow> nat \<Rightarrow> nat list \<Rightarrow> bool list \<Rightarrow> 's \<Rightarrow> 'e + bool list \<times> 's" where
  "meet_predecessors charge bits n [] next s = Inr (next, s)"
| "meet_predecessors charge bits n (p # ps) next s =
     bind_charge (charge n s) (\<lambda>s. meet_predecessors charge bits n ps (map2 (\<and>) next (bits ! p)) s)"

definition first_row :: "bit_matrix \<Rightarrow> nat \<Rightarrow> nat list \<Rightarrow> bool list" where
  "first_row bits n preds = (case preds of p # _ \<Rightarrow> bits ! p | [] \<Rightarrow> replicate n False)"

fun sweep ::
  "('e, 's) charge \<Rightarrow> nat \<Rightarrow> nat \<Rightarrow> nat list list \<Rightarrow> nat list \<Rightarrow> bit_matrix \<Rightarrow> bool \<Rightarrow> 's \<Rightarrow>
   'e + bit_matrix \<times> bool \<times> 's" where
  "sweep charge n entry preds [] bits changed s = Inr (bits, changed, s)"
| "sweep charge n entry preds (i # is) bits changed s =
     bind_charge (charge n s) (\<lambda>s.
       if i = entry then sweep charge n entry preds is bits changed s
       else
         bind_charge (meet_predecessors charge bits n (tl (preds ! i)) (first_row bits n (preds ! i)) s) (\<lambda>(next, s).
           let next = next[i := True] in
           if bits ! i \<noteq> next then sweep charge n entry preds is (bits[i := next]) True s
           else sweep charge n entry preds is bits changed s))"

partial_function (option) dominance_loop ::
  "('e, 's) charge \<Rightarrow> nat \<Rightarrow> nat \<Rightarrow> nat list list \<Rightarrow> bit_matrix \<Rightarrow> 's \<Rightarrow> ('e + bit_matrix \<times> 's) option" where
  "dominance_loop charge n entry preds bits s =
     (case sweep charge n entry preds [0..<n] bits False s of
        Inl e \<Rightarrow> Some (Inl e)
      | Inr (bits, changed, s) \<Rightarrow>
          if changed then dominance_loop charge n entry preds bits s else Some (Inr (bits, s)))"

declare dominance_loop.simps [code]

definition dominator_sets :: "block_id list \<Rightarrow> bit_matrix \<Rightarrow> (block_id, block_id list) btree" where
  "dominator_sets ids bits =
     bt_collect (map (\<lambda>i. (ids ! i, map ((!) ids) (filter (\<lambda>j. bits ! i ! j) [0..<length ids]))) [0..<length ids])"

definition block_indices :: "block_id list \<Rightarrow> (block_id, nat) btree" where
  "block_indices ids = bt_collect (map (\<lambda>i. (ids ! i, i)) [0..<length ids])"

definition compute_dominators ::
  "('e, 's) charge \<Rightarrow> kir_function \<Rightarrow> 's \<Rightarrow> ('e + kir_dominators \<times> 's) option" where
  "compute_dominators charge f s =
     (case kf_blocks f of
        [] \<Rightarrow> Some (Inr (\<lparr>kd_entry = None, kd_sets = []\<rparr>, s))
      | entry # _ \<Rightarrow>
          let ids = sort (map kb_id (kf_blocks f));
              n = length ids;
              indices = block_indices ids;
              entry_index = the (bt_get indices (kb_id entry))
          in case bind_charge (collect_predecessors charge indices (kf_blocks f) (replicate n []) s)
                    (\<lambda>(preds, s). bind_charge (charge (n * n) s) (\<lambda>s. Inr (preds, s))) of
               Inl e \<Rightarrow> Some (Inl e)
             | Inr (preds, s) \<Rightarrow>
                 Option.bind (dominance_loop charge n entry_index preds (initial_bits n entry_index preds) s)
                   (\<lambda>r. Some (bind_charge r (\<lambda>(bits, s). bind_charge (charge (n * n) s) (\<lambda>s.
                      Inr (\<lparr>kd_entry = Some (kb_id entry), kd_sets = dominator_sets ids bits\<rparr>, s))))))"

section \<open>Budgets and the cache\<close>

definition u32_limit :: nat where
  "u32_limit = 2 ^ 32 - 1"

text \<open>The count of an unlimited run saturates; a budget must not go below zero.\<close>

definition count_units :: "(unit, nat) charge" where
  "count_units units s = Inr (min u32_limit (s + min u32_limit units))"

text \<open>
  The budget is a \<^verbatim>\<open>&mut u32\<close> of the caller: a charge that fails leaves it at what it was before
  that charge, which is what the error carries.
\<close>

definition spend_units :: "(nat, nat) charge" where
  "spend_units units s = (if u32_limit < units \<or> s < units then Inl s else Inr (s - units))"

record cached_dominators =
  cd_identity :: kir_cfg_identity
  cd_result :: kir_dominators
  cd_budget_units :: nat

type_synonym dominance_cache = "cached_dominators list"

definition cache_capacity :: nat where
  "cache_capacity = 16"

text \<open>A hit moves to the front.\<close>

fun take_cached :: "kir_cfg_identity \<Rightarrow> dominance_cache \<Rightarrow> (cached_dominators \<times> dominance_cache) option" where
  "take_cached identity [] = None"
| "take_cached identity (c # cs) =
     (if cd_identity c = identity then Some (c, cs)
      else map_option (\<lambda>(hit, rest). (hit, c # rest)) (take_cached identity cs))"

definition lookup_cached :: "kir_cfg_identity \<Rightarrow> dominance_cache \<Rightarrow> (cached_dominators \<times> dominance_cache) option" where
  "lookup_cached identity cache = map_option (\<lambda>(hit, rest). (hit, hit # rest)) (take_cached identity cache)"

definition cache_dominators :: "cached_dominators \<Rightarrow> dominance_cache \<Rightarrow> dominance_cache" where
  "cache_dominators c cache = take cache_capacity (c # cache)"

definition compute_kir_dominators :: "kir_function \<Rightarrow> dominance_cache \<Rightarrow> (kir_dominators \<times> dominance_cache) option" where
  "compute_kir_dominators f cache =
     (case lookup_cached (cfg_identity f) cache of
        Some (hit, cache) \<Rightarrow> Some (cd_result hit, cache)
      | None \<Rightarrow>
          Option.bind (compute_dominators count_units f 0) (\<lambda>r. case r of
             Inl _ \<Rightarrow> None
           | Inr (d, units) \<Rightarrow>
               Some (d, cache_dominators \<lparr>cd_identity = cfg_identity f, cd_result = d, cd_budget_units = units\<rparr> cache)))"

text \<open>The option is the termination of the loop; the budget left is returned with the result.\<close>

definition compute_kir_dominators_with_budget ::
  "kir_function \<Rightarrow> nat \<Rightarrow> dominance_cache \<Rightarrow> (kir_dominators option \<times> nat \<times> dominance_cache) option" where
  "compute_kir_dominators_with_budget f remaining cache =
     (case lookup_cached (cfg_identity f) cache of
        Some (hit, cache) \<Rightarrow>
          Some (if remaining < cd_budget_units hit then (None, remaining, cache)
                else (Some (cd_result hit), remaining - cd_budget_units hit, cache))
      | None \<Rightarrow>
          Option.bind (compute_dominators spend_units f remaining) (\<lambda>r. case r of
             Inl left \<Rightarrow> Some (None, left, cache)
           | Inr (d, left) \<Rightarrow>
               Some (Some d, left, cache_dominators
                 \<lparr>cd_identity = cfg_identity f, cd_result = d, cd_budget_units = remaining - left\<rparr> cache)))"

end
