(* ===== verification/Kir_Dominance_Sound.thy ===== *)
theory Kir_Dominance_Sound
  imports Kir_Dominance
begin

text \<open>
  The sweep over the bit matrix computes dominance: the matrix always contains the dominators on
  all paths, it only shrinks, so the loop ends, and where it ends every bit is a dominator by
  induction on the paths.
\<close>

section \<open>Paths\<close>

definition block_ids :: "kir_function \<Rightarrow> block_id set" where
  "block_ids f = kb_id ` set (kf_blocks f)"

definition cfg_edge :: "kir_function \<Rightarrow> block_id \<Rightarrow> block_id \<Rightarrow> bool" where
  "cfg_edge f a b \<longleftrightarrow> b \<in> block_ids f \<and>
     (\<exists>blk \<in> set (kf_blocks f). kb_id blk = a \<and> b \<in> set (terminator_successors (kb_terminator blk)))"

text \<open>Where paths start: at the entry, and at the blocks no block jumps to.\<close>

definition cfg_root :: "kir_function \<Rightarrow> block_id \<Rightarrow> bool" where
  "cfg_root f r \<longleftrightarrow> r \<in> block_ids f \<and> (r = kb_id (hd (kf_blocks f)) \<or> (\<forall>a. \<not> cfg_edge f a r))"

text \<open>The blocks of a path, the last one first.\<close>

inductive cfg_path :: "kir_function \<Rightarrow> block_id list \<Rightarrow> bool" for f where
  start: "cfg_root f r \<Longrightarrow> cfg_path f [r]"
| step: "cfg_path f (a # p) \<Longrightarrow> cfg_edge f a b \<Longrightarrow> cfg_path f (b # a # p)"

definition on_every_path :: "kir_function \<Rightarrow> block_id \<Rightarrow> block_id \<Rightarrow> bool" where
  "on_every_path f a b \<longleftrightarrow> a \<in> block_ids f \<and> b \<in> block_ids f \<and> (\<forall>p. cfg_path f (b # p) \<longrightarrow> a \<in> set (b # p))"

section \<open>The matrix\<close>

inductive row_path :: "nat \<Rightarrow> nat \<Rightarrow> nat list list \<Rightarrow> nat list \<Rightarrow> bool" for n entry preds where
  start: "i < n \<Longrightarrow> i = entry \<or> preds ! i = [] \<Longrightarrow> row_path n entry preds [i]"
| step: "row_path n entry preds (i # p) \<Longrightarrow> k < n \<Longrightarrow> i \<in> set (preds ! k) \<Longrightarrow> row_path n entry preds (k # i # p)"

inductive_cases row_pathE: "row_path n entry preds (i # p)"

definition row_dom :: "nat \<Rightarrow> nat \<Rightarrow> nat list list \<Rightarrow> nat \<Rightarrow> nat \<Rightarrow> bool" where
  "row_dom n entry preds i j \<longleftrightarrow> (\<forall>p. row_path n entry preds (i # p) \<longrightarrow> j \<in> set (i # p))"

text \<open>A bit of the row the sweep gives block \<open>i\<close>.\<close>

definition next_bit :: "nat list list \<Rightarrow> bit_matrix \<Rightarrow> nat \<Rightarrow> nat \<Rightarrow> bool" where
  "next_bit preds bits i j \<longleftrightarrow> j = i \<or> preds ! i \<noteq> [] \<and> (\<forall>p \<in> set (preds ! i). bits ! p ! j)"

definition square :: "nat \<Rightarrow> bit_matrix \<Rightarrow> bool" where
  "square n bits \<longleftrightarrow> length bits = n \<and> (\<forall>i < n. length (bits ! i) = n)"

definition dominance_inv :: "nat \<Rightarrow> nat \<Rightarrow> nat list list \<Rightarrow> bit_matrix \<Rightarrow> bool" where
  "dominance_inv n entry preds bits \<longleftrightarrow> square n bits
     \<and> (\<forall>i < n. \<forall>j < n. i = entry \<or> preds ! i = [] \<longrightarrow> bits ! i ! j = (j = i))
     \<and> (\<forall>i < n. \<forall>j < n. row_dom n entry preds i j \<longrightarrow> bits ! i ! j)
     \<and> (\<forall>i < n. \<forall>j < n. i \<noteq> entry \<longrightarrow> next_bit preds bits i j \<longrightarrow> bits ! i ! j)"

definition dominance_fix :: "nat \<Rightarrow> nat \<Rightarrow> nat list list \<Rightarrow> bit_matrix \<Rightarrow> bool" where
  "dominance_fix n entry preds bits \<longleftrightarrow> (\<forall>i < n. \<forall>j < n. i \<noteq> entry \<longrightarrow> bits ! i ! j = next_bit preds bits i j)"

definition preds_ok :: "nat \<Rightarrow> nat list list \<Rightarrow> bool" where
  "preds_ok n preds \<longleftrightarrow> length preds = n \<and> (\<forall>ps \<in> set preds. \<forall>p \<in> set ps. p < n)"

lemma preds_okD: "preds_ok n preds \<Longrightarrow> i < n \<Longrightarrow> p \<in> set (preds ! i) \<Longrightarrow> p < n"
  unfolding preds_ok_def by (meson nth_mem)

lemma row_dom_self: "row_dom n entry preds i i"
  by (simp add: row_dom_def)

lemma row_dom_pred:
  assumes "row_dom n entry preds i j" "i < n" "p \<in> set (preds ! i)" "j \<noteq> i"
  shows "row_dom n entry preds p j"
  unfolding row_dom_def
proof (intro allI impI)
  fix q
  assume "row_path n entry preds (p # q)"
  from row_path.step [OF this assms(2,3)] assms(1,4) show "j \<in> set (p # q)"
    by (auto simp: row_dom_def)
qed

lemma row_dom_root:
  assumes "row_dom n entry preds i j" "i < n" "i = entry \<or> preds ! i = []"
  shows "j = i"
  using assms row_path.start [OF assms(2,3)] by (fastforce simp: row_dom_def)

subsection \<open>One row\<close>

lemma meet_predecessors_result:
  "meet_predecessors charge bits n ps row s = Inr (r, s') \<Longrightarrow>
   (\<forall>p \<in> set ps. length (bits ! p) = length row) \<Longrightarrow>
   length r = length row \<and> (\<forall>j < length row. r ! j = (row ! j \<and> (\<forall>p \<in> set ps. bits ! p ! j)))"
proof (induction ps arbitrary: row s)
  case (Cons p ps)
  from Cons.prems(1) obtain s1 where
    *: "meet_predecessors charge bits n ps (map2 (\<and>) row (bits ! p)) s1 = Inr (r, s')"
    by (auto simp: bind_charge_def split: sum.splits)
  from Cons.IH [OF this] Cons.prems(2) show ?case by auto
qed simp

lemma next_row:
  assumes "meet_predecessors charge bits n (tl (preds ! i)) (first_row bits n (preds ! i)) s = Inr (r, s')"
    and "square n bits" "preds_ok n preds" "i < n"
  shows "length r = n \<and> (\<forall>j < n. r[i := True] ! j = next_bit preds bits i j)"
proof (cases "preds ! i")
  case Nil
  with assms have "r = replicate n False" by (simp add: first_row_def)
  with Nil assms(4) show ?thesis by (simp add: next_bit_def nth_list_update)
next
  case (Cons p ps)
  have mem: "\<And>q. q \<in> set (preds ! i) \<Longrightarrow> length (bits ! q) = n"
    using preds_okD [OF assms(3,4)] assms(2) by (simp add: square_def)
  have "length r = n \<and> (\<forall>j < n. r ! j = (bits ! p ! j \<and> (\<forall>q \<in> set ps. bits ! q ! j)))"
    using meet_predecessors_result [OF assms(1)] mem Cons by (simp add: first_row_def)
  with Cons assms(4) show ?thesis by (auto simp: next_bit_def nth_list_update)
qed

definition true_bits :: "nat \<Rightarrow> bit_matrix \<Rightarrow> (nat \<times> nat) set" where
  "true_bits n bits = {(i, j). i < n \<and> j < n \<and> bits ! i ! j}"

lemma finite_true_bits: "finite (true_bits n bits)"
  by (rule finite_subset [of _ "{..<n} \<times> {..<n}"]) (auto simp: true_bits_def)

text \<open>Rewriting a row keeps the invariant and clears at least one bit.\<close>

lemma dominance_inv_row:
  assumes inv: "dominance_inv n entry preds bits" and ok: "preds_ok n preds"
    and i: "i < n" "i \<noteq> entry"
    and row: "length r = n" "\<forall>j < n. r ! j = next_bit preds bits i j"
  shows "dominance_inv n entry preds (bits[i := r])"
proof -
  have sq: "square n bits"
    and roots: "\<And>k j. k < n \<Longrightarrow> j < n \<Longrightarrow> k = entry \<or> preds ! k = [] \<Longrightarrow> bits ! k ! j = (j = k)"
    and dom: "\<And>k j. k < n \<Longrightarrow> j < n \<Longrightarrow> row_dom n entry preds k j \<Longrightarrow> bits ! k ! j"
    and post: "\<And>k j. k < n \<Longrightarrow> j < n \<Longrightarrow> k \<noteq> entry \<Longrightarrow> next_bit preds bits k j \<Longrightarrow> bits ! k ! j"
    using inv unfolding dominance_inv_def by blast+
  let ?b = "bits[i := r]"
  have nth: "?b ! k = (if k = i then r else bits ! k)" if "k < n" for k
    using that sq by (simp add: square_def nth_list_update)
  have le: "?b ! k ! j \<Longrightarrow> bits ! k ! j" if "k < n" "j < n" for k j
    using that post [OF i(1) that(2) i(2)] row nth [OF that(1)] by (simp split: if_splits)
  have bit: "next_bit preds ?b k j \<Longrightarrow> next_bit preds bits k j" if "k < n" "j < n" for k j
    using le that preds_okD [OF ok that(1)] unfolding next_bit_def by blast
  have "square n ?b" using sq row nth by (simp add: square_def)
  moreover have "?b ! k ! j = (j = k)" if "k < n" "j < n" "k = entry \<or> preds ! k = []" for k j
  proof (cases "k = i")
    case True
    with that i row show ?thesis using nth [OF that(1)] by (simp add: next_bit_def)
  qed (use that roots nth in simp)
  moreover have "?b ! k ! j" if "k < n" "j < n" "row_dom n entry preds k j" for k j
  proof (cases "k = i \<and> j \<noteq> i")
    case True
    with that have "\<forall>p \<in> set (preds ! i). bits ! p ! j"
      using row_dom_pred [OF that(3)] dom preds_okD [OF ok] by blast
    moreover have "preds ! i \<noteq> []" using row_dom_root that True by blast
    ultimately show ?thesis using True row that nth [OF that(1)] by (simp add: next_bit_def)
  next
    case False
    with that dom row nth [OF that(1)] show ?thesis by (auto simp: next_bit_def)
  qed
  moreover have "?b ! k ! j" if "k < n" "j < n" "k \<noteq> entry" "next_bit preds ?b k j" for k j
    using bit [OF that(1,2,4)] post [OF that(1-3)] row that(1,2) nth [OF that(1)] by auto
  ultimately show ?thesis unfolding dominance_inv_def by blast
qed

lemma true_bits_row:
  assumes inv: "dominance_inv n entry preds bits"
    and i: "i < n" "i \<noteq> entry"
    and row: "length r = n" "\<forall>j < n. r ! j = next_bit preds bits i j" "bits ! i \<noteq> r"
  shows "card (true_bits n (bits[i := r])) < card (true_bits n bits)"
proof (rule psubset_card_mono [OF finite_true_bits])
  have sq: "length bits = n" "length (bits ! i) = n" using inv i by (auto simp: dominance_inv_def square_def)
  have post: "\<And>j. j < n \<Longrightarrow> r ! j \<Longrightarrow> bits ! i ! j"
    using inv i row(2) unfolding dominance_inv_def by blast
  have "bits ! k ! j" if "k < n" "j < n" "bits[i := r] ! k ! j" for k j
    using that post sq by (cases "k = i") (auto simp: nth_list_update)
  then have "true_bits n (bits[i := r]) \<subseteq> true_bits n bits" by (auto simp: true_bits_def)
  moreover obtain j where "j < n" "r ! j \<noteq> bits ! i ! j"
    using row(1,3) sq nth_equalityI [of r "bits ! i"] by metis
  then have "(i, j) \<in> true_bits n bits - true_bits n (bits[i := r])"
    using post sq i by (auto simp: true_bits_def)
  ultimately show "true_bits n (bits[i := r]) \<subset> true_bits n bits" by blast
qed

subsection \<open>The sweep and the loop\<close>

lemma sweep_result:
  assumes "sweep charge n entry preds is bits changed s = Inr (bits', changed', s')"
    and "dominance_inv n entry preds bits" "preds_ok n preds" "set is \<subseteq> {..<n}"
  shows "dominance_inv n entry preds bits' \<and>
    card (true_bits n bits') \<le> card (true_bits n bits) \<and>
    (changed' \<longrightarrow> changed \<or> card (true_bits n bits') < card (true_bits n bits)) \<and>
    (\<not> changed' \<longrightarrow> \<not> changed \<and> bits' = bits \<and>
       (\<forall>i \<in> set is. \<forall>j < n. i \<noteq> entry \<longrightarrow> bits ! i ! j = next_bit preds bits i j))"
  using assms(1,2,4)
proof (induction "is" arbitrary: bits changed s)
  case (Cons i "is")
  from Cons.prems(3) have i: "i < n" "set is \<subseteq> {..<n}" by auto
  from Cons.prems(1) obtain s1 where c: "charge n s = Inr s1"
    by (auto simp: bind_charge_def split: sum.splits)
  show ?case
  proof (cases "i = entry")
    case True
    with Cons.prems(1) c have "sweep charge n entry preds is bits changed s1 = Inr (bits', changed', s')"
      by (simp add: bind_charge_def)
    from Cons.IH [OF this Cons.prems(2) i(2)] True show ?thesis by simp
  next
    case False
    with Cons.prems(1) c obtain r s2 where
      m: "meet_predecessors charge bits n (tl (preds ! i)) (first_row bits n (preds ! i)) s1 = Inr (r, s2)"
      and rest: "(if bits ! i \<noteq> r[i := True] then sweep charge n entry preds is (bits[i := r[i := True]]) True s2
          else sweep charge n entry preds is bits changed s2) = Inr (bits', changed', s')"
      by (auto simp: bind_charge_def Let_def split: sum.splits)
    have "square n bits" using Cons.prems(2) by (simp add: dominance_inv_def)
    from next_row [OF m this assms(3) i(1)]
    have row: "length (r[i := True]) = n" "\<forall>j < n. r[i := True] ! j = next_bit preds bits i j" by simp_all
    show ?thesis
    proof (cases "bits ! i = r[i := True]")
      case True
      with rest have "sweep charge n entry preds is bits changed s2 = Inr (bits', changed', s')" by simp
      from Cons.IH [OF this Cons.prems(2) i(2)] True row(2) show ?thesis by simp
    next
      case changes: False
      with rest have "sweep charge n entry preds is (bits[i := r[i := True]]) True s2 = Inr (bits', changed', s')" by simp
      from Cons.IH [OF this dominance_inv_row [OF Cons.prems(2) assms(3) i(1) False row] i(2)]
        true_bits_row [OF Cons.prems(2) i(1) False row changes]
      show ?thesis by auto
    qed
  qed
qed auto

definition unfailing :: "('e, 's) charge \<Rightarrow> bool" where
  "unfailing charge \<longleftrightarrow> (\<forall>units s. \<exists>s'. charge units s = Inr s')"

lemma meet_predecessors_unfailing:
  "unfailing charge \<Longrightarrow> \<exists>r. meet_predecessors charge bits n ps row s = Inr r"
proof (induction ps arbitrary: row s)
  case (Cons p ps)
  from Cons.prems obtain s' where "charge n s = Inr s'" unfolding unfailing_def by blast
  with Cons.IH [OF Cons.prems] show ?case by (simp add: bind_charge_def)
qed simp

lemma sweep_unfailing:
  "unfailing charge \<Longrightarrow> \<exists>r. sweep charge n entry preds is bits changed s = Inr r"
proof (induction "is" arbitrary: bits changed s)
  case (Cons i "is")
  from Cons.prems obtain s' where c: "charge n s = Inr s'" unfolding unfailing_def by blast
  obtain r where "meet_predecessors charge bits n (tl (preds ! i)) (first_row bits n (preds ! i)) s' = Inr r"
    using meet_predecessors_unfailing [OF Cons.prems] by blast
  with c Cons.IH [OF Cons.prems] show ?case
    by (cases r) (simp add: bind_charge_def Let_def)
qed simp

text \<open>The loop ends, whatever is charged: each round that changes the matrix clears a bit.\<close>

lemma dominance_loop_ends:
  assumes "dominance_inv n entry preds bits" "preds_ok n preds"
  shows "\<exists>r. dominance_loop charge n entry preds bits s = Some r \<and>
    (case r of Inl _ \<Rightarrow> \<not> unfailing charge
     | Inr (bits', _) \<Rightarrow> dominance_inv n entry preds bits' \<and> dominance_fix n entry preds bits')"
  using assms(1)
proof (induction "card (true_bits n bits)" arbitrary: bits s rule: less_induct)
  case less
  show ?case
  proof (cases "sweep charge n entry preds [0..<n] bits False s")
    case (Inl e)
    then have "\<not> unfailing charge" using sweep_unfailing by (metis sum.distinct(1))
    with Inl show ?thesis by (subst dominance_loop.simps) simp
  next
    case (Inr res)
    obtain bits' changed s' where res: "res = (bits', changed, s')" by (cases res)
    have *: "sweep charge n entry preds [0..<n] bits False s = Inr (bits', changed, s')"
      using Inr res by simp
    have "set [0..<n] \<subseteq> {..<n}" by auto
    note r = sweep_result [OF * less.prems assms(2) this]
    show ?thesis
    proof (cases changed)
      case True
      with r have "card (true_bits n bits') < card (true_bits n bits)" "dominance_inv n entry preds bits'"
        by simp_all
      from less.hyps [OF this] show ?thesis using * True by (subst dominance_loop.simps) simp
    next
      case False
      with r have "dominance_fix n entry preds bits" by (simp add: dominance_fix_def)
      with False r less.prems * show ?thesis by (subst dominance_loop.simps) simp
    qed
  qed
qed

lemma initial_bits_inv:
  assumes "entry < n" "preds_ok n preds"
  shows "dominance_inv n entry preds (initial_bits n entry preds)"
proof -
  have nth: "initial_bits n entry preds ! i ! j = (if i = entry \<or> preds ! i = [] then j = i else True)"
    if "i < n" "j < n" for i j
    using that by (simp add: initial_bits_def nth_list_update)
  moreover have "square n (initial_bits n entry preds)" by (simp add: square_def initial_bits_def)
  moreover have "j = i" if "i \<noteq> entry" "preds ! i = []" "next_bit preds b i j" for b i j
    using that by (simp add: next_bit_def)
  ultimately show ?thesis
    unfolding dominance_inv_def using row_dom_root by auto
qed

text \<open>Where the loop ends the matrix is dominance.\<close>

lemma fixpoint_is_dominance:
  assumes inv: "dominance_inv n entry preds bits" and "fix": "dominance_fix n entry preds bits"
    and ok: "preds_ok n preds" and ij: "i < n" "j < n"
  shows "bits ! i ! j = row_dom n entry preds i j"
proof
  assume bit: "bits ! i ! j"
  have "row_path n entry preds p \<Longrightarrow> bits ! hd p ! j \<Longrightarrow> j \<in> set p" for p
  proof (induction rule: row_path.induct)
    case (start r)
    with inv ij(2) show ?case by (auto simp: dominance_inv_def)
  next
    case (step r p k)
    have "j = k \<or> bits ! r ! j"
    proof (cases "k = entry")
      case True
      with inv ij(2) step.hyps(2) step.prems show ?thesis by (auto simp: dominance_inv_def)
    next
      case False
      with "fix" ij(2) step.hyps(2,3) step.prems show ?thesis by (auto simp: dominance_fix_def next_bit_def)
    qed
    with step.IH show ?case by auto
  qed
  with bit show "row_dom n entry preds i j" by (metis list.sel(1) row_dom_def)
next
  assume "row_dom n entry preds i j"
  with inv ij show "bits ! i ! j" by (simp add: dominance_inv_def)
qed

section \<open>Blocks and their indices\<close>

definition sorted_ids :: "kir_function \<Rightarrow> block_id list" where
  "sorted_ids f = sort (map kb_id (kf_blocks f))"

definition distinct_blocks :: "kir_function \<Rightarrow> bool" where
  "distinct_blocks f \<longleftrightarrow> distinct (map kb_id (kf_blocks f))"

lemma sorted_ids: "set (sorted_ids f) = block_ids f" "length (sorted_ids f) = length (kf_blocks f)"
  by (simp_all add: sorted_ids_def block_ids_def)

lemma distinct_sorted_ids: "distinct_blocks f \<Longrightarrow> distinct (sorted_ids f)"
  by (simp add: distinct_blocks_def sorted_ids_def)

lemma bt_get_collect_nth:
  assumes "distinct ids"
  shows "bt_get (bt_collect (map (\<lambda>i. (ids ! i, g i)) [0..<length ids])) k = Some v \<longleftrightarrow>
    (\<exists>i < length ids. ids ! i = k \<and> v = g i)"
proof -
  have m: "map fst (map (\<lambda>i. (ids ! i, g i)) [0..<length ids]) = ids"
    by (simp add: o_def map_nth)
  then have "distinct (map fst (map (\<lambda>i. (ids ! i, g i)) [0..<length ids]))" using assms by simp
  from bt_map_of_rev [OF this] map_of_eq_Some_iff [OF this]
  show ?thesis by (auto simp: bt_get_collect image_iff)
qed

lemma block_indices_get:
  "distinct ids \<Longrightarrow> bt_get (block_indices ids) k = Some i \<longleftrightarrow> i < length ids \<and> ids ! i = k"
  unfolding block_indices_def using bt_get_collect_nth [where g = "\<lambda>i. i"] by auto

lemma block_index_of:
  assumes "distinct ids" "i < length ids"
  shows "the (bt_get (block_indices ids) (ids ! i)) = i"
  using block_indices_get [OF assms(1), of "ids ! i" i] assms(2) by simp

subsection \<open>Predecessors\<close>

lemma length_fold_add_predecessor [simp]:
  "length (fold (add_predecessor indices src) succs preds) = length preds"
  by (induction succs arbitrary: preds) (simp_all add: add_predecessor_def split: option.split)

lemma fold_add_predecessor:
  assumes "distinct ids" "length preds = length ids" "t < length ids"
  shows "set (fold (add_predecessor (block_indices ids) src) succs preds ! t) =
      set (preds ! t) \<union> (if ids ! t \<in> set succs then {src} else {})"
  using assms(2)
proof (induction succs arbitrary: preds)
  case (Cons x xs)
  let ?p = "add_predecessor (block_indices ids) src x preds"
  have "length ?p = length ids" using Cons.prems by (simp add: add_predecessor_def split: option.split)
  moreover have "set (?p ! t) = set (preds ! t) \<union> (if ids ! t = x then {src} else {})"
  proof (cases "bt_get (block_indices ids) x")
    case None
    with assms(3) block_indices_get [OF assms(1), of "ids ! t" t] have "ids ! t \<noteq> x" by auto
    with None show ?thesis by (simp add: add_predecessor_def)
  next
    case (Some k)
    with block_indices_get [OF assms(1)] have "k < length ids" "ids ! k = x" by auto
    with Some Cons.prems assms(1,3) show ?thesis
      by (auto simp: add_predecessor_def nth_list_update nth_eq_iff_index_eq)
  qed
  ultimately show ?case using Cons.IH [of ?p] by auto
qed simp

lemma collect_predecessors_result:
  assumes "collect_predecessors charge (block_indices ids) bs preds s = Inr (preds', s')"
    and "distinct ids" "length preds = length ids"
  shows "length preds' = length ids \<and> (\<forall>t < length ids. set (preds' ! t) =
    set (preds ! t) \<union> {the (bt_get (block_indices ids) (kb_id b)) |b.
      b \<in> set bs \<and> ids ! t \<in> set (terminator_successors (kb_terminator b))})"
  using assms(1,3)
proof (induction bs arbitrary: preds s)
  case (Cons b bs)
  let ?src = "the (bt_get (block_indices ids) (kb_id b))"
  let ?p = "fold (add_predecessor (block_indices ids) ?src) (terminator_successors (kb_terminator b)) preds"
  from Cons.prems(1) obtain s1 where
    "collect_predecessors charge (block_indices ids) bs ?p s1 = Inr (preds', s')"
    by (auto simp: bind_charge_def split: sum.splits)
  note IH = Cons.IH [OF this]
  have len: "length ?p = length ids"
    using Cons.prems(2) by simp
  show ?case
  proof (intro conjI allI impI)
    show "length preds' = length ids" using IH [OF len] by simp
    fix t
    assume t: "t < length ids"
    show "set (preds' ! t) = set (preds ! t) \<union> {the (bt_get (block_indices ids) (kb_id a)) |a.
      a \<in> set (b # bs) \<and> ids ! t \<in> set (terminator_successors (kb_terminator a))}"
      using IH [OF len] t fold_add_predecessor [OF assms(2) Cons.prems(2) t] by auto
  qed
qed simp

lemma collect_predecessors_unfailing:
  "unfailing charge \<Longrightarrow> \<exists>r. collect_predecessors charge indices bs preds s = Inr r"
proof (induction bs arbitrary: preds s)
  case (Cons b bs)
  from Cons.prems obtain s' where "charge 1 s = Inr s'" unfolding unfailing_def by blast
  with Cons.IH [OF Cons.prems] show ?case by (simp add: bind_charge_def)
qed simp

definition preds_of :: "kir_function \<Rightarrow> nat list list \<Rightarrow> bool" where
  "preds_of f preds \<longleftrightarrow> length preds = length (sorted_ids f) \<and>
     (\<forall>t < length (sorted_ids f). \<forall>i. i \<in> set (preds ! t) \<longleftrightarrow>
        i < length (sorted_ids f) \<and> cfg_edge f (sorted_ids f ! i) (sorted_ids f ! t))"

lemma collected_preds_of:
  assumes "distinct_blocks f"
    and "collect_predecessors charge (block_indices (sorted_ids f)) (kf_blocks f)
      (replicate (length (sorted_ids f)) []) s = Inr (preds, s')"
  shows "preds_of f preds"
proof -
  let ?ids = "sorted_ids f"
  note d = distinct_sorted_ids [OF assms(1)]
  have r: "length preds = length ?ids \<and> (\<forall>t < length ?ids. set (preds ! t) =
    {the (bt_get (block_indices ?ids) (kb_id b)) |b.
      b \<in> set (kf_blocks f) \<and> ?ids ! t \<in> set (terminator_successors (kb_terminator b))})"
    using collect_predecessors_result [OF assms(2) d] by simp
  have "i \<in> set (preds ! t) \<longleftrightarrow> i < length ?ids \<and> cfg_edge f (?ids ! i) (?ids ! t)" if t: "t < length ?ids" for t i
  proof
    assume "i \<in> set (preds ! t)"
    with r t obtain b where b: "b \<in> set (kf_blocks f)" "?ids ! t \<in> set (terminator_successors (kb_terminator b))"
      "i = the (bt_get (block_indices ?ids) (kb_id b))" by auto
    from b(1) sorted_ids(1) [of f] have "kb_id b \<in> set ?ids" by (simp add: block_ids_def)
    then obtain k where k: "k < length ?ids" "kb_id b = ?ids ! k" by (metis in_set_conv_nth)
    with b block_index_of [OF d] have "i = k" by simp
    moreover have "?ids ! t \<in> block_ids f" using t sorted_ids(1) nth_mem by blast
    ultimately show "i < length ?ids \<and> cfg_edge f (?ids ! i) (?ids ! t)"
      using k b by (auto simp: cfg_edge_def)
  next
    assume *: "i < length ?ids \<and> cfg_edge f (?ids ! i) (?ids ! t)"
    then obtain b where "b \<in> set (kf_blocks f)" "kb_id b = ?ids ! i"
      "?ids ! t \<in> set (terminator_successors (kb_terminator b))" by (auto simp: cfg_edge_def)
    moreover from this(2) * block_index_of [OF d] have "i = the (bt_get (block_indices ?ids) (kb_id b))" by simp
    ultimately show "i \<in> set (preds ! t)" using r t by auto
  qed
  with r show ?thesis by (simp add: preds_of_def)
qed

section \<open>The dominators\<close>

lemma preds_ofD:
  "preds_of f preds \<Longrightarrow> t < length (sorted_ids f) \<Longrightarrow>
   i \<in> set (preds ! t) \<longleftrightarrow> i < length (sorted_ids f) \<and> cfg_edge f (sorted_ids f ! i) (sorted_ids f ! t)"
  by (simp add: preds_of_def)

lemma path_of_rows:
  assumes pre: "preds_of f preds" and e: "e < length (sorted_ids f)" "sorted_ids f ! e = kb_id (hd (kf_blocks f))"
  shows "row_path (length (sorted_ids f)) e preds q \<Longrightarrow>
    cfg_path f (map ((!) (sorted_ids f)) q) \<and> (\<forall>i \<in> set q. i < length (sorted_ids f))"
proof (induction rule: row_path.induct)
  case (start i)
  have "cfg_root f (sorted_ids f ! i)"
  proof (cases "i = e")
    case True
    with e show ?thesis using sorted_ids(1) nth_mem by (fastforce simp: cfg_root_def)
  next
    case False
    with start pre have "\<not> cfg_edge f a (sorted_ids f ! i)" for a
    proof -
      have "a \<in> set (sorted_ids f)" if "cfg_edge f a b" for b
        using that unfolding sorted_ids(1) cfg_edge_def block_ids_def by blast
      then show ?thesis using False start pre unfolding preds_of_def in_set_conv_nth
        by (metis (no_types, lifting) empty_iff empty_set in_set_conv_nth)
    qed
    with start sorted_ids(1) [of f] show ?thesis using nth_mem by (fastforce simp: cfg_root_def)
  qed
  with start show ?case by (simp add: cfg_path.start)
next
  case (step i p k)
  with pre have "cfg_edge f (sorted_ids f ! i) (sorted_ids f ! k)" by (simp add: preds_of_def)
  with step show ?case by (simp add: cfg_path.step)
qed

lemma rows_of_path:
  assumes pre: "preds_of f preds" and e: "e < length (sorted_ids f)" "sorted_ids f ! e = kb_id (hd (kf_blocks f))"
  shows "cfg_path f p \<Longrightarrow> \<exists>q. row_path (length (sorted_ids f)) e preds q \<and> p = map ((!) (sorted_ids f)) q"
proof (induction rule: cfg_path.induct)
  case (start r)
  then consider "r = sorted_ids f ! e" | "\<forall>a. \<not> cfg_edge f a r"
    unfolding cfg_root_def e(2) by blast
  then show ?case
  proof cases
    case 1
    moreover have "row_path (length (sorted_ids f)) e preds [e]" using e(1) by (simp add: row_path.start)
    ultimately show ?thesis by (intro exI [of _ "[e]"]) simp
  next
    case 2
    from start have "r \<in> set (sorted_ids f)" unfolding cfg_root_def sorted_ids(1) by blast
    then obtain i where i: "i < length (sorted_ids f)" "r = sorted_ids f ! i" by (metis in_set_conv_nth)
    have "k \<notin> set (preds ! i)" for k using preds_ofD [OF pre i(1), of k] 2 [unfolded i(2)] by blast
    then have "preds ! i = []" by (cases "preds ! i") auto
    then have "row_path (length (sorted_ids f)) e preds [i]" using i(1) by (simp add: row_path.start)
    with i(2) show ?thesis by (intro exI [of _ "[i]"]) simp
  qed
next
  case (step a p b)
  from step.IH obtain q where q: "row_path (length (sorted_ids f)) e preds q" "a # p = map ((!) (sorted_ids f)) q"
    by (elim exE conjE) (rule that)
  from q(2) obtain i q' where i: "q = i # q'" "a = sorted_ids f ! i" by (cases q) simp_all
  from path_of_rows [OF pre e q(1)] i(1) have il: "i < length (sorted_ids f)" by simp
  from step.hyps(2) have "b \<in> set (sorted_ids f)" by (simp add: cfg_edge_def sorted_ids)
  then obtain k where k: "k < length (sorted_ids f)" "b = sorted_ids f ! k" by (metis in_set_conv_nth)
  have "i \<in> set (preds ! k)" using preds_ofD [OF pre k(1)] il step.hyps(2) unfolding i(2) k(2) by blast
  from row_path.step [OF q(1) [unfolded i(1)] k(1) this]
  have "row_path (length (sorted_ids f)) e preds (k # q)" unfolding i(1) .
  moreover have "b # a # p = map ((!) (sorted_ids f)) (k # q)" using q(2) k(2) by simp
  ultimately show ?case by (intro exI [of _ "k # q"] conjI)
qed

lemma row_dom_is_on_every_path:
  assumes d: "distinct_blocks f" and pre: "preds_of f preds"
    and e: "e < length (sorted_ids f)" "sorted_ids f ! e = kb_id (hd (kf_blocks f))"
    and ij: "i < length (sorted_ids f)" "j < length (sorted_ids f)"
  shows "row_dom (length (sorted_ids f)) e preds i j \<longleftrightarrow> on_every_path f (sorted_ids f ! j) (sorted_ids f ! i)"
proof -
  let ?ids = "sorted_ids f"
  have ids: "?ids ! i \<in> block_ids f" "?ids ! j \<in> block_ids f" using ij sorted_ids(1) nth_mem by blast+
  have inj: "k = l" if "?ids ! k = ?ids ! l" "k < length ?ids" "l < length ?ids" for k l
    using that distinct_sorted_ids [OF d] by (simp add: nth_eq_iff_index_eq)
  show ?thesis
  proof
    assume rd: "row_dom (length ?ids) e preds i j"
    have "?ids ! j \<in> set (?ids ! i # p)" if path: "cfg_path f (?ids ! i # p)" for p
    proof -
      obtain k q where q: "row_path (length ?ids) e preds (k # q)" "?ids ! i = ?ids ! k" "p = map ((!) ?ids) q"
        using rows_of_path [OF pre e path] by auto
      then have "k = i" using path_of_rows [OF pre e q(1)] inj ij by simp
      with rd q(1) have "j \<in> set (i # q)" by (simp add: row_dom_def)
      with q show ?thesis by auto
    qed
    with ids show "on_every_path f (?ids ! j) (?ids ! i)" by (simp add: on_every_path_def)
  next
    assume oe: "on_every_path f (?ids ! j) (?ids ! i)"
    have "j \<in> set (i # p)" if path: "row_path (length ?ids) e preds (i # p)" for p
    proof -
      note r = path_of_rows [OF pre e path]
      then have "cfg_path f (?ids ! i # map ((!) ?ids) p)" by simp
      with oe have "?ids ! j \<in> set (?ids ! i # map ((!) ?ids) p)" unfolding on_every_path_def by blast
      then obtain k where k: "k \<in> set (i # p)" "?ids ! j = ?ids ! k" by auto
      with r have "k < length ?ids" by blast
      with inj [OF k(2) ij(2)] k(1) show ?thesis by simp
    qed
    then show "row_dom (length ?ids) e preds i j" unfolding row_dom_def by blast
  qed
qed

text \<open>What a result says of a function.\<close>

definition is_dominators :: "kir_function \<Rightarrow> kir_dominators \<Rightarrow> bool" where
  "is_dominators f d \<longleftrightarrow>
     kd_entry d = (case kf_blocks f of [] \<Rightarrow> None | b # _ \<Rightarrow> Some (kb_id b)) \<and>
     (\<forall>a b. dominates d a b = on_every_path f a b)"

lemma dominates_sets:
  assumes "distinct ids"
  shows "dominates \<lparr>kd_entry = e, kd_sets = dominator_sets ids bits\<rparr> a b \<longleftrightarrow>
    (\<exists>i < length ids. \<exists>j < length ids. ids ! i = b \<and> ids ! j = a \<and> bits ! i ! j)"
proof -
  let ?row = "\<lambda>i. map ((!) ids) (filter (\<lambda>j. bits ! i ! j) [0..<length ids])"
  note get = bt_get_collect_nth [OF assms, of ?row b]
  have "dominates \<lparr>kd_entry = e, kd_sets = dominator_sets ids bits\<rparr> a b \<longleftrightarrow>
    (\<exists>v. bt_get (dominator_sets ids bits) b = Some v \<and> a \<in> set v)"
    by (simp add: dominates_def split: option.split)
  also have "\<dots> \<longleftrightarrow> (\<exists>i < length ids. ids ! i = b \<and> a \<in> set (?row i))"
    unfolding dominator_sets_def get by blast
  also have "\<dots> \<longleftrightarrow> (\<exists>i < length ids. \<exists>j < length ids. ids ! i = b \<and> ids ! j = a \<and> bits ! i ! j)"
    by auto
  finally show ?thesis .
qed

lemma matrix_is_dominators:
  assumes d: "distinct_blocks f" and Cons: "kf_blocks f = b # bs"
    and pre: "preds_of f preds" and ok: "preds_ok (length (sorted_ids f)) preds"
    and e: "e < length (sorted_ids f)" "sorted_ids f ! e = kb_id (hd (kf_blocks f))"
    and bits: "dominance_inv (length (sorted_ids f)) e preds bits" "dominance_fix (length (sorted_ids f)) e preds bits"
  shows "is_dominators f \<lparr>kd_entry = Some (kb_id b), kd_sets = dominator_sets (sorted_ids f) bits\<rparr>"
proof -
  let ?ids = "sorted_ids f" and ?n = "length (sorted_ids f)"
  note dist = distinct_sorted_ids [OF d]
  have bit: "bits ! i ! j \<longleftrightarrow> on_every_path f (?ids ! j) (?ids ! i)" if "i < ?n" "j < ?n" for i j
    using fixpoint_is_dominance [OF bits ok that] row_dom_is_on_every_path [OF d pre e that] by blast
  let ?d = "\<lparr>kd_entry = Some (kb_id b), kd_sets = dominator_sets ?ids bits\<rparr>"
  have "dominates ?d x y \<longleftrightarrow> on_every_path f x y" for x y
  proof
    assume "dominates ?d x y"
    then show "on_every_path f x y" unfolding dominates_sets [OF dist] using bit by blast
  next
    assume o: "on_every_path f x y"
    then have "x \<in> set ?ids" "y \<in> set ?ids" by (simp_all add: on_every_path_def sorted_ids)
    then obtain i j where ij: "i < ?n" "?ids ! i = y" "j < ?n" "?ids ! j = x" by (metis in_set_conv_nth)
    with o have "bits ! i ! j" using bit [OF ij(1,3)] by simp
    with ij show "dominates ?d x y" unfolding dominates_sets [OF dist] by blast
  qed
  then show ?thesis by (simp add: is_dominators_def Cons)
qed

lemma collect_unfailing:
  assumes "unfailing charge"
  shows "\<exists>r. bind_charge (collect_predecessors charge indices bs preds s)
    (\<lambda>(preds, s). bind_charge (charge k s) (\<lambda>s. Inr (preds, s))) = Inr r"
proof -
  obtain preds' s1 where "collect_predecessors charge indices bs preds s = Inr (preds', s1)"
    using collect_predecessors_unfailing [OF assms] by (metis surj_pair)
  moreover obtain s2 where "charge k s1 = Inr s2" using assms unfolding unfailing_def by blast
  ultimately show ?thesis by (simp add: bind_charge_def)
qed

lemma collect_of_result:
  assumes "bind_charge m (\<lambda>(preds, s). bind_charge (charge k s) (\<lambda>s. Inr (preds, s))) = Inr (preds, s2)"
  obtains s1 where "m = Inr (preds, s1)"
  using assms by (auto simp: bind_charge_def split: sum.splits)

lemma compute_dominators_ends:
  assumes d: "distinct_blocks f"
  shows "\<exists>r. compute_dominators charge f s = Some r \<and>
    (case r of Inl _ \<Rightarrow> \<not> unfailing charge | Inr (doms, _) \<Rightarrow> is_dominators f doms)"
proof (cases "kf_blocks f")
  case Nil
  then have "block_ids f = {}" by (simp add: block_ids_def)
  with Nil show ?thesis
    by (simp add: compute_dominators_def is_dominators_def dominates_def on_every_path_def bt_get_def)
next
  case (Cons b bs)
  let ?ids = "sorted_ids f" and ?n = "length (sorted_ids f)"
  let ?ix = "block_indices ?ids"
  let ?e = "the (bt_get ?ix (kb_id b))"
  let ?collect = "bind_charge (collect_predecessors charge ?ix (kf_blocks f) (replicate ?n []) s)
    (\<lambda>(preds, s). bind_charge (charge (?n * ?n) s) (\<lambda>s. Inr (preds, s)))"
  let ?finish = "\<lambda>r. bind_charge r (\<lambda>(bits, s). bind_charge (charge (?n * ?n) s) (\<lambda>s.
    Inr (\<lparr>kd_entry = Some (kb_id b), kd_sets = dominator_sets ?ids bits\<rparr>, s)))"
  have unfold: "compute_dominators charge f s = (case ?collect of Inl e \<Rightarrow> Some (Inl e)
      | Inr (preds, s) \<Rightarrow> Option.bind (dominance_loop charge ?n ?e preds (initial_bits ?n ?e preds) s)
          (\<lambda>r. Some (?finish r)))"
    unfolding compute_dominators_def Let_def sorted_ids_def [symmetric] by (simp only: Cons list.case)
  note dist = distinct_sorted_ids [OF d]
  have "kb_id b \<in> set ?ids" using Cons by (simp add: sorted_ids block_ids_def)
  then obtain k where k: "k < ?n" "?ids ! k = kb_id b" by (metis in_set_conv_nth)
  with block_index_of [OF dist] have e: "?e < ?n" "?ids ! ?e = kb_id (hd (kf_blocks f))" using Cons by (metis list.sel(1))+
  show ?thesis
  proof (cases ?collect)
    case (Inl err)
    then have "\<not> unfailing charge" using collect_unfailing by (metis sum.distinct(1))
    with Inl show ?thesis unfolding unfold by simp
  next
    case (Inr res)
    obtain preds s2 where res: "?collect = Inr (preds, s2)" using Inr by (cases res) simp
    then obtain s1 where c: "collect_predecessors charge ?ix (kf_blocks f) (replicate ?n []) s = Inr (preds, s1)"
      by (rule collect_of_result)
    note pre = collected_preds_of [OF d c]
    have ok: "preds_ok ?n preds"
      using pre unfolding preds_of_def preds_ok_def by (metis in_set_conv_nth)
    from dominance_loop_ends [OF initial_bits_inv [OF e(1) ok] ok, of charge s2]
    obtain r where loop: "dominance_loop charge ?n ?e preds (initial_bits ?n ?e preds) s2 = Some r \<and>
      (case r of Inl _ \<Rightarrow> \<not> unfailing charge
       | Inr (bits, _) \<Rightarrow> dominance_inv ?n ?e preds bits \<and> dominance_fix ?n ?e preds bits)"
      by (elim exE)
    note r = loop [THEN conjunct1] and r_ok = loop [THEN conjunct2]
    have result: "compute_dominators charge f s = Some (?finish r)"
      unfolding unfold res sum.case prod.case r by (simp only: Option.bind.bind_lunit)
    show ?thesis
    proof (cases r)
      case (Inl err)
      with result r_ok show ?thesis by (simp add: bind_charge_def)
    next
      case (Inr pair)
      then obtain bits s3 where bits: "r = Inr (bits, s3)" by (cases pair) simp
      show ?thesis
      proof (cases "charge (?n * ?n) s3")
        case (Inl err)
        then have "\<not> unfailing charge" unfolding unfailing_def by (metis sum.distinct(1))
        with result bits Inl show ?thesis by (simp add: bind_charge_def)
      next
        case (Inr s4)
        from r_ok bits have "dominance_inv ?n ?e preds bits" "dominance_fix ?n ?e preds bits" by simp_all
        from matrix_is_dominators [OF d Cons pre ok e this]
        have "is_dominators f \<lparr>kd_entry = Some (kb_id b), kd_sets = dominator_sets ?ids bits\<rparr>" .
        with result bits Inr show ?thesis by (simp add: bind_charge_def)
      qed
    qed
  qed
qed

section \<open>The cache\<close>

lemma identity_terminator:
  "b \<in> set (terminator_successors t) \<longleftrightarrow> (case (case t of
       KirReturn _ _ _ \<Rightarrow> (None, None)
     | KirJump e \<Rightarrow> (Some (ke_target e), None)
     | KirBranch _ t e \<Rightarrow> (Some (ke_target t), Some (ke_target e))) of (x, y) \<Rightarrow> x = Some b \<or> y = Some b)"
  by (cases t) auto

lemma identity_block_ids: "block_ids f = fst ` set (cfg_identity f)"
  by (simp add: block_ids_def cfg_identity_def image_image)

lemma identity_edge:
  "cfg_edge f a b \<longleftrightarrow> b \<in> block_ids f \<and> (\<exists>x y. (a, x, y) \<in> set (cfg_identity f) \<and> (x = Some b \<or> y = Some b))"
proof -
  have "(\<exists>blk \<in> set (kf_blocks f). kb_id blk = a \<and> b \<in> set (terminator_successors (kb_terminator blk))) \<longleftrightarrow>
    (\<exists>x y. (a, x, y) \<in> set (cfg_identity f) \<and> (x = Some b \<or> y = Some b))"
    unfolding identity_terminator cfg_identity_def by (fastforce split: prod.splits)
  then show ?thesis by (simp add: cfg_edge_def)
qed

lemma identity_entry:
  assumes "cfg_identity f = cfg_identity g"
  shows "(case kf_blocks f of [] \<Rightarrow> None | b # _ \<Rightarrow> Some (kb_id b)) =
    (case kf_blocks g of [] \<Rightarrow> None | b # _ \<Rightarrow> Some (kb_id b))"
  using assms by (auto simp: cfg_identity_def split: list.splits)

lemma identity_root:
  assumes "cfg_identity f = cfg_identity g"
  shows "cfg_root f r \<longleftrightarrow> cfg_root g r"
proof (cases "kf_blocks f")
  case Nil
  with assms have "block_ids f = {}" "block_ids g = {}" by (simp_all add: identity_block_ids cfg_identity_def)
  then show ?thesis by (simp add: cfg_root_def)
next
  case (Cons b bs)
  then obtain c cs where "kf_blocks g = c # cs" "kb_id c = kb_id b"
    using identity_entry [OF assms] by (auto split: list.splits)
  with Cons assms show ?thesis by (simp add: cfg_root_def identity_block_ids identity_edge)
qed

lemma identity_path:
  assumes "cfg_identity f = cfg_identity g"
  shows "cfg_path f p \<Longrightarrow> cfg_path g p"
proof (induction rule: cfg_path.induct)
  case (start r)
  then show ?case using identity_root [OF assms] cfg_path.start by blast
next
  case (step a p b)
  then show ?case using assms cfg_path.step by (simp add: identity_edge identity_block_ids)
qed

lemma identity_is_dominators:
  assumes "cfg_identity f = cfg_identity g"
  shows "is_dominators f d \<longleftrightarrow> is_dominators g d"
proof -
  have "cfg_path f p \<longleftrightarrow> cfg_path g p" for p using identity_path [OF assms] identity_path [OF assms [symmetric]] by blast
  then have "on_every_path f = on_every_path g"
    using assms by (simp add: fun_eq_iff on_every_path_def identity_block_ids)
  then show ?thesis using identity_entry [OF assms] by (simp add: is_dominators_def)
qed

text \<open>Every result in the cache is right for every function of its shape.\<close>

definition cache_sound :: "dominance_cache \<Rightarrow> bool" where
  "cache_sound cache \<longleftrightarrow> length cache \<le> cache_capacity \<and>
     (\<forall>c \<in> set cache. \<forall>f. distinct_blocks f \<longrightarrow> cfg_identity f = cd_identity c \<longrightarrow> is_dominators f (cd_result c))"

lemma take_cached_Some:
  "take_cached identity cache = Some (hit, rest) \<Longrightarrow>
   cd_identity hit = identity \<and> set cache = insert hit (set rest) \<and> length cache = Suc (length rest)"
  by (induction cache arbitrary: rest) (auto split: if_splits)

lemma lookup_cached_Some:
  assumes "lookup_cached identity cache = Some (hit, cache')" "cache_sound cache"
  shows "cd_identity hit = identity \<and> hit \<in> set cache \<and> cache_sound cache'"
proof -
  from assms(1) obtain rest where "take_cached identity cache = Some (hit, rest)" "cache' = hit # rest"
    by (auto simp: lookup_cached_def)
  with take_cached_Some [OF this(1)] assms(2) show ?thesis by (simp add: cache_sound_def)
qed

lemma cache_sound_insert:
  assumes "cache_sound cache" "is_dominators f d" "distinct_blocks f"
  shows "cache_sound (cache_dominators \<lparr>cd_identity = cfg_identity f, cd_result = d, cd_budget_units = u\<rparr> cache)"
proof -
  let ?c = "\<lparr>cd_identity = cfg_identity f, cd_result = d, cd_budget_units = u\<rparr>"
  have "set (cache_dominators ?c cache) \<subseteq> insert ?c (set cache)"
    unfolding cache_dominators_def using set_take_subset [of cache_capacity "?c # cache"] by simp
  moreover have "length (cache_dominators ?c cache) \<le> cache_capacity" by (simp add: cache_dominators_def)
  moreover have "is_dominators g d" if "cfg_identity g = cfg_identity f" for g
    using identity_is_dominators [OF that] assms(2) by simp
  ultimately show ?thesis using assms(1) unfolding cache_sound_def by auto
qed

lemma count_units_unfailing: "unfailing count_units"
  by (simp add: unfailing_def count_units_def)

end
