(* ===== verification/Kir_Properties.thy ===== *)
theory Kir_Properties
  imports Kir_Dominance_Sound
begin

text \<open>The dominators of \<^verbatim>\<open>src/src/ir/kir/dominance.rs\<close>, with and without a budget, through the cache.\<close>

lemma compute_kir_dominators_sound:
  assumes "distinct_blocks f" "cache_sound cache"
  shows "\<exists>d cache'. compute_kir_dominators f cache = Some (d, cache') \<and> cache_sound cache' \<and> is_dominators f d"
proof (cases "lookup_cached (cfg_identity f) cache")
  case None
  obtain r where r: "compute_dominators count_units f 0 = Some r \<and>
      (case r of Inl _ \<Rightarrow> \<not> unfailing count_units | Inr (doms, _) \<Rightarrow> is_dominators f doms)"
    using compute_dominators_ends [OF assms(1), of count_units 0] by (elim exE)
  then obtain d units where "r = Inr (d, units)" "is_dominators f d"
    using count_units_unfailing by (cases r) (auto split: prod.splits)
  with r None cache_sound_insert [OF assms(2) this(2) assms(1)] show ?thesis
    by (simp add: compute_kir_dominators_def)
next
  case (Some p)
  then obtain hit cache' where p: "lookup_cached (cfg_identity f) cache = Some (hit, cache')" by (cases p) simp
  from lookup_cached_Some [OF this assms(2)] assms
  have "cache_sound cache'" "is_dominators f (cd_result hit)" by (auto simp: cache_sound_def)
  with p show ?thesis by (simp add: compute_kir_dominators_def)
qed

lemma compute_kir_dominators_with_budget_sound:
  assumes "distinct_blocks f" "cache_sound cache"
  shows "\<exists>r left cache'. compute_kir_dominators_with_budget f remaining cache = Some (r, left, cache')
    \<and> cache_sound cache' \<and> (\<forall>d. r = Some d \<longrightarrow> is_dominators f d)"
proof (cases "lookup_cached (cfg_identity f) cache")
  case None
  obtain r where r: "compute_dominators spend_units f remaining = Some r \<and>
      (case r of Inl _ \<Rightarrow> \<not> unfailing spend_units | Inr (doms, _) \<Rightarrow> is_dominators f doms)"
    using compute_dominators_ends [OF assms(1), of spend_units remaining] by (elim exE)
  show ?thesis
  proof (cases r)
    case (Inl left)
    with r None assms(2) show ?thesis by (simp add: compute_kir_dominators_with_budget_def)
  next
    case (Inr p)
    then obtain d left where "r = Inr (d, left)" by (cases p) simp
    with r None cache_sound_insert [OF assms(2) _ assms(1), of d] show ?thesis
      by (simp add: compute_kir_dominators_with_budget_def)
  qed
next
  case (Some p)
  then obtain hit cache' where p: "lookup_cached (cfg_identity f) cache = Some (hit, cache')" by (cases p) simp
  from lookup_cached_Some [OF this assms(2)] assms
  have "cache_sound cache'" "is_dominators f (cd_result hit)" by (auto simp: cache_sound_def)
  with p show ?thesis by (simp add: compute_kir_dominators_with_budget_def)
qed

text \<open>
  C39. Dominance of the optimizer's blocks is dominance on paths: for a function with distinct
  block identifiers and a cache that holds right results the computation ends, leaves such a cache,
  and \<open>dominates d a b\<close> says that \<open>a\<close> and \<open>b\<close> are blocks and that \<open>a\<close> lies on every path to \<open>b\<close> from
  the entry or from a block without predecessors. A run on a budget ends as well, and what it
  returns, when the budget suffices, is dominance too.
\<close>

theorem kir_dominators_are_dominance:
  assumes "distinct (map kb_id (kf_blocks f))" "cache_sound cache"
  shows "(\<exists>d cache'. compute_kir_dominators f cache = Some (d, cache') \<and> cache_sound cache' \<and>
      (\<forall>a b. dominates d a b \<longleftrightarrow> a \<in> block_ids f \<and> b \<in> block_ids f \<and> (\<forall>p. cfg_path f (b # p) \<longrightarrow> a \<in> set (b # p)))) \<and>
    (\<exists>r left cache'. compute_kir_dominators_with_budget f remaining cache = Some (r, left, cache') \<and> cache_sound cache' \<and>
      (\<forall>d a b. r = Some d \<longrightarrow> (dominates d a b \<longleftrightarrow> on_every_path f a b)))"
proof -
  have d: "distinct_blocks f" using assms(1) by (simp add: distinct_blocks_def)
  have "\<forall>a b. dominates d a b \<longleftrightarrow> on_every_path f a b" if "is_dominators f d" for d
    using that by (simp add: is_dominators_def)
  with compute_kir_dominators_sound [OF d assms(2)] compute_kir_dominators_with_budget_sound [OF d assms(2), of remaining]
  show ?thesis unfolding on_every_path_def by blast
qed

section \<open>An example\<close>

definition example_edge :: "nat \<Rightarrow> kir_edge" where
  "example_edge b = \<lparr>ke_target = b, ke_args = [], ke_memory_args = []\<rparr>"

definition example_block :: "nat \<Rightarrow> kir_terminator \<Rightarrow> kir_block" where
  "example_block b t = \<lparr>kb_id = b, kb_label = [], kb_params = [], kb_memory_params = [], kb_instructions = [], kb_terminator = t\<rparr>"

text \<open>A diamond whose join jumps back to its branch.\<close>

definition example_diamond :: kir_function where
  "example_diamond = \<lparr>kf_id = 0, kf_name = [], kf_exported = False, kf_params = [], kf_return_type = MirVoid,
     kf_regions = [], kf_initial_memory = [], kf_vector_regions = [],
     kf_blocks = [example_block 7 (KirJump (example_edge 3)),
       example_block 3 (KirBranch 0 (example_edge 1) (example_edge 2)),
       example_block 1 (KirJump (example_edge 5)), example_block 2 (KirJump (example_edge 5)),
       example_block 5 (KirBranch 0 (example_edge 3) (example_edge 9)),
       example_block 9 (KirReturn None [] 0)]\<rparr>"

lemma example_simps [simp]:
  "ke_target (example_edge b) = b" "kb_id (example_block b t) = b" "kb_terminator (example_block b t) = t"
  by (simp_all add: example_edge_def example_block_def)

lemma cache_sound_Nil [simp]: "cache_sound []"
  by (simp add: cache_sound_def)

lemma example_path: "cfg_path example_diamond [5, 2, 3, 7]"
proof -
  have "cfg_path example_diamond [7]"
    by (rule cfg_path.start) (simp add: cfg_root_def block_ids_def example_diamond_def)
  moreover have "cfg_edge example_diamond 7 3" "cfg_edge example_diamond 3 2" "cfg_edge example_diamond 2 5"
    by (auto simp: cfg_edge_def block_ids_def example_diamond_def)
  ultimately show ?thesis by (intro cfg_path.step)
qed

theorem kir_dominators_are_dominance_witness:
  "\<exists>d cache'. compute_kir_dominators example_diamond [] = Some (d, cache') \<and> cache_sound cache' \<and>
     dominates d 5 5 \<and> \<not> dominates d 1 5"
proof -
  have "distinct (map kb_id (kf_blocks example_diamond))" by (simp add: example_diamond_def)
  note sound = kir_dominators_are_dominance [OF this cache_sound_Nil, THEN conjunct1]
  have "5 \<in> block_ids example_diamond" by (simp add: block_ids_def example_diamond_def)
  with sound show ?thesis using example_path by fastforce
qed

end
