(* ===== verification/Format.thy ===== *)
theory Format
  imports Parser
begin

text \<open>
  The source formatter, \<^verbatim>\<open>src/src/frontend/format.rs\<close>: the tokens and line comments of a text in
  order, written with fixed white space, and a check of the result against the source. The record
  \<open>formatter\<close> is the struct and each method a function on it. \<open>None\<close> is a run whose lexer does not
  return.
\<close>

section \<open>Comments\<close>

record line_comment =
  lc_start :: nat
  lc_text :: rstring
  lc_inline :: bool

definition line_break :: "rchar \<Rightarrow> bool" where
  "line_break c \<longleftrightarrow> c = 13 \<or> c = 10"

text \<open>\<open>line.find("//")\<close>: what is before the first pair of slashes, and the rest from it on.\<close>

fun find_slashes :: "rstring \<Rightarrow> (rstring \<times> rstring) option" where
  "find_slashes (a # b # s) =
     (if a = 47 \<and> b = 47 then Some ([], a # b # s)
      else map_option (\<lambda>(pre, rest). (a # pre, rest)) (find_slashes (b # s)))"
| "find_slashes _ = None"

definition comment_of_line :: "nat \<Rightarrow> rstring \<Rightarrow> line_comment list" where
  "comment_of_line line_start line =
     (case find_slashes line of
        None \<Rightarrow> []
      | Some (pre, comment) \<Rightarrow>
          [\<lparr>lc_start = line_start + utf8_len pre, lc_text = comment,
            lc_inline = (\<exists>c \<in> set pre. c \<noteq> 32 \<and> c \<noteq> 9)\<rparr>])"

lemma length_after_break: "dropWhile P rest = c # later \<Longrightarrow> length later < length rest"
  using length_dropWhile_le [of P rest] by simp

text \<open>The text from \<open>line_start\<close> on; a line break is CR, LF or CR LF.\<close>

function scan_comments_from :: "nat \<Rightarrow> rstring \<Rightarrow> line_comment list" where
  "scan_comments_from line_start rest =
     (if rest = [] then []
      else let line = takeWhile (\<lambda>c. \<not> line_break c) rest;
               after = dropWhile (\<lambda>c. \<not> line_break c) rest;
               line_end = line_start + utf8_len line
           in comment_of_line line_start line @
              (case after of
                 [] \<Rightarrow> []
               | c # d # later \<Rightarrow>
                   if c = 13 \<and> d = 10 then scan_comments_from (line_end + 2) later
                   else scan_comments_from (line_end + 1) (d # later)
               | [c] \<Rightarrow> []))"
  by pat_completeness auto
termination
  by (relation "measure (\<lambda>(_, rest). length rest)") (auto dest!: length_after_break [OF sym])

declare scan_comments_from.simps [simp del]

definition scan_line_comments :: "rstring \<Rightarrow> line_comment list" where
  "scan_line_comments source = scan_comments_from 0 source"

section \<open>Events\<close>

datatype format_event = EventToken token_kind rstring | EventComment rstring bool

definition offset_step :: "rchar \<Rightarrow> nat list \<times> nat \<times> nat \<Rightarrow> nat list \<times> nat \<times> nat" where
  "offset_step c = (\<lambda>(offsets, units, bytes).
     let offsets = offsets[units := bytes];
         width = len_utf16 c;
         offsets = (if width = 2 then offsets[units + 1 := bytes] else offsets);
         units = units + width
     in (offsets[units := bytes + len_utf8 c], units, bytes + len_utf8 c))"

definition utf16_byte_offsets :: "rstring \<Rightarrow> nat list" where
  "utf16_byte_offsets source =
     fst (fold offset_step source (replicate (utf16_len source + 1) (utf8_len source), 0, 0))"

definition positioned_token :: "rstring \<Rightarrow> nat list \<Rightarrow> token \<Rightarrow> (nat \<times> format_event) list" where
  "positioned_token source byte_offsets t =
     (if tk_kind t = TkEof then []
      else [(if tk_start t < length byte_offsets then byte_offsets ! tk_start t else utf8_len source,
             EventToken (tk_kind t) (tk_text t))])"

definition positioned_comment :: "line_comment \<Rightarrow> nat \<times> format_event" where
  "positioned_comment c = (lc_start c, EventComment (lc_text c) (lc_inline c))"

definition merge_events :: "rstring \<Rightarrow> token list \<Rightarrow> line_comment list \<Rightarrow> format_event list" where
  "merge_events source tokens comments =
     map snd (sort_key fst
       (concat (map (positioned_token source (utf16_byte_offsets source)) tokens) @ map positioned_comment comments))"

section \<open>The formatter\<close>

record formatter =
  fo_output :: rstring
  fo_line :: rstring
  fo_line_has_content :: bool
  fo_indent :: nat
  fo_generic_depth :: nat
  fo_previous :: "token_kind option"
  fo_pending_top_level_gap :: bool
  fo_indent_unit :: rstring

definition clamp :: "nat \<Rightarrow> nat \<Rightarrow> nat \<Rightarrow> nat" where
  "clamp n low high = max low (min n high)"

definition formatter_new :: "nat \<Rightarrow> bool \<Rightarrow> formatter" where
  "formatter_new tab_size insert_spaces =
     \<lparr>fo_output = [], fo_line = [], fo_line_has_content = False, fo_indent = 0, fo_generic_depth = 0,
      fo_previous = None, fo_pending_top_level_gap = False,
      fo_indent_unit = (if insert_spaces then replicate (clamp tab_size 1 16) 32 else [9])\<rparr>"

definition is_declaration_start :: "token_kind \<Rightarrow> bool" where
  "is_declaration_start kind \<longleftrightarrow> kind \<in> {TkStruct, TkExport, TkUnsafe, TkFn}"

definition is_word_kind :: "token_kind \<Rightarrow> bool" where
  "is_word_kind kind \<longleftrightarrow> kind \<notin>
     {TkEof, TkLeftParen, TkRightParen, TkLeftBrace, TkRightBrace, TkLeftBracket, TkRightBracket, TkComma,
      TkColon, TkSemicolon, TkDot, TkDotDot, TkArrow, TkPlus, TkMinus, TkStar, TkSlash, TkPercent, TkEqual,
      TkEqualEqual, TkBang, TkBangEqual, TkLess, TkLessEqual, TkGreater, TkGreaterEqual, TkAmpAmp, TkPipePipe}"

definition can_end_expression :: "token_kind \<Rightarrow> bool" where
  "can_end_expression kind \<longleftrightarrow>
     kind \<in> {TkIdentifier, TkInteger, TkFloat, TkTrue, TkFalse, TkRightParen, TkRightBracket}"

definition previous_is :: "(token_kind \<Rightarrow> bool) \<Rightarrow> formatter \<Rightarrow> bool" where
  "previous_is P f = (case fo_previous f of Some k \<Rightarrow> P k | None \<Rightarrow> False)"

definition ends_with :: "rstring \<Rightarrow> rstring \<Rightarrow> bool" where
  "ends_with s t \<longleftrightarrow> drop (length s - length t) s = t"

definition start_line_if_needed :: "formatter \<Rightarrow> formatter" where
  "start_line_if_needed f =
     (if fo_line_has_content f then f
      else f\<lparr>fo_line := concat (replicate (fo_indent f) (fo_indent_unit f))\<rparr>)"

definition fo_push :: "rstring \<Rightarrow> formatter \<Rightarrow> formatter" where
  "fo_push t f =
     (let f = start_line_if_needed f in f\<lparr>fo_line := fo_line f @ t, fo_line_has_content := True\<rparr>)"

definition space :: "formatter \<Rightarrow> formatter" where
  "space f =
     (if fo_line_has_content f \<and> \<not> ends_with (fo_line f) [32] then f\<lparr>fo_line := fo_line f @ [32]\<rparr> else f)"

definition trim_line_end_space :: "formatter \<Rightarrow> formatter" where
  "trim_line_end_space f = f\<lparr>fo_line := rev (dropWhile (\<lambda>c. c = 32) (rev (fo_line f)))\<rparr>"

definition flush_line :: "formatter \<Rightarrow> formatter" where
  "flush_line f =
     (if \<not> fo_line_has_content f then f\<lparr>fo_line := []\<rparr>
      else f\<lparr>fo_output := fo_output f @ fo_line f @ [10], fo_line := [], fo_line_has_content := False\<rparr>)"

definition ensure_blank_line :: "formatter \<Rightarrow> formatter" where
  "ensure_blank_line f =
     (let f = flush_line f in
      if fo_output f \<noteq> [] \<and> \<not> ends_with (fo_output f) [10, 10] then f\<lparr>fo_output := fo_output f @ [10]\<rparr> else f)"

definition is_generic_open :: "formatter \<Rightarrow> bool" where
  "is_generic_open f \<longleftrightarrow> 0 < fo_generic_depth f \<or> previous_is (\<lambda>k. k = TkPtr \<or> k = TkSlice) f"

definition write_spaced_operator :: "rstring \<Rightarrow> formatter \<Rightarrow> formatter" where
  "write_spaced_operator t f =
     (let f = trim_line_end_space f;
          f = (if fo_line_has_content f then space f else f)
      in space (fo_push t f))"

definition write_bang_or_minus :: "token_kind \<Rightarrow> rstring \<Rightarrow> formatter \<Rightarrow> formatter" where
  "write_bang_or_minus kind t f =
     (let is_prefix = \<not> previous_is can_end_expression f;
          f = (if is_prefix then fo_push t (if previous_is is_word_kind f then space f else f)
               else write_spaced_operator t f)
      in if kind = TkBang then trim_line_end_space f else f)"

definition write_word :: "token_kind \<Rightarrow> rstring \<Rightarrow> formatter \<Rightarrow> formatter" where
  "write_word kind t f =
     (let f = (if previous_is is_word_kind f \<or> kind = TkElse \<and> fo_previous f = Some TkRightBrace then space f else f);
          f = fo_push t f
      in if kind = TkPtr \<or> kind = TkSlice then trim_line_end_space f else f)"

definition write_right_brace :: "rstring \<Rightarrow> bool \<Rightarrow> bool \<Rightarrow> formatter \<Rightarrow> formatter" where
  "write_right_brace t inline_comment_follows else_follows f =
     (let f = flush_line f;
          f = fo_push t (f\<lparr>fo_indent := fo_indent f - 1\<rparr>);
          f = (if fo_indent f = 0 then f\<lparr>fo_pending_top_level_gap := True\<rparr> else f)
      in if \<not> inline_comment_follows \<and> \<not> else_follows then flush_line f else f)"

definition write_left_brace :: "rstring \<Rightarrow> bool \<Rightarrow> formatter \<Rightarrow> formatter" where
  "write_left_brace t inline_comment_follows f =
     (let f = fo_push t (if fo_line_has_content f then space f else f);
          f = f\<lparr>fo_indent := fo_indent f + 1\<rparr>
      in if \<not> inline_comment_follows then flush_line f else f)"

definition write_token :: "token_kind \<Rightarrow> rstring \<Rightarrow> bool \<Rightarrow> bool \<Rightarrow> formatter \<Rightarrow> formatter" where
  "write_token kind t inline_comment_follows else_follows f =
     (if kind = TkLeftBrace then write_left_brace t inline_comment_follows f
      else if kind = TkRightBrace then write_right_brace t inline_comment_follows else_follows f
      else if kind = TkContract then fo_push t (flush_line f)
      else if kind = TkSemicolon then
        (let f = fo_push t f in if \<not> inline_comment_follows then flush_line f else f)
      else if kind = TkComma then space (fo_push t f)
      else if kind = TkColon then space (fo_push t (trim_line_end_space f))
      else if kind = TkArrow then write_spaced_operator t f
      else if kind = TkDot \<or> kind = TkDotDot then fo_push t f
      else if kind = TkLeftParen then
        fo_push t (if previous_is (\<lambda>k. k = TkIf \<or> k = TkWhile \<or> k = TkReturn) f then space f else f)
      else if kind = TkRightParen \<or> kind = TkLeftBracket \<or> kind = TkRightBracket then
        fo_push t (trim_line_end_space f)
      else if kind = TkLess \<and> is_generic_open f then
        (let f = fo_push t (trim_line_end_space f) in f\<lparr>fo_generic_depth := fo_generic_depth f + 1\<rparr>)
      else if kind = TkGreater \<and> 0 < fo_generic_depth f then
        (let f = fo_push t (trim_line_end_space f) in f\<lparr>fo_generic_depth := fo_generic_depth f - 1\<rparr>)
      else if kind \<in> {TkEqual, TkEqualEqual, TkBangEqual, TkLess, TkLessEqual, TkGreater, TkGreaterEqual,
          TkAmpAmp, TkPipePipe, TkPlus, TkStar, TkSlash, TkPercent} then write_spaced_operator t f
      else if kind = TkBang \<or> kind = TkMinus then write_bang_or_minus kind t f
      else write_word kind t f)"

definition write_comment :: "rstring \<Rightarrow> bool \<Rightarrow> formatter \<Rightarrow> formatter" where
  "write_comment t inline_comment f =
     (if inline_comment then
        flush_line (fo_push t (if fo_line_has_content f then space f else f))
      else
        let f = flush_line f;
            f = (if fo_pending_top_level_gap f \<and> fo_indent f = 0
                 then (ensure_blank_line f)\<lparr>fo_pending_top_level_gap := False\<rparr> else f)
        in flush_line (fo_push t f))"

definition prepare_top_level_token :: "token_kind \<Rightarrow> formatter \<Rightarrow> formatter" where
  "prepare_top_level_token kind f =
     (if \<not> fo_pending_top_level_gap f then f
      else (if fo_indent f = 0 \<and> is_declaration_start kind then ensure_blank_line f else f)
             \<lparr>fo_pending_top_level_gap := False\<rparr>)"

fun format_events :: "format_event list \<Rightarrow> formatter \<Rightarrow> formatter" where
  "format_events [] f = f"
| "format_events (EventToken kind t # events) f =
     (let inline_comment_follows = (case events of EventComment _ True # _ \<Rightarrow> True | _ \<Rightarrow> False);
          else_follows = (case events of EventToken TkElse _ # _ \<Rightarrow> True | _ \<Rightarrow> False);
          f = write_token kind t inline_comment_follows else_follows (prepare_top_level_token kind f)
      in format_events events (f\<lparr>fo_previous := Some kind\<rparr>))"
| "format_events (EventComment t inline_comment # events) f = format_events events (write_comment t inline_comment f)"

definition formatter_format :: "format_event list \<Rightarrow> formatter \<Rightarrow> rstring" where
  "formatter_format events f = fo_output (flush_line (format_events events f))"

section \<open>Formatting a text\<close>

definition token_signature :: "rstring \<Rightarrow> (token_kind \<times> rstring) list option" where
  "token_signature source =
     map_option (\<lambda>r. map (\<lambda>t. (tk_kind t, tk_text t)) (filter (\<lambda>t. tk_kind t \<noteq> TkEof) (lr_tokens r)))
       (lex \<lparr>file_name = lit ''<format-check>.ck'', sf_text = source\<rparr>)"

definition comment_signature :: "rstring \<Rightarrow> rstring list" where
  "comment_signature source = map lc_text (scan_line_comments source)"

definition formatted_text :: "rstring \<Rightarrow> nat \<Rightarrow> bool \<Rightarrow> token list \<Rightarrow> rstring" where
  "formatted_text source tab_size insert_spaces tokens =
     formatter_format (merge_events source tokens (scan_line_comments source)) (formatter_new tab_size insert_spaces)"

definition format_source_with_options :: "rstring \<Rightarrow> nat \<Rightarrow> bool \<Rightarrow> rstring option" where
  "format_source_with_options source tab_size insert_spaces =
     (let source_file = \<lparr>file_name = lit ''<format>.ck'', sf_text = source\<rparr> in
      do {
        parsed \<leftarrow> parse source_file;
        if pr_diagnostics parsed \<noteq> [] then Some source
        else do {
          lexed \<leftarrow> lex source_file;
          if lr_diagnostics lexed \<noteq> [] then Some source
          else do {
            let formatted = formatted_text source tab_size insert_spaces (lr_tokens lexed);
            tokens_before \<leftarrow> token_signature source;
            tokens_after \<leftarrow> token_signature formatted;
            if tokens_before = tokens_after \<and> comment_signature source = comment_signature formatted
            then do {
              again \<leftarrow> parse \<lparr>file_name = lit ''<formatted>.ck'', sf_text = formatted\<rparr>;
              Some (if pr_diagnostics again = [] then formatted else source)
            }
            else Some source
          }
        }
      })"

definition format_source :: "rstring \<Rightarrow> rstring option" where
  "format_source source = format_source_with_options source 2 True"

end
