(* ===== verification/Format_Erasure.thy ===== *)
theory Format_Erasure
  imports Parser_Properties
begin

text \<open>
  Two texts with the same words, the kinds and texts of their tokens, have the same tree up to
  the spans of its nodes.
\<close>

section \<open>Trees without spans\<close>

definition blank_span :: source_span where
  "blank_span = \<lparr>span_start = \<lparr>pos_offset = 0, pos_line = 0, pos_column = 0\<rparr>,
     span_end = \<lparr>pos_offset = 0, pos_line = 0, pos_column = 0\<rparr>\<rparr>"

definition erase_ident :: "identifier_node \<Rightarrow> identifier_node" where
  "erase_ident i = i\<lparr>id_span := blank_span\<rparr>"

fun erase_type :: "type_node \<Rightarrow> type_node" where
  "erase_type (TypePrimitive n _) = TypePrimitive n blank_span"
| "erase_type (TypeVoid _) = TypeVoid blank_span"
| "erase_type (TypePointer t _) = TypePointer (erase_type t) blank_span"
| "erase_type (TypeSlice t _) = TypeSlice (erase_type t) blank_span"
| "erase_type (TypeNamed i _) = TypeNamed (erase_ident i) blank_span"
| "erase_type (TypeError _) = TypeError blank_span"

fun erase_expression :: "expression \<Rightarrow> expression" where
  "erase_expression (EIdentifier n _) = EIdentifier n blank_span"
| "erase_expression (EIntegerLiteral n _) = EIntegerLiteral n blank_span"
| "erase_expression (EFloatLiteral n _) = EFloatLiteral n blank_span"
| "erase_expression (EBoolLiteral b _) = EBoolLiteral b blank_span"
| "erase_expression (EUnary op e _) = EUnary op (erase_expression e) blank_span"
| "erase_expression (EBinary op l r _) = EBinary op (erase_expression l) (erase_expression r) blank_span"
| "erase_expression (ECall c args _) = ECall (erase_expression c) (map erase_expression args) blank_span"
| "erase_expression (ESliceConstructor d n _) = ESliceConstructor (erase_expression d) (erase_expression n) blank_span"
| "erase_expression (EField e f _) = EField (erase_expression e) (erase_ident f) blank_span"
| "erase_expression (EIndex e i _) = EIndex (erase_expression e) (erase_expression i) blank_span"
| "erase_expression (ESubslice e i j _) =
     ESubslice (erase_expression e) (erase_expression i) (erase_expression j) blank_span"
| "erase_expression (EParenthesized e _) = EParenthesized (erase_expression e) blank_span"
| "erase_expression (EError _) = EError blank_span"

fun erase_statement :: "statement \<Rightarrow> statement"
  and erase_block :: "block_statement \<Rightarrow> block_statement" where
  "erase_statement (StBlock b) = StBlock (erase_block b)"
| "erase_statement (StUnsafe b _) = StUnsafe (erase_block b) blank_span"
| "erase_statement (StLet i t e _) = StLet (erase_ident i) (erase_type t) (erase_expression e) blank_span"
| "erase_statement (StAssignment x e _) = StAssignment (erase_expression x) (erase_expression e) blank_span"
| "erase_statement (StCall e _) = StCall (erase_expression e) blank_span"
| "erase_statement (StReturn e _) = StReturn (map_option erase_expression e) blank_span"
| "erase_statement (StBreak _) = StBreak blank_span"
| "erase_statement (StContinue _) = StContinue blank_span"
| "erase_statement (StIf c b e _) = StIf (erase_expression c) (erase_block b) (map_option erase_block e) blank_span"
| "erase_statement (StWhile c b _) = StWhile (erase_expression c) (erase_block b) blank_span"
| "erase_statement (StError _) = StError blank_span"
| "erase_block (BlockStatement ss _) = BlockStatement (map erase_statement ss) blank_span"

definition erase_field :: "struct_field \<Rightarrow> struct_field" where
  "erase_field f = \<lparr>field_name = erase_ident (field_name f), field_type = erase_type (field_type f), field_span = blank_span\<rparr>"

definition erase_param :: "function_param \<Rightarrow> function_param" where
  "erase_param p = \<lparr>param_name = erase_ident (param_name p), param_type = erase_type (param_type p), param_span = blank_span\<rparr>"

definition erase_requirement :: "contract_requirement \<Rightarrow> contract_requirement" where
  "erase_requirement r =
     \<lparr>requirement_expression = erase_expression (requirement_expression r), requirement_span = blank_span\<rparr>"

definition erase_item :: "contract_effect_item \<Rightarrow> contract_effect_item" where
  "erase_item i = \<lparr>effect_kind = effect_kind i, effect_target = erase_ident (effect_target i), effect_span = blank_span\<rparr>"

definition erase_clause :: "contract_effect_clause \<Rightarrow> contract_effect_clause" where
  "erase_clause c = \<lparr>is_none = is_none c, effect_items = map erase_item (effect_items c), effect_clause_span = blank_span\<rparr>"

definition erase_contract :: "contract_declaration \<Rightarrow> contract_declaration" where
  "erase_contract c =
     \<lparr>requirements = map erase_requirement (requirements c),
      contract_effects = map_option erase_clause (contract_effects c), contract_span = blank_span\<rparr>"

fun erase_declaration :: "ast_declaration \<Rightarrow> ast_declaration" where
  "erase_declaration (DeclStruct s) = DeclStruct
     \<lparr>struct_name = erase_ident (struct_name s), struct_fields = map erase_field (struct_fields s), struct_span = blank_span\<rparr>"
| "erase_declaration (DeclFunction f) = DeclFunction
     \<lparr>exported = exported f, is_unsafe = is_unsafe f, fn_name = erase_ident (fn_name f),
      fn_params = map erase_param (fn_params f), return_type = erase_type (return_type f),
      fn_contract = map_option erase_contract (fn_contract f), fn_body = erase_block (fn_body f), fn_span = blank_span\<rparr>"

definition erase_program :: "program \<Rightarrow> program" where
  "erase_program p = \<lparr>declarations = map erase_declaration (declarations p), program_span = blank_span\<rparr>"

section \<open>Words\<close>

text \<open>A token without its place. Trees of such tokens are the same for the same words.\<close>

definition erase_token :: "token \<Rightarrow> token" where
  "erase_token t = \<lparr>tk_kind = tk_kind t, tk_text = tk_text t, tk_line = 0, tk_column = 0, tk_start = 0, tk_end = 0\<rparr>"

lemma erase_token_simps [simp]: "tk_kind (erase_token t) = tk_kind t" "tk_text (erase_token t) = tk_text t"
  by (simp_all add: erase_token_def)

lemma erase_ident_of [simp]: "erase_ident (ident_of t) = \<lparr>id_name = tk_text t, id_span = blank_span\<rparr>"
  by (simp add: erase_ident_def ident_of_def)

lemma is_call_erase [simp]: "is_call (erase_expression e) = is_call e"
  by (cases e) simp_all

lemma is_call_eq: "erase_expression e = erase_expression e' \<Longrightarrow> is_call e \<Longrightarrow> is_call e'"
  by (metis is_call_erase)

text \<open>\<open>gives_\<dots> ts E\<close>: the tokens are a phrase whose tree is \<open>E\<close> up to spans.\<close>

definition gives :: "(token list \<Rightarrow> 'a \<Rightarrow> bool) \<Rightarrow> ('a \<Rightarrow> 'b) \<Rightarrow> token list \<Rightarrow> 'b \<Rightarrow> bool" where
  "gives phrase erase ts E \<longleftrightarrow> (\<exists>x. phrase ts x \<and> erase x = E)"

abbreviation "gives_type \<equiv> gives type_tokens erase_type"
abbreviation "gives_expression p \<equiv> gives (expression_tokens p) erase_expression"
abbreviation "gives_unary \<equiv> gives unary_tokens erase_expression"
abbreviation "gives_postfix \<equiv> gives postfix_tokens erase_expression"
abbreviation "gives_arguments \<equiv> gives arguments_tokens (map erase_expression)"
abbreviation "gives_statement \<equiv> gives statement_tokens erase_statement"
abbreviation "gives_statements \<equiv> gives statements_tokens (map erase_statement)"
abbreviation "gives_block \<equiv> gives block_tokens erase_block"

subsection \<open>Types\<close>

lemma gives_type_leaf:
  "tk_kind t \<in> set primitive_kinds \<Longrightarrow> tk_text t = n \<Longrightarrow> gives_type [t] (TypePrimitive n blank_span)"
  "tk_kind t = TkVoid \<Longrightarrow> gives_type [t] (TypeVoid blank_span)"
  "tk_kind t = TkIdentifier \<Longrightarrow> tk_text t = n \<Longrightarrow> gives_type [t] (TypeNamed \<lparr>id_name = n, id_span = blank_span\<rparr> blank_span)"
  using type_primitive [of t] type_void [of t] type_named [of t] by (auto simp: gives_def)

lemma gives_type_args:
  "tk_kind p = TkPtr \<Longrightarrow> tk_kind l = TkLess \<Longrightarrow> gives_type ts E \<Longrightarrow> tk_kind g = TkGreater \<Longrightarrow>
   gives_type (p # l # ts @ [g]) (TypePointer E blank_span)"
  "tk_kind p = TkSlice \<Longrightarrow> tk_kind l = TkLess \<Longrightarrow> gives_type ts E \<Longrightarrow> tk_kind g = TkGreater \<Longrightarrow>
   gives_type (p # l # ts @ [g]) (TypeSlice E blank_span)"
  unfolding gives_def by (metis type_pointer erase_type.simps(3), metis type_slice erase_type.simps(4))

lemma erased_type: "type_tokens ts ty \<Longrightarrow> gives_type (map erase_token ts) (erase_type ty)"
  by (induction rule: type_tokens.induct) (simp_all add: gives_type_leaf gives_type_args)

subsection \<open>Expressions\<close>

lemma gives_expression_rules:
  "gives_unary ts E \<Longrightarrow> gives_expression p ts E"
  "gives_expression q ls L \<Longrightarrow> binary_precedence (tk_kind op) = q \<Longrightarrow> 0 < q \<Longrightarrow> p \<le> q \<Longrightarrow> gives_expression (q + 1) rs R \<Longrightarrow>
   gives_expression p (ls @ op # rs) (EBinary (tk_text op) L R blank_span)"
  unfolding gives_def by (metis expression_unary, metis expression_binary erase_expression.simps(6))

lemma gives_unary_rules:
  "tk_kind op \<in> {TkBang, TkMinus} \<Longrightarrow> gives_unary ts E \<Longrightarrow> gives_unary (op # ts) (EUnary (tk_text op) E blank_span)"
  "gives_postfix ts E \<Longrightarrow> gives_unary ts E"
  unfolding gives_def by (metis unary_prefix erase_expression.simps(5), metis unary_postfix)

lemma gives_primary_rules:
  "tk_kind t = TkInteger \<Longrightarrow> tk_text t = n \<Longrightarrow> gives_postfix [t] (EIntegerLiteral n blank_span)"
  "tk_kind t = TkFloat \<Longrightarrow> tk_text t = n \<Longrightarrow> gives_postfix [t] (EFloatLiteral n blank_span)"
  "tk_kind t \<in> {TkTrue, TkFalse} \<Longrightarrow> (tk_kind t = TkTrue) = b \<Longrightarrow> gives_postfix [t] (EBoolLiteral b blank_span)"
  "tk_kind t = TkIdentifier \<Longrightarrow> tk_text t = n \<Longrightarrow> gives_postfix [t] (EIdentifier n blank_span)"
  unfolding gives_def
  using primary_integer [of t] primary_float [of t] primary_bool [of t] primary_identifier [of t] by force+

lemma gives_enclosed_rules:
  "tk_kind s = TkSlice \<Longrightarrow> tk_kind lp = TkLeftParen \<Longrightarrow> gives_expression 1 ds D \<Longrightarrow> tk_kind c = TkComma \<Longrightarrow>
   gives_expression 1 ns N \<Longrightarrow> tk_kind rp = TkRightParen \<Longrightarrow>
   gives_postfix (s # lp # ds @ c # ns @ [rp]) (ESliceConstructor D N blank_span)"
  "tk_kind lp = TkLeftParen \<Longrightarrow> gives_expression 1 es E \<Longrightarrow> tk_kind rp = TkRightParen \<Longrightarrow>
   gives_postfix (lp # es @ [rp]) (EParenthesized E blank_span)"
  unfolding gives_def
  by (elim exE conjE, rule exI, rule conjI, rule primary_slice [OF _ _ _ _ _ _ refl], assumption+, simp)
    (elim exE conjE, rule exI, rule conjI, rule primary_parenthesized [OF _ _ _ refl], assumption+, simp)

lemma gives_postfix_rules:
  "gives_postfix cs C \<Longrightarrow> tk_kind lp = TkLeftParen \<Longrightarrow> gives_arguments as A \<Longrightarrow> tk_kind rp = TkRightParen \<Longrightarrow>
   gives_postfix (cs @ lp # as @ [rp]) (ECall C A blank_span)"
  "gives_postfix cs C \<Longrightarrow> tk_kind lp = TkLeftParen \<Longrightarrow> tk_kind rp = TkRightParen \<Longrightarrow>
   gives_postfix (cs @ [lp, rp]) (ECall C [] blank_span)"
  "gives_postfix os Ob \<Longrightarrow> tk_kind d = TkDot \<Longrightarrow> tk_kind f = TkIdentifier \<Longrightarrow> tk_text f = n \<Longrightarrow>
   gives_postfix (os @ [d, f]) (EField Ob \<lparr>id_name = n, id_span = blank_span\<rparr> blank_span)"
  "gives_postfix os Ob \<Longrightarrow> tk_kind lb = TkLeftBracket \<Longrightarrow> gives_expression 1 is I \<Longrightarrow> tk_kind rb = TkRightBracket \<Longrightarrow>
   gives_postfix (os @ lb # is @ [rb]) (EIndex Ob I blank_span)"
  "gives_postfix os Ob \<Longrightarrow> tk_kind lb = TkLeftBracket \<Longrightarrow> gives_expression 1 is I \<Longrightarrow> tk_kind dd = TkDotDot \<Longrightarrow>
   gives_expression 1 js J \<Longrightarrow> tk_kind rb = TkRightBracket \<Longrightarrow>
   gives_postfix (os @ lb # is @ dd # js @ [rb]) (ESubslice Ob I J blank_span)"
  unfolding gives_def
  by (elim exE conjE, rule exI, rule conjI, rule postfix_call [OF _ _ _ _ refl], assumption+, simp)
    (elim exE conjE, rule exI, rule conjI, rule postfix_call_empty [OF _ _ _ refl], assumption+, simp,
     elim exE conjE, rule exI, rule conjI, rule postfix_field [OF _ _ _ refl], assumption+, simp,
     elim exE conjE, rule exI, rule conjI, rule postfix_index [OF _ _ _ _ refl], assumption+, simp,
     elim exE conjE, rule exI, rule conjI, rule postfix_subslice [OF _ _ _ _ _ _ refl], assumption+, simp)

lemma gives_arguments_rules:
  "gives_expression 1 ts E \<Longrightarrow> gives_arguments ts [E]"
  "gives_expression 1 ts E \<Longrightarrow> tk_kind c = TkComma \<Longrightarrow> gives_arguments us Es \<Longrightarrow> gives_arguments (ts @ c # us) (E # Es)"
  unfolding gives_def by (metis arguments_last list.map, metis arguments_more list.map(2))

lemmas gives_expressions =
  gives_expression_rules(1) gives_unary_rules gives_primary_rules gives_enclosed_rules gives_postfix_rules gives_arguments_rules

lemma erased_expression:
  "expression_tokens p ts e \<Longrightarrow> gives_expression p (map erase_token ts) (erase_expression e)"
  "unary_tokens ts e \<Longrightarrow> gives_unary (map erase_token ts) (erase_expression e)"
  "postfix_tokens ts e \<Longrightarrow> gives_postfix (map erase_token ts) (erase_expression e)"
  "arguments_tokens ts es \<Longrightarrow> gives_arguments (map erase_token ts) (map erase_expression es)"
proof (induction rule: expression_tokens_unary_tokens_postfix_tokens_arguments_tokens.inducts)
  case (expression_binary q ls l op p rs r)
  then show ?case
    using gives_expression_rules(2) [of q "map erase_token ls" _ "erase_token op" p "map erase_token rs"] by simp
next
  case (unary_prefix op ts e)
  then show ?case using gives_unary_rules(1) [of "erase_token op"] by simp
qed (simp_all add: gives_expressions)

subsection \<open>Statements\<close>

lemma gives_statement_rules:
  "gives_block ts B \<Longrightarrow> gives_statement ts (StBlock B)"
  "tk_kind u = TkUnsafe \<Longrightarrow> gives_block bs B \<Longrightarrow> gives_statement (u # bs) (StUnsafe B blank_span)"
  "tk_kind l = TkLet \<Longrightarrow> tk_kind i = TkIdentifier \<Longrightarrow> tk_kind c = TkColon \<Longrightarrow> gives_type tys T \<Longrightarrow>
   tk_kind eq = TkEqual \<Longrightarrow> gives_expression 1 es E \<Longrightarrow> tk_kind s = TkSemicolon \<Longrightarrow> tk_text i = n \<Longrightarrow>
   gives_statement (l # i # c # tys @ eq # es @ [s]) (StLet \<lparr>id_name = n, id_span = blank_span\<rparr> T E blank_span)"
  "gives_expression 1 xs X \<Longrightarrow> tk_kind eq = TkEqual \<Longrightarrow> gives_expression 1 es E \<Longrightarrow> tk_kind s = TkSemicolon \<Longrightarrow>
   gives_statement (xs @ eq # es @ [s]) (StAssignment X E blank_span)"
  "tk_kind r = TkReturn \<Longrightarrow> tk_kind s = TkSemicolon \<Longrightarrow> gives_statement [r, s] (StReturn None blank_span)"
  "tk_kind r = TkReturn \<Longrightarrow> gives_expression 1 es E \<Longrightarrow> tk_kind s = TkSemicolon \<Longrightarrow>
   gives_statement (r # es @ [s]) (StReturn (Some E) blank_span)"
  "tk_kind b = TkBreak \<Longrightarrow> tk_kind s = TkSemicolon \<Longrightarrow> gives_statement [b, s] (StBreak blank_span)"
  "tk_kind c = TkContinue \<Longrightarrow> tk_kind s = TkSemicolon \<Longrightarrow> gives_statement [c, s] (StContinue blank_span)"
  unfolding gives_def
  by ((elim exE conjE)?, rule exI, rule conjI, rule statement_block, assumption+, simp)
    ((elim exE conjE)?, rule exI, rule conjI, rule statement_unsafe, assumption+, simp,
     (elim exE conjE)?, rule exI, rule conjI, rule statement_let [OF _ _ _ _ _ _ _ refl], assumption+, simp,
     (elim exE conjE)?, rule exI, rule conjI, rule statement_assignment [OF _ _ _ _ refl], assumption+, simp,
     (elim exE conjE)?, rule exI, rule conjI, rule statement_return, assumption+, simp,
     (elim exE conjE)?, rule exI, rule conjI, rule statement_return_value, assumption+, simp,
     (elim exE conjE)?, rule exI, rule conjI, rule statement_break, assumption+, simp,
     (elim exE conjE)?, rule exI, rule conjI, rule statement_continue, assumption+, simp)

lemma gives_control_rules:
  "tk_kind i = TkIf \<Longrightarrow> gives_expression 1 cs C \<Longrightarrow> gives_block bs B \<Longrightarrow>
   gives_statement (i # cs @ bs) (StIf C B None blank_span)"
  "tk_kind i = TkIf \<Longrightarrow> gives_expression 1 cs C \<Longrightarrow> gives_block bs B \<Longrightarrow> tk_kind el = TkElse \<Longrightarrow> gives_block es E \<Longrightarrow>
   gives_statement (i # cs @ bs @ el # es) (StIf C B (Some E) blank_span)"
  "tk_kind w = TkWhile \<Longrightarrow> gives_expression 1 cs C \<Longrightarrow> gives_block bs B \<Longrightarrow>
   gives_statement (w # cs @ bs) (StWhile C B blank_span)"
  unfolding gives_def
  by ((elim exE conjE)?, rule exI, rule conjI, rule statement_if [OF _ _ _ refl], assumption+, simp)
    ((elim exE conjE)?, rule exI, rule conjI, rule statement_if_else [OF _ _ _ _ _ refl], assumption+, simp,
     (elim exE conjE)?, rule exI, rule conjI, rule statement_while [OF _ _ _ refl], assumption+, simp)

lemma gives_call_statement:
  assumes "gives_expression 1 es (erase_expression e)" "is_call e" "tk_kind s = TkSemicolon"
  shows "gives_statement (es @ [s]) (StCall (erase_expression e) blank_span)"
proof -
  obtain e' where e': "expression_tokens 1 es e'" "erase_expression e' = erase_expression e"
    using assms(1) by (auto simp: gives_def)
  from statement_call [OF e'(1) is_call_eq [OF e'(2) [symmetric] assms(2)] assms(3)] e'(2)
  show ?thesis unfolding gives_def by (metis erase_statement.simps(5))
qed

lemma gives_statements_rules:
  "gives_statements [] []"
  "gives_statement ts S \<Longrightarrow> gives_statements us Ss \<Longrightarrow> gives_statements (ts @ us) (S # Ss)"
  "tk_kind lb = TkLeftBrace \<Longrightarrow> gives_statements ss Sts \<Longrightarrow> tk_kind rb = TkRightBrace \<Longrightarrow>
   gives_block (lb # ss @ [rb]) (BlockStatement Sts blank_span)"
  unfolding gives_def
  by (rule exI [of _ "[]"], simp add: statements_none)
    ((elim exE conjE)?, rule exI, rule conjI, rule statements_more, assumption+, simp,
     (elim exE conjE)?, rule exI, rule conjI, rule block_braces [OF _ _ _ refl], assumption+, simp)

lemma erased_statement:
  "statement_tokens ts s \<Longrightarrow> gives_statement (map erase_token ts) (erase_statement s)"
  "statements_tokens ts ss \<Longrightarrow> gives_statements (map erase_token ts) (map erase_statement ss)"
  "block_tokens ts b \<Longrightarrow> gives_block (map erase_token ts) (erase_block b)"
  by (induction rule: statement_tokens_statements_tokens_block_tokens.inducts)
    (simp_all add: gives_statement_rules gives_control_rules gives_call_statement gives_statements_rules
      erased_type erased_expression(1))

subsection \<open>Declarations\<close>

abbreviation "gives_fields \<equiv> gives struct_fields_tokens (map erase_field)"
abbreviation "gives_param \<equiv> gives param_tokens erase_param"
abbreviation "gives_params \<equiv> gives params_tokens (map erase_param)"
abbreviation "gives_item \<equiv> gives effect_item_tokens erase_item"
abbreviation "gives_items \<equiv> gives effect_items_tokens (map erase_item)"
abbreviation "gives_clause \<equiv> gives effect_clause_tokens erase_clause"
abbreviation "gives_clauses \<equiv> gives (\<lambda>ts (rs, eff). clauses_tokens ts rs eff)
  (\<lambda>(rs, eff). (map erase_requirement rs, map_option erase_clause eff))"
abbreviation "gives_contract \<equiv> gives contract_tokens erase_contract"
abbreviation "gives_declaration \<equiv> gives declaration_tokens erase_declaration"
abbreviation "gives_declarations \<equiv> gives declarations_tokens (map erase_declaration)"

lemma erased_fields: "struct_fields_tokens ts fs \<Longrightarrow> gives_fields (map erase_token ts) (map erase_field fs)"
proof (induction rule: struct_fields_tokens.induct)
  case (fields_more i c tys ty s ts us fs)
  obtain ty' fs' where "type_tokens (map erase_token tys) ty'" "erase_type ty' = erase_type ty"
    "struct_fields_tokens (map erase_token us) fs'" "map erase_field fs' = map erase_field fs"
    using fields_more.IH erased_type [OF fields_more.hyps(3)] by (auto simp: gives_def)
  with fields_more.hyps struct_fields_tokens.fields_more [of "erase_token i" "erase_token c" "map erase_token tys" ty'
      "erase_token s" _ "map erase_token us" fs', OF _ _ _ _ refl]
  show ?case unfolding gives_def by (fastforce simp: erase_field_def)
qed (auto simp: gives_def intro: struct_fields_tokens.intros)

lemma erased_param: "param_tokens ts p \<Longrightarrow> gives_param (map erase_token ts) (erase_param p)"
proof (induction rule: param_tokens.induct)
  case (param i c tys ty ts)
  obtain ty' where "type_tokens (map erase_token tys) ty'" "erase_type ty' = erase_type ty"
    using erased_type [OF param.hyps(3)] by (auto simp: gives_def)
  with param.hyps param_tokens.param [of "erase_token i" "erase_token c" "map erase_token tys" ty', OF _ _ _ refl]
  show ?case unfolding gives_def by (fastforce simp: erase_param_def)
qed

lemma gives_params_rules:
  "gives_param ts P \<Longrightarrow> gives_params ts [P]"
  "gives_param ts P \<Longrightarrow> tk_kind c = TkComma \<Longrightarrow> gives_params us Ps \<Longrightarrow> gives_params (ts @ c # us) (P # Ps)"
  "gives_item ts I \<Longrightarrow> gives_items ts [I]"
  "gives_item ts I \<Longrightarrow> tk_kind c = TkComma \<Longrightarrow> gives_items us Is \<Longrightarrow> gives_items (ts @ c # us) (I # Is)"
  unfolding gives_def
  by ((elim exE conjE)?, rule exI, rule conjI, rule params_last, assumption+, simp)
    ((elim exE conjE)?, rule exI, rule conjI, rule params_more, assumption+, simp,
     (elim exE conjE)?, rule exI, rule conjI, rule effects_last, assumption+, simp,
     (elim exE conjE)?, rule exI, rule conjI, rule effects_more, assumption+, simp)

lemma erased_params: "params_tokens ts ps \<Longrightarrow> gives_params (map erase_token ts) (map erase_param ps)"
  by (induction rule: params_tokens.induct) (simp_all add: gives_params_rules erased_param)

lemma erased_item: "effect_item_tokens ts x \<Longrightarrow> gives_item (map erase_token ts) (erase_item x)"
proof (induction rule: effect_item_tokens.induct)
  case (effect_item k kind lp i rp ts)
  with effect_item_tokens.effect_item [of "erase_token k" kind "erase_token lp" "erase_token i" "erase_token rp", OF _ _ _ _ _ refl]
  show ?case unfolding gives_def by (fastforce simp: erase_item_def)
qed

lemma erased_items: "effect_items_tokens ts xs \<Longrightarrow> gives_items (map erase_token ts) (map erase_item xs)"
  by (induction rule: effect_items_tokens.induct) (simp_all add: gives_params_rules erased_item)

lemma gives_clause_rules:
  "tk_kind e = TkEffects \<Longrightarrow> tk_kind n = TkNone \<Longrightarrow> tk_kind s = TkSemicolon \<Longrightarrow>
   gives_clause [e, n, s] \<lparr>is_none = True, effect_items = [], effect_clause_span = blank_span\<rparr>"
  "tk_kind e = TkEffects \<Longrightarrow> gives_items is Xs \<Longrightarrow> tk_kind s = TkSemicolon \<Longrightarrow>
   gives_clause (e # is @ [s]) \<lparr>is_none = False, effect_items = Xs, effect_clause_span = blank_span\<rparr>"
  unfolding gives_def
  by ((elim exE conjE)?, rule exI, rule conjI, rule effect_clause_tokens.effects_none [OF _ _ _ refl], assumption+, simp add: erase_clause_def)
    ((elim exE conjE)?, rule exI, rule conjI, rule effects_some [OF _ _ _ refl], assumption+, simp add: erase_clause_def)

lemma erase_clause_simp:
  "erase_clause \<lparr>is_none = b, effect_items = xs, effect_clause_span = sp\<rparr> =
   \<lparr>is_none = b, effect_items = map erase_item xs, effect_clause_span = blank_span\<rparr>"
  by (simp add: erase_clause_def)

lemma erased_clause: "effect_clause_tokens ts c \<Longrightarrow> gives_clause (map erase_token ts) (erase_clause c)"
  by (induction rule: effect_clause_tokens.induct)
    (simp_all add: gives_clause_rules erased_items erase_clause_simp)

lemma erase_requirement_simp:
  "erase_requirement \<lparr>requirement_expression = e, requirement_span = sp\<rparr> =
   \<lparr>requirement_expression = erase_expression e, requirement_span = blank_span\<rparr>"
  by (simp add: erase_requirement_def)

lemma erased_clauses: "clauses_tokens ts rs eff \<Longrightarrow>
  \<exists>rs' eff'. clauses_tokens (map erase_token ts) rs' eff' \<and> map erase_requirement rs' = map erase_requirement rs \<and>
    map_option erase_clause eff' = map_option erase_clause eff"
proof (induction rule: clauses_tokens.induct)
  case (clauses_requires r es e s ts us rs eff)
  obtain e' rs' eff' where "expression_tokens 1 (map erase_token es) e'" "erase_expression e' = erase_expression e"
    "clauses_tokens (map erase_token us) rs' eff'" "map erase_requirement rs' = map erase_requirement rs"
    "map_option erase_clause eff' = map_option erase_clause eff"
    using clauses_requires.IH erased_expression(1) [OF clauses_requires.hyps(2)] by (auto simp: gives_def)
  note parts = this
  let ?ts = "erase_token r # map erase_token es @ [erase_token s]"
  have "clauses_tokens (?ts @ map erase_token us)
      (\<lparr>requirement_expression = e', requirement_span = span_of ?ts\<rparr> # rs') eff'"
    by (rule clauses_tokens.clauses_requires [OF _ parts(1) _ refl parts(3)]) (use clauses_requires.hyps in simp_all)
  then have "clauses_tokens (map erase_token (ts @ us))
      (\<lparr>requirement_expression = e', requirement_span = span_of ?ts\<rparr> # rs') eff'"
    by (simp add: clauses_requires.hyps(4))
  with parts(2,4,5) show ?case
    by - (rule exI, rule exI, rule conjI, assumption, simp add: erase_requirement_simp)
next
  case (clauses_effects ts c us rs)
  obtain c' rs' where "effect_clause_tokens (map erase_token ts) c'" "erase_clause c' = erase_clause c"
    "clauses_tokens (map erase_token us) rs' None" "map erase_requirement rs' = map erase_requirement rs"
    using clauses_effects.IH erased_clause [OF clauses_effects.hyps(1)] by (auto simp: gives_def)
  with clauses_tokens.clauses_effects show ?case by fastforce
qed (auto intro: clauses_tokens.clauses_none)

lemma erased_contract: "contract_tokens ts c \<Longrightarrow> gives_contract (map erase_token ts) (erase_contract c)"
proof (induction rule: contract_tokens.induct)
  case (contract_braces c lb cs rs eff rb ts)
  obtain rs' eff' where "clauses_tokens (map erase_token cs) rs' eff'" "map erase_requirement rs' = map erase_requirement rs"
    "map_option erase_clause eff' = map_option erase_clause eff"
    using erased_clauses [OF contract_braces.hyps(3)] by blast
  with contract_braces.hyps contract_tokens.contract_braces [of "erase_token c" "erase_token lb" "map erase_token cs" rs' eff'
      "erase_token rb", OF _ _ _ _ refl]
  show ?case unfolding gives_def by (fastforce simp: erase_contract_def)
qed

lemma erased_modifier: "modifier_tokens k ts b \<Longrightarrow> modifier_tokens k (map erase_token ts) b"
  by (auto simp: modifier_tokens_def split: if_splits)

lemma erased_params_opt: "params_opt_tokens ts ps \<Longrightarrow>
  \<exists>ps'. params_opt_tokens (map erase_token ts) ps' \<and> map erase_param ps' = map erase_param ps"
  using erased_params by (fastforce simp: params_opt_tokens_def gives_def)

lemma erased_contract_opt: "contract_opt_tokens ts c \<Longrightarrow>
  \<exists>c'. contract_opt_tokens (map erase_token ts) c' \<and> map_option erase_contract c' = map_option erase_contract c"
proof (cases c)
  case (Some a)
  assume "contract_opt_tokens ts c"
  with Some obtain a' where "contract_tokens (map erase_token ts) a'" "erase_contract a' = erase_contract a"
    using erased_contract by (auto simp: contract_opt_tokens_def gives_def)
  with Some show ?thesis by (intro exI [of _ "Some a'"]) (simp add: contract_opt_tokens_def)
qed (simp add: contract_opt_tokens_def)

lemma erased_function:
  assumes "modifier_tokens TkExport xs exp" "modifier_tokens TkUnsafe us unsafe" "tk_kind f = TkFn"
    "tk_kind i = TkIdentifier" "tk_kind lp = TkLeftParen" "params_opt_tokens pts ps" "tk_kind rp = TkRightParen"
    "tk_kind ar = TkArrow" "type_tokens tys ty" "contract_opt_tokens cs c" "block_tokens bs b"
  shows "gives_declaration (map erase_token (xs @ us @ f # i # lp # pts @ rp # ar # tys @ cs @ bs))
    (erase_declaration (DeclFunction \<lparr>exported = exp, is_unsafe = unsafe, fn_name = ident_of i, fn_params = ps,
      return_type = ty, fn_contract = c, fn_body = b, fn_span = sp\<rparr>))"
proof -
  obtain ps' where ps': "params_opt_tokens (map erase_token pts) ps'" "map erase_param ps' = map erase_param ps"
    using erased_params_opt [OF assms(6)] by blast
  obtain ty' where ty': "type_tokens (map erase_token tys) ty'" "erase_type ty' = erase_type ty"
    using erased_type [OF assms(9)] by (auto simp: gives_def)
  obtain c' where c': "contract_opt_tokens (map erase_token cs) c'" "map_option erase_contract c' = map_option erase_contract c"
    using erased_contract_opt [OF assms(10)] by blast
  obtain b' where b': "block_tokens (map erase_token bs) b'" "erase_block b' = erase_block b"
    using erased_statement(3) [OF assms(11)] by (auto simp: gives_def)
  from declaration_function [OF erased_modifier [OF assms(1)] erased_modifier [OF assms(2)] _ _ _ ps'(1) _ _ ty'(1) c'(1) b'(1) refl,
      of "erase_token f" "erase_token i" "erase_token lp" "erase_token rp" "erase_token ar"] assms(3-5,7,8)
  show ?thesis unfolding gives_def using ps'(2) ty'(2) c'(2) b'(2) by - (rule exI, rule conjI, simp, simp)
qed

lemma erased_declaration: "declaration_tokens ts d \<Longrightarrow> gives_declaration (map erase_token ts) (erase_declaration d)"
proof (induction rule: declaration_tokens.induct)
  case (declaration_struct s i lb fts fs rb ts)
  obtain fs' where fs': "struct_fields_tokens (map erase_token fts) fs'" "map erase_field fs' = map erase_field fs"
    using erased_fields [OF declaration_struct.hyps(4)] by (auto simp: gives_def)
  from declaration_tokens.declaration_struct [OF _ _ _ fs'(1) _ refl, of "erase_token s" "erase_token i" "erase_token lb" "erase_token rb"]
    declaration_struct.hyps
  show ?case unfolding gives_def using fs'(2) by - (rule exI, rule conjI, simp, simp)
next
  case (declaration_function xs exp us unsafe f i lp pts ps rp ar tys ty cs c bs b ts)
  from erased_function [OF declaration_function(1-11)] declaration_function(12) show ?case by simp
qed

lemma erased_declarations: "declarations_tokens ts ds \<Longrightarrow> gives_declarations (map erase_token ts) (map erase_declaration ds)"
proof (induction rule: declarations_tokens.induct)
  case (declarations_more ts d us ds)
  obtain d' ds' where "declaration_tokens (map erase_token ts) d'" "erase_declaration d' = erase_declaration d"
    "declarations_tokens (map erase_token us) ds'" "map erase_declaration ds' = map erase_declaration ds"
    using declarations_more.IH erased_declaration [OF declarations_more.hyps(1)] by (auto simp: gives_def)
  with declarations_tokens.declarations_more show ?case unfolding gives_def by fastforce
qed (auto simp: gives_def intro: declarations_tokens.intros)

section \<open>The same words, the same tree\<close>

definition words :: "token list \<Rightarrow> (token_kind \<times> rstring) list" where
  "words ts = map (\<lambda>t. (tk_kind t, tk_text t)) ts"

lemma erase_tokens_words: "map erase_token ts = map (\<lambda>(k, w). \<lparr>tk_kind = k, tk_text = w, tk_line = 0, tk_column = 0,
    tk_start = 0, tk_end = 0\<rparr>) (words ts)"
  by (simp add: words_def erase_token_def)

lemma declarations_by_words:
  assumes "declarations_tokens ts ds" "declarations_tokens us es" "words ts = words us"
    "\<forall>t \<in> set ts. tk_kind t \<noteq> TkEof"
  shows "map erase_declaration ds = map erase_declaration es"
proof -
  let ?ws = "map erase_token ts"
  define stop where "stop = \<lparr>tk_kind = TkEof, tk_text = [], tk_line = 0, tk_column = 0, tk_start = 0, tk_end = 0\<rparr>"
  obtain ds' where ds': "declarations_tokens ?ws ds'" "map erase_declaration ds' = map erase_declaration ds"
    using erased_declarations [OF assms(1)] by (auto simp: gives_def)
  have "map erase_token us = ?ws" using assms(3) by (simp add: erase_tokens_words)
  then obtain es' where es': "declarations_tokens ?ws es'" "map erase_declaration es' = map erase_declaration es"
    using erased_declarations [OF assms(2)] by (auto simp: gives_def)
  define sp where "sp = span_from_positions (position_from_token (hd (?ws @ [stop]))) (position_from_token stop)"
  have p: "program_tokens (?ws @ [stop]) \<lparr>declarations = ds', program_span = sp\<rparr>"
    "program_tokens (?ws @ [stop]) \<lparr>declarations = es', program_span = sp\<rparr>"
    using ds'(1) es'(1) by (simp_all add: program_tokens_def sp_def)
  have toks: "?ws @ [stop] \<noteq> []" "tk_kind (last (?ws @ [stop])) = TkEof" "\<forall>t \<in> set (butlast (?ws @ [stop])). tk_kind t \<noteq> TkEof"
    using assms(4) by (simp_all add: stop_def)
  have "length (?ws @ [stop]) + 4 < length (?ws @ [stop]) + 8" by simp
  from parser_parse_complete [OF toks this p(1)] parser_parse_complete [OF toks this p(2)] have "ds' = es'" by simp
  with ds'(2) es'(2) show ?thesis by simp
qed

lemma program_by_words:
  assumes "lex src = Some r" "lex src' = Some r'"
    and "program_tokens (lr_tokens r) p" "program_tokens (lr_tokens r') p'"
    and "words (butlast (lr_tokens r)) = words (butlast (lr_tokens r'))"
  shows "erase_program p = erase_program p'"
  using declarations_by_words [OF _ _ assms(5) lexed_tokens(3) [OF assms(1)]] assms(3,4)
  by (simp add: program_tokens_def erase_program_def)

end
