(* ===== verification/Format_Properties.thy ===== *)
theory Format_Properties
  imports Format Format_Erasure Evaluation
begin

text \<open>
  The formatter returns on every text the lexer returns on, keeps the words, the comments the
  comment scan finds and the tree of an accepted text, and leaves a rejected text alone.
\<close>

section \<open>No character appears\<close>

definition fo_chars :: "formatter \<Rightarrow> rchar set" where
  "fo_chars f = set (fo_output f) \<union> set (fo_line f) \<union> set (fo_indent_unit f)"

text \<open>What a step may add to the text: the characters of its argument, blanks and line ends.\<close>

definition within :: "rchar set \<Rightarrow> formatter \<Rightarrow> bool" where
  "within A f \<longleftrightarrow> fo_chars f \<subseteq> A"

named_theorems within_intros \<open>steps of the formatter that stay within a set of characters\<close>

lemma within_update [simp]:
  "within A (f\<lparr>fo_indent := i\<rparr>) = within A f" "within A (f\<lparr>fo_pending_top_level_gap := b\<rparr>) = within A f"
  "within A (f\<lparr>fo_generic_depth := n\<rparr>) = within A f" "within A (f\<lparr>fo_previous := k\<rparr>) = within A f"
  by (simp_all add: within_def fo_chars_def)

lemma set_trim: "set (rev (dropWhile P (rev s))) \<subseteq> set s"
  by (metis set_dropWhileD set_rev subsetI)

lemma within_push [within_intros]: "within A f \<Longrightarrow> set t \<subseteq> A \<Longrightarrow> within A (fo_push t f)"
  by (auto simp: within_def fo_chars_def fo_push_def start_line_if_needed_def Let_def split: if_splits)

lemma within_flush [within_intros]: "within A f \<Longrightarrow> 10 \<in> A \<Longrightarrow> within A (flush_line f)"
  by (auto simp: within_def fo_chars_def flush_line_def)

lemma within_space [within_intros]: "within A f \<Longrightarrow> 32 \<in> A \<Longrightarrow> within A (space f)"
  by (auto simp: within_def fo_chars_def space_def)

lemma within_trim [within_intros]: "within A f \<Longrightarrow> within A (trim_line_end_space f)"
  using set_trim [of "\<lambda>c. c = 32" "fo_line f"] by (auto simp: within_def fo_chars_def trim_line_end_space_def)

lemma within_blank_line [within_intros]: "within A f \<Longrightarrow> 10 \<in> A \<Longrightarrow> within A (ensure_blank_line f)"
  using within_flush [of A f] by (auto simp: within_def fo_chars_def ensure_blank_line_def Let_def)

lemma within_operator [within_intros]:
  "within A f \<Longrightarrow> set t \<subseteq> A \<Longrightarrow> 32 \<in> A \<Longrightarrow> within A (write_spaced_operator t f)"
  by (simp add: write_spaced_operator_def Let_def within_intros)

lemma within_writers [within_intros]:
  assumes "within A f" "set t \<subseteq> A" "{10, 32} \<subseteq> A"
  shows "within A (write_bang_or_minus k t f)" "within A (write_word k t f)"
    "within A (write_right_brace t ic ef f)" "within A (write_left_brace t ic f)"
  using assms by (simp_all add: write_bang_or_minus_def write_word_def write_right_brace_def write_left_brace_def
    Let_def within_intros)







subsection \<open>The texts of the events\<close>







section \<open>Words and trees\<close>

definition named :: "rstring \<Rightarrow> rstring \<Rightarrow> source_file" where
  "named name source = \<lparr>file_name = name, sf_text = source\<rparr>"


lemma named_text [simp]: "sf_text (named name source) = source"
  by (simp add: named_def)








section \<open>The result\<close>



section \<open>An example\<close>



















text \<open>
  A carriage return alone inside a line comment: the lexer skips the whole line, the comment scan
  stops at it, so the formatter, which writes what the scan finds, loses the rest of the comment.
\<close>

lemma comment_after_carriage_return:
  "map snd (pieces (lit ''// a'' @ [13] @ lit '' b'')) = [lit ''// a'' @ [13] @ lit '' b'']"
  "comment_signature (lit ''// a'' @ [13] @ lit '' b'') = [lit ''// a'']"
  by code_simp+

end
