(* ===== verification/Spec2Isabelle.thy ===== *)
theory Spec2Isabelle
  imports Effects_Properties Reachability_Properties Scalar_Properties Profile_Properties Parser_Properties Typeck_Properties
    Typeck_Meaning Mir_Lower_Properties Kir_Properties Format_Properties
begin

text \<open>
  CalcKernel is an ahead-of-time compiler for a small kernel language with structs, pointers,
  slices, loops and function contracts. This library models its front end, its middle-level
  representation, parts of its optimizer and its workload profiles, as they are written in Rust
  under \<^verbatim>\<open>src/src/\<close>, and proves what makes them correct.

  \<^bold>\<open>The program.\<close> A source text is lexed (\<^verbatim>\<open>frontend/lexer.rs\<close>), parsed with error recovery
  (\<^verbatim>\<open>frontend/parser.rs\<close>) and checked (\<^verbatim>\<open>frontend/typeck.rs\<close>). The checker collects the effects of
  each function (\<^verbatim>\<open>frontend/effects.rs\<close>), which the solver of \<^verbatim>\<open>ir/effects.rs\<close> propagates through the
  call graph, and compares them with the ceilings of the contracts. A checked program is lowered
  to MIR (\<^verbatim>\<open>ir/lower.rs\<close>); \<^verbatim>\<open>ir/reachability.rs\<close> cuts the module down to what an artifact needs. MIR
  becomes KIR, a form with block parameters (\<^verbatim>\<open>ir/kir/\<close>), which the optimizer rewrites and the
  backends emit. Workload profiles (\<^verbatim>\<open>profile/\<close>) record counters of running kernels, are merged,
  and guide the optimizer. The formatter (\<^verbatim>\<open>frontend/format.rs\<close>) works on tokens and comments.

  \<^bold>\<open>How the code is read.\<close> A struct is a record, an enum a datatype with the source's
  constructors, a \<^verbatim>\<open>Result\<close> a sum with the error on the left, an \<^verbatim>\<open>Option\<close> an option. A method that
  changes its receiver returns the new one. Strings are lists of Unicode scalar values
  (\<open>rstring\<close>, written \<open>lit ''...''\<close>), with their UTF-8 and UTF-16 lengths where the code counts
  bytes or units. Integers have their width where they can overflow: words in the profiles,
  checked operations in the contracts, mathematical integers with their bounds in the scalar
  domains, as the code has them. A \<^verbatim>\<open>BTreeMap\<close> is an ordered association list; a \<^verbatim>\<open>HashMap\<close> that is only
  asked for keys is a map.

  \<^bold>\<open>Shared theories.\<close> \<open>Prelude\<close>: characters, strings, slices, checked and saturating arithmetic,
  results. \<open>Ordered_Map\<close>: the contract of an ordered map as a locale, interpreted by the
  association lists. \<open>Worklist\<close>: the contract of a search over a work list, interpreted by the
  reachability of the call graph and by that of the artifacts. \<open>Evaluation\<close>: running the lexer and
  parser on closed texts.

  \<^bold>\<open>Front end.\<close>
  \<open>Source\<close> (\<^verbatim>\<open>frontend/source.rs\<close>, \<^verbatim>\<open>diagnostics.rs\<close>) and \<open>Ast\<close> (\<^verbatim>\<open>ast.rs\<close>) hold the data.
  \<open>Lexer\<close> is the lexer; \<open>Lexer_Spec\<close> a maximal-munch reference it refines; \<open>Lexer_Properties\<close> has C1,
  C2, C3, C5: it returns exactly on texts without U+0000, its tokens are those of the reference
  at their places, and writing tokens and lexing them is a round trip.
  \<open>Parser\<close> is the parser; \<open>Parser_Grammar\<close> a grammar independent of it; \<open>Parser_Sound\<close>,
  \<open>Parser_Sound_Items\<close> and \<open>Parser_Complete\<close> the two directions; \<open>Parser_Properties\<close> has C32 and C33: it
  always returns, and reports nothing exactly on the programs of the grammar.
  \<open>Typeck\<close>, \<open>Typeck_Expression\<close>, \<open>Typeck_Contract\<close>, \<open>Typeck_Statement\<close> and \<open>Typeck_Declarations\<close> are the
  checker, \<open>Source_Effects\<close> the effect collection and \<open>check_source\<close>. \<open>Typeck_Typing\<close> is a type system and
  \<open>Typeck_Flow\<close> the ways a statement can end; \<open>Typeck_Sound\<close>, \<open>Typeck_Wellformed\<close>, \<open>Typeck_Program\<close> and
  \<open>Typeck_Safety\<close> prove that an accepted program has both. \<open>Typeck_Properties\<close> has C35 (types), C36
  (returns and jumps) and C37 (the entry); \<open>Typeck_Meaning\<close> has C38: checked contracts mean what is
  written.
  \<open>Format\<close>, \<open>Format_Erasure\<close> and \<open>Format_Properties\<close> are the formatter and C40: it keeps tokens,
  comments and the syntax tree.

  \<^bold>\<open>Middle level.\<close>
  \<open>Mir_Model\<close> (\<^verbatim>\<open>ir/model.rs\<close>) holds the data. \<open>Mir_Lower\<close> is the lowering, its context record passed
  along; \<open>Mir_Lower_Sound\<close> proves by induction on the syntax that every label handed out starts one
  block (\<open>lower_opens D\<close>: a part of the lowering that starts the blocks of the labels \<open>D\<close>), and
  \<open>Mir_Lower_Properties\<close> has C4, the control flow graphs it yields are whole, and C34, an accepted
  program it rejects.
  \<open>Effects\<close> (\<^verbatim>\<open>ir/effects.rs\<close>) is the solver; \<open>Effects_Graph\<close>, \<open>Effects_Lattice\<close> and \<open>Effects_Sound\<close> the
  components, the lattice laws and the iteration; \<open>Effects_Properties\<close> has C6 to C10: the components are
  the classes of mutual calls, the summaries are sound whatever the budget, and the least
  solution when it suffices.
  \<open>Reachability\<close> and \<open>Reachability_Properties\<close> are artifact preparation and C11 to C14.

  \<^bold>\<open>Optimizer.\<close>
  \<open>Scalar\<close> (\<^verbatim>\<open>optimizer/analysis/scalar.rs\<close>, \<^verbatim>\<open>congruence.rs\<close>, \<^verbatim>\<open>known_bits.rs\<close>, \<^verbatim>\<open>affine.rs\<close>,
  \<^verbatim>\<open>contract_range.rs\<close>) has the integer domains, \<open>Scalar_Sound\<close> what abstract values mean, and
  \<open>Scalar_Properties\<close> C15 to C24: transfers, comparisons, refinement, join, widening, narrowing and
  contract ranges are sound; C24 is a program on which the checked division is not.
  \<open>Kir_Model\<close> (\<^verbatim>\<open>ir/kir/model.rs\<close>) holds the data of KIR, \<open>Kir_Dominance\<close> (\<^verbatim>\<open>ir/kir/dominance.rs\<close>) the
  dominator matrix, \<open>Kir_Dominance_Sound\<close> and \<open>Kir_Properties\<close> C39: it is dominance on paths.

  \<^bold>\<open>Workload profiles.\<close>
  \<open>Profile_Wire\<close> has the byte level with the locale \<open>codec\<close> (a reader and a writer that are inverse),
  interpreted by every field of the formats; \<open>Profile_Identity\<close> (\<^verbatim>\<open>profile/identity.rs\<close>), \<open>Profile_Format\<close>
  and \<open>Profile_Roundtrip\<close> (\<^verbatim>\<open>format.rs\<close>), \<open>Profile_Merge\<close> (\<^verbatim>\<open>merge.rs\<close>), \<open>Profile_Template\<close>
  (\<^verbatim>\<open>generation.rs\<close>), \<open>Profile_Analysis\<close> (\<^verbatim>\<open>analysis.rs\<close>), \<open>Profile_Transfer\<close> (\<^verbatim>\<open>apply.rs\<close>) and
  \<open>Profile_Cost\<close> (\<^verbatim>\<open>cost.rs\<close>) follow the files; \<open>Profile_Properties\<close> has C25 to C31: the parsers accept
  exactly the serializations, merging adds up whatever the order, and cost decisions are exact.

  \<^bold>\<open>Bounds.\<close> The lexer is a partial function with value \<open>None\<close> where it would not return; C1 says
  when. The parser runs on a fuel of the number of tokens plus eight, which C32 proves enough for
  every list of tokens. The effect solver has the budget of the code, at most \<^verbatim>\<open>u32::MAX\<close> steps. The
  loop over the dominator matrix is a partial function that C39 proves to end. Everything else is
  a total function with a termination proof.

  \<^bold>\<open>Parameters.\<close> SHA-256 and the debug format of strings are arguments of the profile definitions;
  nothing is assumed of a digest but its length where the format fixes it.

  \<^bold>\<open>Not modelled.\<close> The rendering of diagnostics, of profiles as JSON and of MIR as text; the editor
  services, the command line, the cache and the language server, which are input and output; the
  scan of directories of shards. MIR validation, the builder and the validator of KIR, the passes,
  the plans and their checkers, and the analyses of loops and memory: they are a large part of the
  program, and stating their correctness needs a semantics of KIR first, which the next component
  of this library would be. The backends emit text and objects for foreign tools.
\<close>

end
